(* ===== verification/Zvec_Prelude.thy ===== *)
theory Zvec_Prelude
  imports Main "HOL-Library.Word" "HOL-Library.List_Lexorder" "HOL-Library.AList"
begin

text \<open>
  The prelude of the development: the types every component shares (bytes, the machine
  integers of Go), the slice expression \<open>x[lo:hi]\<close>, the little-endian integer codec of
  \<open>encoding/binary\<close> and the facts on lists, association lists and words that carry the
  proofs of the components.  The collection \<open>codec\<close> holds the facts that evaluate a field
  of an encoded header.
\<close>

unbundle bit_operations_syntax

named_theorems codec

type_synonym u8 = "8 word"
type_synonym u16 = "16 word"
type_synonym u32 = "32 word"
type_synonym u64 = "64 word"
type_synonym bytes = "u8 list"

section \<open>Slices\<close>

text \<open>The Go expression \<open>xs[lo:hi]\<close>.  Every use in the model stands behind the guard that
  puts \<open>hi\<close> inside the slice, as in the source.\<close>

definition bslice :: "nat \<Rightarrow> nat \<Rightarrow> 'a list \<Rightarrow> 'a list" where
  "bslice lo hi xs = take (hi - lo) (drop lo xs)"

lemma length_bslice [simp]: "length (bslice lo hi xs) = min (hi - lo) (length xs - lo)"
  by (simp add: bslice_def)

lemma bslice_append_left: "hi \<le> length xs \<Longrightarrow> bslice lo hi (xs @ ys) = bslice lo hi xs"
  by (simp add: bslice_def)

lemma bslice_append_right:
  "length xs \<le> lo \<Longrightarrow> bslice lo hi (xs @ ys) = bslice (lo - length xs) (hi - length xs) ys"
  by (simp add: bslice_def)

lemma bslice_all: "length xs = n \<Longrightarrow> bslice 0 n xs = xs"
  by (simp add: bslice_def)

lemma bslice_0_take: "bslice 0 n xs = take n xs"
  by (simp add: bslice_def)

lemma bslice_drop: "bslice lo hi (drop k xs) = bslice (k + lo) (k + hi) xs"
  by (simp add: bslice_def add.commute)

lemma bslice_glue:
  "lo \<le> mid \<Longrightarrow> mid \<le> hi \<Longrightarrow> bslice lo mid xs @ bslice mid hi xs = bslice lo hi xs"
proof -
  assume "lo \<le> mid" and "mid \<le> hi"
  then have "drop mid xs = drop (mid - lo) (drop lo xs)" by simp
  moreover have "hi - lo = (mid - lo) + (hi - mid)"
    using \<open>lo \<le> mid\<close> \<open>mid \<le> hi\<close> by simp
  ultimately show ?thesis by (simp add: bslice_def take_add del: drop_drop)
qed

section \<open>Little-endian integers\<close>

fun le_bytes :: "nat \<Rightarrow> nat \<Rightarrow> bytes" where
  "le_bytes 0 v = []"
| "le_bytes (Suc n) v = word_of_nat (v mod 256) # le_bytes n (v div 256)"

fun le_nat :: "bytes \<Rightarrow> nat" where
  "le_nat [] = 0"
| "le_nat (b # bs) = unat b + 256 * le_nat bs"

lemma length_le_bytes [simp]: "length (le_bytes n v) = n"
  by (induction n arbitrary: v) auto

lemma unat_byte_lt: "unat (b :: u8) < 256"
  using unsigned_less [of b] by simp

lemma unat_byte_of_mod [simp]: "unat (word_of_nat (v mod 256) :: u8) = v mod 256"
  by (simp add: unat_of_nat)

lemma le_nat_le_bytes: "v < 256 ^ n \<Longrightarrow> le_nat (le_bytes n v) = v"
proof (induction n arbitrary: v)
  case (Suc n)
  then have "v div 256 < 256 ^ n"
    by (simp add: less_mult_imp_div_less mult.commute)
  then show ?case using Suc.IH [of "v div 256"] by simp
qed simp

lemma le_nat_less: "le_nat bs < 256 ^ length bs"
proof (induction bs)
  case (Cons b bs)
  have "unat b + 256 * le_nat bs < 256 * Suc (le_nat bs)"
    using unat_byte_lt [of b] by simp
  also have "\<dots> \<le> 256 * 256 ^ length bs" using Cons by simp
  finally show ?case by simp
qed simp

lemma le_bytes_le_nat: "le_bytes (length bs) (le_nat bs) = bs"
proof (induction bs)
  case (Cons b bs)
  have "(unat b + 256 * le_nat bs) mod 256 = unat b"
    using unat_byte_lt [of b] by simp
  moreover have "(unat b + 256 * le_nat bs) div 256 = le_nat bs"
    using unat_byte_lt [of b] by simp
  ultimately show ?case using Cons by simp
qed simp

text \<open>\<open>binary.LittleEndian.PutUint16\<close> and its siblings write the bytes at their argument;
  \<open>Uint16\<close> and its siblings read them.\<close>

definition PutUint16 :: "u16 \<Rightarrow> bytes" where "PutUint16 v = le_bytes 2 (unat v)"
definition PutUint32 :: "u32 \<Rightarrow> bytes" where "PutUint32 v = le_bytes 4 (unat v)"
definition PutUint64 :: "u64 \<Rightarrow> bytes" where "PutUint64 v = le_bytes 8 (unat v)"
definition Uint16 :: "bytes \<Rightarrow> u16" where "Uint16 bs = word_of_nat (le_nat bs)"
definition Uint32 :: "bytes \<Rightarrow> u32" where "Uint32 bs = word_of_nat (le_nat bs)"
definition Uint64 :: "bytes \<Rightarrow> u64" where "Uint64 bs = word_of_nat (le_nat bs)"

lemma length_PutUint [simp, codec]:
  "length (PutUint16 a) = 2" "length (PutUint32 b) = 4" "length (PutUint64 c) = 8"
  by (simp_all add: PutUint16_def PutUint32_def PutUint64_def)

lemma unat_u16_lt: "unat (v :: u16) < 256 ^ 2" using unsigned_less [of v] by simp
lemma unat_u32_lt: "unat (v :: u32) < 256 ^ 4" using unsigned_less [of v] by simp
lemma unat_u64_lt: "unat (v :: u64) < 256 ^ 8" using unsigned_less [of v] by simp

lemma Uint16_PutUint16 [simp, codec]: "Uint16 (PutUint16 v) = v"
  by (simp add: Uint16_def PutUint16_def le_nat_le_bytes [OF unat_u16_lt])

lemma Uint32_PutUint32 [simp, codec]: "Uint32 (PutUint32 v) = v"
  by (simp add: Uint32_def PutUint32_def le_nat_le_bytes [OF unat_u32_lt])

lemma Uint64_PutUint64 [simp, codec]: "Uint64 (PutUint64 v) = v"
  by (simp add: Uint64_def PutUint64_def le_nat_le_bytes [OF unat_u64_lt])

lemma PutUint16_Uint16: "length bs = 2 \<Longrightarrow> PutUint16 (Uint16 bs) = bs"
  using le_nat_less [of bs] le_bytes_le_nat [of bs]
  by (simp add: Uint16_def PutUint16_def unat_of_nat)

lemma PutUint32_Uint32: "length bs = 4 \<Longrightarrow> PutUint32 (Uint32 bs) = bs"
  using le_nat_less [of bs] le_bytes_le_nat [of bs]
  by (simp add: Uint32_def PutUint32_def unat_of_nat)

lemma PutUint64_Uint64: "length bs = 8 \<Longrightarrow> PutUint64 (Uint64 bs) = bs"
  using le_nat_less [of bs] le_bytes_le_nat [of bs]
  by (simp add: Uint64_def PutUint64_def unat_of_nat)

lemma le_nat_zeros [simp]: "le_nat (replicate n 0) = 0"
  by (induction n) auto

lemma Uint_zeros [simp, codec]:
  "Uint16 (replicate n 0) = 0" "Uint32 (replicate n 0) = 0" "Uint64 (replicate n 0) = 0"
  by (simp_all add: Uint16_def Uint32_def Uint64_def)

lemma Uint32_eq_0: "length bs = 4 \<Longrightarrow> Uint32 bs = 0 \<longleftrightarrow> bs = replicate 4 0"
  by (metis PutUint32_Uint32 Uint_zeros(2) length_replicate)

lemma Uint64_eq_0: "length bs = 8 \<Longrightarrow> Uint64 bs = 0 \<longleftrightarrow> bs = replicate 8 0"
  by (metis PutUint64_Uint64 Uint_zeros(3) length_replicate)

text \<open>The conversion \<open>uint32(len(x))\<close> loses nothing below the width.\<close>

definition len32 :: "'a list \<Rightarrow> u32" where "len32 xs = word_of_nat (length xs)"
definition len64 :: "'a list \<Rightarrow> u64" where "len64 xs = word_of_nat (length xs)"

lemma unat_len32: "length xs < 2 ^ 32 \<Longrightarrow> unat (len32 xs) = length xs"
  by (simp add: len32_def unat_of_nat)

lemma unat_len64: "length xs < 2 ^ 64 \<Longrightarrow> unat (len64 xs) = length xs"
  by (simp add: len64_def unat_of_nat)

text \<open>The largest \<open>uint64\<close>, \<open>math.MaxUint64\<close>.\<close>

abbreviation MaxUint64 :: u64 where "MaxUint64 \<equiv> - 1"

lemma unat_MaxUint64: "unat MaxUint64 = 2 ^ 64 - 1"
  by (simp add: unsigned_minus_1_eq_mask mask_eq_exp_minus_1)

lemma unat_plus_one_u64: "v \<noteq> MaxUint64 \<Longrightarrow> unat (v + 1) = unat v + 1"
proof -
  assume "v \<noteq> MaxUint64"
  then have "1 + v \<noteq> 0" by (metis add.commute eq_neg_iff_add_eq_0)
  then show ?thesis using unatSuc [of v] by (simp add: add.commute)
qed

end
