(* ===== verification/Go_Runtime.thy ===== *)
theory Go_Runtime
  imports Zvec_Prelude
begin

text \<open>
  What the storage engine uses of the language and its standard library: error values and
  \<open>errors.Is\<close>, contexts and their cancellation, files with a durable prefix
  (\<open>os.File.WriteAt\<close>, \<open>Sync\<close>, \<open>Truncate\<close>), the positional readers and writers of
  \<open>internal/ailego/file.go\<close>, the Castagnoli CRC of \<open>internal/ailego/crc32c.go\<close> and UTF-8
  validation.  The environment is a record \<open>world\<close> that every effectful operation
  threads: how many more polls of the context succeed, the outcomes of the next file
  operations, and the files.
\<close>

section \<open>Errors\<close>

text \<open>The package-level error variables (\<open>var ErrX = errors.New(...)\<close>) and the errors of
  the standard library that the code compares with \<open>errors.Is\<close>.\<close>

datatype sentinel =
    ErrWALNotFound | ErrWALExists | ErrWALCorrupt | ErrWALClosed | ErrWALReadOnly
  | ErrWALPoisoned | ErrWALRecordTooLarge
  | ErrSnapshotCorrupt
  | ErrSegmentCorrupt | ErrSegmentSealed | ErrSegmentFull | ErrSegmentNotFound
  | ErrDocumentNotFound
  | ErrPrimaryKeyExists | ErrPrimaryKeyNotFound
  | ErrManifestNotFound | ErrManifestCorrupt | ErrManifestConflict | ErrManifestExists
  | ErrUnsupportedFormatVersion
  | ErrCollectionClosed | ErrCollectionCorrupt | ErrReadOnly
  | OsErrExist | OsErrNotExist | IoEOF | IoErrShortWrite | ContextCanceled

text \<open>\<open>NewError m\<close> is \<open>errors.New(m)\<close> or a format without \<open>%w\<close>; \<open>Wrap m e\<close> is
  \<open>fmt.Errorf\<close> with \<open>%w\<close> applied to \<open>e\<close>.  The numbers a message prints are left
  out.\<close>

datatype go_error = Sentinel sentinel | NewError string | Wrap string go_error

fun errors_Is :: "go_error \<Rightarrow> sentinel \<Rightarrow> bool" where
  "errors_Is (Sentinel t) s = (t = s)"
| "errors_Is (NewError m) s = False"
| "errors_Is (Wrap m e) s = errors_Is e s"

abbreviation corrupt :: "sentinel \<Rightarrow> string \<Rightarrow> go_error" where
  "corrupt s m \<equiv> Wrap m (Sentinel s)"

type_synonym 'a result = "go_error + 'a"

section \<open>Files\<close>

text \<open>A file and the length of the prefix that the last successful \<open>Sync\<close> made durable.\<close>

record disk_file =
  content :: bytes
  synced :: nat

text \<open>\<open>IoShort n\<close> is a write that stores \<open>n\<close> bytes and reports no error, \<open>IoErr n\<close> one
  that stores \<open>n\<close> bytes and fails.  Operations other than writes read \<open>IoErr\<close> as
  failure and anything else as success.  An exhausted list of outcomes succeeds.\<close>

datatype io_outcome = IoOk | IoShort nat | IoErr nat

text \<open>\<open>polls\<close> is the number of further calls of \<open>ctx.Err()\<close> that return nil, \<open>None\<close>
  when the context is never cancelled.  \<open>paths\<close> lists the paths at which files have been created, so
  that a directory can be read, and \<open>dirs\<close> the directories.\<close>

record world =
  polls :: "nat option"
  outcomes :: "io_outcome list"
  fs :: "string \<Rightarrow> disk_file option"
  paths :: "string list"
  dirs :: "string list"

text \<open>A world in which nothing is cancelled, nothing fails and the only directory is the current one.\<close>

definition quiet_world :: world where
  "quiet_world = \<lparr>polls = None, outcomes = [], fs = Map.empty, paths = [], dirs = [''.'']\<rparr>"

definition io_error :: go_error where
  "io_error = NewError ''input/output error''"

definition ctx_Err :: "world \<Rightarrow> go_error option \<times> world" where
  "ctx_Err w = (case polls w of
       None \<Rightarrow> (None, w)
     | Some 0 \<Rightarrow> (Some (Sentinel ContextCanceled), w)
     | Some (Suc n) \<Rightarrow> (None, w\<lparr>polls := Some n\<rparr>))"

text \<open>\<open>context.WithoutCancel\<close>: the derived context is never cancelled; the caller's own
  context keeps its state.\<close>

definition without_cancel :: "world \<Rightarrow> world" where
  "without_cancel w = w\<lparr>polls := None\<rparr>"

text \<open>\<open>WriteAt\<close> overwrites from the offset on, extends the file where it ends before, and
  fills a hole with zeros.\<close>

definition write_at :: "bytes \<Rightarrow> nat \<Rightarrow> bytes \<Rightarrow> bytes" where
  "write_at c off src =
     (if src = [] then c
      else take off (c @ replicate (off - length c) 0) @ src @ drop (off + length src) c)"

text \<open>\<open>ailego.WriteFullAt\<close>: the loop over short writes.  The result is the error, the file
  and the outcomes that are left.\<close>

fun WriteFullAt ::
  "io_outcome list \<Rightarrow> bytes \<Rightarrow> bytes \<Rightarrow> nat \<Rightarrow> go_error option \<times> bytes \<times> io_outcome list" where
  "WriteFullAt ios c [] off = (None, c, ios)"
| "WriteFullAt [] c src off = (None, write_at c off src, [])"
| "WriteFullAt (IoOk # ios) c src off = (None, write_at c off src, ios)"
| "WriteFullAt (IoErr n # ios) c src off = (Some io_error, write_at c off (take n src), ios)"
| "WriteFullAt (IoShort n # ios) c src off =
     (if n = 0 then (Some (Sentinel IoErrShortWrite), c, ios)
      else WriteFullAt ios (write_at c off (take n src)) (drop n src) (off + n))"

text \<open>\<open>ailego.ReadFullAt\<close> of \<open>n\<close> bytes at \<open>off\<close>.\<close>

definition ReadFullAt :: "bytes \<Rightarrow> nat \<Rightarrow> nat \<Rightarrow> bytes result" where
  "ReadFullAt c off n =
     (if off + n \<le> length c then Inr (take n (drop off c)) else Inl (Sentinel IoEOF))"

text \<open>The outcome of the next file operation that is not a write.\<close>

definition io_step :: "world \<Rightarrow> go_error option \<times> world" where
  "io_step w = (case outcomes w of
       [] \<Rightarrow> (None, w)
     | IoErr n # ios \<Rightarrow> (Some io_error, w\<lparr>outcomes := ios\<rparr>)
     | _ # ios \<Rightarrow> (None, w\<lparr>outcomes := ios\<rparr>))"

text \<open>\<open>file.Sync()\<close>, \<open>file.Truncate(n)\<close> and the positional write on an open file.  An open
  file that is no longer linked keeps no content in the model, so the operation has no
  effect on the other files.\<close>

definition set_file :: "string \<Rightarrow> disk_file \<Rightarrow> world \<Rightarrow> world" where
  "set_file name f w = w\<lparr>fs := (fs w)(name \<mapsto> f), paths := List.insert name (paths w)\<rparr>"

definition file_Sync :: "string \<Rightarrow> world \<Rightarrow> go_error option \<times> world" where
  "file_Sync name w = (case io_step w of
       (Some e, w') \<Rightarrow> (Some e, w')
     | (None, w') \<Rightarrow> (case fs w' name of
           None \<Rightarrow> (None, w')
         | Some f \<Rightarrow> (None, set_file name (f\<lparr>synced := length (content f)\<rparr>) w')))"

definition file_Truncate :: "string \<Rightarrow> nat \<Rightarrow> world \<Rightarrow> go_error option \<times> world" where
  "file_Truncate name n w = (case io_step w of
       (Some e, w') \<Rightarrow> (Some e, w')
     | (None, w') \<Rightarrow> (case fs w' name of
           None \<Rightarrow> (None, w')
         | Some f \<Rightarrow> (None, set_file name
             \<lparr>content = take n (content f), synced = min n (synced f)\<rparr> w')))"

definition file_WriteFullAt :: "string \<Rightarrow> bytes \<Rightarrow> nat \<Rightarrow> world \<Rightarrow> go_error option \<times> world" where
  "file_WriteFullAt name src off w = (case fs w name of
       None \<Rightarrow> (Some (Sentinel OsErrNotExist), w)
     | Some f \<Rightarrow> (case WriteFullAt (outcomes w) (content f) src off of
           (e, c, ios) \<Rightarrow> (e, set_file name (f\<lparr>content := c\<rparr>) (w\<lparr>outcomes := ios\<rparr>))))"

text \<open>\<open>os.Stat\<close>, \<open>os.OpenFile\<close> with \<open>O_CREATE|O_EXCL\<close>, \<open>os.Open\<close>, \<open>os.Remove\<close> and the
  synchronisation of a directory.  No directory stands at a path the code gives to a file.\<close>

definition os_Stat :: "string \<Rightarrow> world \<Rightarrow> go_error option \<times> world" where
  "os_Stat name w = (case io_step w of
       (Some e, w') \<Rightarrow> (Some e, w')
     | (None, w') \<Rightarrow> (if fs w' name = None then (Some (Sentinel OsErrNotExist), w') else (None, w')))"

definition os_CreateExcl :: "string \<Rightarrow> world \<Rightarrow> go_error option \<times> world" where
  "os_CreateExcl name w = (case io_step w of
       (Some e, w') \<Rightarrow> (Some e, w')
     | (None, w') \<Rightarrow>
         (if fs w' name \<noteq> None then (Some (Sentinel OsErrExist), w')
          else (None, set_file name \<lparr>content = [], synced = 0\<rparr> w')))"

definition os_Open :: "string \<Rightarrow> world \<Rightarrow> bytes result \<times> world" where
  "os_Open name w = (case io_step w of
       (Some e, w') \<Rightarrow> (Inl e, w')
     | (None, w') \<Rightarrow> (case fs w' name of
           None \<Rightarrow> (Inl (Sentinel OsErrNotExist), w')
         | Some f \<Rightarrow> (Inr (content f), w')))"

definition os_Remove :: "string \<Rightarrow> world \<Rightarrow> go_error option \<times> world" where
  "os_Remove name w = (case io_step w of
       (Some e, w') \<Rightarrow> (Some e, w')
     | (None, w') \<Rightarrow>
         (if fs w' name = None then (Some (Sentinel OsErrNotExist), w')
          else (None, w'\<lparr>fs := (fs w')(name := None)\<rparr>)))"

definition syncDirectory :: "world \<Rightarrow> go_error option \<times> world" where
  "syncDirectory w = io_step w"

text \<open>A world whose context is not cancelled and whose file operations all succeed.\<close>

definition calm :: "world \<Rightarrow> bool" where
  "calm w \<longleftrightarrow> polls w = None \<and> outcomes w = []"

text \<open>After a crash an append-only file holds some prefix of its bytes that contains the
  durable one.\<close>

definition crash_image :: "disk_file \<Rightarrow> bytes \<Rightarrow> bool" where
  "crash_image f c \<longleftrightarrow> (\<exists>n \<ge> synced f. c = take n (content f))"

section \<open>CRC-32C\<close>

text \<open>\<open>hash/crc32\<close> with the Castagnoli polynomial, bit by bit, and the two functions of
  \<open>internal/ailego/crc32c.go\<close>.\<close>

definition crc_bit :: "u32 \<Rightarrow> u32" where
  "crc_bit c = (if bit c 0 then drop_bit 1 c XOR 0x82F63B78 else drop_bit 1 c)"

definition crc_byte :: "u32 \<Rightarrow> u8 \<Rightarrow> u32" where
  "crc_byte c b = (crc_bit ^^ 8) (c XOR ucast b)"

definition UpdateCRC32C :: "u32 \<Rightarrow> bytes \<Rightarrow> u32" where
  "UpdateCRC32C crc data = NOT (foldl crc_byte (NOT crc) data)"

definition CRC32C :: "bytes \<Rightarrow> u32" where
  "CRC32C data = UpdateCRC32C 0 data"

section \<open>UTF-8\<close>

text \<open>\<open>utf8.ValidString\<close>: the lead byte selects the range of the second byte, the others
  are continuation bytes.\<close>

definition in_range :: "u8 \<Rightarrow> u8 \<Rightarrow> u8 \<Rightarrow> bool" where
  "in_range lo hi b \<longleftrightarrow> lo \<le> b \<and> b \<le> hi"

abbreviation continuation :: "u8 \<Rightarrow> bool" where
  "continuation b \<equiv> in_range 0x80 0xBF b"

definition utf8_two :: "u8 \<Rightarrow> bool" where
  "utf8_two b \<longleftrightarrow> in_range 0xC2 0xDF b"

definition utf8_three :: "u8 \<Rightarrow> u8 \<Rightarrow> bool" where
  "utf8_three b c \<longleftrightarrow>
     (b = 0xE0 \<and> in_range 0xA0 0xBF c) \<or> (b = 0xED \<and> in_range 0x80 0x9F c) \<or>
     ((in_range 0xE1 0xEC b \<or> in_range 0xEE 0xEF b) \<and> continuation c)"

definition utf8_four :: "u8 \<Rightarrow> u8 \<Rightarrow> bool" where
  "utf8_four b c \<longleftrightarrow>
     (b = 0xF0 \<and> in_range 0x90 0xBF c) \<or> (b = 0xF4 \<and> in_range 0x80 0x8F c) \<or>
     (in_range 0xF1 0xF3 b \<and> continuation c)"

fun utf8_valid :: "bytes \<Rightarrow> bool" where
  "utf8_valid [] = True"
| "utf8_valid (b # bs) =
     (if b < 0x80 then utf8_valid bs
      else case bs of
        [] \<Rightarrow> False
      | c # cs \<Rightarrow>
          if utf8_two b then continuation c \<and> utf8_valid cs
          else (case cs of
            [] \<Rightarrow> False
          | d # ds \<Rightarrow>
              if utf8_three b c then continuation d \<and> utf8_valid ds
              else (case ds of
                [] \<Rightarrow> False
              | e # es \<Rightarrow> utf8_four b c \<and> continuation d \<and> continuation e \<and> utf8_valid es)))"

section \<open>Facts about the environment\<close>

lemma errors_Is_corrupt [simp]: "errors_Is (corrupt s m) t = (s = t)"
  by simp

lemma ctx_Err_calm [simp]: "polls w = None \<Longrightarrow> ctx_Err w = (None, w)"
  by (simp add: ctx_Err_def)

lemma ctx_Err_frame:
  "ctx_Err w = (r, w') \<Longrightarrow> fs w' = fs w \<and> outcomes w' = outcomes w"
  by (auto simp: ctx_Err_def split: option.splits nat.splits)

lemma io_step_calm [simp]: "outcomes w = [] \<Longrightarrow> io_step w = (None, w)"
  by (simp add: io_step_def)

lemma io_step_frame: "io_step w = (r, w') \<Longrightarrow> fs w' = fs w \<and> polls w' = polls w"
  by (auto simp: io_step_def split: list.splits io_outcome.splits)

lemma without_cancel_simps [simp]:
  "polls (without_cancel w) = None" "fs (without_cancel w) = fs w"
  "outcomes (without_cancel w) = outcomes w"
  by (simp_all add: without_cancel_def)

lemma set_file_simps [simp]:
  "polls (set_file n f w) = polls w" "outcomes (set_file n f w) = outcomes w"
  "fs (set_file n f w) = (fs w)(n \<mapsto> f)" "dirs (set_file n f w) = dirs w"
  by (simp_all add: set_file_def)

lemma write_at_end [simp]: "write_at c (length c) src = c @ src"
  by (simp add: write_at_def)

text \<open>A write at the end of the file stores a prefix of the data, all of it when no error
  is reported, whatever the outcomes are.\<close>

lemma WriteFullAt_at_end:
  "WriteFullAt ios c src (length c) = (e, c', ios') \<Longrightarrow>
     \<exists>n \<le> length src. c' = c @ take n src \<and> (e = None \<longrightarrow> n = length src)"
proof (induction ios c src "length c" arbitrary: c rule: WriteFullAt.induct)
  case (5 n ios c v va)
  let ?src = "v # va"
  show ?case
  proof (cases "n = 0")
    case True
    with 5 show ?thesis by (auto intro: exI [of _ 0])
  next
    case False
    let ?c = "c @ take n ?src"
    show ?thesis
    proof (cases "n \<le> length ?src")
      case True
      then have off: "length c + n = length ?c" by simp
      from 5(2) False have "WriteFullAt ios ?c (drop n ?src) (length ?c) = (e, c', ios')"
        using off by (simp del: take_Cons' drop_Cons')
      from 5(1) [OF False _ this] off obtain m where
        m: "m \<le> length (drop n ?src)" "c' = ?c @ take m (drop n ?src)"
        "e = None \<longrightarrow> m = length (drop n ?src)"
        by auto
      have "c' = c @ take (n + m) ?src" using m(2) by (simp add: take_add)
      then show ?thesis using m True by (intro exI [of _ "n + m"]) auto
    next
      case big: False
      then have "drop n ?src = []" "take n ?src = ?src" by simp_all
      with 5(2) False have "c' = c @ ?src" by (simp del: take_Cons' drop_Cons')
      then show ?thesis by (intro exI [of _ "length ?src"]) simp
    qed
  qed
next
  case (4 n ios c v va)
  then show ?case
    by (intro exI [of _ "min n (length (v # va))"]) (auto simp: min_def)
qed auto

lemma ReadFullAt_Inr: "off + n \<le> length c \<Longrightarrow> ReadFullAt c off n = Inr (take n (drop off c))"
  by (simp add: ReadFullAt_def)

section \<open>Facts about the checksum\<close>

text \<open>The checksum of a concatenation, and its sensitivity: two inputs that differ in one
  byte never have the same checksum, because every step is injective in the state and in the
  byte.\<close>

lemma UpdateCRC32C_append: "UpdateCRC32C (UpdateCRC32C c xs) ys = UpdateCRC32C c (xs @ ys)"
  by (simp add: UpdateCRC32C_def)

lemma UpdateCRC32C_CRC32C: "UpdateCRC32C (CRC32C xs) ys = CRC32C (xs @ ys)"
  by (simp add: CRC32C_def UpdateCRC32C_append)

lemma crc_bit_top: "bit (crc_bit c) 31 \<longleftrightarrow> bit c 0"
proof -
  have p: "bit (0x82F63B78 :: u32) 31" by simp
  have "\<not> bit (drop_bit 1 c) 31" using bit_imp_le_length [of c 32] by (auto simp: bit_drop_bit_eq)
  then show ?thesis using p by (auto simp: crc_bit_def bit_xor_iff)
qed

lemma inj_crc_bit: "inj crc_bit"
proof (rule injI)
  fix c d :: u32
  assume eq: "crc_bit c = crc_bit d"
  then have par: "bit c 0 = bit d 0" by (metis crc_bit_top)
  then have h: "drop_bit 1 c = drop_bit 1 d"
    using eq unfolding crc_bit_def by (metis bit.xor_left_self xor.commute)
  show "c = d"
  proof (rule bit_eqI)
    fix n
    show "bit c n = bit d n"
    proof (cases n)
      case 0 then show ?thesis using par by simp
    next
      case (Suc m)
      then show ?thesis using arg_cong [OF h, of "\<lambda>x. bit x m"] by (simp add: bit_drop_bit_eq)
    qed
  qed
qed

lemma crc_byte_inj_state: "crc_byte c b = crc_byte d b \<Longrightarrow> c = d"
proof -
  assume "crc_byte c b = crc_byte d b"
  then have "c XOR ucast b = d XOR ucast b"
    using inj_fn [OF inj_crc_bit, of 8] unfolding crc_byte_def by (auto dest: injD)
  then show ?thesis by (metis bit.xor_left_self xor.commute)
qed

lemma crc_byte_inj_byte: "crc_byte c a = crc_byte c b \<Longrightarrow> a = b"
proof -
  assume "crc_byte c a = crc_byte c b"
  then have "c XOR ucast a = c XOR (ucast b :: u32)"
    using inj_fn [OF inj_crc_bit, of 8] unfolding crc_byte_def by (auto dest: injD)
  then have "(ucast a :: u32) = ucast b" by (metis bit.xor_left_self)
  then have "(ucast (ucast a :: u32) :: u8) = ucast (ucast b :: u32)" by simp
  then show ?thesis by (simp add: ucast_up_ucast_id is_up)
qed

lemma foldl_crc_inj: "foldl crc_byte c xs = foldl crc_byte d xs \<Longrightarrow> c = d"
  by (induction xs arbitrary: c d) (auto dest: crc_byte_inj_state)

lemma CRC32C_single_byte:
  assumes "b \<noteq> b'"
  shows "CRC32C (xs @ b # ys) \<noteq> CRC32C (xs @ b' # ys)"
proof
  assume "CRC32C (xs @ b # ys) = CRC32C (xs @ b' # ys)"
  then have "crc_byte (foldl crc_byte (NOT 0) xs) b = crc_byte (foldl crc_byte (NOT 0) xs) b'"
    by (auto simp: CRC32C_def UpdateCRC32C_def dest: foldl_crc_inj)
  then show False using assms crc_byte_inj_byte by blast
qed


lemma crc_byte_unfold: "crc_byte c b = crc_bit (crc_bit (crc_bit (crc_bit (crc_bit (crc_bit (crc_bit (crc_bit (c XOR ucast b))))))))"
  by (simp add: crc_byte_def eval_nat_numeral)

text \<open>The published check value of the polynomial, on the bytes of \<open>123456789\<close>.\<close>

lemma CRC32C_check: "CRC32C [0x31,0x32,0x33,0x34,0x35,0x36,0x37,0x38,0x39] = 0xE3069283"
  by (simp add: CRC32C_def UpdateCRC32C_def crc_byte_unfold crc_bit_def)
end
