(* ===== verification/Paths.thy ===== *)
theory Paths
  imports Go_Runtime
begin

text \<open>
  File names: \<open>path.Clean\<close> and the check \<open>validatePortableRelativePath\<close> of
  \<open>internal/db/snapshot.go\<close>, the decimal numbers of \<open>fmt\<close> and \<open>strconv\<close>, and the names of
  the files of a collection (\<open>internal/db/version_manager.go\<close>,
  \<open>internal/db/collection.go\<close>).
\<close>

section \<open>Clean paths\<close>

fun split_slash :: "string \<Rightarrow> string list" where
  "split_slash [] = [[]]"
| "split_slash (c # cs) =
     (if c = CHR ''/'' then [] # split_slash cs
      else case split_slash cs of [] \<Rightarrow> [[c]] | x # xs \<Rightarrow> (c # x) # xs)"

fun join_slash :: "string list \<Rightarrow> string" where
  "join_slash [] = []"
| "join_slash [x] = x"
| "join_slash (x # y # ys) = x @ CHR ''/'' # join_slash (y # ys)"

text \<open>The elements that \<open>path.Clean\<close> keeps, as a stack: empty elements and \<open>.\<close> go, \<open>..\<close>
  removes the element before it, and is dropped at the root.\<close>

fun clean_elements :: "bool \<Rightarrow> string list \<Rightarrow> string list \<Rightarrow> string list" where
  "clean_elements rooted stack [] = rev stack"
| "clean_elements rooted stack (x # xs) =
     (if x = [] \<or> x = ''.'' then clean_elements rooted stack xs
      else if x = ''..'' then
        (case stack of
           y # ys \<Rightarrow> if y \<noteq> ''..'' then clean_elements rooted ys xs
                     else clean_elements rooted (x # stack) xs
         | [] \<Rightarrow> if rooted then clean_elements rooted [] xs
                 else clean_elements rooted [x] xs)
      else clean_elements rooted (x # stack) xs)"

definition path_IsAbs :: "string \<Rightarrow> bool" where
  "path_IsAbs name \<longleftrightarrow> take 1 name = ''/''"

definition path_Clean :: "string \<Rightarrow> string" where
  "path_Clean name =
     (let rooted = path_IsAbs name;
          out = (if rooted then ''/'' else []) @ join_slash (clean_elements rooted [] (split_slash name))
      in if out = [] then ''.'' else out)"

definition validatePortableRelativePath :: "string \<Rightarrow> go_error option" where
  "validatePortableRelativePath name =
     (if name = [] \<or> path_IsAbs name \<or> path_Clean name \<noteq> name \<or> name = ''.''
           \<or> take 3 name = ''../'' \<or> CHR 0x5C \<in> set name
      then Some (NewError ''file is not a clean portable relative path'') else None)"

section \<open>Numbers and names\<close>

fun decimal :: "nat \<Rightarrow> string" where
  "decimal n = (if n < 10 then [char_of (n + 48)] else decimal (n div 10) @ [char_of (n mod 10 + 48)])"

declare decimal.simps [simp del]

text \<open>The verb \<open>%020d\<close>.\<close>

definition decimal20 :: "u64 \<Rightarrow> string" where
  "decimal20 v = (let d = decimal (unat v) in replicate (20 - length d) (CHR ''0'') @ d)"

definition is_digit :: "char \<Rightarrow> bool" where
  "is_digit c \<longleftrightarrow> 48 \<le> (of_char c :: nat) \<and> (of_char c :: nat) \<le> 57"

definition digits_value :: "string \<Rightarrow> nat" where
  "digits_value s = foldl (\<lambda>n c. 10 * n + (of_char c - 48)) 0 s"

text \<open>\<open>strconv.ParseUint(s, 10, 64)\<close>.\<close>

definition ParseUint :: "string \<Rightarrow> u64 option" where
  "ParseUint s =
     (if s \<noteq> [] \<and> list_all is_digit s \<and> digits_value s < 2 ^ 64
      then Some (word_of_nat (digits_value s)) else None)"

definition manifestPrefix :: string where "manifestPrefix = ''MANIFEST-''"
definition manifestDigits :: nat where "manifestDigits = 20"

definition manifestFileName :: "u64 \<Rightarrow> string" where
  "manifestFileName generation = manifestPrefix @ decimal20 generation"

definition parseManifestFileName :: "string \<Rightarrow> u64 option" where
  "parseManifestFileName name =
     (if length name \<noteq> length manifestPrefix + manifestDigits
           \<or> take (length manifestPrefix) name \<noteq> manifestPrefix then None
      else case ParseUint (drop (length manifestPrefix) name) of
        None \<Rightarrow> None
      | Some generation \<Rightarrow> if 0 < generation then Some generation else None)"

definition segmentFileName :: "u64 \<Rightarrow> u64 \<Rightarrow> string" where
  "segmentFileName segmentID generation =
     ''segments/'' @ decimal20 segmentID @ ''/data-'' @ decimal20 generation @ ''.seg''"

definition walFileName :: "u64 \<Rightarrow> u64 \<Rightarrow> string" where
  "walFileName segmentID generation =
     ''wal/'' @ decimal20 segmentID @ ''-'' @ decimal20 generation @ ''.wal''"

definition primarySnapshotName :: "u64 \<Rightarrow> string" where
  "primarySnapshotName generation = ''snapshots/primary-'' @ decimal20 generation @ ''.snap''"

definition deleteSnapshotName :: "u64 \<Rightarrow> string" where
  "deleteSnapshotName generation = ''snapshots/delete-'' @ decimal20 generation @ ''.snap''"

section \<open>Facts about clean paths\<close>

lemma split_slash_ne [simp]: "split_slash s \<noteq> []"
  by (induction s) (auto split: list.splits)

lemma join_split [simp]: "join_slash (split_slash s) = s"
proof (induction s)
  case (Cons c s)
  show ?case
  proof (cases "split_slash s")
    case (Cons x xs)
    then show ?thesis using Cons.IH by (cases xs) auto
  qed simp
qed simp

lemma split_elements: "x \<in> set (split_slash s) \<Longrightarrow> CHR ''/'' \<notin> set x"
proof (induction s arbitrary: x)
  case (Cons c s)
  show ?case using Cons.IH Cons.prems
    by (cases "split_slash s") (auto split: if_splits)
qed simp

lemma split_no_slash: "CHR ''/'' \<notin> set x \<Longrightarrow> split_slash x = [x]"
  by (induction x) auto

lemma split_append_slash: "CHR ''/'' \<notin> set x \<Longrightarrow> split_slash (x @ CHR ''/'' # s) = x # split_slash s"
  by (induction x) auto

lemma split_join: "xs \<noteq> [] \<Longrightarrow> \<forall>x \<in> set xs. CHR ''/'' \<notin> set x \<Longrightarrow> split_slash (join_slash xs) = xs"
  by (induction xs rule: join_slash.induct) (auto simp: split_no_slash split_append_slash)

text \<open>An ordinary element: what is left of a name once it holds no empty element, no \<open>.\<close> and
  no \<open>..\<close>.\<close>

definition ordinary :: "string \<Rightarrow> bool" where
  "ordinary x \<longleftrightarrow> x \<noteq> [] \<and> x \<noteq> ''.'' \<and> x \<noteq> ''..''"

lemma clean_ordinary: "list_all ordinary xs \<Longrightarrow> clean_elements r st xs = rev st @ xs"
  by (induction xs arbitrary: st) (auto simp: ordinary_def)

lemma clean_subset: "set (clean_elements r st xs) \<subseteq> set st \<union> set xs"
  by (induction r st xs rule: clean_elements.induct) (auto split: list.splits if_splits)

lemma clean_length: "length (clean_elements r st xs) \<le> length st + length xs"
proof (induction r st xs rule: clean_elements.induct)
  case (2 r st x xs)
  then show ?case by (auto split: list.splits)
qed simp

text \<open>Cleaning keeps a list only if nothing is removed, and after an ordinary element nothing
  but ordinary elements can follow.\<close>

lemma clean_keep_ordinary:
  "clean_elements r st xs = rev st @ xs \<Longrightarrow> st \<noteq> [] \<Longrightarrow> hd st \<noteq> ''..'' \<Longrightarrow> list_all ordinary xs"
proof (induction xs arbitrary: st)
  case (Cons x xs)
  show ?case
  proof (cases "ordinary x")
    case True
    then have "clean_elements r (x # st) xs = rev (x # st) @ xs"
      using Cons.prems(1) by (simp add: ordinary_def)
    from Cons.IH [OF this] True show ?thesis by (simp add: ordinary_def)
  next
    case False
    have "\<exists>st'. length st' \<le> length st \<and> clean_elements r st (x # xs) = clean_elements r st' xs"
      using False Cons.prems(2,3)
      by (intro exI [of _ "if x = ''..'' then tl st else st"]) (cases st; auto simp: ordinary_def)
    then obtain st' where "length st' \<le> length st" "clean_elements r st' xs = rev st @ x # xs"
      using Cons.prems(1) by auto
    then have False using clean_length [of r st' xs] by simp
    then show ?thesis ..
  qed
qed simp

lemma clean_keep_dotdot:
  "clean_elements False (replicate n ''..'') xs = replicate n ''..'' @ xs \<Longrightarrow>
     \<exists>k ys. xs = replicate k ''..'' @ ys \<and> list_all ordinary ys"
proof (induction xs arbitrary: n)
  case (Cons x xs)
  consider (dd) "x = ''..''" | (gone) "x = [] \<or> x = ''.''" | (ord) "ordinary x"
    by (auto simp: ordinary_def)
  then show ?case
  proof cases
    case dd
    have "clean_elements False (replicate (Suc n) ''..'') xs = replicate (Suc n) ''..'' @ xs"
      using Cons.prems dd by (cases n) (auto simp: replicate_append_same)
    from Cons.IH [OF this] obtain k ys where "xs = replicate k ''..'' @ ys" "list_all ordinary ys"
      by blast
    then show ?thesis using dd by (intro exI [of _ "Suc k"] exI [of _ ys]) simp
  next
    case gone
    then have "clean_elements False (replicate n ''..'') xs = replicate n ''..'' @ x # xs"
      using Cons.prems by auto
    then show ?thesis using clean_length [of False "replicate n ''..''" xs] by simp
  next
    case ord
    then have "clean_elements False (x # replicate n ''..'') xs = rev (x # replicate n ''..'') @ xs"
      using Cons.prems by (simp add: ordinary_def)
    from clean_keep_ordinary [OF this] ord have "list_all ordinary (x # xs)"
      by (simp add: ordinary_def)
    then show ?thesis by (intro exI [of _ 0] exI [of _ "x # xs"]) simp
  qed
qed simp

lemma path_Clean_fixed:
  assumes "path_Clean name = name" and "\<not> path_IsAbs name" and "name \<noteq> []" and "name \<noteq> ''.''"
  shows "clean_elements False [] (split_slash name) = split_slash name"
proof -
  let ?c = "clean_elements False [] (split_slash name)"
  have j: "join_slash ?c = name"
    using assms by (auto simp: path_Clean_def Let_def split: if_splits)
  then have "?c \<noteq> []" using assms(3) by auto
  moreover have "\<forall>x \<in> set ?c. CHR ''/'' \<notin> set x"
    using clean_subset [of False "[]" "split_slash name"] split_elements by auto
  ultimately show ?thesis using split_join [of ?c] j by simp
qed

lemma validate_portable_only_if:
  assumes "validatePortableRelativePath name = None"
  shows "name = ''..'' \<or> list_all ordinary (split_slash name)"
proof -
  from assms have n: "name \<noteq> []" "\<not> path_IsAbs name" "path_Clean name = name" "name \<noteq> ''.''"
    "take 3 name \<noteq> ''../''"
    by (auto simp: validatePortableRelativePath_def split: if_splits)
  obtain k ys where s: "split_slash name = replicate k ''..'' @ ys" and o: "list_all ordinary ys"
    using clean_keep_dotdot [of 0 "split_slash name"] path_Clean_fixed [OF n(3,2,1,4)] by auto
  show ?thesis
  proof (cases k)
    case 0
    then show ?thesis using s o by simp
  next
    case (Suc j)
    have name: "name = join_slash (''..'' # replicate j ''..'' @ ys)"
      using arg_cong [OF s, of join_slash] Suc by simp
    show ?thesis
    proof (cases "replicate j ''..'' @ ys")
      case Nil
      then show ?thesis using name by simp
    next
      case (Cons z zs)
      then show ?thesis using name n(5) by simp
    qed
  qed
qed

lemma validate_portable_if:
  assumes "list_all ordinary (split_slash name)" and "CHR 0x5C \<notin> set name"
  shows "validatePortableRelativePath name = None"
proof -
  have hd: "\<exists>x xs. split_slash name = x # xs \<and> ordinary x"
    using assms(1) by (cases "split_slash name") auto
  then have ne: "name \<noteq> []" "name \<noteq> ''.''" and abs: "\<not> path_IsAbs name"
    by (cases name; auto simp: ordinary_def path_IsAbs_def)+
  have "take 3 name \<noteq> ''../''"
  proof
    assume "take 3 name = ''../''"
    then have "name = ''..'' @ CHR ''/'' # drop 3 name" by (metis append_Cons append_Nil append_take_drop_id)
    then have "split_slash name = ''..'' # split_slash (drop 3 name)"
      using split_append_slash [of "''..''" "drop 3 name"] by simp
    with hd show False by (auto simp: ordinary_def)
  qed
  moreover have "path_Clean name = name"
    using ne abs clean_ordinary [OF assms(1), of False "[]"] by (simp add: path_Clean_def Let_def)
  ultimately show ?thesis using ne abs assms(2) by (simp add: validatePortableRelativePath_def)
qed

lemma validate_portable_dotdot: "validatePortableRelativePath ''..'' = None"
  by (simp add: validatePortableRelativePath_def path_Clean_def path_IsAbs_def)

section \<open>Facts about numbers\<close>

lemma digit_value: "(n :: nat) < 10 \<Longrightarrow> is_digit (char_of (n + 48)) \<and> of_char (char_of (n + 48) :: char) - 48 = n"
  by (simp add: is_digit_def of_char_of take_bit_eq_mod)

lemma digits_value_snoc: "digits_value (s @ [c]) = 10 * digits_value s + (of_char c - 48)"
  by (simp add: digits_value_def)

lemma decimal_digits: "list_all is_digit (decimal n) \<and> digits_value (decimal n) = n \<and> decimal n \<noteq> []"
proof (induction n rule: decimal.induct)
  case (1 n)
  show ?case
  proof (cases "n < 10")
    case True
    then show ?thesis using digit_value [of n] by (simp add: decimal.simps [of n] digits_value_def)
  next
    case False
    then show ?thesis using 1 digit_value [of "n mod 10"]
      by (simp add: decimal.simps [of n] digits_value_snoc)
  qed
qed

lemma length_decimal: "n < 10 ^ k \<Longrightarrow> 0 < k \<Longrightarrow> length (decimal n) \<le> k"
proof (induction n arbitrary: k rule: decimal.induct)
  case (1 n)
  show ?case
  proof (cases "n < 10")
    case True
    then show ?thesis using "1.prems" by (simp add: decimal.simps [of n])
  next
    case False
    then obtain j where k: "k = Suc j" "0 < j" using "1.prems" by (cases k) (auto, cases "k - 1", auto)
    then have "n div 10 < 10 ^ j" using "1.prems" by (simp add: less_mult_imp_div_less mult.commute)
    then show ?thesis using 1(1) [OF False] k False by (simp add: decimal.simps [of n])
  qed
qed

lemma digits_value_zeros: "digits_value (replicate k (CHR ''0'') @ s) = digits_value s"
  by (induction k) (simp_all add: digits_value_def)

lemma decimal20_spec:
  "length (decimal20 v) = 20" "list_all is_digit (decimal20 v)" "digits_value (decimal20 v) = unat v"
proof -
  have "unat v < 10 ^ 20" using unat_u64_lt [of v] by simp
  then have "length (decimal (unat v)) \<le> 20" using length_decimal [of "unat v" 20] by simp
  then show "length (decimal20 v) = 20" by (simp add: decimal20_def Let_def)
  show "list_all is_digit (decimal20 v)"
    using decimal_digits [of "unat v"] by (auto simp: decimal20_def Let_def list_all_iff is_digit_def)
  show "digits_value (decimal20 v) = unat v"
    using decimal_digits [of "unat v"] by (simp add: decimal20_def Let_def digits_value_zeros)
qed

lemma ParseUint_decimal20: "ParseUint (decimal20 v) = Some v"
  using decimal20_spec [of v] unat_u64_lt [of v] by (auto simp: ParseUint_def)

text \<open>Two digit strings of one length with one value are equal, so a name of the right length is
  determined by its number.\<close>

lemma digits_value_less: "list_all is_digit s \<Longrightarrow> digits_value s < 10 ^ length s"
proof (induction s rule: rev_induct)
  case (snoc c s)
  then have "of_char c - 48 \<le> (9 :: nat)" by (auto simp: is_digit_def)
  then show ?case using snoc by (simp add: digits_value_snoc)
qed (simp add: digits_value_def)

lemma digits_inj:
  "length s = length t \<Longrightarrow> list_all is_digit s \<Longrightarrow> list_all is_digit t \<Longrightarrow>
     digits_value s = digits_value t \<Longrightarrow> s = t"
proof (induction s arbitrary: t rule: rev_induct)
  case (snoc c s)
  then obtain t' d where t: "t = t' @ [d]" by (cases t rule: rev_cases) auto
  have b: "of_char c - 48 \<le> (9 :: nat)" "of_char d - 48 \<le> (9 :: nat)" "48 \<le> (of_char c :: nat)" "48 \<le> (of_char d :: nat)"
    using snoc.prems t by (auto simp: is_digit_def)
  have "10 * digits_value s + (of_char c - 48) = 10 * digits_value t' + (of_char d - (48 :: nat))"
    using snoc.prems(4) t by (simp add: digits_value_snoc)
  then have "digits_value s = digits_value t'" "(of_char c :: nat) = of_char d" using b by presburger+
  then show ?case using snoc.IH [of t'] snoc.prems t by simp
qed simp

lemma decimal20_inj: "decimal20 v = decimal20 v' \<longleftrightarrow> v = v'"
  by (metis ParseUint_decimal20 option.inject)

text \<open>A file name parses to a generation exactly when it is the manifest name of that generation;
  generation 0 has no manifest.\<close>

lemma parse_manifestFileName: "parseManifestFileName (manifestFileName g) = (if g = 0 then None else Some g)"
  using decimal20_spec(1) [of g]
  by (simp add: parseManifestFileName_def manifestFileName_def manifestDigits_def ParseUint_decimal20 word_neq_0_conv)

lemma manifestFileName_parse:
  assumes "parseManifestFileName name = Some g"
  shows "name = manifestFileName g" and "g \<noteq> 0"
proof -
  have n: "length name = length manifestPrefix + 20" "take (length manifestPrefix) name = manifestPrefix"
    and p: "ParseUint (drop (length manifestPrefix) name) = Some g" "0 < g"
    using assms by (auto simp: parseManifestFileName_def manifestDigits_def split: if_splits option.splits)
  let ?t = "drop (length manifestPrefix) name"
  have "list_all is_digit ?t" "digits_value ?t < 2 ^ 64" "g = word_of_nat (digits_value ?t)"
    using p(1) unfolding ParseUint_def by (metis option.distinct(1) option.inject)+
  then have t: "list_all is_digit ?t" "digits_value ?t = unat g"
    by (simp_all add: unat_of_nat)
  have "?t = decimal20 g" by (rule digits_inj) (use t n decimal20_spec [of g] in auto)
  then show "name = manifestFileName g"
    using append_take_drop_id [of "length manifestPrefix" name] n by (simp add: manifestFileName_def)
  show "g \<noteq> 0" using p(2) by auto
qed

lemma parseManifestFileName_iff: "parseManifestFileName name = Some g \<longleftrightarrow> name = manifestFileName g \<and> g \<noteq> 0"
  using manifestFileName_parse [of name g] parse_manifestFileName [of g] by auto

section \<open>Directories\<close>

text \<open>\<open>filepath.Dir\<close>: the path up to its last separator, cleaned.\<close>

definition filepath_Dir :: "string \<Rightarrow> string" where
  "filepath_Dir s = path_Clean (rev (dropWhile (\<lambda>c. c \<noteq> CHR ''/'') (rev s)))"

text \<open>Going to the parent ends: it makes a path shorter, up to the root or the current directory.\<close>

definition dir_measure :: "string \<Rightarrow> nat" where
  "dir_measure s = length s + (if s = [] then 3 else 0) + (if s = ''.'' then 0 else 1)"

definition weight :: "string list \<Rightarrow> nat" where
  "weight xs = sum_list (map (\<lambda>x. Suc (length x)) xs)"

lemma weight_simps [simp]:
  "weight [] = 0" "weight (x # xs) = Suc (length x) + weight xs" "weight (xs @ ys) = weight xs + weight ys"
  "weight (rev xs) = weight xs"
  by (simp_all add: weight_def sum_list_rev flip: rev_map)

lemma length_join_slash: "xs \<noteq> [] \<Longrightarrow> Suc (length (join_slash xs)) = weight xs"
  by (induction xs rule: join_slash.induct) auto

lemma weight_split_slash: "weight (split_slash s) = Suc (length s)"
  by (induction s) (auto split: list.splits)

lemma weight_clean: "weight (clean_elements r st xs) \<le> weight st + weight xs"
  by (induction r st xs rule: clean_elements.induct) (auto split: list.splits)

lemma length_path_Clean: "s \<noteq> [] \<Longrightarrow> length (path_Clean s) \<le> length s"
proof -
  assume ne: "s \<noteq> []"
  let ?es = "clean_elements (path_IsAbs s) [] (split_slash s)"
  have w: "weight ?es \<le> (if path_IsAbs s then length s else Suc (length s))"
  proof (cases "path_IsAbs s")
    case True
    then obtain t where s: "s = CHR ''/'' # t" using ne by (cases s) (auto simp: path_IsAbs_def)
    then show ?thesis using weight_clean [of True "[]" "split_slash t"] weight_split_slash [of t] True by simp
  next
    case False
    then show ?thesis using weight_clean [of False "[]" "split_slash s"] weight_split_slash [of s] by simp
  qed
  show ?thesis
  proof (cases "?es = []")
    case True
    then show ?thesis using ne by (cases s) (auto simp: path_Clean_def Let_def)
  next
    case False
    then show ?thesis using ne w length_join_slash [of ?es] by (cases s) (auto simp: path_Clean_def Let_def)
  qed
qed

lemma path_Clean_ne [simp]: "path_Clean s \<noteq> []"
  by (simp add: path_Clean_def Let_def)

lemma split_slash_snoc: "split_slash (s @ ''/'') = split_slash s @ [[]]"
  by (induction s) (auto split: list.splits)

lemma clean_elements_snoc: "clean_elements r st (xs @ [[]]) = clean_elements r st xs"
  by (induction r st xs rule: clean_elements.induct) (auto split: list.splits)

lemma path_Clean_snoc: "s \<noteq> [] \<Longrightarrow> path_Clean (s @ ''/'') = path_Clean s"
proof -
  assume "s \<noteq> []"
  then have "path_IsAbs (s @ ''/'') = path_IsAbs s" by (cases s) (simp_all add: path_IsAbs_def)
  then show ?thesis by (simp add: path_Clean_def split_slash_snoc clean_elements_snoc Let_def)
qed

lemma filepath_Dir_measure: "filepath_Dir s \<noteq> s \<Longrightarrow> dir_measure (filepath_Dir s) < dir_measure s"
proof -
  assume ne: "filepath_Dir s \<noteq> s"
  let ?d = "rev (dropWhile (\<lambda>c. c \<noteq> CHR ''/'') (rev s))"
  show ?thesis
  proof (cases "?d = []")
    case True
    then have "filepath_Dir s = path_Clean []" by (simp only: filepath_Dir_def)
    then have "filepath_Dir s = ''.''" by (simp add: path_Clean_def path_IsAbs_def Let_def)
    then show ?thesis using ne by (cases s) (auto simp: dir_measure_def)
  next
    case False
    then obtain t where d: "?d = t @ ''/''"
      using hd_dropWhile [of "\<lambda>c. c \<noteq> CHR ''/''" "rev s"] by (cases "dropWhile (\<lambda>c. c \<noteq> CHR ''/'') (rev s)") auto
    have "set ?d \<subseteq> set s" by (auto dest: set_dropWhileD)
    then have sl: "CHR ''/'' \<in> set s" using d by (simp only: set_append) auto
    have "length ?d \<le> length s" using length_dropWhile_le [of _ "rev s"] by simp
    then have len: "Suc (length t) \<le> length s" using arg_cong [OF d, of length] by simp
    show ?thesis
    proof (cases "t = []")
      case True
      then have "filepath_Dir s = path_Clean ''/''" using d by (simp only: filepath_Dir_def append_Nil)
      then have dir: "filepath_Dir s = ''/''" by (simp add: path_Clean_def path_IsAbs_def Let_def)
      have "length s \<noteq> 1" using ne dir sl by (auto simp: length_Suc_conv)
      then show ?thesis using dir len sl by (auto simp: dir_measure_def)
    next
      case f: False
      then have "length (filepath_Dir s) \<le> length t"
        using d path_Clean_snoc [OF f] length_path_Clean [OF f] by (simp add: filepath_Dir_def)
      then show ?thesis using len sl by (auto simp: dir_measure_def filepath_Dir_def)
    qed
  qed
qed

text \<open>A directory and those it lies in.\<close>

function ancestors :: "string \<Rightarrow> string list" where
  "ancestors d = d # (let p = filepath_Dir d in if p = d then [] else ancestors p)"
  by pat_completeness auto
termination
  by (relation "measure dir_measure") (auto dest: filepath_Dir_measure)

declare ancestors.simps [simp del]

text \<open>\<open>os.Stat\<close> with \<open>info.IsDir()\<close>, \<open>os.MkdirAll\<close>, and \<open>os.ReadDir\<close> restricted to files: the names of the
  files that lie in the directory.  \<open>filepath_Join\<close> is \<open>filepath.Join\<close> of a directory and a relative
  name.\<close>

definition os_StatDir :: "string \<Rightarrow> world \<Rightarrow> bool result \<times> world" where
  "os_StatDir name w = (case io_step w of
       (Some e, w) \<Rightarrow> (Inl e, w)
     | (None, w) \<Rightarrow>
         if name \<in> set (dirs w) then (Inr True, w)
         else if fs w name \<noteq> None then (Inr False, w)
         else (Inl (Sentinel OsErrNotExist), w))"

definition os_MkdirAll :: "string \<Rightarrow> world \<Rightarrow> go_error option \<times> world" where
  "os_MkdirAll dir w = (case io_step w of
       (Some e, w) \<Rightarrow> (Some e, w)
     | (None, w) \<Rightarrow>
         if dir \<in> set (dirs w) then (None, w)
         else if list_ex (\<lambda>d. fs w d \<noteq> None) (ancestors dir) then (Some (NewError ''not a directory''), w)
         else (None, w\<lparr>dirs := remdups (ancestors dir @ dirs w)\<rparr>))"

definition filepath_Join :: "string \<Rightarrow> string \<Rightarrow> string" where
  "filepath_Join dir name = path_Clean (if dir = [] then name else dir @ CHR ''/'' # name)"

definition filepath_Base :: "string \<Rightarrow> string" where
  "filepath_Base s = rev (takeWhile (\<lambda>c. c \<noteq> CHR ''/'') (rev s))"

definition os_ReadDir :: "string \<Rightarrow> world \<Rightarrow> string list result \<times> world" where
  "os_ReadDir dir w = (case io_step w of
       (Some e, w) \<Rightarrow> (Inl e, w)
     | (None, w) \<Rightarrow>
         (Inr (map filepath_Base (filter (\<lambda>p. fs w p \<noteq> None \<and> filepath_Join dir (filepath_Base p) = p) (paths w))), w))"

section \<open>Joined paths\<close>

lemma clean_elements_append_ordinary:
  "ordinary x \<Longrightarrow> clean_elements r st (xs @ [x]) = clean_elements r st xs @ [x]"
  by (induction r st xs rule: clean_elements.induct) (auto simp: ordinary_def split: list.splits)

lemma split_slash_append: "CHR ''/'' \<notin> set x \<Longrightarrow> split_slash (s @ CHR ''/'' # x) = split_slash s @ [x]"
  by (induction s) (auto simp: split_no_slash split: list.splits)

lemma join_slash_snoc: "join_slash (xs @ [x]) = (if xs = [] then x else join_slash xs @ CHR ''/'' # x)"
  by (induction xs rule: join_slash.induct) auto

lemma filepath_Base_slash: "CHR ''/'' \<notin> set x \<Longrightarrow> filepath_Base (s @ CHR ''/'' # x) = x"
proof -
  assume "CHR ''/'' \<notin> set x"
  then have "takeWhile (\<lambda>c. c \<noteq> CHR ''/'') (rev x @ CHR ''/'' # rev s) = rev x"
    by (subst takeWhile_append2) auto
  then show ?thesis by (simp add: filepath_Base_def)
qed

lemma filepath_Base_simple: "CHR ''/'' \<notin> set x \<Longrightarrow> filepath_Base x = x"
proof -
  assume "CHR ''/'' \<notin> set x"
  then have "takeWhile (\<lambda>c. c \<noteq> CHR ''/'') (rev x) = rev x" by (subst takeWhile_eq_all_conv) auto
  then show ?thesis by (simp only: filepath_Base_def rev_rev_ident)
qed

text \<open>The last element of a joined path is the name, so joining with one directory is injective on names.\<close>

lemma filepath_Base_Join:
  assumes "ordinary x" and "CHR ''/'' \<notin> set x"
  shows "filepath_Base (filepath_Join dir x) = x"
proof -
  have x: "x \<noteq> []" "take 1 x \<noteq> ''/''" using assms by (cases x; auto simp: ordinary_def)+
  show ?thesis
  proof (cases "dir = []")
    case True
    then show ?thesis
      using x clean_ordinary [of "[x]" False "[]"] assms
      by (simp add: filepath_Join_def path_Clean_def path_IsAbs_def split_no_slash filepath_Base_simple Let_def)
  next
    case False
    let ?es = "clean_elements (path_IsAbs (dir @ CHR ''/'' # x)) [] (split_slash dir)"
    let ?pre = "if path_IsAbs (dir @ CHR ''/'' # x) then ''/'' else []"
    have "path_Clean (dir @ CHR ''/'' # x) = ?pre @ join_slash (?es @ [x])"
      using x by (simp add: path_Clean_def Let_def split_slash_append [OF assms(2)] clean_elements_append_ordinary [OF assms(1)]
          join_slash_snoc)
    moreover have "filepath_Base (?pre @ join_slash (?es @ [x])) = x"
    proof (cases "?es = []")
      case True
      then show ?thesis
        using filepath_Base_slash [OF assms(2), of "[]"] filepath_Base_simple [OF assms(2)] by simp
    next
      case False
      then have "?pre @ join_slash (?es @ [x]) = (?pre @ join_slash ?es) @ CHR ''/'' # x" by (simp add: join_slash_snoc)
      then show ?thesis using filepath_Base_slash [OF assms(2)] by (simp only:)
    qed
    ultimately show ?thesis by (simp only: filepath_Join_def False if_False)
  qed
qed

lemma filepath_Join_inj:
  assumes "ordinary x" "CHR ''/'' \<notin> set x" "ordinary y" "CHR ''/'' \<notin> set y" "filepath_Join d x = filepath_Join d y"
  shows "x = y"
  by (rule trans [OF sym [OF filepath_Base_Join [OF assms(1,2)]]
        trans [OF arg_cong [OF assms(5), of filepath_Base] filepath_Base_Join [OF assms(3,4)]]])

lemma manifestFileName_simple: "ordinary (manifestFileName g)" "CHR ''/'' \<notin> set (manifestFileName g)"
proof -
  show "ordinary (manifestFileName g)" by (simp add: ordinary_def manifestFileName_def manifestPrefix_def)
  have "\<not> is_digit (CHR ''/'')" by (simp add: is_digit_def)
  then show "CHR ''/'' \<notin> set (manifestFileName g)"
    using decimal20_spec(2) [of g] by (auto simp: manifestFileName_def manifestPrefix_def list_all_iff)
qed

end
