(* ===== verification/Snapshot.thy ===== *)
theory Snapshot
  imports Paths
begin

text \<open>
  The immutable snapshot files of \<open>internal/db/snapshot.go\<close>: the codec that the primary-key
  map and the delete store share, the installation of a snapshot under a name that must not
  exist, and reading one back.  The locale \<open>snapshot_kind\<close> is the contract of a payload
  format; its clients are the two stores.
\<close>

section \<open>The codec\<close>

definition snapshotCodecVersion :: u16 where "snapshotCodecVersion = 1"
definition snapshotHeaderSize :: nat where "snapshotHeaderSize = 40"
definition maxSnapshotPayload :: nat where "maxSnapshotPayload = 256 * 2 ^ 20"

definition snapshot_fields :: "bytes \<Rightarrow> u64 \<Rightarrow> u64 \<Rightarrow> u32 \<Rightarrow> bytes" where
  "snapshot_fields magic count len crc =
     magic @ PutUint16 snapshotCodecVersion @ PutUint16 (word_of_nat snapshotHeaderSize)
       @ replicate 4 0 @ PutUint64 count @ PutUint64 len @ PutUint32 crc"

definition encodeSnapshot :: "bytes \<Rightarrow> u64 \<Rightarrow> bytes \<Rightarrow> bytes result" where
  "encodeSnapshot magic count payload =
     (if maxSnapshotPayload < length payload then Inl (NewError ''db: snapshot payload'')
      else let h = snapshot_fields magic count (len64 payload) (CRC32C payload)
           in Inr (h @ PutUint32 (CRC32C h) @ payload))"

definition decodeSnapshot :: "bytes \<Rightarrow> bytes \<Rightarrow> (u64 \<times> bytes) result" where
  "decodeSnapshot encoded magic =
     (if length encoded < snapshotHeaderSize
        then Inl (corrupt ErrSnapshotCorrupt ''file is shorter than its header'')
      else if bslice 0 8 encoded \<noteq> magic then Inl (corrupt ErrSnapshotCorrupt ''invalid magic'')
      else if Uint16 (bslice 8 10 encoded) \<noteq> snapshotCodecVersion
        then Inl (corrupt ErrUnsupportedFormatVersion ''snapshot version'')
      else if Uint16 (bslice 10 12 encoded) \<noteq> word_of_nat snapshotHeaderSize
        then Inl (corrupt ErrSnapshotCorrupt ''invalid header size'')
      else if Uint32 (bslice 12 16 encoded) \<noteq> 0
        then Inl (corrupt ErrSnapshotCorrupt ''nonzero reserved bytes'')
      else if CRC32C (bslice 0 36 encoded) \<noteq> Uint32 (bslice 36 40 encoded)
        then Inl (corrupt ErrSnapshotCorrupt ''header checksum'')
      else let payloadLength = Uint64 (bslice 24 32 encoded) in
      if maxSnapshotPayload < unat payloadLength
           \<or> payloadLength \<noteq> word_of_nat (length encoded - snapshotHeaderSize)
        then Inl (corrupt ErrSnapshotCorrupt ''invalid payload length'')
      else let payload = drop snapshotHeaderSize encoded in
      if CRC32C payload \<noteq> Uint32 (bslice 32 36 encoded)
        then Inl (corrupt ErrSnapshotCorrupt ''payload checksum'')
      else Inr (Uint64 (bslice 16 24 encoded), payload))"

section \<open>Files\<close>

text \<open>\<open>ensureDirectorySynced\<close>: the loop that collects the directories that do not exist, from the
  directory up to the first ancestor that does, and the loop that synchronises their parents.\<close>

function missing_directories :: "string \<Rightarrow> string list \<Rightarrow> world \<Rightarrow> string list result \<times> world" where
  "missing_directories current missing w =
     (case os_StatDir current w of
        (Inr isDir, w) \<Rightarrow> if \<not> isDir then (Inl (NewError ''is not a directory''), w) else (Inr missing, w)
      | (Inl e, w) \<Rightarrow>
          if \<not> errors_Is e OsErrNotExist then (Inl e, w)
          else let missing = missing @ [current]; parent = filepath_Dir current in
          if parent = current then (Inl (NewError ''no existing ancestor''), w)
          else missing_directories parent missing w)"
  by pat_completeness auto
termination
  by (relation "measure (\<lambda>(current, _). dir_measure current)") (auto dest: filepath_Dir_measure)

declare missing_directories.simps [simp del]

fun sync_parents :: "string list \<Rightarrow> world \<Rightarrow> go_error option \<times> world" where
  "sync_parents [] w = (None, w)"
| "sync_parents (d # ds) w =
     (case syncDirectory w of (Some e, w) \<Rightarrow> (Some e, w) | (None, w) \<Rightarrow> sync_parents ds w)"

definition ensureDirectorySynced :: "string \<Rightarrow> world \<Rightarrow> go_error option \<times> world" where
  "ensureDirectorySynced dir w =
     (case missing_directories dir [] w of (Inl e, w) \<Rightarrow> (Some e, w) | (Inr missing, w) \<Rightarrow>
      if missing = [] then (None, w)
      else case os_MkdirAll dir w of (Some e, w) \<Rightarrow> (Some e, w) | (None, w) \<Rightarrow>
      sync_parents (rev missing) w)"

text \<open>\<open>writeTempSynced\<close> of \<open>version_manager.go\<close>: a temporary file with a fresh name that every
  failing path removes again.  The model keeps its bytes as the result.\<close>

definition writeTempSynced :: "bytes \<Rightarrow> world \<Rightarrow> bytes result \<times> world" where
  "writeTempSynced contents w =
     (case ctx_Err w of (Some e, w) \<Rightarrow> (Inl e, w) | (None, w) \<Rightarrow>
      case io_step w of
        (Some e, w) \<Rightarrow> (Inl (Wrap ''db: create publication temp file'' e), w)
      | (None, w) \<Rightarrow>
      case WriteFullAt (outcomes w) [] contents 0 of (err, c, ios) \<Rightarrow>
      let w = w\<lparr>outcomes := ios\<rparr> in
      case err of Some e \<Rightarrow> (Inl (Wrap ''db: write publication temp file'' e), w) | None \<Rightarrow>
      case io_step w of
        (Some e, w) \<Rightarrow> (Inl (Wrap ''db: sync publication temp file'' e), w)
      | (None, w) \<Rightarrow>
      case io_step w of
        (Some e, w) \<Rightarrow> (Inl (Wrap ''db: close publication temp file'' e), w)
      | (None, w) \<Rightarrow>
      case ctx_Err w of (Some e, w) \<Rightarrow> (Inl e, w) | (None, w) \<Rightarrow> (Inr c, w))"

text \<open>\<open>os.Link\<close> of a synchronised file to a name that must be free.\<close>

definition installFileNoReplace :: "bytes \<Rightarrow> string \<Rightarrow> world \<Rightarrow> go_error option \<times> world" where
  "installFileNoReplace c name w = (case io_step w of
       (Some e, w) \<Rightarrow> (Some e, w)
     | (None, w) \<Rightarrow>
         if fs w name \<noteq> None then (Some (Sentinel OsErrExist), w)
         else (None, set_file name \<lparr>content = c, synced = length c\<rparr> w))"

definition writeImmutableSnapshot :: "string \<Rightarrow> bytes \<Rightarrow> world \<Rightarrow> go_error option \<times> world" where
  "writeImmutableSnapshot name encoded w =
     (case ctx_Err w of (Some e, w) \<Rightarrow> (Some e, w) | (None, w) \<Rightarrow>
      if name = [] then (Some (NewError ''db: empty snapshot path''), w)
      else case ensureDirectorySynced (filepath_Dir name) w of
        (Some e, w) \<Rightarrow> (Some (Wrap ''db: create snapshot directory'' e), w)
      | (None, w) \<Rightarrow>
      case writeTempSynced encoded w of (Inl e, w) \<Rightarrow> (Some e, w) | (Inr temp, w) \<Rightarrow>
      case ctx_Err w of (Some e, w) \<Rightarrow> (Some e, w) | (None, w) \<Rightarrow>
      case installFileNoReplace temp name w of
        (Some e, w) \<Rightarrow> (Some (Wrap ''db: install immutable snapshot'' e), w)
      | (None, w) \<Rightarrow>
      case syncDirectory w of
        (Some e, w) \<Rightarrow> (Some (Wrap ''db: sync snapshot directory'' e), w)
      | (None, w) \<Rightarrow> (None, w))"

definition readSnapshotFile :: "string \<Rightarrow> world \<Rightarrow> bytes result \<times> world" where
  "readSnapshotFile name w =
     (case ctx_Err w of (Some e, w) \<Rightarrow> (Inl e, w) | (None, w) \<Rightarrow>
      case os_Open name w of (Inl e, w) \<Rightarrow> (Inl e, w) | (Inr c, w) \<Rightarrow>
      case io_step w of (Some e, w) \<Rightarrow> (Inl e, w) | (None, w) \<Rightarrow>
      if length c < snapshotHeaderSize \<or> snapshotHeaderSize + maxSnapshotPayload < length c
        then (Inl (corrupt ErrSnapshotCorrupt ''invalid file size''), w)
      else case io_step w of (Some e, w) \<Rightarrow> (Inl e, w) | (None, w) \<Rightarrow>
      case ctx_Err w of (Some e, w) \<Rightarrow> (Inl e, w) | (None, w) \<Rightarrow> (Inr c, w))"

section \<open>Facts about the codec\<close>

lemmas snapshot_sizes = snapshotCodecVersion_def snapshotHeaderSize_def maxSnapshotPayload_def

lemma length_snapshot_fields [simp]: "length magic = 8 \<Longrightarrow> length (snapshot_fields magic n l c) = 36"
  by (simp add: snapshot_fields_def)

lemma encodeSnapshot_length:
  "encodeSnapshot magic n p = Inr e \<Longrightarrow> length magic = 8 \<Longrightarrow>
     length e = 40 + length p \<and> length p \<le> maxSnapshotPayload"
  by (auto simp: encodeSnapshot_def Let_def split: if_splits)

lemma decode_encodeSnapshot:
  assumes "encodeSnapshot magic n p = Inr e" and "length magic = 8"
  shows "decodeSnapshot e magic = Inr (n, p)"
proof -
  have len: "length p \<le> maxSnapshotPayload" using encodeSnapshot_length [OF assms] by simp
  then have u: "unat (len64 p) = length p"
    by (intro unat_len64) (simp add: maxSnapshotPayload_def)
  have "e = (let h = snapshot_fields magic n (len64 p) (CRC32C p) in h @ PutUint32 (CRC32C h) @ p)"
    using assms(1) by (auto simp: encodeSnapshot_def Let_def split: if_splits)
  then show ?thesis using u len assms(2)
    by (simp add: decodeSnapshot_def Let_def bslice_def snapshot_sizes snapshot_fields_def len64_def)
qed

lemma decodeSnapshot_exact:
  assumes d: "decodeSnapshot e magic = Inr (n, p)" and m: "length magic = 8"
    and short: "length e < 2 ^ 64"
  shows "encodeSnapshot magic n p = Inr e"
proof -
  have len: "40 \<le> length e" and magic: "bslice 0 8 e = magic"
    and ver: "Uint16 (bslice 8 10 e) = snapshotCodecVersion"
    and sz: "Uint16 (bslice 10 12 e) = word_of_nat snapshotHeaderSize"
    and zero: "Uint32 (bslice 12 16 e) = 0"
    and hcrc: "CRC32C (bslice 0 36 e) = Uint32 (bslice 36 40 e)"
    and max: "\<not> maxSnapshotPayload < unat (Uint64 (bslice 24 32 e))"
    and plen: "Uint64 (bslice 24 32 e) = word_of_nat (length e - 40)"
    and p: "p = drop 40 e" and pcrc: "CRC32C p = Uint32 (bslice 32 36 e)"
    and n: "n = Uint64 (bslice 16 24 e)"
    using d by (auto simp: decodeSnapshot_def Let_def snapshotHeaderSize_def split: if_splits)
  have lp: "Uint64 (bslice 24 32 e) = len64 p" using plen p by (simp add: len64_def)
  moreover have "unat (len64 p) = length p" using short p by (intro unat_len64) simp
  ultimately have ok: "\<not> maxSnapshotPayload < length p" using max by simp
  have put: "PutUint16 snapshotCodecVersion = bslice 8 10 e"
    "PutUint16 (word_of_nat snapshotHeaderSize) = bslice 10 12 e"
    "PutUint64 n = bslice 16 24 e" "PutUint64 (len64 p) = bslice 24 32 e"
    "PutUint32 (CRC32C p) = bslice 32 36 e" "PutUint32 (CRC32C (bslice 0 36 e)) = bslice 36 40 e"
    using PutUint16_Uint16 [of "bslice 8 10 e"] PutUint16_Uint16 [of "bslice 10 12 e"]
      PutUint64_Uint64 [of "bslice 16 24 e"] PutUint64_Uint64 [of "bslice 24 32 e"]
      PutUint32_Uint32 [of "bslice 32 36 e"] PutUint32_Uint32 [of "bslice 36 40 e"]
      ver sz n lp pcrc hcrc len by simp_all
  have z: "replicate 4 0 = bslice 12 16 e" using zero len by (simp add: Uint32_eq_0)
  have f: "snapshot_fields magic n (len64 p) (CRC32C p) = bslice 0 36 e"
    by (simp add: snapshot_fields_def put z magic [symmetric] bslice_glue)
  have "bslice 0 36 e @ bslice 36 40 e @ p = e"
    using p by (simp add: bslice_glue append_assoc [symmetric] del: append_assoc) (simp add: bslice_0_take)
  then show ?thesis using ok by (simp add: encodeSnapshot_def Let_def f put)
qed

section \<open>Facts about the files\<close>

text \<open>A snapshot is never half written: when the operation fails the name is as before, or the
  whole file is there and only the directory could not be synchronised.\<close>

lemma writeTempSynced_frame:
  "writeTempSynced c w = (r, w') \<Longrightarrow> fs w' = fs w \<and> (\<forall>x. r = Inr x \<longrightarrow> x = c)"
  using WriteFullAt_at_end [of _ "[]" c]
  by (fastforce simp: writeTempSynced_def Let_def split: prod.splits option.splits
      dest!: ctx_Err_frame io_step_frame)

lemma os_StatDir_frame: "os_StatDir d w = (r, w') \<Longrightarrow> fs w' = fs w"
  by (auto simp: os_StatDir_def split: prod.splits option.splits if_splits dest!: io_step_frame)

lemma missing_directories_frame: "missing_directories d ms w = (r, w') \<Longrightarrow> fs w' = fs w"
proof (induction d ms w arbitrary: r w' rule: missing_directories.induct)
  case (1 d ms w)
  obtain x w1 where st: "os_StatDir d w = (x, w1)" by (cases "os_StatDir d w")
  have f: "fs w1 = fs w" by (rule os_StatDir_frame [OF st])
  show ?case
    using "1.prems" "1.IH" [OF st [symmetric]] st f
    by (subst (asm) missing_directories.simps) (auto simp: Let_def split: sum.splits if_splits)
qed

lemma sync_parents_frame: "sync_parents ds w = (e, w') \<Longrightarrow> fs w' = fs w"
  by (induction ds arbitrary: w) (auto simp: syncDirectory_def split: prod.splits option.splits dest!: io_step_frame)

lemma ensureDirectorySynced_frame: "ensureDirectorySynced d w = (e, w') \<Longrightarrow> fs w' = fs w"
  by (fastforce simp: ensureDirectorySynced_def os_MkdirAll_def split: prod.splits option.splits sum.splits if_splits
      dest!: io_step_frame missing_directories_frame sync_parents_frame)

lemma ensureDirectorySynced_exists:
  "calm w \<Longrightarrow> d \<in> set (dirs w) \<Longrightarrow> ensureDirectorySynced d w = (None, w)"
  by (simp add: ensureDirectorySynced_def calm_def os_StatDir_def missing_directories.simps [of d])

text \<open>A name in an existing directory under which there is no file.\<close>

definition free_name :: "string \<Rightarrow> world \<Rightarrow> bool" where
  "free_name name w \<longleftrightarrow> name \<noteq> [] \<and> fs w name = None \<and> filepath_Dir name \<in> set (dirs w)"

lemma writeImmutableSnapshot_atomic:
  assumes "writeImmutableSnapshot name c w = (e, w')"
  shows "fs w' = fs w \<and> e \<noteq> None \<or>
    fs w name = None \<and> fs w' = (fs w)(name \<mapsto> \<lparr>content = c, synced = length c\<rparr>)"
  using assms
  by (fastforce simp: writeImmutableSnapshot_def installFileNoReplace_def syncDirectory_def
      split: prod.splits option.splits sum.splits if_splits
      dest!: ctx_Err_frame io_step_frame writeTempSynced_frame ensureDirectorySynced_frame)

lemma writeImmutableSnapshot_calm:
  assumes "calm w" and "free_name name w"
  shows "writeImmutableSnapshot name c w =
    (None, set_file name \<lparr>content = c, synced = length c\<rparr> w)"
proof -
  have same: "w\<lparr>outcomes := []\<rparr> = w" using assms(1) by (cases w) (simp add: calm_def)
  show ?thesis
    using assms ensureDirectorySynced_exists [OF assms(1), of "filepath_Dir name"]
    by (cases c) (auto simp: same calm_def writeImmutableSnapshot_def installFileNoReplace_def free_name_def
        syncDirectory_def writeTempSynced_def Let_def write_at_def)
qed

text \<open>The installation of a snapshot does not disturb a calm world.\<close>

lemma missing_directories_calm: "calm w \<Longrightarrow> snd (missing_directories d ms w) = w"
proof (induction d ms w rule: missing_directories.induct)
  case (1 d ms w)
  have "os_StatDir d w = (fst (os_StatDir d w), w)"
    using "1.prems" by (simp add: os_StatDir_def calm_def)
  then show ?case using 1
    by (subst missing_directories.simps) (auto simp: Let_def split: sum.splits prod.splits)
qed

lemma sync_parents_calm: "calm w \<Longrightarrow> sync_parents ds w = (None, w)"
  by (induction ds) (auto simp: syncDirectory_def calm_def)

lemma ensureDirectorySynced_calm: "calm w \<Longrightarrow> calm (snd (ensureDirectorySynced d w))"
  using missing_directories_calm [of w d "[]"] sync_parents_calm
  by (auto simp: ensureDirectorySynced_def os_MkdirAll_def calm_def split: prod.splits sum.splits)

lemma writeImmutableSnapshot_calm_ok:
  assumes "calm w" and "writeImmutableSnapshot name c w = (None, w')"
  shows "fs w name = None \<and> calm w' \<and> fs w' = (fs w)(name \<mapsto> \<lparr>content = c, synced = length c\<rparr>)"
proof -
  obtain e w1 where e: "ensureDirectorySynced (filepath_Dir name) w = (e, w1)"
    by (cases "ensureDirectorySynced (filepath_Dir name) w")
  have "calm w1" using ensureDirectorySynced_calm [OF assms(1), of "filepath_Dir name"] e by simp
  then have "calm w'"
    using assms e
    by (cases c) (auto simp: calm_def writeImmutableSnapshot_def installFileNoReplace_def syncDirectory_def writeTempSynced_def
        Let_def split: if_splits option.splits)
  then show ?thesis using writeImmutableSnapshot_atomic [OF assms(2)] by auto
qed

lemma readSnapshotFile_calm:
  assumes "calm w" and "fs w name = Some f" and "40 \<le> length (content f)"
    and "length (content f) \<le> 40 + maxSnapshotPayload"
  shows "readSnapshotFile name w = (Inr (content f), w)"
  using assms by (auto simp: calm_def readSnapshotFile_def os_Open_def snapshotHeaderSize_def)

section \<open>The contract of a payload format\<close>

locale snapshot_kind =
  fixes magic :: bytes
    and storable :: "'a \<Rightarrow> bool"
    and count_of :: "'a \<Rightarrow> u64"
    and payload_of :: "'a \<Rightarrow> bytes"
    and parse :: "u64 \<Rightarrow> bytes \<Rightarrow> 'b result"
    and view :: "'a \<Rightarrow> 'b"
  assumes magic_length: "length magic = 8"
    and payload_bound: "storable a \<Longrightarrow> length (payload_of a) \<le> maxSnapshotPayload"
    and parse_payload: "storable a \<Longrightarrow> parse (count_of a) (payload_of a) = Inr (view a)"
begin

lemma encode_storable: "storable a \<Longrightarrow> \<exists>e. encodeSnapshot magic (count_of a) (payload_of a) = Inr e"
  using payload_bound by (simp add: encodeSnapshot_def Let_def not_less)

lemma write_then_read:
  assumes "storable a" and "calm w" and "free_name name w"
    and "encodeSnapshot magic (count_of a) (payload_of a) = Inr e"
    and "writeImmutableSnapshot name e w = (r, w')"
  shows "r = None \<and> readSnapshotFile name w' = (Inr e, w')
    \<and> decodeSnapshot e magic = Inr (count_of a, payload_of a)
    \<and> parse (count_of a) (payload_of a) = Inr (view a)"
proof -
  have w': "r = None" "w' = set_file name \<lparr>content = e, synced = length e\<rparr> w"
    using writeImmutableSnapshot_calm [OF assms(2,3), of e] assms(5) by auto
  moreover have "calm w'" using assms(2) w' by (simp add: calm_def)
  ultimately have "readSnapshotFile name w' = (Inr e, w')"
    using readSnapshotFile_calm [of w' name "\<lparr>content = e, synced = length e\<rparr>"]
      encodeSnapshot_length [OF assms(4) magic_length] by simp
  then show ?thesis
    using w' decode_encodeSnapshot [OF assms(4) magic_length] parse_payload [OF assms(1)] by simp
qed

end

end
