(* ===== verification/Primary_Map.thy ===== *)
theory Primary_Map
  imports Snapshot "HOL-Library.Multiset"
begin

text \<open>
  The primary-key map of \<open>internal/db/primary_map.go\<close>: a Go map from keys to document
  locations as an association list with distinct keys, its operations, and its snapshot.
  The invariant \<open>pk_wf\<close> says that keys are valid and that no two keys share a location.
\<close>

section \<open>Data and operations\<close>

definition maxPrimaryKeyBytes :: nat where "maxPrimaryKeyBytes = 64 * 2 ^ 10"

definition primaryMapMagic :: bytes where
  "primaryMapMagic = [0x5A, 0x56, 0x45, 0x43, 0x50, 0x4B, 0, 0]"

record DocumentLocation =
  SegmentID :: u64
  DocID :: u64

record PrimaryKeyMap =
  entries :: "(bytes \<times> DocumentLocation) list"

definition validatePrimaryKey :: "bytes \<Rightarrow> go_error option" where
  "validatePrimaryKey key =
     (if key = [] then Some (NewError ''db: primary key is empty'')
      else if maxPrimaryKeyBytes < length key then Some (NewError ''db: primary key bytes'')
      else if \<not> utf8_valid key then Some (NewError ''db: primary key is not valid UTF-8'')
      else None)"

definition NewPrimaryKeyMap :: PrimaryKeyMap where
  "NewPrimaryKeyMap = \<lparr>entries = []\<rparr>"

text \<open>The result of \<open>Put\<close> and \<open>Delete\<close> is an error or the prior location, if any.\<close>

definition PrimaryKeyMap_Put ::
  "bytes \<Rightarrow> DocumentLocation \<Rightarrow> PrimaryKeyMap \<Rightarrow> world
     \<Rightarrow> DocumentLocation option result \<times> PrimaryKeyMap \<times> world" where
  "PrimaryKeyMap_Put key location m w =
     (case ctx_Err w of (Some e, w) \<Rightarrow> (Inl e, m, w) | (None, w) \<Rightarrow>
      case validatePrimaryKey key of Some e \<Rightarrow> (Inl e, m, w) | None \<Rightarrow>
      if list_ex (\<lambda>(k, l). k \<noteq> key \<and> l = location) (entries m)
        then (Inl (NewError ''db: document location is already mapped by primary key''), m, w)
      else (Inr (map_of (entries m) key),
            m\<lparr>entries := AList.update key location (entries m)\<rparr>, w))"

definition PrimaryKeyMap_Delete ::
  "bytes \<Rightarrow> PrimaryKeyMap \<Rightarrow> world
     \<Rightarrow> DocumentLocation option result \<times> PrimaryKeyMap \<times> world" where
  "PrimaryKeyMap_Delete key m w =
     (case ctx_Err w of (Some e, w) \<Rightarrow> (Inl e, m, w) | (None, w) \<Rightarrow>
      case map_of (entries m) key of
        None \<Rightarrow> (Inr None, m, w)
      | Some previous \<Rightarrow> (Inr (Some previous), m\<lparr>entries := AList.delete key (entries m)\<rparr>, w))"

definition PrimaryKeyMap_Get :: "bytes \<Rightarrow> PrimaryKeyMap \<Rightarrow> DocumentLocation option" where
  "PrimaryKeyMap_Get key m = map_of (entries m) key"

definition PrimaryKeyMap_MultiGet :: "bytes list \<Rightarrow> PrimaryKeyMap \<Rightarrow> DocumentLocation option list" where
  "PrimaryKeyMap_MultiGet keys m = map (\<lambda>key. map_of (entries m) key) keys"

definition PrimaryKeyMap_Count :: "PrimaryKeyMap \<Rightarrow> nat" where
  "PrimaryKeyMap_Count m = length (entries m)"

definition PrimaryKeyMap_Clone :: "PrimaryKeyMap \<Rightarrow> PrimaryKeyMap" where
  "PrimaryKeyMap_Clone m = foldl (\<lambda>c (k, l). c\<lparr>entries := AList.update k l (entries c)\<rparr>)
     NewPrimaryKeyMap (entries m)"

section \<open>Snapshots\<close>

text \<open>The loop that sums the payload size, \<open>None\<close> when it would pass the maximum.\<close>

fun pk_payload_size :: "nat \<Rightarrow> bytes list \<Rightarrow> nat option" where
  "pk_payload_size acc [] = Some acc"
| "pk_payload_size acc (key # keys) =
     (if maxSnapshotPayload - acc < 20 + length key then None
      else pk_payload_size (acc + 20 + length key) keys)"

definition pk_entry :: "bytes \<Rightarrow> DocumentLocation \<Rightarrow> bytes" where
  "pk_entry key location =
     PutUint32 (len32 key) @ PutUint64 (SegmentID location) @ PutUint64 (DocID location) @ key"

definition pk_sorted_keys :: "PrimaryKeyMap \<Rightarrow> bytes list" where
  "pk_sorted_keys m = sort (map fst (entries m))"

definition pk_payload :: "PrimaryKeyMap \<Rightarrow> bytes" where
  "pk_payload m = concat (map (\<lambda>key. pk_entry key (the (map_of (entries m) key))) (pk_sorted_keys m))"

definition PrimaryKeyMap_WriteSnapshot ::
  "string \<Rightarrow> PrimaryKeyMap \<Rightarrow> world \<Rightarrow> go_error option \<times> world" where
  "PrimaryKeyMap_WriteSnapshot name m w =
     (case pk_payload_size 0 (pk_sorted_keys m) of
        None \<Rightarrow> (Some (NewError ''db: primary-key snapshot is too large''), w)
      | Some _ \<Rightarrow>
      case encodeSnapshot primaryMapMagic (len64 (pk_sorted_keys m)) (pk_payload m) of
        Inl e \<Rightarrow> (Some e, w)
      | Inr encoded \<Rightarrow> writeImmutableSnapshot name encoded w)"

text \<open>The loop of \<open>LoadPrimaryKeyMap\<close>: the entries left, the offset in the payload, the
  previous key and whether there is one, and the map built so far.\<close>

fun LoadPrimaryKeyMap_loop ::
  "nat \<Rightarrow> bytes \<Rightarrow> nat \<Rightarrow> bytes option \<Rightarrow> PrimaryKeyMap \<Rightarrow> PrimaryKeyMap result" where
  "LoadPrimaryKeyMap_loop 0 payload offset previous m =
     (if offset \<noteq> length payload
      then Inl (corrupt ErrSnapshotCorrupt ''trailing primary-key payload'') else Inr m)"
| "LoadPrimaryKeyMap_loop (Suc n) payload offset previous m =
     (if length payload - offset < 20
      then Inl (corrupt ErrSnapshotCorrupt ''truncated primary-key entry'')
      else let keyLength = unat (Uint32 (bslice offset (offset + 4) payload));
               location = \<lparr>SegmentID = Uint64 (bslice (offset + 4) (offset + 12) payload),
                           DocID = Uint64 (bslice (offset + 12) (offset + 20) payload)\<rparr>;
               offset = offset + 20 in
      if keyLength = 0 \<or> maxPrimaryKeyBytes < keyLength \<or> length payload - offset < keyLength
      then Inl (corrupt ErrSnapshotCorrupt ''invalid primary-key length'')
      else let key = bslice offset (offset + keyLength) payload; offset = offset + keyLength in
      if validatePrimaryKey key \<noteq> None then Inl (corrupt ErrSnapshotCorrupt ''entry'')
      else if (case previous of None \<Rightarrow> False | Some previousKey \<Rightarrow> key \<le> previousKey)
      then Inl (corrupt ErrSnapshotCorrupt ''primary keys are not strictly sorted'')
      else if location \<in> set (map snd (entries m))
      then Inl (corrupt ErrSnapshotCorrupt ''keys share a document location'')
      else LoadPrimaryKeyMap_loop n payload offset (Some key)
             (m\<lparr>entries := AList.update key location (entries m)\<rparr>))"

definition LoadPrimaryKeyMap_payload :: "u64 \<Rightarrow> bytes \<Rightarrow> PrimaryKeyMap result" where
  "LoadPrimaryKeyMap_payload cnt payload =
     (if length payload div 20 < unat cnt \<or> 2 ^ 63 - 1 < unat cnt
      then Inl (corrupt ErrSnapshotCorrupt ''impossible primary-key count'')
      else LoadPrimaryKeyMap_loop (unat cnt) payload 0 None NewPrimaryKeyMap)"

definition LoadPrimaryKeyMap :: "string \<Rightarrow> world \<Rightarrow> PrimaryKeyMap result \<times> world" where
  "LoadPrimaryKeyMap name w =
     (case readSnapshotFile name w of (Inl e, w) \<Rightarrow> (Inl e, w) | (Inr encoded, w) \<Rightarrow>
      case decodeSnapshot encoded primaryMapMagic of
        Inl e \<Rightarrow> (Inl e, w)
      | Inr (cnt, payload) \<Rightarrow> (LoadPrimaryKeyMap_payload cnt payload, w))"

section \<open>The invariant\<close>

definition pk_wf :: "PrimaryKeyMap \<Rightarrow> bool" where
  "pk_wf m \<longleftrightarrow> distinct (map fst (entries m)) \<and> distinct (map snd (entries m))
     \<and> list_all (\<lambda>(k, _). validatePrimaryKey k = None) (entries m)"

lemma pk_wf_New: "pk_wf NewPrimaryKeyMap"
  by (simp add: pk_wf_def NewPrimaryKeyMap_def)

lemma set_update_subset: "set (AList.update k v xs) \<subseteq> insert (k, v) (set xs)"
  by (induction xs) auto

lemma distinct_snd_update:
  assumes "distinct (map fst xs)" and "distinct (map snd xs)"
    and "\<forall>(k', l) \<in> set xs. k' \<noteq> k \<longrightarrow> l \<noteq> v"
  shows "distinct (map snd (AList.update k v xs))"
  using assms
proof (induction xs)
  case (Cons x xs)
  obtain k' l where x: "x = (k', l)" by (cases x)
  have snds: "snd ` set (AList.update k v xs) \<subseteq> insert v (snd ` set xs)"
    using set_update_subset [of k v xs] by (metis image_insert image_mono snd_conv)
  show ?case
  proof (cases "k' = k")
    case True
    have "v \<noteq> snd y" if "y \<in> set xs" for y
    proof -
      have "fst y \<noteq> k" using that True x Cons.prems(1) by auto
      then show ?thesis using that Cons.prems(3) by auto
    qed
    then show ?thesis using True x Cons.prems(2) by auto
  next
    case False
    have "l \<noteq> v" using Cons.prems(3) x False by auto
    then have "l \<notin> snd ` set (AList.update k v xs)" using snds Cons.prems(2) x by auto
    moreover have "distinct (map snd (AList.update k v xs))" using Cons by simp
    ultimately show ?thesis using False x by simp
  qed
qed simp

lemma PrimaryKeyMap_Put_wf:
  assumes "pk_wf m" and "PrimaryKeyMap_Put k l m w = (r, m', w')"
  shows "pk_wf m'"
proof (cases "m' = m")
  case False
  then have v: "validatePrimaryKey k = None" and m': "m' = m\<lparr>entries := AList.update k l (entries m)\<rparr>"
    and nodup: "\<not> list_ex (\<lambda>(k', l'). k' \<noteq> k \<and> l' = l) (entries m)"
    using assms(2) by (auto simp: PrimaryKeyMap_Put_def split: prod.splits option.splits if_splits)
  have "distinct (map snd (AList.update k l (entries m)))"
    using assms(1) nodup by (intro distinct_snd_update) (auto simp: pk_wf_def list_ex_iff)
  moreover have "list_all (\<lambda>(k, _). validatePrimaryKey k = None) (AList.update k l (entries m))"
    using set_update_subset [of k l "entries m"] assms(1) v by (auto simp: pk_wf_def list_all_iff)
  ultimately show ?thesis
    using assms(1) m' by (simp add: pk_wf_def distinct_update)
qed (use assms in simp)

lemma PrimaryKeyMap_Delete_wf:
  assumes "pk_wf m" and "PrimaryKeyMap_Delete k m w = (r, m', w')"
  shows "pk_wf m'"
proof -
  have "distinct (map snd (AList.delete k (entries m)))"
    using assms(1) by (auto simp: pk_wf_def AList.delete_eq intro: distinct_map_filter)
  then have "pk_wf (m\<lparr>entries := AList.delete k (entries m)\<rparr>)"
    using assms(1) by (auto simp: pk_wf_def AList.delete_eq list_all_iff distinct_map_filter)
  then show ?thesis
    using assms by (auto simp: PrimaryKeyMap_Delete_def split: prod.splits option.splits)
qed

section \<open>The snapshot round trip\<close>

definition pk_storable :: "PrimaryKeyMap \<Rightarrow> bool" where
  "pk_storable m \<longleftrightarrow> pk_wf m \<and> pk_payload_size 0 (pk_sorted_keys m) \<noteq> None"

text \<open>The same map with its entries in the order of the keys: what a loaded snapshot holds.\<close>

definition pk_canonical :: "PrimaryKeyMap \<Rightarrow> PrimaryKeyMap" where
  "pk_canonical m = \<lparr>entries = map (\<lambda>k. (k, the (map_of (entries m) k))) (pk_sorted_keys m)\<rparr>"

lemma map_of_self: "distinct (map fst xs) \<Longrightarrow> map (\<lambda>k. (k, the (map_of xs k))) (map fst xs) = xs"
  by (auto simp: comp_def intro!: map_idI)

lemma mset_pk_canonical:
  assumes "pk_wf m"
  shows "mset (entries (pk_canonical m)) = mset (entries m)"
proof -
  let ?f = "\<lambda>k. (k, the (map_of (entries m) k))"
  have "mset (entries (pk_canonical m)) = image_mset ?f (mset (map fst (entries m)))"
    by (simp add: pk_canonical_def pk_sorted_keys_def)
  also have "\<dots> = mset (map ?f (map fst (entries m)))" by (simp only: mset_map)
  also have "\<dots> = mset (entries m)" using assms by (simp only: map_of_self pk_wf_def)
  finally show ?thesis .
qed

lemma pk_canonical_wf:
  assumes "pk_wf m"
  shows "pk_wf (pk_canonical m)"
proof -
  note eq = mset_pk_canonical [OF assms]
  have "mset (map fst (entries (pk_canonical m))) = mset (map fst (entries m))"
    "mset (map snd (entries (pk_canonical m))) = mset (map snd (entries m))"
    using eq by simp_all
  moreover have "set (entries (pk_canonical m)) = set (entries m)" by (rule mset_eq_setD [OF eq])
  ultimately show ?thesis using assms unfolding pk_wf_def list_all_iff by (metis mset_eq_imp_distinct_iff)
qed

lemma pk_canonical_Get: "pk_wf m \<Longrightarrow> PrimaryKeyMap_Get k (pk_canonical m) = PrimaryKeyMap_Get k m"
  using mset_pk_canonical [of m] pk_canonical_wf [of m]
  by (auto simp: PrimaryKeyMap_Get_def pk_wf_def intro!: fun_cong [OF map_of_inject_set [THEN iffD2]]
      dest: mset_eq_setD)

lemma pk_payload_size_Some:
  "pk_payload_size acc keys = Some n \<Longrightarrow> acc \<le> maxSnapshotPayload \<Longrightarrow>
     n = acc + sum_list (map (\<lambda>k. 20 + length k) keys) \<and> n \<le> maxSnapshotPayload"
proof (induction keys arbitrary: acc)
  case (Cons k keys)
  then have "acc + 20 + length k \<le> maxSnapshotPayload" "pk_payload_size (acc + 20 + length k) keys = Some n"
    by (auto split: if_splits)
  from Cons.IH [OF this(2) this(1)] show ?case by simp
qed simp

lemma length_pk_entry [simp]: "length (pk_entry k l) = 20 + length k"
  by (simp add: pk_entry_def)

lemma validatePrimaryKey_None:
  "validatePrimaryKey k = None \<longleftrightarrow> k \<noteq> [] \<and> length k \<le> maxPrimaryKeyBytes \<and> utf8_valid k"
  by (auto simp: validatePrimaryKey_def)

lemma unat_valid_key: "validatePrimaryKey k = None \<Longrightarrow> unat (len32 k) = length k"
  by (intro unat_len32) (simp add: validatePrimaryKey_None maxPrimaryKeyBytes_def)

lemma update_new: "k \<notin> fst ` set xs \<Longrightarrow> AList.update k v xs = xs @ [(k, v)]"
  by (induction xs) auto

text \<open>One entry at the head of what is left of the payload.\<close>

lemma load_entry_fields:
  assumes d: "drop off payload = pk_entry k l @ rest" and "off \<le> length payload"
    and v: "validatePrimaryKey k = None"
  shows "\<not> length payload - off < 20" "unat (Uint32 (bslice off (off + 4) payload)) = length k"
    "\<lparr>SegmentID = Uint64 (bslice (off + 4) (off + 12) payload),
      DocID = Uint64 (bslice (off + 12) (off + 20) payload)\<rparr> = l"
    "bslice (off + 20) (off + 20 + length k) payload = k"
    "\<not> length payload - (off + 20) < length k"
    "drop (off + 20 + length k) payload = rest" "off + 20 + length k \<le> length payload"
proof -
  have len: "length payload - off = 20 + length k + length rest"
    using arg_cong [OF d, of length] by simp
  then show "\<not> length payload - off < 20" "\<not> length payload - (off + 20) < length k"
    "off + 20 + length k \<le> length payload" using assms(2) by auto
  have sl: "bslice (off + a) (off + b) payload = bslice a b (pk_entry k l @ rest)" for a b
    by (simp add: bslice_drop [symmetric] d)
  show "unat (Uint32 (bslice off (off + 4) payload)) = length k"
    using sl [of 0 4] unat_valid_key [OF v] by (simp add: pk_entry_def bslice_def)
  show "\<lparr>SegmentID = Uint64 (bslice (off + 4) (off + 12) payload),
      DocID = Uint64 (bslice (off + 12) (off + 20) payload)\<rparr> = l"
    using sl [of 4 12] sl [of 12 20] by (simp add: pk_entry_def bslice_def)
  show "bslice (off + 20) (off + 20 + length k) payload = k"
    using sl [of 20 "20 + length k"] by (simp add: pk_entry_def bslice_def add.assoc)
  show "drop (off + 20 + length k) payload = rest"
    using arg_cong [OF d, of "drop (20 + length k)"] by (simp add: pk_entry_def ac_simps)
qed

lemma load_loop:
  assumes "drop off payload = concat (map (\<lambda>(k, l). pk_entry k l) es)" and "off \<le> length payload"
    and "sorted_wrt (<) (map fst es)" and "list_all (\<lambda>(k, _). validatePrimaryKey k = None) es"
    and "\<forall>p. previous = Some p \<longrightarrow> (\<forall>k \<in> fst ` set es. p < k)"
    and "fst ` set (entries m) \<inter> fst ` set es = {}"
    and "distinct (map snd (entries m @ es))"
  shows "LoadPrimaryKeyMap_loop (length es) payload off previous m =
    Inr (m\<lparr>entries := entries m @ es\<rparr>)"
  using assms
proof (induction es arbitrary: off previous m)
  case Nil
  then show ?case by simp
next
  case (Cons e es)
  obtain k l where e: "e = (k, l)" by (cases e)
  have d: "drop off payload = pk_entry k l @ concat (map (\<lambda>(k, l). pk_entry k l) es)"
    and v: "validatePrimaryKey k = None" using Cons.prems e by auto
  note f = load_entry_fields [OF d Cons.prems(2) v]
  let ?m = "m\<lparr>entries := entries m @ [(k, l)]\<rparr>"
  have up: "AList.update k l (entries m) = entries m @ [(k, l)]"
    using Cons.prems(6) e by (intro update_new) auto
  have nl: "l \<notin> snd ` set (entries m)" using Cons.prems(7) e by auto
  have klen: "length k \<noteq> 0" "\<not> maxPrimaryKeyBytes < length k"
    using v by (auto simp: validatePrimaryKey_None)
  have prev: "\<not> (case previous of None \<Rightarrow> False | Some p \<Rightarrow> k \<le> p)"
    using Cons.prems(5) e by (auto split: option.splits)
  have "LoadPrimaryKeyMap_loop (length es) payload (off + 20 + length k) (Some k) ?m =
      Inr (?m\<lparr>entries := entries ?m @ es\<rparr>)"
    by (rule Cons.IH) (use f Cons.prems e in auto)
  then show ?case using f klen prev nl v up e by (simp add: Let_def)
qed

lemma sorted_pk_keys: "pk_wf m \<Longrightarrow> sorted_wrt (<) (pk_sorted_keys m)"
  by (simp add: pk_sorted_keys_def pk_wf_def strict_sorted_iff)

lemma pk_payload_canonical:
  "pk_payload m = concat (map (\<lambda>(k, l). pk_entry k l) (entries (pk_canonical m)))"
  by (simp add: pk_payload_def pk_canonical_def comp_def)

lemma length_pk_payload:
  "length (pk_payload m) = sum_list (map (\<lambda>k. 20 + length k) (pk_sorted_keys m))"
  by (simp add: pk_payload_def length_concat comp_def)

interpretation pk_snapshot: snapshot_kind primaryMapMagic pk_storable
  "\<lambda>m. len64 (pk_sorted_keys m)" pk_payload LoadPrimaryKeyMap_payload pk_canonical
proof unfold_locales
  show "length primaryMapMagic = 8" by (simp add: primaryMapMagic_def)
next
  fix m assume st: "pk_storable m"
  then obtain n where n: "pk_payload_size 0 (pk_sorted_keys m) = Some n"
    by (auto simp: pk_storable_def)
  from pk_payload_size_Some [OF n] have len: "length (pk_payload m) = n" and max: "n \<le> maxSnapshotPayload"
    by (simp_all add: length_pk_payload)
  then show "length (pk_payload m) \<le> maxSnapshotPayload" by simp
  let ?es = "entries (pk_canonical m)"
  have wf: "pk_wf (pk_canonical m)" using st by (simp add: pk_storable_def pk_canonical_wf)
  have keys: "map fst ?es = pk_sorted_keys m" by (simp add: pk_canonical_def comp_def)
  have "20 * length ks \<le> sum_list (map (\<lambda>k. 20 + length k) ks)" for ks :: "bytes list"
    by (induction ks) auto
  then have "20 * length (pk_sorted_keys m) \<le> length (pk_payload m)"
    by (simp only: length_pk_payload)
  then have cnt: "length (pk_sorted_keys m) \<le> length (pk_payload m) div 20"
    "length (pk_sorted_keys m) < 2 ^ 63" using len max by (auto simp: maxSnapshotPayload_def)
  have len_es: "length ?es = length (pk_sorted_keys m)" by (simp add: pk_canonical_def)
  have u: "unat (len64 (pk_sorted_keys m)) = length ?es"
    using unat_len64 [of "pk_sorted_keys m"] cnt(2) len_es by simp
  have "LoadPrimaryKeyMap_loop (length ?es) (pk_payload m) 0 None NewPrimaryKeyMap =
      Inr (NewPrimaryKeyMap\<lparr>entries := entries NewPrimaryKeyMap @ ?es\<rparr>)"
    using wf sorted_pk_keys [of m] st keys
    by (intro load_loop) (auto simp: pk_payload_canonical pk_wf_def NewPrimaryKeyMap_def pk_storable_def)
  then show "LoadPrimaryKeyMap_payload (len64 (pk_sorted_keys m)) (pk_payload m) = Inr (pk_canonical m)"
    using cnt u len_es by (simp add: LoadPrimaryKeyMap_payload_def NewPrimaryKeyMap_def)
qed

text \<open>A written snapshot loads as the same map.\<close>

lemma pk_WriteSnapshot_Load:
  assumes "pk_storable m" and "calm w" and "free_name name w"
    and "PrimaryKeyMap_WriteSnapshot name m w = (r, w')"
  shows "r = None \<and> LoadPrimaryKeyMap name w' = (Inr (pk_canonical m), w')"
proof -
  obtain e where e: "encodeSnapshot primaryMapMagic (len64 (pk_sorted_keys m)) (pk_payload m) = Inr e"
    using pk_snapshot.encode_storable [OF assms(1)] by blast
  have "writeImmutableSnapshot name e w = (r, w')"
    using assms(1,4) e by (auto simp: PrimaryKeyMap_WriteSnapshot_def pk_storable_def)
  from pk_snapshot.write_then_read [OF assms(1-3) e this] show ?thesis
    by (simp add: LoadPrimaryKeyMap_def)
qed

text \<open>With a context that is never cancelled, \<open>Put\<close> of a location that no other key has always
  succeeds.\<close>

lemma PrimaryKeyMap_Put_fresh:
  assumes "polls w = None" and "validatePrimaryKey k = None" and "l \<notin> snd ` set (entries m)"
  shows "PrimaryKeyMap_Put k l m w = (Inr (PrimaryKeyMap_Get k m),
     m\<lparr>entries := AList.update k l (entries m)\<rparr>, w)"
  using assms by (auto simp: PrimaryKeyMap_Put_def PrimaryKeyMap_Get_def list_ex_iff image_iff)

text \<open>Whatever the bytes of a file are, a map that loads from it satisfies the invariant.\<close>

lemma LoadPrimaryKeyMap_loop_wf:
  "LoadPrimaryKeyMap_loop n payload off previous m = Inr m' \<Longrightarrow> pk_wf m \<Longrightarrow> pk_wf m'"
proof (induction n payload off previous m rule: LoadPrimaryKeyMap_loop.induct)
  case (2 n payload off previous m)
  let ?l = "\<lparr>SegmentID = Uint64 (bslice (off + 4) (off + 12) payload),
             DocID = Uint64 (bslice (off + 12) (off + 20) payload)\<rparr>"
  let ?n = "unat (Uint32 (bslice off (off + 4) payload))"
  let ?k = "bslice (off + 20) (off + 20 + ?n) payload"
  let ?m = "m\<lparr>entries := AList.update ?k ?l (entries m)\<rparr>"
  have v: "validatePrimaryKey ?k = None" and nl: "?l \<notin> set (map snd (entries m))"
    and rest: "LoadPrimaryKeyMap_loop n payload (off + 20 + ?n) (Some ?k) ?m = Inr m'"
    using "2.prems"(1) by (auto simp: Let_def split: if_splits)
  have "PrimaryKeyMap_Put ?k ?l m quiet_world =
      (Inr (PrimaryKeyMap_Get ?k m), ?m, quiet_world)"
    using v nl by (intro PrimaryKeyMap_Put_fresh) (auto simp: quiet_world_def)
  from PrimaryKeyMap_Put_wf [OF "2.prems"(2) this] have wf: "pk_wf ?m" .
  show ?case
    by (rule "2.IH" [OF _ refl refl refl _ refl refl _ _ _ rest wf])
      (use "2.prems"(1) in \<open>auto simp: Let_def split: if_splits\<close>)
qed (auto split: if_splits)

lemma LoadPrimaryKeyMap_wf:
  assumes "LoadPrimaryKeyMap name w = (Inr m, w')"
  shows "pk_wf m"
  using assms LoadPrimaryKeyMap_loop_wf pk_wf_New
  by (fastforce simp: LoadPrimaryKeyMap_def LoadPrimaryKeyMap_payload_def
      split: prod.splits sum.splits if_splits)

section \<open>What the operations do to lookups\<close>

lemma PrimaryKeyMap_Put_Get:
  "PrimaryKeyMap_Put k l m w = (Inr old, m', w') \<Longrightarrow>
     PrimaryKeyMap_Get k' m' = (if k' = k then Some l else PrimaryKeyMap_Get k' m)
       \<and> old = PrimaryKeyMap_Get k m"
  by (auto simp: PrimaryKeyMap_Put_def PrimaryKeyMap_Get_def update_conv
      split: prod.splits option.splits if_splits)

lemma PrimaryKeyMap_Put_error:
  "PrimaryKeyMap_Put k l m w = (Inl e, m', w') \<Longrightarrow> m' = m"
  by (auto simp: PrimaryKeyMap_Put_def split: prod.splits option.splits if_splits)

lemma PrimaryKeyMap_Delete_Get:
  "PrimaryKeyMap_Delete k m w = (Inr old, m', w') \<Longrightarrow>
     PrimaryKeyMap_Get k' m' = (if k' = k then None else PrimaryKeyMap_Get k' m)
       \<and> old = PrimaryKeyMap_Get k m"
  by (auto simp: PrimaryKeyMap_Delete_def PrimaryKeyMap_Get_def delete_conv
      split: prod.splits option.splits if_splits)

end
