(* ===== verification/Segment.thy ===== *)
theory Segment
  imports Paths Primary_Map
begin

text \<open>
  Segments, \<open>internal/db/segment.go\<close>: the write segment that assigns consecutive document
  IDs, its immutable snapshot file, the codec of that file, and the segment metadata of
  \<open>internal/db/manifest.go\<close> with its validation.  Cloning a Go slice has no counterpart in
  the model, whose values are immutable.
\<close>

section \<open>Data\<close>

definition segmentCodecVersion :: u16 where "segmentCodecVersion = 1"
definition segmentHeaderSize :: nat where "segmentHeaderSize = 64"
definition segmentRecordHeaderSize :: nat where "segmentRecordHeaderSize = 24"
definition MaxDocumentPayloadSize :: nat where "MaxDocumentPayloadSize = 64 * 2 ^ 20"
definition maxSegmentPayloadSize :: nat where "maxSegmentPayloadSize = 4 * 2 ^ 30"

definition segmentMagic :: bytes where
  "segmentMagic = [0x5A, 0x56, 0x45, 0x43, 0x53, 0x45, 0x47, 0]"

record StoredDocument =
  doc_DocID :: u64
  doc_PrimaryKey :: bytes
  doc_Payload :: bytes

record SegmentMetadata =
  seg_ID :: u64
  MinDocID :: u64
  MaxDocID :: u64
  DocCount :: u64
  Files :: "string list"

record WriteSegment =
  ws_id :: u64
  ws_minDocID :: u64
  ws_maxDocs :: u64
  ws_docs :: "StoredDocument list"
  ws_sealed :: bool

record ImmutableSegment =
  imm_metadata :: SegmentMetadata
  imm_docs :: "StoredDocument list"

section \<open>Segment metadata\<close>

fun validateSegment_files :: "string list \<Rightarrow> string list \<Rightarrow> go_error option" where
  "validateSegment_files seen [] = None"
| "validateSegment_files seen (name # names) =
     (case validatePortableRelativePath name of
        Some e \<Rightarrow> Some e
      | None \<Rightarrow> if name \<in> set seen then Some (NewError ''duplicate file'')
                else validateSegment_files (name # seen) names)"

definition validateSegment :: "SegmentMetadata \<Rightarrow> go_error option" where
  "validateSegment segment =
     (if DocCount segment = 0 \<and> (MinDocID segment \<noteq> 0 \<or> MaxDocID segment \<noteq> 0)
        then Some (NewError ''empty segment has a document range'')
      else if DocCount segment \<noteq> 0 \<and> MaxDocID segment < MinDocID segment
        then Some (NewError ''maximum document ID is below minimum'')
      else if DocCount segment \<noteq> 0 \<and> MaxDocID segment - MinDocID segment < DocCount segment - 1
        then Some (NewError ''document count exceeds the document ID range'')
      else validateSegment_files [] (Files segment))"

definition segmentMetadata :: "u64 \<Rightarrow> StoredDocument list \<Rightarrow> string list \<Rightarrow> SegmentMetadata" where
  "segmentMetadata i docs files =
     \<lparr>seg_ID = i,
      MinDocID = (case docs of [] \<Rightarrow> 0 | d # _ \<Rightarrow> doc_DocID d),
      MaxDocID = (if docs = [] then 0 else doc_DocID (last docs)),
      DocCount = len64 docs, Files = files\<rparr>"

definition segmentMetadataEqual :: "SegmentMetadata \<Rightarrow> SegmentMetadata \<Rightarrow> bool" where
  "segmentMetadataEqual left right \<longleftrightarrow>
     seg_ID left = seg_ID right \<and> MinDocID left = MinDocID right \<and> MaxDocID left = MaxDocID right
       \<and> DocCount left = DocCount right \<and> Files left = Files right"

section \<open>The write segment\<close>

definition NewWriteSegment :: "u64 \<Rightarrow> u64 \<Rightarrow> u64 \<Rightarrow> WriteSegment result" where
  "NewWriteSegment i minDocID maxDocs =
     (if maxDocs = 0 then Inl (NewError ''db: write segment capacity must be positive'')
      else if MaxUint64 - minDocID < maxDocs - 1
        then Inl (NewError ''db: write segment document ID range overflows'')
      else Inr \<lparr>ws_id = i, ws_minDocID = minDocID, ws_maxDocs = maxDocs, ws_docs = [],
                ws_sealed = False\<rparr>)"

definition WriteSegment_ReservedRange :: "WriteSegment \<Rightarrow> u64 \<times> u64" where
  "WriteSegment_ReservedRange s = (ws_minDocID s, ws_minDocID s + ws_maxDocs s - 1)"

definition WriteSegment_NextDocumentID :: "WriteSegment \<Rightarrow> u64 result" where
  "WriteSegment_NextDocumentID s =
     (if ws_sealed s then Inl (Sentinel ErrSegmentSealed)
      else if ws_maxDocs s \<le> len64 (ws_docs s) then Inl (Sentinel ErrSegmentFull)
      else Inr (ws_minDocID s + len64 (ws_docs s)))"

text \<open>The method \<open>append\<close>; the expected ID is a nil pointer for \<open>Append\<close>.\<close>

definition WriteSegment_append ::
  "u64 option \<Rightarrow> bytes \<Rightarrow> bytes \<Rightarrow> WriteSegment \<Rightarrow> world
     \<Rightarrow> StoredDocument result \<times> WriteSegment \<times> world" where
  "WriteSegment_append expectedDocID primaryKey payload s w =
     (case ctx_Err w of (Some e, w) \<Rightarrow> (Inl e, s, w) | (None, w) \<Rightarrow>
      case validatePrimaryKey primaryKey of Some e \<Rightarrow> (Inl e, s, w) | None \<Rightarrow>
      if MaxDocumentPayloadSize < length payload
        then (Inl (NewError ''db: document payload bytes''), s, w)
      else if ws_sealed s then (Inl (Sentinel ErrSegmentSealed), s, w)
      else if ws_maxDocs s \<le> len64 (ws_docs s) then (Inl (Sentinel ErrSegmentFull), s, w)
      else let nextDocID = ws_minDocID s + len64 (ws_docs s) in
      if (case expectedDocID of None \<Rightarrow> False | Some d \<Rightarrow> d \<noteq> nextDocID)
        then (Inl (NewError ''db: next document ID''), s, w)
      else let doc = \<lparr>doc_DocID = nextDocID, doc_PrimaryKey = primaryKey, doc_Payload = payload\<rparr> in
      (Inr doc, s\<lparr>ws_docs := ws_docs s @ [doc]\<rparr>, w))"

definition WriteSegment_Append ::
  "bytes \<Rightarrow> bytes \<Rightarrow> WriteSegment \<Rightarrow> world \<Rightarrow> StoredDocument result \<times> WriteSegment \<times> world" where
  "WriteSegment_Append primaryKey payload = WriteSegment_append None primaryKey payload"

definition WriteSegment_AppendExpected ::
  "u64 \<Rightarrow> bytes \<Rightarrow> bytes \<Rightarrow> WriteSegment \<Rightarrow> world
     \<Rightarrow> StoredDocument result \<times> WriteSegment \<times> world" where
  "WriteSegment_AppendExpected expectedDocID primaryKey payload =
     WriteSegment_append (Some expectedDocID) primaryKey payload"

definition WriteSegment_Document :: "u64 \<Rightarrow> WriteSegment \<Rightarrow> StoredDocument option" where
  "WriteSegment_Document docID s =
     (if docID < ws_minDocID s \<or> len64 (ws_docs s) \<le> docID - ws_minDocID s then None
      else Some (ws_docs s ! unat (docID - ws_minDocID s)))"

definition WriteSegment_Documents :: "WriteSegment \<Rightarrow> StoredDocument list" where
  "WriteSegment_Documents s = ws_docs s"

definition WriteSegment_Metadata :: "WriteSegment \<Rightarrow> SegmentMetadata" where
  "WriteSegment_Metadata s = segmentMetadata (ws_id s) (ws_docs s) []"

fun storedDocumentsMemoryBytes_loop :: "u64 \<Rightarrow> StoredDocument list \<Rightarrow> u64" where
  "storedDocumentsMemoryBytes_loop acc [] = acc"
| "storedDocumentsMemoryBytes_loop acc (d # ds) =
     (let sz = word_of_nat (segmentRecordHeaderSize + length (doc_PrimaryKey d) + length (doc_Payload d)) in
      if MaxUint64 - acc < sz then MaxUint64
      else storedDocumentsMemoryBytes_loop (acc + sz) ds)"

definition storedDocumentsMemoryBytes :: "StoredDocument list \<Rightarrow> u64" where
  "storedDocumentsMemoryBytes documents = storedDocumentsMemoryBytes_loop 0 documents"

section \<open>The codec\<close>

definition validateStoredDocument :: "StoredDocument \<Rightarrow> u64 \<Rightarrow> go_error option" where
  "validateStoredDocument doc expectedDocID =
     (if doc_DocID doc \<noteq> expectedDocID then Some (NewError ''db: document ID'')
      else case validatePrimaryKey (doc_PrimaryKey doc) of Some e \<Rightarrow> Some e | None \<Rightarrow>
      if MaxDocumentPayloadSize < length (doc_Payload doc)
      then Some (NewError ''db: document payload is too large'') else None)"

text \<open>The first loop of \<open>encodeSegment\<close>: it validates the documents and sums their sizes.\<close>

fun encodeSegment_size :: "u64 \<Rightarrow> nat \<Rightarrow> StoredDocument list \<Rightarrow> nat result" where
  "encodeSegment_size expectedDocID payloadLength [] = Inr payloadLength"
| "encodeSegment_size expectedDocID payloadLength (doc # docs) =
     (case validateStoredDocument doc expectedDocID of Some e \<Rightarrow> Inl e | None \<Rightarrow>
      let payloadLength = payloadLength + segmentRecordHeaderSize
            + length (doc_PrimaryKey doc) + length (doc_Payload doc) in
      if maxSegmentPayloadSize < payloadLength \<or> 2 ^ 63 - 1 < payloadLength
      then Inl (NewError ''db: segment payload is too large'')
      else encodeSegment_size (expectedDocID + 1) payloadLength docs)"

definition segment_record :: "StoredDocument \<Rightarrow> bytes" where
  "segment_record doc =
     PutUint64 (doc_DocID doc) @ PutUint32 (len32 (doc_PrimaryKey doc))
       @ PutUint32 (len32 (doc_Payload doc))
       @ PutUint32 (UpdateCRC32C (CRC32C (doc_PrimaryKey doc)) (doc_Payload doc)) @ replicate 4 0
       @ doc_PrimaryKey doc @ doc_Payload doc"

definition segment_fields :: "SegmentMetadata \<Rightarrow> u64 \<Rightarrow> u32 \<Rightarrow> bytes" where
  "segment_fields metadata len crc =
     segmentMagic @ PutUint16 segmentCodecVersion @ PutUint16 (word_of_nat segmentHeaderSize)
       @ replicate 4 0 @ PutUint64 (seg_ID metadata) @ PutUint64 (MinDocID metadata)
       @ PutUint64 (MaxDocID metadata) @ PutUint64 (DocCount metadata) @ PutUint64 len @ PutUint32 crc"

definition encodeSegment :: "SegmentMetadata \<Rightarrow> StoredDocument list \<Rightarrow> bytes result" where
  "encodeSegment metadata docs =
     (if docs = [] \<or> DocCount metadata \<noteq> len64 docs
        then Inl (NewError ''db: invalid segment document count'')
      else case encodeSegment_size (MinDocID metadata) 0 docs of Inl e \<Rightarrow> Inl e | Inr _ \<Rightarrow>
      let payload = concat (map segment_record docs);
          header = segment_fields metadata (len64 payload) (CRC32C payload) in
      Inr (header @ PutUint32 (CRC32C header) @ payload))"

text \<open>The loop of \<open>decodeSegment\<close> over the records of the payload.\<close>

fun decodeSegment_loop ::
  "nat \<Rightarrow> u64 \<Rightarrow> bytes \<Rightarrow> nat \<Rightarrow> StoredDocument list \<Rightarrow> world \<Rightarrow> StoredDocument list result \<times> world" where
  "decodeSegment_loop 0 expectedDocID payload offset docs w =
     (if offset \<noteq> length payload then (Inl (corrupt ErrSegmentCorrupt ''trailing segment payload''), w)
      else (Inr docs, w))"
| "decodeSegment_loop (Suc n) expectedDocID payload offset docs w =
     (case ctx_Err w of (Some e, w) \<Rightarrow> (Inl e, w) | (None, w) \<Rightarrow>
      if length payload - offset < segmentRecordHeaderSize
        then (Inl (corrupt ErrSegmentCorrupt ''truncated record''), w)
      else let recordHeader = bslice offset (offset + segmentRecordHeaderSize) payload;
               docID = Uint64 (bslice 0 8 recordHeader);
               keyLength = unat (Uint32 (bslice 8 12 recordHeader));
               documentLength = unat (Uint32 (bslice 12 16 recordHeader));
               expectedCRC = Uint32 (bslice 16 20 recordHeader) in
      if Uint32 (bslice 20 24 recordHeader) \<noteq> 0
        then (Inl (corrupt ErrSegmentCorrupt ''record reserved bytes''), w)
      else let offset = offset + segmentRecordHeaderSize; remaining = length payload - offset in
      if keyLength = 0 \<or> maxPrimaryKeyBytes < keyLength \<or> MaxDocumentPayloadSize < documentLength
           \<or> remaining < keyLength + documentLength
        then (Inl (corrupt ErrSegmentCorrupt ''invalid record lengths''), w)
      else let key = bslice offset (offset + keyLength) payload;
               offset = offset + keyLength;
               documentPayload = bslice offset (offset + documentLength) payload;
               offset = offset + documentLength in
      if UpdateCRC32C (CRC32C key) documentPayload \<noteq> expectedCRC
        then (Inl (corrupt ErrSegmentCorrupt ''record checksum''), w)
      else let doc = \<lparr>doc_DocID = docID, doc_PrimaryKey = key, doc_Payload = documentPayload\<rparr> in
      case validateStoredDocument doc expectedDocID of
        Some e \<Rightarrow> (Inl (corrupt ErrSegmentCorrupt ''record''), w)
      | None \<Rightarrow> decodeSegment_loop n (expectedDocID + 1) payload offset (docs @ [doc]) w)"

definition decodeSegment ::
  "bytes \<Rightarrow> world \<Rightarrow> (SegmentMetadata \<times> StoredDocument list) result \<times> world" where
  "decodeSegment encoded w =
     (if length encoded < segmentHeaderSize
        then (Inl (corrupt ErrSegmentCorrupt ''file is shorter than header''), w)
      else let header = take segmentHeaderSize encoded in
      if bslice 0 8 header \<noteq> segmentMagic then (Inl (corrupt ErrSegmentCorrupt ''invalid magic''), w)
      else if Uint16 (bslice 8 10 header) \<noteq> segmentCodecVersion
        then (Inl (corrupt ErrUnsupportedFormatVersion ''segment version''), w)
      else if Uint16 (bslice 10 12 header) \<noteq> word_of_nat segmentHeaderSize
        then (Inl (corrupt ErrSegmentCorrupt ''invalid header size''), w)
      else if Uint32 (bslice 12 16 header) \<noteq> 0
        then (Inl (corrupt ErrSegmentCorrupt ''nonzero reserved bytes''), w)
      else if CRC32C (bslice 0 60 header) \<noteq> Uint32 (bslice 60 64 header)
        then (Inl (corrupt ErrSegmentCorrupt ''header checksum''), w)
      else let payloadLength = unat (Uint64 (bslice 48 56 header)) in
      if maxSegmentPayloadSize < payloadLength \<or> payloadLength \<noteq> length encoded - segmentHeaderSize
        then (Inl (corrupt ErrSegmentCorrupt ''invalid payload length''), w)
      else let payload = drop segmentHeaderSize encoded in
      if CRC32C payload \<noteq> Uint32 (bslice 56 60 header)
        then (Inl (corrupt ErrSegmentCorrupt ''payload checksum''), w)
      else let metadata = \<lparr>seg_ID = Uint64 (bslice 16 24 header), MinDocID = Uint64 (bslice 24 32 header),
                           MaxDocID = Uint64 (bslice 32 40 header),
                           DocCount = Uint64 (bslice 40 48 header), Files = []\<rparr> in
      if DocCount metadata = 0 \<or> 2 ^ 63 - 1 < unat (DocCount metadata)
        then (Inl (corrupt ErrSegmentCorrupt ''invalid document count''), w)
      else if MaxDocID metadata < MinDocID metadata
           \<or> DocCount metadata - 1 \<noteq> MaxDocID metadata - MinDocID metadata
        then (Inl (corrupt ErrSegmentCorrupt ''non-contiguous document range''), w)
      else case decodeSegment_loop (unat (DocCount metadata)) (MinDocID metadata) payload 0 [] w of
        (Inl e, w) \<Rightarrow> (Inl e, w)
      | (Inr docs, w) \<Rightarrow> (Inr (metadata, docs), w))"

section \<open>Immutable segments\<close>

definition WriteSegment_writeImmutable ::
  "string \<Rightarrow> string \<Rightarrow> bool \<Rightarrow> WriteSegment \<Rightarrow> world
     \<Rightarrow> ImmutableSegment result \<times> WriteSegment \<times> world" where
  "WriteSegment_writeImmutable collectionDir relativeName seal s w =
     (if collectionDir = [] then (Inl (NewError ''db: empty segment collection directory''), s, w)
      else case validatePortableRelativePath relativeName of Some e \<Rightarrow> (Inl e, s, w) | None \<Rightarrow>
      case ctx_Err w of (Some e, w) \<Rightarrow> (Inl e, s, w) | (None, w) \<Rightarrow>
      if ws_sealed s then (Inl (Sentinel ErrSegmentSealed), s, w)
      else if ws_docs s = [] then (Inl (NewError ''db: cannot seal an empty segment''), s, w)
      else let metadata = segmentMetadata (ws_id s) (ws_docs s) [relativeName] in
      case encodeSegment metadata (ws_docs s) of Inl e \<Rightarrow> (Inl e, s, w) | Inr encoded \<Rightarrow>
      case writeImmutableSnapshot (filepath_Join collectionDir relativeName) encoded w of
        (Some e, w) \<Rightarrow> (Inl e, s, w)
      | (None, w) \<Rightarrow>
      (Inr \<lparr>imm_metadata = metadata, imm_docs = ws_docs s\<rparr>,
       if seal then s\<lparr>ws_sealed := True\<rparr> else s, w))"

definition WriteSegment_Seal where
  "WriteSegment_Seal collectionDir relativeName = WriteSegment_writeImmutable collectionDir relativeName True"

definition WriteSegment_Snapshot where
  "WriteSegment_Snapshot collectionDir relativeName =
     WriteSegment_writeImmutable collectionDir relativeName False"

definition OpenImmutableSegment ::
  "string \<Rightarrow> SegmentMetadata \<Rightarrow> world \<Rightarrow> ImmutableSegment result \<times> world" where
  "OpenImmutableSegment collectionDir metadata w =
     (if collectionDir = [] then (Inl (NewError ''db: empty segment collection directory''), w)
      else case ctx_Err w of (Some e, w) \<Rightarrow> (Inl e, w) | (None, w) \<Rightarrow>
      case validateSegment metadata of
        Some e \<Rightarrow> (Inl (corrupt ErrSegmentCorrupt ''metadata''), w)
      | None \<Rightarrow>
      case Files metadata of
        [] \<Rightarrow> (Inl (corrupt ErrSegmentCorrupt ''segment has no data file''), w)
      | file0 # _ \<Rightarrow>
      case os_Open (filepath_Join collectionDir file0) w of (Inl e, w) \<Rightarrow> (Inl e, w) | (Inr c, w) \<Rightarrow>
      case io_step w of (Some e, w) \<Rightarrow> (Inl e, w) | (None, w) \<Rightarrow>
      if length c < segmentHeaderSize \<or> maxSegmentPayloadSize < length c - segmentHeaderSize
        then (Inl (corrupt ErrSegmentCorrupt ''invalid file size''), w)
      else case io_step w of
        (Some e, w) \<Rightarrow> (Inl (corrupt ErrSegmentCorrupt ''read file''), w)
      | (None, w) \<Rightarrow>
      case decodeSegment c w of (Inl e, w) \<Rightarrow> (Inl e, w) | (Inr (decodedMetadata, docs), w) \<Rightarrow>
      if \<not> segmentMetadataEqual (decodedMetadata\<lparr>Files := Files metadata\<rparr>) metadata
        then (Inl (corrupt ErrSegmentCorrupt ''manifest metadata differs from data file''), w)
      else (Inr \<lparr>imm_metadata = metadata, imm_docs = docs\<rparr>, w))"

definition ImmutableSegment_ID :: "ImmutableSegment \<Rightarrow> u64" where
  "ImmutableSegment_ID s = seg_ID (imm_metadata s)"

definition ImmutableSegment_Document :: "u64 \<Rightarrow> ImmutableSegment \<Rightarrow> StoredDocument option" where
  "ImmutableSegment_Document docID s =
     (if docID < MinDocID (imm_metadata s) \<or> MaxDocID (imm_metadata s) < docID then None
      else let index = docID - MinDocID (imm_metadata s) in
      if len64 (imm_docs s) \<le> index \<or> doc_DocID (imm_docs s ! unat index) \<noteq> docID then None
      else Some (imm_docs s ! unat index))"

section \<open>Runs of documents\<close>

text \<open>Valid documents with consecutive IDs from \<open>d\<close> on.\<close>

fun valid_run :: "u64 \<Rightarrow> StoredDocument list \<Rightarrow> bool" where
  "valid_run d [] = True"
| "valid_run d (x # xs) = (validateStoredDocument x d = None \<and> valid_run (d + 1) xs)"

lemma valid_run_append:
  "valid_run d (xs @ ys) = (valid_run d xs \<and> valid_run (d + of_nat (length xs)) ys)"
  by (induction xs arbitrary: d) (auto simp: algebra_simps)

lemma validateStoredDocument_None:
  "validateStoredDocument x d = None \<longleftrightarrow> doc_DocID x = d
     \<and> validatePrimaryKey (doc_PrimaryKey x) = None \<and> length (doc_Payload x) \<le> MaxDocumentPayloadSize"
  by (auto simp: validateStoredDocument_def split: option.splits)

lemma valid_run_nth: "valid_run d xs \<Longrightarrow> i < length xs \<Longrightarrow> validateStoredDocument (xs ! i) (d + of_nat i) = None"
proof (induction xs arbitrary: d i)
  case (Cons x xs)
  show ?case
  proof (cases i)
    case (Suc j)
    then show ?thesis using Cons.IH [of "d + 1" j] Cons.prems by (simp add: add.assoc)
  qed (use Cons.prems in simp)
qed simp

lemma valid_run_DocID: "valid_run d xs \<Longrightarrow> i < length xs \<Longrightarrow> doc_DocID (xs ! i) = d + of_nat i"
  using valid_run_nth validateStoredDocument_None by blast

lemma valid_run_last:
  "valid_run d xs \<Longrightarrow> xs \<noteq> [] \<Longrightarrow> doc_DocID (last xs) = d + of_nat (length xs) - 1"
  using valid_run_DocID [of d xs "length xs - 1"] by (cases xs rule: rev_cases) (auto simp: last_conv_nth)

lemma length_segment_record [simp]:
  "length (segment_record x) = 24 + length (doc_PrimaryKey x) + length (doc_Payload x)"
  by (simp add: segment_record_def)

lemma length_segment_records: "24 * length docs \<le> length (concat (map segment_record docs))"
  by (induction docs) auto

lemma encodeSegment_size_Inr:
  "encodeSegment_size d n docs = Inr k \<Longrightarrow> valid_run d docs
     \<and> k = n + length (concat (map segment_record docs)) \<and> (docs \<noteq> [] \<longrightarrow> k \<le> maxSegmentPayloadSize)"
proof (induction docs arbitrary: d n)
  case (Cons x docs)
  let ?n = "n + 24 + length (doc_PrimaryKey x) + length (doc_Payload x)"
  have v: "validateStoredDocument x d = None" and b: "\<not> maxSegmentPayloadSize < ?n"
    and r: "encodeSegment_size (d + 1) ?n docs = Inr k"
    using Cons.prems by (auto simp: Let_def segmentRecordHeaderSize_def split: option.splits if_splits)
  show ?case using Cons.IH [OF r] v b by auto
qed simp

lemma encodeSegment_size_ok:
  "valid_run d docs \<Longrightarrow> n + length (concat (map segment_record docs)) \<le> maxSegmentPayloadSize \<Longrightarrow>
     \<exists>k. encodeSegment_size d n docs = Inr k"
proof (induction docs arbitrary: d n)
  case (Cons x docs)
  let ?n = "n + 24 + length (doc_PrimaryKey x) + length (doc_Payload x)"
  have "\<exists>k. encodeSegment_size (d + 1) ?n docs = Inr k" using Cons by (intro Cons.IH) auto
  then show ?case using Cons.prems
    by (auto simp: Let_def segmentRecordHeaderSize_def maxSegmentPayloadSize_def)
qed simp

section \<open>The codec round trip\<close>

lemma record_fields:
  assumes d: "drop off payload = segment_record x @ rest" and off: "off \<le> length payload"
    and v: "validateStoredDocument x e = None"
  defines "h \<equiv> bslice off (off + 24) payload"
  shows "\<not> length payload - off < 24" "Uint64 (bslice 0 8 h) = doc_DocID x"
    "unat (Uint32 (bslice 8 12 h)) = length (doc_PrimaryKey x)"
    "unat (Uint32 (bslice 12 16 h)) = length (doc_Payload x)"
    "Uint32 (bslice 16 20 h) = UpdateCRC32C (CRC32C (doc_PrimaryKey x)) (doc_Payload x)"
    "Uint32 (bslice 20 24 h) = 0"
    "\<not> length payload - (off + 24) < length (doc_PrimaryKey x) + length (doc_Payload x)"
    "bslice (off + 24) (off + 24 + length (doc_PrimaryKey x)) payload = doc_PrimaryKey x"
    "bslice (off + 24 + length (doc_PrimaryKey x))
       (off + 24 + length (doc_PrimaryKey x) + length (doc_Payload x)) payload = doc_Payload x"
    "drop (off + 24 + length (doc_PrimaryKey x) + length (doc_Payload x)) payload = rest"
    "off + 24 + length (doc_PrimaryKey x) + length (doc_Payload x) \<le> length payload"
proof -
  have len: "length payload - off = 24 + length (doc_PrimaryKey x) + length (doc_Payload x) + length rest"
    using arg_cong [OF d, of length] by simp
  then show "\<not> length payload - off < 24"
    "\<not> length payload - (off + 24) < length (doc_PrimaryKey x) + length (doc_Payload x)"
    "off + 24 + length (doc_PrimaryKey x) + length (doc_Payload x) \<le> length payload" using off by auto
  have k: "unat (len32 (doc_PrimaryKey x)) = length (doc_PrimaryKey x)"
    "unat (len32 (doc_Payload x)) = length (doc_Payload x)"
    using v by (auto simp: validateStoredDocument_None validatePrimaryKey_None maxPrimaryKeyBytes_def
        MaxDocumentPayloadSize_def intro!: unat_len32)
  have sl: "bslice (off + a) (off + b) payload = bslice a b (segment_record x @ rest)" for a b
    by (simp add: bslice_drop [symmetric] d)
  have h: "h = take 24 (segment_record x)"
    using sl [of 0 24] by (simp add: h_def bslice_def)
  show "Uint64 (bslice 0 8 h) = doc_DocID x" by (simp add: h segment_record_def bslice_def)
  show "unat (Uint32 (bslice 8 12 h)) = length (doc_PrimaryKey x)"
    using k by (simp add: h segment_record_def bslice_def)
  show "unat (Uint32 (bslice 12 16 h)) = length (doc_Payload x)"
    using k by (simp add: h segment_record_def bslice_def)
  show "Uint32 (bslice 16 20 h) = UpdateCRC32C (CRC32C (doc_PrimaryKey x)) (doc_Payload x)"
    by (simp add: h segment_record_def bslice_def)
  show "Uint32 (bslice 20 24 h) = 0" by (simp add: h segment_record_def bslice_def)
  show "bslice (off + 24) (off + 24 + length (doc_PrimaryKey x)) payload = doc_PrimaryKey x"
    using sl [of 24 "24 + length (doc_PrimaryKey x)"]
    by (simp add: segment_record_def bslice_def add.assoc)
  show "bslice (off + 24 + length (doc_PrimaryKey x))
       (off + 24 + length (doc_PrimaryKey x) + length (doc_Payload x)) payload = doc_Payload x"
    using sl [of "24 + length (doc_PrimaryKey x)" "24 + length (doc_PrimaryKey x) + length (doc_Payload x)"]
    by (simp add: segment_record_def bslice_def add.assoc)
  show "drop (off + 24 + length (doc_PrimaryKey x) + length (doc_Payload x)) payload = rest"
    using arg_cong [OF d, of "drop (24 + length (doc_PrimaryKey x) + length (doc_Payload x))"]
    by (simp add: segment_record_def ac_simps)
qed

lemma decodeSegment_loop_run:
  assumes "drop off payload = concat (map segment_record docs)" and "off \<le> length payload"
    and "valid_run d docs" and "polls w = None"
  shows "decodeSegment_loop (length docs) d payload off acc w = (Inr (acc @ docs), w)"
  using assms
proof (induction docs arbitrary: off d acc)
  case (Cons x docs)
  have dr: "drop off payload = segment_record x @ concat (map segment_record docs)"
    and v: "validateStoredDocument x d = None" using Cons.prems by auto
  note f = record_fields [OF dr Cons.prems(2) v]
  have key: "length (doc_PrimaryKey x) \<noteq> 0" "\<not> maxPrimaryKeyBytes < length (doc_PrimaryKey x)"
    "\<not> MaxDocumentPayloadSize < length (doc_Payload x)"
    using v by (auto simp: validateStoredDocument_None validatePrimaryKey_None)
  have ih: "decodeSegment_loop (length docs) (d + 1) payload
      (off + 24 + length (doc_PrimaryKey x) + length (doc_Payload x)) (acc @ [x]) w
      = (Inr ((acc @ [x]) @ docs), w)"
    using Cons.prems f(10,11) by (intro Cons.IH) auto
  have doc: "\<lparr>doc_DocID = doc_DocID x, doc_PrimaryKey = doc_PrimaryKey x, doc_Payload = doc_Payload x\<rparr> = x"
    by simp
  show ?case
    using ih f(1-9) key v Cons.prems(4)
    by (simp add: Let_def segmentRecordHeaderSize_def doc)
qed simp


lemma length_segment_fields [simp]: "length (segment_fields m l c) = 60"
  by (simp add: segment_fields_def segmentMagic_def)

lemma segment_header_fields:
  fixes md l c
  defines "f \<equiv> segment_fields md l c"
  defines "h \<equiv> f @ PutUint32 (CRC32C f)"
  shows "bslice 0 8 h = segmentMagic" "Uint16 (bslice 8 10 h) = 1" "Uint16 (bslice 10 12 h) = word_of_nat 64"
    "Uint32 (bslice 12 16 h) = 0" "Uint64 (bslice 16 24 h) = seg_ID md" "Uint64 (bslice 24 32 h) = MinDocID md"
    "Uint64 (bslice 32 40 h) = MaxDocID md" "Uint64 (bslice 48 56 h) = l" "Uint64 (bslice 40 48 h) = DocCount md"
    "Uint32 (bslice 56 60 h) = c" "bslice 0 60 h = f" "Uint32 (bslice 60 64 h) = CRC32C f"
  by (simp_all add: h_def f_def bslice_def segment_fields_def segmentMagic_def segmentCodecVersion_def segmentHeaderSize_def)

lemma decode_encodeSegment:
  assumes enc: "encodeSegment md docs = Inr e" and md: "md = segmentMetadata i docs files"
    and range: "unat (MinDocID md) + length docs \<le> 2 ^ 64" and w: "polls w = None"
  shows "decodeSegment e w = (Inr (md\<lparr>Files := []\<rparr>, docs), w)" "length e \<le> 64 + maxSegmentPayloadSize"
    "64 \<le> length e"
proof -
  let ?p = "concat (map segment_record docs)"
  let ?h = "segment_fields md (len64 ?p) (CRC32C ?p)"
  from enc obtain k where ne: "docs \<noteq> []" and cnt: "DocCount md = len64 docs"
    and k: "encodeSegment_size (MinDocID md) 0 docs = Inr k"
    and e: "e = ?h @ PutUint32 (CRC32C ?h) @ ?p"
    by (auto simp: encodeSegment_def Let_def split: if_splits sum.splits)
  from encodeSegment_size_Inr [OF k] ne have run: "valid_run (MinDocID md) docs"
    and len: "length ?p \<le> maxSegmentPayloadSize" by auto
  then show "length e \<le> 64 + maxSegmentPayloadSize" "64 \<le> length e" using e by auto
  have n: "length docs < 2 ^ 63" using len length_segment_records [of docs]
    by (simp add: maxSegmentPayloadSize_def)
  have ulen: "unat (len64 ?p) = length ?p" using len by (intro unat_len64) (simp add: maxSegmentPayloadSize_def)
  have ucnt: "unat (DocCount md) = length docs" using n cnt by (simp add: unat_len64)
  have last: "MaxDocID md = MinDocID md + (of_nat (length docs) - 1)"
    using valid_run_last [OF run ne] ne md by (simp add: segmentMetadata_def algebra_simps)
  have pred: "unat (of_nat (length docs) - 1 :: u64) = length docs - 1"
  proof -
    have "of_nat (length docs) - 1 = (of_nat (length docs - 1) :: u64)" using ne by (simp add: Suc_le_eq of_nat_diff)
    then show ?thesis using n by (simp add: unat_of_nat)
  qed
  have mx: "\<not> MaxDocID md < MinDocID md"
  proof -
    have "unat (MinDocID md) + (length docs - 1) < 2 ^ 64" using range ne by (cases docs) auto
    then have "unat (MaxDocID md) = unat (MinDocID md) + (length docs - 1)"
      unfolding last by (simp add: unat_word_ariths(1) pred)
    then show ?thesis by (simp add: not_less word_le_nat_alt)
  qed
  have loop: "decodeSegment_loop (length docs) (MinDocID md) ?p 0 [] w = (Inr docs, w)"
    using decodeSegment_loop_run [of 0 ?p docs] run w by simp
  have md': "md\<lparr>Files := []\<rparr> = \<lparr>seg_ID = seg_ID md, MinDocID = MinDocID md, MaxDocID = MaxDocID md,
      DocCount = DocCount md, Files = []\<rparr>" by simp
  have hd: "take 64 e = ?h @ PutUint32 (CRC32C ?h)" "drop 64 e = ?p" using e by simp_all
  have ulen': "unat (Uint64 (bslice 48 56 (take 64 e))) = length ?p"
    using segment_header_fields(8) [of md _ "CRC32C ?p"] ulen by (simp add: hd)
  have cnt1: "DocCount md - 1 = MaxDocID md - MinDocID md" using last cnt by (simp add: len64_def)
  have cnt0: "DocCount md \<noteq> 0" "\<not> 2 ^ 63 - 1 < unat (DocCount md)" using ucnt ne n by auto
  have lene: "\<not> length e < 64" "\<not> (maxSegmentPayloadSize < length ?p \<or> length ?p \<noteq> length e - 64)"
    using e len by auto
  show "decodeSegment e w = (Inr (md\<lparr>Files := []\<rparr>, docs), w)"
    unfolding decodeSegment_def segmentHeaderSize_def Let_def ulen'
    using mx cnt1 cnt0 ucnt loop lene
    by (simp add: hd segment_header_fields segmentCodecVersion_def md' split del: if_split)
qed

section \<open>The write segment invariant\<close>

text \<open>The reserved range fits the document ID space, and the documents are a run of valid
  ones from the start of that range.\<close>

definition ws_wf :: "WriteSegment \<Rightarrow> bool" where
  "ws_wf s \<longleftrightarrow> ws_maxDocs s \<noteq> 0 \<and> unat (ws_minDocID s) + unat (ws_maxDocs s) \<le> 2 ^ 64
     \<and> length (ws_docs s) \<le> unat (ws_maxDocs s) \<and> valid_run (ws_minDocID s) (ws_docs s)"

lemma ws_wf_lengths:
  assumes "ws_wf s"
  shows "unat (len64 (ws_docs s)) = length (ws_docs s)" "length (ws_docs s) < 2 ^ 64"
proof -
  show "length (ws_docs s) < 2 ^ 64"
    using assms unat_u64_lt [of "ws_maxDocs s"] by (simp add: ws_wf_def)
  then show "unat (len64 (ws_docs s)) = length (ws_docs s)" by (simp add: unat_len64)
qed

lemma NewWriteSegment_wf:
  assumes "NewWriteSegment i d n = Inr s"
  shows "ws_wf s \<and> ws_id s = i \<and> ws_minDocID s = d \<and> ws_maxDocs s = n \<and> ws_docs s = [] \<and> \<not> ws_sealed s"
proof -
  have n: "n \<noteq> 0" and b: "n - 1 \<le> MaxUint64 - d"
    and s: "s = \<lparr>ws_id = i, ws_minDocID = d, ws_maxDocs = n, ws_docs = [], ws_sealed = False\<rparr>"
    using assms by (auto simp: NewWriteSegment_def not_less split: if_splits)
  have "unat (n - 1) = unat n - 1" using n by (simp add: unat_minus_one)
  moreover have "unat (MaxUint64 - d) = 2 ^ 64 - 1 - unat d"
    using unat_u64_lt [of d] by (simp add: unat_sub unat_MaxUint64)
  moreover have "0 < unat n" using n by (simp add: unat_gt_0)
  ultimately have "unat d + unat n \<le> 2 ^ 64" using b unat_u64_lt [of d] by (simp add: word_le_nat_alt)
  then show ?thesis using n s by (simp add: ws_wf_def)
qed

text \<open>What \<open>append\<close> does: an error leaves the segment alone; success stores the next document.\<close>

lemma WriteSegment_append_error:
  "WriteSegment_append x k p s w = (Inl e, s', w') \<Longrightarrow> s' = s"
  by (auto simp: WriteSegment_append_def Let_def split: prod.splits option.splits if_splits)

lemma WriteSegment_append_ok:
  assumes "WriteSegment_append x k p s w = (Inr d, s', w')"
  shows "d = \<lparr>doc_DocID = ws_minDocID s + len64 (ws_docs s), doc_PrimaryKey = k, doc_Payload = p\<rparr>"
    "s' = s\<lparr>ws_docs := ws_docs s @ [d]\<rparr>" "\<not> ws_sealed s" "len64 (ws_docs s) < ws_maxDocs s"
    "validateStoredDocument d (ws_minDocID s + len64 (ws_docs s)) = None"
    "x = None \<or> x = Some (ws_minDocID s + len64 (ws_docs s))" "fs w' = fs w" "outcomes w' = outcomes w"
  using assms
  by (auto simp: WriteSegment_append_def Let_def validateStoredDocument_def not_le
      split: prod.splits option.splits if_splits dest!: ctx_Err_frame)

lemma WriteSegment_append_wf:
  assumes wf: "ws_wf s" and ap: "WriteSegment_append x k p s w = (r, s', w')"
  shows "ws_wf s'"
proof (cases r)
  case (Inl e)
  then show ?thesis using WriteSegment_append_error ap wf by blast
next
  case (Inr d)
  note ok = WriteSegment_append_ok [OF ap [unfolded Inr]]
  have "length (ws_docs s) < unat (ws_maxDocs s)"
    using ok(4) ws_wf_lengths(1) [OF wf] by (simp add: word_less_nat_alt)
  then show ?thesis using wf ok(2,5) by (simp add: ws_wf_def valid_run_append len64_def)
qed

lemma WriteSegment_append_calm:
  assumes "polls w = None" and "validatePrimaryKey k = None" and "length p \<le> MaxDocumentPayloadSize"
    and "WriteSegment_NextDocumentID s = Inr d"
  shows "WriteSegment_append (Some d) k p s w = (let x = \<lparr>doc_DocID = d, doc_PrimaryKey = k, doc_Payload = p\<rparr>
    in (Inr x, s\<lparr>ws_docs := ws_docs s @ [x]\<rparr>, w))"
  using assms
  by (auto simp: WriteSegment_append_def WriteSegment_NextDocumentID_def Let_def split: if_splits)

lemma WriteSegment_Document_iff:
  assumes "ws_wf s"
  shows "WriteSegment_Document d s = Some x \<longleftrightarrow> x \<in> set (ws_docs s) \<and> doc_DocID x = d"
proof
  have run: "valid_run (ws_minDocID s) (ws_docs s)" using assms by (simp add: ws_wf_def)
  note len = ws_wf_lengths [OF assms]
  {
    assume "WriteSegment_Document d s = Some x"
    then have x: "x = ws_docs s ! unat (d - ws_minDocID s)" and i: "d - ws_minDocID s < len64 (ws_docs s)"
      by (auto simp: WriteSegment_Document_def not_le split: if_splits)
    have i': "unat (d - ws_minDocID s) < length (ws_docs s)" using i len by (simp add: word_less_nat_alt)
    then show "x \<in> set (ws_docs s) \<and> doc_DocID x = d" using x valid_run_DocID [OF run i'] by simp
  next
    assume "x \<in> set (ws_docs s) \<and> doc_DocID x = d"
    then obtain i where i: "i < length (ws_docs s)" "x = ws_docs s ! i" by (auto simp: in_set_conv_nth)
    then have d: "d = ws_minDocID s + of_nat i"
      using valid_run_DocID [OF run i(1)] \<open>x \<in> _ \<and> _\<close> by simp
    have u: "unat (of_nat i :: u64) = i" using i len by (simp add: unat_of_nat)
    have "unat (ws_minDocID s) + i < 2 ^ 64" using assms i by (simp add: ws_wf_def)
    then have "ws_minDocID s \<le> d" using d u by (simp add: word_le_nat_alt unat_word_ariths(1))
    moreover have "of_nat i < len64 (ws_docs s)" using i u len by (simp add: word_less_nat_alt)
    ultimately show "WriteSegment_Document d s = Some x"
      using d i u by (simp add: WriteSegment_Document_def not_less not_le)
  }
qed

section \<open>Immutable segments\<close>

definition imm_wf :: "ImmutableSegment \<Rightarrow> bool" where
  "imm_wf s \<longleftrightarrow> imm_docs s \<noteq> [] \<and> valid_run (MinDocID (imm_metadata s)) (imm_docs s)
     \<and> unat (MinDocID (imm_metadata s)) + length (imm_docs s) \<le> 2 ^ 64 \<and> length (imm_docs s) < 2 ^ 63
     \<and> imm_metadata s = segmentMetadata (seg_ID (imm_metadata s)) (imm_docs s) (Files (imm_metadata s))"

lemma run_bounds:
  assumes "valid_run d xs" and "unat d + length xs \<le> 2 ^ 64" and "xs \<noteq> []"
  shows "d \<le> d + (of_nat (length xs) - 1)"
    and "unat (d + (of_nat (length xs) - 1)) = unat d + length xs - 1"
    and "unat (of_nat (length xs) - 1 :: u64) = length xs - 1"
proof -
  have e: "of_nat (length xs) - 1 = (of_nat (length xs - 1) :: u64)"
    using assms(3) by (simp add: Suc_le_eq of_nat_diff)
  have l: "0 < length xs" using assms(3) by simp
  then have u: "unat (of_nat (length xs - 1) :: u64) = length xs - 1" using assms(2) by (simp add: unat_of_nat)
  then show "unat (of_nat (length xs) - 1 :: u64) = length xs - 1" by (simp only: e)
  have "unat d + (length xs - 1) < 2 ^ 64" "unat d + length xs - 1 = unat d + (length xs - 1)"
    using l assms(2) by linarith+
  then show v: "unat (d + (of_nat (length xs) - 1)) = unat d + length xs - 1"
    unfolding e unat_word_ariths(1) u by simp
  show "d \<le> d + (of_nat (length xs) - 1)" using l unfolding word_le_nat_alt v by linarith
qed

lemma imm_wf_facts:
  assumes "imm_wf s"
  defines "m \<equiv> imm_metadata s"
  shows "MaxDocID m = MinDocID m + (of_nat (length (imm_docs s)) - 1)" "MinDocID m \<le> MaxDocID m"
    "unat (MaxDocID m) = unat (MinDocID m) + length (imm_docs s) - 1"
    "DocCount m = len64 (imm_docs s)"
proof -
  have run: "valid_run (MinDocID m) (imm_docs s)" and ne: "imm_docs s \<noteq> []"
    and b: "unat (MinDocID m) + length (imm_docs s) \<le> 2 ^ 64"
    and md: "m = segmentMetadata (seg_ID m) (imm_docs s) (Files m)"
    using assms by (auto simp: imm_wf_def m_def)
  have "MaxDocID m = doc_DocID (last (imm_docs s))"
    using arg_cong [OF md, of MaxDocID] ne by (simp add: segmentMetadata_def)
  then show mx: "MaxDocID m = MinDocID m + (of_nat (length (imm_docs s)) - 1)"
    using valid_run_last [OF run ne] by (simp add: algebra_simps)
  show "MinDocID m \<le> MaxDocID m" "unat (MaxDocID m) = unat (MinDocID m) + length (imm_docs s) - 1"
    using run_bounds [OF run b ne] by (simp_all add: mx)
  show "DocCount m = len64 (imm_docs s)" using arg_cong [OF md, of DocCount] by (simp add: segmentMetadata_def)
qed

lemma ImmutableSegment_Document_iff:
  assumes wf: "imm_wf s"
  shows "ImmutableSegment_Document d s = Some x \<longleftrightarrow> x \<in> set (imm_docs s) \<and> doc_DocID x = d"
proof
  let ?lo = "MinDocID (imm_metadata s)"
  have run: "valid_run ?lo (imm_docs s)" and b: "unat ?lo + length (imm_docs s) \<le> 2 ^ 64"
    and ne: "imm_docs s \<noteq> []" using wf by (auto simp: imm_wf_def)
  note f = imm_wf_facts [OF wf]
  {
    assume "ImmutableSegment_Document d s = Some x"
    then have r: "?lo \<le> d" "d \<le> MaxDocID (imm_metadata s)" and x: "x = imm_docs s ! unat (d - ?lo)" "doc_DocID x = d"
      by (auto simp: ImmutableSegment_Document_def Let_def split: if_splits)
    have "unat d \<le> unat ?lo + length (imm_docs s) - 1" using r f(3) by (simp add: word_le_nat_alt)
    moreover have "unat (d - ?lo) = unat d - unat ?lo" using r by (simp add: unat_sub)
    moreover have "0 < length (imm_docs s)" using ne by simp
    ultimately have "unat (d - ?lo) < length (imm_docs s)" by linarith
    then show "x \<in> set (imm_docs s) \<and> doc_DocID x = d" using x by simp
  next
    assume x: "x \<in> set (imm_docs s) \<and> doc_DocID x = d"
    then obtain i where i: "i < length (imm_docs s)" "x = imm_docs s ! i" by (auto simp: in_set_conv_nth)
    then have d: "d = ?lo + of_nat i" using valid_run_DocID [OF run i(1)] x by simp
    have u: "unat (of_nat i :: u64) = i" using i b by (simp add: unat_of_nat)
    have ud: "unat d = unat ?lo + i" using d i b by (simp add: unat_word_ariths(1) u)
    have r: "?lo \<le> d" "d \<le> MaxDocID (imm_metadata s)" using ud i f(3) by (simp_all add: word_le_nat_alt)
    have idx: "unat (d - ?lo) = i" using d u by simp
    have "i < unat (len64 (imm_docs s))" using i wf by (simp add: unat_len64 imm_wf_def)
    then have "\<not> len64 (imm_docs s) \<le> d - ?lo" using idx by (simp add: word_le_nat_alt)
    then show "ImmutableSegment_Document d s = Some x"
      using r idx i x by (simp add: ImmutableSegment_Document_def Let_def not_less)
  }
qed


text \<open>Whatever \<open>decodeSegment\<close> accepts is well formed.\<close>

lemma decodeSegment_loop_sound:
  "decodeSegment_loop n d payload off acc w = (Inr docs, w') \<Longrightarrow>
     \<exists>new. docs = acc @ new \<and> length new = n \<and> valid_run d new"
proof (induction n arbitrary: d off acc w)
  case 0
  then show ?case by (auto split: if_splits)
next
  case (Suc n)
  obtain doc off' w1 where v: "validateStoredDocument doc d = None"
    and r: "decodeSegment_loop n (d + 1) payload off' (acc @ [doc]) w1 = (Inr docs, w')"
    using Suc.prems by (auto simp: Let_def split: prod.splits option.splits if_splits)
  from Suc.IH [OF r] obtain new where "docs = (acc @ [doc]) @ new" "length new = n" "valid_run (d + 1) new"
    by blast
  then show ?case using v by (intro exI [of _ "doc # new"]) simp
qed

lemma decodeSegment_sound:
  assumes "decodeSegment e w = (Inr (md, docs), w')"
  shows "imm_wf \<lparr>imm_metadata = md\<lparr>Files := files\<rparr>, imm_docs = docs\<rparr>"
proof -
  obtain w1 where nz: "DocCount md \<noteq> 0" "unat (DocCount md) < 2 ^ 63"
    and rng: "\<not> MaxDocID md < MinDocID md" "DocCount md - 1 = MaxDocID md - MinDocID md"
    and loop: "decodeSegment_loop (unat (DocCount md)) (MinDocID md) (drop segmentHeaderSize e) 0 [] w = (Inr docs, w1)"
    using assms by (auto simp: decodeSegment_def Let_def split: prod.splits sum.splits if_splits)
  from decodeSegment_loop_sound [OF loop] have len: "length docs = unat (DocCount md)"
    and run: "valid_run (MinDocID md) docs" by auto
  have ne: "docs \<noteq> []" using len nz by (auto simp: unat_eq_0)
  have cnt: "of_nat (length docs) = DocCount md" using len by simp
  have "unat (DocCount md - 1) = unat (DocCount md) - 1" using nz by (simp add: unat_minus_one)
  moreover have "unat (MaxDocID md - MinDocID md) = unat (MaxDocID md) - unat (MinDocID md)"
    using rng by (simp add: unat_sub not_less)
  moreover have "unat (MinDocID md) \<le> unat (MaxDocID md)" using rng by (simp add: not_less word_le_nat_alt)
  moreover have "0 < length docs" using ne by simp
  ultimately have b: "unat (MinDocID md) + length docs \<le> 2 ^ 64"
    using rng(2) len unat_u64_lt [of "MaxDocID md"] by simp
  have hd: "doc_DocID (hd docs) = MinDocID md" using valid_run_DocID [OF run, of 0] ne by (simp add: hd_conv_nth)
  have last: "doc_DocID (last docs) = MaxDocID md"
    using valid_run_last [OF run ne] rng(2) cnt by (simp add: algebra_simps)
  have "md\<lparr>Files := files\<rparr> = segmentMetadata (seg_ID md) docs files"
    using ne hd last cnt by (cases docs) (auto simp: segmentMetadata_def len64_def)
  then have eq: "segmentMetadata (seg_ID md) docs files = md\<lparr>Files := files\<rparr>" by simp
  show ?thesis using ne run b len nz by (simp add: imm_wf_def eq)
qed

lemma OpenImmutableSegment_wf:
  assumes "OpenImmutableSegment dir md w = (Inr s, w')"
  shows "imm_wf s \<and> imm_metadata s = md"
proof -
  obtain c w1 w2 md' docs where d: "decodeSegment c w1 = (Inr (md', docs), w2)"
    and eq: "segmentMetadataEqual (md'\<lparr>Files := Files md\<rparr>) md"
    and s: "s = \<lparr>imm_metadata = md, imm_docs = docs\<rparr>"
    using assms
    by (auto simp: OpenImmutableSegment_def Let_def
        split: prod.splits sum.splits option.splits list.splits if_splits)
  have "md'\<lparr>Files := Files md\<rparr> = md" using eq by (simp add: segmentMetadataEqual_def)
  then show ?thesis using decodeSegment_sound [OF d, of "Files md"] s by simp
qed

section \<open>The file round trip\<close>

lemma imm_wf_validateSegment:
  assumes wf: "imm_wf s" and f: "Files (imm_metadata s) = [name]"
    and v: "validatePortableRelativePath name = None"
  shows "validateSegment (imm_metadata s) = None"
proof -
  note m = imm_wf_facts [OF wf]
  have "0 < length (imm_docs s)" "length (imm_docs s) < 2 ^ 63" using wf by (auto simp: imm_wf_def)
  then have "DocCount (imm_metadata s) \<noteq> 0"
    using m(4) unat_len64 [of "imm_docs s"] by auto
  moreover have "MaxDocID (imm_metadata s) - MinDocID (imm_metadata s) = DocCount (imm_metadata s) - 1"
    using m(1,4) by (simp add: len64_def)
  ultimately show ?thesis using m(2) f v by (simp add: validateSegment_def not_less)
qed

lemma WriteSegment_writeImmutable_Inr:
  assumes wf: "ws_wf s" and wr: "WriteSegment_writeImmutable dir name seal s w = (Inr imm, s', w')"
  shows "imm_wf imm" "imm_docs imm = ws_docs s" "ImmutableSegment_ID imm = ws_id s" "Files (imm_metadata imm) = [name]"
    "MinDocID (imm_metadata imm) = ws_minDocID s" "s' = (if seal then s\<lparr>ws_sealed := True\<rparr> else s)" "\<not> ws_sealed s"
proof -
  obtain e where ne: "ws_docs s \<noteq> []" and e: "encodeSegment (segmentMetadata (ws_id s) (ws_docs s) [name]) (ws_docs s) = Inr e"
    and imm: "imm = \<lparr>imm_metadata = segmentMetadata (ws_id s) (ws_docs s) [name], imm_docs = ws_docs s\<rparr>"
    and s': "s' = (if seal then s\<lparr>ws_sealed := True\<rparr> else s)" "\<not> ws_sealed s"
    using wr by (auto simp: WriteSegment_writeImmutable_def Let_def
        split: prod.splits sum.splits option.splits if_splits)
  show "imm_docs imm = ws_docs s" "ImmutableSegment_ID imm = ws_id s" "Files (imm_metadata imm) = [name]"
    "s' = (if seal then s\<lparr>ws_sealed := True\<rparr> else s)" "\<not> ws_sealed s"
    using imm s' by (simp_all add: ImmutableSegment_ID_def segmentMetadata_def)
  have run: "valid_run (ws_minDocID s) (ws_docs s)" using wf by (simp add: ws_wf_def)
  have lo: "MinDocID (segmentMetadata (ws_id s) (ws_docs s) [name]) = ws_minDocID s"
    using run ne by (cases "ws_docs s") (auto simp: segmentMetadata_def validateStoredDocument_None)
  then show "MinDocID (imm_metadata imm) = ws_minDocID s" using imm by simp
  obtain k where "encodeSegment_size (ws_minDocID s) 0 (ws_docs s) = Inr k"
    using e lo by (auto simp: encodeSegment_def split: if_splits sum.splits)
  from encodeSegment_size_Inr [OF this] ne length_segment_records [of "ws_docs s"]
  have "length (ws_docs s) < 2 ^ 63" by (simp add: maxSegmentPayloadSize_def)
  then show "imm_wf imm" using imm ne lo wf by (auto simp: imm_wf_def ws_wf_def segmentMetadata_def)
qed

lemma WriteSegment_writeImmutable_Open:
  assumes wf: "ws_wf s" and w: "calm w"
    and wr: "WriteSegment_writeImmutable dir name seal s w = (Inr imm, s', w')"
  shows "OpenImmutableSegment dir (imm_metadata imm) w' = (Inr imm, w')"
proof -
  note i = WriteSegment_writeImmutable_Inr [OF wf wr]
  let ?md = "segmentMetadata (ws_id s) (ws_docs s) [name]"
  obtain e where e: "encodeSegment ?md (ws_docs s) = Inr e" and dir: "dir \<noteq> []"
    and pv: "validatePortableRelativePath name = None"
    and ws: "writeImmutableSnapshot (filepath_Join dir name) e w = (None, w')"
    and imm: "imm = \<lparr>imm_metadata = ?md, imm_docs = ws_docs s\<rparr>"
    using wr w by (auto simp: WriteSegment_writeImmutable_def Let_def calm_def
        split: prod.splits sum.splits option.splits if_splits)
  from writeImmutableSnapshot_calm_ok [OF w ws]
  have c: "polls w' = None" "outcomes w' = []"
    and w': "fs w' = (fs w)(filepath_Join dir name \<mapsto> \<lparr>content = e, synced = length e\<rparr>)" by (simp_all add: calm_def)
  have b: "unat (MinDocID ?md) + length (ws_docs s) \<le> 2 ^ 64" using i(1) imm by (simp add: imm_wf_def)
  note d = decode_encodeSegment [OF e refl b c(1)]
  have v: "validateSegment ?md = None" using imm_wf_validateSegment [OF i(1) i(4) pv] imm by simp
  have fi: "Files ?md = [name]" by (simp add: segmentMetadata_def)
  have op: "os_Open (filepath_Join dir name) w' = (Inr e, w')" using c w' by (simp add: os_Open_def)
  have sz: "\<not> (length e < segmentHeaderSize \<or> maxSegmentPayloadSize < length e - segmentHeaderSize)"
    using d(2,3) by (simp add: segmentHeaderSize_def)
  show ?thesis
    using c dir v fi op d(1) sz by (simp add: imm OpenImmutableSegment_def segmentMetadataEqual_def)
qed

end
