(* ===== verification/Delete_Store.thy ===== *)
theory Delete_Store
  imports Snapshot
begin

text \<open>
  The logical deletion set of \<open>internal/db/delete_store.go\<close>: a Go map from document IDs to
  the empty struct as a list of distinct IDs, its operations, and its snapshot.
\<close>

section \<open>Data and operations\<close>

definition deleteSnapshotMagic :: bytes where
  "deleteSnapshotMagic = [0x5A, 0x56, 0x45, 0x43, 0x44, 0x45, 0x4C, 0]"

record DeleteStore =
  deleted :: "u64 list"

definition NewDeleteStore :: DeleteStore where
  "NewDeleteStore = \<lparr>deleted = []\<rparr>"

definition DeleteStore_MarkDeleted ::
  "u64 \<Rightarrow> DeleteStore \<Rightarrow> world \<Rightarrow> bool result \<times> DeleteStore \<times> world" where
  "DeleteStore_MarkDeleted docID s w =
     (case ctx_Err w of (Some e, w) \<Rightarrow> (Inl e, s, w) | (None, w) \<Rightarrow>
      let existed = (docID \<in> set (deleted s)) in
      (Inr (\<not> existed), s\<lparr>deleted := List.insert docID (deleted s)\<rparr>, w))"

definition DeleteStore_Restore ::
  "u64 \<Rightarrow> DeleteStore \<Rightarrow> world \<Rightarrow> bool result \<times> DeleteStore \<times> world" where
  "DeleteStore_Restore docID s w =
     (case ctx_Err w of (Some e, w) \<Rightarrow> (Inl e, s, w) | (None, w) \<Rightarrow>
      let existed = (docID \<in> set (deleted s)) in
      (Inr existed, s\<lparr>deleted := remove1 docID (deleted s)\<rparr>, w))"

definition DeleteStore_IsDeleted :: "u64 \<Rightarrow> DeleteStore \<Rightarrow> bool" where
  "DeleteStore_IsDeleted docID s \<longleftrightarrow> docID \<in> set (deleted s)"

definition DeleteStore_Count :: "DeleteStore \<Rightarrow> u64" where
  "DeleteStore_Count s = len64 (deleted s)"

definition DeleteStore_RangeCount :: "u64 \<Rightarrow> u64 \<Rightarrow> DeleteStore \<Rightarrow> u64" where
  "DeleteStore_RangeCount minDocID maxDocID s =
     (if maxDocID < minDocID then 0
      else foldl (\<lambda>count docID. if minDocID \<le> docID \<and> docID \<le> maxDocID then count + 1 else count)
             0 (deleted s))"

definition DeleteStore_Clone :: "DeleteStore \<Rightarrow> DeleteStore" where
  "DeleteStore_Clone s =
     foldl (\<lambda>c docID. c\<lparr>deleted := List.insert docID (deleted c)\<rparr>) NewDeleteStore (deleted s)"

section \<open>Snapshots\<close>

definition del_payload :: "DeleteStore \<Rightarrow> bytes" where
  "del_payload s = concat (map PutUint64 (sort (deleted s)))"

definition DeleteStore_WriteSnapshot ::
  "string \<Rightarrow> DeleteStore \<Rightarrow> world \<Rightarrow> go_error option \<times> world" where
  "DeleteStore_WriteSnapshot name s w =
     (let ids = sort (deleted s) in
      if maxSnapshotPayload div 8 < length ids
      then (Some (NewError ''db: delete snapshot is too large''), w)
      else case encodeSnapshot deleteSnapshotMagic (len64 ids) (del_payload s) of
        Inl e \<Rightarrow> (Some e, w)
      | Inr encoded \<Rightarrow> writeImmutableSnapshot name encoded w)"

text \<open>The loop of \<open>LoadDeleteStore\<close>: the IDs left, the index, the previous ID (none for the
  first) and the set built so far.\<close>

fun LoadDeleteStore_loop ::
  "nat \<Rightarrow> bytes \<Rightarrow> nat \<Rightarrow> u64 option \<Rightarrow> DeleteStore \<Rightarrow> DeleteStore result" where
  "LoadDeleteStore_loop 0 payload index previous s = Inr s"
| "LoadDeleteStore_loop (Suc n) payload index previous s =
     (let docID = Uint64 (bslice (index * 8) (index * 8 + 8) payload) in
      if (case previous of None \<Rightarrow> False | Some p \<Rightarrow> docID \<le> p)
      then Inl (corrupt ErrSnapshotCorrupt ''deleted IDs are not strictly sorted'')
      else LoadDeleteStore_loop n payload (Suc index) (Some docID)
             (s\<lparr>deleted := List.insert docID (deleted s)\<rparr>))"

definition LoadDeleteStore_payload :: "u64 \<Rightarrow> bytes \<Rightarrow> DeleteStore result" where
  "LoadDeleteStore_payload cnt payload =
     (if word_of_nat ((2 ^ 63 - 1) div 8) < cnt \<or> cnt * 8 \<noteq> len64 payload
      then Inl (corrupt ErrSnapshotCorrupt ''delete count does not match payload'')
      else LoadDeleteStore_loop (unat cnt) payload 0 None NewDeleteStore)"

definition LoadDeleteStore :: "string \<Rightarrow> world \<Rightarrow> DeleteStore result \<times> world" where
  "LoadDeleteStore name w =
     (case readSnapshotFile name w of (Inl e, w) \<Rightarrow> (Inl e, w) | (Inr encoded, w) \<Rightarrow>
      case decodeSnapshot encoded deleteSnapshotMagic of
        Inl e \<Rightarrow> (Inl e, w)
      | Inr (cnt, payload) \<Rightarrow> (LoadDeleteStore_payload cnt payload, w))"

section \<open>The invariant and the operations\<close>

definition del_wf :: "DeleteStore \<Rightarrow> bool" where
  "del_wf s \<longleftrightarrow> distinct (deleted s)"

lemma DeleteStore_MarkDeleted_wf:
  "del_wf s \<Longrightarrow> DeleteStore_MarkDeleted d s w = (r, s', w') \<Longrightarrow> del_wf s'"
  by (auto simp: DeleteStore_MarkDeleted_def del_wf_def Let_def split: prod.splits option.splits)

lemma DeleteStore_Restore_wf:
  "del_wf s \<Longrightarrow> DeleteStore_Restore d s w = (r, s', w') \<Longrightarrow> del_wf s'"
  by (auto simp: DeleteStore_Restore_def del_wf_def Let_def split: prod.splits option.splits)

lemma DeleteStore_MarkDeleted_IsDeleted:
  "DeleteStore_MarkDeleted d s w = (Inr changed, s', w') \<Longrightarrow>
     DeleteStore_IsDeleted d' s' = (d' = d \<or> DeleteStore_IsDeleted d' s)
       \<and> changed = (\<not> DeleteStore_IsDeleted d s)"
  by (auto simp: DeleteStore_MarkDeleted_def DeleteStore_IsDeleted_def Let_def
      split: prod.splits option.splits)

lemma DeleteStore_Restore_IsDeleted:
  "del_wf s \<Longrightarrow> DeleteStore_Restore d s w = (Inr changed, s', w') \<Longrightarrow>
     DeleteStore_IsDeleted d' s' = (d' \<noteq> d \<and> DeleteStore_IsDeleted d' s)
       \<and> changed = DeleteStore_IsDeleted d s"
  by (auto simp: DeleteStore_Restore_def DeleteStore_IsDeleted_def Let_def del_wf_def
      split: prod.splits option.splits)

lemma DeleteStore_MarkDeleted_calm:
  "polls w = None \<Longrightarrow> DeleteStore_MarkDeleted d s w =
     (Inr (d \<notin> set (deleted s)), s\<lparr>deleted := List.insert d (deleted s)\<rparr>, w)"
  by (simp add: DeleteStore_MarkDeleted_def Let_def)

lemma RangeCount_foldl:
  "foldl (\<lambda>(count :: u64) docID. if lo \<le> docID \<and> docID \<le> hi then count + 1 else count) n xs =
     n + word_of_nat (length (filter (\<lambda>d. lo \<le> d \<and> d \<le> hi) xs))"
  by (induction xs arbitrary: n) (auto simp: algebra_simps)

lemma DeleteStore_RangeCount_card:
  "del_wf s \<Longrightarrow> DeleteStore_RangeCount lo hi s =
     word_of_nat (card {d. DeleteStore_IsDeleted d s \<and> lo \<le> d \<and> d \<le> hi})"
proof -
  assume s: "del_wf s"
  have "card {d. DeleteStore_IsDeleted d s \<and> lo \<le> d \<and> d \<le> hi}
      = card (set (filter (\<lambda>d. lo \<le> d \<and> d \<le> hi) (deleted s)))"
    by (rule arg_cong [of _ _ card]) (auto simp: DeleteStore_IsDeleted_def)
  also have "\<dots> = length (filter (\<lambda>d. lo \<le> d \<and> d \<le> hi) (deleted s))"
    using s by (intro distinct_card) (simp add: del_wf_def)
  finally have c: "card {d. DeleteStore_IsDeleted d s \<and> lo \<le> d \<and> d \<le> hi}
      = length (filter (\<lambda>d. lo \<le> d \<and> d \<le> hi) (deleted s))" .
  have "hi < lo \<Longrightarrow> filter (\<lambda>d. lo \<le> d \<and> d \<le> hi) (deleted s) = []"
    by (auto simp: filter_empty_conv)
  then show ?thesis
    by (cases "hi < lo") (simp_all add: DeleteStore_RangeCount_def RangeCount_foldl c)
qed

section \<open>The snapshot round trip\<close>

definition del_storable :: "DeleteStore \<Rightarrow> bool" where
  "del_storable s \<longleftrightarrow> del_wf s \<and> length (deleted s) \<le> maxSnapshotPayload div 8"

definition del_canonical :: "DeleteStore \<Rightarrow> DeleteStore" where
  "del_canonical s = \<lparr>deleted = rev (sort (deleted s))\<rparr>"

lemma length_concat_Put64 [simp]: "length (concat (map PutUint64 ids)) = 8 * length ids"
  by (induction ids) auto

lemma load_ids:
  assumes "drop (index * 8) payload = concat (map PutUint64 ids)"
    and "sorted_wrt (<) ids" and "\<forall>p. previous = Some p \<longrightarrow> (\<forall>d \<in> set ids. p < d)"
    and "set (deleted s) \<inter> set ids = {}"
  shows "LoadDeleteStore_loop (length ids) payload index previous s =
    Inr (s\<lparr>deleted := rev ids @ deleted s\<rparr>)"
  using assms
proof (induction ids arbitrary: index previous s)
  case (Cons d ids)
  have "bslice (index * 8) (index * 8 + 8) payload = PutUint64 d"
    using Cons.prems(1) by (simp add: bslice_def)
  then have u: "Uint64 (bslice (index * 8) (index * 8 + 8) payload) = d" by simp
  have "drop (Suc index * 8) payload = drop 8 (drop (index * 8) payload)" by (simp add: add.commute)
  then have d': "drop (Suc index * 8) payload = concat (map PutUint64 ids)"
    using Cons.prems(1) by simp
  have new: "List.insert d (deleted s) = d # deleted s" using Cons.prems(4) by (simp add: List.insert_def)
  have prev: "\<not> (case previous of None \<Rightarrow> False | Some p \<Rightarrow> d \<le> p)"
    using Cons.prems(3) by (auto split: option.splits)
  have "LoadDeleteStore_loop (length ids) payload (Suc index) (Some d) (s\<lparr>deleted := d # deleted s\<rparr>) =
      Inr (s\<lparr>deleted := d # deleted s\<rparr>\<lparr>deleted := rev ids @ deleted (s\<lparr>deleted := d # deleted s\<rparr>)\<rparr>)"
    using Cons.prems(2,4) d' by (intro Cons.IH) auto
  then show ?case using u new prev by (simp add: Let_def)
qed simp

interpretation del_snapshot: snapshot_kind deleteSnapshotMagic del_storable
  "\<lambda>s. len64 (sort (deleted s))" del_payload LoadDeleteStore_payload del_canonical
proof unfold_locales
  show "length deleteSnapshotMagic = 8" by (simp add: deleteSnapshotMagic_def)
next
  fix s assume st: "del_storable s"
  then show len: "length (del_payload s) \<le> maxSnapshotPayload"
    by (simp add: del_payload_def del_storable_def maxSnapshotPayload_def)
  let ?ids = "sort (deleted s)"
  have n: "length ?ids \<le> 2 ^ 25" using st by (simp add: del_storable_def maxSnapshotPayload_def)
  then have u: "unat (len64 ?ids) = length ?ids" by (intro unat_len64) simp
  have "len64 ?ids * 8 = len64 (del_payload s)" by (simp add: len64_def del_payload_def mult.commute)
  moreover have "\<not> word_of_nat ((2 ^ 63 - 1) div 8) < len64 ?ids"
    using n u by (simp add: not_less word_le_nat_alt)
  moreover have "LoadDeleteStore_loop (length ?ids) (del_payload s) 0 None NewDeleteStore =
      Inr (NewDeleteStore\<lparr>deleted := rev ?ids @ deleted NewDeleteStore\<rparr>)"
    using st by (intro load_ids)
      (auto simp: del_payload_def del_storable_def del_wf_def NewDeleteStore_def strict_sorted_iff)
  ultimately show "LoadDeleteStore_payload (len64 ?ids) (del_payload s) = Inr (del_canonical s)"
    using u by (simp add: LoadDeleteStore_payload_def NewDeleteStore_def del_canonical_def)
qed

lemma del_WriteSnapshot_Load:
  assumes "del_storable s" and "calm w" and "free_name name w"
    and "DeleteStore_WriteSnapshot name s w = (r, w')"
  shows "r = None \<and> LoadDeleteStore name w' = (Inr (del_canonical s), w')"
proof -
  obtain e where e: "encodeSnapshot deleteSnapshotMagic (len64 (sort (deleted s))) (del_payload s) = Inr e"
    using del_snapshot.encode_storable [OF assms(1)] by blast
  have "writeImmutableSnapshot name e w = (r, w')"
    using assms(1,4) e by (auto simp: DeleteStore_WriteSnapshot_def del_storable_def Let_def)
  from del_snapshot.write_then_read [OF assms(1-3) e this] show ?thesis
    by (simp add: LoadDeleteStore_def)
qed

lemma del_canonical_IsDeleted: "DeleteStore_IsDeleted d (del_canonical s) = DeleteStore_IsDeleted d s"
  by (simp add: DeleteStore_IsDeleted_def del_canonical_def)

end
