(* ===== verification/Segment_Manager.thy ===== *)
theory Segment_Manager
  imports Segment Delete_Store "HOL-Library.Product_Lexorder"
begin

text \<open>
  The segment manager, \<open>internal/db/segment_manager.go\<close>: the immutable segments, the optional
  write segment, the primary-key map and the deletion set.  A Go map from segment IDs is an
  association list whose order stands for one iteration order of the map; the results that
  matter do not depend on it.  \<open>mgr_wf\<close> is the structural invariant the range checks keep,
  \<open>mgr_indexed\<close> ties the key map and the deletion set to the documents.
\<close>

section \<open>Data\<close>

record FetchResult =
  fr_PrimaryKey :: bytes
  fr_Document :: "StoredDocument option"
  fr_Err :: "go_error option"

record StorageStats =
  ImmutableSegmentCount :: u64
  MutableDocumentCount :: u64
  DeletedDocumentCount :: u64
  MemoryUsageBytes :: u64

record SegmentManager =
  mgr_immutable :: "(u64 \<times> ImmutableSegment) list"
  mgr_writing :: "WriteSegment option"
  mgr_primaryKey :: PrimaryKeyMap
  mgr_deletes :: DeleteStore

definition NewSegmentManager :: "PrimaryKeyMap option \<Rightarrow> DeleteStore option \<Rightarrow> SegmentManager" where
  "NewSegmentManager primaryKey deletes =
     \<lparr>mgr_immutable = [], mgr_writing = None,
      mgr_primaryKey = (case primaryKey of None \<Rightarrow> NewPrimaryKeyMap | Some m \<Rightarrow> m),
      mgr_deletes = (case deletes of None \<Rightarrow> NewDeleteStore | Some d \<Rightarrow> d)\<rparr>"

section \<open>Range checks\<close>

definition rangesOverlap :: "SegmentMetadata \<Rightarrow> SegmentMetadata \<Rightarrow> bool" where
  "rangesOverlap left right \<longleftrightarrow>
     (if DocCount left = 0 \<or> DocCount right = 0 then False
      else MinDocID left \<le> MaxDocID right \<and> MinDocID right \<le> MaxDocID left)"

definition checkRangeAgainstImmutableLocked ::
  "SegmentMetadata \<Rightarrow> u64 \<Rightarrow> SegmentManager \<Rightarrow> go_error option" where
  "checkRangeAgainstImmutableLocked candidate candidateID m =
     (if DocCount candidate = 0 then None
      else if list_ex (\<lambda>(i, segment). i \<noteq> candidateID \<and> rangesOverlap candidate (imm_metadata segment))
                (mgr_immutable m)
      then Some (NewError ''db: segment document range overlaps segment'')
      else None)"

definition checkRangeLocked ::
  "SegmentMetadata \<Rightarrow> u64 \<Rightarrow> SegmentManager \<Rightarrow> go_error option" where
  "checkRangeLocked candidate candidateID m =
     (if DocCount candidate = 0 then None
      else if list_ex (\<lambda>(i, segment). i \<noteq> candidateID \<and> rangesOverlap candidate (imm_metadata segment))
                (mgr_immutable m)
      then Some (NewError ''db: segment document range overlaps segment'')
      else case mgr_writing m of
        None \<Rightarrow> None
      | Some ws \<Rightarrow>
          if ws_id ws \<noteq> candidateID
            \<and> (case WriteSegment_ReservedRange ws of (reservedMin, reservedMax) \<Rightarrow>
                 MinDocID candidate \<le> reservedMax \<and> reservedMin \<le> MaxDocID candidate)
          then Some (NewError ''db: segment document range overlaps writing segment reserved range'')
          else None)"

text \<open>The inline test of \<open>SetWriting\<close> and \<open>RotateWriting\<close>: a segment with documents meets a
  reserved range.\<close>

definition reserved_overlap :: "u64 \<times> u64 \<Rightarrow> SegmentMetadata \<Rightarrow> bool" where
  "reserved_overlap r metadata \<longleftrightarrow>
     0 < DocCount metadata \<and> fst r \<le> MaxDocID metadata \<and> MinDocID metadata \<le> snd r"

section \<open>Changing the set of segments\<close>

definition SegmentManager_SetWriting ::
  "WriteSegment \<Rightarrow> SegmentManager \<Rightarrow> go_error option \<times> SegmentManager" where
  "SegmentManager_SetWriting segment m =
     (if mgr_writing m \<noteq> None then (Some (NewError ''db: writing segment already exists''), m)
      else if map_of (mgr_immutable m) (ws_id segment) \<noteq> None
        then (Some (NewError ''db: segment ID already exists''), m)
      else if list_ex (\<lambda>(i, immutable).
                 reserved_overlap (WriteSegment_ReservedRange segment) (imm_metadata immutable)) (mgr_immutable m)
        then (Some (NewError ''db: writing segment reserved range overlaps segment''), m)
      else (None, m\<lparr>mgr_writing := Some segment\<rparr>))"

definition SegmentManager_ClearWriting :: "SegmentManager \<Rightarrow> WriteSegment option \<times> SegmentManager" where
  "SegmentManager_ClearWriting m = (mgr_writing m, m\<lparr>mgr_writing := None\<rparr>)"

definition SegmentManager_RotateWriting ::
  "u64 \<Rightarrow> ImmutableSegment \<Rightarrow> WriteSegment \<Rightarrow> SegmentManager \<Rightarrow> go_error option \<times> SegmentManager" where
  "SegmentManager_RotateWriting currentID immutable next_ws m =
     (if (case mgr_writing m of None \<Rightarrow> True | Some ws \<Rightarrow> ws_id ws \<noteq> currentID)
        then (Some (NewError ''db: writing segment changed during rotation''), m)
      else if ImmutableSegment_ID immutable \<noteq> currentID
        then (Some (NewError ''db: immutable segment ID does not match writing segment''), m)
      else if ws_id next_ws = currentID
        then (Some (NewError ''db: next writing segment reuses ID''), m)
      else if map_of (mgr_immutable m) currentID \<noteq> None
        then (Some (NewError ''db: segment ID already exists''), m)
      else if map_of (mgr_immutable m) (ws_id next_ws) \<noteq> None
        then (Some (NewError ''db: next segment ID already exists''), m)
      else let metadata = imm_metadata immutable in
      case checkRangeAgainstImmutableLocked metadata currentID m of Some e \<Rightarrow> (Some e, m) | None \<Rightarrow>
      let r = WriteSegment_ReservedRange next_ws in
      if reserved_overlap r metadata
        then (Some (NewError ''db: next writing segment overlaps flushed segment''), m)
      else if list_ex (\<lambda>(i, segment). reserved_overlap r (imm_metadata segment)) (mgr_immutable m)
        then (Some (NewError ''db: next writing segment overlaps segment''), m)
      else (None, m\<lparr>mgr_immutable := (currentID, immutable) # mgr_immutable m,
                    mgr_writing := Some next_ws\<rparr>))"

definition SegmentManager_AddImmutable ::
  "ImmutableSegment \<Rightarrow> SegmentManager \<Rightarrow> go_error option \<times> SegmentManager" where
  "SegmentManager_AddImmutable segment m =
     (let i = ImmutableSegment_ID segment in
      if map_of (mgr_immutable m) i \<noteq> None
           \<or> (case mgr_writing m of None \<Rightarrow> False | Some ws \<Rightarrow> ws_id ws = i)
        then (Some (NewError ''db: segment ID already exists''), m)
      else case checkRangeLocked (imm_metadata segment) i m of
        Some e \<Rightarrow> (Some e, m)
      | None \<Rightarrow> (None, m\<lparr>mgr_immutable := (i, segment) # mgr_immutable m\<rparr>))"

definition SegmentManager_RemoveImmutable ::
  "u64 \<Rightarrow> SegmentManager \<Rightarrow> ImmutableSegment result \<times> SegmentManager" where
  "SegmentManager_RemoveImmutable segmentID m =
     (case map_of (mgr_immutable m) segmentID of
        None \<Rightarrow> (Inl (Sentinel ErrSegmentNotFound), m)
      | Some segment \<Rightarrow> (Inr segment, m\<lparr>mgr_immutable := AList.delete segmentID (mgr_immutable m)\<rparr>))"

section \<open>Reading\<close>

definition cmpUint64 :: "u64 \<Rightarrow> u64 \<Rightarrow> int" where
  "cmpUint64 left right = (if left < right then - 1 else if right < left then 1 else 0)"

text \<open>The comparison handed to \<open>slices.SortFunc\<close>, and the key that induces it.\<close>

definition compare_segments :: "ImmutableSegment \<Rightarrow> ImmutableSegment \<Rightarrow> int" where
  "compare_segments left right =
     (let leftMeta = imm_metadata left; rightMeta = imm_metadata right in
      if MinDocID leftMeta < MinDocID rightMeta then - 1
      else if MinDocID rightMeta < MinDocID leftMeta then 1
      else cmpUint64 (seg_ID leftMeta) (seg_ID rightMeta))"

definition segment_key :: "ImmutableSegment \<Rightarrow> u64 \<times> u64" where
  "segment_key s = (MinDocID (imm_metadata s), seg_ID (imm_metadata s))"

definition SegmentManager_ImmutableSegments :: "SegmentManager \<Rightarrow> ImmutableSegment list" where
  "SegmentManager_ImmutableSegments m = sort_key segment_key (map snd (mgr_immutable m))"

definition SegmentManager_ImmutableMetadata :: "SegmentManager \<Rightarrow> SegmentMetadata list" where
  "SegmentManager_ImmutableMetadata m = map imm_metadata (SegmentManager_ImmutableSegments m)"

fun document_in :: "u64 \<Rightarrow> ImmutableSegment list \<Rightarrow> StoredDocument option" where
  "document_in docID [] = None"
| "document_in docID (segment # segments) =
     (if MinDocID (imm_metadata segment) \<le> docID \<and> docID \<le> MaxDocID (imm_metadata segment)
      then ImmutableSegment_Document docID segment
      else document_in docID segments)"

definition SegmentManager_Document :: "u64 \<Rightarrow> SegmentManager \<Rightarrow> StoredDocument option" where
  "SegmentManager_Document docID m =
     (if DeleteStore_IsDeleted docID (mgr_deletes m) then None
      else case (case mgr_writing m of None \<Rightarrow> None | Some ws \<Rightarrow> WriteSegment_Document docID ws) of
        Some doc \<Rightarrow> Some doc
      | None \<Rightarrow> document_in docID (map snd (mgr_immutable m)))"

definition SegmentManager_DocumentByPrimaryKey :: "bytes \<Rightarrow> SegmentManager \<Rightarrow> StoredDocument option" where
  "SegmentManager_DocumentByPrimaryKey key m =
     (case PrimaryKeyMap_Get key (mgr_primaryKey m) of None \<Rightarrow> None | Some location \<Rightarrow>
      if DeleteStore_IsDeleted (DocID location) (mgr_deletes m) then None
      else let document =
        (case mgr_writing m of
           Some ws \<Rightarrow> if ws_id ws = SegmentID location then WriteSegment_Document (DocID location) ws
                      else (case map_of (mgr_immutable m) (SegmentID location) of
                              None \<Rightarrow> None | Some segment \<Rightarrow> ImmutableSegment_Document (DocID location) segment)
         | None \<Rightarrow> (case map_of (mgr_immutable m) (SegmentID location) of
                              None \<Rightarrow> None | Some segment \<Rightarrow> ImmutableSegment_Document (DocID location) segment)) in
      case document of
        None \<Rightarrow> None
      | Some doc \<Rightarrow> if doc_PrimaryKey doc = key then Some doc else None)"

text \<open>\<open>Fetch\<close>: the results, the batch error, and the environment.\<close>

fun SegmentManager_Fetch ::
  "bytes list \<Rightarrow> SegmentManager \<Rightarrow> world \<Rightarrow> FetchResult list \<times> go_error option \<times> world" where
  "SegmentManager_Fetch [] m w = ([], None, w)"
| "SegmentManager_Fetch (key # keys) m w =
     (case ctx_Err w of
        (Some e, w) \<Rightarrow> (map (\<lambda>k. \<lparr>fr_PrimaryKey = k, fr_Document = None, fr_Err = Some e\<rparr>) (key # keys), Some e, w)
      | (None, w) \<Rightarrow>
      case SegmentManager_Fetch keys m w of (results, err, w) \<Rightarrow>
      (\<lparr>fr_PrimaryKey = key, fr_Document = SegmentManager_DocumentByPrimaryKey key m, fr_Err = None\<rparr> # results,
       err, w))"

definition live_document :: "SegmentManager \<Rightarrow> StoredDocument \<Rightarrow> bool" where
  "live_document m document \<longleftrightarrow>
     \<not> DeleteStore_IsDeleted (doc_DocID document) (mgr_deletes m)
       \<and> (case PrimaryKeyMap_Get (doc_PrimaryKey document) (mgr_primaryKey m) of
            None \<Rightarrow> False | Some location \<Rightarrow> DocID location = doc_DocID document)"

text \<open>The closure \<open>appendLive\<close> of \<open>LiveDocuments\<close>.\<close>

fun appendLive ::
  "SegmentManager \<Rightarrow> StoredDocument list \<Rightarrow> StoredDocument list \<Rightarrow> world
     \<Rightarrow> StoredDocument list result \<times> world" where
  "appendLive m [] acc w = (Inr acc, w)"
| "appendLive m (document # documents) acc w =
     (case ctx_Err w of (Some e, w) \<Rightarrow> (Inl e, w) | (None, w) \<Rightarrow>
      appendLive m documents (if live_document m document then acc @ [document] else acc) w)"

fun live_segments ::
  "SegmentManager \<Rightarrow> ImmutableSegment list \<Rightarrow> StoredDocument list \<Rightarrow> world
     \<Rightarrow> StoredDocument list result \<times> world" where
  "live_segments m [] acc w = (Inr acc, w)"
| "live_segments m (segment # segments) acc w =
     (case appendLive m (imm_docs segment) acc w of
        (Inl e, w) \<Rightarrow> (Inl e, w)
      | (Inr acc, w) \<Rightarrow> live_segments m segments acc w)"

definition SegmentManager_LiveDocuments ::
  "SegmentManager \<Rightarrow> world \<Rightarrow> StoredDocument list result \<times> world" where
  "SegmentManager_LiveDocuments m w =
     (case ctx_Err w of (Some e, w) \<Rightarrow> (Inl e, w) | (None, w) \<Rightarrow>
      case live_segments m (SegmentManager_ImmutableSegments m) [] w of
        (Inl e, w) \<Rightarrow> (Inl e, w)
      | (Inr acc, w) \<Rightarrow>
      case mgr_writing m of None \<Rightarrow> (Inr acc, w) | Some ws \<Rightarrow> appendLive m (WriteSegment_Documents ws) acc w)"

section \<open>Statistics\<close>

definition saturatingAdd :: "u64 \<Rightarrow> u64 \<Rightarrow> u64" where
  "saturatingAdd left right = (if MaxUint64 - left < right then MaxUint64 else left + right)"

definition saturatingMultiplyByEight :: "u64 \<Rightarrow> u64" where
  "saturatingMultiplyByEight v = (if MaxUint64 div 8 < v then MaxUint64 else v * 8)"

definition SegmentManager_StorageStats :: "SegmentManager \<Rightarrow> StorageStats" where
  "SegmentManager_StorageStats m =
     (let segments = map snd (mgr_immutable m);
          deletedCount = DeleteStore_Count (mgr_deletes m);
          usage = foldl (\<lambda>u s. saturatingAdd u (storedDocumentsMemoryBytes (imm_docs s)))
                    (saturatingMultiplyByEight deletedCount) segments in
      case mgr_writing m of
        None \<Rightarrow> \<lparr>ImmutableSegmentCount = len64 segments, MutableDocumentCount = 0,
                  DeletedDocumentCount = deletedCount, MemoryUsageBytes = usage\<rparr>
      | Some ws \<Rightarrow> \<lparr>ImmutableSegmentCount = len64 segments,
                  MutableDocumentCount = DocCount (WriteSegment_Metadata ws),
                  DeletedDocumentCount = deletedCount,
                  MemoryUsageBytes = saturatingAdd usage (storedDocumentsMemoryBytes (ws_docs ws))\<rparr>)"

section \<open>The structural invariant\<close>

definition imm_range :: "ImmutableSegment \<Rightarrow> u64 set" where
  "imm_range s = {MinDocID (imm_metadata s) .. MaxDocID (imm_metadata s)}"

definition ws_range :: "WriteSegment \<Rightarrow> u64 set" where
  "ws_range s = {fst (WriteSegment_ReservedRange s) .. snd (WriteSegment_ReservedRange s)}"

definition immutables_wf :: "(u64 \<times> ImmutableSegment) list \<Rightarrow> bool" where
  "immutables_wf xs \<longleftrightarrow> distinct (map fst xs)
     \<and> (\<forall>i s. (i, s) \<in> set xs \<longrightarrow> imm_wf s \<and> ImmutableSegment_ID s = i)
     \<and> (\<forall>i s j t. (i, s) \<in> set xs \<longrightarrow> (j, t) \<in> set xs \<longrightarrow> i \<noteq> j \<longrightarrow> imm_range s \<inter> imm_range t = {})"

definition writing_wf :: "(u64 \<times> ImmutableSegment) list \<Rightarrow> WriteSegment \<Rightarrow> bool" where
  "writing_wf xs ws \<longleftrightarrow> ws_wf ws \<and> ws_id ws \<notin> fst ` set xs
     \<and> (\<forall>i s. (i, s) \<in> set xs \<longrightarrow> imm_range s \<inter> ws_range ws = {})"

definition mgr_wf :: "SegmentManager \<Rightarrow> bool" where
  "mgr_wf m \<longleftrightarrow> immutables_wf (mgr_immutable m)
     \<and> pred_option (writing_wf (mgr_immutable m)) (mgr_writing m)
     \<and> pk_wf (mgr_primaryKey m) \<and> del_wf (mgr_deletes m)"

lemma intervals_meet:
  fixes a b c d :: "'a :: linorder"
  assumes "a \<le> b" and "c \<le> d"
  shows "{a..b} \<inter> {c..d} = {} \<longleftrightarrow> \<not> (a \<le> d \<and> c \<le> b)"
  using assms by (auto simp: Int_atLeastAtMost not_le)

lemma imm_wf_bounds: "imm_wf s \<Longrightarrow> MinDocID (imm_metadata s) \<le> MaxDocID (imm_metadata s) \<and> DocCount (imm_metadata s) \<noteq> 0"
proof -
  assume wf: "imm_wf s"
  have "0 < length (imm_docs s)" "length (imm_docs s) < 2 ^ 63" using wf by (auto simp: imm_wf_def)
  then have "unat (DocCount (imm_metadata s)) \<noteq> 0"
    using imm_wf_facts(4) [OF wf] unat_len64 [of "imm_docs s"] by simp
  then show ?thesis using imm_wf_facts(2) [OF wf] by auto
qed

lemma ws_wf_reserved:
  assumes "ws_wf s"
  shows "fst (WriteSegment_ReservedRange s) \<le> snd (WriteSegment_ReservedRange s)"
    and "unat (snd (WriteSegment_ReservedRange s)) = unat (ws_minDocID s) + unat (ws_maxDocs s) - 1"
proof -
  have m: "0 < unat (ws_maxDocs s)" and b: "unat (ws_minDocID s) + unat (ws_maxDocs s) \<le> 2 ^ 64"
    using assms by (auto simp: ws_wf_def unat_gt_0)
  then have nz: "ws_maxDocs s \<noteq> 0" by auto
  have r: "snd (WriteSegment_ReservedRange s) = ws_minDocID s + (ws_maxDocs s - 1)"
    by (simp add: WriteSegment_ReservedRange_def algebra_simps)
  have "unat (ws_maxDocs s - 1) = unat (ws_maxDocs s) - 1" using nz by (rule unat_minus_one)
  then show u: "unat (snd (WriteSegment_ReservedRange s)) = unat (ws_minDocID s) + unat (ws_maxDocs s) - 1"
    using m b unfolding r unat_word_ariths(1) by simp
  then show "fst (WriteSegment_ReservedRange s) \<le> snd (WriteSegment_ReservedRange s)"
    using m unfolding word_le_nat_alt u by (simp add: WriteSegment_ReservedRange_def)
qed

lemma rangesOverlap_iff:
  "imm_wf s \<Longrightarrow> imm_wf t \<Longrightarrow> rangesOverlap (imm_metadata s) (imm_metadata t) \<longleftrightarrow> imm_range s \<inter> imm_range t \<noteq> {}"
  using imm_wf_bounds [of s] imm_wf_bounds [of t] by (auto simp: rangesOverlap_def imm_range_def intervals_meet)

lemma reserved_overlap_iff:
  "imm_wf s \<Longrightarrow> ws_wf ws \<Longrightarrow>
     reserved_overlap (WriteSegment_ReservedRange ws) (imm_metadata s) \<longleftrightarrow> imm_range s \<inter> ws_range ws \<noteq> {}"
  using imm_wf_bounds [of s] ws_wf_reserved(1) [of ws]
  by (auto simp: reserved_overlap_def imm_range_def ws_range_def intervals_meet word_neq_0_conv)

lemma immutables_wf_member: "immutables_wf xs \<Longrightarrow> (i, s) \<in> set xs \<Longrightarrow> imm_wf s \<and> ImmutableSegment_ID s = i"
  by (auto simp: immutables_wf_def)

lemma checkRangeAgainstImmutable_None:
  assumes "immutables_wf (mgr_immutable m)" and "imm_wf s" and "i \<notin> fst ` set (mgr_immutable m)"
  shows "checkRangeAgainstImmutableLocked (imm_metadata s) i m = None \<longleftrightarrow>
    (\<forall>j t. (j, t) \<in> set (mgr_immutable m) \<longrightarrow> imm_range s \<inter> imm_range t = {})"
proof -
  have "j \<noteq> i \<and> rangesOverlap (imm_metadata s) (imm_metadata t) = (imm_range s \<inter> imm_range t \<noteq> {})"
    if "(j, t) \<in> set (mgr_immutable m)" for j t
    using that assms(3) rangesOverlap_iff [OF assms(2)] immutables_wf_member [OF assms(1) that] by force
  then have "list_ex (\<lambda>(j, t). j \<noteq> i \<and> rangesOverlap (imm_metadata s) (imm_metadata t)) (mgr_immutable m)
      \<longleftrightarrow> (\<exists>j t. (j, t) \<in> set (mgr_immutable m) \<and> imm_range s \<inter> imm_range t \<noteq> {})"
    unfolding list_ex_iff by fast
  then show ?thesis
    using imm_wf_bounds [OF assms(2)] by (auto simp: checkRangeAgainstImmutableLocked_def)
qed

lemma immutables_wf_Cons:
  "immutables_wf xs \<Longrightarrow> imm_wf s \<Longrightarrow> ImmutableSegment_ID s = i \<Longrightarrow> i \<notin> fst ` set xs \<Longrightarrow>
     (\<And>j t. (j, t) \<in> set xs \<Longrightarrow> imm_range s \<inter> imm_range t = {}) \<Longrightarrow> immutables_wf ((i, s) # xs)"
  by (simp add: immutables_wf_def) (blast dest: sym)

lemma immutables_wf_delete: "immutables_wf xs \<Longrightarrow> immutables_wf (AList.delete i xs)"
  unfolding immutables_wf_def by (simp add: AList.delete_eq distinct_map_filter) blast

lemma writing_wf_subset: "writing_wf xs ws \<Longrightarrow> set ys \<subseteq> set xs \<Longrightarrow> writing_wf ys ws"
  unfolding writing_wf_def by blast

section \<open>Every operation keeps it\<close>

lemma NewSegmentManager_wf: "pred_option pk_wf p \<Longrightarrow> pred_option del_wf d \<Longrightarrow> mgr_wf (NewSegmentManager p d)"
  by (cases p; cases d) (auto simp: mgr_wf_def NewSegmentManager_def immutables_wf_def pk_wf_New del_wf_def NewDeleteStore_def)

lemma list_reserved_overlap:
  "immutables_wf xs \<Longrightarrow> ws_wf ws \<Longrightarrow>
     list_ex (\<lambda>(i, s). reserved_overlap (WriteSegment_ReservedRange ws) (imm_metadata s)) xs \<longleftrightarrow>
     \<not> (\<forall>i s. (i, s) \<in> set xs \<longrightarrow> imm_range s \<inter> ws_range ws = {})"
  by (fastforce simp: list_ex_iff reserved_overlap_iff dest: immutables_wf_member)

lemma map_of_None_fst: "map_of xs k = None \<longleftrightarrow> k \<notin> fst ` set xs"
  by (rule map_of_eq_None_iff)

lemma SegmentManager_SetWriting_ok:
  assumes "mgr_wf m" and "ws_wf ws" and "SegmentManager_SetWriting ws m = (e, m')"
  shows "if e = None then m' = m\<lparr>mgr_writing := Some ws\<rparr> \<and> mgr_wf m' \<and> mgr_writing m = None else m' = m"
  using assms
  by (auto simp: SegmentManager_SetWriting_def mgr_wf_def writing_wf_def list_reserved_overlap
      map_of_None_fst split: if_splits)

lemma SegmentManager_ClearWriting_wf: "mgr_wf m \<Longrightarrow> mgr_wf (snd (SegmentManager_ClearWriting m))"
  by (simp add: SegmentManager_ClearWriting_def mgr_wf_def)

lemma SegmentManager_RotateWriting_ok:
  assumes wf: "mgr_wf m" and i: "imm_wf s" and n: "ws_wf nxt"
    and r: "SegmentManager_RotateWriting c s nxt m = (e, m')"
  shows "if e = None
    then m' = m\<lparr>mgr_immutable := (c, s) # mgr_immutable m, mgr_writing := Some nxt\<rparr> \<and> mgr_wf m'
    else m' = m"
proof (cases e)
  case None
  have im: "immutables_wf (mgr_immutable m)" using wf by (simp add: mgr_wf_def)
  from r None have c: "ImmutableSegment_ID s = c" "ws_id nxt \<noteq> c" "c \<notin> fst ` set (mgr_immutable m)"
      "ws_id nxt \<notin> fst ` set (mgr_immutable m)"
    and chk: "checkRangeAgainstImmutableLocked (imm_metadata s) c m = None"
    and o1: "\<not> reserved_overlap (WriteSegment_ReservedRange nxt) (imm_metadata s)"
    and o2: "\<not> list_ex (\<lambda>(i, s). reserved_overlap (WriteSegment_ReservedRange nxt) (imm_metadata s)) (mgr_immutable m)"
    and m': "m' = m\<lparr>mgr_immutable := (c, s) # mgr_immutable m, mgr_writing := Some nxt\<rparr>"
    by (auto simp: SegmentManager_RotateWriting_def Let_def map_of_None_fst split: if_splits option.splits)
  have "immutables_wf ((c, s) # mgr_immutable m)"
    using checkRangeAgainstImmutable_None [OF im i c(3)] chk c im i by (intro immutables_wf_Cons) auto
  moreover have "writing_wf ((c, s) # mgr_immutable m) nxt"
    using c o1 o2 list_reserved_overlap [OF im n] reserved_overlap_iff [OF i n] n by (auto simp: writing_wf_def)
  ultimately show ?thesis using None m' wf by (simp add: mgr_wf_def)
next
  case (Some x)
  then show ?thesis using r
    by (auto simp: SegmentManager_RotateWriting_def Let_def split: if_splits option.splits)
qed

lemma SegmentManager_AddImmutable_ok:
  assumes wf: "mgr_wf m" and i: "imm_wf s" and a: "SegmentManager_AddImmutable s m = (e, m')"
  shows "if e = None
    then m' = m\<lparr>mgr_immutable := (ImmutableSegment_ID s, s) # mgr_immutable m\<rparr> \<and> mgr_wf m' else m' = m"
proof (cases e)
  case None
  let ?i = "ImmutableSegment_ID s"
  have im: "immutables_wf (mgr_immutable m)" using wf by (simp add: mgr_wf_def)
  from a None have new: "?i \<notin> fst ` set (mgr_immutable m)" "\<And>ws. mgr_writing m = Some ws \<Longrightarrow> ws_id ws \<noteq> ?i"
    and chk: "checkRangeLocked (imm_metadata s) ?i m = None"
    and m': "m' = m\<lparr>mgr_immutable := (?i, s) # mgr_immutable m\<rparr>"
    by (auto simp: SegmentManager_AddImmutable_def Let_def map_of_None_fst split: if_splits option.splits)
  have "checkRangeAgainstImmutableLocked (imm_metadata s) ?i m = None"
    using chk by (simp add: checkRangeLocked_def checkRangeAgainstImmutableLocked_def split: if_splits)
  then have "immutables_wf ((?i, s) # mgr_immutable m)"
    using checkRangeAgainstImmutable_None [OF im i new(1)] new im i by (intro immutables_wf_Cons) auto
  moreover have "writing_wf ((?i, s) # mgr_immutable m) ws" if ws: "mgr_writing m = Some ws" for ws
  proof -
    have w: "writing_wf (mgr_immutable m) ws" using wf ws by (simp add: mgr_wf_def)
    then have "ws_wf ws" by (simp add: writing_wf_def)
    moreover have "\<not> reserved_overlap (WriteSegment_ReservedRange ws) (imm_metadata s)"
      using chk ws new(2) [OF ws] imm_wf_bounds [OF i]
      by (auto simp: checkRangeLocked_def reserved_overlap_def split: if_splits)
    ultimately show ?thesis using w new(2) [OF ws] reserved_overlap_iff [OF i] by (simp add: writing_wf_def)
  qed
  ultimately show ?thesis using None m' wf by (cases "mgr_writing m") (simp_all add: mgr_wf_def)
next
  case (Some x)
  then show ?thesis using a by (auto simp: SegmentManager_AddImmutable_def Let_def split: if_splits option.splits)
qed

lemma SegmentManager_RemoveImmutable_ok:
  assumes wf: "mgr_wf m" and a: "SegmentManager_RemoveImmutable i m = (r, m')"
  shows "mgr_wf m' \<and> map_of (mgr_immutable m') i = None
    \<and> (\<forall>j. j \<noteq> i \<longrightarrow> map_of (mgr_immutable m') j = map_of (mgr_immutable m) j)
    \<and> (case r of Inl e \<Rightarrow> e = Sentinel ErrSegmentNotFound \<and> map_of (mgr_immutable m) i = None \<and> m' = m
       | Inr x \<Rightarrow> map_of (mgr_immutable m) i = Some x \<and> m' = m\<lparr>mgr_immutable := mgr_immutable m'\<rparr>)"
proof (cases "map_of (mgr_immutable m) i")
  case None
  then show ?thesis using wf a by (auto simp: SegmentManager_RemoveImmutable_def)
next
  case (Some s)
  have m': "m' = m\<lparr>mgr_immutable := AList.delete i (mgr_immutable m)\<rparr>"
    using a Some by (simp add: SegmentManager_RemoveImmutable_def)
  have "pred_option (writing_wf (AList.delete i (mgr_immutable m))) (mgr_writing m)"
    using wf writing_wf_subset [of "mgr_immutable m" _ "AList.delete i (mgr_immutable m)"]
    by (cases "mgr_writing m") (auto simp: mgr_wf_def AList.delete_eq)
  moreover have "r = Inr s" using a Some by (simp add: SegmentManager_RemoveImmutable_def)
  ultimately show ?thesis using wf m' Some immutables_wf_delete by (simp add: mgr_wf_def delete_conv)
qed

section \<open>The documents a manager holds\<close>

definition segment_docs :: "u64 \<Rightarrow> SegmentManager \<Rightarrow> StoredDocument list" where
  "segment_docs i m =
     (case mgr_writing m of
        Some ws \<Rightarrow> if ws_id ws = i then ws_docs ws
                   else (case map_of (mgr_immutable m) i of None \<Rightarrow> [] | Some s \<Rightarrow> imm_docs s)
      | None \<Rightarrow> (case map_of (mgr_immutable m) i of None \<Rightarrow> [] | Some s \<Rightarrow> imm_docs s))"

definition writing_docs :: "SegmentManager \<Rightarrow> StoredDocument list" where
  "writing_docs m = (case mgr_writing m of None \<Rightarrow> [] | Some ws \<Rightarrow> ws_docs ws)"

definition mgr_docs :: "SegmentManager \<Rightarrow> StoredDocument list" where
  "mgr_docs m = concat (map (imm_docs \<circ> snd) (mgr_immutable m)) @ writing_docs m"

lemma set_mgr_docs:
  "x \<in> set (mgr_docs m) \<longleftrightarrow>
     (\<exists>i s. (i, s) \<in> set (mgr_immutable m) \<and> x \<in> set (imm_docs s)) \<or> x \<in> set (writing_docs m)"
  by (force simp: mgr_docs_def)

lemma imm_docs_range: "imm_wf s \<Longrightarrow> x \<in> set (imm_docs s) \<Longrightarrow> doc_DocID x \<in> imm_range s"
  using ImmutableSegment_Document_iff [of s "doc_DocID x" x]
  by (auto simp: ImmutableSegment_Document_def imm_range_def split: if_splits)

lemma ws_docs_range: "ws_wf s \<Longrightarrow> x \<in> set (ws_docs s) \<Longrightarrow> doc_DocID x \<in> ws_range s
    \<and> unat (doc_DocID x) < unat (ws_minDocID s) + length (ws_docs s)"
proof -
  assume wf: "ws_wf s" and "x \<in> set (ws_docs s)"
  then obtain i where i: "i < length (ws_docs s)" "x = ws_docs s ! i" by (auto simp: in_set_conv_nth)
  have d: "doc_DocID x = ws_minDocID s + of_nat i"
    using wf i valid_run_DocID [of "ws_minDocID s" "ws_docs s" i] by (simp add: ws_wf_def)
  have b: "unat (ws_minDocID s) + i < 2 ^ 64" "unat (ws_minDocID s) + i < unat (ws_minDocID s) + unat (ws_maxDocs s)"
    using wf i by (auto simp: ws_wf_def)
  have "unat (of_nat i :: u64) = i" using b by (simp add: unat_of_nat)
  then have u: "unat (doc_DocID x) = unat (ws_minDocID s) + i" using b by (simp add: d unat_word_ariths(1))
  then show "doc_DocID x \<in> ws_range s \<and> unat (doc_DocID x) < unat (ws_minDocID s) + length (ws_docs s)"
    using i b ws_wf_reserved(2) [OF wf] by (simp add: ws_range_def word_le_nat_alt WriteSegment_ReservedRange_def)
qed

lemma immutables_wf_ConsD:
  "immutables_wf ((i, s) # xs) \<Longrightarrow> immutables_wf xs \<and> imm_wf s \<and> i \<notin> fst ` set xs
     \<and> (\<forall>j t. (j, t) \<in> set xs \<longrightarrow> imm_range s \<inter> imm_range t = {})"
  unfolding immutables_wf_def by (simp add: image_iff) (metis fst_conv)

lemma document_in_iff:
  "immutables_wf xs \<Longrightarrow> document_in d (map snd xs) = Some x \<longleftrightarrow>
     (\<exists>i s. (i, s) \<in> set xs \<and> x \<in> set (imm_docs s) \<and> doc_DocID x = d)"
proof (induction xs)
  case (Cons p xs)
  obtain i s where p: "p = (i, s)" by (cases p)
  note c = immutables_wf_ConsD [OF Cons.prems [unfolded p]]
  then have s: "imm_wf s" and xs: "immutables_wf xs" by auto
  show ?case
  proof (cases "d \<in> imm_range s")
    case True
    have "doc_DocID x \<noteq> d" if "(j, t) \<in> set xs" "x \<in> set (imm_docs t)" for j t
      using imm_docs_range [of t x] immutables_wf_member [OF xs that(1)] that True c by blast
    moreover have "document_in d (map snd (p # xs)) = ImmutableSegment_Document d s"
      using True by (simp add: p imm_range_def)
    ultimately show ?thesis using ImmutableSegment_Document_iff [OF s] p by auto
  next
    case False
    then have "document_in d (map snd (p # xs)) = document_in d (map snd xs)"
      by (auto simp: p imm_range_def)
    then show ?thesis using Cons.IH [OF xs] imm_docs_range [OF s, of x] False p by auto
  qed
qed simp

lemma SegmentManager_Document_iff:
  assumes wf: "mgr_wf m"
  shows "SegmentManager_Document d m = Some x \<longleftrightarrow>
    x \<in> set (mgr_docs m) \<and> doc_DocID x = d \<and> \<not> DeleteStore_IsDeleted d (mgr_deletes m)"
proof -
  have im: "immutables_wf (mgr_immutable m)" using wf by (simp add: mgr_wf_def)
  show ?thesis
  proof (cases "mgr_writing m")
    case None
    then show ?thesis using document_in_iff [OF im, of d x]
      by (auto simp: SegmentManager_Document_def set_mgr_docs writing_docs_def)
  next
    case (Some ws)
    then have w: "writing_wf (mgr_immutable m) ws" and ws: "ws_wf ws" using wf by (auto simp: mgr_wf_def writing_wf_def)
    show ?thesis
    proof (cases "WriteSegment_Document d ws")
      case None
      then have "doc_DocID x \<noteq> d" if "x \<in> set (ws_docs ws)"
        using WriteSegment_Document_iff [OF ws, of d x] that by auto
      then show ?thesis using document_in_iff [OF im, of d x] None Some
        by (auto simp: SegmentManager_Document_def set_mgr_docs writing_docs_def)
    next
      case (Some y)
      then have y: "y \<in> set (ws_docs ws)" "doc_DocID y = d" using WriteSegment_Document_iff [OF ws] by auto
      have "x = y" if xd: "x \<in> set (mgr_docs m)" "doc_DocID x = d"
      proof (cases "x \<in> set (ws_docs ws)")
        case True
        then show ?thesis using that Some WriteSegment_Document_iff [OF ws, of d x] by simp
      next
        case False
        then obtain i s where s: "(i, s) \<in> set (mgr_immutable m)" "x \<in> set (imm_docs s)"
          using xd \<open>mgr_writing m = Some ws\<close> by (auto simp: set_mgr_docs writing_docs_def)
        then show ?thesis using w imm_docs_range [of s x] immutables_wf_member [OF im s(1)] that
            ws_docs_range [OF ws y(1)] y by (auto simp: writing_wf_def)
      qed
      then show ?thesis using \<open>mgr_writing m = Some ws\<close> Some y
        by (auto simp: SegmentManager_Document_def set_mgr_docs writing_docs_def)
    qed
  qed
qed

lemma mgr_docs_inj:
  assumes "mgr_wf m" and "x \<in> set (mgr_docs m)" and "y \<in> set (mgr_docs m)" and "doc_DocID x = doc_DocID y"
  shows "x = y"
proof -
  let ?m = "m\<lparr>mgr_deletes := NewDeleteStore\<rparr>"
  have "mgr_wf ?m" using assms(1) by (simp add: mgr_wf_def del_wf_def NewDeleteStore_def)
  then have "SegmentManager_Document (doc_DocID x) ?m = Some x" "SegmentManager_Document (doc_DocID x) ?m = Some y"
    using assms(2-4) by (simp_all add: SegmentManager_Document_iff mgr_docs_def writing_docs_def
        DeleteStore_IsDeleted_def NewDeleteStore_def)
  then show ?thesis by simp
qed

section \<open>The index invariant\<close>

definition future :: "WriteSegment \<Rightarrow> u64 \<Rightarrow> bool" where
  "future ws d \<longleftrightarrow> unat (ws_minDocID ws) + length (ws_docs ws) \<le> unat d
     \<and> unat d < unat (ws_minDocID ws) + unat (ws_maxDocs ws)"

text \<open>Every key is mapped to a document of its segment that has that key and is not deleted;
  every document that is not deleted is the one its key is mapped to; no ID that the write
  segment is still to assign is deleted.\<close>

definition mgr_indexed :: "SegmentManager \<Rightarrow> bool" where
  "mgr_indexed m \<longleftrightarrow>
     (\<forall>k l. PrimaryKeyMap_Get k (mgr_primaryKey m) = Some l \<longrightarrow>
        (\<exists>x \<in> set (segment_docs (SegmentID l) m). doc_DocID x = DocID l \<and> doc_PrimaryKey x = k)
          \<and> \<not> DeleteStore_IsDeleted (DocID l) (mgr_deletes m))
     \<and> (\<forall>x \<in> set (mgr_docs m). \<not> DeleteStore_IsDeleted (doc_DocID x) (mgr_deletes m) \<longrightarrow>
        (\<exists>l. PrimaryKeyMap_Get (doc_PrimaryKey x) (mgr_primaryKey m) = Some l \<and> DocID l = doc_DocID x))
     \<and> (\<forall>ws d. mgr_writing m = Some ws \<longrightarrow> DeleteStore_IsDeleted d (mgr_deletes m) \<longrightarrow> \<not> future ws d)"

lemma segment_docs_subset: "set (segment_docs i m) \<subseteq> set (mgr_docs m)"
proof
  fix x assume "x \<in> set (segment_docs i m)"
  then have "x \<in> set (writing_docs m) \<or> (\<exists>s. map_of (mgr_immutable m) i = Some s \<and> x \<in> set (imm_docs s))"
    by (cases "map_of (mgr_immutable m) i"; cases "mgr_writing m")
      (auto simp: segment_docs_def writing_docs_def split: if_splits)
  then show "x \<in> set (mgr_docs m)" by (auto simp: set_mgr_docs dest: map_of_SomeD)
qed

lemma mgr_indexed_Get:
  assumes "mgr_indexed m" and "PrimaryKeyMap_Get k (mgr_primaryKey m) = Some l"
  obtains x where "x \<in> set (segment_docs (SegmentID l) m)" "doc_DocID x = DocID l" "doc_PrimaryKey x = k"
    "\<not> DeleteStore_IsDeleted (DocID l) (mgr_deletes m)"
  using assms unfolding mgr_indexed_def by blast

lemma DocumentByPrimaryKey_location:
  assumes wf: "mgr_wf m" and g: "PrimaryKeyMap_Get k (mgr_primaryKey m) = Some l"
    and x: "x \<in> set (segment_docs (SegmentID l) m)" "doc_DocID x = DocID l" "doc_PrimaryKey x = k"
    and nd: "\<not> DeleteStore_IsDeleted (DocID l) (mgr_deletes m)"
  shows "SegmentManager_DocumentByPrimaryKey k m = Some x"
proof -
  have imm: "ImmutableSegment_Document (DocID l) s = Some x"
    if "map_of (mgr_immutable m) (SegmentID l) = Some s" "x \<in> set (imm_docs s)" for s
    using that x ImmutableSegment_Document_iff [of s] immutables_wf_member [of "mgr_immutable m" _ s] wf
    by (auto simp: mgr_wf_def dest: map_of_SomeD)
  have ws: "WriteSegment_Document (DocID l) ws = Some x"
    if "mgr_writing m = Some ws" "x \<in> set (ws_docs ws)" for ws
    using that x WriteSegment_Document_iff [of ws] wf by (auto simp: mgr_wf_def writing_wf_def)
  show ?thesis
    using x(1,3) g nd imm ws
    by (cases "map_of (mgr_immutable m) (SegmentID l)"; cases "mgr_writing m")
      (auto simp: SegmentManager_DocumentByPrimaryKey_def segment_docs_def Let_def split: if_splits)
qed

lemma DocumentByPrimaryKey_iff:
  assumes wf: "mgr_wf m" and ix: "mgr_indexed m"
  shows "SegmentManager_DocumentByPrimaryKey k m = Some x \<longleftrightarrow>
    x \<in> set (mgr_docs m) \<and> doc_PrimaryKey x = k \<and> \<not> DeleteStore_IsDeleted (doc_DocID x) (mgr_deletes m)"
proof (cases "PrimaryKeyMap_Get k (mgr_primaryKey m)")
  case None
  then show ?thesis using ix by (auto simp: SegmentManager_DocumentByPrimaryKey_def mgr_indexed_def)
next
  case (Some l)
  then obtain y where y: "y \<in> set (segment_docs (SegmentID l) m)" "doc_DocID y = DocID l" "doc_PrimaryKey y = k"
    and nd: "\<not> DeleteStore_IsDeleted (DocID l) (mgr_deletes m)" by (rule mgr_indexed_Get [OF ix])
  have eq: "SegmentManager_DocumentByPrimaryKey k m = Some y"
    by (rule DocumentByPrimaryKey_location [OF wf Some y nd])
  have "x = y" if "x \<in> set (mgr_docs m)" "doc_PrimaryKey x = k" "\<not> DeleteStore_IsDeleted (doc_DocID x) (mgr_deletes m)"
    using that Some ix y mgr_docs_inj [OF wf, of x y] segment_docs_subset by (fastforce simp: mgr_indexed_def)
  then show ?thesis using eq y nd segment_docs_subset by auto
qed

lemma DocumentByPrimaryKey_None:
  assumes "mgr_wf m" and "mgr_indexed m"
  shows "SegmentManager_DocumentByPrimaryKey k m = None \<longleftrightarrow> PrimaryKeyMap_Get k (mgr_primaryKey m) = None"
proof
  assume n: "SegmentManager_DocumentByPrimaryKey k m = None"
  show "PrimaryKeyMap_Get k (mgr_primaryKey m) = None"
  proof (rule ccontr)
    assume "PrimaryKeyMap_Get k (mgr_primaryKey m) \<noteq> None"
    then obtain l where l: "PrimaryKeyMap_Get k (mgr_primaryKey m) = Some l" by blast
    show False
      by (rule mgr_indexed_Get [OF assms(2) l]) (use DocumentByPrimaryKey_location [OF assms(1) l] n in simp)
  qed
qed (simp add: SegmentManager_DocumentByPrimaryKey_def)

section \<open>Live documents and fetches\<close>

lemma compare_segments_key:
  "compare_segments s t < 0 \<longleftrightarrow> segment_key s < segment_key t"
  "compare_segments s t = 0 \<longleftrightarrow> segment_key s = segment_key t"
  by (auto simp: compare_segments_def segment_key_def cmpUint64_def Let_def less_prod_simp)

lemma appendLive_calm:
  "polls w = None \<Longrightarrow> appendLive m docs acc w = (Inr (acc @ filter (live_document m) docs), w)"
  by (induction docs arbitrary: acc) auto

lemma live_segments_calm:
  "polls w = None \<Longrightarrow> live_segments m segs acc w
     = (Inr (acc @ filter (live_document m) (concat (map imm_docs segs))), w)"
  by (induction segs arbitrary: acc) (auto simp: appendLive_calm)

lemma LiveDocuments_calm:
  "polls w = None \<Longrightarrow> SegmentManager_LiveDocuments m w
     = (Inr (filter (live_document m)
          (concat (map imm_docs (SegmentManager_ImmutableSegments m)) @ writing_docs m)), w)"
  by (auto simp: SegmentManager_LiveDocuments_def live_segments_calm appendLive_calm writing_docs_def
      WriteSegment_Documents_def split: option.splits)

lemma live_document_iff:
  "mgr_indexed m \<Longrightarrow> x \<in> set (mgr_docs m) \<Longrightarrow>
     live_document m x \<longleftrightarrow> \<not> DeleteStore_IsDeleted (doc_DocID x) (mgr_deletes m)"
  by (fastforce simp: live_document_def mgr_indexed_def)

lemma sorted_wrt_concat:
  "sorted_wrt (\<lambda>s t. \<forall>x \<in> set (f s). \<forall>y \<in> set (f t). P x y) xs \<Longrightarrow>
     (\<And>s. s \<in> set xs \<Longrightarrow> sorted_wrt P (f s)) \<Longrightarrow> sorted_wrt P (concat (map f xs))"
  by (induction xs) (auto simp: sorted_wrt_append)

lemma valid_run_ascending:
  assumes "valid_run d xs" and "unat d + length xs \<le> 2 ^ 64"
  shows "sorted_wrt (\<lambda>x y. doc_DocID x < doc_DocID y) xs"
proof -
  have u: "unat (doc_DocID (xs ! i)) = unat d + i" if "i < length xs" for i
  proof -
    have b: "unat d + i < 2 ^ 64" using that assms(2) by linarith
    then have "unat (of_nat i :: u64) = i" by (simp add: unat_of_nat)
    then show ?thesis using b valid_run_DocID [OF assms(1) that] by (simp add: unat_word_ariths(1))
  qed
  show ?thesis unfolding sorted_wrt_iff_nth_less word_less_nat_alt by (auto simp: u)
qed

lemma ImmutableSegments_set: "set (SegmentManager_ImmutableSegments m) = snd ` set (mgr_immutable m)"
  by (simp add: SegmentManager_ImmutableSegments_def)

lemma immutables_wf_distinct: "immutables_wf xs \<Longrightarrow> distinct (map snd xs)"
proof (induction xs)
  case (Cons p xs)
  obtain i s where p: "p = (i, s)" by (cases p)
  have i: "i \<notin> fst ` set xs" and xs: "immutables_wf xs" using immutables_wf_ConsD [OF Cons.prems [unfolded p]] by auto
  have "s \<notin> snd ` set xs"
  proof
    assume "s \<in> snd ` set xs"
    then obtain j where j: "(j, s) \<in> set xs" by auto
    have "j = i" using immutables_wf_member [OF Cons.prems, of j s] immutables_wf_member [OF Cons.prems, of i s] j p by simp
    then show False using j i by force
  qed
  then show ?case using Cons.IH [OF xs] p by simp
qed simp

lemma ImmutableSegments_ascending:
  assumes wf: "immutables_wf (mgr_immutable m)"
  shows "sorted_wrt (\<lambda>s t. MaxDocID (imm_metadata s) < MinDocID (imm_metadata t)) (SegmentManager_ImmutableSegments m)"
  (is "sorted_wrt ?P ?xs")
  unfolding sorted_wrt_iff_nth_less
proof (intro allI impI)
  fix i j assume ij: "i < j" "j < length ?xs"
  let ?s = "?xs ! i" and ?t = "?xs ! j"
  have "?s \<in> set ?xs" "?t \<in> set ?xs" using ij by (intro nth_mem; simp)+
  then obtain a b where a: "(a, ?s) \<in> set (mgr_immutable m)" and b: "(b, ?t) \<in> set (mgr_immutable m)"
    unfolding ImmutableSegments_set by force
  have "distinct ?xs"
    using immutables_wf_distinct [OF wf] by (simp add: SegmentManager_ImmutableSegments_def)
  then have "?s \<noteq> ?t" using ij by (simp add: nth_eq_iff_index_eq)
  have ne: "a \<noteq> b"
  proof
    assume "a = b"
    then have "?s = ?t" using a b wf eq_key_imp_eq_value [of "mgr_immutable m" a] by (auto simp: immutables_wf_def)
    then show False using \<open>?s \<noteq> ?t\<close> by simp
  qed
  have "sorted (map segment_key ?xs)" by (simp add: SegmentManager_ImmutableSegments_def)
  then have "segment_key ?s \<le> segment_key ?t" using ij sorted_nth_mono [of "map segment_key ?xs" i j] by simp
  then have "MinDocID (imm_metadata ?s) \<le> MinDocID (imm_metadata ?t)"
    by (auto simp: segment_key_def less_eq_prod_simp)
  moreover have "imm_range ?s \<inter> imm_range ?t = {}" using wf a b ne unfolding immutables_wf_def by blast
  moreover have "imm_wf ?s" "imm_wf ?t" using immutables_wf_member [OF wf] a b by blast+
  ultimately show "?P ?s ?t" using imm_wf_bounds [of ?s] imm_wf_bounds [of ?t]
    by (auto simp: imm_range_def intervals_meet)
qed

definition mgr_ordered :: "SegmentManager \<Rightarrow> bool" where
  "mgr_ordered m \<longleftrightarrow> (\<forall>ws i s. mgr_writing m = Some ws \<longrightarrow> (i, s) \<in> set (mgr_immutable m) \<longrightarrow>
     MaxDocID (imm_metadata s) < ws_minDocID ws)"

text \<open>Only documents that exist are marked deleted.\<close>

definition mgr_known :: "SegmentManager \<Rightarrow> bool" where
  "mgr_known m \<longleftrightarrow> (\<forall>d. DeleteStore_IsDeleted d (mgr_deletes m) \<longrightarrow> d \<in> doc_DocID ` set (mgr_docs m))"

lemma all_docs_ascending:
  assumes wf: "mgr_wf m" and o: "mgr_ordered m"
  shows "sorted_wrt (\<lambda>x y. doc_DocID x < doc_DocID y)
    (concat (map imm_docs (SegmentManager_ImmutableSegments m)) @ writing_docs m)"
proof -
  let ?segs = "SegmentManager_ImmutableSegments m"
  have im: "immutables_wf (mgr_immutable m)" using wf by (simp add: mgr_wf_def)
  have seg: "imm_wf s \<and> (\<exists>i. (i, s) \<in> set (mgr_immutable m))" if "s \<in> set ?segs" for s
    using that immutables_wf_member [OF im] unfolding ImmutableSegments_set by force
  have rng: "MinDocID (imm_metadata s) \<le> doc_DocID x \<and> doc_DocID x \<le> MaxDocID (imm_metadata s)"
    if "s \<in> set ?segs" "x \<in> set (imm_docs s)" for s x
    using imm_docs_range [of s x] seg [OF that(1)] that by (auto simp: imm_range_def)
  have "sorted_wrt (\<lambda>s t. \<forall>x \<in> set (imm_docs s). \<forall>y \<in> set (imm_docs t). doc_DocID x < doc_DocID y) ?segs"
    by (rule sorted_wrt_mono_rel [OF _ ImmutableSegments_ascending [OF im]]) (meson rng le_less_trans less_le_trans)
  moreover have "sorted_wrt (\<lambda>x y. doc_DocID x < doc_DocID y) (imm_docs s)" if "s \<in> set ?segs" for s
    using seg [OF that] valid_run_ascending [of "MinDocID (imm_metadata s)" "imm_docs s"] by (simp add: imm_wf_def)
  ultimately have "sorted_wrt (\<lambda>x y. doc_DocID x < doc_DocID y) (concat (map imm_docs ?segs))"
    by (rule sorted_wrt_concat)
  moreover have "sorted_wrt (\<lambda>x y. doc_DocID x < doc_DocID y) (writing_docs m)"
    using wf valid_run_ascending
    by (cases "mgr_writing m") (auto simp: writing_docs_def mgr_wf_def writing_wf_def ws_wf_def)
  moreover have "doc_DocID x < doc_DocID y"
    if x: "s \<in> set ?segs" "x \<in> set (imm_docs s)" and y: "y \<in> set (writing_docs m)" for s x y
  proof -
    obtain ws where ws: "mgr_writing m = Some ws" "y \<in> set (ws_docs ws)"
      using y by (cases "mgr_writing m") (auto simp: writing_docs_def)
    then have "ws_minDocID ws \<le> doc_DocID y"
      using wf ws_docs_range [of ws y] by (auto simp: mgr_wf_def writing_wf_def ws_range_def WriteSegment_ReservedRange_def)
    moreover have "MaxDocID (imm_metadata s) < ws_minDocID ws"
      using seg [OF x(1)] o ws unfolding mgr_ordered_def by blast
    ultimately show ?thesis using rng [OF x] by (meson le_less_trans less_le_trans)
  qed
  ultimately show ?thesis unfolding sorted_wrt_append by auto
qed

lemma LiveDocuments_exact:
  assumes wf: "mgr_wf m" and ix: "mgr_indexed m" and o: "mgr_ordered m" and w: "polls w = None"
  shows "\<exists>xs. SegmentManager_LiveDocuments m w = (Inr xs, w)
    \<and> sorted_wrt (\<lambda>x y. doc_DocID x < doc_DocID y) xs
    \<and> (\<forall>k x. SegmentManager_DocumentByPrimaryKey k m = Some x \<longleftrightarrow> x \<in> set xs \<and> doc_PrimaryKey x = k)"
proof -
  let ?ds = "concat (map imm_docs (SegmentManager_ImmutableSegments m)) @ writing_docs m"
  let ?xs = "filter (live_document m) ?ds"
  have ds: "x \<in> set ?ds \<longleftrightarrow> x \<in> set (mgr_docs m)" for x
    by (force simp: set_mgr_docs ImmutableSegments_set)
  have "SegmentManager_DocumentByPrimaryKey k m = Some x \<longleftrightarrow> x \<in> set ?xs \<and> doc_PrimaryKey x = k" for k x
    using DocumentByPrimaryKey_iff [OF wf ix, of k x] live_document_iff [OF ix, of x] ds [of x] by auto
  moreover have "sorted_wrt (\<lambda>x y. doc_DocID x < doc_DocID y) ?xs"
    by (rule sorted_wrt_filter [OF all_docs_ascending [OF wf o]])
  ultimately show ?thesis using LiveDocuments_calm [OF w, of m] by blast
qed

text \<open>\<open>Fetch\<close> keeps the order of the request whatever the context does: a first part is resolved,
  the rest carries the cancellation.\<close>

lemma Fetch_exact:
  "SegmentManager_Fetch keys m w =
    (let n = (case polls w of None \<Rightarrow> length keys | Some k \<Rightarrow> min k (length keys)) in
     (map (\<lambda>k. \<lparr>fr_PrimaryKey = k, fr_Document = SegmentManager_DocumentByPrimaryKey k m, fr_Err = None\<rparr>) (take n keys)
      @ map (\<lambda>k. \<lparr>fr_PrimaryKey = k, fr_Document = None, fr_Err = Some (Sentinel ContextCanceled)\<rparr>) (drop n keys),
      if n < length keys then Some (Sentinel ContextCanceled) else None,
      w\<lparr>polls := map_option (\<lambda>k. k - n) (polls w)\<rparr>))"
proof (induction keys arbitrary: w)
  case Nil
  then show ?case by (cases "polls w") (auto simp: Let_def)
next
  case (Cons key keys)
  show ?case
  proof (cases "polls w")
    case None
    then show ?thesis by (simp add: ctx_Err_def Cons Let_def)
  next
    case (Some k)
    then show ?thesis by (cases k) (simp_all add: ctx_Err_def Cons Let_def)
  qed
qed

lemma Fetch_calm:
  "polls w = None \<Longrightarrow> SegmentManager_Fetch keys m w =
     (map (\<lambda>k. \<lparr>fr_PrimaryKey = k, fr_Document = SegmentManager_DocumentByPrimaryKey k m, fr_Err = None\<rparr>) keys, None, w)"
  by (induction keys) auto

section \<open>Saturating arithmetic\<close>

lemma saturatingAdd_min: "unat (saturatingAdd a b) = min (unat a + unat b) (2 ^ 64 - 1)"
proof -
  have m: "unat (MaxUint64 - a) = 2 ^ 64 - 1 - unat a"
    using unat_u64_lt [of a] by (simp add: unat_sub unat_MaxUint64)
  show ?thesis
  proof (cases "MaxUint64 - a < b")
    case True
    then have "2 ^ 64 - 1 - unat a < unat b" using m by (simp add: word_less_nat_alt)
    then show ?thesis using True by (simp add: saturatingAdd_def unat_MaxUint64)
  next
    case False
    then have le: "unat b \<le> 2 ^ 64 - 1 - unat a" using m by (simp add: word_less_nat_alt)
    then have "unat a + unat b \<le> 2 ^ 64 - 1" using unat_u64_lt [of a] by simp
    then show ?thesis using False by (simp add: saturatingAdd_def unat_word_ariths(1))
  qed
qed

lemma saturatingMultiplyByEight_min: "unat (saturatingMultiplyByEight a) = min (unat a * 8) (2 ^ 64 - 1)"
proof -
  have m: "unat (MaxUint64 div 8 :: u64) = (2 ^ 64 - 1) div 8" by (simp add: unat_div unat_MaxUint64)
  show ?thesis
  proof (cases "MaxUint64 div 8 < a")
    case True
    then have "(2 ^ 64 - 1) div 8 < unat a" using m by (simp add: word_less_nat_alt)
    then show ?thesis using True by (simp add: saturatingMultiplyByEight_def unat_MaxUint64)
  next
    case False
    then have "unat a \<le> (2 ^ 64 - 1) div 8" using m by (simp add: word_less_nat_alt)
    then have "unat a * 8 \<le> 2 ^ 64 - 1" by simp
    then show ?thesis using False by (simp add: saturatingMultiplyByEight_def unat_word_ariths(2))
  qed
qed

definition doc_memory :: "StoredDocument \<Rightarrow> nat" where
  "doc_memory d = segmentRecordHeaderSize + length (doc_PrimaryKey d) + length (doc_Payload d)"

lemma storedDocumentsMemoryBytes_loop_min:
  "list_all (\<lambda>d. doc_memory d < 2 ^ 64) docs \<Longrightarrow>
   unat (storedDocumentsMemoryBytes_loop acc docs) = min (unat acc + sum_list (map doc_memory docs)) (2 ^ 64 - 1)"
proof (induction docs arbitrary: acc)
  case Nil
  then show ?case using unat_u64_lt [of acc] by simp
next
  case (Cons d docs)
  let ?sz = "word_of_nat (doc_memory d) :: u64"
  have u: "unat ?sz = doc_memory d" using Cons.prems by (simp add: unat_of_nat)
  show ?case
  proof (cases "MaxUint64 - acc < ?sz")
    case True
    then have "saturatingAdd acc ?sz = MaxUint64" by (simp add: saturatingAdd_def)
    then have "2 ^ 64 - 1 \<le> unat acc + doc_memory d"
      using saturatingAdd_min [of acc ?sz] u unat_MaxUint64 by (metis min.cobounded1)
    then show ?thesis using True by (simp add: doc_memory_def Let_def unat_MaxUint64)
  next
    case False
    then have e: "saturatingAdd acc ?sz = acc + ?sz" by (simp add: saturatingAdd_def)
    have "unat acc + doc_memory d \<le> 2 ^ 64 - 1"
    proof -
      have "doc_memory d \<le> 2 ^ 64 - 1 - unat acc"
        using False u unat_sub [of acc MaxUint64] by (simp add: word_less_nat_alt unat_MaxUint64)
      then show ?thesis using unat_u64_lt [of acc] by simp
    qed
    then have "unat (acc + ?sz) = unat acc + doc_memory d" using saturatingAdd_min [of acc ?sz] u e by simp
    moreover have "storedDocumentsMemoryBytes_loop acc (d # docs) = storedDocumentsMemoryBytes_loop (acc + ?sz) docs"
      using False by (simp add: doc_memory_def Let_def)
    ultimately show ?thesis using Cons by (simp add: add.assoc)
  qed
qed

lemma fold_saturating:
  assumes "\<And>x. x \<in> set xs \<Longrightarrow> unat (f x) = min (g x) (2 ^ 64 - 1)"
    and "unat u = min n (2 ^ 64 - 1)"
  shows "unat (foldl (\<lambda>u x. saturatingAdd u (f x)) u xs) = min (n + sum_list (map g xs)) (2 ^ 64 - 1)"
  using assms
proof (induction xs arbitrary: u n)
  case (Cons x xs)
  have "unat (saturatingAdd u (f x)) = min (n + g x) (2 ^ 64 - 1)"
    using Cons.prems by (simp add: saturatingAdd_min)
  then show ?case using Cons.IH [of "saturatingAdd u (f x)" "n + g x"] Cons.prems(1) by (simp add: add.assoc)
qed simp

lemma StorageStats_memory:
  assumes docs: "list_all (\<lambda>d. doc_memory d < 2 ^ 64) (mgr_docs m)" and del: "length (deleted (mgr_deletes m)) < 2 ^ 64"
  shows "unat (MemoryUsageBytes (SegmentManager_StorageStats m)) =
    min (8 * length (deleted (mgr_deletes m)) + sum_list (map doc_memory (mgr_docs m))) (2 ^ 64 - 1)"
proof -
  let ?f = "\<lambda>s. storedDocumentsMemoryBytes (imm_docs s)" and ?g = "\<lambda>s. sum_list (map doc_memory (imm_docs s))"
  let ?d = "8 * length (deleted (mgr_deletes m))" and ?segs = "map snd (mgr_immutable m)"
  let ?u = "foldl (\<lambda>u s. saturatingAdd u (?f s)) (saturatingMultiplyByEight (DeleteStore_Count (mgr_deletes m))) ?segs"
  have f: "unat (storedDocumentsMemoryBytes xs) = min (sum_list (map doc_memory xs)) (2 ^ 64 - 1)"
    if "set xs \<subseteq> set (mgr_docs m)" for xs
    using that docs storedDocumentsMemoryBytes_loop_min [of xs 0]
    by (auto simp: storedDocumentsMemoryBytes_def list_all_iff)
  have "unat (?f s) = min (?g s) (2 ^ 64 - 1)" if "s \<in> set ?segs" for s
    using that by (intro f) (auto simp: mgr_docs_def)
  moreover have "unat (saturatingMultiplyByEight (DeleteStore_Count (mgr_deletes m))) = min ?d (2 ^ 64 - 1)"
    using del by (simp add: saturatingMultiplyByEight_min DeleteStore_Count_def unat_len64 mult.commute)
  ultimately have u: "unat ?u = min (?d + sum_list (map ?g ?segs)) (2 ^ 64 - 1)" by (rule fold_saturating)
  have c: "sum_list (map doc_memory (concat (map (imm_docs \<circ> snd) xs))) = sum_list (map ?g (map snd xs))"
    for xs :: "(u64 \<times> ImmutableSegment) list" by (induction xs) auto
  show ?thesis
  proof (cases "mgr_writing m")
    case None
    then show ?thesis using u c [of "mgr_immutable m"]
      by (simp add: SegmentManager_StorageStats_def Let_def mgr_docs_def writing_docs_def comp_def)
  next
    case (Some ws)
    have "unat (storedDocumentsMemoryBytes (ws_docs ws)) = min (sum_list (map doc_memory (ws_docs ws))) (2 ^ 64 - 1)"
      using Some by (intro f) (auto simp: mgr_docs_def writing_docs_def)
    then show ?thesis using u c [of "mgr_immutable m"] Some
      by (simp add: SegmentManager_StorageStats_def Let_def mgr_docs_def writing_docs_def comp_def saturatingAdd_min)
  qed
qed

end
