(* ===== verification/Wal.thy ===== *)
theory Wal
  imports Go_Runtime
begin

text \<open>
  The write-ahead log of \<open>internal/db/wal.go\<close>: the file header and record codec, the scan
  that establishes the valid prefix of a log, the open and create operations, append, sync,
  close, and the reader that replays the records.  A log file is a header followed by
  records with consecutive sequence numbers; the abstract view of a log is the list of its
  payloads, and \<open>wal_image\<close> is the file of such a list.
\<close>

section \<open>Data\<close>

definition walFormatVersion :: u16 where "walFormatVersion = 1"
definition walFileHeaderSize :: nat where "walFileHeaderSize = 32"
definition walRecordHeaderSize :: nat where "walRecordHeaderSize = 32"
definition MaxWALRecordSize :: nat where "MaxWALRecordSize = 4 * 2 ^ 20"

definition walMagic :: bytes where
  "walMagic = [0x5A, 0x56, 0x45, 0x43, 0x57, 0x41, 0x4C, 0]"

definition walRecordMagic :: bytes where
  "walRecordMagic = [0x5A, 0x52, 0x45, 0x43]"

record WALOptions =
  SyncEvery :: u64

record WALRecovery =
  Records :: u64
  LastLSN :: u64
  ValidBytes :: nat
  TruncatedBytes :: nat

record WALRecord =
  rec_LSN :: u64
  rec_Payload :: bytes

record WAL =
  wal_path :: string
  wal_options :: WALOptions
  wal_recovery :: WALRecovery
  wal_size :: nat
  wal_lastLSN :: u64
  wal_dirtyRecords :: u64
  wal_poisoned :: "go_error option"
  wal_readOnly :: bool
  wal_closed :: bool

record WALReader =
  reader_path :: string
  reader_offset :: nat
  reader_limit :: nat
  reader_nextLSN :: u64
  reader_closed :: bool

record walRecordMetadata =
  md_lsn :: u64
  md_payloadLength :: u32
  md_payloadCRC :: u32

section \<open>The codec\<close>

definition encodeWALFileHeader :: bytes where
  "encodeWALFileHeader =
     (let h = walMagic @ PutUint16 walFormatVersion
                @ PutUint16 (word_of_nat walFileHeaderSize)
                @ PutUint32 (word_of_nat MaxWALRecordSize) @ replicate 8 0
      in h @ PutUint32 (CRC32C h) @ replicate 4 0)"

definition validateWALFileHeader :: "bytes \<Rightarrow> go_error option" where
  "validateWALFileHeader header =
     (if length header \<noteq> walFileHeaderSize
        then Some (corrupt ErrWALCorrupt ''invalid file header length'')
      else if bslice 0 8 header \<noteq> walMagic
        then Some (corrupt ErrWALCorrupt ''invalid file magic'')
      else if Uint16 (bslice 8 10 header) \<noteq> walFormatVersion
        then Some (corrupt ErrUnsupportedFormatVersion ''unsupported WAL version'')
      else if Uint16 (bslice 10 12 header) \<noteq> word_of_nat walFileHeaderSize
        then Some (corrupt ErrWALCorrupt ''invalid file header size'')
      else if Uint32 (bslice 12 16 header) \<noteq> word_of_nat MaxWALRecordSize
        then Some (corrupt ErrWALCorrupt ''invalid maximum record size'')
      else if Uint64 (bslice 16 24 header) \<noteq> 0 \<or> Uint32 (bslice 28 32 header) \<noteq> 0
        then Some (corrupt ErrWALCorrupt ''nonzero file header reserved bytes'')
      else if CRC32C (bslice 0 24 header) \<noteq> Uint32 (bslice 24 28 header)
        then Some (corrupt ErrWALCorrupt ''file header checksum'')
      else None)"

text \<open>The first 32 bytes of a record: 24 bytes of fields, their checksum, four reserved
  bytes.\<close>

definition wal_record_fields :: "u64 \<Rightarrow> u32 \<Rightarrow> u32 \<Rightarrow> bytes" where
  "wal_record_fields lsn len crc =
     walRecordMagic @ PutUint16 walFormatVersion @ PutUint16 (word_of_nat walRecordHeaderSize)
       @ PutUint64 lsn @ PutUint32 len @ PutUint32 crc"

definition wal_record_header :: "u64 \<Rightarrow> u32 \<Rightarrow> u32 \<Rightarrow> bytes" where
  "wal_record_header lsn len crc =
     wal_record_fields lsn len crc @ PutUint32 (CRC32C (wal_record_fields lsn len crc))
       @ replicate 4 0"

definition encodeWALRecord :: "u64 \<Rightarrow> bytes \<Rightarrow> bytes" where
  "encodeWALRecord lsn payload =
     wal_record_header lsn (len32 payload) (CRC32C payload) @ payload"

definition decodeWALRecordHeader :: "bytes \<Rightarrow> u64 \<Rightarrow> walRecordMetadata result" where
  "decodeWALRecordHeader header expectedLSN =
     (if length header \<noteq> walRecordHeaderSize then Inl (NewError ''invalid record header length'')
      else if bslice 0 4 header \<noteq> walRecordMagic then Inl (NewError ''invalid record magic'')
      else if Uint16 (bslice 4 6 header) \<noteq> walFormatVersion
        then Inl (NewError ''unsupported record version'')
      else if Uint16 (bslice 6 8 header) \<noteq> word_of_nat walRecordHeaderSize
        then Inl (NewError ''invalid record header size'')
      else let lsn = Uint64 (bslice 8 16 header); payloadLength = Uint32 (bslice 16 20 header) in
      if lsn \<noteq> expectedLSN then Inl (NewError ''LSN'')
      else if payloadLength = 0 \<or> word_of_nat MaxWALRecordSize < payloadLength
        then Inl (NewError ''invalid payload length'')
      else if Uint32 (bslice 28 32 header) \<noteq> 0
        then Inl (NewError ''nonzero record header reserved bytes'')
      else if CRC32C (bslice 0 24 header) \<noteq> Uint32 (bslice 24 28 header)
        then Inl (NewError ''header checksum'')
      else Inr \<lparr>md_lsn = lsn, md_payloadLength = payloadLength,
                md_payloadCRC = Uint32 (bslice 20 24 header)\<rparr>)"

section \<open>Scanning a log\<close>

function scanWAL_loop ::
  "bytes \<Rightarrow> nat \<Rightarrow> nat \<Rightarrow> u64 \<Rightarrow> WALRecovery \<Rightarrow> world \<Rightarrow> WALRecovery result \<times> world" where
  "scanWAL_loop c sz offset expectedLSN recovery w =
     (if offset < sz then
        (case ctx_Err w of
           (Some e, w') \<Rightarrow> (Inl e, w')
         | (None, w') \<Rightarrow>
             let remaining = sz - offset in
             if remaining < walRecordHeaderSize
             then (Inr (recovery\<lparr>TruncatedBytes := remaining\<rparr>), w')
             else (case ReadFullAt c offset walRecordHeaderSize of
               Inl e \<Rightarrow> (Inl (corrupt ErrWALCorrupt ''read record header''), w')
             | Inr recordHeader \<Rightarrow> (case decodeWALRecordHeader recordHeader expectedLSN of
                 Inl e \<Rightarrow> (Inl (corrupt ErrWALCorrupt ''record''), w')
               | Inr metadata \<Rightarrow>
                   let payloadLength = unat (md_payloadLength metadata);
                       recordSize = walRecordHeaderSize + payloadLength in
                   if remaining < recordSize
                   then (Inr (recovery\<lparr>TruncatedBytes := remaining\<rparr>), w')
                   else (case ReadFullAt c (offset + walRecordHeaderSize) payloadLength of
                     Inl e \<Rightarrow> (Inl (corrupt ErrWALCorrupt ''read record payload''), w')
                   | Inr payload \<Rightarrow>
                       if CRC32C payload \<noteq> md_payloadCRC metadata
                       then (Inl (corrupt ErrWALCorrupt ''payload checksum''), w')
                       else scanWAL_loop c sz (offset + recordSize) (expectedLSN + 1)
                              (recovery\<lparr>Records := Records recovery + 1, LastLSN := expectedLSN,
                                 ValidBytes := offset + recordSize\<rparr>) w'))))
      else (Inr recovery, w))"
  by pat_completeness auto
termination
  by (relation "measure (\<lambda>(c, sz, offset, _). sz - offset)")
    (auto simp: walRecordHeaderSize_def)

declare scanWAL_loop.simps [simp del]

definition scanWAL :: "bytes \<Rightarrow> nat \<Rightarrow> world \<Rightarrow> WALRecovery result \<times> world" where
  "scanWAL c sz w =
     (if sz < walFileHeaderSize
      then (Inl (corrupt ErrWALCorrupt ''file is shorter than its header''), w)
      else (case ReadFullAt c 0 walFileHeaderSize of
        Inl e \<Rightarrow> (Inl (corrupt ErrWALCorrupt ''read file header''), w)
      | Inr header \<Rightarrow> (case validateWALFileHeader header of
          Some e \<Rightarrow> (Inl e, w)
        | None \<Rightarrow> scanWAL_loop c sz walFileHeaderSize 1
            \<lparr>Records = 0, LastLSN = 0, ValidBytes = walFileHeaderSize, TruncatedBytes = 0\<rparr> w)))"

definition readWALRecordAt ::
  "bytes \<Rightarrow> nat \<Rightarrow> nat \<Rightarrow> u64 \<Rightarrow> (WALRecord \<times> nat) result" where
  "readWALRecordAt c offset limit expectedLSN =
     (let remaining = limit - offset in
      if remaining < walRecordHeaderSize then Inl (corrupt ErrWALCorrupt ''partial record header'')
      else (case ReadFullAt c offset walRecordHeaderSize of
        Inl e \<Rightarrow> Inl (corrupt ErrWALCorrupt ''read record header'')
      | Inr header \<Rightarrow> (case decodeWALRecordHeader header expectedLSN of
          Inl e \<Rightarrow> Inl (corrupt ErrWALCorrupt ''record'')
        | Inr metadata \<Rightarrow>
            let payloadLength = unat (md_payloadLength metadata);
                recordSize = walRecordHeaderSize + payloadLength in
            if remaining < recordSize then Inl (corrupt ErrWALCorrupt ''partial record payload'')
            else (case ReadFullAt c (offset + walRecordHeaderSize) payloadLength of
              Inl e \<Rightarrow> Inl (corrupt ErrWALCorrupt ''read record payload'')
            | Inr payload \<Rightarrow>
                if CRC32C payload \<noteq> md_payloadCRC metadata
                then Inl (corrupt ErrWALCorrupt ''payload checksum'')
                else Inr (\<lparr>rec_LSN = md_lsn metadata, rec_Payload = payload\<rparr>, recordSize)))))"

section \<open>Creating and opening\<close>

text \<open>The argument \<open>lock\<close> is the answer of the advisory lock (\<open>gofrs/flock\<close>): an error, or
  whether the lock was obtained.\<close>

definition CreateWAL ::
  "string \<Rightarrow> WALOptions \<Rightarrow> bool result \<Rightarrow> world \<Rightarrow> WAL result \<times> world" where
  "CreateWAL name options lock w =
     (if name = [] then (Inl (NewError ''db: empty WAL path''), w)
      else case ctx_Err w of (Some e, w) \<Rightarrow> (Inl e, w) | (None, w) \<Rightarrow>
      case os_Stat name w of
        (None, w) \<Rightarrow> (Inl (Sentinel ErrWALExists), w)
      | (Some e, w) \<Rightarrow>
      if \<not> errors_Is e OsErrNotExist then (Inl (Wrap ''db: stat WAL before create'' e), w)
      else case lock of
        Inl e \<Rightarrow> (Inl (Wrap ''db: lock WAL creation'' e), w)
      | Inr locked \<Rightarrow>
      if \<not> locked then (Inl (NewError ''db: WAL creation lock unavailable''), w)
      else case os_CreateExcl name w of
        (Some e, w) \<Rightarrow>
          (if errors_Is e OsErrExist then (Inl (Sentinel ErrWALExists), w)
           else (Inl (Wrap ''db: create WAL'' e), w))
      | (None, w) \<Rightarrow>
      case file_WriteFullAt name encodeWALFileHeader 0 w of
        (Some e, w) \<Rightarrow> (Inl (Wrap ''db: write WAL header'' e), snd (os_Remove name w))
      | (None, w) \<Rightarrow>
      case file_Sync name w of
        (Some e, w) \<Rightarrow> (Inl (Wrap ''db: sync WAL header'' e), snd (os_Remove name w))
      | (None, w) \<Rightarrow>
      case syncDirectory w of
        (Some e, w) \<Rightarrow> (Inl (Wrap ''db: sync WAL directory'' e), snd (os_Remove name w))
      | (None, w) \<Rightarrow>
      (Inr \<lparr>wal_path = name, wal_options = options,
            wal_recovery = \<lparr>Records = 0, LastLSN = 0, ValidBytes = walFileHeaderSize,
                            TruncatedBytes = 0\<rparr>,
            wal_size = walFileHeaderSize, wal_lastLSN = 0, wal_dirtyRecords = 0,
            wal_poisoned = None, wal_readOnly = False, wal_closed = False\<rparr>, w))"

definition openWAL ::
  "string \<Rightarrow> WALOptions \<Rightarrow> bool \<Rightarrow> bool result \<Rightarrow> world \<Rightarrow> WAL result \<times> world" where
  "openWAL name options readOnly lock w =
     (if name = [] then (Inl (NewError ''db: empty WAL path''), w)
      else case ctx_Err w of (Some e, w) \<Rightarrow> (Inl e, w) | (None, w) \<Rightarrow>
      case lock of
        Inl e \<Rightarrow> (Inl (Wrap ''db: lock WAL open'' e), w)
      | Inr locked \<Rightarrow>
      if \<not> locked then (Inl (NewError ''db: WAL open lock unavailable''), w)
      else case os_Open name w of
        (Inl e, w) \<Rightarrow>
          (if errors_Is e OsErrNotExist then (Inl (Sentinel ErrWALNotFound), w)
           else (Inl (Wrap ''db: open WAL'' e), w))
      | (Inr c, w) \<Rightarrow>
      case io_step w of
        (Some e, w) \<Rightarrow> (Inl (Wrap ''db: stat WAL'' e), w)
      | (None, w) \<Rightarrow>
      case scanWAL c (length c) w of
        (Inl e, w) \<Rightarrow> (Inl e, w)
      | (Inr recovery, w) \<Rightarrow>
      let wal = \<lparr>wal_path = name, wal_options = options, wal_recovery = recovery,
                 wal_size = ValidBytes recovery, wal_lastLSN = LastLSN recovery,
                 wal_dirtyRecords = 0, wal_poisoned = None, wal_readOnly = readOnly,
                 wal_closed = False\<rparr> in
      if 0 < TruncatedBytes recovery \<and> \<not> readOnly then
        (case file_Truncate name (ValidBytes recovery) w of
           (Some e, w) \<Rightarrow> (Inl (Wrap ''db: truncate partial WAL tail'' e), w)
         | (None, w) \<Rightarrow> (case file_Sync name w of
             (Some e, w) \<Rightarrow> (Inl (Wrap ''db: sync repaired WAL tail'' e), w)
           | (None, w) \<Rightarrow> (Inr wal, w)))
      else (Inr wal, w))"

definition OpenWAL :: "string \<Rightarrow> WALOptions \<Rightarrow> bool result \<Rightarrow> world \<Rightarrow> WAL result \<times> world" where
  "OpenWAL name options = openWAL name options False"

definition OpenWALReadOnly :: "string \<Rightarrow> bool result \<Rightarrow> world \<Rightarrow> WAL result \<times> world" where
  "OpenWALReadOnly name = openWAL name \<lparr>SyncEvery = 0\<rparr> True"

section \<open>Operations of an open log\<close>

definition WAL_HasRecords :: "WAL \<Rightarrow> bool" where
  "WAL_HasRecords l \<longleftrightarrow> wal_lastLSN l \<noteq> 0"

text \<open>\<open>Append\<close> returns the sequence number and the error: after a failed automatic sync both
  are set.\<close>

definition WAL_Append ::
  "bytes \<Rightarrow> WAL \<Rightarrow> world \<Rightarrow> (u64 \<times> go_error option) \<times> WAL \<times> world" where
  "WAL_Append payload l w =
     (case ctx_Err w of (Some e, w) \<Rightarrow> ((0, Some e), l, w) | (None, w) \<Rightarrow>
      if payload = [] then ((0, Some (NewError ''db: empty WAL record'')), l, w)
      else if MaxWALRecordSize < length payload
        then ((0, Some (Sentinel ErrWALRecordTooLarge)), l, w)
      else if wal_closed l then ((0, Some (Sentinel ErrWALClosed)), l, w)
      else if wal_readOnly l then ((0, Some (Sentinel ErrWALReadOnly)), l, w)
      else case wal_poisoned l of Some e \<Rightarrow> ((0, Some e), l, w) | None \<Rightarrow>
      if wal_lastLSN l = MaxUint64 then ((0, Some (NewError ''db: WAL LSN exhausted'')), l, w)
      else let lsn = wal_lastLSN l + 1; encoded = encodeWALRecord lsn payload in
      case file_WriteFullAt (wal_path l) encoded (wal_size l) w of
        (Some e, w) \<Rightarrow>
          let p = corrupt ErrWALPoisoned ''write record'' in
          ((0, Some p), l\<lparr>wal_poisoned := Some p\<rparr>, w)
      | (None, w) \<Rightarrow>
      let l = l\<lparr>wal_size := wal_size l + length encoded, wal_lastLSN := lsn,
                wal_dirtyRecords := wal_dirtyRecords l + 1\<rparr> in
      if 0 < SyncEvery (wal_options l) \<and> SyncEvery (wal_options l) \<le> wal_dirtyRecords l then
        (case file_Sync (wal_path l) w of
           (Some e, w) \<Rightarrow> ((lsn, Some (Wrap ''db: sync WAL'' e)), l, w)
         | (None, w) \<Rightarrow> ((lsn, None), l\<lparr>wal_dirtyRecords := 0\<rparr>, w))
      else ((lsn, None), l, w))"

definition WAL_Sync :: "WAL \<Rightarrow> world \<Rightarrow> go_error option \<times> WAL \<times> world" where
  "WAL_Sync l w =
     (case ctx_Err w of (Some e, w) \<Rightarrow> (Some e, l, w) | (None, w) \<Rightarrow>
      if wal_closed l then (Some (Sentinel ErrWALClosed), l, w)
      else if wal_readOnly l then (Some (Sentinel ErrWALReadOnly), l, w)
      else case wal_poisoned l of Some e \<Rightarrow> (Some e, l, w) | None \<Rightarrow>
      case file_Sync (wal_path l) w of
        (Some e, w) \<Rightarrow> (Some (Wrap ''db: sync WAL'' e), l, w)
      | (None, w) \<Rightarrow> (None, l\<lparr>wal_dirtyRecords := 0\<rparr>, w))"

text \<open>\<open>Close\<close> joins the errors of the steps it performs; \<open>lockErr\<close> is the answer of the lock's
  \<open>Close\<close>.\<close>

definition WAL_Close :: "go_error option \<Rightarrow> WAL \<Rightarrow> world \<Rightarrow> go_error list \<times> WAL \<times> world" where
  "WAL_Close lockErr l w =
     (if wal_closed l then ([], l, w)
      else let (syncErr, w) =
             (if \<not> wal_readOnly l \<and> wal_poisoned l = None \<and> 0 < wal_dirtyRecords l
              then file_Sync (wal_path l) w else (None, w)) in
      let (closeErr, w) = io_step w in
      let errs = (case wal_poisoned l of None \<Rightarrow> [] | Some e \<Rightarrow> [e])
               @ (case syncErr of None \<Rightarrow> [] | Some e \<Rightarrow> [Wrap ''db: sync WAL on close'' e])
               @ (case closeErr of None \<Rightarrow> [] | Some e \<Rightarrow> [e])
               @ (case lockErr of None \<Rightarrow> [] | Some e \<Rightarrow> [e]) in
      (errs, l\<lparr>wal_closed := True\<rparr>, w))"

section \<open>Reading\<close>

definition WAL_NewReader :: "WAL \<Rightarrow> world \<Rightarrow> WALReader result \<times> world" where
  "WAL_NewReader l w =
     (if wal_closed l then (Inl (Sentinel ErrWALClosed), w)
      else case wal_poisoned l of Some e \<Rightarrow> (Inl e, w) | None \<Rightarrow>
      case os_Open (wal_path l) w of
        (Inl e, w) \<Rightarrow> (Inl (Wrap ''db: open WAL reader'' e), w)
      | (Inr c, w) \<Rightarrow>
      case ReadFullAt c 0 walFileHeaderSize of
        Inl e \<Rightarrow> (Inl (corrupt ErrWALCorrupt ''read WAL reader header''), w)
      | Inr header \<Rightarrow>
      case validateWALFileHeader header of
        Some e \<Rightarrow> (Inl e, w)
      | None \<Rightarrow>
      (Inr \<lparr>reader_path = wal_path l, reader_offset = walFileHeaderSize,
            reader_limit = wal_size l, reader_nextLSN = 1, reader_closed = False\<rparr>, w))"

definition WALReader_Next ::
  "WALReader \<Rightarrow> world \<Rightarrow> WALRecord result \<times> WALReader \<times> world" where
  "WALReader_Next r w =
     (case ctx_Err w of (Some e, w) \<Rightarrow> (Inl e, r, w) | (None, w) \<Rightarrow>
      if reader_closed r then (Inl (Sentinel ErrWALClosed), r, w)
      else if reader_offset r = reader_limit r then (Inl (Sentinel IoEOF), r, w)
      else case fs w (reader_path r) of
        None \<Rightarrow> (Inl (corrupt ErrWALCorrupt ''read record header''), r, w)
      | Some f \<Rightarrow>
      case readWALRecordAt (content f) (reader_offset r) (reader_limit r) (reader_nextLSN r) of
        Inl e \<Rightarrow> (Inl e, r, w)
      | Inr (rec, sz) \<Rightarrow>
      (Inr rec, r\<lparr>reader_offset := reader_offset r + sz,
                  reader_nextLSN := reader_nextLSN r + 1\<rparr>, w))"

lemma readWALRecordAt_size:
  "readWALRecordAt c offset limit lsn = Inr (rec, sz) \<Longrightarrow> 0 < sz \<and> sz \<le> limit - offset"
  by (auto simp: readWALRecordAt_def Let_def walRecordHeaderSize_def split: if_splits sum.splits)

lemma WALReader_Next_progress:
  "WALReader_Next r w = (Inr rec, r', w') \<Longrightarrow>
     reader_limit r' - reader_offset r' < reader_limit r - reader_offset r"
  by (fastforce simp: WALReader_Next_def split: if_splits sum.splits option.splits prod.splits
      dest: readWALRecordAt_size)

text \<open>The loop of \<open>Replay\<close>: \<open>apply\<close> changes the state of its caller and may fail.\<close>

function WAL_Replay_loop ::
  "(WALRecord \<Rightarrow> 's \<Rightarrow> world \<Rightarrow> go_error option \<times> 's \<times> world)
     \<Rightarrow> WALReader \<Rightarrow> 's \<Rightarrow> world \<Rightarrow> go_error option \<times> 's \<times> world" where
  "WAL_Replay_loop apply r s w =
     (case WALReader_Next r w of
        (Inl e, r', w') \<Rightarrow> (if errors_Is e IoEOF then (None, s, w') else (Some e, s, w'))
      | (Inr rec, r', w') \<Rightarrow> (case apply rec s w' of
          (Some e, s', w'') \<Rightarrow> (Some (Wrap ''db: replay WAL record'' e), s', w'')
        | (None, s', w'') \<Rightarrow> WAL_Replay_loop apply r' s' w''))"
  by pat_completeness auto
termination
  by (relation "measure (\<lambda>(apply, r, s, w). reader_limit r - reader_offset r)")
    (auto dest: WALReader_Next_progress [OF sym])

declare WAL_Replay_loop.simps [simp del]

definition WAL_Replay ::
  "(WALRecord \<Rightarrow> 's \<Rightarrow> world \<Rightarrow> go_error option \<times> 's \<times> world)
     \<Rightarrow> WAL \<Rightarrow> 's \<Rightarrow> world \<Rightarrow> go_error option \<times> 's \<times> world" where
  "WAL_Replay apply l s w = (case WAL_NewReader l w of
       (Inl e, w) \<Rightarrow> (Some e, s, w)
     | (Inr r, w) \<Rightarrow> WAL_Replay_loop apply r s w)"

section \<open>Facts about the codec\<close>

lemmas wal_sizes = walFileHeaderSize_def walRecordHeaderSize_def MaxWALRecordSize_def
  walFormatVersion_def

lemma length_wal_record_fields [simp]: "length (wal_record_fields lsn len crc) = 24"
  by (simp add: wal_record_fields_def walRecordMagic_def)

lemma length_wal_record_header [simp]: "length (wal_record_header lsn len crc) = 32"
  by (simp add: wal_record_header_def)

lemma length_encodeWALRecord [simp]: "length (encodeWALRecord lsn p) = 32 + length p"
  by (simp add: encodeWALRecord_def)

lemma length_encodeWALFileHeader [simp]: "length encodeWALFileHeader = 32"
  by (simp add: encodeWALFileHeader_def Let_def walMagic_def)

definition valid_payload :: "bytes \<Rightarrow> bool" where
  "valid_payload p \<longleftrightarrow> p \<noteq> [] \<and> length p \<le> MaxWALRecordSize"

lemma validate_encodeWALFileHeader: "validateWALFileHeader encodeWALFileHeader = None"
  by (simp add: validateWALFileHeader_def encodeWALFileHeader_def Let_def bslice_def
      walMagic_def wal_sizes)

lemma wal_record_header_fields:
  "bslice 0 4 (wal_record_header lsn len crc) = walRecordMagic"
  "Uint16 (bslice 4 6 (wal_record_header lsn len crc)) = walFormatVersion"
  "Uint16 (bslice 6 8 (wal_record_header lsn len crc)) = word_of_nat walRecordHeaderSize"
  "Uint64 (bslice 8 16 (wal_record_header lsn len crc)) = lsn"
  "Uint32 (bslice 16 20 (wal_record_header lsn len crc)) = len"
  "Uint32 (bslice 20 24 (wal_record_header lsn len crc)) = crc"
  "bslice 0 24 (wal_record_header lsn len crc) = wal_record_fields lsn len crc"
  "Uint32 (bslice 24 28 (wal_record_header lsn len crc)) = CRC32C (wal_record_fields lsn len crc)"
  "Uint32 (bslice 28 32 (wal_record_header lsn len crc)) = 0"
  by (simp_all add: wal_record_header_def wal_record_fields_def walRecordMagic_def bslice_def)

lemma decode_wal_record_header:
  "decodeWALRecordHeader (wal_record_header lsn len crc) expected =
     (if lsn \<noteq> expected then Inl (NewError ''LSN'')
      else if len = 0 \<or> word_of_nat MaxWALRecordSize < len
        then Inl (NewError ''invalid payload length'')
      else Inr \<lparr>md_lsn = lsn, md_payloadLength = len, md_payloadCRC = crc\<rparr>)"
  by (simp add: decodeWALRecordHeader_def wal_record_header_fields Let_def walRecordHeaderSize_def
      del: length_bslice)

text \<open>The decoder accepts nothing but the headers that the encoder writes: every byte of an
  accepted header is determined.\<close>

lemma decodeWALRecordHeader_exact:
  assumes "decodeWALRecordHeader h expected = Inr md"
  shows "h = wal_record_header expected (md_payloadLength md) (md_payloadCRC md)
    \<and> md_lsn md = expected \<and> 0 < unat (md_payloadLength md)
    \<and> unat (md_payloadLength md) \<le> MaxWALRecordSize"
proof -
  have len: "length h = 32" and magic: "bslice 0 4 h = walRecordMagic"
    and ver: "Uint16 (bslice 4 6 h) = walFormatVersion"
    and size: "Uint16 (bslice 6 8 h) = word_of_nat walRecordHeaderSize"
    and lsn: "Uint64 (bslice 8 16 h) = expected"
    and zero: "Uint32 (bslice 28 32 h) = 0"
    and crc: "CRC32C (bslice 0 24 h) = Uint32 (bslice 24 28 h)"
    and bound: "md_payloadLength md \<noteq> 0" "\<not> word_of_nat MaxWALRecordSize < md_payloadLength md"
    and md: "md = \<lparr>md_lsn = expected, md_payloadLength = Uint32 (bslice 16 20 h),
                   md_payloadCRC = Uint32 (bslice 20 24 h)\<rparr>"
    using assms by (auto simp: decodeWALRecordHeader_def Let_def wal_sizes split: if_splits)
  have ver_put: "PutUint16 walFormatVersion = bslice 4 6 h"
    using PutUint16_Uint16 [of "bslice 4 6 h"] ver len by simp
  have put: "PutUint16 (word_of_nat walRecordHeaderSize) = bslice 6 8 h"
    "PutUint64 expected = bslice 8 16 h"
    "PutUint32 (md_payloadLength md) = bslice 16 20 h"
    "PutUint32 (md_payloadCRC md) = bslice 20 24 h"
    "PutUint32 (CRC32C (bslice 0 24 h)) = bslice 24 28 h"
    "replicate 4 0 = bslice 28 32 h"
    using ver [symmetric] size [symmetric] lsn [symmetric] zero crc md len
    by (simp_all add: Uint32_eq_0 PutUint16_Uint16 PutUint32_Uint32 PutUint64_Uint64)
  have fields: "wal_record_fields expected (md_payloadLength md) (md_payloadCRC md) = bslice 0 24 h"
    by (simp add: wal_record_fields_def ver_put put magic [symmetric] bslice_glue)
  have "wal_record_header expected (md_payloadLength md) (md_payloadCRC md) = bslice 0 32 h"
    by (simp add: wal_record_header_def fields put bslice_glue)
  then have "h = wal_record_header expected (md_payloadLength md) (md_payloadCRC md)"
    using len by (simp add: bslice_0_take)
  moreover have "unat (md_payloadLength md) \<le> MaxWALRecordSize"
    using bound(2) by (simp add: not_less word_le_nat_alt wal_sizes)
  ultimately show ?thesis using bound(1) md by (simp add: unat_gt_0)
qed


section \<open>The file of a list of payloads\<close>

fun encode_records :: "u64 \<Rightarrow> bytes list \<Rightarrow> bytes" where
  "encode_records lsn [] = []"
| "encode_records lsn (p # ps) = encodeWALRecord lsn p @ encode_records (lsn + 1) ps"

fun log_size :: "bytes list \<Rightarrow> nat" where
  "log_size [] = 0"
| "log_size (p # ps) = 32 + length p + log_size ps"

lemma length_encode_records [simp]: "length (encode_records lsn ps) = log_size ps"
  by (induction ps arbitrary: lsn) auto

lemma log_size_append [simp]: "log_size (ps @ qs) = log_size ps + log_size qs"
  by (induction ps) auto

definition wal_image :: "bytes list \<Rightarrow> bytes" where
  "wal_image ps = encodeWALFileHeader @ encode_records 1 ps"

lemma encode_records_append:
  "encode_records lsn (ps @ qs) = encode_records lsn ps @ encode_records (lsn + of_nat (length ps)) qs"
  by (induction ps arbitrary: lsn) (auto simp: algebra_simps)

lemma unat_valid_len: "valid_payload p \<Longrightarrow> unat (len32 p) = length p"
  by (simp add: valid_payload_def wal_sizes unat_len32)

lemma valid_len_bounds:
  assumes "valid_payload p"
  shows "len32 p \<noteq> 0" and "\<not> word_of_nat MaxWALRecordSize < len32 p"
proof -
  have u: "unat (len32 p) = length p" using assms by (rule unat_valid_len)
  then show "len32 p \<noteq> 0" using assms by (auto simp: valid_payload_def)
  show "\<not> word_of_nat MaxWALRecordSize < len32 p"
    using u assms by (simp add: valid_payload_def not_less word_le_nat_alt wal_sizes)
qed

text \<open>Decoding the head of the remaining bytes of a log.\<close>

definition record_at :: "bytes \<Rightarrow> nat \<Rightarrow> u64 \<Rightarrow> bytes \<Rightarrow> bool" where
  "record_at c off lsn p \<longleftrightarrow> valid_payload p \<and> take (32 + length p) (drop off c) = encodeWALRecord lsn p"

lemma record_at_decode:
  assumes "record_at c off lsn p"
  shows "ReadFullAt c off 32 = Inr (wal_record_header lsn (len32 p) (CRC32C p))"
    and "ReadFullAt c (off + 32) (length p) = Inr p"
    and "off + 32 + length p \<le> length c"
    and "decodeWALRecordHeader (wal_record_header lsn (len32 p) (CRC32C p)) lsn
           = Inr \<lparr>md_lsn = lsn, md_payloadLength = len32 p, md_payloadCRC = CRC32C p\<rparr>"
proof -
  have v: "valid_payload p" and eq: "take (32 + length p) (drop off c) = encodeWALRecord lsn p"
    using assms by (auto simp: record_at_def)
  have "length (take (32 + length p) (drop off c)) = 32 + length p" using eq by simp
  then have len: "32 + length p \<le> length c - off" by simp
  then show b: "off + 32 + length p \<le> length c" by linarith
  have "take 32 (drop off c) = take 32 (take (32 + length p) (drop off c))" by (simp add: min_def)
  also have "\<dots> = wal_record_header lsn (len32 p) (CRC32C p)"
    by (simp only: eq) (simp add: encodeWALRecord_def)
  finally show "ReadFullAt c off 32 = Inr (wal_record_header lsn (len32 p) (CRC32C p))"
    using b by (simp add: ReadFullAt_def)
  have "take (length p) (drop (off + 32) c) = drop 32 (take (32 + length p) (drop off c))"
    by (simp add: drop_take add.commute)
  also have "\<dots> = p" by (simp only: eq) (simp add: encodeWALRecord_def)
  finally show "ReadFullAt c (off + 32) (length p) = Inr p"
    using b by (simp add: ReadFullAt_def)
  show "decodeWALRecordHeader (wal_record_header lsn (len32 p) (CRC32C p)) lsn
           = Inr \<lparr>md_lsn = lsn, md_payloadLength = len32 p, md_payloadCRC = CRC32C p\<rparr>"
    using valid_len_bounds [OF v] by (simp add: decode_wal_record_header)
qed

text \<open>Conversely, whatever the decoder and the checksum accept is such a record.\<close>

lemma decode_record_at:
  assumes h: "ReadFullAt c off 32 = Inr h" and d: "decodeWALRecordHeader h lsn = Inr md"
    and p: "ReadFullAt c (off + 32) (unat (md_payloadLength md)) = Inr p"
    and crc: "CRC32C p = md_payloadCRC md"
  shows "record_at c off lsn p \<and> unat (md_payloadLength md) = length p \<and> md_lsn md = lsn"
proof -
  note ex = decodeWALRecordHeader_exact [OF d]
  have len: "unat (md_payloadLength md) = length p"
    using p by (auto simp: ReadFullAt_def split: if_splits)
  then have v: "valid_payload p" using ex by (auto simp: valid_payload_def)
  have "len32 p = md_payloadLength md" by (simp add: len32_def flip: len)
  then have hd: "take 32 (drop off c) = wal_record_header lsn (len32 p) (CRC32C p)"
    using h ex crc by (auto simp: ReadFullAt_def split: if_splits)
  have "take (length p) (drop 32 (drop off c)) = p"
    using p len by (auto simp: ReadFullAt_def add.commute split: if_splits)
  then have "take (32 + length p) (drop off c) = encodeWALRecord lsn p"
    using hd by (simp add: take_add encodeWALRecord_def)
  then show ?thesis using v len ex by (simp add: record_at_def)
qed

lemma readWALRecordAt_Inr:
  assumes "record_at c off lsn p" and "off + 32 + length p \<le> limit"
  shows "readWALRecordAt c off limit lsn = Inr (\<lparr>rec_LSN = lsn, rec_Payload = p\<rparr>, 32 + length p)"
  using record_at_decode [OF assms(1)] assms
  by (simp add: readWALRecordAt_def Let_def walRecordHeaderSize_def record_at_def unat_valid_len)

lemma readWALRecordAt_Inr_iff:
  "readWALRecordAt c off limit lsn = Inr (r, n) \<longleftrightarrow>
     record_at c off lsn (rec_Payload r) \<and> rec_LSN r = lsn \<and> n = 32 + length (rec_Payload r)
       \<and> off + n \<le> limit"
proof
  assume "readWALRecordAt c off limit lsn = Inr (r, n)"
  then obtain h md p where h: "ReadFullAt c off 32 = Inr h" "decodeWALRecordHeader h lsn = Inr md"
      "ReadFullAt c (off + 32) (unat (md_payloadLength md)) = Inr p" "CRC32C p = md_payloadCRC md"
    and r: "r = \<lparr>rec_LSN = md_lsn md, rec_Payload = p\<rparr>" "n = 32 + unat (md_payloadLength md)"
      "n \<le> limit - off"
    by (auto simp: readWALRecordAt_def Let_def walRecordHeaderSize_def split: if_splits sum.splits)
  show "record_at c off lsn (rec_Payload r) \<and> rec_LSN r = lsn
      \<and> n = 32 + length (rec_Payload r) \<and> off + n \<le> limit"
    using decode_record_at [OF h] r by auto
next
  assume "record_at c off lsn (rec_Payload r) \<and> rec_LSN r = lsn
      \<and> n = 32 + length (rec_Payload r) \<and> off + n \<le> limit"
  then show "readWALRecordAt c off limit lsn = Inr (r, n)"
    using readWALRecordAt_Inr [of c off lsn "rec_Payload r" limit] by auto
qed


section \<open>What the scan finds\<close>

definition advance :: "u64 \<Rightarrow> nat \<Rightarrow> WALRecovery \<Rightarrow> WALRecovery" where
  "advance lsn off r = r\<lparr>Records := Records r + 1, LastLSN := lsn, ValidBytes := off\<rparr>"

lemma advance_simps [simp]:
  "ValidBytes (advance lsn off r) = off" "TruncatedBytes (advance lsn off r) = TruncatedBytes r"
  by (simp_all add: advance_def)

lemma scanWAL_loop_end: "scanWAL_loop c (length c) (length c) lsn rec w = (Inr rec, w)"
  by (simp add: scanWAL_loop.simps)

lemma scanWAL_loop_record:
  assumes "record_at c off lsn p" and "polls w = None"
  shows "scanWAL_loop c (length c) off lsn rec w =
    scanWAL_loop c (length c) (off + (32 + length p)) (lsn + 1) (advance lsn (off + (32 + length p)) rec) w"
proof -
  note d = record_at_decode [OF assms(1)]
  have "off < length c" "\<not> length c - off < 32" "\<not> length c - off < 32 + length p"
    using d(3) by linarith+
  moreover have "unat (len32 p) = length p"
    using assms(1) by (simp add: record_at_def unat_valid_len)
  ultimately show ?thesis
    by (subst scanWAL_loop.simps)
      (simp add: assms(2) d Let_def walRecordHeaderSize_def advance_def)
qed

lemma scanWAL_loop_torn:
  assumes torn: "drop off c = take m (encodeWALRecord lsn p)" and m: "0 < m" "m < 32 + length p"
    and p: "valid_payload p" and "polls w = None"
  shows "scanWAL_loop c (length c) off lsn rec w = (Inr (rec\<lparr>TruncatedBytes := m\<rparr>), w)"
proof -
  have "length (drop off c) = m" using torn m by simp
  then have rem: "length c - off = m" and lt: "off < length c" using m by auto
  show ?thesis
  proof (cases "m < 32")
    case True
    then show ?thesis
      by (subst scanWAL_loop.simps) (simp add: assms lt rem Let_def walRecordHeaderSize_def)
  next
    case False
    then have "take 32 (drop off c) = wal_record_header lsn (len32 p) (CRC32C p)"
      by (simp add: torn encodeWALRecord_def min_def)
    then have "ReadFullAt c off 32 = Inr (wal_record_header lsn (len32 p) (CRC32C p))"
      using False rem lt by (simp add: ReadFullAt_def)
    moreover have "decodeWALRecordHeader (wal_record_header lsn (len32 p) (CRC32C p)) lsn
        = Inr \<lparr>md_lsn = lsn, md_payloadLength = len32 p, md_payloadCRC = CRC32C p\<rparr>"
      using valid_len_bounds [OF p] by (simp add: decode_wal_record_header)
    ultimately show ?thesis using False m unat_valid_len [OF p]
      by (subst scanWAL_loop.simps) (simp add: assms lt rem Let_def walRecordHeaderSize_def)
  qed
qed

text \<open>The records of \<open>ps\<close> that are complete in the first \<open>n\<close> bytes of their encoding.\<close>

fun complete :: "nat \<Rightarrow> bytes list \<Rightarrow> bytes list" where
  "complete n [] = []"
| "complete n (p # ps) = (if 32 + length p \<le> n then p # complete (n - (32 + length p)) ps else [])"

lemma complete_prefix: "\<exists>qs. ps = complete n ps @ qs"
  by (induction n ps rule: complete.induct) auto

lemma log_size_complete: "log_size (complete n ps) \<le> n"
  by (induction n ps rule: complete.induct) auto

lemma complete_all: "log_size ps \<le> n \<Longrightarrow> complete n ps = ps"
  by (induction n ps rule: complete.induct) auto

definition recovered :: "u64 \<Rightarrow> nat \<Rightarrow> bytes list \<Rightarrow> WALRecovery \<Rightarrow> WALRecovery" where
  "recovered lsn off qs r = r\<lparr>Records := Records r + of_nat (length qs),
     LastLSN := (if qs = [] then LastLSN r else lsn + of_nat (length qs) - 1),
     ValidBytes := off + log_size qs\<rparr>"

lemma recovered_Nil [simp]: "ValidBytes r = off \<Longrightarrow> recovered lsn off [] r = r"
  by (simp add: recovered_def)

lemma recovered_Cons:
  "recovered (lsn + 1) (off + (32 + length p)) qs (advance lsn (off + (32 + length p)) r) =
     recovered lsn off (p # qs) r"
  by (auto simp: recovered_def advance_def algebra_simps)

lemma scanWAL_loop_image:
  assumes "list_all valid_payload ps" and "drop off c = take n (encode_records lsn ps)"
    and "polls w = None" and "ValidBytes rec = off" and "off \<le> length c"
    and "TruncatedBytes rec = 0"
  shows "scanWAL_loop c (length c) off lsn rec w =
    (Inr ((recovered lsn off (complete n ps) rec)
       \<lparr>TruncatedBytes := length c - off - log_size (complete n ps)\<rparr>), w)"
  using assms
proof (induction ps arbitrary: off lsn rec n)
  case Nil
  then have "off = length c" by simp
  with Nil show ?case by (simp add: scanWAL_loop_end)
next
  case (Cons p ps)
  let ?k = "32 + length p"
  show ?case
  proof (cases "?k \<le> n")
    case True
    have d: "drop off c = encodeWALRecord lsn p @ take (n - ?k) (encode_records (lsn + 1) ps)"
      using Cons.prems(2) True by simp
    then have ra: "record_at c off lsn p" using Cons.prems(1) by (simp add: record_at_def)
    have d': "drop (off + ?k) c = take (n - ?k) (encode_records (lsn + 1) ps)"
      using arg_cong [OF d, of "drop ?k"] by (simp add: add.commute)
    have "off + ?k \<le> length c" using record_at_decode(3) [OF ra] by simp
    then show ?thesis
      using Cons.IH [of "off + ?k" "n - ?k" "lsn + 1" "advance lsn (off + ?k) rec"]
        Cons.prems True d' scanWAL_loop_record [OF ra, of w rec]
      by (simp add: recovered_Cons add.assoc)
  next
    case False
    then have torn: "drop off c = take n (encodeWALRecord lsn p)" using Cons.prems(2) by simp
    show ?thesis
    proof (cases "n = 0")
      case True
      then have "off = length c" using torn Cons.prems(5) by simp
      then show ?thesis using True Cons.prems by (simp add: scanWAL_loop_end)
    next
      case n: False
      have "length c - off = n" using arg_cong [OF torn, of length] False by simp
      then show ?thesis using scanWAL_loop_torn [OF torn] n False Cons.prems
        by simp
    qed
  qed
qed

end
