(* ===== verification/Wal_Log.thy ===== *)
theory Wal_Log
  imports Wal
begin

text \<open>
  The write-ahead log as a list of payloads: what \<open>scanWAL\<close> accepts and finds, what the
  operations of an open log do to its file whatever fails, what \<open>openWAL\<close> recovers after a
  crash, and what \<open>Replay\<close> feeds to its client (the locale \<open>wal_client\<close>).
\<close>

section \<open>The scan is exact\<close>

lemma validateWALFileHeader_exact:
  assumes "validateWALFileHeader h = None"
  shows "h = encodeWALFileHeader"
proof -
  have len: "length h = 32" and magic: "bslice 0 8 h = walMagic"
    and ver: "Uint16 (bslice 8 10 h) = walFormatVersion"
    and sz: "Uint16 (bslice 10 12 h) = word_of_nat walFileHeaderSize"
    and mx: "Uint32 (bslice 12 16 h) = word_of_nat MaxWALRecordSize"
    and zero: "Uint64 (bslice 16 24 h) = 0" "Uint32 (bslice 28 32 h) = 0"
    and crc: "CRC32C (bslice 0 24 h) = Uint32 (bslice 24 28 h)"
    using assms by (auto simp: validateWALFileHeader_def walFileHeaderSize_def split: if_splits)
  have put: "PutUint16 walFormatVersion = bslice 8 10 h"
    "PutUint16 (word_of_nat walFileHeaderSize) = bslice 10 12 h"
    "PutUint32 (word_of_nat MaxWALRecordSize) = bslice 12 16 h"
    "PutUint32 (CRC32C (bslice 0 24 h)) = bslice 24 28 h"
    using PutUint16_Uint16 [of "bslice 8 10 h"] PutUint16_Uint16 [of "bslice 10 12 h"]
      PutUint32_Uint32 [of "bslice 12 16 h"] PutUint32_Uint32 [of "bslice 24 28 h"] ver sz mx crc len
    by simp_all
  have z: "replicate 8 0 = bslice 16 24 h" "replicate 4 0 = bslice 28 32 h"
    using zero len by (simp_all add: Uint64_eq_0 Uint32_eq_0)
  have "encodeWALFileHeader = bslice 0 32 h"
    by (simp add: encodeWALFileHeader_def Let_def put z magic [symmetric] bslice_glue)
  then show ?thesis using len by (simp add: bslice_0_take)
qed

lemma length_wal_image [simp]: "length (wal_image ps) = 32 + log_size ps"
  by (simp add: wal_image_def)

lemma wal_image_snoc:
  "wal_image (ps @ [p]) = wal_image ps @ encodeWALRecord (of_nat (length ps) + 1) p"
  by (simp add: wal_image_def encode_records_append add.commute)

definition recovery_of :: "bytes list \<Rightarrow> nat \<Rightarrow> WALRecovery" where
  "recovery_of qs t = \<lparr>Records = of_nat (length qs), LastLSN = of_nat (length qs),
     ValidBytes = length (wal_image qs), TruncatedBytes = t\<rparr>"

lemma scanWAL_image:
  assumes ps: "list_all valid_payload ps" and n: "32 \<le> n" and w: "polls w = None"
  shows "scanWAL (take n (wal_image ps)) (length (take n (wal_image ps))) w =
    (Inr (recovery_of (complete (n - 32) ps)
       (min n (32 + log_size ps) - (32 + log_size (complete (n - 32) ps)))), w)"
proof -
  let ?c = "take n (wal_image ps)"
  have c: "?c = encodeWALFileHeader @ take (n - 32) (encode_records 1 ps)"
    using n by (simp add: wal_image_def)
  have "ReadFullAt ?c 0 32 = Inr encodeWALFileHeader" by (simp add: c ReadFullAt_def)
  moreover have "\<not> length ?c < 32" using n by simp
  moreover have "drop 32 ?c = take (n - 32) (encode_records 1 ps)" by (simp add: c)
  ultimately show ?thesis
    using scanWAL_loop_image [OF ps, of 32 ?c "n - 32" 1 w
        "\<lparr>Records = 0, LastLSN = 0, ValidBytes = 32, TruncatedBytes = 0\<rparr>"] w n
    by (simp add: scanWAL_def walFileHeaderSize_def validate_encodeWALFileHeader recovery_of_def
        recovered_def min.commute)
qed

lemma scanWAL_loop_step:
  assumes "scanWAL_loop c (length c) off lsn rec w = (Inr r, w')" and "off < length c"
  shows "r = rec\<lparr>TruncatedBytes := length c - off\<rparr> \<or>
    (\<exists>q w1. record_at c off lsn q \<and> scanWAL_loop c (length c) (off + (32 + length q)) (lsn + 1)
       (advance lsn (off + (32 + length q)) rec) w1 = (Inr r, w'))"
proof (rule disjCI)
  assume no: "\<not> (\<exists>q w1. record_at c off lsn q \<and> scanWAL_loop c (length c) (off + (32 + length q)) (lsn + 1)
       (advance lsn (off + (32 + length q)) rec) w1 = (Inr r, w'))"
  obtain w1 where p: "ctx_Err w = (None, w1)"
    using assms by (cases "ctx_Err w")
      (auto simp: scanWAL_loop.simps [of c "length c" off] split: option.splits)
  show "r = rec\<lparr>TruncatedBytes := length c - off\<rparr>"
  proof (rule ccontr)
    assume "r \<noteq> rec\<lparr>TruncatedBytes := length c - off\<rparr>"
    with assms p obtain h md q where
        h: "ReadFullAt c off 32 = Inr h" "decodeWALRecordHeader h lsn = Inr md"
          "ReadFullAt c (off + 32) (unat (md_payloadLength md)) = Inr q" "CRC32C q = md_payloadCRC md"
        and rest: "scanWAL_loop c (length c) (off + (32 + unat (md_payloadLength md))) (lsn + 1)
            (advance lsn (off + (32 + unat (md_payloadLength md))) rec) w1 = (Inr r, w')"
        by (subst (asm) (1) scanWAL_loop.simps)
          (auto simp: Let_def walRecordHeaderSize_def advance_def split: if_splits sum.splits)
    with decode_record_at [OF h] no show False by auto
  qed
qed

lemma scanWAL_loop_sound:
  "scanWAL_loop c (length c) off lsn rec w = (Inr r, w') \<Longrightarrow> off \<le> length c
     \<Longrightarrow> ValidBytes rec = off \<Longrightarrow> TruncatedBytes rec = 0 \<Longrightarrow>
     \<exists>ps tail. list_all valid_payload ps \<and> drop off c = encode_records lsn ps @ tail
       \<and> r = (recovered lsn off ps rec)\<lparr>TruncatedBytes := length tail\<rparr>"
proof (induction "length c - off" arbitrary: off lsn rec w rule: less_induct)
  case less
  have nil: "\<exists>ps tail. list_all valid_payload ps \<and> drop off c = encode_records lsn ps @ tail
       \<and> rec\<lparr>TruncatedBytes := length c - off\<rparr> = (recovered lsn off ps rec)\<lparr>TruncatedBytes := length tail\<rparr>"
    using less.prems(3) by (intro exI [of _ "[]"] exI [of _ "drop off c"]) simp
  show ?case
  proof (cases "off < length c")
    case False
    then have "r = rec" "length c - off = 0" using less.prems(1) by (auto simp: scanWAL_loop.simps)
    moreover have "rec = rec\<lparr>TruncatedBytes := 0\<rparr>" using less.prems(4) by simp
    ultimately show ?thesis using nil by simp
  next
    case True
    from scanWAL_loop_step [OF less.prems(1) True] show ?thesis
    proof (elim disjE exE conjE)
      assume "r = rec\<lparr>TruncatedBytes := length c - off\<rparr>" with nil show ?thesis by blast
    next
      fix q :: bytes and w1
      let ?k = "32 + length q"
      assume q: "record_at c off lsn q"
        and rest: "scanWAL_loop c (length c) (off + ?k) (lsn + 1) (advance lsn (off + ?k) rec) w1 = (Inr r, w')"
      have le: "off + ?k \<le> length c" using record_at_decode(3) [OF q] by simp
      then have lt: "length c - (off + ?k) < length c - off" by linarith
      obtain ps tail where IH: "list_all valid_payload ps"
          "drop (off + ?k) c = encode_records (lsn + 1) ps @ tail"
          "r = (recovered lsn off (q # ps) rec)\<lparr>TruncatedBytes := length tail\<rparr>"
        using less.hyps [OF lt rest le] less.prems(4) by (auto simp: recovered_Cons)
      have "drop off c = take ?k (drop off c) @ drop (off + ?k) c"
        by (metis append_take_drop_id drop_drop add.commute)
      then have "drop off c = encode_records lsn (q # ps) @ tail"
        using q IH(2) by (simp add: record_at_def)
      then show ?thesis using IH q
        by (intro exI [of _ "q # ps"] exI [of _ tail]) (simp add: record_at_def)
    qed
  qed
qed

lemma scanWAL_sound:
  assumes "scanWAL c (length c) w = (Inr r, w')"
  obtains ps tail where "list_all valid_payload ps" "c = wal_image ps @ tail"
    "r = recovery_of ps (length tail)"
proof -
  let ?r0 = "\<lparr>Records = 0, LastLSN = 0, ValidBytes = 32, TruncatedBytes = 0\<rparr>"
  obtain h where len: "32 \<le> length c" and h: "ReadFullAt c 0 32 = Inr h" "validateWALFileHeader h = None"
    and loop: "scanWAL_loop c (length c) 32 1 ?r0 w = (Inr r, w')"
    using assms by (auto simp: scanWAL_def walFileHeaderSize_def split: if_splits sum.splits option.splits)
  have hd: "take 32 c = encodeWALFileHeader"
    using h validateWALFileHeader_exact [OF h(2)] by (auto simp: ReadFullAt_def split: if_splits)
  from scanWAL_loop_sound [OF loop len] obtain ps tail where
    ps: "list_all valid_payload ps" "drop 32 c = encode_records 1 ps @ tail"
    "r = (recovered 1 32 ps ?r0)\<lparr>TruncatedBytes := length tail\<rparr>"
    by auto
  have "c = wal_image ps @ tail"
    using hd ps(2) by (metis append.assoc append_take_drop_id wal_image_def)
  moreover have "r = recovery_of ps (length tail)"
    using ps(3) by (auto simp: recovery_of_def recovered_def)
  ultimately show ?thesis using that ps(1) by blast
qed


section \<open>An open log and its payloads\<close>

text \<open>The file of an open log holds the payloads \<open>ps\<close> and, after a failed write, a part of one
  more record.\<close>

definition log_file :: "bytes list \<Rightarrow> bytes list \<Rightarrow> bytes \<Rightarrow> bool" where
  "log_file ps qs c \<longleftrightarrow> list_all valid_payload (ps @ qs) \<and>
     (\<exists>k. length (wal_image ps) \<le> k \<and> c = take k (wal_image (ps @ qs)))"

definition wal_holds :: "bytes list \<Rightarrow> WAL \<Rightarrow> world \<Rightarrow> bool" where
  "wal_holds ps l w \<longleftrightarrow> wal_size l = length (wal_image ps) \<and> length ps < 2 ^ 64
     \<and> wal_lastLSN l = of_nat (length ps)
     \<and> (\<exists>f qs. fs w (wal_path l) = Some f \<and> log_file ps qs (content f)
           \<and> (wal_poisoned l = None \<longrightarrow> content f = wal_image ps))"

lemma log_file_self: "list_all valid_payload ps \<Longrightarrow> log_file ps [] (wal_image ps)"
  by (auto simp: log_file_def)

lemma ctx_Err_holds: "ctx_Err w = (e, w') \<Longrightarrow> wal_holds ps l w' = wal_holds ps l w"
  by (simp add: wal_holds_def ctx_Err_frame)

lemma file_Sync_frame:
  "file_Sync n w = (e, w') \<Longrightarrow> polls w' = polls w \<and> (\<forall>m. map_option content (fs w' m) = map_option content (fs w m))"
  by (auto simp: file_Sync_def io_step_def split: list.splits io_outcome.splits option.splits prod.splits)

lemma file_Sync_durable:
  "file_Sync n w = (None, w') \<Longrightarrow> fs w n = Some f \<Longrightarrow>
     fs w' n = Some (f\<lparr>synced := length (content f)\<rparr>)"
  by (auto simp: file_Sync_def io_step_def split: list.splits io_outcome.splits option.splits prod.splits)

lemma wal_holds_content:
  assumes "\<And>m. map_option content (fs w' m) = map_option content (fs w m)"
  shows "wal_holds ps l w' = wal_holds ps l w"
proof -
  have "(\<exists>f. fs w' (wal_path l) = Some f \<and> P (content f)) = (\<exists>f. fs w (wal_path l) = Some f \<and> P (content f))"
    for P using assms [of "wal_path l"] by (cases "fs w (wal_path l)") (auto simp: map_option_eq_Some)
  from this [of "\<lambda>c. (\<exists>qs. log_file ps qs c) \<and> (wal_poisoned l = None \<longrightarrow> c = wal_image ps)"]
  show ?thesis by (auto simp: wal_holds_def)
qed

lemma file_Sync_holds: "file_Sync n w = (e, w') \<Longrightarrow> wal_holds ps l w' = wal_holds ps l w"
  by (rule wal_holds_content) (simp add: file_Sync_frame)

lemma wal_holds_dirty [simp]: "wal_holds ps (l\<lparr>wal_dirtyRecords := d\<rparr>) w = wal_holds ps l w"
  by (simp add: wal_holds_def)

text \<open>One write of a record to a log that is not poisoned.\<close>

lemma write_record:
  assumes h: "wal_holds ps l w" and np: "wal_poisoned l = None" and p: "valid_payload p"
    and wr: "file_WriteFullAt (wal_path l) (encodeWALRecord (of_nat (length ps) + 1) p) (wal_size l) w = (e, w')"
  obtains f k where "fs w' (wal_path l) = Some f" "length (wal_image ps) \<le> k"
    "content f = take k (wal_image (ps @ [p]))" "e = None \<longrightarrow> content f = wal_image (ps @ [p])"
    "list_all valid_payload (ps @ [p])"
proof -
  let ?enc = "encodeWALRecord (of_nat (length ps) + 1) p"
  from h np obtain f where f: "fs w (wal_path l) = Some f" "content f = wal_image ps"
      and sz: "wal_size l = length (content f)" and v: "list_all valid_payload ps"
    by (auto simp: wal_holds_def log_file_def)
  obtain c' ios where wf: "WriteFullAt (outcomes w) (content f) ?enc (length (content f)) = (e, c', ios)"
      and w': "w' = set_file (wal_path l) (f\<lparr>content := c'\<rparr>) (w\<lparr>outcomes := ios\<rparr>)"
    using wr f(1) sz by (auto simp: file_WriteFullAt_def split: prod.splits)
  from WriteFullAt_at_end [OF wf] obtain n where
    n: "n \<le> length ?enc" "c' = content f @ take n ?enc" "e = None \<longrightarrow> n = length ?enc" by blast
  have c': "c' = take (length (wal_image ps) + n) (wal_image (ps @ [p]))"
    using n(2) f(2) by (simp add: wal_image_snoc)
  show ?thesis
  proof (rule that)
    show "fs w' (wal_path l) = Some (f\<lparr>content := c'\<rparr>)" by (simp add: w')
    show "content (f\<lparr>content := c'\<rparr>) = take (length (wal_image ps) + n) (wal_image (ps @ [p]))"
      by (simp add: c')
    show "e = None \<longrightarrow> content (f\<lparr>content := c'\<rparr>) = wal_image (ps @ [p])"
      using n(3) f(2) n(2) by (simp add: wal_image_snoc)
  qed (use v p in auto)
qed

text \<open>Every outcome of \<open>Append\<close>: a sequence number other than zero means that the record is in
  the log, and zero that the log is as before and an error is reported.\<close>

lemma WAL_Append_cases:
  assumes h: "wal_holds ps l w" and ap: "WAL_Append p l w = ((lsn, e), l', w')"
  shows "(lsn = 0 \<and> e \<noteq> None \<and> wal_holds ps l' w') \<or>
    (lsn = of_nat (length ps) + 1 \<and> lsn \<noteq> 0 \<and> valid_payload p \<and> wal_poisoned l' = None
       \<and> wal_holds (ps @ [p]) l' w')"
proof -
  obtain e1 w1 where c: "ctx_Err w = (e1, w1)" by (cases "ctx_Err w")
  have h1: "wal_holds ps l w1" using ctx_Err_holds [OF c] h by simp
  let ?enc = "encodeWALRecord (of_nat (length ps) + 1) p"
  have last: "wal_lastLSN l = of_nat (length ps)" using h by (simp add: wal_holds_def)
  show ?thesis
  proof (cases "e1 = None \<and> valid_payload p \<and> \<not> wal_closed l \<and> \<not> wal_readOnly l
      \<and> wal_poisoned l = None \<and> wal_lastLSN l \<noteq> MaxUint64")
    case False
    then have "lsn = 0 \<and> e \<noteq> None \<and> l' = l \<and> w' = w1"
      using ap c by (auto simp: WAL_Append_def valid_payload_def not_None_eq
          split: option.splits if_splits dest: sym)
    then show ?thesis using h1 by simp
  next
    case True
    then have np: "wal_poisoned l = None" and p: "valid_payload p" by auto
    obtain e2 w2 where wr: "file_WriteFullAt (wal_path l) ?enc (wal_size l) w1 = (e2, w2)"
      by (cases "file_WriteFullAt (wal_path l) ?enc (wal_size l) w1")
    from write_record [OF h1 np p wr] obtain f k where
      f: "fs w2 (wal_path l) = Some f" "length (wal_image ps) \<le> k"
        "content f = take k (wal_image (ps @ [p]))" "e2 = None \<longrightarrow> content f = wal_image (ps @ [p])"
        "list_all valid_payload (ps @ [p])" by blast
    show ?thesis
    proof (cases e2)
      case (Some x)
      let ?p = "corrupt ErrWALPoisoned ''write record''"
      have r: "lsn = 0" "e = Some ?p" "l' = l\<lparr>wal_poisoned := Some ?p\<rparr>" "w' = w2"
        using ap c True wr Some last
        by (auto simp: WAL_Append_def valid_payload_def Let_def split: if_splits)
      have "log_file ps [p] (content f)" using f by (auto simp: log_file_def)
      then have "wal_holds ps l' w'" using h f(1) r by (auto simp: wal_holds_def)
      then show ?thesis using r by simp
    next
      case None
      let ?l = "l\<lparr>wal_size := wal_size l + length ?enc, wal_lastLSN := wal_lastLSN l + 1,
                 wal_dirtyRecords := wal_dirtyRecords l + 1\<rparr>"
      have len: "length ps + 1 < 2 ^ 64"
        using True last h unat_plus_one_u64 [of "wal_lastLSN l"] unat_u64_lt [of "wal_lastLSN l + 1"]
        by (auto simp: wal_holds_def unat_of_nat)
      have nz: "(of_nat (length ps) + 1 :: u64) \<noteq> 0"
        using True last by (metis add.commute eq_neg_iff_add_eq_0)
      have hl: "wal_holds (ps @ [p]) ?l w2"
        using h len f None np by (auto simp: wal_holds_def intro!: log_file_self exI [of _ "[]"])
      have "lsn = of_nat (length ps) + 1 \<and> (\<exists>d. l' = ?l\<lparr>wal_dirtyRecords := d\<rparr>)
          \<and> wal_holds (ps @ [p]) ?l w'"
        using ap c True wr None last hl
        by (auto simp: WAL_Append_def valid_payload_def Let_def file_Sync_holds
            split: if_splits prod.splits option.splits)
      then show ?thesis using nz np p by auto
    qed
  qed
qed


text \<open>The payloads that the last successful sync made durable.\<close>

definition wal_durable :: "bytes list \<Rightarrow> WAL \<Rightarrow> world \<Rightarrow> bool" where
  "wal_durable ds l w \<longleftrightarrow> (\<exists>f. fs w (wal_path l) = Some f
     \<and> length (wal_image ds) \<le> synced f \<and> synced f \<le> length (content f))"

lemma WAL_Sync_durable:
  assumes "wal_holds ps l w" and "WAL_Sync l w = (None, l', w')"
  shows "wal_holds ps l' w' \<and> wal_durable ps l' w' \<and> wal_poisoned l' = None
    \<and> (\<exists>d. l' = l\<lparr>wal_dirtyRecords := d\<rparr>)"
proof -
  from assms(2) obtain w1 where c: "ctx_Err w = (None, w1)" and np: "wal_poisoned l = None"
    and s: "file_Sync (wal_path l) w1 = (None, w')" and l': "l' = l\<lparr>wal_dirtyRecords := 0\<rparr>"
    by (auto simp: WAL_Sync_def split: prod.splits option.splits if_splits)
  have h: "wal_holds ps l w1" using assms(1) ctx_Err_holds [OF c] by simp
  then obtain f where f: "fs w1 (wal_path l) = Some f" "content f = wal_image ps"
    using np by (auto simp: wal_holds_def)
  show ?thesis using file_Sync_holds [OF s] file_Sync_durable [OF s f(1)] h l' np f
    by (auto simp: wal_durable_def)
qed

lemma WAL_Sync_error:
  assumes "wal_holds ps l w" and "WAL_Sync l w = (Some e, l', w')"
  shows "wal_holds ps l' w' \<and> l' = l"
proof -
  obtain r w1 where c: "ctx_Err w = (r, w1)" by (cases "ctx_Err w")
  have "wal_holds ps l w1" using assms(1) ctx_Err_holds [OF c] by simp
  then show ?thesis using assms(2) c
    by (auto simp: WAL_Sync_def file_Sync_holds split: prod.splits option.splits if_splits)
qed

section \<open>Opening a log, also after a crash\<close>

lemma log_file_scan:
  assumes "log_file ps qs c" and "polls w = None"
  obtains rs ss where "ps @ qs = ps @ rs @ ss" "scanWAL c (length c) w =
    (Inr (recovery_of (ps @ rs) (length c - length (wal_image (ps @ rs)))), w)"
    "length (wal_image (ps @ rs)) \<le> length c" "take (length (wal_image (ps @ rs))) c = wal_image (ps @ rs)"
proof -
  from assms(1) obtain k where k: "length (wal_image ps) \<le> k" "c = take k (wal_image (ps @ qs))"
    and v: "list_all valid_payload (ps @ qs)" by (auto simp: log_file_def)
  let ?cs = "complete (k - 32) (ps @ qs)"
  have pre: "complete (m + log_size ps) (ps @ qs) = ps @ complete m qs" for m
    by (induction ps) auto
  obtain m where m: "k - 32 = m + log_size ps" using k(1) by (auto simp: le_iff_add)
  obtain rs where rs: "?cs = ps @ rs" "rs = complete m qs" using pre [of m] m by simp
  obtain ss where ss: "qs = rs @ ss" using complete_prefix [of qs m] rs(2) by blast
  have size: "32 + log_size (ps @ rs) \<le> k"
    using log_size_complete [of "k - 32" "ps @ qs"] rs(1) k(1) by simp
  have len: "length c = min k (32 + log_size (ps @ qs))" using k(2) by (simp add: min.commute)
  show ?thesis
  proof (rule that)
    show "ps @ qs = ps @ rs @ ss" using ss by simp
    show "scanWAL c (length c) w =
      (Inr (recovery_of (ps @ rs) (length c - length (wal_image (ps @ rs)))), w)"
      using scanWAL_image [OF v, of k w] k assms(2) rs(1) len by simp
    show "length (wal_image (ps @ rs)) \<le> length c" using size len ss by simp
    have "wal_image (ps @ qs) = wal_image (ps @ rs) @ encode_records (1 + of_nat (length (ps @ rs))) ss"
      using encode_records_append [of 1 "ps @ rs" ss] ss by (simp add: wal_image_def)
    then show "take (length (wal_image (ps @ rs))) c = wal_image (ps @ rs)"
      using size by (simp add: k(2) min_def)
  qed
qed

lemma crash_log_file:
  assumes "log_file ps qs c" and "ps @ qs = ds @ es" and "length (wal_image ds) \<le> n"
    and "length (wal_image ds) \<le> length c"
  shows "log_file ds es (take n c)"
proof -
  from assms(1) obtain k where k: "length (wal_image ps) \<le> k" "c = take k (wal_image (ps @ qs))"
    and v: "list_all valid_payload (ps @ qs)" by (auto simp: log_file_def)
  have "length (wal_image ds) \<le> k" using assms(4) k(2) by simp
  then show ?thesis using assms(2,3) k v
    by (auto simp: log_file_def intro!: exI [of _ "min n k"])
qed

text \<open>\<open>openWAL\<close> on a file that holds a log, possibly with a torn tail: the handle holds every
  complete record, and a writer has cut the tail off.\<close>

lemma openWAL_log_file:
  assumes lf: "log_file ps qs (content f)" and f: "fs w name = Some f" and name: "name \<noteq> []"
    and calm: "polls w = None" "outcomes w = []" and short: "length (ps @ qs) < 2 ^ 64"
  obtains rs ss l w' where "qs = rs @ ss" "openWAL name opts ro (Inr True) w = (Inr l, w')"
    "wal_path l = name" "wal_options l = opts" "wal_readOnly l = ro" "\<not> wal_closed l" "wal_poisoned l = None"
    "wal_size l = length (wal_image (ps @ rs))" "wal_lastLSN l = of_nat (length (ps @ rs))"
    "polls w' = None" "outcomes w' = []" "\<forall>m. m \<noteq> name \<longrightarrow> fs w' m = fs w m"
    "\<not> ro \<longrightarrow> wal_holds (ps @ rs) l w'" "ro \<longrightarrow> w' = w"
    "\<exists>f'. fs w' name = Some f' \<and> take (length (wal_image (ps @ rs))) (content f') = wal_image (ps @ rs)"
proof -
  from log_file_scan [OF lf calm(1)] obtain rs ss where
    q: "ps @ qs = ps @ rs @ ss" and sc: "scanWAL (content f) (length (content f)) w =
      (Inr (recovery_of (ps @ rs) (length (content f) - length (wal_image (ps @ rs)))), w)"
    and le: "length (wal_image (ps @ rs)) \<le> length (content f)"
    and tk: "take (length (wal_image (ps @ rs))) (content f) = wal_image (ps @ rs)" by blast
  let ?t = "length (content f) - length (wal_image (ps @ rs))"
  let ?l = "\<lparr>wal_path = name, wal_options = opts, wal_recovery = recovery_of (ps @ rs) ?t,
     wal_size = length (wal_image (ps @ rs)), wal_lastLSN = of_nat (length (ps @ rs)),
     wal_dirtyRecords = 0, wal_poisoned = None, wal_readOnly = ro, wal_closed = False\<rparr>"
  let ?f = "\<lparr>content = wal_image (ps @ rs), synced = length (wal_image (ps @ rs))\<rparr>"
  let ?w = "if 0 < ?t \<and> \<not> ro then set_file name ?f w else w"
  have op: "openWAL name opts ro (Inr True) w = (Inr ?l, ?w)"
    using name calm f sc tk
    by (simp add: openWAL_def os_Open_def Let_def recovery_of_def file_Truncate_def file_Sync_def
        set_file_def)
  have v: "list_all valid_payload (ps @ rs)" using lf q by (simp add: log_file_def)
  have nt: "\<not> 0 < ?t \<Longrightarrow> content f = wal_image (ps @ rs)" using tk le by simp
  have "length (ps @ rs) < 2 ^ 64" using short q by simp
  then have "\<not> ro \<longrightarrow> wal_holds (ps @ rs) ?l ?w"
    using f nt log_file_self [OF v] by (auto simp: wal_holds_def)
  then show ?thesis using that [of rs ss ?l ?w] q op calm f tk by auto
qed

section \<open>Replay\<close>

text \<open>What a replay does with the payloads of a log, and its client: a function that applies a
  record and, with a context that is never cancelled, leaves the environment alone.\<close>

fun replay_payloads ::
  "(WALRecord \<Rightarrow> 's \<Rightarrow> world \<Rightarrow> go_error option \<times> 's \<times> world) \<Rightarrow> u64 \<Rightarrow> bytes list \<Rightarrow> 's \<Rightarrow> world
     \<Rightarrow> go_error option \<times> 's \<times> world" where
  "replay_payloads apply lsn [] s w = (None, s, w)"
| "replay_payloads apply lsn (p # ps) s w =
     (case apply \<lparr>rec_LSN = lsn, rec_Payload = p\<rparr> s w of
        (Some e, s', w') \<Rightarrow> (Some (Wrap ''db: replay WAL record'' e), s', w')
      | (None, s', w') \<Rightarrow> replay_payloads apply (lsn + 1) ps s' w')"

locale wal_client =
  fixes apply_record :: "WALRecord \<Rightarrow> 's \<Rightarrow> world \<Rightarrow> go_error option \<times> 's \<times> world"
  assumes apply_record_quiet: "polls w = None \<Longrightarrow> snd (snd (apply_record r s w)) = w"
begin

lemma replay_loop:
  assumes "fs w (reader_path r) = Some f" and "polls w = None" and "\<not> reader_closed r"
    and "list_all valid_payload ps"
    and "take (log_size ps) (drop (reader_offset r) (content f)) = encode_records (reader_nextLSN r) ps"
    and "reader_limit r = reader_offset r + log_size ps"
  shows "WAL_Replay_loop apply_record r s w = replay_payloads apply_record (reader_nextLSN r) ps s w"
  using assms
proof (induction ps arbitrary: r s)
  case Nil
  then show ?case by (subst WAL_Replay_loop.simps) (simp add: WALReader_Next_def)
next
  case (Cons p ps)
  let ?k = "32 + length p" and ?o = "reader_offset r"
  have "take ?k (drop ?o (content f)) = take ?k (take (log_size (p # ps)) (drop ?o (content f)))"
    by (simp add: min_def)
  also have "\<dots> = encodeWALRecord (reader_nextLSN r) p" by (simp only: Cons.prems(5)) simp
  finally have ra: "record_at (content f) ?o (reader_nextLSN r) p"
    using Cons.prems(4) by (simp add: record_at_def)
  let ?r = "r\<lparr>reader_offset := ?o + ?k, reader_nextLSN := reader_nextLSN r + 1\<rparr>"
  have nx: "WALReader_Next r w = (Inr \<lparr>rec_LSN = reader_nextLSN r, rec_Payload = p\<rparr>, ?r, w)"
    using Cons.prems readWALRecordAt_Inr [OF ra, of "reader_limit r"] by (simp add: WALReader_Next_def)
  have "take (log_size ps) (drop (?o + ?k) (content f))
      = drop ?k (take (log_size (p # ps)) (drop ?o (content f)))"
    by (simp add: drop_take add.commute)
  also have "\<dots> = encode_records (reader_nextLSN r + 1) ps" by (simp only: Cons.prems(5)) simp
  finally have d: "take (log_size ps) (drop (?o + ?k) (content f)) = encode_records (reader_nextLSN r + 1) ps" .
  obtain e s' where ap: "apply_record \<lparr>rec_LSN = reader_nextLSN r, rec_Payload = p\<rparr> s w = (e, s', w)"
    using apply_record_quiet [OF Cons.prems(2)] by (metis prod.collapse)
  show ?case
    using Cons.IH [of ?r s'] Cons.prems d nx ap
    by (subst WAL_Replay_loop.simps) (simp split: option.splits)
qed

lemma replay:
  assumes f: "fs w (wal_path l) = Some f" and im: "take (length (wal_image ps)) (content f) = wal_image ps"
    and sz: "wal_size l = length (wal_image ps)" and calm: "polls w = None" "outcomes w = []"
    and opn: "\<not> wal_closed l" "wal_poisoned l = None" and v: "list_all valid_payload ps"
  shows "WAL_Replay apply_record l s w = replay_payloads apply_record 1 ps s w"
proof -
  have le: "length (wal_image ps) \<le> length (content f)"
    using arg_cong [OF im, of length] by simp
  have "take 32 (content f) = take 32 (take (length (wal_image ps)) (content f))" by (simp add: min_def)
  also have "\<dots> = encodeWALFileHeader" by (simp only: im) (simp add: wal_image_def)
  finally have h: "ReadFullAt (content f) 0 32 = Inr encodeWALFileHeader"
    using le by (simp add: ReadFullAt_def)
  let ?r = "\<lparr>reader_path = wal_path l, reader_offset = 32, reader_limit = wal_size l,
      reader_nextLSN = 1, reader_closed = False\<rparr>"
  have nr: "WAL_NewReader l w = (Inr ?r, w)"
    using opn calm f h validate_encodeWALFileHeader
    by (simp add: WAL_NewReader_def os_Open_def walFileHeaderSize_def)
  have "take (log_size ps) (drop 32 (content f)) = drop 32 (take (length (wal_image ps)) (content f))"
    by (simp add: drop_take)
  also have "\<dots> = encode_records 1 ps" by (simp only: im) (simp add: wal_image_def)
  finally show ?thesis
    using replay_loop [of w ?r f ps s] f calm v sz nr by (simp add: WAL_Replay_def)
qed

end

end
