(* ===== verification/Write_Engine.thy ===== *)
theory Write_Engine
  imports Segment_Manager Wal_Log
begin

text \<open>
  The write engine, \<open>internal/db/write_engine.go\<close>, and the replay of its log,
  \<open>replayWriteWAL\<close> and \<open>applyRecoveredOperation\<close> of \<open>internal/db/collection.go\<close>.  The engine's
  state is the segment manager it shares with the collection and the log; every operation
  checks, encodes, appends, synchronises and then applies to memory under a context that is
  not cancelled.
\<close>

section \<open>Data\<close>

definition writeOperationVersion :: u16 where "writeOperationVersion = 1"
definition writeOperationHeaderSize :: nat where "writeOperationHeaderSize = 32"
definition writeOperationMagic :: bytes where "writeOperationMagic = [0x5A, 0x4F, 0x50, 0x31]"

definition writeOperationInsert :: u8 where "writeOperationInsert = 1"
definition writeOperationUpsert :: u8 where "writeOperationUpsert = 2"
definition writeOperationUpdate :: u8 where "writeOperationUpdate = 3"
definition writeOperationDelete :: u8 where "writeOperationDelete = 4"

lemmas writeOperationTypes = writeOperationInsert_def writeOperationUpsert_def
  writeOperationUpdate_def writeOperationDelete_def

record writeOperation =
  op_Type :: u8
  op_SegmentID :: u64
  op_DocID :: u64
  op_PrimaryKey :: bytes
  op_Payload :: bytes

record WriteInput =
  in_PrimaryKey :: bytes
  in_Payload :: bytes

record WriteResult =
  wr_PrimaryKey :: bytes
  wr_DocID :: u64
  wr_Err :: "go_error option"

record BatchWriteError =
  Failed :: nat
  causes :: "go_error list"

record WriteEngine =
  eng_manager :: SegmentManager
  eng_wal :: WAL

definition NewWriteEngine :: "SegmentManager \<Rightarrow> WAL \<Rightarrow> WriteEngine result" where
  "NewWriteEngine manager wal =
     (if mgr_writing manager = None then Inl (NewError ''db: segment manager has no writing segment'')
      else Inr \<lparr>eng_manager = manager, eng_wal = wal\<rparr>)"

section \<open>The operation codec\<close>

definition operation_header :: "writeOperation \<Rightarrow> bytes" where
  "operation_header operation =
     writeOperationMagic @ PutUint16 writeOperationVersion @ [op_Type operation, 0]
       @ PutUint64 (op_SegmentID operation) @ PutUint64 (op_DocID operation)
       @ PutUint32 (len32 (op_PrimaryKey operation)) @ PutUint32 (len32 (op_Payload operation))"

definition encodeWriteOperation :: "writeOperation \<Rightarrow> bytes result" where
  "encodeWriteOperation operation =
     (if op_Type operation < writeOperationInsert \<or> writeOperationDelete < op_Type operation
        then Inl (NewError ''db: invalid write operation type'')
      else case validatePrimaryKey (op_PrimaryKey operation) of Some e \<Rightarrow> Inl e | None \<Rightarrow>
      if MaxDocumentPayloadSize < length (op_Payload operation)
        then Inl (NewError ''db: write operation payload is too large'')
      else let header = operation_header operation;
               body = op_PrimaryKey operation @ op_Payload operation;
               crc = UpdateCRC32C (CRC32C header) body in
      Inr (header @ PutUint32 crc @ body))"

definition decodeWriteOperation :: "bytes \<Rightarrow> writeOperation result" where
  "decodeWriteOperation encoded =
     (if length encoded < writeOperationHeaderSize + 4
        then Inl (NewError ''db: truncated write operation'')
      else if take 4 encoded \<noteq> writeOperationMagic
        then Inl (NewError ''db: invalid write operation magic'')
      else if Uint16 (bslice 4 6 encoded) \<noteq> writeOperationVersion
        then Inl (corrupt ErrUnsupportedFormatVersion ''write operation version'')
      else let operationType = encoded ! 6 in
      if operationType < writeOperationInsert \<or> writeOperationDelete < operationType \<or> encoded ! 7 \<noteq> 0
        then Inl (NewError ''db: invalid write operation type or flags'')
      else let keyLength = unat (Uint32 (bslice 24 28 encoded));
               payloadLength = unat (Uint32 (bslice 28 32 encoded)) in
      if keyLength = 0 \<or> maxPrimaryKeyBytes < keyLength \<or> MaxDocumentPayloadSize < payloadLength
           \<or> keyLength + payloadLength \<noteq> length encoded - writeOperationHeaderSize - 4
        then Inl (NewError ''db: invalid write operation lengths'')
      else if UpdateCRC32C (CRC32C (take 32 encoded)) (drop 36 encoded) \<noteq> Uint32 (bslice 32 36 encoded)
        then Inl (NewError ''db: write operation checksum mismatch'')
      else let keyStart = writeOperationHeaderSize + 4;
               key = bslice keyStart (keyStart + keyLength) encoded in
      case validatePrimaryKey key of Some e \<Rightarrow> Inl e | None \<Rightarrow>
      Inr \<lparr>op_Type = operationType, op_SegmentID = Uint64 (bslice 8 16 encoded),
           op_DocID = Uint64 (bslice 16 24 encoded), op_PrimaryKey = key,
           op_Payload = drop (keyStart + keyLength) encoded\<rparr>)"

section \<open>Shared objects of the manager\<close>

text \<open>Calls on the write segment, the key map and the deletion set that the manager shares with
  its clients.\<close>

definition writing_AppendExpected ::
  "u64 \<Rightarrow> bytes \<Rightarrow> bytes \<Rightarrow> SegmentManager \<Rightarrow> world \<Rightarrow> StoredDocument result \<times> SegmentManager \<times> world" where
  "writing_AppendExpected docID key payload m w =
     (case mgr_writing m of
        None \<Rightarrow> (Inl (NewError ''db: nil write segment''), m, w)
      | Some ws \<Rightarrow> (case WriteSegment_AppendExpected docID key payload ws w of
           (r, ws, w) \<Rightarrow> (r, m\<lparr>mgr_writing := Some ws\<rparr>, w)))"

definition keys_Put ::
  "bytes \<Rightarrow> DocumentLocation \<Rightarrow> SegmentManager \<Rightarrow> world
     \<Rightarrow> DocumentLocation option result \<times> SegmentManager \<times> world" where
  "keys_Put key location m w =
     (case PrimaryKeyMap_Put key location (mgr_primaryKey m) w of
        (r, p, w) \<Rightarrow> (r, m\<lparr>mgr_primaryKey := p\<rparr>, w))"

definition keys_Delete ::
  "bytes \<Rightarrow> SegmentManager \<Rightarrow> world \<Rightarrow> DocumentLocation option result \<times> SegmentManager \<times> world" where
  "keys_Delete key m w =
     (case PrimaryKeyMap_Delete key (mgr_primaryKey m) w of
        (r, p, w) \<Rightarrow> (r, m\<lparr>mgr_primaryKey := p\<rparr>, w))"

definition deletes_MarkDeleted ::
  "u64 \<Rightarrow> SegmentManager \<Rightarrow> world \<Rightarrow> bool result \<times> SegmentManager \<times> world" where
  "deletes_MarkDeleted docID m w =
     (case DeleteStore_MarkDeleted docID (mgr_deletes m) w of
        (r, d, w) \<Rightarrow> (r, m\<lparr>mgr_deletes := d\<rparr>, w))"

section \<open>One write\<close>

text \<open>The lines every write has: encode the operation, append it to the log, synchronise.\<close>

definition log_operation ::
  "writeOperation \<Rightarrow> WriteEngine \<Rightarrow> world \<Rightarrow> go_error option \<times> WriteEngine \<times> world" where
  "log_operation operation e w =
     (case encodeWriteOperation operation of Inl err \<Rightarrow> (Some err, e, w) | Inr encoded \<Rightarrow>
      case WAL_Append encoded (eng_wal e) w of ((_, err), l, w) \<Rightarrow>
      let e = e\<lparr>eng_wal := l\<rparr> in
      case err of Some err \<Rightarrow> (Some err, e, w) | None \<Rightarrow>
      case WAL_Sync (eng_wal e) w of (err, l, w) \<Rightarrow> (err, e\<lparr>eng_wal := l\<rparr>, w))"

text \<open>The result of a computation on the manager under \<open>context.WithoutCancel\<close>: the caller's
  context is as it was.\<close>

definition finish ::
  "WriteEngine \<Rightarrow> world \<Rightarrow> 'a result \<times> SegmentManager \<times> world \<Rightarrow> 'a result \<times> WriteEngine \<times> world" where
  "finish e w x = (case x of (r, m, w') \<Rightarrow> (r, e\<lparr>eng_manager := m\<rparr>, w'\<lparr>polls := polls w\<rparr>))"

text \<open>Memory after the log: append the document, mark the previous version, map the key.\<close>

definition apply_put ::
  "bytes \<Rightarrow> u64 \<Rightarrow> bytes \<Rightarrow> DocumentLocation option \<Rightarrow> u64 \<Rightarrow> SegmentManager \<Rightarrow> world
     \<Rightarrow> u64 result \<times> SegmentManager \<times> world" where
  "apply_put key docID payload previous segmentID m w =
     (case writing_AppendExpected docID key payload m w of
        (Inl err, m, w) \<Rightarrow> (Inl (Wrap ''db: apply WAL write'' err), m, w)
      | (Inr doc, m, w) \<Rightarrow>
      case (case previous of None \<Rightarrow> (Inr False, m, w) | Some l \<Rightarrow> deletes_MarkDeleted (DocID l) m w) of
        (Inl err, m, w) \<Rightarrow> (Inl (Wrap ''db: delete prior version'' err), m, w)
      | (Inr _, m, w) \<Rightarrow>
      case keys_Put key \<lparr>SegmentID = segmentID, DocID = doc_DocID doc\<rparr> m w of
        (Inl err, m, w) \<Rightarrow> (Inl (Wrap ''db: index WAL write'' err), m, w)
      | (Inr _, m, w) \<Rightarrow> (Inr (doc_DocID doc), m, w))"

definition insertOneLocked ::
  "WriteInput \<Rightarrow> WriteEngine \<Rightarrow> world \<Rightarrow> u64 result \<times> WriteEngine \<times> world" where
  "insertOneLocked input e w =
     (case validatePrimaryKey (in_PrimaryKey input) of Some err \<Rightarrow> (Inl err, e, w) | None \<Rightarrow>
      if MaxDocumentPayloadSize < length (in_Payload input)
        then (Inl (NewError ''db: document payload bytes''), e, w)
      else if PrimaryKeyMap_Get (in_PrimaryKey input) (mgr_primaryKey (eng_manager e)) \<noteq> None
        then (Inl (corrupt ErrPrimaryKeyExists ''key''), e, w)
      else case mgr_writing (eng_manager e) of
        None \<Rightarrow> (Inl (NewError ''db: no writing segment''), e, w)
      | Some writing \<Rightarrow>
      case WriteSegment_NextDocumentID writing of Inl err \<Rightarrow> (Inl err, e, w) | Inr docID \<Rightarrow>
      case log_operation
          \<lparr>op_Type = writeOperationInsert, op_SegmentID = ws_id writing, op_DocID = docID,
           op_PrimaryKey = in_PrimaryKey input, op_Payload = in_Payload input\<rparr> e w of
        (Some err, e, w) \<Rightarrow> (Inl err, e, w)
      | (None, e, w) \<Rightarrow>
      finish e w (apply_put (in_PrimaryKey input) docID (in_Payload input) None (ws_id writing)
                    (eng_manager e) (without_cancel w)))"

definition upsertOneLocked ::
  "WriteInput \<Rightarrow> WriteEngine \<Rightarrow> world \<Rightarrow> u64 result \<times> WriteEngine \<times> world" where
  "upsertOneLocked input e w =
     (case validatePrimaryKey (in_PrimaryKey input) of Some err \<Rightarrow> (Inl err, e, w) | None \<Rightarrow>
      if MaxDocumentPayloadSize < length (in_Payload input)
        then (Inl (NewError ''db: document payload bytes''), e, w)
      else let previous = PrimaryKeyMap_Get (in_PrimaryKey input) (mgr_primaryKey (eng_manager e)) in
      case mgr_writing (eng_manager e) of
        None \<Rightarrow> (Inl (NewError ''db: no writing segment''), e, w)
      | Some writing \<Rightarrow>
      case WriteSegment_NextDocumentID writing of Inl err \<Rightarrow> (Inl err, e, w) | Inr docID \<Rightarrow>
      case log_operation
          \<lparr>op_Type = writeOperationUpsert, op_SegmentID = ws_id writing, op_DocID = docID,
           op_PrimaryKey = in_PrimaryKey input, op_Payload = in_Payload input\<rparr> e w of
        (Some err, e, w) \<Rightarrow> (Inl err, e, w)
      | (None, e, w) \<Rightarrow>
      finish e w (apply_put (in_PrimaryKey input) docID (in_Payload input) previous (ws_id writing)
                    (eng_manager e) (without_cancel w)))"

definition updateOneLocked ::
  "WriteInput \<Rightarrow> WriteEngine \<Rightarrow> world \<Rightarrow> u64 result \<times> WriteEngine \<times> world" where
  "updateOneLocked input e w =
     (case validatePrimaryKey (in_PrimaryKey input) of Some err \<Rightarrow> (Inl err, e, w) | None \<Rightarrow>
      if MaxDocumentPayloadSize < length (in_Payload input)
        then (Inl (NewError ''db: document payload bytes''), e, w)
      else case PrimaryKeyMap_Get (in_PrimaryKey input) (mgr_primaryKey (eng_manager e)) of
        None \<Rightarrow> (Inl (corrupt ErrPrimaryKeyNotFound ''key''), e, w)
      | Some previous \<Rightarrow>
      case mgr_writing (eng_manager e) of
        None \<Rightarrow> (Inl (NewError ''db: no writing segment''), e, w)
      | Some writing \<Rightarrow>
      case WriteSegment_NextDocumentID writing of Inl err \<Rightarrow> (Inl err, e, w) | Inr docID \<Rightarrow>
      case log_operation
          \<lparr>op_Type = writeOperationUpdate, op_SegmentID = ws_id writing, op_DocID = docID,
           op_PrimaryKey = in_PrimaryKey input, op_Payload = in_Payload input\<rparr> e w of
        (Some err, e, w) \<Rightarrow> (Inl err, e, w)
      | (None, e, w) \<Rightarrow>
      finish e w (apply_put (in_PrimaryKey input) docID (in_Payload input) (Some previous) (ws_id writing)
                    (eng_manager e) (without_cancel w)))"

definition apply_delete ::
  "bytes \<Rightarrow> DocumentLocation \<Rightarrow> SegmentManager \<Rightarrow> world \<Rightarrow> u64 result \<times> SegmentManager \<times> world" where
  "apply_delete key location m w =
     (case deletes_MarkDeleted (DocID location) m w of
        (Inl err, m, w) \<Rightarrow> (Inl (Wrap ''db: apply WAL delete'' err), m, w)
      | (Inr _, m, w) \<Rightarrow>
      case keys_Delete key m w of
        (Inl err, m, w) \<Rightarrow> (Inl (Wrap ''db: remove deleted primary key'' err), m, w)
      | (Inr removed, m, w) \<Rightarrow>
      if removed \<noteq> Some location
        then (Inl (NewError ''db: primary-key map changed while applying delete''), m, w)
      else (Inr (DocID location), m, w))"

definition deleteOneLocked ::
  "bytes \<Rightarrow> WriteEngine \<Rightarrow> world \<Rightarrow> u64 result \<times> WriteEngine \<times> world" where
  "deleteOneLocked primaryKey e w =
     (case validatePrimaryKey primaryKey of Some err \<Rightarrow> (Inl err, e, w) | None \<Rightarrow>
      case PrimaryKeyMap_Get primaryKey (mgr_primaryKey (eng_manager e)) of
        None \<Rightarrow> (Inl (corrupt ErrPrimaryKeyNotFound ''key''), e, w)
      | Some location \<Rightarrow>
      case log_operation
          \<lparr>op_Type = writeOperationDelete, op_SegmentID = SegmentID location, op_DocID = DocID location,
           op_PrimaryKey = primaryKey, op_Payload = []\<rparr> e w of
        (Some err, e, w) \<Rightarrow> (Inl err, e, w)
      | (None, e, w) \<Rightarrow>
      finish e w (apply_delete primaryKey location (eng_manager e) (without_cancel w)))"

section \<open>Batches\<close>

text \<open>The loop of the four batch methods: \<open>key_of\<close> reads the key of an input and \<open>one\<close> is the
  single write.  A cancelled context fails the input and all that follow.\<close>

fun batch_loop ::
  "('i \<Rightarrow> bytes) \<Rightarrow> ('i \<Rightarrow> WriteEngine \<Rightarrow> world \<Rightarrow> u64 result \<times> WriteEngine \<times> world)
     \<Rightarrow> 'i list \<Rightarrow> WriteEngine \<Rightarrow> world \<Rightarrow> WriteResult list \<times> WriteEngine \<times> world" where
  "batch_loop key_of one [] e w = ([], e, w)"
| "batch_loop key_of one (input # inputs) e w =
     (case ctx_Err w of
        (Some err, w) \<Rightarrow>
          (map (\<lambda>i. \<lparr>wr_PrimaryKey = key_of i, wr_DocID = 0, wr_Err = Some err\<rparr>) (input # inputs), e, w)
      | (None, w) \<Rightarrow>
      case one input e w of (r, e, w) \<Rightarrow>
      let result = (case r of
            Inl err \<Rightarrow> \<lparr>wr_PrimaryKey = key_of input, wr_DocID = 0, wr_Err = Some err\<rparr>
          | Inr docID \<Rightarrow> \<lparr>wr_PrimaryKey = key_of input, wr_DocID = docID, wr_Err = None\<rparr>) in
      case batch_loop key_of one inputs e w of (results, e, w) \<Rightarrow> (result # results, e, w))"

definition BatchWriteError_add :: "go_error \<Rightarrow> BatchWriteError \<Rightarrow> BatchWriteError" where
  "BatchWriteError_add err b = b\<lparr>Failed := Failed b + 1, causes := causes b @ [err]\<rparr>"

definition batch_error :: "WriteResult list \<Rightarrow> BatchWriteError" where
  "batch_error results =
     foldl (\<lambda>b r. case wr_Err r of None \<Rightarrow> b | Some err \<Rightarrow> BatchWriteError_add err b)
       \<lparr>Failed = 0, causes = []\<rparr> results"

text \<open>A batch answers with the error of an empty batch, or with the results and the batch error
  when there was a failure.\<close>

type_synonym batch_answer = "(WriteResult list \<times> BatchWriteError option) result"

definition run_batch ::
  "('i \<Rightarrow> bytes) \<Rightarrow> ('i \<Rightarrow> WriteEngine \<Rightarrow> world \<Rightarrow> u64 result \<times> WriteEngine \<times> world)
     \<Rightarrow> 'i list \<Rightarrow> WriteEngine \<Rightarrow> world \<Rightarrow> batch_answer \<times> WriteEngine \<times> world" where
  "run_batch key_of one inputs e w =
     (if inputs = [] then (Inl (NewError ''db: batch is empty''), e, w)
      else case batch_loop key_of one inputs e w of (results, e, w) \<Rightarrow>
      let batchError = batch_error results in
      (Inr (results, if 0 < Failed batchError then Some batchError else None), e, w))"

definition WriteEngine_Insert :: "WriteInput list \<Rightarrow> WriteEngine \<Rightarrow> world \<Rightarrow> batch_answer \<times> WriteEngine \<times> world" where
  "WriteEngine_Insert = run_batch in_PrimaryKey insertOneLocked"

definition WriteEngine_Upsert :: "WriteInput list \<Rightarrow> WriteEngine \<Rightarrow> world \<Rightarrow> batch_answer \<times> WriteEngine \<times> world" where
  "WriteEngine_Upsert = run_batch in_PrimaryKey upsertOneLocked"

definition WriteEngine_Update :: "WriteInput list \<Rightarrow> WriteEngine \<Rightarrow> world \<Rightarrow> batch_answer \<times> WriteEngine \<times> world" where
  "WriteEngine_Update = run_batch in_PrimaryKey updateOneLocked"

definition WriteEngine_Delete :: "bytes list \<Rightarrow> WriteEngine \<Rightarrow> world \<Rightarrow> batch_answer \<times> WriteEngine \<times> world" where
  "WriteEngine_Delete = run_batch (\<lambda>k. k) deleteOneLocked"

section \<open>Replay of the log\<close>

text \<open>The three branches of the switch of \<open>applyRecoveredOperation\<close>.\<close>

definition recover_insert ::
  "writeOperation \<Rightarrow> SegmentManager \<Rightarrow> world \<Rightarrow> go_error option \<times> SegmentManager \<times> world" where
  "recover_insert operation m w =
     (if PrimaryKeyMap_Get (op_PrimaryKey operation) (mgr_primaryKey m) \<noteq> None
        then (Some (Sentinel ErrPrimaryKeyExists), m, w)
      else case writing_AppendExpected (op_DocID operation) (op_PrimaryKey operation) (op_Payload operation) m w of
        (Inl err, m, w) \<Rightarrow> (Some err, m, w)
      | (Inr _, m, w) \<Rightarrow>
      case keys_Put (op_PrimaryKey operation)
             \<lparr>SegmentID = op_SegmentID operation, DocID = op_DocID operation\<rparr> m w of
        (Inl err, m, w) \<Rightarrow> (Some err, m, w)
      | (Inr _, m, w) \<Rightarrow> (None, m, w))"

definition recover_replace ::
  "writeOperation \<Rightarrow> SegmentManager \<Rightarrow> world \<Rightarrow> go_error option \<times> SegmentManager \<times> world" where
  "recover_replace operation m w =
     (let previous = PrimaryKeyMap_Get (op_PrimaryKey operation) (mgr_primaryKey m) in
      if op_Type operation = writeOperationUpdate \<and> previous = None
        then (Some (Sentinel ErrPrimaryKeyNotFound), m, w)
      else case writing_AppendExpected (op_DocID operation) (op_PrimaryKey operation) (op_Payload operation) m w of
        (Inl err, m, w) \<Rightarrow> (Some err, m, w)
      | (Inr _, m, w) \<Rightarrow>
      case (case previous of None \<Rightarrow> (Inr False, m, w) | Some l \<Rightarrow> deletes_MarkDeleted (DocID l) m w) of
        (Inl err, m, w) \<Rightarrow> (Some err, m, w)
      | (Inr _, m, w) \<Rightarrow>
      case keys_Put (op_PrimaryKey operation)
             \<lparr>SegmentID = op_SegmentID operation, DocID = op_DocID operation\<rparr> m w of
        (Inl err, m, w) \<Rightarrow> (Some err, m, w)
      | (Inr _, m, w) \<Rightarrow> (None, m, w))"

definition recover_delete ::
  "writeOperation \<Rightarrow> SegmentManager \<Rightarrow> world \<Rightarrow> go_error option \<times> SegmentManager \<times> world" where
  "recover_delete operation m w =
     (if op_Payload operation \<noteq> [] then (Some (NewError ''delete operation contains a payload''), m, w)
      else if PrimaryKeyMap_Get (op_PrimaryKey operation) (mgr_primaryKey m)
                \<noteq> Some \<lparr>SegmentID = op_SegmentID operation, DocID = op_DocID operation\<rparr>
        then (Some (Sentinel ErrPrimaryKeyNotFound), m, w)
      else case deletes_MarkDeleted (op_DocID operation) m w of
        (Inl err, m, w) \<Rightarrow> (Some err, m, w)
      | (Inr _, m, w) \<Rightarrow>
      case keys_Delete (op_PrimaryKey operation) m w of
        (Inl err, m, w) \<Rightarrow> (Some err, m, w)
      | (Inr None, m, w) \<Rightarrow> (Some (Sentinel ErrPrimaryKeyNotFound), m, w)
      | (Inr (Some _), m, w) \<Rightarrow> (None, m, w))"

definition applyRecoveredOperation ::
  "writeOperation \<Rightarrow> SegmentManager \<Rightarrow> world \<Rightarrow> go_error option \<times> SegmentManager \<times> world" where
  "applyRecoveredOperation operation m w =
     (if op_Type operation \<noteq> writeOperationDelete
           \<and> (case mgr_writing m of None \<Rightarrow> True | Some writing \<Rightarrow> op_SegmentID operation \<noteq> ws_id writing)
        then (Some (NewError ''operation targets writing segment''), m, w)
      else if op_Type operation = writeOperationInsert then recover_insert operation m w
      else if op_Type operation = writeOperationUpsert \<or> op_Type operation = writeOperationUpdate
        then recover_replace operation m w
      else if op_Type operation = writeOperationDelete then recover_delete operation m w
      else (Some (NewError ''unknown write operation''), m, w))"

text \<open>The function that \<open>replayWriteWAL\<close> hands to \<open>Replay\<close>.\<close>

definition replay_record ::
  "WALRecord \<Rightarrow> SegmentManager \<Rightarrow> world \<Rightarrow> go_error option \<times> SegmentManager \<times> world" where
  "replay_record r m w =
     (case decodeWriteOperation (rec_Payload r) of
        Inl _ \<Rightarrow> (Some (corrupt ErrWALCorrupt ''decode operation''), m, w)
      | Inr operation \<Rightarrow>
      case applyRecoveredOperation operation m w of
        (Some _, m, w) \<Rightarrow> (Some (corrupt ErrWALCorrupt ''apply operation''), m, w)
      | (None, m, w) \<Rightarrow> (None, m, w))"

definition replayWriteWAL :: "WAL \<Rightarrow> SegmentManager \<Rightarrow> world \<Rightarrow> go_error option \<times> SegmentManager \<times> world" where
  "replayWriteWAL wal manager w = WAL_Replay replay_record wal manager w"

section \<open>The codec\<close>

lemma length_operation_header [simp]: "length (operation_header op) = 32"
  by (simp add: operation_header_def writeOperationMagic_def)

lemma encodeWriteOperation_Inr:
  "encodeWriteOperation op = Inr e \<longleftrightarrow>
     (writeOperationInsert \<le> op_Type op \<and> op_Type op \<le> writeOperationDelete
       \<and> validatePrimaryKey (op_PrimaryKey op) = None \<and> length (op_Payload op) \<le> MaxDocumentPayloadSize
       \<and> e = operation_header op
           @ PutUint32 (UpdateCRC32C (CRC32C (operation_header op)) (op_PrimaryKey op @ op_Payload op))
           @ op_PrimaryKey op @ op_Payload op)"
  by (auto simp: encodeWriteOperation_def Let_def not_less split: option.splits)

lemma operation_header_fields:
  "take 4 (operation_header op @ xs) = writeOperationMagic"
  "Uint16 (bslice 4 6 (operation_header op @ xs)) = writeOperationVersion"
  "(operation_header op @ xs) ! 6 = op_Type op" "(operation_header op @ xs) ! 7 = 0"
  "Uint64 (bslice 8 16 (operation_header op @ xs)) = op_SegmentID op"
  "Uint64 (bslice 16 24 (operation_header op @ xs)) = op_DocID op"
  "Uint32 (bslice 24 28 (operation_header op @ xs)) = len32 (op_PrimaryKey op)"
  "Uint32 (bslice 28 32 (operation_header op @ xs)) = len32 (op_Payload op)"
  by (simp_all add: operation_header_def writeOperationMagic_def bslice_def nth_append)

lemma decode_encodeWriteOperation:
  assumes "encodeWriteOperation op = Inr e"
  shows "decodeWriteOperation e = Inr op"
proof -
  let ?body = "op_PrimaryKey op @ op_Payload op"
  let ?crc = "UpdateCRC32C (CRC32C (operation_header op)) ?body"
  have t: "\<not> (op_Type op < writeOperationInsert \<or> writeOperationDelete < op_Type op)"
    and k: "validatePrimaryKey (op_PrimaryKey op) = None"
    and p: "length (op_Payload op) \<le> MaxDocumentPayloadSize" and e: "e = operation_header op @ PutUint32 ?crc @ ?body"
    using assms by (auto simp: encodeWriteOperation_Inr not_less)
  have len: "unat (len32 (op_PrimaryKey op)) = length (op_PrimaryKey op)"
    "unat (len32 (op_Payload op)) = length (op_Payload op)"
    using k p by (simp_all add: unat_valid_key unat_len32 MaxDocumentPayloadSize_def)
  have key: "length (op_PrimaryKey op) \<noteq> 0" "\<not> maxPrimaryKeyBytes < length (op_PrimaryKey op)"
    using k by (auto simp: validatePrimaryKey_None)
  have sl: "bslice 32 36 e = PutUint32 ?crc" "drop 36 e = ?body" "take 32 e = operation_header op"
    "bslice 36 (36 + length (op_PrimaryKey op)) e = op_PrimaryKey op"
    "drop (36 + length (op_PrimaryKey op)) e = op_Payload op" "length e = 36 + length ?body"
    by (simp_all add: e bslice_def)
  have f: "take 4 e = writeOperationMagic" "Uint16 (bslice 4 6 e) = writeOperationVersion" "e ! 6 = op_Type op"
    "e ! 7 = 0" "Uint64 (bslice 8 16 e) = op_SegmentID op" "Uint64 (bslice 16 24 e) = op_DocID op"
    "Uint32 (bslice 24 28 e) = len32 (op_PrimaryKey op)" "Uint32 (bslice 28 32 e) = len32 (op_Payload op)"
    unfolding e by (rule operation_header_fields)+
  have op: "\<lparr>op_Type = op_Type op, op_SegmentID = op_SegmentID op, op_DocID = op_DocID op,
      op_PrimaryKey = op_PrimaryKey op, op_Payload = op_Payload op\<rparr> = op" by simp
  show ?thesis using t k p key
    by (simp add: decodeWriteOperation_def Let_def writeOperationHeaderSize_def f sl len op)
qed

text \<open>Decoding accepts exactly the encodings.\<close>

lemma decodeWriteOperation_exact:
  assumes "decodeWriteOperation e = Inr op"
  shows "encodeWriteOperation op = Inr e"
proof -
  let ?kl = "unat (Uint32 (bslice 24 28 e))" and ?pl = "unat (Uint32 (bslice 28 32 e))"
  have le: "36 \<le> length e" and magic: "take 4 e = writeOperationMagic"
    and ver: "Uint16 (bslice 4 6 e) = writeOperationVersion"
    and t: "writeOperationInsert \<le> e ! 6" "e ! 6 \<le> writeOperationDelete" "e ! 7 = 0"
    and kl: "?kl \<noteq> 0" "?kl \<le> maxPrimaryKeyBytes" "?pl \<le> MaxDocumentPayloadSize" "?kl + ?pl = length e - 36"
    and crc: "UpdateCRC32C (CRC32C (take 32 e)) (drop 36 e) = Uint32 (bslice 32 36 e)"
    and key: "validatePrimaryKey (bslice 36 (36 + ?kl) e) = None"
    and op: "op = \<lparr>op_Type = e ! 6, op_SegmentID = Uint64 (bslice 8 16 e), op_DocID = Uint64 (bslice 16 24 e),
      op_PrimaryKey = bslice 36 (36 + ?kl) e, op_Payload = drop (36 + ?kl) e\<rparr>"
    using assms by (auto simp: decodeWriteOperation_def Let_def writeOperationHeaderSize_def not_less
        split: if_splits option.splits)
  have lens: "length (op_PrimaryKey op) = ?kl" "length (op_Payload op) = ?pl"
    using op kl(4) le by simp_all
  then have l32: "len32 (op_PrimaryKey op) = Uint32 (bslice 24 28 e)" "len32 (op_Payload op) = Uint32 (bslice 28 32 e)"
    by (simp_all add: len32_def)
  have ty: "[op_Type op, 0] = bslice 6 8 e"
  proof -
    have "bslice 6 8 e = [e ! 6, e ! 7]" using le
      by (intro nth_equalityI) (auto simp: bslice_def less_Suc_eq numeral_2_eq_2)
    then show ?thesis using t(3) op by simp
  qed
  have put: "PutUint16 writeOperationVersion = bslice 4 6 e" "PutUint64 (op_SegmentID op) = bslice 8 16 e"
    "PutUint64 (op_DocID op) = bslice 16 24 e" "PutUint32 (Uint32 (bslice 24 28 e)) = bslice 24 28 e"
    "PutUint32 (Uint32 (bslice 28 32 e)) = bslice 28 32 e"
    "PutUint32 (UpdateCRC32C (CRC32C (take 32 e)) (drop 36 e)) = bslice 32 36 e"
    using PutUint16_Uint16 [of "bslice 4 6 e"] PutUint64_Uint64 [of "bslice 8 16 e"]
      PutUint64_Uint64 [of "bslice 16 24 e"] PutUint32_Uint32 [of "bslice 24 28 e"]
      PutUint32_Uint32 [of "bslice 28 32 e"] PutUint32_Uint32 [of "bslice 32 36 e"] ver crc op le by simp_all
  have m: "writeOperationMagic = bslice 0 4 e" using magic by (simp add: bslice_0_take)
  have h: "operation_header op = bslice 0 32 e"
    by (simp only: operation_header_def m put ty l32) (simp add: bslice_glue)
  have body: "op_PrimaryKey op @ op_Payload op = drop 36 e"
  proof -
    have "drop (36 + ?kl) e = drop ?kl (drop 36 e)" by (simp only: drop_drop add.commute)
    then show ?thesis using op by (simp only: writeOperation.select_convs bslice_def diff_add_inverse append_take_drop_id)
  qed
  have "bslice 0 32 e @ bslice 32 36 e @ drop 36 e = e"
    by (simp add: bslice_glue append_assoc [symmetric] del: append_assoc) (simp add: bslice_0_take)
  then have e: "e = operation_header op @ PutUint32 (UpdateCRC32C (CRC32C (operation_header op)) (op_PrimaryKey op @ op_Payload op))
      @ op_PrimaryKey op @ op_Payload op" by (simp add: h body bslice_0_take put)
  have "op_Type op = e ! 6" "validatePrimaryKey (op_PrimaryKey op) = None" using op key by simp_all
  then show ?thesis using t kl(3) lens(2) e unfolding encodeWriteOperation_Inr by simp
qed

end
