(* ===== verification/Engine_Versions.thy ===== *)
theory Engine_Versions
  imports Write_Engine
begin

text \<open>
  What a write does to the manager.  \<open>put_version\<close> and \<open>remove_version\<close> are the effects as
  functions; they keep the invariant \<open>mgr_ok\<close>, and both the engine and the replay of its log
  compute them, on every manager that satisfies the invariant.
\<close>

section \<open>New versions and removals\<close>

text \<open>The effect of a write and of a delete on the manager, as functions.\<close>

definition put_version :: "bytes \<Rightarrow> bytes \<Rightarrow> WriteSegment \<Rightarrow> u64 \<Rightarrow> SegmentManager \<Rightarrow> SegmentManager" where
  "put_version k p ws d m = m\<lparr>
     mgr_writing := Some (ws\<lparr>ws_docs := ws_docs ws @ [\<lparr>doc_DocID = d, doc_PrimaryKey = k, doc_Payload = p\<rparr>]\<rparr>),
     mgr_primaryKey := (mgr_primaryKey m)\<lparr>entries :=
       AList.update k \<lparr>SegmentID = ws_id ws, DocID = d\<rparr> (entries (mgr_primaryKey m))\<rparr>,
     mgr_deletes := (case PrimaryKeyMap_Get k (mgr_primaryKey m) of
        None \<Rightarrow> mgr_deletes m
      | Some l \<Rightarrow> (mgr_deletes m)\<lparr>deleted := List.insert (DocID l) (deleted (mgr_deletes m))\<rparr>)\<rparr>"

definition remove_version :: "bytes \<Rightarrow> DocumentLocation \<Rightarrow> SegmentManager \<Rightarrow> SegmentManager" where
  "remove_version k l m = m\<lparr>
     mgr_primaryKey := (mgr_primaryKey m)\<lparr>entries := AList.delete k (entries (mgr_primaryKey m))\<rparr>,
     mgr_deletes := (mgr_deletes m)\<lparr>deleted := List.insert (DocID l) (deleted (mgr_deletes m))\<rparr>\<rparr>"

definition mgr_ok :: "SegmentManager \<Rightarrow> bool" where
  "mgr_ok m \<longleftrightarrow> mgr_wf m \<and> mgr_indexed m \<and> mgr_ordered m \<and> mgr_known m"

text \<open>The map from keys to payloads that a manager represents.\<close>

definition mgr_kv :: "SegmentManager \<Rightarrow> bytes \<Rightarrow> bytes option" where
  "mgr_kv m k = map_option doc_Payload (SegmentManager_DocumentByPrimaryKey k m)"

lemma mgr_okD: "mgr_ok m \<Longrightarrow> mgr_wf m" "mgr_ok m \<Longrightarrow> mgr_indexed m" "mgr_ok m \<Longrightarrow> mgr_ordered m" "mgr_ok m \<Longrightarrow> mgr_known m"
  by (auto simp: mgr_ok_def)

lemma mgr_wf_writing: "mgr_wf m \<Longrightarrow> mgr_writing m = Some ws \<Longrightarrow> writing_wf (mgr_immutable m) ws \<and> ws_wf ws"
  by (auto simp: mgr_wf_def writing_wf_def)

lemma NextDocumentID_future:
  assumes "ws_wf ws" and "WriteSegment_NextDocumentID ws = Inr d"
  shows "future ws d" "d = ws_minDocID ws + len64 (ws_docs ws)"
    "unat d = unat (ws_minDocID ws) + length (ws_docs ws)" "length (ws_docs ws) < unat (ws_maxDocs ws)"
proof -
  show d: "d = ws_minDocID ws + len64 (ws_docs ws)"
    using assms(2) by (auto simp: WriteSegment_NextDocumentID_def split: if_splits)
  have "len64 (ws_docs ws) < ws_maxDocs ws"
    using assms(2) by (auto simp: WriteSegment_NextDocumentID_def not_le split: if_splits)
  then show l: "length (ws_docs ws) < unat (ws_maxDocs ws)"
    using ws_wf_lengths(1) [OF assms(1)] by (simp add: word_less_nat_alt)
  then have "unat (ws_minDocID ws) + length (ws_docs ws) < 2 ^ 64" using assms(1) by (simp add: ws_wf_def)
  then show u: "unat d = unat (ws_minDocID ws) + length (ws_docs ws)"
    using ws_wf_lengths(1) [OF assms(1)] by (simp add: d unat_word_ariths(1))
  show "future ws d" using u l by (simp add: future_def)
qed

lemma writing_docs_Some: "mgr_writing m = Some ws \<Longrightarrow> writing_docs m = ws_docs ws"
  by (simp add: writing_docs_def)

lemma future_fresh:
  assumes wf: "mgr_wf m" and ws: "mgr_writing m = Some ws" and f: "future ws d" and x: "x \<in> set (mgr_docs m)"
  shows "doc_DocID x \<noteq> d"
proof
  assume d: "doc_DocID x = d"
  note w = mgr_wf_writing [OF wf ws]
  have rng: "d \<in> ws_range ws"
    using f ws_wf_reserved(2) [of ws] w
    by (auto simp: future_def ws_range_def word_le_nat_alt WriteSegment_ReservedRange_def)
  consider (imm) i s where "(i, s) \<in> set (mgr_immutable m)" "x \<in> set (imm_docs s)" | (wr) "x \<in> set (ws_docs ws)"
    using x writing_docs_Some [OF ws] unfolding set_mgr_docs by auto
  then show False
  proof cases
    case imm
    then have "imm_wf s" using wf immutables_wf_member by (auto simp: mgr_wf_def)
    then show False using imm_docs_range [of s x] imm w rng d by (auto simp: writing_wf_def)
  next
    case wr
    then show False using ws_docs_range [of ws x] w f d by (simp add: future_def)
  qed
qed

lemma future_location_fresh:
  assumes ok: "mgr_ok m" and ws: "mgr_writing m = Some ws" and f: "future ws d"
  shows "\<lparr>SegmentID = i, DocID = d\<rparr> \<notin> snd ` set (entries (mgr_primaryKey m))"
proof
  assume "\<lparr>SegmentID = i, DocID = d\<rparr> \<in> snd ` set (entries (mgr_primaryKey m))"
  then obtain k where "(k, \<lparr>SegmentID = i, DocID = d\<rparr>) \<in> set (entries (mgr_primaryKey m))" by auto
  then have "PrimaryKeyMap_Get k (mgr_primaryKey m) = Some \<lparr>SegmentID = i, DocID = d\<rparr>"
    using mgr_okD(1) [OF ok] by (simp add: PrimaryKeyMap_Get_def mgr_wf_def pk_wf_def)
  from mgr_indexed_Get [OF mgr_okD(2) [OF ok] this] obtain x where
    "x \<in> set (segment_docs i m)" "doc_DocID x = d" by auto
  then show False using future_fresh [OF mgr_okD(1) [OF ok] ws f] segment_docs_subset by blast
qed

lemma put_version_simps:
  fixes d k p
  assumes "mgr_writing m = Some ws"
  defines "x \<equiv> \<lparr>doc_DocID = d, doc_PrimaryKey = k, doc_Payload = p\<rparr>" and "m' \<equiv> put_version k p ws d m"
  shows "mgr_immutable m' = mgr_immutable m" "set (mgr_docs m') = insert x (set (mgr_docs m))"
    "set (segment_docs i m') = (if i = ws_id ws then insert x (set (segment_docs i m)) else set (segment_docs i m))"
    "PrimaryKeyMap_Get k' (mgr_primaryKey m') =
       (if k' = k then Some \<lparr>SegmentID = ws_id ws, DocID = d\<rparr> else PrimaryKeyMap_Get k' (mgr_primaryKey m))"
    "DeleteStore_IsDeleted d' (mgr_deletes m') \<longleftrightarrow> DeleteStore_IsDeleted d' (mgr_deletes m)
       \<or> (\<exists>l. PrimaryKeyMap_Get k (mgr_primaryKey m) = Some l \<and> d' = DocID l)"
    "mgr_writing m' = Some (ws\<lparr>ws_docs := ws_docs ws @ [x]\<rparr>)"
  using assms
  by (auto simp: put_version_def mgr_docs_def writing_docs_def segment_docs_def PrimaryKeyMap_Get_def
      update_conv DeleteStore_IsDeleted_def split: option.splits)

lemma put_version_wf:
  assumes ok: "mgr_ok m" and ws: "mgr_writing m = Some ws" and d: "WriteSegment_NextDocumentID ws = Inr d"
    and k: "validatePrimaryKey k = None" and p: "length p \<le> MaxDocumentPayloadSize"
  shows "mgr_wf (put_version k p ws d m)"
proof -
  let ?x = "\<lparr>doc_DocID = d, doc_PrimaryKey = k, doc_Payload = p\<rparr>" and ?m = "put_version k p ws d m"
  let ?l = "\<lparr>SegmentID = ws_id ws, DocID = d\<rparr>"
  have wf: "mgr_wf m" by (rule mgr_okD(1) [OF ok])
  note w = mgr_wf_writing [OF wf ws]
  note n = NextDocumentID_future [OF conjunct2 [OF w] d]
  have "ws_wf (ws\<lparr>ws_docs := ws_docs ws @ [?x]\<rparr>)"
    using w n(2,4) k p by (simp add: ws_wf_def valid_run_append validateStoredDocument_None len64_def)
  then have "writing_wf (mgr_immutable m) (ws\<lparr>ws_docs := ws_docs ws @ [?x]\<rparr>)"
    using w by (simp add: writing_wf_def ws_range_def WriteSegment_ReservedRange_def)
  moreover have "pk_wf (mgr_primaryKey ?m)"
  proof -
    let ?w = "quiet_world"
    have "PrimaryKeyMap_Put k ?l (mgr_primaryKey m) ?w
        = (Inr (PrimaryKeyMap_Get k (mgr_primaryKey m)), mgr_primaryKey ?m, ?w)"
      using PrimaryKeyMap_Put_fresh [of ?w k ?l "mgr_primaryKey m"] future_location_fresh [OF ok ws n(1)] k
      by (simp add: put_version_def quiet_world_def)
    then show ?thesis using PrimaryKeyMap_Put_wf wf unfolding mgr_wf_def by blast
  qed
  moreover have "del_wf (mgr_deletes ?m)"
    using wf by (auto simp: put_version_def mgr_wf_def del_wf_def split: option.splits)
  ultimately show ?thesis using wf by (simp add: mgr_wf_def put_version_simps [OF ws])
qed

lemma put_version_indexed:
  assumes ok: "mgr_ok m" and ws: "mgr_writing m = Some ws" and d: "WriteSegment_NextDocumentID ws = Inr d"
  shows "mgr_indexed (put_version k p ws d m)"
proof -
  let ?x = "\<lparr>doc_DocID = d, doc_PrimaryKey = k, doc_Payload = p\<rparr>" and ?m = "put_version k p ws d m"
  note wf = mgr_okD(1) [OF ok] and ix = mgr_okD(2) [OF ok]
  note w = mgr_wf_writing [OF wf ws] and s = put_version_simps [OF ws]
  note n = NextDocumentID_future [OF conjunct2 [OF w] d]
  have fresh: "doc_DocID y \<noteq> d'" if "y \<in> set (mgr_docs m)" "future ws d'" for y d'
    by (rule future_fresh [OF wf ws that(2,1)])
  have prev: "\<exists>y \<in> set (mgr_docs m). doc_DocID y = DocID l \<and> doc_PrimaryKey y = k'
      \<and> \<not> DeleteStore_IsDeleted (DocID l) (mgr_deletes m)"
    if "PrimaryKeyMap_Get k' (mgr_primaryKey m) = Some l" for k' l
    by (rule mgr_indexed_Get [OF ix that]) (use segment_docs_subset in blast)
  have "(\<exists>y \<in> set (segment_docs (SegmentID l) ?m). doc_DocID y = DocID l \<and> doc_PrimaryKey y = k')
      \<and> \<not> DeleteStore_IsDeleted (DocID l) (mgr_deletes ?m)"
    if g: "PrimaryKeyMap_Get k' (mgr_primaryKey ?m) = Some l" for k' l
  proof (cases "k' = k")
    case True
    then have l: "l = \<lparr>SegmentID = ws_id ws, DocID = d\<rparr>" using g by (simp add: s)
    have "\<not> DeleteStore_IsDeleted d (mgr_deletes m)" using ix ws n(1) by (auto simp: mgr_indexed_def)
    then show ?thesis using l True prev fresh [OF _ n(1)] by (auto simp: s)
  next
    case False
    then have g': "PrimaryKeyMap_Get k' (mgr_primaryKey m) = Some l" using g by (simp add: s)
    from mgr_indexed_Get [OF ix g'] obtain y where y: "y \<in> set (segment_docs (SegmentID l) m)"
      "doc_DocID y = DocID l" "doc_PrimaryKey y = k'" "\<not> DeleteStore_IsDeleted (DocID l) (mgr_deletes m)" by blast
    have "DocID l \<noteq> DocID l'" if "PrimaryKeyMap_Get k (mgr_primaryKey m) = Some l'" for l'
      using prev [OF that] y False mgr_docs_inj [OF wf] segment_docs_subset by (metis subsetD)
    then show ?thesis using y by (auto simp: s)
  qed
  moreover have "\<exists>l. PrimaryKeyMap_Get (doc_PrimaryKey y) (mgr_primaryKey ?m) = Some l \<and> DocID l = doc_DocID y"
    if "y \<in> set (mgr_docs ?m)" "\<not> DeleteStore_IsDeleted (doc_DocID y) (mgr_deletes ?m)" for y
  proof (cases "y = ?x")
    case False
    then have "y \<in> set (mgr_docs m)" "\<not> DeleteStore_IsDeleted (doc_DocID y) (mgr_deletes m)"
      using that by (auto simp: s)
    then obtain l where "PrimaryKeyMap_Get (doc_PrimaryKey y) (mgr_primaryKey m) = Some l" "DocID l = doc_DocID y"
      using ix by (auto simp: mgr_indexed_def)
    then show ?thesis using that(2) by (auto simp: s)
  qed (simp add: s)
  moreover have "\<not> future (ws\<lparr>ws_docs := ws_docs ws @ [?x]\<rparr>) d'" if "DeleteStore_IsDeleted d' (mgr_deletes ?m)" for d'
  proof
    assume "future (ws\<lparr>ws_docs := ws_docs ws @ [?x]\<rparr>) d'"
    then have fu: "future ws d'" by (simp add: future_def)
    then show False using that prev fresh [OF _ fu] ix ws by (auto simp: s mgr_indexed_def)
  qed
  ultimately show ?thesis unfolding mgr_indexed_def by (simp add: s(6))
qed

lemma put_version_ok:
  assumes "mgr_ok m" and "mgr_writing m = Some ws" and "WriteSegment_NextDocumentID ws = Inr d"
    and "validatePrimaryKey k = None" and "length p \<le> MaxDocumentPayloadSize"
  shows "mgr_ok (put_version k p ws d m)"
proof -
  have "mgr_ordered (put_version k p ws d m)"
    using mgr_okD(3) [OF assms(1)] assms(2) by (auto simp: mgr_ordered_def put_version_simps [OF assms(2)])
  moreover have "mgr_known (put_version k p ws d m)"
  proof -
    have "DocID l \<in> doc_DocID ` set (mgr_docs m)" if "PrimaryKeyMap_Get k (mgr_primaryKey m) = Some l" for l
      by (rule mgr_indexed_Get [OF mgr_okD(2) [OF assms(1)] that]) (use segment_docs_subset in force)
    then show ?thesis
      using mgr_okD(4) [OF assms(1)] by (auto simp: mgr_known_def put_version_simps [OF assms(2)])
  qed
  ultimately show ?thesis unfolding mgr_ok_def
    using put_version_wf [OF assms] put_version_indexed [OF assms(1-3)] by blast
qed

lemma remove_version_simps:
  "mgr_immutable (remove_version k l m) = mgr_immutable m" "mgr_writing (remove_version k l m) = mgr_writing m"
  "mgr_docs (remove_version k l m) = mgr_docs m" "segment_docs i (remove_version k l m) = segment_docs i m"
  "PrimaryKeyMap_Get k' (mgr_primaryKey (remove_version k l m)) =
     (if k' = k then None else PrimaryKeyMap_Get k' (mgr_primaryKey m))"
  "DeleteStore_IsDeleted d' (mgr_deletes (remove_version k l m)) \<longleftrightarrow>
     d' = DocID l \<or> DeleteStore_IsDeleted d' (mgr_deletes m)"
  by (auto simp: remove_version_def mgr_docs_def writing_docs_def segment_docs_def PrimaryKeyMap_Get_def
      delete_conv DeleteStore_IsDeleted_def cong: option.case_cong if_cong)

lemma remove_version_ok:
  assumes ok: "mgr_ok m" and l: "PrimaryKeyMap_Get k (mgr_primaryKey m) = Some l"
  shows "mgr_ok (remove_version k l m)"
proof -
  note wf = mgr_okD(1) [OF ok] and ix = mgr_okD(2) [OF ok] and s = remove_version_simps
  obtain x where x: "x \<in> set (mgr_docs m)" "doc_DocID x = DocID l" "doc_PrimaryKey x = k"
    by (rule mgr_indexed_Get [OF ix l]) (use segment_docs_subset in blast)
  have "pk_wf (mgr_primaryKey (remove_version k l m))"
  proof -
    let ?w = "quiet_world"
    have "PrimaryKeyMap_Delete k (mgr_primaryKey m) ?w = (Inr (Some l), mgr_primaryKey (remove_version k l m), ?w)"
      using l by (simp add: PrimaryKeyMap_Delete_def PrimaryKeyMap_Get_def remove_version_def quiet_world_def)
    then show ?thesis using PrimaryKeyMap_Delete_wf wf unfolding mgr_wf_def by blast
  qed
  moreover have "del_wf (mgr_deletes (remove_version k l m))"
    using wf by (simp add: mgr_wf_def del_wf_def remove_version_def)
  ultimately have "mgr_wf (remove_version k l m)" using wf by (simp add: mgr_wf_def s)
  moreover have "mgr_ordered (remove_version k l m)" using mgr_okD(3) [OF ok] by (simp add: mgr_ordered_def s)
  moreover have "mgr_indexed (remove_version k l m)"
    unfolding mgr_indexed_def s
  proof (intro conjI allI ballI impI)
    fix k' l' assume g: "(if k' = k then None else PrimaryKeyMap_Get k' (mgr_primaryKey m)) = Some l'"
    then have g': "PrimaryKeyMap_Get k' (mgr_primaryKey m) = Some l'" "k' \<noteq> k" by (auto split: if_splits)
    from mgr_indexed_Get [OF ix g'(1)] obtain y where y: "y \<in> set (segment_docs (SegmentID l') m)"
      "doc_DocID y = DocID l'" "doc_PrimaryKey y = k'" "\<not> DeleteStore_IsDeleted (DocID l') (mgr_deletes m)" by blast
    then show "\<exists>y\<in>set (segment_docs (SegmentID l') m). doc_DocID y = DocID l' \<and> doc_PrimaryKey y = k'" by blast
    have "DocID l' \<noteq> DocID l" using mgr_docs_inj [OF wf, of y x] x y g'(2) segment_docs_subset by auto
    then show "\<not> (DocID l' = DocID l \<or> DeleteStore_IsDeleted (DocID l') (mgr_deletes m))" using y by simp
  next
    fix y assume y: "y \<in> set (mgr_docs m)" "\<not> (doc_DocID y = DocID l \<or> DeleteStore_IsDeleted (doc_DocID y) (mgr_deletes m))"
    then obtain l' where l': "PrimaryKeyMap_Get (doc_PrimaryKey y) (mgr_primaryKey m) = Some l'" "DocID l' = doc_DocID y"
      using ix by (auto simp: mgr_indexed_def)
    then show "\<exists>l'. (if doc_PrimaryKey y = k then None else PrimaryKeyMap_Get (doc_PrimaryKey y) (mgr_primaryKey m)) = Some l'
        \<and> DocID l' = doc_DocID y" using y(2) l by auto
  next
    fix ws d assume a: "mgr_writing m = Some ws" "d = DocID l \<or> DeleteStore_IsDeleted d (mgr_deletes m)"
    show "\<not> future ws d"
    proof
      assume "future ws d"
      then show False using a ix future_fresh [OF wf a(1) _ x(1)] x(2) by (auto simp: mgr_indexed_def)
    qed
  qed
  moreover have "mgr_known (remove_version k l m)" using mgr_okD(4) [OF ok] x by (force simp: mgr_known_def s)
  ultimately show ?thesis by (simp add: mgr_ok_def)
qed

section \<open>The engine and the replay compute the same versions\<close>

lemma writing_AppendExpected_next:
  assumes "mgr_writing m = Some ws" and "WriteSegment_NextDocumentID ws = Inr d" and "polls w = None"
    and "validatePrimaryKey k = None" and "length p \<le> MaxDocumentPayloadSize"
  shows "writing_AppendExpected d k p m w = (let x = \<lparr>doc_DocID = d, doc_PrimaryKey = k, doc_Payload = p\<rparr>
    in (Inr x, m\<lparr>mgr_writing := Some (ws\<lparr>ws_docs := ws_docs ws @ [x]\<rparr>)\<rparr>, w))"
  using assms WriteSegment_append_calm [OF assms(3-5,2)]
  by (simp add: writing_AppendExpected_def WriteSegment_AppendExpected_def Let_def)

lemma deletes_MarkDeleted_calm:
  "polls w = None \<Longrightarrow> deletes_MarkDeleted d m w = (Inr (d \<notin> set (deleted (mgr_deletes m))),
     m\<lparr>mgr_deletes := (mgr_deletes m)\<lparr>deleted := List.insert d (deleted (mgr_deletes m))\<rparr>\<rparr>, w)"
  by (simp add: deletes_MarkDeleted_def DeleteStore_MarkDeleted_calm)

lemma keys_Put_fresh:
  assumes "polls w = None" and "validatePrimaryKey k = None" and "l \<notin> snd ` set (entries (mgr_primaryKey m))"
  shows "keys_Put k l m w = (Inr (PrimaryKeyMap_Get k (mgr_primaryKey m)),
    m\<lparr>mgr_primaryKey := (mgr_primaryKey m)\<lparr>entries := AList.update k l (entries (mgr_primaryKey m))\<rparr>\<rparr>, w)"
  using PrimaryKeyMap_Put_fresh [OF assms] by (simp add: keys_Put_def)

lemma keys_Delete_present:
  assumes "polls w = None" and "PrimaryKeyMap_Get k (mgr_primaryKey m) = Some l"
  shows "keys_Delete k m w = (Inr (Some l),
    m\<lparr>mgr_primaryKey := (mgr_primaryKey m)\<lparr>entries := AList.delete k (entries (mgr_primaryKey m))\<rparr>\<rparr>, w)"
  using assms by (simp add: keys_Delete_def PrimaryKeyMap_Delete_def PrimaryKeyMap_Get_def)


lemma apply_put_version:
  assumes ok: "mgr_ok m" and ws: "mgr_writing m = Some ws" and d: "WriteSegment_NextDocumentID ws = Inr d"
    and k: "validatePrimaryKey k = None" and p: "length p \<le> MaxDocumentPayloadSize" and w: "polls w = None"
  shows "apply_put k d p (PrimaryKeyMap_Get k (mgr_primaryKey m)) (ws_id ws) m w = (Inr d, put_version k p ws d m, w)"
proof -
  have "future ws d" using NextDocumentID_future [OF _ d] mgr_wf_writing [OF mgr_okD(1) [OF ok] ws] by blast
  note fresh = future_location_fresh [OF ok ws this]
  show ?thesis
    by (cases "PrimaryKeyMap_Get k (mgr_primaryKey m)")
      (simp_all add: apply_put_def writing_AppendExpected_next [OF ws d w k p] deletes_MarkDeleted_calm [OF w]
        keys_Put_fresh [OF w k] fresh put_version_def Let_def)
qed

lemma recover_put_version:
  assumes ok: "mgr_ok m" and ws: "mgr_writing m = Some ws" and d: "WriteSegment_NextDocumentID ws = Inr d"
    and k: "validatePrimaryKey k = None" and p: "length p \<le> MaxDocumentPayloadSize" and w: "polls w = None"
    and t: "t = writeOperationInsert \<and> PrimaryKeyMap_Get k (mgr_primaryKey m) = None
      \<or> t = writeOperationUpsert \<or> t = writeOperationUpdate \<and> PrimaryKeyMap_Get k (mgr_primaryKey m) \<noteq> None"
  shows "applyRecoveredOperation \<lparr>op_Type = t, op_SegmentID = ws_id ws, op_DocID = d, op_PrimaryKey = k, op_Payload = p\<rparr> m w
    = (None, put_version k p ws d m, w)"
proof -
  have "future ws d" using NextDocumentID_future [OF _ d] mgr_wf_writing [OF mgr_okD(1) [OF ok] ws] by blast
  note fresh = future_location_fresh [OF ok ws this]
  show ?thesis using t
    by (cases "PrimaryKeyMap_Get k (mgr_primaryKey m)")
      (auto simp: applyRecoveredOperation_def recover_insert_def recover_replace_def ws writing_AppendExpected_next [OF ws d w k p]
        deletes_MarkDeleted_calm [OF w] keys_Put_fresh [OF w k] fresh put_version_def Let_def writeOperationTypes)
qed

lemma apply_remove_version:
  assumes "PrimaryKeyMap_Get k (mgr_primaryKey m) = Some l" and "polls w = None"
  shows "apply_delete k l m w = (Inr (DocID l), remove_version k l m, w)"
    and "applyRecoveredOperation \<lparr>op_Type = writeOperationDelete, op_SegmentID = SegmentID l, op_DocID = DocID l,
      op_PrimaryKey = k, op_Payload = []\<rparr> m w = (None, remove_version k l m, w)"
  using assms
  by (simp_all add: apply_delete_def applyRecoveredOperation_def recover_delete_def deletes_MarkDeleted_calm keys_Delete_present
      remove_version_def writeOperationTypes Let_def)

section \<open>The replay as a client of the log\<close>

lemma manager_calls_quiet:
  assumes "polls w = None"
  shows "snd (snd (writing_AppendExpected d k p m w)) = w" "snd (snd (keys_Put k l m w)) = w"
    "snd (snd (keys_Delete k m w)) = w" "snd (snd (deletes_MarkDeleted d m w)) = w"
  using assms
  by (auto simp: writing_AppendExpected_def WriteSegment_AppendExpected_def WriteSegment_append_def keys_Put_def
      PrimaryKeyMap_Put_def keys_Delete_def PrimaryKeyMap_Delete_def deletes_MarkDeleted_calm Let_def
      split: option.splits)

lemma applyRecoveredOperation_quiet:
  assumes w: "polls w = None"
  shows "snd (snd (applyRecoveredOperation op m w)) = w"
proof -
  obtain A B where a: "writing_AppendExpected d k p m w = (A d k p m, B d k p m, w)" for d k p m
    using that [of "\<lambda>d k p m. fst (writing_AppendExpected d k p m w)" "\<lambda>d k p m. fst (snd (writing_AppendExpected d k p m w))"]
      manager_calls_quiet(1) [OF w] by (simp add: prod_eq_iff)
  obtain C D where c: "keys_Put k l m w = (C k l m, D k l m, w)" for k l m
    using that [of "\<lambda>k l m. fst (keys_Put k l m w)" "\<lambda>k l m. fst (snd (keys_Put k l m w))"]
      manager_calls_quiet(2) [OF w] by (simp add: prod_eq_iff)
  obtain E F where e: "keys_Delete k m w = (E k m, F k m, w)" for k m
    using that [of "\<lambda>k m. fst (keys_Delete k m w)" "\<lambda>k m. fst (snd (keys_Delete k m w))"]
      manager_calls_quiet(3) [OF w] by (simp add: prod_eq_iff)
  obtain G H where g: "deletes_MarkDeleted d m w = (G d m, H d m, w)" for d m
    using deletes_MarkDeleted_calm [OF w] by auto
  have ins: "snd (snd (recover_insert op m w)) = w"
    by (simp add: recover_insert_def a c split: sum.split)
  have del: "snd (snd (recover_delete op m w)) = w"
    by (simp add: recover_delete_def g e split: sum.split option.split)
  have put: "snd (snd (case keys_Put k l m w of (Inl err, m, w) \<Rightarrow> (Some err, m, w) | (Inr _, m, w) \<Rightarrow> (None, m, w))) = w"
    for k l m by (simp add: c split: sum.split)
  have rep: "snd (snd (recover_replace op m w)) = w"
    by (cases "PrimaryKeyMap_Get (op_PrimaryKey op) (mgr_primaryKey m)")
      (simp_all add: recover_replace_def Let_def a g put split: sum.split)
  show ?thesis by (simp add: applyRecoveredOperation_def ins del rep)
qed

interpretation write_replay: wal_client replay_record
proof
  fix w :: world and r s assume w: "polls w = None"
  show "snd (snd (replay_record r s w)) = w"
    using applyRecoveredOperation_quiet [OF w]
    by (auto simp: replay_record_def split: sum.splits prod.splits option.splits) (metis snd_conv)+
qed

end
