(* ===== verification/Recovery.thy ===== *)
theory Recovery
  imports Engine_Versions
begin

text \<open>
  The engine as a whole.  The manager represents a map from keys to payloads (\<open>mgr_kv\<close>); the
  invariant \<open>eng_inv\<close> says that the durable log, replayed on the manager of the last checkpoint,
  gives the manager in memory; the locale \<open>logged_write\<close> is the contract of one write, which
  the four writes of the engine satisfy and from which batches, histories and the recovery
  after a crash follow.  The last section shows the writes outside this contract: a record
  that stays in the log although its write failed makes the log unusable.
\<close>

section \<open>The key-value map\<close>

lemma mgr_kv_iff:
  "mgr_ok m \<Longrightarrow> mgr_kv m k = Some v \<longleftrightarrow>
     (\<exists>x \<in> set (mgr_docs m). doc_PrimaryKey x = k \<and> doc_Payload x = v \<and> \<not> DeleteStore_IsDeleted (doc_DocID x) (mgr_deletes m))"
  using DocumentByPrimaryKey_iff [OF mgr_okD(1,2), of m k] by (auto simp: mgr_kv_def)

lemma mgr_kv_None: "mgr_ok m \<Longrightarrow> mgr_kv m k = None \<longleftrightarrow> PrimaryKeyMap_Get k (mgr_primaryKey m) = None"
  using DocumentByPrimaryKey_None [OF mgr_okD(1,2), of m k] by (simp add: mgr_kv_def)

lemma option_eq_iff: "(\<And>v. a = Some v \<longleftrightarrow> b = Some v) \<Longrightarrow> a = b"
  by (cases a; cases b) auto

lemma mgr_kv_other:
  assumes ok: "mgr_ok m" and g: "PrimaryKeyMap_Get k (mgr_primaryKey m) = Some l"
    and x: "x \<in> set (mgr_docs m)" "doc_DocID x = DocID l"
  shows "doc_PrimaryKey x = k"
proof -
  obtain y where "y \<in> set (mgr_docs m)" "doc_DocID y = DocID l" "doc_PrimaryKey y = k"
    by (rule mgr_indexed_Get [OF mgr_okD(2) [OF ok] g]) (use segment_docs_subset in blast)
  then show ?thesis using mgr_docs_inj [OF mgr_okD(1) [OF ok], of x y] x by auto
qed

lemma mgr_kv_put_version:
  assumes "mgr_ok m" and "mgr_writing m = Some ws" and "WriteSegment_NextDocumentID ws = Inr d"
    and "validatePrimaryKey k = None" and "length p \<le> MaxDocumentPayloadSize"
  shows "mgr_kv (put_version k p ws d m) = (mgr_kv m)(k \<mapsto> p)"
proof
  fix k'
  let ?m = "put_version k p ws d m"
  note ok = put_version_ok [OF assms] and s = put_version_simps [OF assms(2)]
  note n = NextDocumentID_future [OF conjunct2 [OF mgr_wf_writing [OF mgr_okD(1) [OF assms(1)] assms(2)]] assms(3)]
  show "mgr_kv ?m k' = ((mgr_kv m)(k \<mapsto> p)) k'"
  proof (cases "k' = k")
    case True
    have g: "PrimaryKeyMap_Get k (mgr_primaryKey ?m) = Some \<lparr>SegmentID = ws_id ws, DocID = d\<rparr>" by (simp add: s)
    have "\<not> DeleteStore_IsDeleted d (mgr_deletes ?m)" by (rule mgr_indexed_Get [OF mgr_okD(2) [OF ok] g]) simp
    then show ?thesis using True mgr_kv_iff [OF ok, of k p] by (auto simp: s)
  next
    case False
    have "mgr_kv ?m k' = Some v \<longleftrightarrow> mgr_kv m k' = Some v" for v
      using mgr_kv_iff [OF ok, of k' v] mgr_kv_iff [OF assms(1), of k' v] mgr_kv_other [OF assms(1)] False
      by (fastforce simp: s)
    then show ?thesis using False by (simp add: option_eq_iff)
  qed
qed

lemma mgr_kv_remove_version:
  assumes "mgr_ok m" and "PrimaryKeyMap_Get k (mgr_primaryKey m) = Some l"
  shows "mgr_kv (remove_version k l m) = (mgr_kv m)(k := None)"
proof
  fix k'
  note ok = remove_version_ok [OF assms] and s = remove_version_simps
  show "mgr_kv (remove_version k l m) k' = ((mgr_kv m)(k := None)) k'"
  proof (cases "k' = k")
    case True
    then show ?thesis using mgr_kv_None [OF ok, of k] by (simp add: s)
  next
    case False
    have "mgr_kv (remove_version k l m) k' = Some v \<longleftrightarrow> mgr_kv m k' = Some v" for v
      using mgr_kv_iff [OF ok, of k' v] mgr_kv_iff [OF assms(1), of k' v] mgr_kv_other [OF assms] False
      by (fastforce simp: s)
    then show ?thesis using False by (simp add: option_eq_iff)
  qed
qed

section \<open>The replay of a list of payloads\<close>

definition replays :: "bytes list \<Rightarrow> SegmentManager \<Rightarrow> SegmentManager \<Rightarrow> bool" where
  "replays ps m m' \<longleftrightarrow> (\<forall>lsn w. polls w = None \<longrightarrow> replay_payloads replay_record lsn ps m w = (None, m', w))"

lemma replays_Nil [simp]: "replays [] m m' \<longleftrightarrow> m' = m"
proof -
  have "\<exists>w :: world. polls w = None" by (metis world.select_convs(1))
  then show ?thesis by (auto simp: replays_def)
qed

lemma replay_payloads_append:
  "replay_payloads f lsn (ps @ qs) s w = (case replay_payloads f lsn ps s w of
      (Some e, s', w') \<Rightarrow> (Some e, s', w')
    | (None, s', w') \<Rightarrow> replay_payloads f (lsn + of_nat (length ps)) qs s' w')"
  by (induction ps arbitrary: lsn s w) (auto split: prod.splits option.splits simp: algebra_simps)

lemma replays_append: "replays ps m m' \<Longrightarrow> replays qs m' m'' \<Longrightarrow> replays (ps @ qs) m m''"
  by (simp add: replays_def replay_payloads_append)

lemma replays_operation:
  assumes "encodeWriteOperation op = Inr p" and "\<And>w. polls w = None \<Longrightarrow> applyRecoveredOperation op m w = (None, m', w)"
  shows "replays [p] m m'"
  using assms decode_encodeWriteOperation by (simp add: replays_def replay_record_def)

section \<open>Logging an operation\<close>

text \<open>A failed append leaves the log as it was, or poisons it with a piece of the record behind
  its end.\<close>

definition wal_tail :: "bytes list \<Rightarrow> bytes list \<Rightarrow> WAL \<Rightarrow> world \<Rightarrow> bool" where
  "wal_tail ps qs l w \<longleftrightarrow> (\<exists>f. fs w (wal_path l) = Some f \<and> log_file ps qs (content f))
     \<and> (wal_poisoned l = None \<longrightarrow> qs = [])"

lemma wal_tail_content:
  assumes "\<And>n. map_option content (fs w' n) = map_option content (fs w n)"
  shows "wal_tail ps qs l w' = wal_tail ps qs l w"
proof -
  have "(\<exists>f. fs w' (wal_path l) = Some f \<and> P (content f)) = (\<exists>f. fs w (wal_path l) = Some f \<and> P (content f))"
    for P using assms [of "wal_path l"] by (cases "fs w (wal_path l)") (auto simp: map_option_eq_Some)
  from this [of "log_file ps qs"] show ?thesis by (simp add: wal_tail_def)
qed

lemma file_WriteFullAt_synced:
  "file_WriteFullAt n src off w = (e, w') \<Longrightarrow> fs w n = Some f \<Longrightarrow> \<exists>f'. fs w' n = Some f' \<and> synced f' = synced f"
  by (auto simp: file_WriteFullAt_def split: prod.splits)

lemma WAL_Append_failed:
  assumes h: "wal_holds ps l w" and t: "wal_tail ps qs l w" and ap: "WAL_Append p l w = ((0, e), l', w')"
  shows "wal_path l' = wal_path l" "wal_tail ps qs l' w' \<or> wal_tail ps [p] l' w'"
    "wal_durable ds l w \<Longrightarrow> wal_durable ds l' w'"
proof -
  obtain e1 w1 where c: "ctx_Err w = (e1, w1)" by (cases "ctx_Err w")
  have h1: "wal_holds ps l w1" using ctx_Err_holds [OF c] h by simp
  have t1: "wal_tail ps qs l w1" using t ctx_Err_frame [OF c] by (simp add: wal_tail_def)
  have last: "wal_lastLSN l = of_nat (length ps)" using h by (simp add: wal_holds_def)
  let ?enc = "encodeWALRecord (of_nat (length ps) + 1) p"
  have "wal_path l' = wal_path l \<and> (wal_tail ps qs l' w' \<or> wal_tail ps [p] l' w')
    \<and> (wal_durable ds l w \<longrightarrow> wal_durable ds l' w')"
  proof (cases "e1 = None \<and> valid_payload p \<and> \<not> wal_closed l \<and> \<not> wal_readOnly l
      \<and> wal_poisoned l = None \<and> wal_lastLSN l \<noteq> MaxUint64")
    case False
    then have "l' = l \<and> w' = w1"
      using ap c by (auto simp: WAL_Append_def valid_payload_def not_None_eq split: option.splits if_splits dest: sym)
    then show ?thesis using t1 ctx_Err_frame [OF c] by (simp add: wal_durable_def)
  next
    case True
    then have np: "wal_poisoned l = None" and p: "valid_payload p" by auto
    obtain e2 w2 where wr: "file_WriteFullAt (wal_path l) ?enc (wal_size l) w1 = (e2, w2)"
      by (cases "file_WriteFullAt (wal_path l) ?enc (wal_size l) w1")
    from write_record [OF h1 np p wr] obtain f k where
      f: "fs w2 (wal_path l) = Some f" "length (wal_image ps) \<le> k"
        "content f = take k (wal_image (ps @ [p]))" "list_all valid_payload (ps @ [p])" by blast
    have nz: "(of_nat (length ps) + 1 :: u64) \<noteq> 0"
      using True last by (metis add.commute eq_neg_iff_add_eq_0)
    have e2: "e2 \<noteq> None"
      using ap c True wr last nz
      by (auto simp: WAL_Append_def valid_payload_def Let_def split: if_splits prod.splits option.splits)
    then have "w' = w2 \<and> l' = l\<lparr>wal_poisoned := Some (corrupt ErrWALPoisoned ''write record'')\<rparr>"
      using ap c True wr last by (auto simp: WAL_Append_def valid_payload_def Let_def split: if_splits)
    moreover have "log_file ps [p] (content f)" using f by (auto simp: log_file_def)
    moreover have "wal_durable ds l w \<longrightarrow> wal_durable ds l w2"
    proof -
      obtain f0 where f0: "fs w1 (wal_path l) = Some f0" "content f0 = wal_image ps"
        using h1 np by (auto simp: wal_holds_def)
      have "synced f = synced f0" using file_WriteFullAt_synced [OF wr f0(1)] f(1) by simp
      moreover have "length (content f0) \<le> length (content f)" using f(2,3) f0(2) by (simp add: wal_image_snoc)
      ultimately show ?thesis using f(1) f0(1) ctx_Err_frame [OF c] by (auto simp: wal_durable_def)
    qed
    ultimately show ?thesis using f(1) by (auto simp: wal_tail_def wal_durable_def)
  qed
  then show "wal_path l' = wal_path l" "wal_tail ps qs l' w' \<or> wal_tail ps [p] l' w'"
    "wal_durable ds l w \<Longrightarrow> wal_durable ds l' w'" by blast+
qed


section \<open>The invariant of the engine\<close>

definition inflight :: "bytes list \<Rightarrow> SegmentManager \<Rightarrow> bool" where
  "inflight qs m \<longleftrightarrow> qs = [] \<or> (\<exists>p m'. qs = [p] \<and> replays [p] m m' \<and> mgr_ok m')"

text \<open>The log holds the payloads \<open>ps\<close>, all durable; replaying them on the manager \<open>m0\<close> of the last
  checkpoint gives the manager in memory; and behind the log's end there is at most a piece of
  one operation that would apply.\<close>

definition eng_inv :: "SegmentManager \<Rightarrow> bytes list \<Rightarrow> WriteEngine \<Rightarrow> world \<Rightarrow> bool" where
  "eng_inv m0 ps e w \<longleftrightarrow> wal_holds ps (eng_wal e) w \<and> wal_durable ps (eng_wal e) w \<and> mgr_ok (eng_manager e)
     \<and> replays ps m0 (eng_manager e) \<and> (\<exists>qs. wal_tail ps qs (eng_wal e) w \<and> inflight qs (eng_manager e))"

text \<open>The record is in the log and its operation was reported as failed.\<close>

definition stranded :: "bytes list \<Rightarrow> bytes \<Rightarrow> WriteEngine \<Rightarrow> world \<Rightarrow> bool" where
  "stranded ps p e w \<longleftrightarrow> wal_holds (ps @ [p]) (eng_wal e) w"

lemma wal_holds_tail: "wal_holds ps l w \<Longrightarrow> wal_poisoned l = None \<Longrightarrow> wal_tail ps [] l w"
proof -
  assume h: "wal_holds ps l w" and n: "wal_poisoned l = None"
  then obtain f where f: "fs w (wal_path l) = Some f" "content f = wal_image ps" "list_all valid_payload ps"
    by (auto simp: wal_holds_def log_file_def)
  then show ?thesis using log_file_self [OF f(3)] by (simp add: wal_tail_def)
qed

lemma wal_holds_lastLSN: "wal_holds ps l w \<Longrightarrow> wal_lastLSN l = of_nat (length ps) \<and> length ps < 2 ^ 64"
  by (simp add: wal_holds_def)

lemma log_operation_cases:
  assumes inv: "eng_inv m0 ps e w" and enc: "encodeWriteOperation op = Inr p"
    and p: "replays [p] (eng_manager e) m'" "mgr_ok m'" and lg: "log_operation op e w = (err, e', w')"
  shows "eng_manager e' = eng_manager e" and
    "err = None \<and> wal_holds (ps @ [p]) (eng_wal e') w' \<and> wal_durable (ps @ [p]) (eng_wal e') w' \<and> wal_poisoned (eng_wal e') = None
     \<or> err \<noteq> None \<and> eng_inv m0 ps e' w'
     \<or> err \<noteq> None \<and> stranded ps p e' w'"
proof -
  obtain lsn err1 l1 w1 where ap: "WAL_Append p (eng_wal e) w = ((lsn, err1), l1, w1)" by (metis prod.collapse)
  have h: "wal_holds ps (eng_wal e) w" and dur: "wal_durable ps (eng_wal e) w" using inv by (auto simp: eng_inv_def)
  obtain qs where t: "wal_tail ps qs (eng_wal e) w" "inflight qs (eng_manager e)" using inv by (auto simp: eng_inv_def)
  have m: "eng_manager e' = eng_manager e"
    using lg enc ap by (auto simp: log_operation_def Let_def split: option.splits prod.splits)
  then show "eng_manager e' = eng_manager e" .
  show "err = None \<and> wal_holds (ps @ [p]) (eng_wal e') w' \<and> wal_durable (ps @ [p]) (eng_wal e') w' \<and> wal_poisoned (eng_wal e') = None
     \<or> err \<noteq> None \<and> eng_inv m0 ps e' w' \<or> err \<noteq> None \<and> stranded ps p e' w'"
  proof (cases "lsn = 0")
    case True
    then have h1: "wal_holds ps l1 w1" and err1: "err1 \<noteq> None" using WAL_Append_cases [OF h ap] by auto
    have r: "err = err1" "e' = e\<lparr>eng_wal := l1\<rparr>" "w' = w1"
      using lg enc ap err1 by (auto simp: log_operation_def Let_def split: option.splits)
    note f = WAL_Append_failed [OF h t(1) ap [unfolded True]]
    have "\<exists>qs. wal_tail ps qs l1 w1 \<and> inflight qs (eng_manager e)"
      using f(2) t(2) p by (auto simp: inflight_def)
    then show ?thesis using r err1 h1 f(3) [OF dur] inv by (auto simp: eng_inv_def)
  next
    case False
    then have h1: "wal_holds (ps @ [p]) l1 w1" "wal_poisoned l1 = None" using WAL_Append_cases [OF h ap] by auto
    obtain err2 l2 w2 where sy: "WAL_Sync l1 w1 = (err2, l2, w2)" by (metis prod.collapse)
    show ?thesis
    proof (cases err1)
      case None
      then have r: "err = err2" "e' = e\<lparr>eng_wal := l2\<rparr>" "w' = w2"
        using lg enc ap sy by (auto simp: log_operation_def Let_def)
      show ?thesis
      proof (cases err2)
        case None
        then show ?thesis using WAL_Sync_durable [OF h1(1)] sy r by auto
      next
        case (Some x)
        then show ?thesis using WAL_Sync_error [OF h1(1)] sy r by (auto simp: stranded_def)
      qed
    next
      case (Some x)
      then have "err = Some x" "e' = e\<lparr>eng_wal := l1\<rparr>" "w' = w1"
        using lg enc ap by (auto simp: log_operation_def Let_def)
      then show ?thesis using h1 by (simp add: stranded_def)
    qed
  qed
qed

section \<open>The contract of a write\<close>

text \<open>A write succeeds, durably logged and with its effect on the key-value map; or fails with
  log and memory as they were; or fails with its record left in the log.\<close>

definition write_outcome ::
  "((bytes \<Rightarrow> bytes option) \<Rightarrow> (bytes \<Rightarrow> bytes option) option) \<Rightarrow> SegmentManager \<Rightarrow> bytes list \<Rightarrow> WriteEngine
     \<Rightarrow> u64 result \<times> WriteEngine \<times> world \<Rightarrow> bool" where
  "write_outcome effect m0 ps e x \<longleftrightarrow> (case x of (r, e', w') \<Rightarrow>
     (\<exists>d p. r = Inr d \<and> eng_inv m0 (ps @ [p]) e' w'
        \<and> effect (mgr_kv (eng_manager e)) = Some (mgr_kv (eng_manager e')))
     \<or> (\<exists>err. r = Inl err \<and> eng_inv m0 ps e' w' \<and> eng_manager e' = eng_manager e)
     \<or> (\<exists>err p. r = Inl err \<and> stranded ps p e' w' \<and> eng_manager e' = eng_manager e))"

definition settled :: "u64 result \<Rightarrow> WriteEngine \<Rightarrow> WriteEngine \<Rightarrow> bool" where
  "settled r e e' \<longleftrightarrow> (case r of Inr _ \<Rightarrow> True | Inl _ \<Rightarrow> wal_lastLSN (eng_wal e') = wal_lastLSN (eng_wal e))"

lemma stranded_not_settled:
  assumes "eng_inv m0 ps e w" and "stranded ps p e' w'"
  shows "\<not> settled (Inl err) e e'"
proof -
  have "wal_lastLSN (eng_wal e) = of_nat (length ps)" "length ps < 2 ^ 64"
    and "wal_lastLSN (eng_wal e') = of_nat (length ps + 1)" "length ps + 1 < 2 ^ 64"
    using assms wal_holds_lastLSN [of ps "eng_wal e" w] wal_holds_lastLSN [of "ps @ [p]" "eng_wal e'" w']
    by (auto simp: eng_inv_def stranded_def)
  moreover have "(of_nat (length ps + 1) :: u64) \<noteq> of_nat (length ps)" by simp
  ultimately show ?thesis unfolding settled_def by simp
qed

lemma eng_inv_ctx: "ctx_Err w = (r, w') \<Longrightarrow> eng_inv m0 ps e w' = eng_inv m0 ps e w"
  by (simp add: eng_inv_def wal_holds_def wal_durable_def wal_tail_def ctx_Err_frame)

text \<open>The effects of a list of inputs, one after the other.\<close>

fun effects ::
  "('i \<Rightarrow> (bytes \<Rightarrow> bytes option) \<Rightarrow> (bytes \<Rightarrow> bytes option) option) \<Rightarrow> 'i list
     \<Rightarrow> (bytes \<Rightarrow> bytes option) \<Rightarrow> (bytes \<Rightarrow> bytes option) option" where
  "effects effect [] kv = Some kv"
| "effects effect (i # is) kv = (case effect i kv of None \<Rightarrow> None | Some kv' \<Rightarrow> effects effect is kv')"

locale logged_write =
  fixes one :: "'i \<Rightarrow> WriteEngine \<Rightarrow> world \<Rightarrow> u64 result \<times> WriteEngine \<times> world"
    and effect :: "'i \<Rightarrow> (bytes \<Rightarrow> bytes option) \<Rightarrow> (bytes \<Rightarrow> bytes option) option"
  assumes one_outcome: "eng_inv m0 ps e w \<Longrightarrow> write_outcome (effect i) m0 ps e (one i e w)"
begin

lemma success:
  assumes "eng_inv m0 ps e w" and "one i e w = (Inr d, e', w')"
  obtains p where "eng_inv m0 (ps @ [p]) e' w'" "effect i (mgr_kv (eng_manager e)) = Some (mgr_kv (eng_manager e'))"
  using one_outcome [OF assms(1), of i] assms(2) by (auto simp: write_outcome_def)

lemma failure:
  assumes "eng_inv m0 ps e w" and "one i e w = (Inl err, e', w')"
  shows "eng_manager e' = eng_manager e" "eng_inv m0 ps e' w' \<or> (\<exists>p. stranded ps p e' w')"
  using one_outcome [OF assms(1), of i] assms(2) by (auto simp: write_outcome_def)

lemma settled_inv:
  assumes "eng_inv m0 ps e w" and "one i e w = (r, e', w')" and "settled r e e'"
  shows "\<exists>qs. eng_inv m0 (ps @ qs) e' w'"
proof (cases r)
  case (Inl err)
  then show ?thesis using failure(2) [OF assms(1)] assms stranded_not_settled [OF assms(1)]
    by (metis append_Nil2)
next
  case (Inr d)
  then show ?thesis using success [OF assms(1)] assms(2) by blast
qed

text \<open>A batch answers in the order of its inputs, with one result each.\<close>

lemma batch_keys:
  "map wr_PrimaryKey (fst (batch_loop key_of one inputs e w)) = map key_of inputs"
proof (induction inputs arbitrary: e w)
  case (Cons i inputs)
  obtain r w1 where c: "ctx_Err w = (r, w1)" by (cases "ctx_Err w")
  obtain x e1 w2 where o: "one i e w1 = (x, e1, w2)" by (metis prod.collapse)
  show ?case using Cons.IH [of e1 w2] c o by (cases r; cases x) (auto simp: Let_def split: prod.split)
qed simp

text \<open>When no result is an error, the batch has the effects of its inputs in order.\<close>

lemma batch_success:
  assumes "eng_inv m0 ps e w" and "batch_loop key_of one inputs e w = (results, e', w')"
    and "list_all (\<lambda>r. wr_Err r = None) results"
  shows "\<exists>qs. eng_inv m0 (ps @ qs) e' w' \<and> length qs = length inputs
    \<and> effects effect inputs (mgr_kv (eng_manager e)) = Some (mgr_kv (eng_manager e'))"
  using assms
proof (induction inputs arbitrary: ps e w results)
  case (Cons i inputs)
  obtain r w1 where c: "ctx_Err w = (r, w1)" by (cases "ctx_Err w")
  have r: "r = None" using Cons.prems(2,3) c by (cases r) auto
  obtain x e1 w2 where o: "one i e w1 = (x, e1, w2)" by (metis prod.collapse)
  obtain results1 where b: "batch_loop key_of one inputs e1 w2 = (results1, e', w')"
    and ok: "list_all (\<lambda>r. wr_Err r = None) results1" and x: "\<exists>d. x = Inr d"
    using Cons.prems(2,3) c r o by (auto simp: Let_def split: prod.splits sum.splits)
  have "eng_inv m0 ps e w1" using Cons.prems(1) eng_inv_ctx [OF c] by simp
  then obtain p where p: "eng_inv m0 (ps @ [p]) e1 w2" "effect i (mgr_kv (eng_manager e)) = Some (mgr_kv (eng_manager e1))"
    using success o x by blast
  from Cons.IH [OF p(1) b ok] obtain qs where
    "eng_inv m0 ((ps @ [p]) @ qs) e' w'" "length qs = length inputs"
    "effects effect inputs (mgr_kv (eng_manager e1)) = Some (mgr_kv (eng_manager e'))" by blast
  then show ?case using p(2) by (intro exI [of _ "p # qs"]) simp
qed auto

end

section \<open>The four writes\<close>

lemma finish_without_cancel: "finish e w (r, m, without_cancel w) = (r, e\<lparr>eng_manager := m\<rparr>, w)"
  by (simp add: finish_def without_cancel_def)

lemma encodeWriteOperation_ok:
  assumes "t \<in> {writeOperationInsert, writeOperationUpsert, writeOperationUpdate, writeOperationDelete}"
    and "validatePrimaryKey k = None" and "length p \<le> MaxDocumentPayloadSize"
  shows "\<exists>b. encodeWriteOperation \<lparr>op_Type = t, op_SegmentID = s, op_DocID = d, op_PrimaryKey = k, op_Payload = p\<rparr> = Inr b"
  using assms by (auto simp: encodeWriteOperation_Inr writeOperationTypes)

lemma eng_inv_applied:
  assumes "eng_inv m0 ps e w" and "wal_holds (ps @ [p]) (eng_wal e1) w'" and "wal_durable (ps @ [p]) (eng_wal e1) w'"
    and "wal_poisoned (eng_wal e1) = None" and "replays [p] (eng_manager e) m'" and "mgr_ok m'"
  shows "eng_inv m0 (ps @ [p]) (e1\<lparr>eng_manager := m'\<rparr>) w'"
  using assms wal_holds_tail [OF assms(2,4)] replays_append [of ps m0 "eng_manager e" "[p]" m']
  by (auto simp: eng_inv_def inflight_def)

text \<open>The part all four share: log the operation and apply it.\<close>

lemma logged_outcome:
  assumes inv: "eng_inv m0 ps e w" and enc: "encodeWriteOperation op = Inr b"
    and rec: "\<And>w. polls w = None \<Longrightarrow> applyRecoveredOperation op (eng_manager e) w = (None, m', w)" and ok: "mgr_ok m'"
    and app: "\<And>w. polls w = None \<Longrightarrow> apply_it (eng_manager e) w = (Inr d, m', w)"
    and eff: "effect (mgr_kv (eng_manager e)) = Some (mgr_kv m')"
  shows "write_outcome effect m0 ps e (case log_operation op e w of
      (Some err, e, w) \<Rightarrow> (Inl err, e, w)
    | (None, e, w) \<Rightarrow> finish e w (apply_it (eng_manager e) (without_cancel w)))"
proof -
  obtain err e1 w1 where lg: "log_operation op e w = (err, e1, w1)" by (metis prod.collapse)
  have rp: "replays [b] (eng_manager e) m'" by (rule replays_operation [OF enc rec])
  note c = log_operation_cases [OF inv enc rp ok lg]
  show ?thesis
  proof (cases err)
    case None
    have "finish e1 w1 (apply_it (eng_manager e1) (without_cancel w1)) = (Inr d, e1\<lparr>eng_manager := m'\<rparr>, w1)"
      using app [of "without_cancel w1"] c(1) by (simp add: finish_without_cancel)
    moreover have "eng_inv m0 (ps @ [b]) (e1\<lparr>eng_manager := m'\<rparr>) w1"
      using eng_inv_applied [OF inv, of b e1 w1 m'] c(2) None rp ok by simp
    ultimately show ?thesis using None lg eff by (auto simp: write_outcome_def)
  next
    case (Some x)
    then show ?thesis using c lg by (auto simp: write_outcome_def)
  qed
qed

lemma outcome_refused: "eng_inv m0 ps e w \<Longrightarrow> write_outcome effect m0 ps e (Inl err, e, w)"
  by (simp add: write_outcome_def)

lemma put_outcome:
  assumes inv: "eng_inv m0 ps e w" and ws: "mgr_writing (eng_manager e) = Some ws"
    and d: "WriteSegment_NextDocumentID ws = Inr d"
    and k: "validatePrimaryKey k = None" and p: "length p \<le> MaxDocumentPayloadSize"
    and t: "t = writeOperationInsert \<and> PrimaryKeyMap_Get k (mgr_primaryKey (eng_manager e)) = None
      \<or> t = writeOperationUpsert \<or> t = writeOperationUpdate \<and> PrimaryKeyMap_Get k (mgr_primaryKey (eng_manager e)) \<noteq> None"
    and eff: "effect (mgr_kv (eng_manager e)) = Some ((mgr_kv (eng_manager e))(k \<mapsto> p))"
    and prev: "prev = PrimaryKeyMap_Get k (mgr_primaryKey (eng_manager e))"
  shows "write_outcome effect m0 ps e (case log_operation
        \<lparr>op_Type = t, op_SegmentID = ws_id ws, op_DocID = d, op_PrimaryKey = k, op_Payload = p\<rparr> e w of
      (Some err, e, w) \<Rightarrow> (Inl err, e, w)
    | (None, e, w) \<Rightarrow> finish e w (apply_put k d p prev (ws_id ws) (eng_manager e) (without_cancel w)))"
proof -
  have ok: "mgr_ok (eng_manager e)" using inv by (simp add: eng_inv_def)
  obtain b where b: "encodeWriteOperation
      \<lparr>op_Type = t, op_SegmentID = ws_id ws, op_DocID = d, op_PrimaryKey = k, op_Payload = p\<rparr> = Inr b"
    using encodeWriteOperation_ok [OF _ k p] t by blast
  show ?thesis
    unfolding prev
    by (rule logged_outcome [where apply_it = "apply_put k d p _ (ws_id ws)", OF inv b recover_put_version [OF ok ws d k p _ t] put_version_ok [OF ok ws d k p]
          apply_put_version [OF ok ws d k p]]) (simp_all add: mgr_kv_put_version [OF ok ws d k p] eff)
qed

definition insert_effect :: "WriteInput \<Rightarrow> (bytes \<Rightarrow> bytes option) \<Rightarrow> (bytes \<Rightarrow> bytes option) option" where
  "insert_effect i kv = (if kv (in_PrimaryKey i) = None then Some (kv(in_PrimaryKey i \<mapsto> in_Payload i)) else None)"

definition upsert_effect :: "WriteInput \<Rightarrow> (bytes \<Rightarrow> bytes option) \<Rightarrow> (bytes \<Rightarrow> bytes option) option" where
  "upsert_effect i kv = Some (kv(in_PrimaryKey i \<mapsto> in_Payload i))"

definition update_effect :: "WriteInput \<Rightarrow> (bytes \<Rightarrow> bytes option) \<Rightarrow> (bytes \<Rightarrow> bytes option) option" where
  "update_effect i kv = (if kv (in_PrimaryKey i) = None then None else Some (kv(in_PrimaryKey i \<mapsto> in_Payload i)))"

definition delete_effect :: "bytes \<Rightarrow> (bytes \<Rightarrow> bytes option) \<Rightarrow> (bytes \<Rightarrow> bytes option) option" where
  "delete_effect k kv = (if kv k = None then None else Some (kv(k := None)))"

lemma insert_outcome:
  assumes inv: "eng_inv m0 ps e w"
  shows "write_outcome (insert_effect i) m0 ps e (insertOneLocked i e w)"
proof -
  have ok: "mgr_ok (eng_manager e)" using inv by (simp add: eng_inv_def)
  note r = outcome_refused [OF inv]
  show ?thesis
    using put_outcome [OF inv] mgr_kv_None [OF ok, of "in_PrimaryKey i"]
    by (auto simp: insertOneLocked_def insert_effect_def not_less split: option.split sum.split intro!: r)
qed

lemma upsert_outcome:
  assumes inv: "eng_inv m0 ps e w"
  shows "write_outcome (upsert_effect i) m0 ps e (upsertOneLocked i e w)"
proof -
  note r = outcome_refused [OF inv]
  show ?thesis
    using put_outcome [OF inv]
    by (auto simp: upsertOneLocked_def upsert_effect_def Let_def not_less split: option.split sum.split intro!: r)
qed

lemma update_outcome:
  assumes inv: "eng_inv m0 ps e w"
  shows "write_outcome (update_effect i) m0 ps e (updateOneLocked i e w)"
proof -
  have ok: "mgr_ok (eng_manager e)" using inv by (simp add: eng_inv_def)
  note r = outcome_refused [OF inv]
  show ?thesis
    using put_outcome [OF inv] mgr_kv_None [OF ok, of "in_PrimaryKey i"]
    by (auto simp: updateOneLocked_def update_effect_def not_less split: option.split sum.split intro!: r)
qed

lemma delete_outcome:
  assumes inv: "eng_inv m0 ps e w"
  shows "write_outcome (delete_effect k) m0 ps e (deleteOneLocked k e w)"
proof (cases "validatePrimaryKey k = None \<and> PrimaryKeyMap_Get k (mgr_primaryKey (eng_manager e)) \<noteq> None")
  case False
  then show ?thesis using outcome_refused [OF inv] by (auto simp: deleteOneLocked_def split: option.split)
next
  case True
  then obtain l where k: "validatePrimaryKey k = None" and l: "PrimaryKeyMap_Get k (mgr_primaryKey (eng_manager e)) = Some l"
    by blast
  have ok: "mgr_ok (eng_manager e)" using inv by (simp add: eng_inv_def)
  obtain b where b: "encodeWriteOperation \<lparr>op_Type = writeOperationDelete, op_SegmentID = SegmentID l,
      op_DocID = DocID l, op_PrimaryKey = k, op_Payload = []\<rparr> = Inr b"
    using encodeWriteOperation_ok [OF _ k, of writeOperationDelete "[]"] by auto
  have eff: "delete_effect k (mgr_kv (eng_manager e)) = Some (mgr_kv (remove_version k l (eng_manager e)))"
    using mgr_kv_None [OF ok, of k] l by (simp add: delete_effect_def mgr_kv_remove_version [OF ok l])
  have "write_outcome (delete_effect k) m0 ps e (case log_operation
        \<lparr>op_Type = writeOperationDelete, op_SegmentID = SegmentID l, op_DocID = DocID l, op_PrimaryKey = k, op_Payload = []\<rparr> e w of
      (Some err, e, w) \<Rightarrow> (Inl err, e, w)
    | (None, e, w) \<Rightarrow> finish e w (apply_delete k l (eng_manager e) (without_cancel w)))"
    by (rule logged_outcome [where apply_it = "apply_delete k l" and effect = "delete_effect k", OF inv b apply_remove_version(2) [OF l] remove_version_ok [OF ok l]
          apply_remove_version(1) [OF l] eff])
  then show ?thesis by (simp add: deleteOneLocked_def k l)
qed

interpretation insert_write: logged_write insertOneLocked insert_effect
  by unfold_locales (rule insert_outcome)

interpretation upsert_write: logged_write upsertOneLocked upsert_effect
  by unfold_locales (rule upsert_outcome)

interpretation update_write: logged_write updateOneLocked update_effect
  by unfold_locales (rule update_outcome)

interpretation delete_write: logged_write deleteOneLocked delete_effect
  by unfold_locales (rule delete_outcome)

section \<open>Histories of the engine\<close>

text \<open>A step is one write that does not strand its record, or a new call: another context and
  another schedule of input and output faults.\<close>

inductive engine_step :: "WriteEngine \<times> world \<Rightarrow> WriteEngine \<times> world \<Rightarrow> bool" where
  step_insert: "insertOneLocked i e w = (r, e', w') \<Longrightarrow> settled r e e' \<Longrightarrow> engine_step (e, w) (e', w')"
| step_upsert: "upsertOneLocked i e w = (r, e', w') \<Longrightarrow> settled r e e' \<Longrightarrow> engine_step (e, w) (e', w')"
| step_update: "updateOneLocked i e w = (r, e', w') \<Longrightarrow> settled r e e' \<Longrightarrow> engine_step (e, w) (e', w')"
| step_delete: "deleteOneLocked k e w = (r, e', w') \<Longrightarrow> settled r e e' \<Longrightarrow> engine_step (e, w) (e', w')"
| step_call: "engine_step (e, w) (e, w\<lparr>polls := n, outcomes := ios\<rparr>)"

inductive_cases engine_stepE: "engine_step (e, w) (e', w')"

lemma eng_inv_call: "eng_inv m0 ps e (w\<lparr>polls := n, outcomes := ios\<rparr>) = eng_inv m0 ps e w"
  by (simp add: eng_inv_def wal_holds_def wal_durable_def wal_tail_def)

lemma engine_step_inv:
  assumes "engine_step (e, w) (e', w')" and "eng_inv m0 ps e w"
  shows "\<exists>qs. eng_inv m0 (ps @ qs) e' w'"
  using assms(1)
  by (rule engine_stepE)
    (use assms(2) insert_write.settled_inv upsert_write.settled_inv update_write.settled_inv delete_write.settled_inv
      in \<open>auto simp: eng_inv_call intro: exI [of _ "[]"]\<close>)

lemma engine_reachable_inv:
  assumes "engine_step\<^sup>*\<^sup>* (e, w) (e', w')" and "eng_inv m0 ps e w"
  shows "\<exists>qs. eng_inv m0 (ps @ qs) e' w'"
  using assms
proof (induction "(e', w')" arbitrary: e' w' rule: rtranclp_induct)
  case base
  then show ?case by (metis append_Nil2)
next
  case (step y)
  obtain e1 w1 where y: "y = (e1, w1)" by (cases y)
  from step.hyps(3) [OF y step.prems] obtain qs where "eng_inv m0 (ps @ qs) e1 w1" by blast
  from engine_step_inv [OF _ this] step.hyps(2) y show ?case by (metis append.assoc)
qed

section \<open>The first state\<close>

lemma CreateWAL_empty:
  assumes "CreateWAL name opts lock w = (Inr l, w')"
  shows "wal_holds [] l w' \<and> wal_durable [] l w' \<and> wal_poisoned l = None \<and> wal_path l = name"
proof -
  obtain w1 w2 w3 w4 where cr: "os_CreateExcl name w1 = (None, w2)"
    and wr: "file_WriteFullAt name encodeWALFileHeader 0 w2 = (None, w3)"
    and sy: "file_Sync name w3 = (None, w4)" and ds: "syncDirectory w4 = (None, w')"
    and l: "wal_path l = name" "wal_size l = 32" "wal_lastLSN l = 0" "wal_poisoned l = None"
    using assms by (auto simp: CreateWAL_def walFileHeaderSize_def split: if_splits prod.splits option.splits sum.splits)
  have f2: "fs w2 name = Some \<lparr>content = [], synced = 0\<rparr>"
    using cr by (auto simp: os_CreateExcl_def split: prod.splits option.splits if_splits)
  obtain c ios where wf: "WriteFullAt (outcomes w2) [] encodeWALFileHeader 0 = (None, c, ios)"
    and w3: "w3 = set_file name \<lparr>content = c, synced = 0\<rparr> (w2\<lparr>outcomes := ios\<rparr>)"
    using wr f2 by (auto simp: file_WriteFullAt_def split: prod.splits)
  have c: "c = wal_image []"
    using WriteFullAt_at_end [of "outcomes w2" "[]" encodeWALFileHeader] wf by (auto simp: wal_image_def)
  have f3: "fs w3 name = Some \<lparr>content = c, synced = 0\<rparr>" by (simp add: w3)
  have f4: "fs w4 name = Some \<lparr>content = c, synced = length c\<rparr>" using file_Sync_durable [OF sy f3] by simp
  have "fs w' = fs w4" using ds io_step_frame by (auto simp: syncDirectory_def)
  then show ?thesis using f4 c l log_file_self [of "[]"]
    by (auto simp: wal_holds_def wal_durable_def)
qed

lemma eng_inv_start:
  assumes "CreateWAL name opts lock w = (Inr l, w')" and "mgr_ok m0"
  shows "eng_inv m0 [] \<lparr>eng_manager = m0, eng_wal = l\<rparr> w'"
  using CreateWAL_empty [OF assms(1)] assms(2) wal_holds_tail [of "[]" l w']
  by (auto simp: eng_inv_def inflight_def)

section \<open>Recovery after a crash\<close>

lemma replay_of_open:
  assumes "wal_path l = name" "\<not> wal_closed l" "wal_poisoned l = None"
    "wal_size l = length (wal_image ps)" "polls w = None" "outcomes w = []"
    "\<exists>f. fs w name = Some f \<and> take (length (wal_image ps)) (content f) = wal_image ps" "list_all valid_payload ps"
  shows "replayWriteWAL l m w = replay_payloads replay_record 1 ps m w"
  using assms write_replay.replay [of w l _ ps m] by (auto simp: replayWriteWAL_def)

text \<open>Recovery from a crash image finds every record of the log, and possibly the one whose outcome was unknown.\<close>

lemma log_recovery:
  assumes inv: "eng_inv m0 ps e w" and f: "fs w (wal_path (eng_wal e)) = Some f" and c: "crash_image f c"
    and name: "wal_path (eng_wal e) \<noteq> []" and short: "length ps + 1 < 2 ^ 64"
    and w1: "polls w1 = None" "outcomes w1 = []" "fs w1 (wal_path (eng_wal e)) = Some f1" "content f1 = c"
  obtains l w2 rs m' where "OpenWAL (wal_path (eng_wal e)) opts (Inr True) w1 = (Inr l, w2)"
    "wal_holds (ps @ rs) l w2" "wal_path l = wal_path (eng_wal e)" "wal_poisoned l = None" "polls w2 = None" "replays (ps @ rs) m0 m'"
    "\<And>m. replayWriteWAL l m w2 = replay_payloads replay_record 1 (ps @ rs) m w2"
    "\<And>p. p \<noteq> wal_path (eng_wal e) \<Longrightarrow> fs w2 p = fs w1 p"
    "m' = eng_manager e \<or> wal_poisoned (eng_wal e) \<noteq> None \<and> mgr_ok m' \<and> (\<exists>p. replays [p] (eng_manager e) m')"
proof -
  let ?l = "eng_wal e"
  obtain qs where t: "wal_tail ps qs ?l w" and fl: "inflight qs (eng_manager e)" using inv by (auto simp: eng_inv_def)
  have rp: "replays ps m0 (eng_manager e)" using inv by (simp add: eng_inv_def)
  have lf: "log_file ps qs (content f)" using t f by (auto simp: wal_tail_def)
  have dur: "length (wal_image ps) \<le> synced f" "synced f \<le> length (content f)"
    using inv f by (auto simp: eng_inv_def wal_durable_def)
  obtain n where n: "synced f \<le> n" "c = take n (content f)" using c by (auto simp: crash_image_def)
  have lc: "log_file ps qs (content f1)"
    unfolding w1(4) n(2) by (rule crash_log_file [OF lf]) (use dur n in auto)
  have len: "length (ps @ qs) < 2 ^ 64" using short fl by (auto simp: inflight_def)
  obtain rs ss l w2 where rs: "qs = rs @ ss"
    and op: "openWAL (wal_path ?l) opts False (Inr True) w1 = (Inr l, w2)"
    and l: "wal_path l = wal_path ?l" "\<not> wal_closed l" "wal_poisoned l = None"
      "wal_size l = length (wal_image (ps @ rs))" "polls w2 = None" "outcomes w2 = []"
      "\<exists>f'. fs w2 (wal_path ?l) = Some f' \<and> take (length (wal_image (ps @ rs))) (content f') = wal_image (ps @ rs)"
    and h: "\<not> False \<longrightarrow> wal_holds (ps @ rs) l w2" "\<forall>m. m \<noteq> wal_path ?l \<longrightarrow> fs w2 m = fs w1 m"
    by (rule openWAL_log_file [OF lc w1(3) name w1(1,2) len, of opts False]) (rule that; assumption)
  have v: "list_all valid_payload (ps @ rs)" using lf rs by (simp add: log_file_def)
  have re: "replayWriteWAL l m w2 = replay_payloads replay_record 1 (ps @ rs) m w2" for m
    by (rule replay_of_open [OF l v])
  obtain m' where m': "replays (ps @ rs) m0 m'"
    "m' = eng_manager e \<or> wal_poisoned ?l \<noteq> None \<and> mgr_ok m' \<and> (\<exists>p. replays [p] (eng_manager e) m')"
  proof (cases "rs = []")
    case True
    then show ?thesis using that rp by simp
  next
    case False
    then obtain p m' where p: "rs = [p]" "replays [p] (eng_manager e) m'" "mgr_ok m'"
      using fl rs by (auto simp: inflight_def append_eq_Cons_conv)
    have "wal_poisoned ?l \<noteq> None" using t False rs by (auto simp: wal_tail_def)
    then show ?thesis using that [of m'] replays_append [OF rp p(2)] p by auto
  qed
  show thesis
    by (rule that [OF _ _ l(1) l(3) l(5) m'(1) re _ m'(2)]) (use op h in \<open>auto simp: OpenWAL_def\<close>)
qed

lemma engine_recovery:
  assumes inv: "eng_inv m0 ps e w" and f: "fs w (wal_path (eng_wal e)) = Some f" and c: "crash_image f c"
    and name: "wal_path (eng_wal e) \<noteq> []" and short: "length ps + 1 < 2 ^ 64"
    and w1: "polls w1 = None" "outcomes w1 = []" "fs w1 (wal_path (eng_wal e)) = Some f1" "content f1 = c"
  shows "\<exists>l w2 m'. OpenWAL (wal_path (eng_wal e)) opts (Inr True) w1 = (Inr l, w2)
    \<and> replayWriteWAL l m0 w2 = (None, m', w2)
    \<and> (m' = eng_manager e
       \<or> wal_poisoned (eng_wal e) \<noteq> None \<and> mgr_ok m' \<and> (\<exists>p. replays [p] (eng_manager e) m'))"
  by (rule log_recovery [OF assms, of opts]) (auto simp: replays_def)

section \<open>A write that strands its record\<close>

lemma WAL_Append_quiet:
  assumes h: "wal_holds ps l w" and np: "wal_poisoned l = None" and op: "\<not> wal_closed l" "\<not> wal_readOnly l"
    and se: "SyncEvery (wal_options l) = 0" and io: "outcomes w = []" and c: "ctx_Err w = (None, w1)"
    and p: "valid_payload p" and len: "length ps + 1 < 2 ^ 64"
  obtains l' w' where "WAL_Append p l w = ((of_nat (length ps) + 1, None), l', w')" "wal_holds (ps @ [p]) l' w'"
    "wal_poisoned l' = None" "\<not> wal_closed l'" "\<not> wal_readOnly l'" "SyncEvery (wal_options l') = 0"
    "wal_path l' = wal_path l" "outcomes w' = []" "polls w' = polls w1"
proof -
  have "unat (of_nat (length ps) :: u64) \<noteq> unat MaxUint64" using len by (simp add: unat_of_nat unat_MaxUint64)
  then have last: "wal_lastLSN l = of_nat (length ps)" "wal_lastLSN l \<noteq> MaxUint64"
    using h by (auto simp: wal_holds_def)
  obtain f where f: "fs w1 (wal_path l) = Some f" using h ctx_Err_frame [OF c] by (auto simp: wal_holds_def)
  let ?enc = "encodeWALRecord (of_nat (length ps) + 1) p"
  let ?w = "set_file (wal_path l) (f\<lparr>content := write_at (content f) (wal_size l) ?enc\<rparr>) (w1\<lparr>outcomes := []\<rparr>)"
  have wr: "file_WriteFullAt (wal_path l) ?enc (wal_size l) w1 = (None, ?w)"
    using f io ctx_Err_frame [OF c] by (cases ?enc) (auto simp: file_WriteFullAt_def write_at_def)
  let ?l = "l\<lparr>wal_size := wal_size l + length ?enc, wal_lastLSN := wal_lastLSN l + 1,
      wal_dirtyRecords := wal_dirtyRecords l + 1\<rparr>"
  have ap: "WAL_Append p l w = ((of_nat (length ps) + 1, None), ?l, ?w)"
    using c p op np last wr se by (simp add: WAL_Append_def valid_payload_def Let_def not_less)
  moreover have "(of_nat (length ps) + 1 :: u64) \<noteq> 0" using last by (metis add.commute eq_neg_iff_add_eq_0)
  ultimately have "wal_holds (ps @ [p]) ?l ?w" using WAL_Append_cases [OF h ap] by auto
  then show ?thesis using that [OF ap] np op se by simp
qed


text \<open>An operation logged in quiet surroundings: with a live context it is synchronised as well.\<close>

definition log_ready :: "bytes list \<Rightarrow> WriteEngine \<Rightarrow> world \<Rightarrow> bool" where
  "log_ready ps e w \<longleftrightarrow> wal_holds ps (eng_wal e) w \<and> wal_poisoned (eng_wal e) = None \<and> \<not> wal_closed (eng_wal e)
     \<and> \<not> wal_readOnly (eng_wal e) \<and> SyncEvery (wal_options (eng_wal e)) = 0 \<and> outcomes w = []"

lemma log_operation_quiet:
  assumes r: "log_ready ps e w" and enc: "encodeWriteOperation op = Inr b" and b: "valid_payload b"
    and len: "length ps + 1 < 2 ^ 64" and w: "polls w = None"
  obtains e' w' where "log_operation op e w = (None, e', w')" "log_ready (ps @ [b]) e' w'"
    "eng_manager e' = eng_manager e" "wal_path (eng_wal e') = wal_path (eng_wal e)" "polls w' = None"
proof -
  have c: "ctx_Err w = (None, w)" using w by simp
  obtain l' w' where ap: "WAL_Append b (eng_wal e) w = ((of_nat (length ps) + 1, None), l', w')"
    and h: "wal_holds (ps @ [b]) l' w'" and l: "wal_poisoned l' = None" "\<not> wal_closed l'" "\<not> wal_readOnly l'"
      "SyncEvery (wal_options l') = 0" "wal_path l' = wal_path (eng_wal e)" "outcomes w' = []" "polls w' = polls w"
    by (rule WAL_Append_quiet [OF _ _ _ _ _ _ c b len]) (use r in \<open>auto simp: log_ready_def\<close>)
  obtain f where f: "fs w' (wal_path l') = Some f" using h by (auto simp: wal_holds_def)
  let ?w = "set_file (wal_path l') (f\<lparr>synced := length (content f)\<rparr>) w'"
  have sy: "WAL_Sync l' w' = (None, l'\<lparr>wal_dirtyRecords := 0\<rparr>, ?w)"
    using l w f by (simp add: WAL_Sync_def file_Sync_def)
  have "wal_holds (ps @ [b]) (l'\<lparr>wal_dirtyRecords := 0\<rparr>) ?w" using WAL_Sync_durable [OF h sy] by simp
  then show ?thesis
    using that [of "e\<lparr>eng_wal := l'\<lparr>wal_dirtyRecords := 0\<rparr>\<rparr>" ?w] enc ap sy l w
    by (simp add: log_operation_def log_ready_def)
qed

lemma log_operation_cancelled:
  assumes r: "log_ready ps e w" and enc: "encodeWriteOperation op = Inr b" and b: "valid_payload b"
    and len: "length ps + 1 < 2 ^ 64" and w: "polls w = Some 1"
  obtains e' w' where "log_operation op e w = (Some (Sentinel ContextCanceled), e', w')" "log_ready (ps @ [b]) e' w'"
    "eng_manager e' = eng_manager e" "wal_path (eng_wal e') = wal_path (eng_wal e)"
proof -
  have c: "ctx_Err w = (None, w\<lparr>polls := Some 0\<rparr>)" using w by (simp add: ctx_Err_def)
  obtain l' w' where ap: "WAL_Append b (eng_wal e) w = ((of_nat (length ps) + 1, None), l', w')"
    and h: "wal_holds (ps @ [b]) l' w'" and l: "wal_poisoned l' = None" "\<not> wal_closed l'" "\<not> wal_readOnly l'"
      "SyncEvery (wal_options l') = 0" "wal_path l' = wal_path (eng_wal e)" "outcomes w' = []" "polls w' = Some 0"
    by (rule WAL_Append_quiet [OF _ _ _ _ _ _ c b len]) (use r in \<open>auto simp: log_ready_def\<close>)
  have "WAL_Sync l' w' = (Some (Sentinel ContextCanceled), l', w')" using l by (simp add: WAL_Sync_def ctx_Err_def)
  then show ?thesis
    using that [of "e\<lparr>eng_wal := l'\<rparr>" w'] enc ap h l by (simp add: log_operation_def log_ready_def)
qed

lemma WriteSegment_append_wrong:
  "polls w = None \<Longrightarrow> d \<noteq> ws_minDocID s + len64 (ws_docs s) \<Longrightarrow>
     \<exists>err. WriteSegment_append (Some d) k p s w = (Inl err, s, w)"
  by (simp add: WriteSegment_append_def Let_def split: option.split)

lemma second_append_refused:
  assumes ok: "mgr_ok m" and ws: "mgr_writing m = Some ws" and d: "WriteSegment_NextDocumentID ws = Inr d"
    and k: "validatePrimaryKey k = None" "length p \<le> MaxDocumentPayloadSize" and w: "polls w = None"
  shows "\<exists>err m'. applyRecoveredOperation \<lparr>op_Type = writeOperationInsert, op_SegmentID = ws_id ws, op_DocID = d,
    op_PrimaryKey = k', op_Payload = p'\<rparr> (put_version k p ws d m) w = (Some err, m', w)"
proof -
  let ?m = "put_version k p ws d m" and ?x = "\<lparr>doc_DocID = d, doc_PrimaryKey = k, doc_Payload = p\<rparr>"
  let ?ws = "ws\<lparr>ws_docs := ws_docs ws @ [?x]\<rparr>"
  have wr: "mgr_writing ?m = Some ?ws" by (simp add: put_version_simps [OF ws])
  have "d = ws_minDocID ws + len64 (ws_docs ws)"
    using NextDocumentID_future(2) [OF _ d] mgr_wf_writing [OF mgr_okD(1) [OF ok] ws] by blast
  then have "d \<noteq> ws_minDocID ?ws + len64 (ws_docs ?ws)" by (simp add: len64_def)
  then obtain err where "WriteSegment_append (Some d) k' p' ?ws w = (Inl err, ?ws, w)"
    using WriteSegment_append_wrong [OF w] by blast
  then have "\<exists>err m'. writing_AppendExpected d k' p' ?m w = (Inl err, m', w)"
    by (simp add: writing_AppendExpected_def wr WriteSegment_AppendExpected_def)
  then show ?thesis
    by (auto simp: applyRecoveredOperation_def recover_insert_def wr writeOperationTypes)
qed

lemma replay_second_refused:
  assumes inv: "replays ps m0 m" and ok: "mgr_ok m" and ws: "mgr_writing m = Some ws"
    and d: "WriteSegment_NextDocumentID ws = Inr d"
    and i: "validatePrimaryKey (in_PrimaryKey i) = None" "length (in_Payload i) \<le> MaxDocumentPayloadSize"
      "PrimaryKeyMap_Get (in_PrimaryKey i) (mgr_primaryKey m) = None"
    and b1: "encodeWriteOperation \<lparr>op_Type = writeOperationInsert, op_SegmentID = ws_id ws, op_DocID = d,
      op_PrimaryKey = in_PrimaryKey i, op_Payload = in_Payload i\<rparr> = Inr b1"
    and b2: "encodeWriteOperation \<lparr>op_Type = writeOperationInsert, op_SegmentID = ws_id ws, op_DocID = d,
      op_PrimaryKey = in_PrimaryKey j, op_Payload = in_Payload j\<rparr> = Inr b2" and w: "polls w = None"
  shows "\<exists>err m'. replay_payloads replay_record lsn (ps @ [b1, b2]) m0 w = (Some err, m', w) \<and> errors_Is err ErrWALCorrupt"
proof -
  have r1: "replays [b1] m (put_version (in_PrimaryKey i) (in_Payload i) ws d m)"
    by (rule replays_operation [OF b1 recover_put_version [OF ok ws d i(1,2)]]) (use i in auto)
  note r12 = replays_append [OF inv r1]
  from second_append_refused [OF ok ws d i(1,2) w, of "in_PrimaryKey j" "in_Payload j"] obtain err m' where
    "replay_record \<lparr>rec_LSN = n, rec_Payload = b2\<rparr> (put_version (in_PrimaryKey i) (in_Payload i) ws d m) w
       = (Some (corrupt ErrWALCorrupt err), m', w)" for n
    using decode_encodeWriteOperation [OF b2] by (auto simp: replay_record_def)
  then show ?thesis
    using r12 w replay_payloads_append [of replay_record lsn "ps @ [b1]" "[b2]" m0 w] by (simp add: replays_def)
qed

lemma insertOneLocked_logged:
  assumes "validatePrimaryKey (in_PrimaryKey i) = None" and "length (in_Payload i) \<le> MaxDocumentPayloadSize"
    and "PrimaryKeyMap_Get (in_PrimaryKey i) (mgr_primaryKey (eng_manager e)) = None"
    and "mgr_writing (eng_manager e) = Some ws" and "WriteSegment_NextDocumentID ws = Inr d"
  shows "insertOneLocked i e w = (case log_operation
          \<lparr>op_Type = writeOperationInsert, op_SegmentID = ws_id ws, op_DocID = d,
           op_PrimaryKey = in_PrimaryKey i, op_Payload = in_Payload i\<rparr> e w of
        (Some err, e, w) \<Rightarrow> (Inl err, e, w)
      | (None, e, w) \<Rightarrow> finish e w (apply_put (in_PrimaryKey i) d (in_Payload i) None (ws_id ws)
                    (eng_manager e) (without_cancel w)))"
  using assms by (simp add: insertOneLocked_def)

definition small_input :: "WriteInput \<Rightarrow> bool" where
  "small_input i \<longleftrightarrow> validatePrimaryKey (in_PrimaryKey i) = None
     \<and> 36 + length (in_PrimaryKey i) + length (in_Payload i) \<le> MaxWALRecordSize"

lemma small_input_encode:
  assumes "small_input i"
  obtains b where "encodeWriteOperation \<lparr>op_Type = writeOperationInsert, op_SegmentID = s, op_DocID = d,
      op_PrimaryKey = in_PrimaryKey i, op_Payload = in_Payload i\<rparr> = Inr b" "valid_payload b"
    "length (in_Payload i) \<le> MaxDocumentPayloadSize"
proof -
  have k: "validatePrimaryKey (in_PrimaryKey i) = None" and p: "length (in_Payload i) \<le> MaxDocumentPayloadSize"
    using assms by (auto simp: small_input_def wal_sizes MaxDocumentPayloadSize_def)
  obtain b where b: "encodeWriteOperation \<lparr>op_Type = writeOperationInsert, op_SegmentID = s, op_DocID = d,
      op_PrimaryKey = in_PrimaryKey i, op_Payload = in_Payload i\<rparr> = Inr b"
    using encodeWriteOperation_ok [OF _ k p, of writeOperationInsert] by auto
  then have "length b = 36 + length (in_PrimaryKey i) + length (in_Payload i)"
    by (auto simp: encodeWriteOperation_Inr)
  then have "valid_payload b" using assms by (auto simp: valid_payload_def small_input_def)
  then show ?thesis using that b p by blast
qed

lemma stranded_insert_breaks_recovery:
  assumes inv: "eng_inv m0 ps e w" and rd: "log_ready ps e w" and len: "length ps + 2 < 2 ^ 64"
    and ws: "mgr_writing (eng_manager e) = Some ws" and d: "WriteSegment_NextDocumentID ws = Inr d"
    and ij: "small_input i" "small_input j"
    and new: "PrimaryKeyMap_Get (in_PrimaryKey i) (mgr_primaryKey (eng_manager e)) = None"
      "PrimaryKeyMap_Get (in_PrimaryKey j) (mgr_primaryKey (eng_manager e)) = None"
    and path: "wal_path (eng_wal e) \<noteq> []" and w: "polls w = Some 1"
  shows "\<exists>e1 w1 e2 w2 l w3 err m'.
    insertOneLocked i e w = (Inl (Sentinel ContextCanceled), e1, w1)
    \<and> insertOneLocked j e1 (w1\<lparr>polls := None\<rparr>) = (Inr d, e2, w2)
    \<and> OpenWAL (wal_path (eng_wal e)) opts (Inr True) w2 = (Inr l, w3)
    \<and> replayWriteWAL l m0 w3 = (Some err, m', w3) \<and> errors_Is err ErrWALCorrupt"
proof -
  let ?m = "eng_manager e"
  let ?op = "\<lambda>i. \<lparr>op_Type = writeOperationInsert, op_SegmentID = ws_id ws, op_DocID = d,
      op_PrimaryKey = in_PrimaryKey i, op_Payload = in_Payload i\<rparr>"
  have ok: "mgr_ok ?m" and rp: "replays ps m0 ?m" using inv by (auto simp: eng_inv_def)
  obtain b1 where b1: "encodeWriteOperation (?op i) = Inr b1" "valid_payload b1" "length (in_Payload i) \<le> MaxDocumentPayloadSize"
    by (rule small_input_encode [OF ij(1)])
  obtain b2 where b2: "encodeWriteOperation (?op j) = Inr b2" "valid_payload b2" "length (in_Payload j) \<le> MaxDocumentPayloadSize"
    by (rule small_input_encode [OF ij(2)])
  have k: "validatePrimaryKey (in_PrimaryKey i) = None" "validatePrimaryKey (in_PrimaryKey j) = None"
    using ij by (auto simp: small_input_def)
  obtain e1 w1 where lg1: "log_operation (?op i) e w = (Some (Sentinel ContextCanceled), e1, w1)"
    and rd1: "log_ready (ps @ [b1]) e1 w1" and m1: "eng_manager e1 = ?m" and p1: "wal_path (eng_wal e1) = wal_path (eng_wal e)"
    by (rule log_operation_cancelled [OF rd b1(1,2) _ w]) (use len in auto)
  have ins1: "insertOneLocked i e w = (Inl (Sentinel ContextCanceled), e1, w1)"
    by (simp add: insertOneLocked_logged [OF k(1) b1(3) new(1) ws d] lg1)
  have rd1': "log_ready (ps @ [b1]) e1 (w1\<lparr>polls := None\<rparr>)"
    using rd1 by (auto simp: log_ready_def wal_holds_def)
  obtain e2 w2 where lg2: "log_operation (?op j) e1 (w1\<lparr>polls := None\<rparr>) = (None, e2, w2)"
    and rd2: "log_ready ((ps @ [b1]) @ [b2]) e2 w2" and m2: "eng_manager e2 = ?m"
    and p2: "wal_path (eng_wal e2) = wal_path (eng_wal e)" and w2: "polls w2 = None"
    by (rule log_operation_quiet [OF rd1' b2(1,2)]) (use len m1 p1 in auto)
  have "apply_put (in_PrimaryKey j) d (in_Payload j) None (ws_id ws) ?m (without_cancel w2)
      = (Inr d, put_version (in_PrimaryKey j) (in_Payload j) ws d ?m, without_cancel w2)"
    using apply_put_version [OF ok ws d k(2) b2(3), of "without_cancel w2"] new(2) by simp
  then have ins2: "insertOneLocked j e1 (w1\<lparr>polls := None\<rparr>)
      = (Inr d, e2\<lparr>eng_manager := put_version (in_PrimaryKey j) (in_Payload j) ws d ?m\<rparr>, w2)"
    using insertOneLocked_logged [of j e1 ws d] k(2) b2(3) new(2) ws d m1
    by (simp add: lg2 m2 finish_without_cancel)
  obtain f where f: "fs w2 (wal_path (eng_wal e)) = Some f" "content f = wal_image (ps @ [b1, b2])"
      "list_all valid_payload (ps @ [b1, b2])"
    using rd2 p2 by (auto simp: log_ready_def wal_holds_def log_file_def)
  have io: "outcomes w2 = []" using rd2 by (simp add: log_ready_def)
  have lf: "log_file (ps @ [b1, b2]) [] (content f)" using log_file_self [OF f(3)] f(2) by simp
  obtain l w3 where opn: "openWAL (wal_path (eng_wal e)) opts False (Inr True) w2 = (Inr l, w3)"
    and l: "wal_path l = wal_path (eng_wal e)" "\<not> wal_closed l" "wal_poisoned l = None"
      "wal_size l = length (wal_image ((ps @ [b1, b2]) @ []))" "polls w3 = None" "outcomes w3 = []"
      "\<exists>f'. fs w3 (wal_path (eng_wal e)) = Some f'
         \<and> take (length (wal_image ((ps @ [b1, b2]) @ []))) (content f') = wal_image ((ps @ [b1, b2]) @ [])"
    by (rule openWAL_log_file [OF lf f(1) path w2 io, of opts False]) (use len that in auto)
  have "replayWriteWAL l m0 w3 = replay_payloads replay_record 1 ((ps @ [b1, b2]) @ []) m0 w3"
    by (rule replay_of_open [OF l]) (use f(3) in simp)
  then show ?thesis
    using replay_second_refused [OF rp ok ws d k(1) b1(3) new(1) b1(1) b2(1) l(5), of 1] ins1 ins2 opn
    by (auto simp: OpenWAL_def)
qed

text \<open>Without cancellation and without failures of the disk an insert of a small document under a new
  key succeeds while the segment has room.\<close>

lemma insert_succeeds:
  assumes inv: "eng_inv m0 ps e w" and rd: "log_ready ps e w" and w: "polls w = None" and len: "length ps + 1 < 2 ^ 64"
    and ws: "mgr_writing (eng_manager e) = Some ws" and d: "WriteSegment_NextDocumentID ws = Inr d"
    and i: "small_input i" and new: "PrimaryKeyMap_Get (in_PrimaryKey i) (mgr_primaryKey (eng_manager e)) = None"
  obtains e' w' p where "insertOneLocked i e w = (Inr d, e', w')" "eng_inv m0 (ps @ [p]) e' w'"
    "mgr_kv (eng_manager e') = (mgr_kv (eng_manager e))(in_PrimaryKey i \<mapsto> in_Payload i)"
    "polls w' = None" "log_ready (ps @ [p]) e' w'" "wal_path (eng_wal e') = wal_path (eng_wal e)"
    "eng_manager e' = put_version (in_PrimaryKey i) (in_Payload i) ws d (eng_manager e)"
proof -
  obtain b where b: "encodeWriteOperation \<lparr>op_Type = writeOperationInsert, op_SegmentID = ws_id ws, op_DocID = d,
      op_PrimaryKey = in_PrimaryKey i, op_Payload = in_Payload i\<rparr> = Inr b" "valid_payload b"
    "length (in_Payload i) \<le> MaxDocumentPayloadSize" by (rule small_input_encode [OF i])
  obtain e1 w1 where lg: "log_operation \<lparr>op_Type = writeOperationInsert, op_SegmentID = ws_id ws, op_DocID = d,
      op_PrimaryKey = in_PrimaryKey i, op_Payload = in_Payload i\<rparr> e w = (None, e1, w1)"
    and rd1: "log_ready (ps @ [b]) e1 w1" and m1: "eng_manager e1 = eng_manager e"
    and p1: "wal_path (eng_wal e1) = wal_path (eng_wal e)" and w1: "polls w1 = None"
    by (rule log_operation_quiet [OF rd b(1,2) len w])
  have ok: "mgr_ok (eng_manager e)" using inv by (simp add: eng_inv_def)
  have k: "validatePrimaryKey (in_PrimaryKey i) = None" using i by (simp add: small_input_def)
  let ?m = "put_version (in_PrimaryKey i) (in_Payload i) ws d (eng_manager e)"
  have "apply_put (in_PrimaryKey i) d (in_Payload i) None (ws_id ws) (eng_manager e) (without_cancel w1) = (Inr d, ?m, without_cancel w1)"
    using apply_put_version [OF ok ws d k b(3), of "without_cancel w1"] new by simp
  then have ins: "insertOneLocked i e w = (Inr d, e1\<lparr>eng_manager := ?m\<rparr>, w1)"
    using insertOneLocked_logged [OF k b(3) new ws d] lg m1 by (simp add: finish_without_cancel)
  have rp: "replays [b] (eng_manager e) ?m"
    by (rule replays_operation [OF b(1) recover_put_version [OF ok ws d k b(3)]]) (use new in auto)
  note c = log_operation_cases [OF inv b(1) rp put_version_ok [OF ok ws d k b(3)] lg]
  then have "eng_inv m0 (ps @ [b]) (e1\<lparr>eng_manager := ?m\<rparr>) w1"
    using eng_inv_applied [OF inv, of b e1 w1 ?m] rp put_version_ok [OF ok ws d k b(3)] by simp
  then show ?thesis
    using that [OF ins _ _ w1] mgr_kv_put_version [OF ok ws d k b(3)] rd1 p1 by (simp add: log_ready_def)
qed

section \<open>Batches\<close>

lemma batch_error_spec:
  "causes (batch_error rs) = List.map_filter wr_Err rs" "Failed (batch_error rs) = length (List.map_filter wr_Err rs)"
proof -
  have "foldl (\<lambda>b r. case wr_Err r of None \<Rightarrow> b | Some err \<Rightarrow> BatchWriteError_add err b) \<lparr>Failed = length es, causes = es\<rparr> rs
      = \<lparr>Failed = length (es @ List.map_filter wr_Err rs), causes = es @ List.map_filter wr_Err rs\<rparr>" for es
  proof (induction rs arbitrary: es)
    case (Cons r rs)
    show ?case
    proof (cases "wr_Err r")
      case (Some err)
      then show ?thesis using Cons.IH [of "es @ [err]"] by (simp add: BatchWriteError_add_def map_filter_simps)
    qed (use Cons.IH [of es] in \<open>simp add: map_filter_simps\<close>)
  qed (simp add: map_filter_simps)
  from this [of "[]"] show "causes (batch_error rs) = List.map_filter wr_Err rs"
    "Failed (batch_error rs) = length (List.map_filter wr_Err rs)" by (simp_all add: batch_error_def)
qed

lemma map_filter_None: "List.map_filter f xs = [] \<longleftrightarrow> list_all (\<lambda>x. f x = None) xs"
  by (induction xs) (auto simp: map_filter_simps split: option.splits)

definition batch_report :: "WriteResult list \<Rightarrow> BatchWriteError option \<Rightarrow> bool" where
  "batch_report results err \<longleftrightarrow>
     (case err of None \<Rightarrow> list_all (\<lambda>r. wr_Err r = None) results
      | Some b \<Rightarrow> causes b = List.map_filter wr_Err results \<and> Failed b = length (causes b) \<and> causes b \<noteq> [])"

context logged_write
begin

lemma run_batch_answer:
  assumes inv: "eng_inv m0 ps e w" and run: "run_batch key_of one inputs e w = (Inr (results, err), e', w')"
  shows "map wr_PrimaryKey results = map key_of inputs" "batch_report results err"
    "err = None \<Longrightarrow> (\<exists>qs. eng_inv m0 (ps @ qs) e' w' \<and> length qs = length inputs)
      \<and> effects effect inputs (mgr_kv (eng_manager e)) = Some (mgr_kv (eng_manager e'))"
proof -
  have b: "batch_loop key_of one inputs e w = (results, e', w')"
    and err: "err = (if 0 < Failed (batch_error results) then Some (batch_error results) else None)"
    using run by (auto simp: run_batch_def Let_def split: if_splits prod.splits)
  show "map wr_PrimaryKey results = map key_of inputs" using batch_keys [of key_of inputs e w] b by simp
  show rep: "batch_report results err"
    by (auto simp: err batch_report_def batch_error_spec map_filter_None)
  assume "err = None"
  then have "list_all (\<lambda>r. wr_Err r = None) results" using rep by (simp add: batch_report_def)
  from batch_success [OF inv b this]
  show "(\<exists>qs. eng_inv m0 (ps @ qs) e' w' \<and> length qs = length inputs)
      \<and> effects effect inputs (mgr_kv (eng_manager e)) = Some (mgr_kv (eng_manager e'))" by blast
qed

end

end
