(* ===== verification/Json_Scanner.thy ===== *)
theory Json_Scanner
  imports Go_Runtime
begin

text \<open>
  What the manifest uses of \<open>encoding/json\<close> to check the schema: \<open>json.Valid\<close>, as the byte-by-byte
  scanner of the library with its stack of open objects and arrays and its limit on their depth.
\<close>

datatype json_step =
    BeginValueOrEmpty | BeginValue | BeginStringOrEmpty | BeginString | EndValue | EndTop
  | InString | InStringEsc | InStringEscU nat
  | Neg | Num1 | Num0 | Dot | Dot0 | NumE | ESign | E0
  | Literal bytes

datatype parse_state = ObjectKey | ObjectValue | ArrayValue

type_synonym scanner = "json_step \<times> parse_state list"

definition maxNestingDepth :: nat where "maxNestingDepth = 10000"

definition json_space :: "u8 \<Rightarrow> bool" where
  "json_space c \<longleftrightarrow> c = 0x20 \<or> c = 0x09 \<or> c = 0x0D \<or> c = 0x0A"

definition json_digit :: "u8 \<Rightarrow> bool" where
  "json_digit c \<longleftrightarrow> 0x30 \<le> c \<and> c \<le> 0x39"

definition json_hex :: "u8 \<Rightarrow> bool" where
  "json_hex c \<longleftrightarrow> json_digit c \<or> 0x61 \<le> c \<and> c \<le> 0x66 \<or> 0x41 \<le> c \<and> c \<le> 0x46"

definition push_state :: "json_step \<Rightarrow> parse_state \<Rightarrow> parse_state list \<Rightarrow> scanner option" where
  "push_state st p stack = (if length stack < maxNestingDepth then Some (st, p # stack) else None)"

definition pop_state :: "parse_state list \<Rightarrow> scanner option" where
  "pop_state stack = Some (if stack = [] then EndTop else EndValue, stack)"

fun end_value :: "parse_state list \<Rightarrow> u8 \<Rightarrow> scanner option" where
  "end_value [] c = (if json_space c then Some (EndTop, []) else None)"
| "end_value (p # stack) c =
     (if json_space c then Some (EndValue, p # stack)
      else case p of
        ObjectKey \<Rightarrow> if c = 0x3A then Some (BeginValue, ObjectValue # stack) else None
      | ObjectValue \<Rightarrow>
          if c = 0x2C then Some (BeginString, ObjectKey # stack)
          else if c = 0x7D then pop_state stack else None
      | ArrayValue \<Rightarrow>
          if c = 0x2C then Some (BeginValue, ArrayValue # stack)
          else if c = 0x5D then pop_state stack else None)"

definition begin_value :: "parse_state list \<Rightarrow> u8 \<Rightarrow> scanner option" where
  "begin_value stack c =
     (if json_space c then Some (BeginValue, stack)
      else if c = 0x7B then push_state BeginStringOrEmpty ObjectKey stack
      else if c = 0x5B then push_state BeginValueOrEmpty ArrayValue stack
      else if c = 0x22 then Some (InString, stack)
      else if c = 0x2D then Some (Neg, stack)
      else if c = 0x30 then Some (Num0, stack)
      else if c = 0x74 then Some (Literal [0x72, 0x75, 0x65], stack)
      else if c = 0x66 then Some (Literal [0x61, 0x6C, 0x73, 0x65], stack)
      else if c = 0x6E then Some (Literal [0x75, 0x6C, 0x6C], stack)
      else if json_digit c then Some (Num1, stack)
      else None)"

definition begin_string :: "parse_state list \<Rightarrow> u8 \<Rightarrow> scanner option" where
  "begin_string stack c =
     (if json_space c then Some (BeginString, stack)
      else if c = 0x22 then Some (InString, stack) else None)"

definition number_rest :: "parse_state list \<Rightarrow> u8 \<Rightarrow> scanner option" where
  "number_rest stack c =
     (if c = 0x2E then Some (Dot, stack)
      else if c = 0x65 \<or> c = 0x45 then Some (NumE, stack)
      else end_value stack c)"

fun scan_step :: "scanner \<Rightarrow> u8 \<Rightarrow> scanner option" where
  "scan_step (BeginValueOrEmpty, stack) c =
     (if json_space c then Some (BeginValueOrEmpty, stack)
      else if c = 0x5D then end_value stack c else begin_value stack c)"
| "scan_step (BeginValue, stack) c = begin_value stack c"
| "scan_step (BeginStringOrEmpty, stack) c =
     (if json_space c then Some (BeginStringOrEmpty, stack)
      else if c = 0x7D then end_value (ObjectValue # tl stack) c else begin_string stack c)"
| "scan_step (BeginString, stack) c = begin_string stack c"
| "scan_step (EndValue, stack) c = end_value stack c"
| "scan_step (EndTop, stack) c = (if json_space c then Some (EndTop, stack) else None)"
| "scan_step (InString, stack) c =
     (if c = 0x22 then Some (EndValue, stack)
      else if c = 0x5C then Some (InStringEsc, stack)
      else if c < 0x20 then None else Some (InString, stack))"
| "scan_step (InStringEsc, stack) c =
     (if c \<in> {0x62, 0x66, 0x6E, 0x72, 0x74, 0x5C, 0x2F, 0x22} then Some (InString, stack)
      else if c = 0x75 then Some (InStringEscU 3, stack) else None)"
| "scan_step (InStringEscU n, stack) c =
     (if json_hex c then Some (if n = 0 then InString else InStringEscU (n - 1), stack) else None)"
| "scan_step (Neg, stack) c =
     (if c = 0x30 then Some (Num0, stack) else if json_digit c then Some (Num1, stack) else None)"
| "scan_step (Num1, stack) c = (if json_digit c then Some (Num1, stack) else number_rest stack c)"
| "scan_step (Num0, stack) c = number_rest stack c"
| "scan_step (Dot, stack) c = (if json_digit c then Some (Dot0, stack) else None)"
| "scan_step (Dot0, stack) c =
     (if json_digit c then Some (Dot0, stack)
      else if c = 0x65 \<or> c = 0x45 then Some (NumE, stack) else end_value stack c)"
| "scan_step (NumE, stack) c =
     (if c = 0x2B \<or> c = 0x2D then Some (ESign, stack)
      else if json_digit c then Some (E0, stack) else None)"
| "scan_step (ESign, stack) c = (if json_digit c then Some (E0, stack) else None)"
| "scan_step (E0, stack) c = (if json_digit c then Some (E0, stack) else end_value stack c)"
| "scan_step (Literal rest, stack) c =
     (case rest of
        [] \<Rightarrow> None
      | x # xs \<Rightarrow> if c \<noteq> x then None else Some (if xs = [] then EndValue else Literal xs, stack))"

fun scan_bytes :: "scanner \<Rightarrow> bytes \<Rightarrow> scanner option" where
  "scan_bytes s [] = Some s"
| "scan_bytes s (c # cs) = (case scan_step s c of None \<Rightarrow> None | Some s \<Rightarrow> scan_bytes s cs)"

text \<open>At the end of the input the scanner reads one space.\<close>

definition json_Valid :: "bytes \<Rightarrow> bool" where
  "json_Valid data =
     (case scan_bytes (BeginValue, []) (data @ [0x20]) of Some (EndTop, _) \<Rightarrow> True | _ \<Rightarrow> False)"

text \<open>Decoding a valid document into a \<open>map[string]json.RawMessage\<close> gives a map that is not nil exactly
  for an object.\<close>

definition json_Object :: "bytes \<Rightarrow> bool" where
  "json_Object data \<longleftrightarrow> json_Valid data \<and> take 1 (dropWhile json_space data) = [0x7B]"

lemma scan_bytes_append:
  "scan_bytes s (xs @ ys) = (case scan_bytes s xs of None \<Rightarrow> None | Some s' \<Rightarrow> scan_bytes s' ys)"
  by (induction s xs rule: scan_bytes.induct) (auto split: option.splits)

text \<open>White space around a document does not matter.\<close>

lemma scan_end_space: "scan_step (EndTop, stack) 0x20 = Some (EndTop, stack)"
  by (simp add: json_space_def)

lemma json_Valid_leading_space: "json_space c \<Longrightarrow> json_Valid (c # data) = json_Valid data"
  by (simp add: json_Valid_def begin_value_def)

lemma json_Object_empty: "json_Object [0x7B, 0x7D]"
  by (simp add: json_Object_def json_Valid_def begin_value_def json_space_def push_state_def maxNestingDepth_def
      pop_state_def)

lemma json_Valid_null: "json_Valid [0x6E, 0x75, 0x6C, 0x6C]" "\<not> json_Object [0x6E, 0x75, 0x6C, 0x6C]"
  by (simp_all add: json_Object_def json_Valid_def begin_value_def json_space_def)

end
