(* ===== verification/Manifest_File.thy ===== *)
theory Manifest_File
  imports Segment Json_Scanner
begin

text \<open>
  The manifest of \<open>internal/db/manifest.go\<close>: the immutable metadata snapshot of a collection, its
  validation and its file format.  A slice and its nil value are one list, so \<open>Clone\<close> is the identity.
  \<open>json.Marshal\<close> and \<open>json.Decoder\<close> on the manifest are parameters (\<open>json_lib\<close>): reflection over struct
  tags is not modelled; what the code relies on is the hypothesis \<open>json_stores\<close>.
\<close>

section \<open>Data\<close>

definition DiskFormatVersion :: u32 where "DiskFormatVersion = 1"
definition manifestHeaderSize :: nat where "manifestHeaderSize = 32"
definition maxManifestSize :: nat where "maxManifestSize = 64 * 2 ^ 20"

definition manifestMagic :: bytes where
  "manifestMagic = [0x5A, 0x56, 0x45, 0x43, 0x4D, 0x41, 0x4E, 0]"

record IndexArtifactMetadata =
  art_Field :: string
  art_Kind :: string
  art_File :: string

record SegmentIndexSnapshotMetadata =
  sis_SegmentID :: u64
  sis_SchemaSHA256 :: string
  sis_DocumentCount :: u64
  sis_MinDocumentID :: u64
  sis_MaxDocumentID :: u64
  sis_Artifacts :: "IndexArtifactMetadata list"

record Manifest =
  FormatVersion :: u32
  Generation :: u64
  Schema :: bytes
  EnableMmap :: bool
  SegmentMaxDocuments :: u64
  PersistedSegments :: "SegmentMetadata list"
  WritingSegment :: "SegmentMetadata option"
  WritingSegmentStartDocID :: u64
  IDMapGeneration :: u64
  DeleteSnapshotGeneration :: u64
  NextSegmentID :: u64
  SegmentIndexSnapshots :: "SegmentIndexSnapshotMetadata list"

section \<open>Validation\<close>

text \<open>The loop over the persisted segments: the IDs seen and the largest one.\<close>

fun validate_persisted :: "SegmentMetadata list \<Rightarrow> u64 list \<Rightarrow> u64 \<Rightarrow> (u64 list \<times> u64) result" where
  "validate_persisted [] ids maxSegmentID = Inr (ids, maxSegmentID)"
| "validate_persisted (segment # segments) ids maxSegmentID =
     (case validateSegment segment of
        Some e \<Rightarrow> Inl (corrupt ErrManifestCorrupt ''persisted segment'')
      | None \<Rightarrow>
      if seg_ID segment \<in> set ids then Inl (corrupt ErrManifestCorrupt ''duplicate segment ID'')
      else validate_persisted segments (seg_ID segment # ids) (max maxSegmentID (seg_ID segment)))"

definition validate_writing :: "SegmentMetadata option \<Rightarrow> u64 list \<Rightarrow> u64 \<Rightarrow> u64 result" where
  "validate_writing writing ids maxSegmentID =
     (case writing of None \<Rightarrow> Inr maxSegmentID | Some segment \<Rightarrow>
      case validateSegment segment of
        Some e \<Rightarrow> Inl (corrupt ErrManifestCorrupt ''writing segment'')
      | None \<Rightarrow>
      if seg_ID segment \<in> set ids then Inl (corrupt ErrManifestCorrupt ''writing segment ID is already persisted'')
      else Inr (max maxSegmentID (seg_ID segment)))"

text \<open>\<open>hex.DecodeString\<close> succeeds on pairs of hexadecimal digits.\<close>

definition hex_digit :: "char \<Rightarrow> bool" where
  "hex_digit c \<longleftrightarrow> json_hex (of_char c)"

definition hex_DecodeString_ok :: "string \<Rightarrow> bool" where
  "hex_DecodeString_ok s \<longleftrightarrow> even (length s) \<and> list_all hex_digit s"

text \<open>The key under which a field and a kind count as one artifact.\<close>

definition art_key :: "IndexArtifactMetadata \<Rightarrow> string" where
  "art_key artifact = art_Field artifact @ CHR 0x00 # art_Kind artifact"

text \<open>The loop over the artifacts of one index snapshot: the keys seen in it and the files seen in
  the manifest.\<close>

fun validate_artifacts :: "IndexArtifactMetadata list \<Rightarrow> string list \<Rightarrow> string list \<Rightarrow> string list result" where
  "validate_artifacts [] seenArtifacts seenFiles = Inr seenFiles"
| "validate_artifacts (artifact # artifacts) seenArtifacts seenFiles =
     (if art_Field artifact = [] \<or> art_Kind artifact = []
        then Inl (corrupt ErrManifestCorrupt ''index artifact has an empty field or kind'')
      else case validatePortableRelativePath (art_File artifact) of
        Some e \<Rightarrow> Inl (corrupt ErrManifestCorrupt ''index artifact'')
      | None \<Rightarrow>
      let key = art_key artifact in
      if key \<in> set seenArtifacts then Inl (corrupt ErrManifestCorrupt ''duplicate index artifact for field and kind'')
      else if art_File artifact \<in> set seenFiles
        then Inl (corrupt ErrManifestCorrupt ''duplicate segment index artifact file'')
      else validate_artifacts artifacts (key # seenArtifacts) (art_File artifact # seenFiles))"

fun validate_snapshots ::
  "SegmentMetadata list \<Rightarrow> SegmentIndexSnapshotMetadata list \<Rightarrow> u64 list \<Rightarrow> string list \<Rightarrow> go_error option" where
  "validate_snapshots segments [] seen seenFiles = None"
| "validate_snapshots segments (snapshot # snapshots) seen seenFiles =
     (case find (\<lambda>s. seg_ID s = sis_SegmentID snapshot) segments of
        None \<Rightarrow> Some (corrupt ErrManifestCorrupt ''segment index snapshot references missing segment'')
      | Some segment \<Rightarrow>
      if sis_SegmentID snapshot \<in> set seen
        then Some (corrupt ErrManifestCorrupt ''duplicate index snapshot for segment'')
      else if sis_DocumentCount snapshot \<noteq> DocCount segment \<or> sis_MinDocumentID snapshot \<noteq> MinDocID segment
           \<or> sis_MaxDocumentID snapshot \<noteq> MaxDocID segment
        then Some (corrupt ErrManifestCorrupt ''mismatched document bounds'')
      else if length (sis_SchemaSHA256 snapshot) \<noteq> 64 \<or> \<not> hex_DecodeString_ok (sis_SchemaSHA256 snapshot)
        then Some (corrupt ErrManifestCorrupt ''invalid segment index schema hash'')
      else case validate_artifacts (sis_Artifacts snapshot) [] seenFiles of
        Inl e \<Rightarrow> Some e
      | Inr seenFiles \<Rightarrow> validate_snapshots segments snapshots (sis_SegmentID snapshot # seen) seenFiles)"

definition Manifest_Validate :: "Manifest \<Rightarrow> go_error option" where
  "Manifest_Validate m =
     (if FormatVersion m \<noteq> DiskFormatVersion then Some (corrupt ErrUnsupportedFormatVersion ''format version'')
      else if Generation m = 0 then Some (corrupt ErrManifestCorrupt ''generation must be positive'')
      else if \<not> json_Valid (Schema m) then Some (corrupt ErrManifestCorrupt ''schema is not valid JSON'')
      else if SegmentMaxDocuments m = 0 then Some (corrupt ErrManifestCorrupt ''segment capacity must be positive'')
      else if \<not> json_Object (Schema m) then Some (corrupt ErrManifestCorrupt ''schema must be a JSON object'')
      else case validate_persisted (PersistedSegments m) [] 0 of Inl e \<Rightarrow> Some e | Inr (ids, maxSegmentID) \<Rightarrow>
      case validate_writing (WritingSegment m) ids maxSegmentID of Inl e \<Rightarrow> Some e | Inr maxSegmentID \<Rightarrow>
      if (PersistedSegments m \<noteq> [] \<or> WritingSegment m \<noteq> None) \<and> NextSegmentID m \<le> maxSegmentID
        then Some (corrupt ErrManifestCorrupt ''next segment ID'')
      else validate_snapshots (PersistedSegments m) (SegmentIndexSnapshots m) [] [])"

section \<open>The file format\<close>

text \<open>\<open>json.Marshal\<close> of a manifest, \<open>json.Unmarshal\<close> of its payload into a map of raw messages, and
  \<open>Decode\<close> of a decoder that refuses unknown fields, which also returns the bytes it has not read.\<close>

record json_lib =
  jl_Marshal :: "Manifest \<Rightarrow> bytes result"
  jl_Fields :: "bytes \<Rightarrow> (string \<rightharpoonup> bytes) result"
  jl_Decode :: "bytes \<Rightarrow> (Manifest \<times> bytes) result"

definition manifest_header :: "u64 \<Rightarrow> bytes \<Rightarrow> bytes" where
  "manifest_header generation payload =
     manifestMagic @ PutUint16 (ucast DiskFormatVersion) @ PutUint16 (word_of_nat manifestHeaderSize)
       @ PutUint64 generation @ PutUint64 (len64 payload) @ PutUint32 (CRC32C payload)"

definition MarshalManifest :: "json_lib \<Rightarrow> Manifest \<Rightarrow> bytes result" where
  "MarshalManifest jl m =
     (case Manifest_Validate m of Some e \<Rightarrow> Inl e | None \<Rightarrow>
      case jl_Marshal jl m of Inl e \<Rightarrow> Inl (Wrap ''db: marshal manifest payload'' e) | Inr payload \<Rightarrow>
      if maxManifestSize < length payload then Inl (corrupt ErrManifestCorrupt ''payload size'')
      else Inr (manifest_header (Generation m) payload @ payload))"

text \<open>\<open>ensureJSONEOF\<close> on the bytes the decoder has left: only white space may follow.\<close>

definition ensureJSONEOF :: "bytes \<Rightarrow> go_error option" where
  "ensureJSONEOF rest = (if list_all json_space rest then None else Some (NewError ''multiple JSON values''))"

definition json_null :: bytes where "json_null = [0x6E, 0x75, 0x6C, 0x6C]"

text \<open>\<open>bytes.TrimSpace\<close>; a raw message begins and ends with an ASCII byte, so its other spaces do not
  occur there.\<close>

definition ascii_space :: "u8 \<Rightarrow> bool" where
  "ascii_space c \<longleftrightarrow> c = 0x20 \<or> 0x09 \<le> c \<and> c \<le> 0x0D"

definition trim_space :: "bytes \<Rightarrow> bytes" where
  "trim_space b = rev (dropWhile ascii_space (rev (dropWhile ascii_space b)))"

definition UnmarshalManifest :: "json_lib \<Rightarrow> bytes \<Rightarrow> Manifest result" where
  "UnmarshalManifest jl encoded =
     (if length encoded < manifestHeaderSize
        then Inl (corrupt ErrManifestCorrupt ''file is shorter than the header'')
      else if bslice 0 8 encoded \<noteq> manifestMagic then Inl (corrupt ErrManifestCorrupt ''invalid magic'')
      else if (ucast (Uint16 (bslice 8 10 encoded)) :: u32) \<noteq> DiskFormatVersion
        then Inl (corrupt ErrUnsupportedFormatVersion ''format version'')
      else if Uint16 (bslice 10 12 encoded) \<noteq> word_of_nat manifestHeaderSize
        then Inl (corrupt ErrManifestCorrupt ''invalid header size'')
      else let generation = Uint64 (bslice 12 20 encoded);
               payloadLength = unat (Uint64 (bslice 20 28 encoded)) in
      if maxManifestSize < payloadLength \<or> length encoded - manifestHeaderSize < payloadLength
        then Inl (corrupt ErrManifestCorrupt ''invalid payload length'')
      else if length encoded - manifestHeaderSize \<noteq> payloadLength
        then Inl (corrupt ErrManifestCorrupt ''trailing or truncated payload'')
      else let payload = drop manifestHeaderSize encoded in
      if CRC32C payload \<noteq> Uint32 (bslice 28 32 encoded) then Inl (corrupt ErrManifestCorrupt ''checksum'')
      else case jl_Fields jl payload of Inl e \<Rightarrow> Inl (corrupt ErrManifestCorrupt ''decode payload'') | Inr rawFields \<Rightarrow>
      if (case rawFields ''writing_segment_start_doc_id'' of None \<Rightarrow> True | Some raw \<Rightarrow> trim_space raw = json_null)
        then Inl (corrupt ErrManifestCorrupt ''missing writing_segment_start_doc_id'')
      else case jl_Decode jl payload of Inl e \<Rightarrow> Inl (corrupt ErrManifestCorrupt ''decode payload'') | Inr (manifest, rest) \<Rightarrow>
      if ensureJSONEOF rest \<noteq> None then Inl (corrupt ErrManifestCorrupt ''decode payload'')
      else if Generation manifest \<noteq> generation
        then Inl (corrupt ErrManifestCorrupt ''header generation differs from payload'')
      else case Manifest_Validate manifest of Some e \<Rightarrow> Inl e | None \<Rightarrow> Inr manifest)"

text \<open>The manifest survives the JSON library: its encoding has a start document ID that is not null
  and decodes to it.  The library's documentation promises this for a manifest whose schema is
  compact JSON.\<close>

definition json_stores :: "json_lib \<Rightarrow> Manifest \<Rightarrow> bool" where
  "json_stores jl m \<longleftrightarrow> (\<exists>p rawFields raw. jl_Marshal jl m = Inr p \<and> length p \<le> maxManifestSize
     \<and> jl_Fields jl p = Inr rawFields \<and> rawFields ''writing_segment_start_doc_id'' = Some raw \<and> trim_space raw \<noteq> json_null
     \<and> jl_Decode jl p = Inr (m, []))"

lemmas manifest_sizes = manifestHeaderSize_def maxManifestSize_def DiskFormatVersion_def

lemma length_manifest_header [simp]: "length (manifest_header g p) = 32"
  by (simp add: manifest_header_def manifestMagic_def)

lemma manifest_header_fields:
  "bslice 0 8 (manifest_header g p @ xs) = manifestMagic"
  "Uint16 (bslice 8 10 (manifest_header g p @ xs)) = 1"
  "Uint16 (bslice 10 12 (manifest_header g p @ xs)) = 32"
  "Uint64 (bslice 12 20 (manifest_header g p @ xs)) = g"
  "Uint64 (bslice 20 28 (manifest_header g p @ xs)) = len64 p"
  "Uint32 (bslice 28 32 (manifest_header g p @ xs)) = CRC32C p"
  by (simp_all add: manifest_header_def manifestMagic_def bslice_def manifest_sizes)

lemma Unmarshal_Marshal:
  assumes "json_stores jl m" and v: "Manifest_Validate m = None"
  obtains e where "MarshalManifest jl m = Inr e" "UnmarshalManifest jl e = Inr m" "32 \<le> length e"
    "length e \<le> 32 + maxManifestSize"
proof -
  obtain p rawFields raw where p: "jl_Marshal jl m = Inr p" "length p \<le> maxManifestSize" "jl_Fields jl p = Inr rawFields"
    "rawFields ''writing_segment_start_doc_id'' = Some raw" "trim_space raw \<noteq> json_null" "jl_Decode jl p = Inr (m, [])"
    using assms(1) by (auto simp: json_stores_def)
  have len: "unat (len64 p) = length p" using p(2) by (simp add: maxManifestSize_def unat_len64)
  let ?e = "manifest_header (Generation m) p @ p"
  have "MarshalManifest jl m = Inr ?e" using p v by (simp add: MarshalManifest_def)
  moreover have "UnmarshalManifest jl ?e = Inr m"
    using p v len by (simp add: UnmarshalManifest_def manifest_header_fields manifestHeaderSize_def DiskFormatVersion_def
        ensureJSONEOF_def Let_def)
  ultimately show ?thesis using that p(2) by simp
qed

lemma UnmarshalManifest_valid:
  assumes "UnmarshalManifest jl e = Inr m"
  shows "Manifest_Validate m = None" "bslice 0 8 e = manifestMagic" "Uint64 (bslice 12 20 e) = Generation m"
    "Uint32 (bslice 28 32 e) = CRC32C (drop 32 e)" "unat (Uint64 (bslice 20 28 e)) = length (drop 32 e)"
  using assms
  by (auto simp: UnmarshalManifest_def manifestHeaderSize_def Let_def split: if_splits sum.splits option.splits prod.splits)

section \<open>What a valid manifest is\<close>

definition artifacts_ok :: "IndexArtifactMetadata list \<Rightarrow> bool" where
  "artifacts_ok as \<longleftrightarrow>
     list_all (\<lambda>a. art_Field a \<noteq> [] \<and> art_Kind a \<noteq> [] \<and> validatePortableRelativePath (art_File a) = None) as
     \<and> distinct (map art_key as)"

definition snapshot_ok :: "SegmentMetadata list \<Rightarrow> SegmentIndexSnapshotMetadata \<Rightarrow> bool" where
  "snapshot_ok segments x \<longleftrightarrow>
     (\<exists>s. find (\<lambda>s. seg_ID s = sis_SegmentID x) segments = Some s \<and> sis_DocumentCount x = DocCount s
        \<and> sis_MinDocumentID x = MinDocID s \<and> sis_MaxDocumentID x = MaxDocID s)
     \<and> length (sis_SchemaSHA256 x) = 64 \<and> hex_DecodeString_ok (sis_SchemaSHA256 x) \<and> artifacts_ok (sis_Artifacts x)"

definition all_segments :: "Manifest \<Rightarrow> SegmentMetadata list" where
  "all_segments m = PersistedSegments m @ (case WritingSegment m of None \<Rightarrow> [] | Some s \<Rightarrow> [s])"

definition manifest_ok :: "Manifest \<Rightarrow> bool" where
  "manifest_ok m \<longleftrightarrow> FormatVersion m = DiskFormatVersion \<and> Generation m \<noteq> 0 \<and> json_Object (Schema m)
     \<and> SegmentMaxDocuments m \<noteq> 0
     \<and> list_all (\<lambda>s. validateSegment s = None \<and> seg_ID s < NextSegmentID m) (all_segments m)
     \<and> distinct (map seg_ID (all_segments m))
     \<and> list_all (snapshot_ok (PersistedSegments m)) (SegmentIndexSnapshots m)
     \<and> distinct (map sis_SegmentID (SegmentIndexSnapshots m))
     \<and> distinct (concat (map (\<lambda>x. map art_File (sis_Artifacts x)) (SegmentIndexSnapshots m)))"

lemma validate_persisted_Inr:
  "validate_persisted segs ids mx = Inr (ids', mx') \<longleftrightarrow>
     list_all (\<lambda>s. validateSegment s = None) segs \<and> distinct (map seg_ID segs) \<and> seg_ID ` set segs \<inter> set ids = {}
     \<and> ids' = rev (map seg_ID segs) @ ids \<and> mx' = fold max (map seg_ID segs) mx"
  by (induction segs arbitrary: ids mx) (auto split: option.splits simp: max.commute)

lemma fold_max_less: "(fold max xs (a :: 'a :: linorder) < n) = (a < n \<and> (\<forall>x \<in> set xs. x < n))"
  by (induction xs arbitrary: a) auto

lemma validate_artifacts_Inr:
  "validate_artifacts as seen files = Inr files' \<longleftrightarrow>
     artifacts_ok as \<and> art_key ` set as \<inter> set seen = {}
     \<and> distinct (map art_File as) \<and> art_File ` set as \<inter> set files = {} \<and> files' = rev (map art_File as) @ files"
  by (induction as arbitrary: seen files) (auto simp: artifacts_ok_def Let_def split: option.splits)

lemma validate_snapshots_None:
  "validate_snapshots segs xs seen files = None \<longleftrightarrow>
     list_all (snapshot_ok segs) xs \<and> distinct (map sis_SegmentID xs) \<and> sis_SegmentID ` set xs \<inter> set seen = {}
     \<and> distinct (concat (map (\<lambda>x. map art_File (sis_Artifacts x)) xs))
     \<and> set (concat (map (\<lambda>x. map art_File (sis_Artifacts x)) xs)) \<inter> set files = {}"
proof (induction xs arbitrary: seen files)
  case (Cons x xs)
  show ?case
  proof (cases "snapshot_ok segs x \<and> sis_SegmentID x \<notin> set seen \<and> distinct (map art_File (sis_Artifacts x))
      \<and> art_File ` set (sis_Artifacts x) \<inter> set files = {}")
    case True
    then have a: "validate_artifacts (sis_Artifacts x) [] files = Inr (rev (map art_File (sis_Artifacts x)) @ files)"
      by (subst validate_artifacts_Inr) (simp add: snapshot_ok_def)
    have st: "validate_snapshots segs (x # xs) seen files =
        validate_snapshots segs xs (sis_SegmentID x # seen) (rev (map art_File (sis_Artifacts x)) @ files)"
      using True a by (auto simp: snapshot_ok_def)
    define G where "G = concat (map (\<lambda>x. map art_File (sis_Artifacts x)) xs)"
    have cc: "concat (map (\<lambda>x. map art_File (sis_Artifacts x)) (x # xs)) = map art_File (sis_Artifacts x) @ G"
      by (simp add: G_def)
    show ?thesis
      unfolding st Cons.IH cc G_def [symmetric]
      using True by (auto simp: disjoint_iff) (metis image_eqI)
  next
    case False
    then have "\<not> snapshot_ok segs x \<or> sis_SegmentID x \<in> set seen \<or> (\<forall>f. validate_artifacts (sis_Artifacts x) [] files \<noteq> Inr f)"
      using validate_artifacts_Inr [of "sis_Artifacts x" "[]" files] by blast
    then show ?thesis using False validate_artifacts_Inr [of "sis_Artifacts x" "[]" files]
      by (auto simp: snapshot_ok_def split: option.splits sum.splits)
  qed
qed simp

lemma json_Object_Valid: "json_Object s \<Longrightarrow> json_Valid s"
  by (simp add: json_Object_def)

lemma Manifest_Validate_iff: "Manifest_Validate m = None \<longleftrightarrow> manifest_ok m"
proof -
  let ?P = "PersistedSegments m" and ?n = "NextSegmentID m"
  have seg: "(case validate_persisted ?P [] 0 of Inl e \<Rightarrow> False | Inr (ids, mx) \<Rightarrow>
      (case validate_writing (WritingSegment m) ids mx of Inl e \<Rightarrow> False | Inr mx \<Rightarrow>
       \<not> ((?P \<noteq> [] \<or> WritingSegment m \<noteq> None) \<and> ?n \<le> mx)))
    \<longleftrightarrow> list_all (\<lambda>s. validateSegment s = None \<and> seg_ID s < ?n) (all_segments m) \<and> distinct (map seg_ID (all_segments m))"
    (is "?L = ?R")
  proof (cases "validate_persisted ?P [] 0")
    case (Inl e)
    then have "\<not> (list_all (\<lambda>s. validateSegment s = None) ?P \<and> distinct (map seg_ID ?P))"
      using validate_persisted_Inr [of ?P "[]" 0] by auto
    then show ?thesis using Inl by (auto simp: all_segments_def list_all_iff)
  next
    case (Inr x)
    then obtain ids mx where x: "x = (ids, mx)" by (cases x)
    have v: "list_all (\<lambda>s. validateSegment s = None) ?P" "distinct (map seg_ID ?P)" "ids = rev (map seg_ID ?P)"
      and mx: "mx = fold max (map seg_ID ?P) 0"
      using validate_persisted_Inr [of ?P "[]" 0 ids mx] Inr x by auto
    have less: "mx < ?n \<longleftrightarrow> 0 < ?n \<and> (\<forall>s \<in> set ?P. seg_ID s < ?n)" using mx fold_max_less [of "map seg_ID ?P" 0 ?n] by simp
    have pos: "0 < ?n" if "seg_ID s < ?n" for s using that word_gt_0 by fastforce
    show ?thesis
    proof (cases "WritingSegment m")
      case None
      then show ?thesis using Inr x v less pos [of "hd ?P"] hd_in_set [of ?P]
        by (cases "?P = []") (auto simp: validate_writing_def all_segments_def list_all_iff not_le)
    next
      case (Some ws)
      then show ?thesis using Inr x v less pos [of ws]
        by (auto simp: validate_writing_def all_segments_def list_all_iff not_le split: option.splits)
    qed
  qed
  have "Manifest_Validate m = None \<longleftrightarrow> FormatVersion m = DiskFormatVersion \<and> Generation m \<noteq> 0 \<and> json_Object (Schema m)
     \<and> SegmentMaxDocuments m \<noteq> 0 \<and> ?R \<and> validate_snapshots ?P (SegmentIndexSnapshots m) [] [] = None"
    unfolding seg [symmetric]
    by (auto simp: Manifest_Validate_def json_Object_Valid split: sum.splits prod.splits if_splits)
  then show ?thesis by (auto simp: manifest_ok_def validate_snapshots_None)
qed

end
