(* ===== verification/Version_Manager.thy ===== *)
theory Version_Manager
  imports Manifest_File
begin

text \<open>
  The version manager of \<open>internal/db/version_manager.go\<close>: the pointer file \<open>CURRENT\<close>, the choice of the
  next generation, and the publication of a manifest.  A file lock is a parameter: what
  \<open>TryLockContext\<close> of \<open>gofrs/flock\<close> answers.
\<close>

section \<open>The pointer file\<close>

definition currentFileName :: string where "currentFileName = ''CURRENT''"
definition currentHeaderLen :: nat where "currentHeaderLen = 16"
definition maxCurrentSize :: nat where "maxCurrentSize = 1024"
definition currentMagic :: bytes where "currentMagic = [0x5A, 0x56, 0x45, 0x43, 0x43, 0x55, 0x52, 0x31]"

text \<open>A Go string and its bytes.\<close>

definition string_bytes :: "string \<Rightarrow> bytes" where
  "string_bytes s = map (\<lambda>c. word_of_nat (of_char c)) s"

definition bytes_string :: "bytes \<Rightarrow> string" where
  "bytes_string b = map (\<lambda>x. char_of (unat x)) b"

definition current_header :: "string \<Rightarrow> bytes" where
  "current_header name = currentMagic @ PutUint16 (word_of_nat (length name))
     @ PutUint16 (word_of_nat currentHeaderLen) @ PutUint32 (CRC32C (string_bytes name))"

definition marshalCurrent :: "string \<Rightarrow> bytes result" where
  "marshalCurrent name =
     (if parseManifestFileName name = None then Inl (corrupt ErrManifestCorrupt ''invalid manifest name'')
      else Inr (current_header name @ string_bytes name))"

text \<open>The checks of \<open>readCurrent\<close> on the bytes of the file.\<close>

definition decodeCurrent :: "bytes \<Rightarrow> string result" where
  "decodeCurrent encoded =
     (if bslice 0 8 encoded \<noteq> currentMagic then Inl (corrupt ErrManifestCorrupt ''invalid CURRENT magic'')
      else if Uint16 (bslice 10 12 encoded) \<noteq> word_of_nat currentHeaderLen
        then Inl (corrupt ErrManifestCorrupt ''invalid CURRENT header size'')
      else if unat (Uint16 (bslice 8 10 encoded)) \<noteq> length encoded - currentHeaderLen
        then Inl (corrupt ErrManifestCorrupt ''invalid CURRENT payload length'')
      else let name = bytes_string (drop currentHeaderLen encoded) in
      if CRC32C (string_bytes name) \<noteq> Uint32 (bslice 12 16 encoded)
        then Inl (corrupt ErrManifestCorrupt ''CURRENT checksum'')
      else if parseManifestFileName name = None
        then Inl (corrupt ErrManifestCorrupt ''invalid CURRENT manifest name'')
      else Inr name)"

definition readCurrent :: "string \<Rightarrow> world \<Rightarrow> string result \<times> world" where
  "readCurrent dir w =
     (case os_Open (filepath_Join dir currentFileName) w of
        (Inl e, w) \<Rightarrow>
          (Inl (if errors_Is e OsErrNotExist then Sentinel ErrManifestNotFound else Wrap ''db: open CURRENT'' e), w)
      | (Inr c, w) \<Rightarrow>
      case io_step w of (Some e, w) \<Rightarrow> (Inl (Wrap ''db: stat CURRENT'' e), w) | (None, w) \<Rightarrow>
      if length c < currentHeaderLen \<or> maxCurrentSize < length c
        then (Inl (corrupt ErrManifestCorrupt ''invalid CURRENT size''), w)
      else case io_step w of
        (Some e, w) \<Rightarrow> (Inl (corrupt ErrManifestCorrupt ''read CURRENT''), w)
      | (None, w) \<Rightarrow> (decodeCurrent c, w))"

section \<open>Files of versions\<close>

definition nextManifestGeneration :: "string \<Rightarrow> world \<Rightarrow> u64 result \<times> world" where
  "nextManifestGeneration dir w =
     (case os_ReadDir dir w of
        (Inl e, w) \<Rightarrow> (Inl (Wrap ''db: scan manifest directory'' e), w)
      | (Inr listed, w) \<Rightarrow>
      let maximum = fold max (List.map_filter parseManifestFileName listed) 0 in
      if maximum = MaxUint64 then (Inl (NewError ''db: manifest generation exhausted''), w)
      else (Inr (maximum + 1), w))"

text \<open>\<open>writeExclusiveSynced\<close>, with the loop of \<open>writeFull\<close>; every failing path removes the file.\<close>

definition writeExclusiveSynced :: "string \<Rightarrow> bytes \<Rightarrow> world \<Rightarrow> go_error option \<times> world" where
  "writeExclusiveSynced name contents w =
     (case os_CreateExcl name w of (Some e, w) \<Rightarrow> (Some e, w) | (None, w) \<Rightarrow>
      case file_WriteFullAt name contents 0 w of (Some e, w) \<Rightarrow> (Some e, snd (os_Remove name w)) | (None, w) \<Rightarrow>
      case file_Sync name w of (Some e, w) \<Rightarrow> (Some e, snd (os_Remove name w)) | (None, w) \<Rightarrow>
      case io_step w of (Some e, w) \<Rightarrow> (Some e, snd (os_Remove name w)) | (None, w) \<Rightarrow> (None, w))"

text \<open>\<open>os.Rename\<close> of a synchronised temporary file.\<close>

definition atomicReplaceFile :: "bytes \<Rightarrow> string \<Rightarrow> world \<Rightarrow> go_error option \<times> world" where
  "atomicReplaceFile c name w =
     (case io_step w of (Some e, w) \<Rightarrow> (Some e, w) | (None, w) \<Rightarrow>
      (None, set_file name \<lparr>content = c, synced = length c\<rparr> w))"

definition readManifestFile :: "json_lib \<Rightarrow> string \<Rightarrow> world \<Rightarrow> Manifest result \<times> world" where
  "readManifestFile jl name w =
     (case os_Open name w of
        (Inl e, w) \<Rightarrow>
          (Inl (if errors_Is e OsErrNotExist then corrupt ErrManifestNotFound ''name'' else Wrap ''db: open manifest'' e), w)
      | (Inr c, w) \<Rightarrow>
      case io_step w of (Some e, w) \<Rightarrow> (Inl (Wrap ''db: stat manifest'' e), w) | (None, w) \<Rightarrow>
      if length c < manifestHeaderSize \<or> manifestHeaderSize + maxManifestSize < length c
        then (Inl (corrupt ErrManifestCorrupt ''invalid file size''), w)
      else case io_step w of
        (Some e, w) \<Rightarrow> (Inl (corrupt ErrManifestCorrupt ''read file''), w)
      | (None, w) \<Rightarrow> (UnmarshalManifest jl c, w))"

section \<open>Publication\<close>

definition prepareManifest :: "Manifest \<Rightarrow> u64 \<Rightarrow> Manifest" where
  "prepareManifest manifest generation =
     (if FormatVersion manifest = 0 then manifest\<lparr>FormatVersion := DiskFormatVersion\<rparr> else manifest)
       \<lparr>Generation := generation\<rparr>"

text \<open>The second half of \<open>publishLocked\<close>: the pointer file.  The result is the name, whether the
  version is committed, and the error.\<close>

definition install_current ::
  "string \<Rightarrow> string \<Rightarrow> string \<Rightarrow> world \<Rightarrow> (string \<times> bool \<times> go_error option) \<times> world" where
  "install_current dir expectedCurrent name w =
     (case marshalCurrent name of Inl e \<Rightarrow> (([], False, Some e), w) | Inr pointer \<Rightarrow>
      case writeTempSynced pointer w of (Inl e, w) \<Rightarrow> (([], False, Some e), w) | (Inr temp, w) \<Rightarrow>
      case (if expectedCurrent = [] then installFileNoReplace temp (filepath_Join dir currentFileName) w
            else atomicReplaceFile temp (filepath_Join dir currentFileName) w) of
        (Some e, w) \<Rightarrow>
          (([], False, Some (if expectedCurrent = [] \<and> errors_Is e OsErrExist then Sentinel ErrManifestExists
                             else Wrap ''db: publish CURRENT'' e)), w)
      | (None, w) \<Rightarrow>
      case syncDirectory w of
        (Some e, w) \<Rightarrow> ((name, True, Some (Wrap ''db: sync published CURRENT'' e)), w)
      | (None, w) \<Rightarrow> ((name, True, None), w))"

definition publishLocked ::
  "json_lib \<Rightarrow> string \<Rightarrow> string \<Rightarrow> Manifest \<Rightarrow> world \<Rightarrow> (string \<times> bool \<times> go_error option) \<times> world" where
  "publishLocked jl dir expectedCurrent manifest w =
     (case Manifest_Validate manifest of Some e \<Rightarrow> (([], False, Some e), w) | None \<Rightarrow>
      case ctx_Err w of (Some e, w) \<Rightarrow> (([], False, Some e), w) | (None, w) \<Rightarrow>
      let name = manifestFileName (Generation manifest) in
      case MarshalManifest jl manifest of Inl e \<Rightarrow> (([], False, Some e), w) | Inr encoded \<Rightarrow>
      case writeExclusiveSynced (filepath_Join dir name) encoded w of
        (Some e, w) \<Rightarrow>
          (([], False, Some (if errors_Is e OsErrExist then corrupt ErrManifestConflict ''generation already exists''
                             else Wrap ''db: write manifest'' e)), w)
      | (None, w) \<Rightarrow>
      case syncDirectory w of (Some e, w) \<Rightarrow> (([], False, Some (Wrap ''db: sync manifest directory'' e)), w) | (None, w) \<Rightarrow>
      case ctx_Err w of (Some e, w) \<Rightarrow> (([], False, Some e), w) | (None, w) \<Rightarrow>
      install_current dir expectedCurrent name w)"

record VersionManager =
  vm_dir :: string
  vm_current :: Manifest
  vm_currentName :: string

definition CreateVersionManager ::
  "json_lib \<Rightarrow> bool result \<Rightarrow> string \<Rightarrow> Manifest \<Rightarrow> world \<Rightarrow> (VersionManager option \<times> go_error option) \<times> world" where
  "CreateVersionManager jl lock dir initial w =
     (if dir = [] then ((None, Some (NewError ''db: empty collection directory'')), w)
      else case ctx_Err w of (Some e, w) \<Rightarrow> ((None, Some e), w) | (None, w) \<Rightarrow>
      case os_MkdirAll dir w of (Some e, w) \<Rightarrow> ((None, Some (Wrap ''db: create collection directory'' e)), w) | (None, w) \<Rightarrow>
      case lock of Inl e \<Rightarrow> ((None, Some (Wrap ''db: lock manifest creation'' e)), w) | Inr locked \<Rightarrow>
      if \<not> locked then ((None, Some (NewError ''db: manifest creation lock unavailable'')), w)
      else case readCurrent dir w of
        (Inr _, w) \<Rightarrow> ((None, Some (Sentinel ErrManifestExists)), w)
      | (Inl e, w) \<Rightarrow>
      if \<not> errors_Is e ErrManifestNotFound then ((None, Some e), w)
      else case nextManifestGeneration dir w of (Inl e, w) \<Rightarrow> ((None, Some e), w) | (Inr generation, w) \<Rightarrow>
      let initial = prepareManifest initial generation in
      case publishLocked jl dir [] initial w of ((name, committed, err), w) \<Rightarrow>
      if committed then ((Some \<lparr>vm_dir = dir, vm_current = initial, vm_currentName = name\<rparr>, err), w)
      else case err of Some e \<Rightarrow> ((None, Some e), w)
      | None \<Rightarrow> ((None, Some (NewError ''db: initial manifest was not committed'')), w))"

definition OpenVersionManager :: "json_lib \<Rightarrow> string \<Rightarrow> world \<Rightarrow> VersionManager result \<times> world" where
  "OpenVersionManager jl dir w =
     (case ctx_Err w of (Some e, w) \<Rightarrow> (Inl e, w) | (None, w) \<Rightarrow>
      case os_StatDir dir w of
        (Inl e, w) \<Rightarrow>
          (Inl (if errors_Is e OsErrNotExist then Sentinel ErrManifestNotFound
                else Wrap ''db: stat collection directory'' e), w)
      | (Inr isDir, w) \<Rightarrow>
      if \<not> isDir then (Inl (NewError ''db: collection path is not a directory''), w)
      else case readCurrent dir w of (Inl e, w) \<Rightarrow> (Inl e, w) | (Inr name, w) \<Rightarrow>
      case readManifestFile jl (filepath_Join dir name) w of (Inl e, w) \<Rightarrow> (Inl e, w) | (Inr manifest, w) \<Rightarrow>
      if manifestFileName (Generation manifest) \<noteq> name
        then (Inl (corrupt ErrManifestCorrupt ''CURRENT names another generation''), w)
      else (Inr \<lparr>vm_dir = dir, vm_current = manifest, vm_currentName = name\<rparr>, w))"

definition publishManagerLocked ::
  "json_lib \<Rightarrow> bool result \<Rightarrow> Manifest \<Rightarrow> VersionManager \<Rightarrow> world
     \<Rightarrow> (Manifest option \<times> go_error option) \<times> VersionManager \<times> world" where
  "publishManagerLocked jl lock next_version m w =
     (case lock of Inl e \<Rightarrow> ((None, Some (Wrap ''db: lock manifest publication'' e)), m, w) | Inr locked \<Rightarrow>
      if \<not> locked then ((None, Some (NewError ''db: manifest publication lock unavailable'')), m, w)
      else case readCurrent (vm_dir m) w of (Inl e, w) \<Rightarrow> ((None, Some e), m, w) | (Inr currentName, w) \<Rightarrow>
      if currentName \<noteq> vm_currentName m
        then ((None, Some (corrupt ErrManifestConflict ''expected another version'')), m, w)
      else case nextManifestGeneration (vm_dir m) w of (Inl e, w) \<Rightarrow> ((None, Some e), m, w) | (Inr generation, w) \<Rightarrow>
      let next_version = prepareManifest next_version generation in
      case publishLocked jl (vm_dir m) (vm_currentName m) next_version w of ((name, committed, err), w) \<Rightarrow>
      if committed then ((Some next_version, err), m\<lparr>vm_current := next_version, vm_currentName := name\<rparr>, w)
      else ((None, err), m, w))"

definition VersionManager_Publish ::
  "json_lib \<Rightarrow> bool result \<Rightarrow> Manifest \<Rightarrow> VersionManager \<Rightarrow> world
     \<Rightarrow> (Manifest option \<times> go_error option) \<times> VersionManager \<times> world" where
  "VersionManager_Publish jl lock next_version m w =
     (case ctx_Err w of (Some e, w) \<Rightarrow> ((None, Some e), m, w) | (None, w) \<Rightarrow>
      publishManagerLocked jl lock next_version m w)"

text \<open>\<open>Update\<close>: the mutation is a parameter.  It runs without the lock, so the manager may have
  published another version when the lock is taken: the part under the lock has the version the
  mutation started from as an argument of its own.\<close>

definition update_locked ::
  "json_lib \<Rightarrow> bool result \<Rightarrow> Manifest \<Rightarrow> Manifest \<Rightarrow> VersionManager \<Rightarrow> world
     \<Rightarrow> (Manifest option \<times> go_error option) \<times> VersionManager \<times> world" where
  "update_locked jl lock base next_version m w =
     (if Generation (vm_current m) \<noteq> Generation base
        then ((None, Some (corrupt ErrManifestConflict ''update started at another generation'')), m, w)
      else publishManagerLocked jl lock next_version m w)"

definition VersionManager_Update ::
  "json_lib \<Rightarrow> bool result \<Rightarrow> (Manifest \<Rightarrow> Manifest result) \<Rightarrow> VersionManager \<Rightarrow> world
     \<Rightarrow> (Manifest option \<times> go_error option) \<times> VersionManager \<times> world" where
  "VersionManager_Update jl lock mutate m w =
     (case ctx_Err w of (Some e, w) \<Rightarrow> ((None, Some e), m, w) | (None, w) \<Rightarrow>
      let base = vm_current m in
      case mutate base of Inl e \<Rightarrow> ((None, Some e), m, w) | Inr next_version \<Rightarrow>
      case ctx_Err w of (Some e, w) \<Rightarrow> ((None, Some e), m, w) | (None, w) \<Rightarrow>
      update_locked jl lock base next_version m w)"

section \<open>Facts about the pointer\<close>

lemma bytes_string_bytes [simp]: "bytes_string (string_bytes s) = s"
proof -
  have "char_of (unat (word_of_nat (of_char c) :: u8)) = c" for c :: char
  proof -
    have "(of_char c :: nat) < 256" by (metis mod_less_divisor of_char_mod_256 zero_less_numeral)
    then show ?thesis by (simp add: unat_of_nat)
  qed
  then show ?thesis by (simp add: bytes_string_def string_bytes_def comp_def)
qed

lemma string_bytes_string [simp]: "string_bytes (bytes_string b) = b"
proof -
  have "(word_of_nat (of_char (char_of (unat x) :: char)) :: u8) = x" for x :: u8
    using unat_byte_lt [of x] by (simp add: of_char_of)
  then show ?thesis by (simp add: bytes_string_def string_bytes_def comp_def)
qed

lemma length_string_bytes [simp]: "length (string_bytes s) = length s" "length (bytes_string b) = length b"
  by (simp_all add: string_bytes_def bytes_string_def)

lemma length_current_header [simp]: "length (current_header name) = 16"
  by (simp add: current_header_def currentMagic_def)

lemma current_header_fields:
  "bslice 0 8 (current_header name @ xs) = currentMagic"
  "Uint16 (bslice 8 10 (current_header name @ xs)) = word_of_nat (length name)"
  "Uint16 (bslice 10 12 (current_header name @ xs)) = 16"
  "Uint32 (bslice 12 16 (current_header name @ xs)) = CRC32C (string_bytes name)"
  by (simp_all add: current_header_def currentMagic_def currentHeaderLen_def bslice_def)

lemma length_manifestFileName [simp]: "length (manifestFileName g) = 29"
  by (simp add: manifestFileName_def manifestPrefix_def decimal20_spec)

lemma marshalCurrent_Inr:
  "marshalCurrent name = Inr e \<longleftrightarrow> (\<exists>g. name = manifestFileName g \<and> g \<noteq> 0) \<and> e = current_header name @ string_bytes name"
  by (cases "parseManifestFileName name") (use parse_manifestFileName parseManifestFileName_iff in \<open>auto simp: marshalCurrent_def\<close>)

lemma decode_marshalCurrent:
  assumes "marshalCurrent name = Inr e"
  shows "decodeCurrent e = Inr name" "length e = 45"
proof -
  obtain g where g: "name = manifestFileName g" "g \<noteq> 0" and e: "e = current_header name @ string_bytes name"
    using assms marshalCurrent_Inr by auto
  show "length e = 45" by (simp add: e g)
  have "parseManifestFileName name = Some g" using g parseManifestFileName_iff by simp
  moreover have "unat (word_of_nat (length name) :: u16) = 29" using g by simp
  ultimately show "decodeCurrent e = Inr name"
    by (simp add: e decodeCurrent_def current_header_fields currentHeaderLen_def g(1))
qed

text \<open>The decoder accepts nothing but encodings.\<close>

lemma decodeCurrent_exact:
  assumes d: "decodeCurrent e = Inr name" and len: "16 \<le> length e"
  shows "marshalCurrent name = Inr e"
proof -
  have h: "bslice 0 8 e = currentMagic" "Uint16 (bslice 10 12 e) = 16" "unat (Uint16 (bslice 8 10 e)) = length e - 16"
    "CRC32C (string_bytes name) = Uint32 (bslice 12 16 e)" "parseManifestFileName name \<noteq> None" "name = bytes_string (drop 16 e)"
    using d by (auto simp: decodeCurrent_def currentHeaderLen_def Let_def split: if_splits)
  have n: "drop 16 e = string_bytes name" "length e - 16 = length name" using h(6) by simp_all
  have f: "PutUint16 (Uint16 (bslice 8 10 e)) = bslice 8 10 e" "PutUint16 (Uint16 (bslice 10 12 e)) = bslice 10 12 e"
    "PutUint32 (Uint32 (bslice 12 16 e)) = bslice 12 16 e"
    using len by (auto intro!: PutUint16_Uint16 PutUint32_Uint32)
  have "length name = unat (Uint16 (bslice 8 10 e))" using h(3) n(2) by simp
  then have nm: "Uint16 (bslice 8 10 e) = word_of_nat (length name)" by simp
  have "current_header name = bslice 0 8 e @ bslice 8 10 e @ bslice 10 12 e @ bslice 12 16 e"
    using f h(1,2,4) nm by (simp add: current_header_def currentHeaderLen_def)
  also have "\<dots> = take 16 e" by (simp add: bslice_glue) (simp add: bslice_0_take)
  finally have "e = current_header name @ string_bytes name" using n(1) by (metis append_take_drop_id)
  moreover have "\<exists>g. name = manifestFileName g \<and> g \<noteq> 0" using h(5) parseManifestFileName_iff by blast
  ultimately show ?thesis using marshalCurrent_Inr by blast
qed

section \<open>Facts about the files\<close>

text \<open>Every file is listed under its path.\<close>

definition paths_complete :: "world \<Rightarrow> bool" where
  "paths_complete w \<longleftrightarrow> (\<forall>p. fs w p \<noteq> None \<longrightarrow> p \<in> set (paths w))"

lemma ctx_Err_paths: "ctx_Err w = (r, w') \<Longrightarrow> paths w' = paths w \<and> dirs w' = dirs w"
  by (auto simp: ctx_Err_def split: option.splits nat.splits)

lemma io_step_paths: "io_step w = (r, w') \<Longrightarrow> paths w' = paths w \<and> dirs w' = dirs w"
  by (auto simp: io_step_def split: list.splits io_outcome.splits)

lemma io_step_env: "io_step w = (r, w') \<Longrightarrow> fs w' = fs w \<and> paths w' = paths w \<and> dirs w' = dirs w"
  using io_step_frame io_step_paths by blast

lemma nextManifestGeneration_fresh:
  assumes "nextManifestGeneration dir w = (Inr g, w')" and "paths_complete w"
  shows "g \<noteq> 0" "\<And>h. h \<noteq> 0 \<Longrightarrow> fs w (filepath_Join dir (manifestFileName h)) \<noteq> None \<Longrightarrow> h < g"
    "fs w (filepath_Join dir (manifestFileName g)) = None" "fs w' = fs w" "paths w' = paths w" "dirs w' = dirs w"
proof -
  obtain w1 where io: "io_step w = (None, w1)"
    using assms(1) by (auto simp: nextManifestGeneration_def os_ReadDir_def Let_def split: prod.splits option.splits)
  have f1: "fs w1 = fs w" "paths w1 = paths w" "dirs w1 = dirs w" using io_step_frame [OF io] io_step_paths [OF io] by simp_all
  let ?names = "map filepath_Base (filter (\<lambda>p. fs w p \<noteq> None \<and> filepath_Join dir (filepath_Base p) = p) (paths w))"
  let ?max = "fold max (List.map_filter parseManifestFileName ?names) 0"
  have g: "?max \<noteq> MaxUint64" "g = ?max + 1" "w' = w1"
    using assms(1) io f1 by (auto simp: nextManifestGeneration_def os_ReadDir_def Let_def split: if_splits)
  show "fs w' = fs w" "paths w' = paths w" "dirs w' = dirs w" using f1 g(3) by simp_all
  have un: "unat g = unat ?max + 1" using g(1,2) unat_plus_one_u64 by simp
  show gz: "g \<noteq> 0" using un by auto
  show less: "h < g" if h: "h \<noteq> 0" "fs w (filepath_Join dir (manifestFileName h)) \<noteq> None" for h
  proof -
    let ?p = "filepath_Join dir (manifestFileName h)"
    have b: "filepath_Base ?p = manifestFileName h" by (rule filepath_Base_Join [OF manifestFileName_simple])
    have "?p \<in> set (paths w)" using h(2) assms(2) by (simp add: paths_complete_def)
    then have "filepath_Base ?p \<in> set ?names"
      unfolding set_map set_filter using h(2) b by (intro imageI) simp
    then have "h \<in> set (List.map_filter parseManifestFileName ?names)"
      using b h(1) parse_manifestFileName [of h] by (force simp: List.map_filter_def)
    then have "\<not> ?max < h" using fold_max_less [of "List.map_filter parseManifestFileName ?names" 0 h] by auto
    then show ?thesis using un by (simp add: word_less_nat_alt)
  qed
  show "fs w (filepath_Join dir (manifestFileName g)) = None" using less [OF gz] by blast
qed

lemma paths_complete_frame: "paths_complete w \<Longrightarrow> fs w' = fs w \<Longrightarrow> paths w' = paths w \<Longrightarrow> paths_complete w'"
  by (simp add: paths_complete_def)

lemma paths_complete_set_file: "paths_complete w \<Longrightarrow> paths_complete (set_file n f w)"
  by (auto simp: paths_complete_def set_file_def)

lemma os_Remove_cases:
  assumes "os_Remove n w = (e, w')"
  shows "fs w' = fs w \<or> fs w' = (fs w)(n := None)" "dirs w' = dirs w" "paths w' = paths w"
proof -
  obtain r w1 where io: "io_step w = (r, w1)" by (cases "io_step w")
  show "fs w' = fs w \<or> fs w' = (fs w)(n := None)" "dirs w' = dirs w" "paths w' = paths w"
    using assms io io_step_env [OF io] by (auto simp: os_Remove_def split: option.splits if_splits)
qed

lemma paths_complete_remove: "paths_complete w \<Longrightarrow> os_Remove n w = (e, w') \<Longrightarrow> paths_complete w'"
  using os_Remove_cases [of n w e w'] by (auto simp: paths_complete_def split: if_splits)

lemma file_Sync_set:
  assumes "file_Sync n w = (e, w')" and "fs w n = Some f"
  shows "fs w' = (if e = None then (fs w)(n \<mapsto> f\<lparr>synced := length (content f)\<rparr>) else fs w)"
    "paths_complete w \<Longrightarrow> paths_complete w'" "dirs w' = dirs w"
proof -
  obtain r w1 where io: "io_step w = (r, w1)" by (cases "io_step w")
  have fr: "fs w1 = fs w" "paths w1 = paths w" "dirs w1 = dirs w" using io_step_frame [OF io] io_step_paths [OF io] by simp_all
  show "fs w' = (if e = None then (fs w)(n \<mapsto> f\<lparr>synced := length (content f)\<rparr>) else fs w)" "dirs w' = dirs w"
    using assms io fr by (auto simp: file_Sync_def split: option.splits)
  show "paths_complete w \<Longrightarrow> paths_complete w'"
    using assms io fr paths_complete_frame [of w w1] paths_complete_set_file [of w1] by (auto simp: file_Sync_def split: option.splits)
qed

lemma file_WriteFullAt_new:
  assumes "file_WriteFullAt n c 0 w = (e, w')" and "fs w n = Some \<lparr>content = [], synced = 0\<rparr>"
  shows "\<exists>c'. fs w' = (fs w)(n \<mapsto> \<lparr>content = c', synced = 0\<rparr>) \<and> (e = None \<longrightarrow> c' = c)"
    "paths_complete w \<Longrightarrow> paths_complete w'" "dirs w' = dirs w"
proof -
  obtain e' c' ios where wr: "WriteFullAt (outcomes w) [] c 0 = (e', c', ios)" by (metis prod.collapse)
  have w': "e = e'" "w' = set_file n \<lparr>content = c', synced = 0\<rparr> (w\<lparr>outcomes := ios\<rparr>)"
    using assms wr by (auto simp: file_WriteFullAt_def)
  have "e' = None \<longrightarrow> c' = c" using WriteFullAt_at_end [of "outcomes w" "[]" c e' c' ios] wr by auto
  then show "\<exists>c'. fs w' = (fs w)(n \<mapsto> \<lparr>content = c', synced = 0\<rparr>) \<and> (e = None \<longrightarrow> c' = c)" "dirs w' = dirs w"
    using w' by auto
  show "paths_complete w \<Longrightarrow> paths_complete w'"
    unfolding w' by (rule paths_complete_set_file) (simp add: paths_complete_def)
qed

text \<open>What a failed exclusive write may leave behind: nothing, or an incomplete file that could not be
  removed.\<close>

definition left_over :: "string \<Rightarrow> world \<Rightarrow> world \<Rightarrow> bool" where
  "left_over name w w' \<longleftrightarrow> fs w' = fs w \<or> fs w name = None \<and> (\<exists>f. fs w' = (fs w)(name \<mapsto> f))"

lemma left_over_removed:
  assumes "fs w name = None" and "fs w1 = (fs w)(name \<mapsto> f)" and "snd (os_Remove name w1) = w'"
  shows "left_over name w w'" "dirs w' = dirs w1" "paths_complete w1 \<Longrightarrow> paths_complete w'"
proof -
  obtain e where r: "os_Remove name w1 = (e, w')" using assms(3) by (metis prod.collapse)
  note c = os_Remove_cases [OF r]
  have "(fs w)(name := None) = fs w" using assms(1) by auto
  then show "left_over name w w'" using c(1) assms(1,2) by (auto simp: left_over_def)
  show "dirs w' = dirs w1" "paths_complete w1 \<Longrightarrow> paths_complete w'" using c paths_complete_remove [OF _ r] by simp_all
qed

lemma writeExclusiveSynced_cases:
  assumes "writeExclusiveSynced name c w = (e, w')"
  shows "if e = None then fs w name = None \<and> fs w' = (fs w)(name \<mapsto> \<lparr>content = c, synced = length c\<rparr>)
      else left_over name w w'"
    "paths_complete w \<Longrightarrow> paths_complete w'" "dirs w' = dirs w"
proof -
  let ?goal = "(if e = None then fs w name = None \<and> fs w' = (fs w)(name \<mapsto> \<lparr>content = c, synced = length c\<rparr>)
      else left_over name w w') \<and> (paths_complete w \<longrightarrow> paths_complete w') \<and> dirs w' = dirs w"
  obtain r0 w0 where io: "io_step w = (r0, w0)" by (cases "io_step w")
  have f0: "fs w0 = fs w" "paths w0 = paths w" "dirs w0 = dirs w" using io_step_env [OF io] by simp_all
  have ?goal
  proof (cases "r0 = None \<and> fs w name = None")
    case False
    then have "e \<noteq> None \<and> w' = w0"
      using assms io f0 by (cases r0) (auto simp: writeExclusiveSynced_def os_CreateExcl_def)
    then show ?thesis using f0 paths_complete_frame by (auto simp: left_over_def)
  next
    case True
    then have free: "fs w name = None" by simp
    let ?w1 = "set_file name \<lparr>content = [], synced = 0\<rparr> w0"
    obtain e2 w2 where wr: "file_WriteFullAt name c 0 ?w1 = (e2, w2)" by (cases "file_WriteFullAt name c 0 ?w1")
    from file_WriteFullAt_new [OF wr] obtain c' where
      w2: "fs w2 = (fs w)(name \<mapsto> \<lparr>content = c', synced = 0\<rparr>)" "e2 = None \<longrightarrow> c' = c" "dirs w2 = dirs w"
        "paths_complete w \<Longrightarrow> paths_complete w2"
      using f0 paths_complete_frame [of w w0] paths_complete_set_file by auto
    obtain e3 w3 where sy: "file_Sync name w2 = (e3, w3)" by (cases "file_Sync name w2")
    obtain e4 w4 where cl: "io_step w3 = (e4, w4)" by (cases "io_step w3")
    have s: "fs w3 = (fs w)(name \<mapsto> \<lparr>content = c', synced = if e3 = None then length c' else 0\<rparr>)"
      "paths_complete w \<Longrightarrow> paths_complete w3" "dirs w3 = dirs w"
      using file_Sync_set [OF sy] w2 by auto
    have c4: "fs w4 = fs w3" "paths_complete w \<Longrightarrow> paths_complete w4" "dirs w4 = dirs w"
      using io_step_env [OF cl] s paths_complete_frame [of w3 w4] by auto
    have r: "e = (if e2 \<noteq> None then e2 else if e3 \<noteq> None then e3 else e4)"
      "w' = (if e2 \<noteq> None then snd (os_Remove name w2) else if e3 \<noteq> None then snd (os_Remove name w3)
             else if e4 \<noteq> None then snd (os_Remove name w4) else w4)"
      using assms io True f0 wr sy cl by (auto simp: writeExclusiveSynced_def os_CreateExcl_def split: option.splits)
    have c4': "fs w4 = (fs w)(name \<mapsto> \<lparr>content = c', synced = if e3 = None then length c' else 0\<rparr>)" using c4(1) s(1) by simp
    note lo = left_over_removed [OF free w2(1)] left_over_removed [OF free s(1)] left_over_removed [OF free c4']
    show ?thesis
    proof (cases e)
      case None
      then have "w' = w4" "e2 = None" "e3 = None" using r by (auto split: if_splits)
      then show ?thesis using None c4 c4' w2(2) free by auto
    next
      case (Some err)
      then have "left_over name w w' \<and> (paths_complete w \<longrightarrow> paths_complete w') \<and> dirs w' = dirs w"
        unfolding r(2) using r(1) lo [OF refl] w2(3,4) s(2,3) c4(2,3) by auto
      then show ?thesis using Some by simp
    qed
  qed
  then show "if e = None then fs w name = None \<and> fs w' = (fs w)(name \<mapsto> \<lparr>content = c, synced = length c\<rparr>)
      else left_over name w w'"
    "paths_complete w \<Longrightarrow> paths_complete w'" "dirs w' = dirs w" by blast+
qed

section \<open>Publication is atomic\<close>

abbreviation current_path :: "string \<Rightarrow> string" where
  "current_path dir \<equiv> filepath_Join dir currentFileName"

abbreviation manifest_path :: "string \<Rightarrow> u64 \<Rightarrow> string" where
  "manifest_path dir g \<equiv> filepath_Join dir (manifestFileName g)"

abbreviation whole :: "bytes \<Rightarrow> disk_file" where
  "whole c \<equiv> \<lparr>content = c, synced = length c\<rparr>"

lemma current_not_manifest: "current_path dir \<noteq> manifest_path dir g"
proof
  assume eq: "current_path dir = manifest_path dir g"
  have "ordinary currentFileName" "CHR ''/'' \<notin> set currentFileName" by (simp_all add: currentFileName_def ordinary_def)
  then have "currentFileName = manifestFileName g"
    using filepath_Join_inj [OF _ _ manifestFileName_simple eq] by blast
  then show False by (simp add: currentFileName_def manifestFileName_def manifestPrefix_def)
qed

lemma writeTempSynced_paths: "writeTempSynced c w = (r, w') \<Longrightarrow> paths w' = paths w \<and> dirs w' = dirs w"
  by (fastforce simp: writeTempSynced_def Let_def split: prod.splits option.splits dest!: ctx_Err_paths io_step_paths)

lemma installFileNoReplace_cases:
  assumes "installFileNoReplace c n w = (e, w')"
  shows "fs w' = (if e = None then (fs w)(n \<mapsto> whole c) else fs w)" "paths_complete w \<Longrightarrow> paths_complete w'" "dirs w' = dirs w"
    "e = None \<Longrightarrow> fs w n = None"
proof -
  obtain r w1 where io: "io_step w = (r, w1)" by (cases "io_step w")
  have f: "fs w1 = fs w" "paths w1 = paths w" "dirs w1 = dirs w" using io_step_frame [OF io] io_step_paths [OF io] by simp_all
  show "fs w' = (if e = None then (fs w)(n \<mapsto> whole c) else fs w)" "dirs w' = dirs w" "e = None \<Longrightarrow> fs w n = None"
    using assms io f by (auto simp: installFileNoReplace_def split: option.splits if_splits)
  show "paths_complete w \<Longrightarrow> paths_complete w'"
    using assms io f paths_complete_frame [of w w1] paths_complete_set_file [of w1]
    by (auto simp: installFileNoReplace_def split: option.splits if_splits)
qed

lemma atomicReplaceFile_cases:
  assumes "atomicReplaceFile c n w = (e, w')"
  shows "fs w' = (if e = None then (fs w)(n \<mapsto> whole c) else fs w)" "paths_complete w \<Longrightarrow> paths_complete w'" "dirs w' = dirs w"
proof -
  obtain r w1 where io: "io_step w = (r, w1)" by (cases "io_step w")
  have f: "fs w1 = fs w" "paths w1 = paths w" "dirs w1 = dirs w" using io_step_frame [OF io] io_step_paths [OF io] by simp_all
  show "fs w' = (if e = None then (fs w)(n \<mapsto> whole c) else fs w)" "dirs w' = dirs w"
    using assms io f by (auto simp: atomicReplaceFile_def split: option.splits)
  show "paths_complete w \<Longrightarrow> paths_complete w'"
    using assms io f paths_complete_frame [of w w1] paths_complete_set_file [of w1]
    by (auto simp: atomicReplaceFile_def split: option.splits)
qed

lemma install_current_cases:
  assumes "install_current dir expected name w = ((n, committed, err), w')"
  shows "if committed then n = name \<and> (\<exists>ptr. marshalCurrent name = Inr ptr \<and> fs w' = (fs w)(current_path dir \<mapsto> whole ptr))
      else fs w' = fs w \<and> err \<noteq> None"
    "paths_complete w \<Longrightarrow> paths_complete w'" "dirs w' = dirs w"
proof -
  have all: "(if committed then n = name \<and> (\<exists>ptr. marshalCurrent name = Inr ptr \<and> fs w' = (fs w)(current_path dir \<mapsto> whole ptr))
      else fs w' = fs w \<and> err \<noteq> None) \<and> (paths_complete w \<longrightarrow> paths_complete w') \<and> dirs w' = dirs w"
  proof (cases "marshalCurrent name")
    case (Inl e)
    then show ?thesis using assms by (auto simp: install_current_def)
  next
    case (Inr ptr)
    obtain t w1 where t: "writeTempSynced ptr w = (t, w1)" by (cases "writeTempSynced ptr w")
    have f1: "fs w1 = fs w" "paths w1 = paths w" "dirs w1 = dirs w" "\<And>x. t = Inr x \<Longrightarrow> x = ptr"
      using writeTempSynced_frame [OF t] writeTempSynced_paths [OF t] by auto
    show ?thesis
    proof (cases t)
      case (Inl e)
      then show ?thesis using assms Inr t f1 paths_complete_frame [of w w1] by (auto simp: install_current_def)
    next
      case it: (Inr x)
      let ?inst = "if expected = [] then installFileNoReplace ptr (current_path dir) w1 else atomicReplaceFile ptr (current_path dir) w1"
      obtain e2 w2 where i: "?inst = (e2, w2)" by (cases ?inst)
      have f2: "fs w2 = (if e2 = None then (fs w)(current_path dir \<mapsto> whole ptr) else fs w)"
        "paths_complete w \<Longrightarrow> paths_complete w2" "dirs w2 = dirs w"
        using i f1 installFileNoReplace_cases [of ptr "current_path dir" w1 e2 w2]
          atomicReplaceFile_cases [of ptr "current_path dir" w1 e2 w2] paths_complete_frame [of w w1]
        by (auto split: if_splits)
      obtain e3 w3 where sy: "io_step w2 = (e3, w3)" by (cases "io_step w2")
      have f3: "fs w3 = fs w2" "paths_complete w \<Longrightarrow> paths_complete w3" "dirs w3 = dirs w"
        using io_step_frame [OF sy] io_step_paths [OF sy] f2 paths_complete_frame [of w2 w3] by auto
      show ?thesis
        using assms Inr t it f1(4) i f2 f3 sy
        by (cases e2; cases e3) (auto simp: install_current_def syncDirectory_def)
    qed
  qed
  then show "if committed then n = name \<and> (\<exists>ptr. marshalCurrent name = Inr ptr \<and> fs w' = (fs w)(current_path dir \<mapsto> whole ptr))
      else fs w' = fs w \<and> err \<noteq> None"
    "paths_complete w \<Longrightarrow> paths_complete w'" "dirs w' = dirs w" by blast+
qed

text \<open>Publishing a manifest: the directory is as before; or it has one more manifest that
  \<open>CURRENT\<close> does not name, perhaps incomplete; or \<open>CURRENT\<close> names the new manifest, which is complete and durable.\<close>

lemma publishLocked_cases:
  assumes "publishLocked jl dir expected m w = ((n, committed, err), w')"
  shows "if committed
      then n = manifestFileName (Generation m) \<and> (\<exists>ptr c. marshalCurrent n = Inr ptr \<and> MarshalManifest jl m = Inr c
        \<and> fs w (manifest_path dir (Generation m)) = None
        \<and> fs w' = (fs w)(manifest_path dir (Generation m) \<mapsto> whole c, current_path dir \<mapsto> whole ptr))
      else err \<noteq> None \<and> left_over (manifest_path dir (Generation m)) w w'"
    "paths_complete w \<Longrightarrow> paths_complete w'" "dirs w' = dirs w"
proof -
  let ?p = "manifest_path dir (Generation m)"
  let ?goal = "(if committed
      then n = manifestFileName (Generation m) \<and> (\<exists>ptr c. marshalCurrent n = Inr ptr \<and> MarshalManifest jl m = Inr c
        \<and> fs w ?p = None \<and> fs w' = (fs w)(?p \<mapsto> whole c, current_path dir \<mapsto> whole ptr))
      else err \<noteq> None \<and> left_over ?p w w') \<and> (paths_complete w \<longrightarrow> paths_complete w') \<and> dirs w' = dirs w"
  obtain r0 w0 where c0: "ctx_Err w = (r0, w0)" by (cases "ctx_Err w")
  have f0: "fs w0 = fs w" "paths w0 = paths w" "dirs w0 = dirs w" using ctx_Err_frame [OF c0] ctx_Err_paths [OF c0] by simp_all
  have ?goal
  proof (cases "Manifest_Validate m = None \<and> r0 = None \<and> (\<exists>c. MarshalManifest jl m = Inr c)")
    case False
    then show ?thesis
      using assms c0 f0 paths_complete_frame [of w w0]
      by (auto simp: left_over_def publishLocked_def Let_def split: option.splits sum.splits dest: sym)
  next
    case True
    then obtain c where c: "MarshalManifest jl m = Inr c" by blast
    obtain e1 w1 where wr: "writeExclusiveSynced ?p c w0 = (e1, w1)" by (cases "writeExclusiveSynced ?p c w0")
    note wc = writeExclusiveSynced_cases [OF wr]
    have p1: "paths_complete w \<Longrightarrow> paths_complete w1" "dirs w1 = dirs w" using wc f0 paths_complete_frame [of w w0] by auto
    show ?thesis
    proof (cases e1)
      case (Some e)
      then show ?thesis using assms True c0 c wr wc f0 p1 by (auto simp: left_over_def publishLocked_def Let_def)
    next
      case None
      then have f1: "fs w ?p = None" "fs w1 = (fs w)(?p \<mapsto> whole c)" using wc f0 by auto
      obtain e2 w2 where sy: "io_step w1 = (e2, w2)" by (cases "io_step w1")
      obtain e3 w3 where c3: "ctx_Err w2 = (e3, w3)" by (cases "ctx_Err w2")
      have f3: "fs w2 = fs w1" "fs w3 = fs w1" "dirs w2 = dirs w" "dirs w3 = dirs w"
        "paths_complete w \<Longrightarrow> paths_complete w2" "paths_complete w \<Longrightarrow> paths_complete w3"
        using io_step_frame [OF sy] io_step_paths [OF sy] ctx_Err_frame [OF c3] ctx_Err_paths [OF c3] p1
          paths_complete_frame [of w1 w2] paths_complete_frame [of w1 w3] by auto
      show ?thesis
      proof (cases "e2 = None \<and> e3 = None")
        case False
        then show ?thesis
          using assms True c0 c wr None f1 f3 sy c3
          by (cases e2; cases e3) (auto simp: left_over_def publishLocked_def Let_def syncDirectory_def)
      next
        case e23: True
        then have "install_current dir expected (manifestFileName (Generation m)) w3 = ((n, committed, err), w')"
          using assms True c0 c wr None sy c3 by (auto simp: left_over_def publishLocked_def Let_def syncDirectory_def)
        from install_current_cases [OF this] show ?thesis using f1 f3 c by (auto simp: left_over_def split: if_splits)
      qed
    qed
  qed
  then show "if committed
      then n = manifestFileName (Generation m) \<and> (\<exists>ptr c. marshalCurrent n = Inr ptr \<and> MarshalManifest jl m = Inr c
        \<and> fs w ?p = None
        \<and> fs w' = (fs w)(?p \<mapsto> whole c, current_path dir \<mapsto> whole ptr))
      else err \<noteq> None \<and> left_over ?p w w'"
    "paths_complete w \<Longrightarrow> paths_complete w'" "dirs w' = dirs w" by blast+
qed

section \<open>The manager and the directory\<close>

text \<open>What is on disk is the manager's version: \<open>CURRENT\<close> names it and its manifest file decodes to it.\<close>

definition on_disk :: "json_lib \<Rightarrow> string \<Rightarrow> Manifest \<Rightarrow> world \<Rightarrow> bool" where
  "on_disk jl dir v w \<longleftrightarrow> Generation v \<noteq> 0
     \<and> (\<exists>ptr. marshalCurrent (manifestFileName (Generation v)) = Inr ptr \<and> fs w (current_path dir) = Some (whole ptr))
     \<and> (\<exists>c. fs w (manifest_path dir (Generation v)) = Some (whole c) \<and> UnmarshalManifest jl c = Inr v
           \<and> 32 \<le> length c \<and> length c \<le> 32 + maxManifestSize)"

definition vm_inv :: "json_lib \<Rightarrow> VersionManager \<Rightarrow> world \<Rightarrow> bool" where
  "vm_inv jl m w \<longleftrightarrow> on_disk jl (vm_dir m) (vm_current m) w
     \<and> vm_currentName m = manifestFileName (Generation (vm_current m)) \<and> paths_complete w"

text \<open>The world after a crash and a restart: nothing is cancelled, nothing fails, and every file holds
  some prefix of its bytes that contains the durable one.  Names take effect at once in the model.\<close>

definition reboot :: "world \<Rightarrow> world \<Rightarrow> bool" where
  "reboot w w1 \<longleftrightarrow> polls w1 = None \<and> outcomes w1 = [] \<and> dirs w1 = dirs w
     \<and> (\<forall>p. case fs w p of None \<Rightarrow> fs w1 p = None
         | Some f \<Rightarrow> \<exists>f1. fs w1 p = Some f1 \<and> crash_image f (content f1))"

lemma reboot_whole:
  assumes "reboot w w1" and "fs w p = Some (whole c)"
  obtains f where "fs w1 p = Some f" "content f = c"
proof -
  obtain f where f: "fs w1 p = Some f" "crash_image (whole c) (content f)"
    using assms by (auto simp: reboot_def dest!: spec [of _ p])
  then have "content f = c" by (auto simp: crash_image_def)
  then show ?thesis using that f(1) by blast
qed

lemma readCurrent_on_disk:
  assumes "on_disk jl dir v w" and "reboot w w1"
  shows "readCurrent dir w1 = (Inr (manifestFileName (Generation v)), w1)"
proof -
  obtain ptr where p: "marshalCurrent (manifestFileName (Generation v)) = Inr ptr" "fs w (current_path dir) = Some (whole ptr)"
    using assms(1) by (auto simp: on_disk_def)
  obtain f where "fs w1 (current_path dir) = Some f" "content f = ptr" by (rule reboot_whole [OF assms(2) p(2)])
  then show ?thesis using assms(2) decode_marshalCurrent [OF p(1)]
    by (simp add: reboot_def readCurrent_def os_Open_def currentHeaderLen_def maxCurrentSize_def)
qed

text \<open>Opening the directory after a crash gives the version on disk.\<close>

lemma OpenVersionManager_on_disk:
  assumes "on_disk jl dir v w" and "reboot w w1" and "dir \<in> set (dirs w)"
  shows "OpenVersionManager jl dir w1 =
    (Inr \<lparr>vm_dir = dir, vm_current = v, vm_currentName = manifestFileName (Generation v)\<rparr>, w1)"
proof -
  obtain c where c: "fs w (manifest_path dir (Generation v)) = Some (whole c)" "UnmarshalManifest jl c = Inr v"
    "32 \<le> length c" "length c \<le> 32 + maxManifestSize"
    using assms(1) by (auto simp: on_disk_def)
  obtain f where "fs w1 (manifest_path dir (Generation v)) = Some f" "content f = c" by (rule reboot_whole [OF assms(2) c(1)])
  then show ?thesis using assms(2,3) c(2-4) readCurrent_on_disk [OF assms(1,2)]
    by (simp add: reboot_def OpenVersionManager_def os_StatDir_def readManifestFile_def os_Open_def manifestHeaderSize_def)
qed

lemma on_disk_other_manifest:
  "on_disk jl dir v w \<Longrightarrow> fs w (manifest_path dir g) = None \<Longrightarrow> fs w' = (fs w)(manifest_path dir g \<mapsto> f) \<Longrightarrow> on_disk jl dir v w'"
  using current_not_manifest by (auto simp: on_disk_def)

lemma on_disk_published:
  assumes "json_stores jl v" and "MarshalManifest jl v = Inr c" and "marshalCurrent (manifestFileName (Generation v)) = Inr ptr"
    and "fs w' = f(manifest_path dir (Generation v) \<mapsto> whole c, current_path dir \<mapsto> whole ptr)"
  shows "on_disk jl dir v w'"
proof -
  have v: "Manifest_Validate v = None" using assms(2) by (auto simp: MarshalManifest_def split: option.splits)
  obtain e where "MarshalManifest jl v = Inr e" "UnmarshalManifest jl e = Inr v" "32 \<le> length e" "length e \<le> 32 + maxManifestSize"
    by (rule Unmarshal_Marshal [OF assms(1) v])
  moreover have "Generation v \<noteq> 0" using v by (auto simp: Manifest_Validate_def split: if_splits)
  ultimately show ?thesis using assms(2-4) current_not_manifest [of dir "Generation v"] by (auto simp: on_disk_def)
qed

lemma readCurrent_frame:
  "readCurrent dir w = (r, w') \<Longrightarrow> fs w' = fs w \<and> paths w' = paths w \<and> dirs w' = dirs w"
  by (fastforce simp: readCurrent_def os_Open_def split: prod.splits option.splits sum.splits if_splits
      dest!: io_step_env)

text \<open>Publication by a manager: the version on disk is the manager's afterwards too, the old one or
  the new one, and the new one has a larger generation.\<close>

lemma publishManagerLocked_stored:
  assumes inv: "vm_inv jl m w" and js: "\<And>g. vm_current m' = prepareManifest v g \<Longrightarrow> json_stores jl (vm_current m')"
    and pub: "publishManagerLocked jl lock v m w = ((answer, err), m', w')"
  shows "vm_inv jl m' w'" "dirs w' = dirs w" "vm_dir m' = vm_dir m"
    "case answer of None \<Rightarrow> m' = m
      | Some v' \<Rightarrow> vm_current m' = v' \<and> Generation (vm_current m) < Generation v' \<and> v' = prepareManifest v (Generation v')"
proof -
  let ?dir = "vm_dir m"
  let ?goal = "vm_inv jl m' w' \<and> dirs w' = dirs w \<and> vm_dir m' = ?dir \<and> (case answer of None \<Rightarrow> m' = m
      | Some v' \<Rightarrow> vm_current m' = v' \<and> Generation (vm_current m) < Generation v' \<and> v' = prepareManifest v (Generation v'))"
  have same: ?goal if "m' = m" "answer = None" "fs w' = fs w" "paths w' = paths w" "dirs w' = dirs w"
    using that inv paths_complete_frame [of w w'] by (simp add: vm_inv_def on_disk_def)
  obtain r1 w1 where rc: "readCurrent ?dir w = (r1, w1)" by (cases "readCurrent ?dir w")
  obtain r2 w2 where nx: "nextManifestGeneration ?dir w1 = (r2, w2)" by (cases "nextManifestGeneration ?dir w1")
  have f1: "fs w1 = fs w" "paths w1 = paths w" "dirs w1 = dirs w" using readCurrent_frame [OF rc] by simp_all
  have ?goal
  proof (cases "lock = Inr True \<and> r1 = Inr (vm_currentName m)")
    case False
    then show ?thesis
      by (intro same) (use pub rc f1 in \<open>auto simp: publishManagerLocked_def split: sum.splits if_splits\<close>)
  next
    case lk: True
    show ?thesis
    proof (cases r2)
      case (Inl e)
      have "fs w2 = fs w1 \<and> paths w2 = paths w1 \<and> dirs w2 = dirs w1"
        using nx by (fastforce simp: nextManifestGeneration_def os_ReadDir_def Let_def split: prod.splits option.splits if_splits
            dest!: io_step_env)
      then show ?thesis by (intro same) (use pub rc f1 lk nx Inl in \<open>auto simp: publishManagerLocked_def\<close>)
    next
      case (Inr g)
      have pc: "paths_complete w1" using inv f1 paths_complete_frame [of w w1] by (simp add: vm_inv_def)
      note fresh = nextManifestGeneration_fresh [OF nx [unfolded Inr] pc]
      let ?v = "prepareManifest v g"
      have gen: "Generation ?v = g" by (simp add: prepareManifest_def)
      obtain n committed err' w3 where p: "publishLocked jl ?dir (vm_currentName m) ?v w2 = ((n, committed, err'), w3)"
        by (metis prod.collapse)
      note pc = publishLocked_cases [OF p, unfolded gen]
      have d: "on_disk jl ?dir (vm_current m) w2" using inv fresh(4) f1 by (simp add: vm_inv_def on_disk_def)
      have free: "fs w2 (manifest_path ?dir g) = None" using fresh(3,4) by simp
      have pcw: "paths_complete w3" using pc(2) inv fresh f1 paths_complete_frame [of w w2] by (simp add: vm_inv_def)
      have w3: "w' = w3" using pub lk rc nx Inr p by (auto simp: publishManagerLocked_def Let_def split: if_splits)
      show ?thesis
      proof (cases committed)
        case False
        then have m': "m' = m" "answer = None" using pub lk rc nx Inr p by (auto simp: publishManagerLocked_def Let_def)
        have "on_disk jl ?dir (vm_current m) w3"
          using pc(1) False d on_disk_other_manifest [OF d free] by (auto simp: on_disk_def left_over_def)
        then show ?thesis using m' w3 inv pcw pc(3) fresh(6) f1 by (simp add: vm_inv_def)
      next
        case True
        then have m': "m' = m\<lparr>vm_current := ?v, vm_currentName := n\<rparr>" "answer = Some ?v"
          using pub lk rc nx Inr p by (auto simp: publishManagerLocked_def Let_def)
        from pc(1) True obtain ptr c where x: "n = manifestFileName g" "marshalCurrent n = Inr ptr" "MarshalManifest jl ?v = Inr c"
          "fs w3 = (fs w2)(manifest_path ?dir g \<mapsto> whole c, current_path ?dir \<mapsto> whole ptr)" by auto
        have "json_stores jl ?v" using js [of g] m'(1) by simp
        then have "on_disk jl ?dir ?v w3" by (rule on_disk_published [OF _ x(3)]) (use x gen in auto)
        moreover have "Generation (vm_current m) < g"
          using fresh(2) [of "Generation (vm_current m)"] inv f1 by (auto simp: vm_inv_def on_disk_def)
        ultimately show ?thesis using m' w3 pcw pc(3) fresh(6) f1 x(1) gen by (simp add: vm_inv_def)
      qed
    qed
  qed
  then show "vm_inv jl m' w'" "dirs w' = dirs w" "vm_dir m' = vm_dir m"
    "case answer of None \<Rightarrow> m' = m
      | Some v' \<Rightarrow> vm_current m' = v' \<and> Generation (vm_current m) < Generation v' \<and> v' = prepareManifest v (Generation v')"
    by blast+
qed

lemma publishManagerLocked_inv:
  assumes "vm_inv jl m w" and js: "\<And>g. json_stores jl (prepareManifest v g)"
    and "publishManagerLocked jl lock v m w = ((answer, err), m', w')"
  shows "vm_inv jl m' w'" "dirs w' = dirs w" "vm_dir m' = vm_dir m"
    "case answer of None \<Rightarrow> m' = m
      | Some v' \<Rightarrow> vm_current m' = v' \<and> Generation (vm_current m) < Generation v' \<and> v' = prepareManifest v (Generation v')"
  using publishManagerLocked_stored [OF assms(1) _ assms(3)] js by simp_all

text \<open>A publication touches no file but the new manifest and \<open>CURRENT\<close>.\<close>

lemma publishManagerLocked_files:
  assumes "publishManagerLocked jl lock v m w = (r, m', w')" and "fs w p = Some f" and "p \<noteq> current_path (vm_dir m)"
  shows "fs w' p = Some f"
proof -
  obtain r1 w1 where rc: "readCurrent (vm_dir m) w = (r1, w1)" by (cases "readCurrent (vm_dir m) w")
  obtain r2 w2 where nx: "nextManifestGeneration (vm_dir m) w1 = (r2, w2)" by (cases "nextManifestGeneration (vm_dir m) w1")
  have f: "fs w1 = fs w" "fs w2 = fs w"
    using readCurrent_frame [OF rc] nx
    by (fastforce simp: nextManifestGeneration_def os_ReadDir_def Let_def split: prod.splits option.splits if_splits dest!: io_step_env)+
  show ?thesis
  proof (cases "lock = Inr True \<and> r1 = Inr (vm_currentName m) \<and> (\<exists>g. r2 = Inr g)")
    case False
    then show ?thesis using assms(1,2) rc nx f by (auto simp: publishManagerLocked_def split: sum.splits if_splits)
  next
    case True
    then obtain g where g: "r2 = Inr g" by blast
    obtain n committed err w3 where p: "publishLocked jl (vm_dir m) (vm_currentName m) (prepareManifest v g) w2 = ((n, committed, err), w3)"
      by (metis prod.collapse)
    have "w' = w3" using assms(1) rc nx g p True by (auto simp: publishManagerLocked_def Let_def split: if_splits)
    then show ?thesis using publishLocked_cases(1) [OF p] f assms(2,3) by (auto simp: left_over_def split: if_splits)
  qed
qed

text \<open>Creation commits the initial version; a failed creation may leave a manifest that nothing names.\<close>

lemma ancestors_self: "d \<in> set (ancestors d)"
  by (subst ancestors.simps) simp

lemma os_MkdirAll_cases:
  assumes "os_MkdirAll dir w = (e, w')"
  shows "fs w' = fs w" "paths w' = paths w" "e = None \<Longrightarrow> dir \<in> set (dirs w')"
proof -
  obtain r w1 where io: "io_step w = (r, w1)" by (cases "io_step w")
  note f = io_step_env [OF io]
  show "fs w' = fs w" "paths w' = paths w" "e = None \<Longrightarrow> dir \<in> set (dirs w')"
    using assms io f ancestors_self [of dir] by (auto simp: os_MkdirAll_def split: option.splits if_splits)
qed

lemma os_Open_error:
  "os_Open n w = (Inl e, w') \<Longrightarrow> \<not> errors_Is e ErrManifestNotFound \<and> (errors_Is e OsErrNotExist \<longrightarrow> fs w n = None)"
  by (auto simp: os_Open_def io_step_def io_error_def split: list.splits io_outcome.splits option.splits)

lemma decodeCurrent_error: "decodeCurrent c = Inl e \<Longrightarrow> \<not> errors_Is e ErrManifestNotFound"
  by (auto simp: decodeCurrent_def Let_def split: if_splits)

lemma io_step_error: "io_step w = (Some e, w') \<Longrightarrow> e = io_error"
  by (auto simp: io_step_def split: list.splits io_outcome.splits)

lemma readCurrent_not_found:
  assumes "readCurrent dir w = (Inl e, w')" and "errors_Is e ErrManifestNotFound"
  shows "fs w (current_path dir) = None"
proof (cases "os_Open (current_path dir) w")
  case (Pair r w1)
  show ?thesis
  proof (cases r)
    case (Inl err)
    then show ?thesis using assms Pair os_Open_error [of "current_path dir" w err w1] by (auto simp: readCurrent_def split: if_splits)
  next
    case (Inr c)
    then show ?thesis using assms Pair
      by (auto simp: readCurrent_def io_error_def split: prod.splits option.splits if_splits dest!: decodeCurrent_error io_step_error)
  qed
qed

lemma CreateVersionManager_stored:
  assumes js: "\<And>g. vm_current m = prepareManifest v g \<Longrightarrow> json_stores jl (vm_current m)" and pc: "paths_complete w"
    and cr: "CreateVersionManager jl lock dir v w = ((Some m, err), w')"
  shows "vm_inv jl m w'" "dir \<in> set (dirs w')" "vm_dir m = dir" "vm_current m = prepareManifest v (Generation (vm_current m))"
    "fs w (current_path dir) = None" "\<And>p f. fs w p = Some f \<Longrightarrow> p \<noteq> current_path dir \<Longrightarrow> fs w' p = Some f"
proof -
  obtain w0 where c0: "ctx_Err w = (None, w0)" using cr by (auto simp: CreateVersionManager_def split: if_splits prod.splits option.splits)
  obtain r1 w1 where mk: "os_MkdirAll dir w0 = (r1, w1)" by (cases "os_MkdirAll dir w0")
  have ne: "dir \<noteq> []" using cr by (auto simp: CreateVersionManager_def)
  have r1: "r1 = None" using cr c0 mk ne by (cases r1) (auto simp: CreateVersionManager_def)
  have lk: "lock = Inr True" using cr c0 mk ne r1 by (auto simp: CreateVersionManager_def split: sum.splits if_splits)
  obtain r2 w2 where rc: "readCurrent dir w1 = (r2, w2)" by (cases "readCurrent dir w1")
  obtain e where r2: "r2 = Inl e" "errors_Is e ErrManifestNotFound"
    using cr c0 mk ne r1 lk rc by (auto simp: CreateVersionManager_def split: sum.splits if_splits)
  obtain r3 w3 where nx: "nextManifestGeneration dir w2 = (r3, w3)" by (cases "nextManifestGeneration dir w2")
  obtain g where r3: "r3 = Inr g"
    using cr c0 mk ne r1 lk rc r2 nx by (auto simp: CreateVersionManager_def split: sum.splits if_splits)
  let ?v = "prepareManifest v g"
  have gen: "Generation ?v = g" by (simp add: prepareManifest_def)
  obtain n committed err' w4 where p: "publishLocked jl dir [] ?v w3 = ((n, committed, err'), w4)" by (metis prod.collapse)
  have cm: "committed" "m = \<lparr>vm_dir = dir, vm_current = ?v, vm_currentName = n\<rparr>" "w' = w4"
    using cr c0 mk ne r1 lk rc r2 nx r3 p by (auto simp: CreateVersionManager_def Let_def split: if_splits option.splits)
  note mf = os_MkdirAll_cases [OF mk] and rf = readCurrent_frame [OF rc]
  have pc2: "paths_complete w2" using pc ctx_Err_frame [OF c0] ctx_Err_paths [OF c0] mf rf by (simp add: paths_complete_def)
  note fresh = nextManifestGeneration_fresh [OF nx [unfolded r3] pc2]
  note pl = publishLocked_cases [OF p, unfolded gen]
  from pl(1) cm(1) obtain ptr c where x: "n = manifestFileName g" "marshalCurrent n = Inr ptr" "MarshalManifest jl ?v = Inr c"
    "fs w4 = (fs w3)(manifest_path dir g \<mapsto> whole c, current_path dir \<mapsto> whole ptr)" by auto
  have "on_disk jl dir ?v w4" by (rule on_disk_published [OF _ x(3)]) (use x gen js cm(2) in auto)
  moreover have "paths_complete w4" using pl(2) pc2 fresh(4,5) by (simp add: paths_complete_def)
  ultimately show "vm_inv jl m w'" using cm x(1) gen by (simp add: vm_inv_def)
  show "dir \<in> set (dirs w')" using mf(3) r1 rf fresh(6) pl(3) cm(3) by simp
  show "vm_dir m = dir" "vm_current m = prepareManifest v (Generation (vm_current m))" using cm(2) gen by simp_all
  show "fs w' p = Some f" if "fs w p = Some f" "p \<noteq> current_path dir" for p f
    using that x(4) cm(3) fresh(3,4) ctx_Err_frame [OF c0] mf rf by auto
  show "fs w (current_path dir) = None"
  proof -
    have "fs w1 (current_path dir) = None" using readCurrent_not_found [OF rc [unfolded r2(1)] r2(2)] .
    then show ?thesis using ctx_Err_frame [OF c0] mf by simp
  qed
qed

lemma CreateVersionManager_inv:
  assumes "\<And>g. json_stores jl (prepareManifest v g)" and "paths_complete w"
    and "CreateVersionManager jl lock dir v w = ((Some m, err), w')"
  shows "vm_inv jl m w'" "dir \<in> set (dirs w')" "vm_dir m = dir" "vm_current m = prepareManifest v (Generation (vm_current m))"
    "fs w (current_path dir) = None"
  using CreateVersionManager_stored [OF _ assms(2,3)] assms(1) by simp_all

section \<open>Histories of a manager\<close>

text \<open>Calls of a manager, each with what its lock, its context and the disk do.  \<open>storable\<close> are the
  versions the JSON library stores.\<close>

inductive vm_step :: "json_lib \<Rightarrow> VersionManager \<times> world \<Rightarrow> VersionManager \<times> world \<Rightarrow> bool" for jl where
  step_publish: "(\<And>g. json_stores jl (prepareManifest v g)) \<Longrightarrow>
     VersionManager_Publish jl lock v m w = (r, m', w') \<Longrightarrow> vm_step jl (m, w) (m', w')"
| step_update: "(\<And>v g. mutate (vm_current m) = Inr v \<Longrightarrow> json_stores jl (prepareManifest v g)) \<Longrightarrow>
     VersionManager_Update jl lock mutate m w = (r, m', w') \<Longrightarrow> vm_step jl (m, w) (m', w')"
| step_environment: "vm_step jl (m, w) (m, w\<lparr>polls := n, outcomes := ios\<rparr>)"

inductive_cases vm_stepE: "vm_step jl (m, w) (m', w')"

lemma vm_inv_env: "vm_inv jl m w \<Longrightarrow> fs w' = fs w \<Longrightarrow> paths w' = paths w \<Longrightarrow> vm_inv jl m w'"
  by (simp add: vm_inv_def on_disk_def paths_complete_def)

lemma vm_step_inv:
  assumes st: "vm_step jl (m, w) (m', w')" and inv: "vm_inv jl m w"
  shows "vm_inv jl m' w'" "dirs w' = dirs w" "vm_dir m' = vm_dir m"
    "Generation (vm_current m) \<le> Generation (vm_current m')"
proof -
  have pub: "vm_inv jl m' w' \<and> dirs w' = dirs w1 \<and> vm_dir m' = vm_dir m \<and> Generation (vm_current m) \<le> Generation (vm_current m')"
    if js: "\<And>g. json_stores jl (prepareManifest v g)" and p: "publishManagerLocked jl lock v m w1 = (r, m', w')"
      and f: "fs w1 = fs w" "paths w1 = paths w" for v lock w1 r
  proof -
    obtain answer err where r: "r = (answer, err)" by (cases r)
    have i: "vm_inv jl m w1" using vm_inv_env [OF inv] f by simp
    note x = publishManagerLocked_inv [OF i js p [unfolded r]]
    show ?thesis using x by (cases answer) auto
  qed
  have "vm_inv jl m' w' \<and> dirs w' = dirs w \<and> vm_dir m' = vm_dir m \<and> Generation (vm_current m) \<le> Generation (vm_current m')"
    using st
  proof (rule vm_stepE)
    fix v lock r
    assume js: "\<And>g. json_stores jl (prepareManifest v g)" and p: "VersionManager_Publish jl lock v m w = (r, m', w')"
    obtain e w1 where c: "ctx_Err w = (e, w1)" by (cases "ctx_Err w")
    note f = ctx_Err_frame [OF c] ctx_Err_paths [OF c]
    show ?thesis
      using p c f pub [OF js, of lock w1 r] vm_inv_env [OF inv, of w1] by (cases e) (auto simp: VersionManager_Publish_def)
  next
    fix mutate lock r
    assume js: "\<And>v g. mutate (vm_current m) = Inr v \<Longrightarrow> json_stores jl (prepareManifest v g)"
      and p: "VersionManager_Update jl lock mutate m w = (r, m', w')"
    obtain e w1 where c: "ctx_Err w = (e, w1)" by (cases "ctx_Err w")
    obtain e2 w2 where c2: "ctx_Err w1 = (e2, w2)" by (cases "ctx_Err w1")
    note f = ctx_Err_frame [OF c] ctx_Err_paths [OF c] ctx_Err_frame [OF c2] ctx_Err_paths [OF c2]
    have i: "vm_inv jl m w1" "vm_inv jl m w2" using vm_inv_env [OF inv] f by auto
    show ?thesis
    proof (cases "e = None \<and> e2 = None \<and> (\<exists>v. mutate (vm_current m) = Inr v)")
      case True
      then obtain v where v: "mutate (vm_current m) = Inr v" by blast
      then have "publishManagerLocked jl lock v m w2 = (r, m', w')"
        using p c c2 True by (simp add: VersionManager_Update_def update_locked_def)
      from pub [OF js [OF v] this] show ?thesis using f by simp
    next
      case False
      then have "m' = m" "w' = w1 \<or> w' = w2"
        using p c c2 by (auto simp: VersionManager_Update_def Let_def split: option.splits sum.splits)
      then show ?thesis using i f by auto
    qed
  next
    fix n ios
    assume "w' = w\<lparr>polls := n, outcomes := ios\<rparr>" "m = m'"
    then show ?thesis using vm_inv_env [OF inv, of w'] by simp
  qed
  then show "vm_inv jl m' w'" "dirs w' = dirs w" "vm_dir m' = vm_dir m"
    "Generation (vm_current m) \<le> Generation (vm_current m')" by blast+
qed

lemma vm_reachable_inv:
  assumes "(vm_step jl)\<^sup>*\<^sup>* (m, w) (m', w')" and "vm_inv jl m w"
  shows "vm_inv jl m' w' \<and> dirs w' = dirs w \<and> vm_dir m' = vm_dir m
    \<and> Generation (vm_current m) \<le> Generation (vm_current m')"
  using assms(1)
proof (induction rule: rtranclp_induct2)
  case (step m1 w1 m2 w2)
  then show ?case using vm_step_inv [OF step.hyps(2)] by auto
qed (use assms(2) in simp)

section \<open>Publication succeeds\<close>

lemma writeExclusiveSynced_calm:
  assumes "calm w" and "fs w n = None"
  shows "\<exists>w'. writeExclusiveSynced n c w = (None, w') \<and> calm w'"
  using assms by (cases c) (auto simp: calm_def writeExclusiveSynced_def os_CreateExcl_def file_WriteFullAt_def file_Sync_def)

lemma writeTempSynced_calm: "calm w \<Longrightarrow> \<exists>w'. writeTempSynced c w = (Inr c, w') \<and> calm w'"
  by (cases c) (auto simp: calm_def writeTempSynced_def write_at_def Let_def)

lemma install_current_calm:
  assumes "calm w" and "marshalCurrent name = Inr ptr" and "expected = [] \<Longrightarrow> fs w (current_path dir) = None"
  shows "\<exists>w'. install_current dir expected name w = ((name, True, None), w') \<and> calm w'"
proof -
  obtain w1 where w1: "writeTempSynced ptr w = (Inr ptr, w1)" "calm w1" using writeTempSynced_calm [OF assms(1)] by blast
  have f: "fs w1 = fs w" using writeTempSynced_frame [OF w1(1)] by simp
  show ?thesis using assms w1 f
    by (auto simp: install_current_def installFileNoReplace_def atomicReplaceFile_def syncDirectory_def calm_def)
qed

lemma publishLocked_calm:
  assumes w: "calm w" and v: "Manifest_Validate m = None" and js: "json_stores jl m"
    and free: "fs w (manifest_path dir (Generation m)) = None" "expected = [] \<Longrightarrow> fs w (current_path dir) = None"
  shows "\<exists>w'. publishLocked jl dir expected m w = ((manifestFileName (Generation m), True, None), w') \<and> calm w'"
proof -
  obtain c where c: "MarshalManifest jl m = Inr c" by (rule Unmarshal_Marshal [OF js v])
  obtain w1 where w1: "writeExclusiveSynced (manifest_path dir (Generation m)) c w = (None, w1)" "calm w1"
    using writeExclusiveSynced_calm [OF w free(1)] by blast
  have g: "Generation m \<noteq> 0" using v by (auto simp: Manifest_Validate_def split: if_splits)
  then obtain ptr where ptr: "marshalCurrent (manifestFileName (Generation m)) = Inr ptr" using marshalCurrent_Inr by blast
  have "fs w1 (current_path dir) = fs w (current_path dir)"
    using writeExclusiveSynced_cases(1) [OF w1(1)] current_not_manifest by simp
  then obtain w2 where "install_current dir expected (manifestFileName (Generation m)) w1 =
      ((manifestFileName (Generation m), True, None), w2)" "calm w2"
    using install_current_calm [OF w1(2) ptr] free(2) by metis
  then show ?thesis using w v c w1 by (auto simp: publishLocked_def calm_def Let_def syncDirectory_def)
qed

text \<open>In a calm world a directory without a version can be given an initial one, and a manager whose
  version is on disk can publish the next.\<close>

lemma nextManifestGeneration_calm:
  assumes "calm w" and "fold max (List.map_filter parseManifestFileName (map filepath_Base
      (filter (\<lambda>p. fs w p \<noteq> None \<and> filepath_Join dir (filepath_Base p) = p) (paths w)))) 0 \<noteq> MaxUint64"
  shows "\<exists>g. nextManifestGeneration dir w = (Inr g, w)"
  using assms by (simp add: calm_def nextManifestGeneration_def os_ReadDir_def Let_def)

lemma reboot_calm: "calm w \<Longrightarrow> reboot w w"
proof -
  have "crash_image f (content f)" for f unfolding crash_image_def by (metis nat_le_linear take_all)
  then show "calm w \<Longrightarrow> reboot w w" by (auto simp: reboot_def calm_def split: option.splits)
qed

lemma publishManagerLocked_calm:
  assumes inv: "vm_inv jl m w" and w: "calm w" and js: "\<And>g. json_stores jl (prepareManifest v g)"
    and ok: "\<And>g. g \<noteq> 0 \<Longrightarrow> Manifest_Validate (prepareManifest v g) = None"
    and room: "nextManifestGeneration (vm_dir m) w = (Inr g, w)"
  shows "\<exists>m' w'. publishManagerLocked jl (Inr True) v m w = ((Some (prepareManifest v g), None), m', w')"
proof -
  have "reboot w w" by (rule reboot_calm [OF w])
  then have rc: "readCurrent (vm_dir m) w = (Inr (vm_currentName m), w)"
    using readCurrent_on_disk [of jl "vm_dir m" "vm_current m" w w] inv by (simp add: vm_inv_def)
  have pc: "paths_complete w" using inv by (simp add: vm_inv_def)
  note fresh = nextManifestGeneration_fresh [OF room pc]
  have gen: "Generation (prepareManifest v g) = g" by (simp add: prepareManifest_def)
  have ne: "vm_currentName m \<noteq> []" using inv by (simp add: vm_inv_def manifestFileName_def manifestPrefix_def)
  obtain w' where "publishLocked jl (vm_dir m) (vm_currentName m) (prepareManifest v g) w = ((manifestFileName g, True, None), w')"
    using publishLocked_calm [OF w ok [OF fresh(1)] js, of "vm_dir m" "vm_currentName m"] fresh(3) gen ne by auto
  then show ?thesis using rc room by (simp add: publishManagerLocked_def Let_def)
qed

lemma manifestFileName_inj:
  assumes "g \<noteq> 0" and "manifestFileName g = manifestFileName h"
  shows "g = h"
proof -
  have "Some g = (if h = 0 then None else Some h)"
    unfolding parse_manifestFileName [of h, symmetric] assms(2) [symmetric] parse_manifestFileName using assms(1) by simp
  then show ?thesis by (simp split: if_splits)
qed

text \<open>Two managers of one directory whose versions are both on disk have the same version.\<close>

lemma on_disk_unique:
  assumes "on_disk jl dir v w" and "on_disk jl dir v' w"
  shows "v' = v"
proof -
  obtain p where p: "marshalCurrent (manifestFileName (Generation v)) = Inr p" "fs w (current_path dir) = Some (whole p)"
    using assms(1) by (auto simp: on_disk_def)
  moreover have "marshalCurrent (manifestFileName (Generation v')) = Inr p" using assms(2) p(2) by (auto simp: on_disk_def)
  ultimately have "manifestFileName (Generation v) = manifestFileName (Generation v')" by (metis decode_marshalCurrent(1) sum.inject(2))
  then have "Generation v = Generation v'" using assms(1) manifestFileName_inj by (simp add: on_disk_def)
  then show ?thesis using assms by (auto simp: on_disk_def)
qed

lemma readCurrent_sound:
  assumes "on_disk jl dir v w" and "readCurrent dir w = (Inr name, w')"
  shows "name = manifestFileName (Generation v)"
proof -
  obtain p where p: "marshalCurrent (manifestFileName (Generation v)) = Inr p" "fs w (current_path dir) = Some (whole p)"
    using assms(1) by (auto simp: on_disk_def)
  then show ?thesis using assms(2) decode_marshalCurrent [OF p(1)]
    by (auto simp: readCurrent_def os_Open_def split: prod.splits option.splits if_splits dest!: io_step_env)
qed

text \<open>Whatever the disk does, a manager whose version is not the one on disk publishes nothing.\<close>

lemma publishManagerLocked_stale:
  assumes d: "on_disk jl (vm_dir m) v w" and n: "vm_currentName m \<noteq> manifestFileName (Generation v)"
    and p: "publishManagerLocked jl lock v' m w = ((answer, err), m', w')"
  shows "answer = None \<and> err \<noteq> None \<and> m' = m \<and> fs w' = fs w \<and> (calm w \<and> lock = Inr True \<longrightarrow> (\<exists>e. err = Some e \<and> errors_Is e ErrManifestConflict))"
proof -
  obtain r w1 where rc: "readCurrent (vm_dir m) w = (r, w1)" by (cases "readCurrent (vm_dir m) w")
  have f: "fs w1 = fs w" using readCurrent_frame [OF rc] by simp
  have ne: "r \<noteq> Inr (vm_currentName m)" using readCurrent_sound [OF d] rc n by auto
  have c: "calm w \<Longrightarrow> r = Inr (manifestFileName (Generation v))" using readCurrent_on_disk [OF d reboot_calm] rc by simp
  show ?thesis using p rc f ne c by (auto simp: publishManagerLocked_def split: sum.splits if_splits)
qed

text \<open>What a restart opens is the manager's version.\<close>

lemma vm_inv_opens:
  assumes "vm_inv jl m w" and "reboot w w1" and "vm_dir m \<in> set (dirs w)"
  shows "OpenVersionManager jl (vm_dir m) w1 = (Inr m, w1)"
proof -
  have d: "on_disk jl (vm_dir m) (vm_current m) w" "vm_currentName m = manifestFileName (Generation (vm_current m))"
    using assms(1) by (auto simp: vm_inv_def)
  show ?thesis unfolding OpenVersionManager_on_disk [OF d(1) assms(2,3)] d(2) [symmetric] by simp
qed

lemma map_filter_memE:
  assumes "y \<in> set (List.map_filter f xs)"
  obtains x where "x \<in> set xs" "f x = Some y"
  using assms by (force simp: List.map_filter_def)

text \<open>A directory whose manifests are all older than the last generation has room for another.\<close>

lemma generation_room:
  assumes "calm w" and old: "\<And>g p. fs w p \<noteq> None \<Longrightarrow> g \<noteq> 0 \<Longrightarrow> filepath_Base p = manifestFileName g \<Longrightarrow> g < MaxUint64"
  shows "\<exists>g. nextManifestGeneration dir w = (Inr g, w)"
proof (rule nextManifestGeneration_calm [OF assms(1)])
  let ?names = "map filepath_Base (filter (\<lambda>p. fs w p \<noteq> None \<and> filepath_Join dir (filepath_Base p) = p) (paths w))"
  have "g < MaxUint64" if "g \<in> set (List.map_filter parseManifestFileName ?names)" for g
  proof -
    from that obtain n where n: "n \<in> set ?names" "parseManifestFileName n = Some g" by (rule map_filter_memE)
    from n(1) obtain p where p: "fs w p \<noteq> None" "n = filepath_Base p" unfolding set_map set_filter by blast
    have "n = manifestFileName g" "g \<noteq> 0" using n(2) parseManifestFileName_iff [of n g] by blast+
    with old [OF p(1)] p(2) show ?thesis by blast
  qed
  then have "fold max (List.map_filter parseManifestFileName ?names) 0 < (MaxUint64 :: u64)"
    unfolding fold_max_less by (auto simp: word_less_nat_alt unat_MaxUint64)
  then show "fold max (List.map_filter parseManifestFileName ?names) 0 \<noteq> (MaxUint64 :: u64)" by (rule less_imp_neq)
qed

lemma publish_refused_error: "publishManagerLocked jl lock v m w = ((None, err), m', w') \<Longrightarrow> err \<noteq> None"
  using publishLocked_cases(1)
  by (fastforce simp: publishManagerLocked_def Let_def split: sum.split_asm prod.split_asm if_split_asm option.split_asm)

end
