(* ===== verification/Collection.thy ===== *)
theory Collection
  imports Recovery Version_Manager
begin

text \<open>
  The collection, \<open>internal/db/collection.go\<close>: the handle that owns a version manager, a segment manager and
  a write-ahead log, and the operations that create, open, write, flush and close it.  The
  pointers \<open>manager\<close> and \<open>wal\<close> of the handle and those of its engine name the same two objects, so
  the engine's fields hold both; a read-only handle has no engine in the code, and every use of one is behind
  \<open>requireWritableLocked\<close>.  The answers of the file locks are arguments.
\<close>

section \<open>Data\<close>

definition DefaultSegmentMaxDocuments :: u64 where "DefaultSegmentMaxDocuments = 65536"

record CollectionOptions =
  opt_ReadOnly :: bool
  opt_EnableMmap :: bool
  opt_SegmentMaxDocuments :: u64
  opt_WAL :: WALOptions

record CollectionStats =
  cst_DocumentCount :: u64
  cst_ImmutableSegmentCount :: u64
  cst_MutableDocumentCount :: u64
  cst_DeletedDocumentCount :: u64
  cst_MemoryUsageBytes :: u64

record CollectionStore =
  cs_dir :: string
  cs_readOnly :: bool
  cs_closed :: bool
  cs_versions :: VersionManager
  cs_engine :: WriteEngine

record SegmentSnapshot =
  ss_Metadata :: SegmentMetadata
  ss_Documents :: "StoredDocument list"
  ss_Mutable :: bool

text \<open>What the file locks answer during a call: the lock of the collection, of a log and of the versions,
  and the errors of closing a log's and the collection's lock.\<close>

record flocks =
  try_collection :: "bool result"
  try_wal :: "bool result"
  try_version :: "bool result"
  close_wal :: "go_error option"
  close_collection :: "go_error option"

abbreviation cs_manager :: "CollectionStore \<Rightarrow> SegmentManager" where
  "cs_manager c \<equiv> eng_manager (cs_engine c)"

abbreviation cs_wal :: "CollectionStore \<Rightarrow> WAL" where
  "cs_wal c \<equiv> eng_wal (cs_engine c)"

section \<open>Checks\<close>

definition requireWritableLocked :: "CollectionStore \<Rightarrow> go_error option" where
  "requireWritableLocked c =
     (if cs_closed c then Some (Sentinel ErrCollectionClosed)
      else if cs_readOnly c then Some (Sentinel ErrReadOnly)
      else None)"

definition validateSchemaJSON :: "bytes \<Rightarrow> go_error option" where
  "validateSchemaJSON schema =
     (if \<not> json_Valid schema then Some (corrupt ErrManifestCorrupt ''schema is not valid JSON'')
      else if \<not> json_Object schema then Some (corrupt ErrManifestCorrupt ''schema must be a JSON object'')
      else None)"

definition validateLifecycleManifest :: "Manifest \<Rightarrow> go_error option" where
  "validateLifecycleManifest manifest =
     (if SegmentMaxDocuments manifest = 0 \<or> IDMapGeneration manifest = 0 \<or> DeleteSnapshotGeneration manifest = 0
        then Some (corrupt ErrCollectionCorrupt ''invalid lifecycle generations or capacity'')
      else if (case WritingSegment manifest of None \<Rightarrow> True | Some s \<Rightarrow> DocCount s \<noteq> 0 \<or> length (Files s) \<noteq> 1)
        then Some (corrupt ErrCollectionCorrupt ''invalid writing segment metadata'')
      else if list_ex (\<lambda>s. 0 < DocCount s \<and> WritingSegmentStartDocID manifest \<le> MaxDocID s) (PersistedSegments manifest)
        then Some (corrupt ErrCollectionCorrupt ''writing segment starts before a persisted document'')
      else None)"

text \<open>\<open>validateCollectionState\<close>: \<open>known\<close> lists the document IDs of all segments and \<open>live\<close> maps the locations
  of the documents that are not deleted to their keys.\<close>

definition note_document ::
  "SegmentManager \<Rightarrow> u64 \<Rightarrow> StoredDocument \<Rightarrow> u64 list \<times> (DocumentLocation \<times> bytes) list
     \<Rightarrow> u64 list \<times> (DocumentLocation \<times> bytes) list" where
  "note_document m segmentID document x = (case x of (known, live) \<Rightarrow>
     (List.insert (doc_DocID document) known,
      if DeleteStore_IsDeleted (doc_DocID document) (mgr_deletes m) then live
      else AList.update \<lparr>SegmentID = segmentID, DocID = doc_DocID document\<rparr> (doc_PrimaryKey document) live))"

definition note_documents :: "SegmentManager \<Rightarrow> u64 list \<times> (DocumentLocation \<times> bytes) list" where
  "note_documents m =
     (let x = fold (\<lambda>s. fold (note_document m (ImmutableSegment_ID s)) (imm_docs s))
                (SegmentManager_ImmutableSegments m) ([], []) in
      case mgr_writing m of None \<Rightarrow> x | Some ws \<Rightarrow> fold (note_document m (ws_id ws)) (ws_docs ws) x)"

definition validateCollectionState :: "SegmentManager \<Rightarrow> go_error option" where
  "validateCollectionState m = (case note_documents m of (known, live) \<Rightarrow>
     if list_ex (\<lambda>docID. docID \<notin> set known) (deleted (mgr_deletes m))
       then Some (corrupt ErrCollectionCorrupt ''deletion references missing document'')
     else if length (entries (mgr_primaryKey m)) \<noteq> length live
       then Some (corrupt ErrCollectionCorrupt ''primary-key count differs from live document count'')
     else if list_ex (\<lambda>(key, location). map_of live location \<noteq> Some key) (entries (mgr_primaryKey m))
       then Some (corrupt ErrCollectionCorrupt ''primary key has invalid location'')
     else None)"

section \<open>Artifacts\<close>

lemma generation_measure:
  fixes g :: u64
  assumes "g \<noteq> MaxUint64"
  shows "2 ^ 64 - unat (g + 1) < 2 ^ 64 - unat g"
  using unat_plus_one_u64 [OF assms] unat_u64_lt [of g] by simp

fun cleanup :: "string list \<Rightarrow> world \<Rightarrow> world" where
  "cleanup [] w = w"
| "cleanup (name # created) w = cleanup created (snd (os_Remove name w))"

text \<open>A log that is closed while its errors are ignored.\<close>

definition discard_wal :: "flocks \<Rightarrow> WAL \<Rightarrow> world \<Rightarrow> world" where
  "discard_wal lk wal w = snd (snd (WAL_Close (close_wal lk) wal w))"

function availableArtifact :: "string \<Rightarrow> (u64 \<Rightarrow> string) \<Rightarrow> u64 \<Rightarrow> world \<Rightarrow> string result \<times> world" where
  "availableArtifact dir name generation w =
     (let relative = name generation in
      case os_Stat (filepath_Join dir relative) w of
        (Some e, w) \<Rightarrow>
          (if errors_Is e OsErrNotExist then (Inr relative, w) else (Inl (Wrap ''db: inspect artifact'' e), w))
      | (None, w) \<Rightarrow>
          (if generation = MaxUint64 then (Inl (NewError ''db: artifact generation space is exhausted''), w)
           else availableArtifact dir name (generation + 1) w))"
  by pat_completeness auto
termination
  by (relation "measure (\<lambda>(dir, name, g, w). 2 ^ 64 - unat g)")
    (use generation_measure in auto)

declare availableArtifact.simps [simp del]

definition snapshotGenerationExists :: "string \<Rightarrow> u64 \<Rightarrow> world \<Rightarrow> bool \<times> world" where
  "snapshotGenerationExists dir generation w =
     (case os_Stat (filepath_Join dir (primarySnapshotName generation)) w of
        (None, w) \<Rightarrow> (True, w)
      | (Some e, w) \<Rightarrow>
      if \<not> errors_Is e OsErrNotExist then (True, w)
      else case os_Stat (filepath_Join dir (deleteSnapshotName generation)) w of
        (None, w) \<Rightarrow> (True, w)
      | (Some e, w) \<Rightarrow> (\<not> errors_Is e OsErrNotExist, w))"

text \<open>The search for the next generation of snapshots that is not in use, which \<open>Flush\<close> has inline.\<close>

function next_generation :: "string \<Rightarrow> u64 \<Rightarrow> world \<Rightarrow> u64 result \<times> world" where
  "next_generation dir generation w =
     (if generation = MaxUint64 then (Inl (NewError ''db: snapshot generation space is exhausted''), w)
      else case snapshotGenerationExists dir (generation + 1) w of
        (True, w) \<Rightarrow> next_generation dir (generation + 1) w
      | (False, w) \<Rightarrow> (Inr (generation + 1), w))"
  by pat_completeness auto
termination
  by (relation "measure (\<lambda>(dir, g, w). 2 ^ 64 - unat g)")
    (use generation_measure in auto)

declare next_generation.simps [simp del]

definition nextSnapshotGeneration :: "string \<Rightarrow> Manifest \<Rightarrow> world \<Rightarrow> u64 result \<times> world" where
  "nextSnapshotGeneration dir current w =
     next_generation dir (max (IDMapGeneration current) (DeleteSnapshotGeneration current)) w"


section \<open>Creating a collection\<close>

definition initial_manifest :: "bytes \<Rightarrow> bool \<Rightarrow> u64 \<Rightarrow> string \<Rightarrow> Manifest" where
  "initial_manifest schema mmap capacity walRelative =
     \<lparr>FormatVersion = DiskFormatVersion, Generation = 0, Schema = schema, EnableMmap = mmap,
      SegmentMaxDocuments = capacity, PersistedSegments = [],
      WritingSegment = Some \<lparr>seg_ID = 0, MinDocID = 0, MaxDocID = 0, DocCount = 0, Files = [walRelative]\<rparr>,
      WritingSegmentStartDocID = 0, IDMapGeneration = 1, DeleteSnapshotGeneration = 1, NextSegmentID = 1,
      SegmentIndexSnapshots = []\<rparr>"

text \<open>The part of \<open>CreateCollection\<close> after the checks.  \<open>CreateVersionManager\<close> never returns neither a manager
  nor an error.\<close>

definition create_files ::
  "json_lib \<Rightarrow> flocks \<Rightarrow> string \<Rightarrow> bytes \<Rightarrow> CollectionOptions \<Rightarrow> u64 \<Rightarrow> world \<Rightarrow> CollectionStore result \<times> world" where
  "create_files jl lk dir schema options capacity w =
     (let walRelative = walFileName 0 1; walPath = filepath_Join dir walRelative in
      case ensureDirectorySynced (filepath_Dir walPath) w of
        (Some e, w) \<Rightarrow> (Inl (Wrap ''db: create WAL directory'' e), w)
      | (None, w) \<Rightarrow>
      case CreateWAL walPath (opt_WAL options) (try_wal lk) w of (Inl e, w) \<Rightarrow> (Inl e, w) | (Inr wal, w) \<Rightarrow>
      let primaryPath = filepath_Join dir (primarySnapshotName 1);
          deletesPath = filepath_Join dir (deleteSnapshotName 1);
          fail = (\<lambda>err created w. (Inl err, cleanup created (discard_wal lk wal w))) in
      case PrimaryKeyMap_WriteSnapshot primaryPath NewPrimaryKeyMap w of
        (Some e, w) \<Rightarrow> fail e [walPath] w
      | (None, w) \<Rightarrow>
      case DeleteStore_WriteSnapshot deletesPath NewDeleteStore w of
        (Some e, w) \<Rightarrow> fail e [walPath, primaryPath] w
      | (None, w) \<Rightarrow>
      case NewWriteSegment 0 0 capacity of
        Inl e \<Rightarrow> fail e [walPath, primaryPath, deletesPath] w
      | Inr writing \<Rightarrow>
      case SegmentManager_SetWriting writing (NewSegmentManager (Some NewPrimaryKeyMap) (Some NewDeleteStore)) of
        (Some e, manager) \<Rightarrow> fail e [walPath, primaryPath, deletesPath] w
      | (None, manager) \<Rightarrow>
      case CreateVersionManager jl (try_version lk) dir
             (initial_manifest schema (opt_EnableMmap options) capacity walRelative) w of
        ((_, Some e), w) \<Rightarrow> fail e [walPath, primaryPath, deletesPath] w
      | ((None, None), w) \<Rightarrow> fail (NewError ''db: nil version manager'') [] w
      | ((Some versions, None), w) \<Rightarrow>
      case NewWriteEngine manager wal of
        Inl e \<Rightarrow> fail e [] w
      | Inr engine \<Rightarrow>
        (Inr \<lparr>cs_dir = dir, cs_readOnly = False, cs_closed = False, cs_versions = versions, cs_engine = engine\<rparr>, w))"

definition CreateCollection ::
  "json_lib \<Rightarrow> flocks \<Rightarrow> string \<Rightarrow> bytes \<Rightarrow> CollectionOptions \<Rightarrow> world \<Rightarrow> CollectionStore result \<times> world" where
  "CreateCollection jl lk dir schema options w =
     (if dir = [] then (Inl (NewError ''db: empty collection directory''), w)
      else if opt_ReadOnly options then (Inl (Sentinel ErrReadOnly), w)
      else case ctx_Err w of (Some e, w) \<Rightarrow> (Inl e, w) | (None, w) \<Rightarrow>
      let capacity = (if opt_SegmentMaxDocuments options = 0 then DefaultSegmentMaxDocuments
                      else opt_SegmentMaxDocuments options) in
      case validateSchemaJSON schema of Some e \<Rightarrow> (Inl e, w) | None \<Rightarrow>
      case os_MkdirAll dir w of
        (Some e, w) \<Rightarrow> (Inl (Wrap ''db: create collection directory'' e), w)
      | (None, w) \<Rightarrow>
      case try_collection lk of Inl e \<Rightarrow> (Inl (Wrap ''db: lock collection creation'' e), w) | Inr locked \<Rightarrow>
      if \<not> locked then (Inl (NewError ''db: collection creation lock unavailable''), w)
      else case OpenVersionManager jl dir w of
        (Inr _, w) \<Rightarrow> (Inl (Sentinel ErrManifestExists), w)
      | (Inl e, w) \<Rightarrow>
      if \<not> errors_Is e ErrManifestNotFound then (Inl e, w)
      else create_files jl lk dir schema options capacity w)"

section \<open>Opening a collection\<close>

fun open_segments :: "string \<Rightarrow> SegmentMetadata list \<Rightarrow> SegmentManager \<Rightarrow> world \<Rightarrow> SegmentManager result \<times> world" where
  "open_segments dir [] manager w = (Inr manager, w)"
| "open_segments dir (metadata # rest) manager w =
     (case OpenImmutableSegment dir metadata w of
        (Inl e, w) \<Rightarrow> (Inl (corrupt ErrCollectionCorrupt ''open segment''), w)
      | (Inr segment, w) \<Rightarrow>
      case SegmentManager_AddImmutable segment manager of
        (Some e, manager) \<Rightarrow> (Inl (corrupt ErrCollectionCorrupt ''add segment''), w)
      | (None, manager) \<Rightarrow> open_segments dir rest manager w)"

text \<open>The state of the last checkpoint: the two snapshots, the immutable segments and an empty writing
  segment.\<close>

definition open_checkpoint ::
  "string \<Rightarrow> Manifest \<Rightarrow> SegmentMetadata \<Rightarrow> world \<Rightarrow> SegmentManager result \<times> world" where
  "open_checkpoint dir manifest writingMetadata w =
     (case LoadPrimaryKeyMap (filepath_Join dir (primarySnapshotName (IDMapGeneration manifest))) w of
        (Inl e, w) \<Rightarrow> (Inl (corrupt ErrCollectionCorrupt ''load primary-key snapshot''), w)
      | (Inr primary, w) \<Rightarrow>
      case LoadDeleteStore (filepath_Join dir (deleteSnapshotName (DeleteSnapshotGeneration manifest))) w of
        (Inl e, w) \<Rightarrow> (Inl (corrupt ErrCollectionCorrupt ''load delete snapshot''), w)
      | (Inr deletes, w) \<Rightarrow>
      case open_segments dir (PersistedSegments manifest) (NewSegmentManager (Some primary) (Some deletes)) w of
        (Inl e, w) \<Rightarrow> (Inl e, w)
      | (Inr manager, w) \<Rightarrow>
      case NewWriteSegment (seg_ID writingMetadata) (WritingSegmentStartDocID manifest) (SegmentMaxDocuments manifest) of
        Inl e \<Rightarrow> (Inl (corrupt ErrCollectionCorrupt ''create writing segment''), w)
      | Inr writing \<Rightarrow>
      case SegmentManager_SetWriting writing manager of
        (Some e, manager) \<Rightarrow> (Inl (corrupt ErrCollectionCorrupt ''install writing segment''), w)
      | (None, manager) \<Rightarrow> (Inr manager, w))"

text \<open>\<open>validateLifecycleManifest\<close> refuses a manifest without a writing segment, so that branch is not
  reached.\<close>

definition open_version ::
  "flocks \<Rightarrow> string \<Rightarrow> CollectionOptions \<Rightarrow> VersionManager \<Rightarrow> world \<Rightarrow> CollectionStore result \<times> world" where
  "open_version lk dir options versions w =
     (let manifest = vm_current versions in
      case validateLifecycleManifest manifest of Some e \<Rightarrow> (Inl e, w) | None \<Rightarrow>
      case WritingSegment manifest of
        None \<Rightarrow> (Inl (corrupt ErrCollectionCorrupt ''invalid writing segment metadata''), w)
      | Some writingMetadata \<Rightarrow>
      case open_checkpoint dir manifest writingMetadata w of (Inl e, w) \<Rightarrow> (Inl e, w) | (Inr manager, w) \<Rightarrow>
      let walPath = filepath_Join dir (hd (Files writingMetadata)) in
      case (if opt_ReadOnly options then OpenWALReadOnly walPath (try_wal lk) w
            else OpenWAL walPath (opt_WAL options) (try_wal lk) w) of
        (Inl e, w) \<Rightarrow> (Inl (corrupt ErrCollectionCorrupt ''open writing WAL''), w)
      | (Inr wal, w) \<Rightarrow>
      case replayWriteWAL wal manager w of
        (Some e, manager, w) \<Rightarrow> (Inl e, discard_wal lk wal w)
      | (None, manager, w) \<Rightarrow>
      case validateCollectionState manager of Some e \<Rightarrow> (Inl e, discard_wal lk wal w) | None \<Rightarrow>
      let store = \<lparr>cs_dir = dir, cs_readOnly = opt_ReadOnly options, cs_closed = False, cs_versions = versions,
                   cs_engine = \<lparr>eng_manager = manager, eng_wal = wal\<rparr>\<rparr> in
      if opt_ReadOnly options then (Inr store, w)
      else case NewWriteEngine manager wal of
        Inl e \<Rightarrow> (Inl e, discard_wal lk wal w)
      | Inr engine \<Rightarrow> (Inr (store\<lparr>cs_engine := engine\<rparr>), w))"

definition OpenCollection ::
  "json_lib \<Rightarrow> flocks \<Rightarrow> string \<Rightarrow> CollectionOptions \<Rightarrow> world \<Rightarrow> CollectionStore result \<times> world" where
  "OpenCollection jl lk dir options w =
     (if dir = [] then (Inl (NewError ''db: empty collection directory''), w)
      else case ctx_Err w of (Some e, w) \<Rightarrow> (Inl e, w) | (None, w) \<Rightarrow>
      case os_StatDir dir w of
        (Inl e, w) \<Rightarrow>
          (Inl (if errors_Is e OsErrNotExist then Sentinel ErrManifestNotFound
                else Wrap ''db: stat collection directory'' e), w)
      | (Inr isDir, w) \<Rightarrow>
      if \<not> isDir then (Inl (NewError ''db: collection path is not a directory''), w)
      else case try_collection lk of Inl e \<Rightarrow> (Inl (Wrap ''db: lock collection open'' e), w) | Inr locked \<Rightarrow>
      if \<not> locked then (Inl (NewError ''db: collection open lock unavailable''), w)
      else case OpenVersionManager jl dir w of (Inl e, w) \<Rightarrow> (Inl e, w) | (Inr versions, w) \<Rightarrow>
      open_version lk dir options versions w)"


section \<open>Writing and reading\<close>

definition with_engine ::
  "(WriteEngine \<Rightarrow> world \<Rightarrow> batch_answer \<times> WriteEngine \<times> world) \<Rightarrow> CollectionStore \<Rightarrow> world
     \<Rightarrow> batch_answer \<times> CollectionStore \<times> world" where
  "with_engine run c w =
     (case requireWritableLocked c of Some e \<Rightarrow> (Inl e, c, w) | None \<Rightarrow>
      case run (cs_engine c) w of (answer, e, w) \<Rightarrow> (answer, c\<lparr>cs_engine := e\<rparr>, w))"

definition CollectionStore_Insert ::
  "WriteInput list \<Rightarrow> CollectionStore \<Rightarrow> world \<Rightarrow> batch_answer \<times> CollectionStore \<times> world" where
  "CollectionStore_Insert inputs = with_engine (WriteEngine_Insert inputs)"

definition CollectionStore_Upsert ::
  "WriteInput list \<Rightarrow> CollectionStore \<Rightarrow> world \<Rightarrow> batch_answer \<times> CollectionStore \<times> world" where
  "CollectionStore_Upsert inputs = with_engine (WriteEngine_Upsert inputs)"

definition CollectionStore_Update ::
  "WriteInput list \<Rightarrow> CollectionStore \<Rightarrow> world \<Rightarrow> batch_answer \<times> CollectionStore \<times> world" where
  "CollectionStore_Update inputs = with_engine (WriteEngine_Update inputs)"

definition CollectionStore_Delete ::
  "bytes list \<Rightarrow> CollectionStore \<Rightarrow> world \<Rightarrow> batch_answer \<times> CollectionStore \<times> world" where
  "CollectionStore_Delete keys = with_engine (WriteEngine_Delete keys)"

definition CollectionStore_Fetch ::
  "bytes list \<Rightarrow> CollectionStore \<Rightarrow> world \<Rightarrow> FetchResult list \<times> go_error option \<times> world" where
  "CollectionStore_Fetch keys c w =
     (if cs_closed c then ([], Some (Sentinel ErrCollectionClosed), w)
      else SegmentManager_Fetch keys (cs_manager c) w)"

definition CollectionStore_LiveDocuments :: "CollectionStore \<Rightarrow> world \<Rightarrow> StoredDocument list result \<times> world" where
  "CollectionStore_LiveDocuments c w =
     (if cs_closed c then (Inl (Sentinel ErrCollectionClosed), w)
      else SegmentManager_LiveDocuments (cs_manager c) w)"

fun snapshot_segments :: "ImmutableSegment list \<Rightarrow> world \<Rightarrow> SegmentSnapshot list result \<times> world" where
  "snapshot_segments [] w = (Inr [], w)"
| "snapshot_segments (segment # rest) w =
     (case ctx_Err w of (Some e, w) \<Rightarrow> (Inl e, w) | (None, w) \<Rightarrow>
      case snapshot_segments rest w of (Inl e, w) \<Rightarrow> (Inl e, w) | (Inr snapshots, w) \<Rightarrow>
      (Inr (\<lparr>ss_Metadata = imm_metadata segment, ss_Documents = imm_docs segment, ss_Mutable = False\<rparr> # snapshots), w))"

definition CollectionStore_SegmentSnapshots :: "CollectionStore \<Rightarrow> world \<Rightarrow> SegmentSnapshot list result \<times> world" where
  "CollectionStore_SegmentSnapshots c w =
     (case ctx_Err w of (Some e, w) \<Rightarrow> (Inl e, w) | (None, w) \<Rightarrow>
      if cs_closed c then (Inl (Sentinel ErrCollectionClosed), w)
      else case snapshot_segments (SegmentManager_ImmutableSegments (cs_manager c)) w of
        (Inl e, w) \<Rightarrow> (Inl e, w)
      | (Inr snapshots, w) \<Rightarrow>
      (Inr (snapshots @ (case mgr_writing (cs_manager c) of None \<Rightarrow> [] | Some writing \<Rightarrow>
         [\<lparr>ss_Metadata = WriteSegment_Metadata writing, ss_Documents = WriteSegment_Documents writing,
           ss_Mutable = True\<rparr>])), w))"

definition CollectionStore_Stats :: "CollectionStore \<Rightarrow> CollectionStats" where
  "CollectionStore_Stats c =
     (let storage = SegmentManager_StorageStats (cs_manager c) in
      \<lparr>cst_DocumentCount = word_of_nat (PrimaryKeyMap_Count (mgr_primaryKey (cs_manager c))),
       cst_ImmutableSegmentCount = ImmutableSegmentCount storage,
       cst_MutableDocumentCount = MutableDocumentCount storage,
       cst_DeletedDocumentCount = DeletedDocumentCount storage,
       cst_MemoryUsageBytes = MemoryUsageBytes storage\<rparr>)"

definition CollectionStore_DocumentCount :: "CollectionStore \<Rightarrow> u64" where
  "CollectionStore_DocumentCount c = cst_DocumentCount (CollectionStore_Stats c)"

section \<open>Runs of documents\<close>

text \<open>The inner loop: how far a run that has \<open>n\<close> documents and ends in \<open>previous\<close> extends.\<close>

fun extend_run :: "u64 \<Rightarrow> nat \<Rightarrow> StoredDocument \<Rightarrow> StoredDocument list \<Rightarrow> StoredDocument list \<times> StoredDocument list" where
  "extend_run maximum n previous [] = ([], [])"
| "extend_run maximum n previous (document # documents) =
     (if word_of_nat n < maximum \<and> doc_DocID document = doc_DocID previous + 1
      then (case extend_run maximum (n + 1) document documents of (run, rest) \<Rightarrow> (document # run, rest))
      else ([], document # documents))"

lemma extend_run_append: "extend_run mx n d ds = (run, rest) \<Longrightarrow> ds = run @ rest"
  by (induction mx n d ds arbitrary: run rule: extend_run.induct) (auto split: if_splits prod.splits)

function rewriteDocumentRuns :: "u64 \<Rightarrow> StoredDocument list \<Rightarrow> StoredDocument list list" where
  "rewriteDocumentRuns maximum [] = []"
| "rewriteDocumentRuns maximum (document # documents) =
     (document # fst (extend_run maximum 1 document documents))
       # rewriteDocumentRuns maximum (snd (extend_run maximum 1 document documents))"
  by pat_completeness auto
termination
proof (relation "measure (\<lambda>(maximum, documents). length documents)")
  fix mx d ds
  have "length ds = length (fst (extend_run mx 1 d ds)) + length (snd (extend_run mx 1 d ds))"
    using extend_run_append [of mx 1 d ds, OF prod.collapse [symmetric]] by (metis length_append)
  then show "((mx, snd (extend_run mx 1 d ds)), (mx, d # ds)) \<in> measure (\<lambda>(maximum, documents). length documents)"
    by simp
qed simp

definition run_matches :: "StoredDocument list \<Rightarrow> SegmentMetadata \<Rightarrow> bool" where
  "run_matches run metadata \<longleftrightarrow> MinDocID metadata = doc_DocID (hd run) \<and> MaxDocID metadata = doc_DocID (last run)
     \<and> DocCount metadata = len64 run"

definition CollectionStore_OptimizationNeeded :: "CollectionStore \<Rightarrow> world \<Rightarrow> bool result \<times> world" where
  "CollectionStore_OptimizationNeeded c w =
     (case ctx_Err w of (Some e, w) \<Rightarrow> (Inl e, w) | (None, w) \<Rightarrow>
      if cs_closed c then (Inl (Sentinel ErrCollectionClosed), w)
      else if (case mgr_writing (cs_manager c) of None \<Rightarrow> False | Some writing \<Rightarrow> WriteSegment_Documents writing \<noteq> [])
        then (Inr True, w)
      else if DeleteStore_Count (mgr_deletes (cs_manager c)) \<noteq> 0 then (Inr True, w)
      else case SegmentManager_LiveDocuments (cs_manager c) w of (Inl e, w) \<Rightarrow> (Inl e, w) | (Inr documents, w) \<Rightarrow>
      let expected = rewriteDocumentRuns (SegmentMaxDocuments (vm_current (cs_versions c))) documents;
          actual = SegmentManager_ImmutableMetadata (cs_manager c) in
      if length expected \<noteq> length actual then (Inr True, w)
      else (Inr (\<not> list_all2 run_matches expected actual), w))"

section \<open>Publishing metadata\<close>

text \<open>The version is committed when the manager's generation has changed, even if an error is returned.\<close>

definition publish_next ::
  "json_lib \<Rightarrow> flocks \<Rightarrow> Manifest \<Rightarrow> CollectionStore \<Rightarrow> world
     \<Rightarrow> (bool \<times> go_error option) \<times> CollectionStore \<times> world" where
  "publish_next jl lk next_version c w =
     (case VersionManager_Publish jl (try_version lk) next_version (cs_versions c) w of ((_, publishErr), versions, w) \<Rightarrow>
      ((Generation (vm_current versions) \<noteq> Generation (vm_current (cs_versions c)), publishErr),
       c\<lparr>cs_versions := versions\<rparr>, w))"

definition CollectionStore_PublishSchema ::
  "json_lib \<Rightarrow> flocks \<Rightarrow> bytes \<Rightarrow> CollectionStore \<Rightarrow> world
     \<Rightarrow> (bool \<times> go_error option) \<times> CollectionStore \<times> world" where
  "CollectionStore_PublishSchema jl lk schema c w =
     (case ctx_Err w of (Some e, w) \<Rightarrow> ((False, Some e), c, w) | (None, w) \<Rightarrow>
      case validateSchemaJSON schema of Some e \<Rightarrow> ((False, Some e), c, w) | None \<Rightarrow>
      case requireWritableLocked c of Some e \<Rightarrow> ((False, Some e), c, w) | None \<Rightarrow>
      let current = vm_current (cs_versions c) in
      if Schema current = schema then ((False, None), c, w)
      else publish_next jl lk (current\<lparr>Schema := schema\<rparr>) c w)"

fun check_artifacts :: "string \<Rightarrow> IndexArtifactMetadata list \<Rightarrow> world \<Rightarrow> go_error option \<times> world" where
  "check_artifacts dir [] w = (None, w)"
| "check_artifacts dir (artifact # rest) w =
     (case os_StatDir (filepath_Join dir (art_File artifact)) w of
        (Inl e, w) \<Rightarrow> (Some (Wrap ''db: inspect segment index artifact'' e), w)
      | (Inr isDir, w) \<Rightarrow>
      if isDir then (Some (NewError ''db: segment index artifact is not a regular file''), w)
      else check_artifacts dir rest w)"

text \<open>\<open>reflect.DeepEqual\<close> also tells a nil slice from an empty one; publishing the empty list over a nil one
  then writes one more version with the same contents.\<close>

definition CollectionStore_PublishSegmentIndexSnapshots ::
  "json_lib \<Rightarrow> flocks \<Rightarrow> SegmentIndexSnapshotMetadata list \<Rightarrow> CollectionStore \<Rightarrow> world
     \<Rightarrow> (bool \<times> go_error option) \<times> CollectionStore \<times> world" where
  "CollectionStore_PublishSegmentIndexSnapshots jl lk snapshots c w =
     (case ctx_Err w of (Some e, w) \<Rightarrow> ((False, Some e), c, w) | (None, w) \<Rightarrow>
      case requireWritableLocked c of Some e \<Rightarrow> ((False, Some e), c, w) | None \<Rightarrow>
      let current = vm_current (cs_versions c) in
      if SegmentIndexSnapshots current = snapshots then ((False, None), c, w)
      else let next_version = current\<lparr>SegmentIndexSnapshots := snapshots\<rparr> in
      case Manifest_Validate next_version of Some e \<Rightarrow> ((False, Some e), c, w) | None \<Rightarrow>
      case check_artifacts (cs_dir c) (concat (map sis_Artifacts snapshots)) w of
        (Some e, w) \<Rightarrow> ((False, Some e), c, w)
      | (None, w) \<Rightarrow> publish_next jl lk next_version c w)"


section \<open>Flushing\<close>

definition option_list :: "'a option \<Rightarrow> 'a list" where
  "option_list x = (case x of None \<Rightarrow> [] | Some y \<Rightarrow> [y])"

text \<open>The directory and the log of the next writing segment.  The caller removes what it has created when this
  fails.\<close>

definition create_next_wal ::
  "flocks \<Rightarrow> string \<Rightarrow> WALOptions \<Rightarrow> u64 \<Rightarrow> u64 \<Rightarrow> world \<Rightarrow> (string \<times> WAL) result \<times> world" where
  "create_next_wal lk dir options segmentID generation w =
     (case availableArtifact dir (walFileName segmentID) generation w of (Inl e, w) \<Rightarrow> (Inl e, w) | (Inr walRelative, w) \<Rightarrow>
      let walPath = filepath_Join dir walRelative in
      case ensureDirectorySynced (filepath_Dir walPath) w of
        (Some e, w) \<Rightarrow> (Inl (Wrap ''db: create next WAL directory'' e), w)
      | (None, w) \<Rightarrow>
      case CreateWAL walPath options (try_wal lk) w of
        (Inl e, w) \<Rightarrow> (Inl (Wrap ''db: create next WAL'' e), w)
      | (Inr wal, w) \<Rightarrow> (Inr (walRelative, wal), w))"

text \<open>The files of a flush after the segment: the two snapshots and the next log.  On success the result is the
  generation of the snapshots, the log and the names to remove when the version is not committed; on failure
  the names are removed already.\<close>

definition flush_snapshots ::
  "flocks \<Rightarrow> CollectionStore \<Rightarrow> Manifest \<Rightarrow> string list \<Rightarrow> world \<Rightarrow> (u64 \<times> string \<times> WAL \<times> string list) result \<times> world" where
  "flush_snapshots lk c current created w =
     (let dir = cs_dir c in
      case nextSnapshotGeneration dir current w of
        (Inl e, w) \<Rightarrow> (Inl e, cleanup created w)
      | (Inr snapshotGeneration, w) \<Rightarrow>
      let primaryPath = filepath_Join dir (primarySnapshotName snapshotGeneration) in
      case PrimaryKeyMap_WriteSnapshot primaryPath (mgr_primaryKey (cs_manager c)) w of
        (Some e, w) \<Rightarrow> (Inl (Wrap ''db: write primary-key snapshot'' e), cleanup created w)
      | (None, w) \<Rightarrow>
      let created = created @ [primaryPath];
          deletesPath = filepath_Join dir (deleteSnapshotName snapshotGeneration) in
      case DeleteStore_WriteSnapshot deletesPath (mgr_deletes (cs_manager c)) w of
        (Some e, w) \<Rightarrow> (Inl (Wrap ''db: write delete snapshot'' e), cleanup created w)
      | (None, w) \<Rightarrow>
      let created = created @ [deletesPath] in
      case create_next_wal lk dir (wal_options (cs_wal c)) (NextSegmentID current) (Generation current + 1) w of
        (Inl e, w) \<Rightarrow> (Inl e, cleanup created w)
      | (Inr (walRelative, nextWAL), w) \<Rightarrow>
      (Inr (snapshotGeneration, walRelative, nextWAL, created @ [filepath_Join dir walRelative]), w))"

definition flush_files ::
  "flocks \<Rightarrow> CollectionStore \<Rightarrow> WriteSegment \<Rightarrow> Manifest \<Rightarrow> world
     \<Rightarrow> (ImmutableSegment \<times> u64 \<times> string \<times> WAL \<times> string list) result \<times> world" where
  "flush_files lk c writing current w =
     (let dir = cs_dir c in
      case availableArtifact dir (segmentFileName (ws_id writing)) (Generation current + 1) w of
        (Inl e, w) \<Rightarrow> (Inl e, w)
      | (Inr segmentRelative, w) \<Rightarrow>
      case WriteSegment_Snapshot dir segmentRelative writing w of
        (Inl e, _, w) \<Rightarrow> (Inl (Wrap ''db: snapshot writing segment'' e), w)
      | (Inr immutable, _, w) \<Rightarrow>
      case flush_snapshots lk c current [filepath_Join dir segmentRelative] w of
        (Inl e, w) \<Rightarrow> (Inl e, w)
      | (Inr rest, w) \<Rightarrow> (Inr (immutable, rest), w))"

definition flush_manifest :: "Manifest \<Rightarrow> ImmutableSegment \<Rightarrow> u64 \<Rightarrow> u64 \<Rightarrow> string \<Rightarrow> Manifest" where
  "flush_manifest current immutable lastDocID snapshotGeneration walRelative = current\<lparr>
     PersistedSegments := PersistedSegments current @ [imm_metadata immutable],
     WritingSegment := Some \<lparr>seg_ID = NextSegmentID current, MinDocID = 0, MaxDocID = 0, DocCount = 0, Files = [walRelative]\<rparr>,
     WritingSegmentStartDocID := lastDocID + 1,
     IDMapGeneration := snapshotGeneration, DeleteSnapshotGeneration := snapshotGeneration,
     NextSegmentID := NextSegmentID current + 1\<rparr>"

text \<open>The publication of a flush and the rotation in memory.\<close>

definition flush_commit ::
  "json_lib \<Rightarrow> flocks \<Rightarrow> Manifest \<Rightarrow> WriteSegment \<Rightarrow> ImmutableSegment \<Rightarrow> WriteSegment \<Rightarrow> WAL \<Rightarrow> string list
     \<Rightarrow> CollectionStore \<Rightarrow> world \<Rightarrow> go_error list \<times> CollectionStore \<times> world" where
  "flush_commit jl lk nextManifest writing immutable nextWriting nextWAL created c w =
     (case publish_next jl lk nextManifest c w of ((committed, publishErr), c, w) \<Rightarrow>
      if \<not> committed then (option_list publishErr, c, cleanup created (discard_wal lk nextWAL w))
      else case SegmentManager_RotateWriting (ws_id writing) immutable nextWriting (cs_manager c) of
        (Some e, _) \<Rightarrow>
          (option_list publishErr @ [Wrap ''db: apply committed segment rotation'' e], c, discard_wal lk nextWAL w)
      | (None, manager) \<Rightarrow>
      case WAL_Close (close_wal lk) (cs_wal c) w of (errs, _, w) \<Rightarrow>
      (option_list publishErr @ errs, c\<lparr>cs_engine := \<lparr>eng_manager = manager, eng_wal = nextWAL\<rparr>\<rparr>, w))"

text \<open>\<open>Flush\<close> joins its errors, so the result is the list of them.  A writable handle has a writing segment;
  the code does not check for one.\<close>

definition CollectionStore_Flush ::
  "json_lib \<Rightarrow> flocks \<Rightarrow> CollectionStore \<Rightarrow> world \<Rightarrow> go_error list \<times> CollectionStore \<times> world" where
  "CollectionStore_Flush jl lk c w =
     (case ctx_Err w of (Some e, w) \<Rightarrow> ([e], c, w) | (None, w) \<Rightarrow>
      case requireWritableLocked c of Some e \<Rightarrow> ([e], c, w) | None \<Rightarrow>
      case WAL_Sync (cs_wal c) w of (Some e, wal, w) \<Rightarrow> ([e], c\<lparr>cs_engine := (cs_engine c)\<lparr>eng_wal := wal\<rparr>\<rparr>, w) | (None, wal, w) \<Rightarrow>
      let c = c\<lparr>cs_engine := (cs_engine c)\<lparr>eng_wal := wal\<rparr>\<rparr> in
      case mgr_writing (cs_manager c) of None \<Rightarrow> ([], c, w) | Some writing \<Rightarrow>
      if WriteSegment_Documents writing = [] then ([], c, w)
      else let current = vm_current (cs_versions c) in
      if NextSegmentID current = MaxUint64 then ([NewError ''db: segment ID space is exhausted''], c, w)
      else let lastDocID = doc_DocID (last (WriteSegment_Documents writing)) in
      if lastDocID = MaxUint64 then ([NewError ''db: document ID space is exhausted''], c, w)
      else case NewWriteSegment (NextSegmentID current) (lastDocID + 1) (SegmentMaxDocuments current) of
        Inl e \<Rightarrow> ([e], c, w)
      | Inr nextWriting \<Rightarrow>
      if Generation current = MaxUint64 then ([NewError ''db: manifest generation space is exhausted''], c, w)
      else case flush_files lk c writing current w of
        (Inl e, w) \<Rightarrow> ([e], c, w)
      | (Inr (immutable, snapshotGeneration, walRelative, nextWAL, created), w) \<Rightarrow>
      flush_commit jl lk (flush_manifest current immutable lastDocID snapshotGeneration walRelative)
        writing immutable nextWriting nextWAL created c w)"

definition CollectionStore_Close :: "flocks \<Rightarrow> CollectionStore \<Rightarrow> world \<Rightarrow> go_error list \<times> CollectionStore \<times> world" where
  "CollectionStore_Close lk c w =
     (if cs_closed c then ([], c, w)
      else case WAL_Close (close_wal lk) (cs_wal c) w of (errs, wal, w) \<Rightarrow>
      (errs @ option_list (close_collection lk),
       c\<lparr>cs_closed := True, cs_engine := (cs_engine c)\<lparr>eng_wal := wal\<rparr>\<rparr>, w))"


section \<open>Rewriting all documents\<close>

definition rewriteNextDocumentID :: "SegmentManager \<Rightarrow> u64 result" where
  "rewriteNextDocumentID m =
     (case mgr_writing m of
        None \<Rightarrow> Inl (corrupt ErrCollectionCorrupt ''collection has no writing segment'')
      | Some writing \<Rightarrow>
      case WriteSegment_NextDocumentID writing of
        Inr next_id \<Rightarrow> Inr next_id
      | Inl e \<Rightarrow>
      if \<not> errors_Is e ErrSegmentFull then Inl e
      else let maximum = snd (WriteSegment_ReservedRange writing) in
      if maximum = MaxUint64 then Inl (NewError ''db: document ID space is exhausted'')
      else Inr (maximum + 1))"

text \<open>The loop that compares the documents with the live ones; \<open>keys\<close> are the keys seen so far.\<close>

fun check_rewrite :: "StoredDocument list \<Rightarrow> StoredDocument list \<Rightarrow> bytes list \<Rightarrow> go_error option" where
  "check_rewrite (document # documents) (current # live) keys =
     (if doc_DocID document \<noteq> doc_DocID current \<or> doc_PrimaryKey document \<noteq> doc_PrimaryKey current
        then Some (NewError ''db: rewrite document does not match current snapshot'')
      else case validatePrimaryKey (doc_PrimaryKey document) of Some e \<Rightarrow> Some e | None \<Rightarrow>
      if MaxDocumentPayloadSize < length (doc_Payload document)
        then Some (NewError ''db: rewrite document payload is too large'')
      else if doc_PrimaryKey document \<in> set keys
        then Some (NewError ''db: rewrite contains duplicate primary key'')
      else check_rewrite documents live (doc_PrimaryKey document # keys))"
| "check_rewrite _ _ keys = None"

fun append_run :: "StoredDocument list \<Rightarrow> WriteSegment \<Rightarrow> world \<Rightarrow> WriteSegment result \<times> world" where
  "append_run [] writing w = (Inr writing, w)"
| "append_run (document # run) writing w =
     (case WriteSegment_AppendExpected (doc_DocID document) (doc_PrimaryKey document) (doc_Payload document) writing w of
        (Inl e, _, w) \<Rightarrow> (Inl e, w)
      | (Inr _, writing, w) \<Rightarrow> append_run run writing w)"

text \<open>The segments of a rewrite: one per run, with consecutive IDs.  The result is the manager, the metadata
  and the names created; the names come with the error too.  The primary-key map is filled directly.\<close>

definition map_run :: "u64 \<Rightarrow> StoredDocument list \<Rightarrow> PrimaryKeyMap \<Rightarrow> PrimaryKeyMap" where
  "map_run segmentID run primary =
     fold (\<lambda>document p. p\<lparr>entries := AList.update (doc_PrimaryKey document)
         \<lparr>SegmentID = segmentID, DocID = doc_DocID document\<rparr> (entries p)\<rparr>) run primary"

fun rewrite_segments ::
  "string \<Rightarrow> u64 \<Rightarrow> StoredDocument list list \<Rightarrow> u64 \<Rightarrow> SegmentManager \<Rightarrow> SegmentMetadata list \<Rightarrow> string list \<Rightarrow> world
     \<Rightarrow> ((go_error \<times> string list) + (SegmentManager \<times> SegmentMetadata list \<times> string list)) \<times> world" where
  "rewrite_segments dir generation [] segmentID manager metadata created w = (Inr (manager, metadata, created), w)"
| "rewrite_segments dir generation (run # runs) segmentID manager metadata created w =
     (case NewWriteSegment segmentID (doc_DocID (hd run)) (len64 run) of
        Inl e \<Rightarrow> (Inl (e, created), w)
      | Inr writing \<Rightarrow>
      case append_run run writing w of (Inl e, w) \<Rightarrow> (Inl (e, created), w) | (Inr writing, w) \<Rightarrow>
      case availableArtifact dir (segmentFileName segmentID) generation w of
        (Inl e, w) \<Rightarrow> (Inl (e, created), w)
      | (Inr segmentRelative, w) \<Rightarrow>
      let created = created @ [filepath_Join dir segmentRelative] in
      case WriteSegment_Snapshot dir segmentRelative writing w of
        (Inl e, _, w) \<Rightarrow> (Inl (Wrap ''db: snapshot rewritten segment'' e, created), w)
      | (Inr immutable, _, w) \<Rightarrow>
      case SegmentManager_AddImmutable immutable manager of
        (Some e, _) \<Rightarrow> (Inl (e, created), w)
      | (None, manager) \<Rightarrow>
      rewrite_segments dir generation runs (segmentID + 1)
        (manager\<lparr>mgr_primaryKey := map_run segmentID run (mgr_primaryKey manager)\<rparr>)
        (metadata @ [imm_metadata immutable]) created w)"

text \<open>The snapshots and the log of a rewrite, after the segments.\<close>

definition rewrite_files ::
  "flocks \<Rightarrow> CollectionStore \<Rightarrow> Manifest \<Rightarrow> u64 \<Rightarrow> SegmentManager \<Rightarrow> string list \<Rightarrow> world
     \<Rightarrow> (u64 \<times> string \<times> WriteEngine \<times> string list) result \<times> world" where
  "rewrite_files lk c current writingID nextManager created w =
     (let dir = cs_dir c in
      case nextSnapshotGeneration dir current w of
        (Inl e, w) \<Rightarrow> (Inl e, cleanup created w)
      | (Inr snapshotGeneration, w) \<Rightarrow>
      let primaryPath = filepath_Join dir (primarySnapshotName snapshotGeneration); created = created @ [primaryPath] in
      case PrimaryKeyMap_WriteSnapshot primaryPath (mgr_primaryKey nextManager) w of
        (Some e, w) \<Rightarrow> (Inl (Wrap ''db: write rewritten primary-key snapshot'' e), cleanup created w)
      | (None, w) \<Rightarrow>
      let deletesPath = filepath_Join dir (deleteSnapshotName snapshotGeneration); created = created @ [deletesPath] in
      case DeleteStore_WriteSnapshot deletesPath (mgr_deletes nextManager) w of
        (Some e, w) \<Rightarrow> (Inl (Wrap ''db: write rewritten delete snapshot'' e), cleanup created w)
      | (None, w) \<Rightarrow>
      case availableArtifact dir (walFileName writingID) (Generation current + 1) w of
        (Inl e, w) \<Rightarrow> (Inl e, cleanup created w)
      | (Inr walRelative, w) \<Rightarrow>
      let walPath = filepath_Join dir walRelative in
      case ensureDirectorySynced (filepath_Dir walPath) w of
        (Some e, w) \<Rightarrow> (Inl (Wrap ''db: create rewritten WAL directory'' e), cleanup created w)
      | (None, w) \<Rightarrow>
      let created = created @ [walPath, walPath @ ''.lock''] in
      case CreateWAL walPath (wal_options (cs_wal c)) (try_wal lk) w of
        (Inl e, w) \<Rightarrow> (Inl (Wrap ''db: create rewritten WAL'' e), cleanup created w)
      | (Inr nextWAL, w) \<Rightarrow>
      case NewWriteEngine nextManager nextWAL of
        Inl e \<Rightarrow> (Inl e, cleanup created (discard_wal lk nextWAL w))
      | Inr engine \<Rightarrow> (Inr (snapshotGeneration, walRelative, engine, created), w))"

definition rewrite_manifest :: "Manifest \<Rightarrow> bytes \<Rightarrow> SegmentMetadata list \<Rightarrow> u64 \<Rightarrow> u64 \<Rightarrow> u64 \<Rightarrow> string \<Rightarrow> Manifest" where
  "rewrite_manifest current schema metadata writingID nextDocID snapshotGeneration walRelative = current\<lparr>
     Schema := schema, PersistedSegments := metadata, SegmentIndexSnapshots := [],
     WritingSegment := Some \<lparr>seg_ID = writingID, MinDocID = 0, MaxDocID = 0, DocCount = 0, Files = [walRelative]\<rparr>,
     WritingSegmentStartDocID := nextDocID, IDMapGeneration := snapshotGeneration,
     DeleteSnapshotGeneration := snapshotGeneration, NextSegmentID := writingID + 1\<rparr>"

text \<open>From the runs to the commit.\<close>

definition rewrite_commit ::
  "json_lib \<Rightarrow> flocks \<Rightarrow> Manifest \<Rightarrow> WriteEngine \<Rightarrow> string list \<Rightarrow> CollectionStore \<Rightarrow> world
     \<Rightarrow> (bool \<times> go_error list) \<times> CollectionStore \<times> world" where
  "rewrite_commit jl lk nextManifest nextEngine created c w =
     (case publish_next jl lk nextManifest c w of ((committed, publishErr), c, w) \<Rightarrow>
      if \<not> committed then ((False, option_list publishErr), c, cleanup created (discard_wal lk (eng_wal nextEngine) w))
      else case WAL_Close (close_wal lk) (cs_wal c) w of (errs, _, w) \<Rightarrow>
      ((True, option_list publishErr @ errs), c\<lparr>cs_engine := nextEngine\<rparr>, w))"

definition rewrite_runs ::
  "json_lib \<Rightarrow> flocks \<Rightarrow> bytes \<Rightarrow> StoredDocument list \<Rightarrow> u64 \<Rightarrow> CollectionStore \<Rightarrow> world
     \<Rightarrow> (bool \<times> go_error list) \<times> CollectionStore \<times> world" where
  "rewrite_runs jl lk schema documents nextDocID c w =
     (let current = vm_current (cs_versions c);
          runs = rewriteDocumentRuns (SegmentMaxDocuments current) documents;
          fail = (\<lambda>e created w. ((False, [e]), c, cleanup created w)) in
      if MaxUint64 - NextSegmentID current < len64 runs then fail (NewError ''db: segment ID space is exhausted'') [] w
      else let writingID = NextSegmentID current + len64 runs in
      if writingID = MaxUint64 then fail (NewError ''db: segment ID space is exhausted'') [] w
      else if Generation current = MaxUint64 then fail (NewError ''db: manifest generation space is exhausted'') [] w
      else case rewrite_segments (cs_dir c) (Generation current + 1) runs (NextSegmentID current)
          (NewSegmentManager (Some NewPrimaryKeyMap) (Some NewDeleteStore)) [] [] w of
        (Inl (e, created), w) \<Rightarrow> fail e created w
      | (Inr (nextManager, metadata, created), w) \<Rightarrow>
      case NewWriteSegment writingID nextDocID (SegmentMaxDocuments current) of
        Inl e \<Rightarrow> fail e created w
      | Inr nextWriting \<Rightarrow>
      case SegmentManager_SetWriting nextWriting nextManager of
        (Some e, _) \<Rightarrow> fail e created w
      | (None, nextManager) \<Rightarrow>
      case validateCollectionState nextManager of Some e \<Rightarrow> fail e created w | None \<Rightarrow>
      case rewrite_files lk c current writingID nextManager created w of
        (Inl e, w) \<Rightarrow> ((False, [e]), c, w)
      | (Inr (snapshotGeneration, walRelative, nextEngine, created), w) \<Rightarrow>
      rewrite_commit jl lk (rewrite_manifest current schema metadata writingID nextDocID snapshotGeneration walRelative)
        nextEngine created c w)"

definition CollectionStore_RewriteDocuments ::
  "json_lib \<Rightarrow> flocks \<Rightarrow> bytes \<Rightarrow> StoredDocument list \<Rightarrow> CollectionStore \<Rightarrow> world
     \<Rightarrow> (bool \<times> go_error list) \<times> CollectionStore \<times> world" where
  "CollectionStore_RewriteDocuments jl lk schema documents c w =
     (case ctx_Err w of (Some e, w) \<Rightarrow> ((False, [e]), c, w) | (None, w) \<Rightarrow>
      case validateSchemaJSON schema of Some e \<Rightarrow> ((False, [e]), c, w) | None \<Rightarrow>
      case requireWritableLocked c of Some e \<Rightarrow> ((False, [e]), c, w) | None \<Rightarrow>
      case SegmentManager_LiveDocuments (cs_manager c) w of (Inl e, w) \<Rightarrow> ((False, [e]), c, w) | (Inr currentLive, w) \<Rightarrow>
      if length documents \<noteq> length currentLive then ((False, [NewError ''db: rewrite document count'']), c, w)
      else case check_rewrite documents currentLive [] of Some e \<Rightarrow> ((False, [e]), c, w) | None \<Rightarrow>
      case WAL_Sync (cs_wal c) w of
        (Some e, wal, w) \<Rightarrow> ((False, [e]), c\<lparr>cs_engine := (cs_engine c)\<lparr>eng_wal := wal\<rparr>\<rparr>, w)
      | (None, wal, w) \<Rightarrow>
      let c = c\<lparr>cs_engine := (cs_engine c)\<lparr>eng_wal := wal\<rparr>\<rparr> in
      case rewriteNextDocumentID (cs_manager c) of Inl e \<Rightarrow> ((False, [e]), c, w) | Inr nextDocID \<Rightarrow>
      if documents \<noteq> [] \<and> nextDocID \<le> doc_DocID (last documents)
        then ((False, [corrupt ErrCollectionCorrupt ''rewrite document IDs reach the next writable ID'']), c, w)
      else rewrite_runs jl lk schema documents nextDocID c w)"


section \<open>Pruning\<close>

text \<open>\<open>filepath.Match\<close> for patterns of ordinary characters and stars, the only ones the code has.\<close>

fun filepath_Match :: "string \<Rightarrow> string \<Rightarrow> bool" where
  "filepath_Match [] [] = True"
| "filepath_Match [] (c # name) = False"
| "filepath_Match (p # pattern) name =
     (if p = CHR ''*''
      then filepath_Match pattern name
        \<or> (case name of [] \<Rightarrow> False | c # name' \<Rightarrow> c \<noteq> CHR ''/'' \<and> filepath_Match (p # pattern) name')
      else (case name of [] \<Rightarrow> False | c # name' \<Rightarrow> c = p \<and> filepath_Match pattern name'))"

declare filepath_Match.simps(3) [simp del]

text \<open>\<open>os.ReadDir\<close> with the kind of every entry, and \<open>os.Remove\<close> of a directory, which fails unless it is
  empty.\<close>

definition lies_in :: "string \<Rightarrow> string \<Rightarrow> bool" where
  "lies_in dir p \<longleftrightarrow> filepath_Join dir (filepath_Base p) = p \<and> p \<noteq> dir \<and> filepath_Base p \<noteq> ''..''"

definition os_ReadEntries :: "string \<Rightarrow> world \<Rightarrow> (string \<times> bool) list result \<times> world" where
  "os_ReadEntries dir w = (case io_step w of
       (Some e, w) \<Rightarrow> (Inl e, w)
     | (None, w) \<Rightarrow>
         (Inr (map (\<lambda>p. (filepath_Base p, False)) (filter (\<lambda>p. fs w p \<noteq> None \<and> lies_in dir p) (paths w))
             @ map (\<lambda>p. (filepath_Base p, True)) (filter (lies_in dir) (dirs w))), w))"

definition os_RemoveDir :: "string \<Rightarrow> world \<Rightarrow> go_error option \<times> world" where
  "os_RemoveDir dir w = (case io_step w of
       (Some e, w) \<Rightarrow> (Some e, w)
     | (None, w) \<Rightarrow>
         if dir \<notin> set (dirs w) then (Some (Sentinel OsErrNotExist), w)
         else if list_ex (\<lambda>p. fs w p \<noteq> None \<and> lies_in dir p) (paths w) \<or> list_ex (lies_in dir) (dirs w)
           then (Some (NewError ''directory not empty''), w)
         else (None, w\<lparr>dirs := removeAll dir (dirs w)\<rparr>))"

definition ownedDirectoryEntries :: "string \<Rightarrow> world \<Rightarrow> (string \<times> bool) list result \<times> world" where
  "ownedDirectoryEntries directory w =
     (case os_StatDir directory w of
        (Inl e, w) \<Rightarrow>
          (if errors_Is e OsErrNotExist then (Inr [], w) else (Inl (Wrap ''db: inspect artifact directory'' e), w))
      | (Inr isDir, w) \<Rightarrow>
      if \<not> isDir then (Inl (NewError ''db: refuse to scan non-directory artifact path''), w)
      else case os_ReadEntries directory w of
        (Inl e, w) \<Rightarrow> (Inl (Wrap ''db: read artifact directory'' e), w)
      | (Inr es, w) \<Rightarrow> (Inr es, w))"

definition ownedSubdirectories :: "string \<Rightarrow> world \<Rightarrow> string list result \<times> world" where
  "ownedSubdirectories directory w =
     (case ownedDirectoryEntries directory w of (Inl e, w) \<Rightarrow> (Inl e, w) | (Inr es, w) \<Rightarrow>
      (Inr (map (\<lambda>(name, _). filepath_Join directory name) (filter snd es)), w))"

definition ownedFiles :: "string \<Rightarrow> string list \<Rightarrow> world \<Rightarrow> string list result \<times> world" where
  "ownedFiles directory patterns w =
     (case ownedDirectoryEntries directory w of (Inl e, w) \<Rightarrow> (Inl e, w) | (Inr es, w) \<Rightarrow>
      (Inr (map (\<lambda>(name, _). filepath_Join directory name)
         (filter (\<lambda>(name, _). list_ex (\<lambda>pattern. filepath_Match pattern name) patterns) es)), w))"

fun owned_in :: "(string \<times> string list) list \<Rightarrow> world \<Rightarrow> string list result \<times> world" where
  "owned_in [] w = (Inr [], w)"
| "owned_in ((directory, patterns) # specifications) w =
     (case ownedFiles directory patterns w of (Inl e, w) \<Rightarrow> (Inl e, w) | (Inr matches, w) \<Rightarrow>
      case owned_in specifications w of (Inl e, w) \<Rightarrow> (Inl e, w) | (Inr candidates, w) \<Rightarrow>
      (Inr (matches @ candidates), w))"

definition keepRelative :: "string \<Rightarrow> string \<Rightarrow> string list" where
  "keepRelative dir relative = (if relative = [] then [] else [path_Clean (filepath_Join dir relative)])"

definition retained :: "string \<Rightarrow> Manifest \<Rightarrow> string list" where
  "retained dir manifest =
     concat (map (keepRelative dir) (concat (map Files (PersistedSegments manifest))))
     @ (case WritingSegment manifest of None \<Rightarrow> [] | Some s \<Rightarrow>
          concat (map (\<lambda>relative. keepRelative dir relative @ [path_Clean (filepath_Join dir relative @ ''.lock'')]) (Files s)))
     @ concat (map (keepRelative dir) (map art_File (concat (map sis_Artifacts (SegmentIndexSnapshots manifest)))))
     @ keepRelative dir (primarySnapshotName (IDMapGeneration manifest))
     @ keepRelative dir (deleteSnapshotName (DeleteSnapshotGeneration manifest))"

text \<open>The loop over the candidates; the result has the directories in which something was removed.\<close>

fun prune_files :: "string list \<Rightarrow> string list \<Rightarrow> string list \<Rightarrow> world \<Rightarrow> string list result \<times> world" where
  "prune_files keep [] touched w = (Inr touched, w)"
| "prune_files keep (name # candidates) touched w =
     (case ctx_Err w of (Some e, w) \<Rightarrow> (Inl e, w) | (None, w) \<Rightarrow>
      let name = path_Clean name in
      if name \<in> set keep then prune_files keep candidates touched w
      else case os_StatDir name w of
        (Inl e, w) \<Rightarrow>
          (if errors_Is e OsErrNotExist then prune_files keep candidates touched w
           else (Inl (Wrap ''db: inspect obsolete artifact'' e), w))
      | (Inr isDir, w) \<Rightarrow>
      if isDir then (Inl (NewError ''db: refuse to prune non-regular artifact''), w)
      else case os_Remove name w of
        (Some e, w) \<Rightarrow>
          (if errors_Is e OsErrNotExist then prune_files keep candidates (List.insert (filepath_Dir name) touched) w
           else (Inl (Wrap ''db: remove obsolete artifact'' e), w))
      | (None, w) \<Rightarrow> prune_files keep candidates (List.insert (filepath_Dir name) touched) w)"

fun sync_touched :: "string list \<Rightarrow> world \<Rightarrow> go_error option \<times> world" where
  "sync_touched [] w = (None, w)"
| "sync_touched (directory # touched) w =
     (case syncDirectory w of
        (Some e, w) \<Rightarrow>
          (if errors_Is e OsErrNotExist then sync_touched touched w
           else (Some (Wrap ''db: sync pruned artifact directory'' e), w))
      | (None, w) \<Rightarrow> sync_touched touched w)"

fun prune_directories :: "string list \<Rightarrow> bool \<Rightarrow> world \<Rightarrow> bool result \<times> world" where
  "prune_directories [] removed w = (Inr removed, w)"
| "prune_directories (directory # directories) removed w =
     (case ctx_Err w of (Some e, w) \<Rightarrow> (Inl e, w) | (None, w) \<Rightarrow>
      case os_StatDir directory w of
        (Inl e, w) \<Rightarrow>
          (if errors_Is e OsErrNotExist then prune_directories directories removed w
           else (Inl (Wrap ''db: inspect segment directory'' e), w))
      | (Inr isDir, w) \<Rightarrow>
      if \<not> isDir then prune_directories directories removed w
      else case os_RemoveDir directory w of
        (Some e, w) \<Rightarrow> prune_directories directories removed w
      | (None, w) \<Rightarrow> prune_directories directories True w)"

definition CollectionStore_PruneObsoleteArtifacts :: "CollectionStore \<Rightarrow> world \<Rightarrow> go_error option \<times> world" where
  "CollectionStore_PruneObsoleteArtifacts c w =
     (case ctx_Err w of (Some e, w) \<Rightarrow> (Some e, w) | (None, w) \<Rightarrow>
      case requireWritableLocked c of Some e \<Rightarrow> (Some e, w) | None \<Rightarrow>
      let dir = cs_dir c; keep = retained dir (vm_current (cs_versions c)) in
      case ownedSubdirectories (filepath_Join dir ''segments'') w of (Inl e, w) \<Rightarrow> (Some e, w) | (Inr segmentDirectories, w) \<Rightarrow>
      case owned_in (map (\<lambda>directory. (directory, [''data-*.seg''])) segmentDirectories
          @ [(filepath_Join dir ''wal'', [''*.wal.lock'', ''*.wal'']),
             (filepath_Join dir ''snapshots'', [''primary-*.snap'', ''delete-*.snap'']),
             (filepath_Join dir ''indexes'', [''*.zvi''])]) w of
        (Inl e, w) \<Rightarrow> (Some e, w)
      | (Inr candidates, w) \<Rightarrow>
      case prune_files keep candidates [] w of (Inl e, w) \<Rightarrow> (Some e, w) | (Inr touched, w) \<Rightarrow>
      case sync_touched touched w of (Some e, w) \<Rightarrow> (Some e, w) | (None, w) \<Rightarrow>
      case prune_directories segmentDirectories False w of (Inl e, w) \<Rightarrow> (Some e, w) | (Inr removed, w) \<Rightarrow>
      if removed then (case syncDirectory w of
          (Some e, w) \<Rightarrow> (Some (Wrap ''db: sync segment directory'' e), w)
        | (None, w) \<Rightarrow> (None, w))
      else (None, w))"

end
