(* ===== verification/Collection_State.thy ===== *)
theory Collection_State
  imports Collection
begin

text \<open>
  Facts about two pure functions of the collection: \<open>rewriteDocumentRuns\<close> computes the one canonical
  division into runs, and \<open>validateCollectionState\<close> decides the invariant that ties the key map and the
  deletion marks to the documents.
\<close>

section \<open>Runs\<close>

definition consecutive :: "StoredDocument \<Rightarrow> StoredDocument \<Rightarrow> bool" where
  "consecutive x y \<longleftrightarrow> doc_DocID y = doc_DocID x + 1"

lemma extend_run_spec:
  assumes "extend_run mx n d ds = (run, rest)" and "n + length ds < 2 ^ 64" and "n \<le> unat mx"
  shows "successively consecutive (d # run)" "n + length run \<le> unat mx"
    "rest \<noteq> [] \<Longrightarrow> n + length run = unat mx \<or> \<not> consecutive (last (d # run)) (hd rest)"
proof -
  have "successively consecutive (d # run) \<and> n + length run \<le> unat mx
      \<and> (rest \<noteq> [] \<longrightarrow> n + length run = unat mx \<or> \<not> consecutive (last (d # run)) (hd rest))"
    using assms
  proof (induction mx n d ds arbitrary: run rest rule: extend_run.induct)
    case (2 mx n d x ds)
    have u: "unat (word_of_nat n :: u64) = n" using "2.prems"(2) by (simp add: unat_of_nat)
    show ?case
    proof (cases "word_of_nat n < mx \<and> doc_DocID x = doc_DocID d + 1")
      case True
      obtain r s where e: "extend_run mx (n + 1) x ds = (r, s)" by (cases "extend_run mx (n + 1) x ds")
      have rr: "run = x # r" "rest = s" using "2.prems"(1) True e by auto
      have lt: "n + 1 \<le> unat mx" using True u by (simp add: word_less_nat_alt)
      from "2.IH" [OF True e _ lt] show ?thesis using "2.prems"(2) rr True by (auto simp: consecutive_def)
    next
      case False
      then have "run = []" "rest = x # ds" using "2.prems"(1) by auto
      then show ?thesis using False u "2.prems"(3) by (auto simp: consecutive_def word_less_nat_alt)
    qed
  qed auto
  then show "successively consecutive (d # run)" "n + length run \<le> unat mx"
    "rest \<noteq> [] \<Longrightarrow> n + length run = unat mx \<or> \<not> consecutive (last (d # run)) (hd rest)" by blast+
qed

text \<open>The runs of a list of documents: they are the list, each is a non-empty sequence of consecutive IDs
  within the capacity, and no two neighbours could have been one run.\<close>

definition canonical_runs :: "u64 \<Rightarrow> StoredDocument list list \<Rightarrow> bool" where
  "canonical_runs mx runs \<longleftrightarrow>
     list_all (\<lambda>run. run \<noteq> [] \<and> successively consecutive run \<and> length run \<le> unat mx) runs
     \<and> successively (\<lambda>r s. length r = unat mx \<or> \<not> consecutive (last r) (hd s)) runs"

lemma concat_runs: "concat (rewriteDocumentRuns mx ds) = ds"
proof (induction mx ds rule: rewriteDocumentRuns.induct)
  case (2 mx d ds)
  have "fst (extend_run mx 1 d ds) @ snd (extend_run mx 1 d ds) = ds" by (metis extend_run_append prod.collapse)
  then show ?case using 2 by simp
qed simp

lemma hd_runs: "ds \<noteq> [] \<Longrightarrow> rewriteDocumentRuns mx ds \<noteq> [] \<and> hd (hd (rewriteDocumentRuns mx ds)) = hd ds"
  by (cases ds) auto

lemma successively_Cons_hd: "successively P (x # xs) \<longleftrightarrow> (xs \<noteq> [] \<longrightarrow> P x (hd xs)) \<and> successively P xs"
  by (cases xs) auto

lemma runs_canonical: "mx \<noteq> 0 \<Longrightarrow> length ds < 2 ^ 64 \<Longrightarrow> canonical_runs mx (rewriteDocumentRuns mx ds)"
proof (induction mx ds rule: rewriteDocumentRuns.induct)
  case (2 mx d ds)
  obtain run rest where e: "extend_run mx 1 d ds = (run, rest)" by (cases "extend_run mx 1 d ds")
  have ds: "ds = run @ rest" by (rule extend_run_append [OF e])
  have one: "1 \<le> unat mx" using "2.prems"(1) by (simp add: Suc_le_eq unat_gt_0)
  note s = extend_run_spec [OF e _ one]
  have ih: "canonical_runs mx (rewriteDocumentRuns mx rest)" using "2.IH" "2.prems" e ds by simp
  have nx: "length (d # run) = unat mx \<or> \<not> consecutive (last (d # run)) (hd (hd (rewriteDocumentRuns mx rest)))"
    if "rewriteDocumentRuns mx rest \<noteq> []"
  proof -
    have "rest \<noteq> []" using that by auto
    then show ?thesis using s(3) hd_runs [of rest mx] "2.prems"(2) by simp
  qed
  show ?case using e s(1,2) ih nx "2.prems"(2)
    by (simp add: canonical_runs_def successively_Cons_hd del: last.simps)
qed (simp add: canonical_runs_def)

text \<open>There is only one such division.\<close>

lemma canonical_runs_Cons:
  "canonical_runs mx (r # rs) \<longleftrightarrow> r \<noteq> [] \<and> successively consecutive r \<and> length r \<le> unat mx
     \<and> (rs \<noteq> [] \<longrightarrow> length r = unat mx \<or> \<not> consecutive (last r) (hd (hd rs))) \<and> canonical_runs mx rs"
  by (auto simp: canonical_runs_def successively_Cons_hd)

lemma canonical_first_maximal:
  assumes r: "canonical_runs mx (r # rs)" and s: "successively consecutive s" "length s \<le> unat mx"
    and eq: "r @ concat rs = s @ t" and longer: "length r < length s"
  shows False
proof -
  obtain y u where s': "s = r @ y # u"
    using eq longer by (auto simp: append_eq_append_conv2 neq_Nil_conv)
  have rs: "concat rs = y # u @ t" using eq s' by simp
  then have ne: "rs \<noteq> []" by auto
  then obtain q qs where q: "rs = q # qs" by (cases rs) auto
  have "q \<noteq> []" using r q by (auto simp: canonical_runs_Cons)
  then have "hd (hd rs) = y" using rs q by (cases q) auto
  moreover have "consecutive (last r) y" using s(1) r s' by (auto simp: successively_append_iff canonical_runs_Cons)
  moreover have "length r < unat mx" using longer s(2) by simp
  ultimately show False using r ne by (auto simp: canonical_runs_Cons)
qed

lemma canonical_runs_unique:
  "canonical_runs mx rs \<Longrightarrow> canonical_runs mx ss \<Longrightarrow> concat rs = concat ss \<Longrightarrow> rs = ss"
proof (induction rs arbitrary: ss)
  case Nil
  then show ?case by (cases ss) (auto simp: canonical_runs_Cons)
next
  case (Cons r rs)
  then obtain s ss' where ss: "ss = s # ss'" by (cases ss) (auto simp: canonical_runs_Cons)
  have eq: "r @ concat rs = s @ concat ss'" using Cons.prems(3) ss by simp
  have c: "canonical_runs mx (r # rs)" "canonical_runs mx (s # ss')" using Cons.prems ss by auto
  have "length r = length s"
    using canonical_first_maximal [OF c(1) _ _ eq] canonical_first_maximal [OF c(2) _ _ eq [symmetric]] c
    by (metis canonical_runs_Cons linorder_neqE_nat)
  then have "r = s" "concat rs = concat ss'" using eq by auto
  then show ?case using Cons.IH [of ss'] c ss by (simp add: canonical_runs_Cons)
qed

lemma rewriteDocumentRuns_iff:
  assumes "mx \<noteq> 0" and "length ds < 2 ^ 64"
  shows "rewriteDocumentRuns mx ds = runs \<longleftrightarrow> canonical_runs mx runs \<and> concat runs = ds"
  using runs_canonical [OF assms] concat_runs [of mx ds] canonical_runs_unique by metis


section \<open>The check of the state\<close>

lemma distinct_fst_update: "distinct (map fst (AList.update k v xs)) = distinct (map fst xs)"
  by (induction xs) (auto simp: AList.dom_update [unfolded image_set [symmetric]])

text \<open>The pairs of a location and a document that the loops visit.\<close>

definition located :: "SegmentManager \<Rightarrow> (DocumentLocation \<times> StoredDocument) list" where
  "located m = concat (map (\<lambda>s. map (\<lambda>d. (\<lparr>SegmentID = ImmutableSegment_ID s, DocID = doc_DocID d\<rparr>, d)) (imm_docs s))
       (SegmentManager_ImmutableSegments m))
     @ (case mgr_writing m of None \<Rightarrow> [] | Some ws \<Rightarrow> map (\<lambda>d. (\<lparr>SegmentID = ws_id ws, DocID = doc_DocID d\<rparr>, d)) (ws_docs ws))"

definition visit :: "SegmentManager \<Rightarrow> DocumentLocation \<times> StoredDocument \<Rightarrow> u64 list \<times> (DocumentLocation \<times> bytes) list
     \<Rightarrow> u64 list \<times> (DocumentLocation \<times> bytes) list" where
  "visit m x = note_document m (SegmentID (fst x)) (snd x)"

lemma visit_pair: "visit m (l, d) (known, live) = (List.insert (doc_DocID d) known,
    if DeleteStore_IsDeleted (doc_DocID d) (mgr_deletes m) then live
    else AList.update \<lparr>SegmentID = SegmentID l, DocID = doc_DocID d\<rparr> (doc_PrimaryKey d) live)"
  by (simp add: visit_def note_document_def)

lemma note_documents_located: "note_documents m = fold (visit m) (located m) ([], [])"
proof -
  have seg: "fold (note_document m i) docs = fold (visit m) (map (\<lambda>d. (\<lparr>SegmentID = i, DocID = doc_DocID d\<rparr>, d)) docs)" for i docs
    by (simp add: fold_map visit_def comp_def)
  have "fold (\<lambda>s. fold (note_document m (ImmutableSegment_ID s)) (imm_docs s)) ss x =
    fold (visit m) (concat (map (\<lambda>s. map (\<lambda>d. (\<lparr>SegmentID = ImmutableSegment_ID s, DocID = doc_DocID d\<rparr>, d)) (imm_docs s)) ss)) x" for ss x
    by (induction ss arbitrary: x) (auto simp: seg)
  then show ?thesis by (simp add: note_documents_def located_def Let_def seg split: option.splits)
qed

lemma fold_visit:
  assumes "distinct (map fst (xs :: (DocumentLocation \<times> StoredDocument) list))" and "\<forall>(l, d) \<in> set xs. DocID l = doc_DocID d"
    and "fst ` set xs \<inter> fst ` set live = {}" and "distinct (map fst live)"
    and f: "fold (visit m) xs (known, live) = (known', live')"
  shows "set known' = doc_DocID ` snd ` set xs \<union> set known"
    "set live' = (\<lambda>(l, d). (l, doc_PrimaryKey d)) ` {(l, d) \<in> set xs. \<not> DeleteStore_IsDeleted (doc_DocID d) (mgr_deletes m)} \<union> set live"
    "distinct (map fst live')"
proof -
  have "set known' = doc_DocID ` snd ` set xs \<union> set known \<and>
    set live' = (\<lambda>(l, d). (l, doc_PrimaryKey d)) ` {(l, d) \<in> set xs. \<not> DeleteStore_IsDeleted (doc_DocID d) (mgr_deletes m)} \<union> set live
    \<and> distinct (map fst live')"
    using assms
  proof (induction xs arbitrary: known live)
    case (Cons x xs)
    obtain l d where x: "x = (l, d)" by (cases x)
    have ld: "DocID l = doc_DocID d" using Cons.prems(2) x by auto
    have l: "\<lparr>SegmentID = SegmentID l, DocID = doc_DocID d\<rparr> = l" by (simp flip: ld)
    show ?case
    proof (cases "DeleteStore_IsDeleted (doc_DocID d) (mgr_deletes m)")
      case True
      then have "fold (visit m) xs (List.insert (doc_DocID d) known, live) = (known', live')"
        using Cons.prems(5) x by (simp add: visit_pair)
      from Cons.IH [OF _ _ _ _ this] show ?thesis using Cons.prems x True by auto
    next
      case False
      have fresh: "l \<notin> fst ` set live" using Cons.prems(3) x by auto
      have up: "set (AList.update l (doc_PrimaryKey d) live) = insert (l, doc_PrimaryKey d) (set live)"
        using fresh by (induction live) auto
      have "fold (visit m) xs (List.insert (doc_DocID d) known, AList.update l (doc_PrimaryKey d) live) = (known', live')"
        using Cons.prems(5) x False l by (simp add: visit_pair)
      from Cons.IH [OF _ _ _ _ this] show ?thesis using Cons.prems x False up by (auto simp: distinct_fst_update)
    qed
  qed auto
  then show "set known' = doc_DocID ` snd ` set xs \<union> set known"
    "set live' = (\<lambda>(l, d). (l, doc_PrimaryKey d)) ` {(l, d) \<in> set xs. \<not> DeleteStore_IsDeleted (doc_DocID d) (mgr_deletes m)} \<union> set live"
    "distinct (map fst live')" by blast+
qed


lemma map_snd_located: "map snd (located m) = concat (map imm_docs (SegmentManager_ImmutableSegments m)) @ writing_docs m"
  by (auto simp: located_def writing_docs_def map_concat comp_def split: option.splits)

lemma located_DocID: "(l, d) \<in> set (located m) \<Longrightarrow> DocID l = doc_DocID d"
  by (auto simp: located_def split: option.splits)

lemma set_snd_located: "snd ` set (located m) = set (mgr_docs m)"
  using arg_cong [OF map_snd_located, of set m] by (simp add: mgr_docs_def ImmutableSegments_set)

lemma located_ids_distinct:
  assumes "mgr_wf m" and "mgr_ordered m"
  shows "distinct (map (DocID \<circ> fst) (located m))"
proof -
  have "map (DocID \<circ> fst) (located m) = map doc_DocID (map snd (located m))"
    using located_DocID [of _ _ m] by simp
  moreover have "sorted_wrt (<) (map doc_DocID (map snd (located m)))"
    using all_docs_ascending [OF assms] unfolding map_snd_located sorted_wrt_map .
  ultimately show ?thesis unfolding strict_sorted_iff by presburger
qed

lemma located_distinct: "mgr_wf m \<Longrightarrow> mgr_ordered m \<Longrightarrow> distinct (map fst (located m))"
  using located_ids_distinct [of m] by (auto simp: distinct_map intro: inj_on_imageI2)

lemma mem_located:
  "(l, d) \<in> (\<lambda>d. (\<lparr>SegmentID = i, DocID = doc_DocID d\<rparr>, d)) ` A \<longleftrightarrow> d \<in> A \<and> SegmentID l = i \<and> DocID l = doc_DocID d"
  by (cases l) auto

lemma located_iff:
  assumes wf: "mgr_wf m"
  shows "(l, d) \<in> set (located m) \<longleftrightarrow> d \<in> set (segment_docs (SegmentID l) m) \<and> DocID l = doc_DocID d"
proof -
  have im: "immutables_wf (mgr_immutable m)" using wf by (simp add: mgr_wf_def)
  have ids: "(i, s) \<in> set (mgr_immutable m) \<Longrightarrow> ImmutableSegment_ID s = i" for i s using immutables_wf_member [OF im] by blast
  have mo: "map_of (mgr_immutable m) i = Some s \<longleftrightarrow> (i, s) \<in> set (mgr_immutable m)" for i s
    using im by (simp add: immutables_wf_def map_of_eq_Some_iff)
  have imm: "(\<exists>s \<in> snd ` set (mgr_immutable m). d \<in> set (imm_docs s) \<and> SegmentID l = ImmutableSegment_ID s)
      \<longleftrightarrow> (\<exists>s. map_of (mgr_immutable m) (SegmentID l) = Some s \<and> d \<in> set (imm_docs s))"
    using ids by (force simp: mo)
  have wr: "map_of (mgr_immutable m) (ws_id ws) = None" if "mgr_writing m = Some ws" for ws
    using mgr_wf_writing [OF wf that] by (simp add: writing_wf_def map_of_None_fst)
  have "(l, d) \<in> set (located m) \<longleftrightarrow> DocID l = doc_DocID d \<and>
      ((\<exists>s. map_of (mgr_immutable m) (SegmentID l) = Some s \<and> d \<in> set (imm_docs s))
       \<or> (\<exists>ws. mgr_writing m = Some ws \<and> d \<in> set (ws_docs ws) \<and> SegmentID l = ws_id ws))"
    unfolding imm [symmetric]
    by (cases "mgr_writing m") (simp add: located_def ImmutableSegments_set mem_located; blast)+
  also have "\<dots> \<longleftrightarrow> d \<in> set (segment_docs (SegmentID l) m) \<and> DocID l = doc_DocID d"
    using wr by (auto simp: segment_docs_def split: option.splits dest: sym)
  finally show ?thesis .
qed

text \<open>The check passes exactly when the key map and the deletion marks fit the documents.\<close>

lemma length_card: "distinct (map fst xs) \<Longrightarrow> length xs = card (set xs)"
  using distinct_card [of xs] by (simp add: distinct_map)

lemma validateCollectionState_sets:
  assumes wf: "mgr_wf m" and o: "mgr_ordered m"
  shows "validateCollectionState m = None \<longleftrightarrow> mgr_known m \<and>
    (\<forall>k l. PrimaryKeyMap_Get k (mgr_primaryKey m) = Some l \<longleftrightarrow>
       (\<exists>d. (l, d) \<in> set (located m) \<and> doc_PrimaryKey d = k \<and> \<not> DeleteStore_IsDeleted (doc_DocID d) (mgr_deletes m)))"
proof -
  let ?E = "set (entries (mgr_primaryKey m))"
  obtain known live where n: "note_documents m = (known, live)" by (cases "note_documents m")
  have pk: "distinct (map fst (entries (mgr_primaryKey m)))" using wf by (simp add: mgr_wf_def pk_wf_def)
  have "fold (visit m) (located m) ([], []) = (known, live)" using n by (simp add: note_documents_located)
  moreover have "\<forall>(l, d) \<in> set (located m). DocID l = doc_DocID d" using located_DocID by blast
  ultimately have k: "set known = doc_DocID ` set (mgr_docs m)"
    and lv: "(l, key) \<in> set live \<longleftrightarrow>
      (\<exists>d. (l, d) \<in> set (located m) \<and> doc_PrimaryKey d = key \<and> \<not> DeleteStore_IsDeleted (doc_DocID d) (mgr_deletes m))"
    and dl: "distinct (map fst live)" for l key
    using fold_visit [OF located_distinct [OF wf o], of "[]"] by (auto simp: set_snd_located)
  have mo: "map_of live l = Some key \<longleftrightarrow> (l, key) \<in> set live" for l key using dl by (rule map_of_eq_Some_iff)
  have get: "PrimaryKeyMap_Get key (mgr_primaryKey m) = Some l \<longleftrightarrow> (key, l) \<in> ?E" for l key
    using pk by (simp add: PrimaryKeyMap_Get_def map_of_eq_Some_iff)
  have "length (entries (mgr_primaryKey m)) = card (prod.swap ` ?E)" "length live = card (set live)"
    using length_card [OF pk] length_card [OF dl] by (simp_all add: card_image)
  moreover have "prod.swap ` ?E = set live" if "prod.swap ` ?E \<subseteq> set live" "card (prod.swap ` ?E) = card (set live)"
    using that by (simp add: card_subset_eq)
  ultimately have "length (entries (mgr_primaryKey m)) = length live \<and> (\<forall>(key, l) \<in> ?E. (l, key) \<in> set live)
      \<longleftrightarrow> prod.swap ` ?E = set live"
    by (metis (no_types, lifting) case_prodI2 image_subset_iff swap_simp subset_refl case_prodD old.prod.exhaust)
  also have "\<dots> \<longleftrightarrow> (\<forall>key l. (key, l) \<in> ?E \<longleftrightarrow> (l, key) \<in> set live)" by (force simp: set_eq_iff image_iff)
  finally show ?thesis unfolding get lv [symmetric]
    using n k by (auto simp: validateCollectionState_def mgr_known_def DeleteStore_IsDeleted_def list_ex_iff mo)
qed

lemma validateCollectionState_iff:
  assumes wf: "mgr_wf m" and o: "mgr_ordered m"
  shows "validateCollectionState m = None \<longleftrightarrow> mgr_indexed m \<and> mgr_known m"
proof (intro iffI conjI)
  assume "validateCollectionState m = None"
  then have kn: "mgr_known m" and e: "PrimaryKeyMap_Get k (mgr_primaryKey m) = Some l \<longleftrightarrow>
       (\<exists>d. (l, d) \<in> set (located m) \<and> doc_PrimaryKey d = k \<and> \<not> DeleteStore_IsDeleted (doc_DocID d) (mgr_deletes m))" for k l
    using validateCollectionState_sets [OF wf o] by blast+
  show "mgr_known m" by (rule kn)
  show "mgr_indexed m" unfolding mgr_indexed_def
  proof (intro conjI allI ballI impI)
    fix k l assume "PrimaryKeyMap_Get k (mgr_primaryKey m) = Some l"
    then show "\<exists>x\<in>set (segment_docs (SegmentID l) m). doc_DocID x = DocID l \<and> doc_PrimaryKey x = k"
      "\<not> DeleteStore_IsDeleted (DocID l) (mgr_deletes m)" using e located_iff [OF wf] by auto
  next
    fix x assume x: "x \<in> set (mgr_docs m)" "\<not> DeleteStore_IsDeleted (doc_DocID x) (mgr_deletes m)"
    then obtain l where "(l, x) \<in> set (located m)" using set_snd_located [of m] by force
    then show "\<exists>l. PrimaryKeyMap_Get (doc_PrimaryKey x) (mgr_primaryKey m) = Some l \<and> DocID l = doc_DocID x"
      using e x located_DocID by blast
  next
    fix ws d assume "mgr_writing m = Some ws" "DeleteStore_IsDeleted d (mgr_deletes m)"
    then show "\<not> future ws d" using kn future_fresh [OF wf] by (auto simp: mgr_known_def)
  qed
next
  assume "mgr_indexed m \<and> mgr_known m"
  then have ix: "mgr_indexed m" and kn: "mgr_known m" by auto
  have same: "l' = l" if "(l, d) \<in> set (located m)" "(l', d') \<in> set (located m)" "doc_DocID d' = doc_DocID d" for l d l' d'
    using located_ids_distinct [OF wf o] that located_DocID [of l d m] located_DocID [of l' d' m]
    by (fastforce simp: distinct_map inj_on_def)
  show "validateCollectionState m = None" unfolding validateCollectionState_sets [OF wf o]
  proof (intro conjI allI iffI kn)
    fix k l assume g: "PrimaryKeyMap_Get k (mgr_primaryKey m) = Some l"
    show "\<exists>d. (l, d) \<in> set (located m) \<and> doc_PrimaryKey d = k \<and> \<not> DeleteStore_IsDeleted (doc_DocID d) (mgr_deletes m)"
      by (rule mgr_indexed_Get [OF ix g]) (use located_iff [OF wf] in force)
  next
    fix k l assume "\<exists>d. (l, d) \<in> set (located m) \<and> doc_PrimaryKey d = k \<and> \<not> DeleteStore_IsDeleted (doc_DocID d) (mgr_deletes m)"
    then obtain d where d: "(l, d) \<in> set (located m)" "doc_PrimaryKey d = k" "\<not> DeleteStore_IsDeleted (doc_DocID d) (mgr_deletes m)"
      by blast
    then have "d \<in> set (mgr_docs m)" using set_snd_located [of m] by force
    then obtain l' where l': "PrimaryKeyMap_Get k (mgr_primaryKey m) = Some l'" "DocID l' = doc_DocID d"
      using ix d by (auto simp: mgr_indexed_def)
    obtain x where "x \<in> set (segment_docs (SegmentID l') m)" "doc_DocID x = DocID l'" by (rule mgr_indexed_Get [OF ix l'(1)])
    then have "(l', x) \<in> set (located m)" "doc_DocID x = doc_DocID d" using located_iff [OF wf] l'(2) by auto
    then have "l' = l" using same [OF d(1)] by blast
    then show "PrimaryKeyMap_Get k (mgr_primaryKey m) = Some l" using l' by simp
  qed
qed

end
