(* ===== verification/Manager_Order.thy ===== *)
theory Manager_Order
  imports Recovery
begin

text \<open>
  The key map and the deletion set are Go maps, whose entries have no order; the model keeps them in lists.
  \<open>mgr_sim\<close> relates managers that are equal up to that order, and replaying a log keeps the relation: what is
  loaded from a snapshot is in the order of the file, what is in memory in the order of the writes.
\<close>

section \<open>Managers that differ in the order of their entries\<close>

definition pk_sim :: "PrimaryKeyMap \<Rightarrow> PrimaryKeyMap \<Rightarrow> bool" where
  "pk_sim p q \<longleftrightarrow> pk_wf p \<and> pk_wf q \<and> (\<forall>k. PrimaryKeyMap_Get k p = PrimaryKeyMap_Get k q)"

definition del_sim :: "DeleteStore \<Rightarrow> DeleteStore \<Rightarrow> bool" where
  "del_sim s t \<longleftrightarrow> del_wf s \<and> del_wf t \<and> (\<forall>d. DeleteStore_IsDeleted d s = DeleteStore_IsDeleted d t)"

definition mgr_sim :: "SegmentManager \<Rightarrow> SegmentManager \<Rightarrow> bool" where
  "mgr_sim m m' \<longleftrightarrow> mgr_immutable m = mgr_immutable m' \<and> mgr_writing m = mgr_writing m'
     \<and> pk_sim (mgr_primaryKey m) (mgr_primaryKey m') \<and> del_sim (mgr_deletes m) (mgr_deletes m')"

definition sim_result :: "'r \<times> SegmentManager \<times> world \<Rightarrow> 'r \<times> SegmentManager \<times> world \<Rightarrow> bool" where
  "sim_result x y \<longleftrightarrow> fst x = fst y \<and> mgr_sim (fst (snd x)) (fst (snd y)) \<and> snd (snd x) = snd (snd y)"

lemma mgr_simD:
  assumes "mgr_sim m m'"
  shows "mgr_immutable m' = mgr_immutable m" "mgr_writing m' = mgr_writing m"
    "PrimaryKeyMap_Get k (mgr_primaryKey m') = PrimaryKeyMap_Get k (mgr_primaryKey m)"
    "DeleteStore_IsDeleted d (mgr_deletes m') = DeleteStore_IsDeleted d (mgr_deletes m)"
  using assms by (auto simp: mgr_sim_def pk_sim_def del_sim_def)

lemma mgr_sim_refl: "mgr_wf m \<Longrightarrow> mgr_sim m m"
  by (simp add: mgr_sim_def pk_sim_def del_sim_def mgr_wf_def)

lemma mgr_sim_sym: "mgr_sim m m' \<Longrightarrow> mgr_sim m' m"
  by (simp add: mgr_sim_def pk_sim_def del_sim_def)

lemma pk_sim_location:
  assumes "pk_sim p q"
  shows "list_ex (\<lambda>(k, l). k \<noteq> key \<and> l = loc) (entries p) = list_ex (\<lambda>(k, l). k \<noteq> key \<and> l = loc) (entries q)"
proof -
  have "list_ex (\<lambda>(k, l). k \<noteq> key \<and> l = loc) (entries x) \<longleftrightarrow> (\<exists>k. k \<noteq> key \<and> PrimaryKeyMap_Get k x = Some loc)" if "pk_wf x" for x
    using that by (auto simp: list_ex_iff PrimaryKeyMap_Get_def pk_wf_def map_of_eq_Some_iff)
  then show ?thesis using assms by (simp add: pk_sim_def)
qed

lemma pk_Put_sim:
  assumes "pk_sim p q" and "PrimaryKeyMap_Put k l p w = (r, p', w')"
  shows "\<exists>q'. PrimaryKeyMap_Put k l q w = (r, q', w') \<and> pk_sim p' q'"
proof -
  obtain r2 q' w2 where q: "PrimaryKeyMap_Put k l q w = (r2, q', w2)" by (cases "PrimaryKeyMap_Put k l q w")
  have wf: "pk_wf p'" "pk_wf q'" using assms q PrimaryKeyMap_Put_wf by (auto simp: pk_sim_def)
  have g: "map_of (entries p) x = map_of (entries q) x" for x using assms(1) by (simp add: pk_sim_def PrimaryKeyMap_Get_def)
  have "r2 = r \<and> w2 = w' \<and> (\<forall>x. PrimaryKeyMap_Get x p' = PrimaryKeyMap_Get x q')"
    using assms(2) q pk_sim_location [OF assms(1)] g
    by (auto simp: PrimaryKeyMap_Put_def PrimaryKeyMap_Get_def update_conv split: prod.splits option.splits if_splits)
  then show ?thesis using q wf by (auto simp: pk_sim_def)
qed

lemma pk_Delete_sim:
  assumes "pk_sim p q" and "PrimaryKeyMap_Delete k p w = (r, p', w')"
  shows "\<exists>q'. PrimaryKeyMap_Delete k q w = (r, q', w') \<and> pk_sim p' q'"
proof -
  obtain r2 q' w2 where q: "PrimaryKeyMap_Delete k q w = (r2, q', w2)" by (cases "PrimaryKeyMap_Delete k q w")
  have wf: "pk_wf p'" "pk_wf q'" using assms q PrimaryKeyMap_Delete_wf by (auto simp: pk_sim_def)
  have g: "map_of (entries p) x = map_of (entries q) x" for x using assms(1) by (simp add: pk_sim_def PrimaryKeyMap_Get_def)
  have "r2 = r \<and> w2 = w' \<and> (\<forall>x. PrimaryKeyMap_Get x p' = PrimaryKeyMap_Get x q')"
    using assms(2) q g by (auto simp: PrimaryKeyMap_Delete_def PrimaryKeyMap_Get_def delete_conv split: prod.splits option.splits)
  then show ?thesis using q wf by (auto simp: pk_sim_def)
qed

lemma del_Mark_sim:
  assumes "del_sim s t" and "DeleteStore_MarkDeleted d s w = (r, s', w')"
  shows "\<exists>t'. DeleteStore_MarkDeleted d t w = (r, t', w') \<and> del_sim s' t'"
  using assms by (auto simp: DeleteStore_MarkDeleted_def del_sim_def del_wf_def DeleteStore_IsDeleted_def split: prod.splits option.splits)

lemma shared_calls_sim:
  assumes "mgr_sim m m'"
  shows "sim_result (keys_Put k l m w) (keys_Put k l m' w)" "sim_result (keys_Delete k m w) (keys_Delete k m' w)"
    "sim_result (deletes_MarkDeleted d m w) (deletes_MarkDeleted d m' w)"
    "sim_result (writing_AppendExpected d k p m w) (writing_AppendExpected d k p m' w)"
proof -
  show "sim_result (keys_Put k l m w) (keys_Put k l m' w)"
    using assms pk_Put_sim [of "mgr_primaryKey m" "mgr_primaryKey m'" k l w]
    by (fastforce simp: keys_Put_def sim_result_def mgr_sim_def split: prod.splits)
  show "sim_result (keys_Delete k m w) (keys_Delete k m' w)"
    using assms pk_Delete_sim [of "mgr_primaryKey m" "mgr_primaryKey m'" k w]
    by (fastforce simp: keys_Delete_def sim_result_def mgr_sim_def split: prod.splits)
  show "sim_result (deletes_MarkDeleted d m w) (deletes_MarkDeleted d m' w)"
    using assms del_Mark_sim [of "mgr_deletes m" "mgr_deletes m'" d w]
    by (fastforce simp: deletes_MarkDeleted_def sim_result_def mgr_sim_def split: prod.splits)
  show "sim_result (writing_AppendExpected d k p m w) (writing_AppendExpected d k p m' w)"
    using assms by (auto simp: writing_AppendExpected_def sim_result_def mgr_sim_def split: option.splits prod.splits)
qed

lemma sim_resultE:
  assumes "sim_result x y"
  obtains r m m' w where "x = (r, m, w)" "y = (r, m', w)" "mgr_sim m m'"
  using assms by (cases x; cases y) (auto simp: sim_result_def)

lemma sim_resultI: "mgr_sim m m' \<Longrightarrow> sim_result (r, m, w) (r, m', w)"
  by (simp add: sim_result_def)

lemma put_key_sim:
  assumes "mgr_sim m m'"
  shows "sim_result (case keys_Put k l m w of (Inl err, m, w) \<Rightarrow> (Some err, m, w) | (Inr _, m, w) \<Rightarrow> (None, m, w))
     (case keys_Put k l m' w of (Inl err, m, w) \<Rightarrow> (Some err, m, w) | (Inr _, m, w) \<Rightarrow> (None, m, w))"
  by (rule sim_resultE [OF shared_calls_sim(1) [OF assms, of k l w]]) (auto intro: sim_resultI split: sum.splits)

lemma recover_sim:
  assumes s: "mgr_sim m m'"
  shows "sim_result (recover_insert op m w) (recover_insert op m' w)" "sim_result (recover_replace op m w) (recover_replace op m' w)"
    "sim_result (recover_delete op m w) (recover_delete op m' w)"
proof -
  note d = mgr_simD [OF s] and app = sim_resultE [OF shared_calls_sim(4) [OF s, of "op_DocID op" "op_PrimaryKey op" "op_Payload op" w]]
  show "sim_result (recover_insert op m w) (recover_insert op m' w)"
    by (rule app) (auto simp: recover_insert_def d s intro: sim_resultI put_key_sim split: sum.splits)
  show "sim_result (recover_replace op m w) (recover_replace op m' w)"
  proof (rule app)
    fix r m1 m1' w1
    assume a: "writing_AppendExpected (op_DocID op) (op_PrimaryKey op) (op_Payload op) m w = (r, m1, w1)"
      "writing_AppendExpected (op_DocID op) (op_PrimaryKey op) (op_Payload op) m' w = (r, m1', w1)" "mgr_sim m1 m1'"
    show ?thesis
    proof (cases "PrimaryKeyMap_Get (op_PrimaryKey op) (mgr_primaryKey m)")
      case None
      then show ?thesis using a by (auto simp: recover_replace_def d s intro: sim_resultI put_key_sim split: sum.splits)
    next
      case (Some l)
      show ?thesis
        by (rule sim_resultE [OF shared_calls_sim(3) [OF a(3), of "DocID l" w1]])
          (use a Some in \<open>auto simp: recover_replace_def d s intro: sim_resultI put_key_sim split: sum.splits\<close>)
    qed
  qed
  show "sim_result (recover_delete op m w) (recover_delete op m' w)"
  proof (rule sim_resultE [OF shared_calls_sim(3) [OF s, of "op_DocID op" w]])
    fix r m1 m1' w1
    assume a: "deletes_MarkDeleted (op_DocID op) m w = (r, m1, w1)" "deletes_MarkDeleted (op_DocID op) m' w = (r, m1', w1)"
      "mgr_sim m1 m1'"
    show ?thesis
      by (rule sim_resultE [OF shared_calls_sim(2) [OF a(3), of "op_PrimaryKey op" w1]])
        (use a in \<open>auto simp: recover_delete_def d s intro: sim_resultI split: sum.splits option.splits\<close>)
  qed
qed

lemma applyRecoveredOperation_sim:
  "mgr_sim m m' \<Longrightarrow> sim_result (applyRecoveredOperation op m w) (applyRecoveredOperation op m' w)"
  by (simp add: applyRecoveredOperation_def mgr_simD recover_sim sim_resultI)

lemma replay_record_sim: "mgr_sim m m' \<Longrightarrow> sim_result (replay_record r m w) (replay_record r m' w)"
proof -
  assume s: "mgr_sim m m'"
  show ?thesis
  proof (cases "decodeWriteOperation (rec_Payload r)")
    case (Inl e)
    then show ?thesis using s by (simp add: replay_record_def sim_resultI)
  next
    case (Inr op)
    show ?thesis
      by (rule sim_resultE [OF applyRecoveredOperation_sim [OF s, of op w]])
        (use Inr in \<open>auto simp: replay_record_def intro: sim_resultI split: option.splits\<close>)
  qed
qed

text \<open>Replaying a log on a manager with another order gives the same manager up to order.\<close>

lemma WAL_Replay_loop_sim:
  "mgr_sim m m' \<Longrightarrow> sim_result (WAL_Replay_loop replay_record r m w) (WAL_Replay_loop replay_record r m' w)"
proof (induction "reader_limit r - reader_offset r" arbitrary: r m m' w rule: less_induct)
  case less
  obtain x r1 w1 where n: "WALReader_Next r w = (x, r1, w1)" by (cases "WALReader_Next r w")
  show ?case
  proof (cases x)
    case (Inl e)
    then show ?thesis using n less.prems by (subst (1 2) WAL_Replay_loop.simps) (simp add: sim_resultI)
  next
    case (Inr rec)
    have dec: "reader_limit r1 - reader_offset r1 < reader_limit r - reader_offset r"
      using WALReader_Next_progress [OF n [unfolded Inr]] by auto
    show ?thesis
    proof (rule sim_resultE [OF replay_record_sim [OF less.prems, of rec w1]])
      fix e m1 m1' w2
      assume a: "replay_record rec m w1 = (e, m1, w2)" "replay_record rec m' w1 = (e, m1', w2)" "mgr_sim m1 m1'"
      show ?thesis
        using n Inr a less.hyps [OF dec a(3), of w2]
        by (subst (1 2) WAL_Replay_loop.simps) (auto intro: sim_resultI split: option.splits)
    qed
  qed
qed

lemma replayWriteWAL_sim: "mgr_sim m m' \<Longrightarrow> sim_result (replayWriteWAL l m w) (replayWriteWAL l m' w)"
  by (auto simp: replayWriteWAL_def WAL_Replay_def intro: sim_resultI WAL_Replay_loop_sim split: prod.splits sum.splits)

lemma mgr_sim_ok:
  assumes s: "mgr_sim m m'" and ok: "mgr_ok m"
  shows "mgr_ok m'" "mgr_kv m' = mgr_kv m" "mgr_docs m' = mgr_docs m"
proof -
  note d = mgr_simD [OF s]
  show docs: "mgr_docs m' = mgr_docs m" by (simp add: mgr_docs_def writing_docs_def d)
  have sd: "segment_docs i m' = segment_docs i m" for i unfolding segment_docs_def d ..
  have "mgr_wf m'" using mgr_okD(1) [OF ok] s by (simp add: mgr_wf_def d mgr_sim_def pk_sim_def del_sim_def)
  moreover have "mgr_indexed m'" "mgr_ordered m'" "mgr_known m'"
    using ok by (auto simp: mgr_ok_def mgr_indexed_def mgr_ordered_def mgr_known_def d docs sd)
  ultimately show "mgr_ok m'" by (simp add: mgr_ok_def)
  show "mgr_kv m' = mgr_kv m"
    unfolding fun_eq_iff mgr_kv_def SegmentManager_DocumentByPrimaryKey_def d by (rule allI) (rule refl)
qed

section \<open>What replay leaves alone\<close>

text \<open>Writes and their replay change the documents of the writing segment, never the segments.\<close>

definition same_segments :: "SegmentManager \<Rightarrow> SegmentManager \<Rightarrow> bool" where
  "same_segments m m' \<longleftrightarrow> mgr_immutable m' = mgr_immutable m
     \<and> rel_option (\<lambda>s t. ws_id t = ws_id s \<and> ws_minDocID t = ws_minDocID s \<and> ws_maxDocs t = ws_maxDocs s)
         (mgr_writing m) (mgr_writing m')"

lemma same_segments_refl [simp]: "same_segments m m"
  by (simp add: same_segments_def option.rel_refl)

lemma same_segmentsE:
  assumes "same_segments m m'" and "mgr_writing m = Some ws"
  obtains ws' where "mgr_writing m' = Some ws'" "ws_id ws' = ws_id ws" "ws_minDocID ws' = ws_minDocID ws"
    "ws_maxDocs ws' = ws_maxDocs ws" "mgr_immutable m' = mgr_immutable m"
  using assms by (auto simp: same_segments_def option_rel_Some1)

lemma same_segments_trans: "same_segments m m1 \<Longrightarrow> same_segments m1 m2 \<Longrightarrow> same_segments m m2"
  by (auto simp: same_segments_def rel_option_iff split: option.splits)

lemma WriteSegment_append_segment:
  "WriteSegment_append d k p s w = (r, s', w') \<Longrightarrow>
     ws_id s' = ws_id s \<and> ws_minDocID s' = ws_minDocID s \<and> ws_maxDocs s' = ws_maxDocs s"
  by (auto simp: WriteSegment_append_def Let_def split: prod.splits option.splits if_splits sum.splits)

lemma shared_calls_segments:
  "keys_Put k l m w = (r1, m', w') \<Longrightarrow> same_segments m m'"
  "keys_Delete k m w = (r2, m', w') \<Longrightarrow> same_segments m m'"
  "deletes_MarkDeleted d m w = (r3, m', w') \<Longrightarrow> same_segments m m'"
  "writing_AppendExpected d k p m w = (r4, m', w') \<Longrightarrow> same_segments m m'"
  by (auto simp: keys_Put_def keys_Delete_def deletes_MarkDeleted_def writing_AppendExpected_def same_segments_def
      WriteSegment_AppendExpected_def option.rel_refl split: prod.splits option.splits dest: WriteSegment_append_segment)

lemma replay_record_segments: "replay_record r m w = (e, m', w') \<Longrightarrow> same_segments m m'"
  by (auto simp: replay_record_def applyRecoveredOperation_def recover_insert_def recover_replace_def recover_delete_def Let_def
      split: prod.splits option.splits sum.splits if_splits dest!: shared_calls_segments) (meson same_segments_trans)+

lemma replay_payloads_segments: "replay_payloads replay_record lsn ps m w = (e, m', w') \<Longrightarrow> same_segments m m'"
  by (induction replay_record lsn ps m w rule: replay_payloads.induct)
    (auto split: prod.splits option.splits dest!: replay_record_segments intro: same_segments_trans)

lemma replays_segments: "replays ps m m' \<Longrightarrow> same_segments m m'"
proof -
  assume r: "replays ps m m'"
  obtain w :: world where "polls w = None" using that [of "undefined\<lparr>polls := None\<rparr>"] by simp
  then have "replay_payloads replay_record 1 ps m w = (None, m', w)" using r by (simp add: replays_def)
  then show ?thesis by (rule replay_payloads_segments)
qed

section \<open>Replay on an equivalent state\<close>

text \<open>Where nothing is cancelled, what a record does depends on its payload and the manager only.\<close>

lemma shared_calls_quiet:
  assumes "polls w = None"
  shows "keys_Put k l m w = (fst (keys_Put k l m quiet_world), fst (snd (keys_Put k l m quiet_world)), w)"
    "keys_Delete k m w = (fst (keys_Delete k m quiet_world), fst (snd (keys_Delete k m quiet_world)), w)"
    "deletes_MarkDeleted d m w = (fst (deletes_MarkDeleted d m quiet_world), fst (snd (deletes_MarkDeleted d m quiet_world)), w)"
    "writing_AppendExpected d k p m w =
       (fst (writing_AppendExpected d k p m quiet_world), fst (snd (writing_AppendExpected d k p m quiet_world)), w)"
  using assms
  by (simp_all add: keys_Put_def PrimaryKeyMap_Put_def keys_Delete_def PrimaryKeyMap_Delete_def deletes_MarkDeleted_def
      DeleteStore_MarkDeleted_def writing_AppendExpected_def WriteSegment_AppendExpected_def WriteSegment_append_def
      quiet_world_def Let_def split: option.splits)

lemma recover_quiet:
  assumes "polls w = None"
  shows "recover_insert op m w = (fst (recover_insert op m quiet_world), fst (snd (recover_insert op m quiet_world)), w)"
    "recover_replace op m w = (fst (recover_replace op m quiet_world), fst (snd (recover_replace op m quiet_world)), w)"
    "recover_delete op m w = (fst (recover_delete op m quiet_world), fst (snd (recover_delete op m quiet_world)), w)"
proof -
  have q: "polls quiet_world = None" by (simp add: quiet_world_def)
  obtain f1 g1 where f1: "\<And>k l m w. polls w = None \<Longrightarrow> keys_Put k l m w = (f1 k l m, g1 k l m, w)"
    using shared_calls_quiet(1) by (rule that)
  obtain f2 g2 where f2: "\<And>k m w. polls w = None \<Longrightarrow> keys_Delete k m w = (f2 k m, g2 k m, w)"
    using shared_calls_quiet(2) by (rule that)
  obtain f3 g3 where f3: "\<And>d m w. polls w = None \<Longrightarrow> deletes_MarkDeleted d m w = (f3 d m, g3 d m, w)"
    using shared_calls_quiet(3) by (rule that)
  obtain f4 g4 where f4: "\<And>d k p m w. polls w = None \<Longrightarrow> writing_AppendExpected d k p m w = (f4 d k p m, g4 d k p m, w)"
    using shared_calls_quiet(4) by (rule that)
  show "recover_insert op m w = (fst (recover_insert op m quiet_world), fst (snd (recover_insert op m quiet_world)), w)"
    by (simp add: recover_insert_def f1 f4 assms q split: sum.split)
  show "recover_delete op m w = (fst (recover_delete op m quiet_world), fst (snd (recover_delete op m quiet_world)), w)"
    by (simp add: recover_delete_def f2 f3 assms q split: sum.split option.split)
  show "recover_replace op m w = (fst (recover_replace op m quiet_world), fst (snd (recover_replace op m quiet_world)), w)"
    by (cases "PrimaryKeyMap_Get (op_PrimaryKey op) (mgr_primaryKey m)")
      (simp_all add: recover_replace_def f1 f3 f4 assms q split: sum.split)
qed

lemma replay_record_quiet:
  assumes "polls w = None"
  shows "replay_record r m w = (fst (replay_record r m quiet_world), fst (snd (replay_record r m quiet_world)), w)"
proof -
  have q: "polls quiet_world = None" by (simp add: quiet_world_def)
  obtain f1 g1 where f1: "\<And>op w. polls w = None \<Longrightarrow> recover_insert op m w = (f1 op, g1 op, w)"
    using recover_quiet(1) by (rule that)
  obtain f2 g2 where f2: "\<And>op w. polls w = None \<Longrightarrow> recover_replace op m w = (f2 op, g2 op, w)"
    using recover_quiet(2) by (rule that)
  obtain f3 g3 where f3: "\<And>op w. polls w = None \<Longrightarrow> recover_delete op m w = (f3 op, g3 op, w)"
    using recover_quiet(3) by (rule that)
  show ?thesis
    by (cases "decodeWriteOperation (rec_Payload r)")
      (simp_all add: replay_record_def applyRecoveredOperation_def f1 f2 f3 assms q split: option.split)
qed

definition replayed :: "bytes \<Rightarrow> SegmentManager \<Rightarrow> SegmentManager option" where
  "replayed p m = (case replay_record \<lparr>rec_LSN = 1, rec_Payload = p\<rparr> m quiet_world of (e, m', _) \<Rightarrow>
     if e = None then Some m' else None)"

lemma replay_record_replayed:
  assumes "polls w = None"
  shows "case replayed p m of None \<Rightarrow> \<exists>e m'. replay_record \<lparr>rec_LSN = lsn, rec_Payload = p\<rparr> m w = (Some e, m', w)
    | Some m' \<Rightarrow> replay_record \<lparr>rec_LSN = lsn, rec_Payload = p\<rparr> m w = (None, m', w)"
proof -
  have "replay_record \<lparr>rec_LSN = lsn, rec_Payload = p\<rparr> m w = replay_record \<lparr>rec_LSN = 1, rec_Payload = p\<rparr> m w"
    by (simp add: replay_record_def)
  with replay_record_quiet [OF assms, of "\<lparr>rec_LSN = 1, rec_Payload = p\<rparr>" m] show ?thesis
    by (auto simp: replayed_def split: prod.split)
qed

lemma replays_Cons: "replays (p # ps) m m' \<longleftrightarrow> (\<exists>m1. replayed p m = Some m1 \<and> replays ps m1 m')"
proof (cases "replayed p m")
  case None
  obtain w :: world where w: "polls w = None" using that [of "undefined\<lparr>polls := None\<rparr>"] by simp
  have "\<exists>e m'. replay_record \<lparr>rec_LSN = 1, rec_Payload = p\<rparr> m w = (Some e, m', w)"
    using replay_record_replayed [OF w, of 1 p m] None by simp
  then have "replay_payloads replay_record 1 (p # ps) m w \<noteq> (None, m', w)" by auto
  then have "\<not> replays (p # ps) m m'" using w unfolding replays_def by blast
  then show ?thesis using None by simp
next
  case (Some m1)
  have r: "replay_record \<lparr>rec_LSN = lsn, rec_Payload = p\<rparr> m w = (None, m1, w)" if "polls w = None" for lsn w
    using replay_record_replayed [OF that, of lsn p m] Some by simp
  have "replays (p # ps) m m' \<longleftrightarrow> (\<forall>lsn w. polls w = None \<longrightarrow> replay_payloads replay_record (lsn + 1) ps m1 w = (None, m', w))"
    by (simp add: replays_def r cong: conj_cong)
  also have "\<dots> \<longleftrightarrow> replays ps m1 m'"
    unfolding replays_def by (metis diff_add_cancel)
  finally show ?thesis using Some by simp
qed

lemma replays_sim:
  "replays ps m m' \<Longrightarrow> mgr_sim m n \<Longrightarrow> \<exists>n'. replays ps n n' \<and> mgr_sim m' n'"
proof (induction ps arbitrary: m n)
  case (Cons p ps)
  obtain m1 where m1: "replayed p m = Some m1" "replays ps m1 m'" using Cons.prems by (auto simp: replays_Cons)
  have "sim_result (replay_record \<lparr>rec_LSN = 1, rec_Payload = p\<rparr> m quiet_world) (replay_record \<lparr>rec_LSN = 1, rec_Payload = p\<rparr> n quiet_world)"
    by (rule replay_record_sim) (rule Cons.prems)
  then obtain n1 where n1: "replayed p n = Some n1" "mgr_sim m1 n1"
    by (rule sim_resultE) (use m1(1) in \<open>auto simp: replayed_def split: if_splits\<close>)
  from Cons.IH [OF m1(2) n1(2)] n1(1) show ?case by (auto simp: replays_Cons)
qed auto

end
