(* ===== verification/Artifact_Names.thy ===== *)
theory Artifact_Names
  imports Version_Manager
begin

text \<open>
  Paths below a collection's directory: joining a directory with a clean name is injective, cleaning is
  idempotent, and the names of the manifests, snapshots, segments and logs are pairwise different.
\<close>

section \<open>Joined names of several elements\<close>

definition clean_name :: "string \<Rightarrow> bool" where
  "clean_name r \<longleftrightarrow> list_all ordinary (split_slash r)"

lemma split_slash_glue: "split_slash (s @ CHR ''/'' # t) = split_slash s @ split_slash t"
  by (induction s) (auto split: list.splits)

lemma clean_elements_ordinary:
  "list_all ordinary ys \<Longrightarrow> clean_elements r st (xs @ ys) = clean_elements r st xs @ ys"
proof (induction ys rule: rev_induct)
  case (snoc y ys)
  have "clean_elements r st ((xs @ ys) @ [y]) = clean_elements r st (xs @ ys) @ [y]"
    by (rule clean_elements_append_ordinary) (use snoc.prems in simp)
  then show ?case using snoc by simp
qed simp

definition dir_elements :: "string \<Rightarrow> string list" where
  "dir_elements dir = (if dir = [] then [] else clean_elements (path_IsAbs dir) [] (split_slash dir))"

definition dir_root :: "string \<Rightarrow> string" where
  "dir_root dir = (if path_IsAbs dir then ''/'' else [])"

lemma clean_name_ne: "clean_name r \<Longrightarrow> r \<noteq> [] \<and> take 1 r \<noteq> ''/''"
  by (cases r) (auto simp: clean_name_def ordinary_def)

lemma filepath_Join_elements:
  assumes "clean_name r"
  shows "filepath_Join dir r = dir_root dir @ join_slash (dir_elements dir @ split_slash r)"
proof -
  have ord: "list_all ordinary (split_slash r)" using assms by (simp add: clean_name_def)
  have ne: "r \<noteq> []" "take 1 r \<noteq> ''/''" using clean_name_ne [OF assms] by auto
  have jne: "join_slash (es @ split_slash r) \<noteq> []" for es
  proof -
    have "split_slash r = butlast (split_slash r) @ [last (split_slash r)]" by simp
    then have "es @ split_slash r = (es @ butlast (split_slash r)) @ [last (split_slash r)]" by simp
    moreover have "last (split_slash r) \<noteq> []" using ord by (auto simp: list_all_iff ordinary_def)
    ultimately show ?thesis by (metis append_is_Nil_conv join_slash_snoc list.distinct(1))
  qed
  show ?thesis
  proof (cases "dir = []")
    case True
    then show ?thesis using ne jne [of "[]"] clean_ordinary [OF ord, of False "[]"]
      by (simp add: filepath_Join_def path_Clean_def Let_def dir_elements_def dir_root_def path_IsAbs_def)
  next
    case False
    have abs: "path_IsAbs (dir @ CHR ''/'' # r) = path_IsAbs dir" using False by (cases dir) (auto simp: path_IsAbs_def)
    show ?thesis using False jne
      by (simp add: filepath_Join_def path_Clean_def Let_def abs split_slash_glue clean_elements_ordinary [OF ord]
          dir_elements_def dir_root_def)
  qed
qed

lemma dir_elements_no_slash: "x \<in> set (dir_elements dir) \<Longrightarrow> CHR ''/'' \<notin> set x"
  using clean_subset [of "path_IsAbs dir" "[]" "split_slash dir"] split_elements [of x dir]
  by (auto simp: dir_elements_def split: if_splits)

lemma filepath_Join_clean_inj:
  assumes "clean_name r" and "clean_name s" and "filepath_Join dir r = filepath_Join dir s"
  shows "r = s"
proof -
  let ?d = "dir_elements dir"
  have e: "join_slash (?d @ split_slash r) = join_slash (?d @ split_slash s)"
    using assms by (simp add: filepath_Join_elements)
  have ns: "\<forall>x \<in> set (?d @ split_slash t). CHR ''/'' \<notin> set x" for t using dir_elements_no_slash split_elements by auto
  have "?d @ split_slash r = ?d @ split_slash s"
    by (rule trans [OF sym [OF split_join [OF _ ns]] trans [OF arg_cong [OF e, of split_slash] split_join [OF _ ns]]]) simp_all
  then have "join_slash (split_slash r) = join_slash (split_slash s)" by (simp only: same_append_eq)
  then show ?thesis by (simp only: join_split)
qed

lemma simple_clean_name: "ordinary x \<Longrightarrow> CHR ''/'' \<notin> set x \<Longrightarrow> clean_name x"
  by (simp add: clean_name_def split_no_slash)

text \<open>Cleaning a second time changes nothing.\<close>

definition normal :: "bool \<Rightarrow> string list \<Rightarrow> bool" where
  "normal r st \<longleftrightarrow> (\<exists>k ys. rev st = replicate k ''..'' @ ys \<and> list_all ordinary ys \<and> (r \<longrightarrow> k = 0))"

lemma normal_push: "normal r st \<Longrightarrow> ordinary x \<Longrightarrow> normal r (x # st)"
proof -
  assume "normal r st" "ordinary x"
  then obtain k ys where "rev st = replicate k ''..'' @ ys" "list_all ordinary ys" "r \<longrightarrow> k = 0" by (auto simp: normal_def)
  then show ?thesis unfolding normal_def using \<open>ordinary x\<close> by (intro exI [of _ k] exI [of _ "ys @ [x]"]) simp
qed

lemma normal_pop:
  assumes "normal r (y # ys)" and "y \<noteq> ''..''"
  shows "normal r ys"
proof -
  obtain k zs where z: "rev ys @ [y] = replicate k ''..'' @ zs" "list_all ordinary zs" "r \<longrightarrow> k = 0"
    using assms(1) by (auto simp: normal_def)
  show ?thesis
  proof (cases zs rule: rev_cases)
    case Nil
    then have "y \<in> set (replicate k ''..'')" using z(1) by (metis append_Nil2 in_set_conv_decomp)
    then show ?thesis using assms(2) by (auto split: if_splits)
  next
    case (snoc us u)
    then have "rev ys = replicate k ''..'' @ us" using z(1) by simp
    then show ?thesis using z snoc by (auto simp: normal_def)
  qed
qed

lemma normal_dotdot:
  assumes "normal False (''..'' # ys)"
  shows "normal False (''..'' # ''..'' # ys)"
proof -
  obtain k zs where z: "rev ys @ [''..''] = replicate k ''..'' @ zs" "list_all ordinary zs"
    using assms by (auto simp: normal_def)
  then have zs: "zs = []" by (cases zs rule: rev_cases) (auto simp: ordinary_def)
  then have "rev ys @ [''..'', ''..''] = replicate (Suc k) ''..'' @ []"
    using z(1) by (metis append.assoc append_Cons append_Nil append_Nil2 replicate_append_same replicate_Suc)
  then show ?thesis unfolding normal_def by (intro exI [of _ "Suc k"] exI [of _ "[]"]) simp
qed

lemma normal_top_dotdot: "normal r (''..'' # ys) \<Longrightarrow> \<not> r"
proof
  assume "normal r (''..'' # ys)" r
  then obtain zs where "rev ys @ [''..''] = zs" "list_all ordinary zs" by (auto simp: normal_def)
  then show False by (auto simp: ordinary_def)
qed

lemma clean_normal: "normal r st \<Longrightarrow> normal r (rev (clean_elements r st xs))"
proof (induction r st xs rule: clean_elements.induct)
  case (2 r st x xs)
  show ?case
  proof (cases "x = ''..''")
    case True
    show ?thesis
    proof (cases st)
      case Nil
      have "normal False [''..'']" unfolding normal_def by (intro exI [of _ 1] exI [of _ "[]"]) simp
      then show ?thesis using 2 True Nil by (cases r) auto
    next
      case (Cons y ys)
      then show ?thesis
        using 2 True normal_pop [of r y ys] normal_top_dotdot [of r ys] normal_dotdot [of ys] by (cases "y = ''..''") auto
    qed
  next
    case False
    then show ?thesis using 2 normal_push [of r st x] by (auto simp: ordinary_def)
  qed
qed simp

lemma clean_dotdots: "clean_elements False (replicate j ''..'') (replicate k ''..'' @ ys) =
    clean_elements False (replicate (k + j) ''..'') ys"
proof (induction k arbitrary: j)
  case (Suc k)
  then show ?case using Suc [of "Suc j"] by (cases j) auto
qed simp

lemma clean_fixed: "normal r (rev xs) \<Longrightarrow> clean_elements r [] xs = xs"
proof -
  assume "normal r (rev xs)"
  then obtain k ys where x: "xs = replicate k ''..'' @ ys" "list_all ordinary ys" "r \<longrightarrow> k = 0" by (auto simp: normal_def)
  show ?thesis
  proof (cases r)
    case True
    then show ?thesis using x clean_ordinary [of ys r "[]"] by simp
  next
    case False
    then show ?thesis using x clean_dotdots [of 0 k ys] clean_ordinary [of ys False "replicate k ''..''"] by simp
  qed
qed

lemma path_Clean_idem: "path_Clean (path_Clean s) = path_Clean s"
proof -
  define r where "r = path_IsAbs s"
  define xs where "xs = clean_elements r [] (split_slash s)"
  have nm: "normal r (rev xs)" unfolding xs_def by (rule clean_normal) (auto simp: normal_def)
  then have fx: "clean_elements r [] xs = xs" by (rule clean_fixed)
  have ns: "\<forall>x \<in> set xs. CHR ''/'' \<notin> set x" unfolding xs_def using clean_subset [of r "[]" "split_slash s"] split_elements by fastforce
  have ne: "x \<noteq> []" if x: "x \<in> set xs" for x
  proof -
    from nm obtain k ys where "xs = replicate k ''..'' @ ys" "list_all ordinary ys" unfolding normal_def rev_rev_ident by blast
    then have "x = ''..'' \<or> ordinary x" using x by (auto simp: list_all_iff split: if_splits)
    then show ?thesis by (auto simp: ordinary_def)
  qed
  show ?thesis
  proof (cases "xs = []")
    case True
    then have "path_Clean s = (if r then ''/'' else ''.'')"
      unfolding path_Clean_def Let_def r_def [symmetric] xs_def [symmetric] by simp
    then show ?thesis by (simp add: path_Clean_def path_IsAbs_def Let_def)
  next
    case False
    then obtain y ys where y: "xs = y # ys" by (cases xs) auto
    obtain c cs where c: "y = c # cs" using ne y by (cases y) auto
    have j: "\<exists>u. join_slash xs = c # u" "c \<noteq> CHR ''/''" using y c ns by (cases ys; auto)+
    have sp: "split_slash (join_slash xs) = xs" by (rule split_join [OF False ns])
    have out: "path_Clean s = (if r then ''/'' else []) @ join_slash xs"
      unfolding path_Clean_def Let_def r_def [symmetric] xs_def [symmetric] using j by auto
    show ?thesis
    proof (cases r)
      case True
      then have "path_Clean s = CHR ''/'' # join_slash xs" using out by simp
      moreover have "path_Clean (CHR ''/'' # join_slash xs) = CHR ''/'' # join_slash xs"
        using sp fx True by (simp add: path_Clean_def path_IsAbs_def Let_def)
      ultimately show ?thesis by simp
    next
      case False
      have o: "path_Clean s = join_slash xs" using out False by simp
      have "\<not> path_IsAbs (join_slash xs)" using j by (auto simp: path_IsAbs_def)
      then have "path_Clean (join_slash xs) = join_slash xs"
        using sp fx j False by (auto simp: path_Clean_def Let_def)
      then show ?thesis using o by simp
    qed
  qed
qed


section \<open>The names of a collection's files\<close>

lemma decimal20_no_slash: "CHR ''/'' \<notin> set (decimal20 v)"
proof -
  have "\<not> is_digit (CHR ''/'')" by (simp add: is_digit_def)
  then show ?thesis using decimal20_spec(2) [of v] by (auto simp: list_all_iff)
qed

lemma decimal20_ordinary: "ordinary (decimal20 v)"
  using decimal20_spec(1) [of v] by (auto simp: ordinary_def)

lemma split_names:
  "split_slash (primarySnapshotName g) = [''snapshots'', ''primary-'' @ decimal20 g @ ''.snap'']"
  "split_slash (deleteSnapshotName g) = [''snapshots'', ''delete-'' @ decimal20 g @ ''.snap'']"
  "split_slash (walFileName i g) = [''wal'', decimal20 i @ ''-'' @ decimal20 g @ ''.wal'']"
  "split_slash (segmentFileName i g) = [''segments'', decimal20 i, ''data-'' @ decimal20 g @ ''.seg'']"
proof -
  show "split_slash (primarySnapshotName g) = [''snapshots'', ''primary-'' @ decimal20 g @ ''.snap'']"
    using split_append_slash [of "''snapshots''" "''primary-'' @ decimal20 g @ ''.snap''"]
      split_no_slash [of "''primary-'' @ decimal20 g @ ''.snap''"] decimal20_no_slash [of g]
    by (simp add: primarySnapshotName_def)
  show "split_slash (deleteSnapshotName g) = [''snapshots'', ''delete-'' @ decimal20 g @ ''.snap'']"
    using split_append_slash [of "''snapshots''" "''delete-'' @ decimal20 g @ ''.snap''"]
      split_no_slash [of "''delete-'' @ decimal20 g @ ''.snap''"] decimal20_no_slash [of g]
    by (simp add: deleteSnapshotName_def)
  show "split_slash (walFileName i g) = [''wal'', decimal20 i @ ''-'' @ decimal20 g @ ''.wal'']"
    using split_append_slash [of "''wal''" "decimal20 i @ ''-'' @ decimal20 g @ ''.wal''"]
      split_no_slash [of "decimal20 i @ ''-'' @ decimal20 g @ ''.wal''"] decimal20_no_slash [of g] decimal20_no_slash [of i]
    by (simp add: walFileName_def)
  show "split_slash (segmentFileName i g) = [''segments'', decimal20 i, ''data-'' @ decimal20 g @ ''.seg'']"
    using split_append_slash [of "''segments''" "decimal20 i @ ''/data-'' @ decimal20 g @ ''.seg''"]
      split_append_slash [of "decimal20 i" "''data-'' @ decimal20 g @ ''.seg''"]
      split_no_slash [of "''data-'' @ decimal20 g @ ''.seg''"] decimal20_no_slash [of g] decimal20_no_slash [of i]
    by (simp add: segmentFileName_def)
qed

lemma currentFileName_simple: "ordinary currentFileName" "CHR ''/'' \<notin> set currentFileName"
  by (simp_all add: currentFileName_def ordinary_def)

lemma clean_names [simp]:
  "clean_name (primarySnapshotName g)" "clean_name (deleteSnapshotName g)" "clean_name (walFileName i g)"
  "clean_name (segmentFileName i g)" "clean_name (manifestFileName g)" "clean_name currentFileName"
proof -
  show "clean_name (manifestFileName g)" "clean_name currentFileName"
    by (rule simple_clean_name, rule manifestFileName_simple currentFileName_simple, rule manifestFileName_simple currentFileName_simple)+
  show "clean_name (primarySnapshotName g)" "clean_name (deleteSnapshotName g)" "clean_name (walFileName i g)"
    "clean_name (segmentFileName i g)"
    using decimal20_ordinary [of i] by (simp_all add: clean_name_def split_names ordinary_def)
qed

lemma names_distinct [simp]:
  "primarySnapshotName g \<noteq> deleteSnapshotName h" "deleteSnapshotName h \<noteq> primarySnapshotName g"
  "primarySnapshotName g \<noteq> walFileName i h" "walFileName i h \<noteq> primarySnapshotName g"
  "deleteSnapshotName g \<noteq> walFileName i h" "walFileName i h \<noteq> deleteSnapshotName g"
  "primarySnapshotName g \<noteq> segmentFileName i h" "segmentFileName i h \<noteq> primarySnapshotName g"
  "deleteSnapshotName g \<noteq> segmentFileName i h" "segmentFileName i h \<noteq> deleteSnapshotName g"
  "walFileName j g \<noteq> segmentFileName i h" "segmentFileName i h \<noteq> walFileName j g"
  "manifestFileName g \<noteq> primarySnapshotName h" "primarySnapshotName h \<noteq> manifestFileName g"
  "manifestFileName g \<noteq> deleteSnapshotName h" "deleteSnapshotName h \<noteq> manifestFileName g"
  "manifestFileName g \<noteq> walFileName i h" "walFileName i h \<noteq> manifestFileName g"
  "manifestFileName g \<noteq> segmentFileName i h" "segmentFileName i h \<noteq> manifestFileName g"
  "currentFileName \<noteq> primarySnapshotName h" "primarySnapshotName h \<noteq> currentFileName"
  "currentFileName \<noteq> deleteSnapshotName h" "deleteSnapshotName h \<noteq> currentFileName"
  "currentFileName \<noteq> walFileName i h" "walFileName i h \<noteq> currentFileName"
  "currentFileName \<noteq> segmentFileName i h" "segmentFileName i h \<noteq> currentFileName"
  by (simp_all add: primarySnapshotName_def deleteSnapshotName_def walFileName_def segmentFileName_def manifestFileName_def
      manifestPrefix_def currentFileName_def)

lemma names_inj [simp]:
  "primarySnapshotName g = primarySnapshotName h \<longleftrightarrow> g = h" "deleteSnapshotName g = deleteSnapshotName h \<longleftrightarrow> g = h"
  "walFileName i g = walFileName j h \<longleftrightarrow> i = j \<and> g = h" "segmentFileName i g = segmentFileName j h \<longleftrightarrow> i = j \<and> g = h"
  using decimal20_spec(1)
  by (auto simp: primarySnapshotName_def deleteSnapshotName_def walFileName_def segmentFileName_def decimal20_inj)

text \<open>Two files of a collection are one file only if they have one name.\<close>

lemma joined_names [simp]: "clean_name r \<Longrightarrow> clean_name s \<Longrightarrow> filepath_Join dir r = filepath_Join dir s \<longleftrightarrow> r = s"
  using filepath_Join_clean_inj by blast

lemma filepath_Join_ne [simp]: "filepath_Join dir r \<noteq> []"
  by (simp add: filepath_Join_def)

end
