(* ===== verification/Scenario.thy ===== *)
theory Scenario
  imports Collection_State Manager_Order Artifact_Names
begin

text \<open>
  A concrete engine on which the properties are exercised: a new log in an empty file system
  and a manager with an empty write segment for ten documents.
\<close>

definition first_segment :: WriteSegment where
  "first_segment = \<lparr>ws_id = 1, ws_minDocID = 0, ws_maxDocs = 10, ws_docs = [], ws_sealed = False\<rparr>"

definition first_manager :: SegmentManager where
  "first_manager = (NewSegmentManager None None)\<lparr>mgr_writing := Some first_segment\<rparr>"

definition first_file :: disk_file where
  "first_file = \<lparr>content = encodeWALFileHeader, synced = 32\<rparr>"

definition first_world :: world where
  "first_world = set_file ''wal'' first_file quiet_world"

definition first_wal :: WAL where
  "first_wal = \<lparr>wal_path = ''wal'', wal_options = \<lparr>SyncEvery = 0\<rparr>,
     wal_recovery = \<lparr>Records = 0, LastLSN = 0, ValidBytes = 32, TruncatedBytes = 0\<rparr>,
     wal_size = 32, wal_lastLSN = 0, wal_dirtyRecords = 0, wal_poisoned = None, wal_readOnly = False,
     wal_closed = False\<rparr>"

definition first_engine :: WriteEngine where
  "first_engine = \<lparr>eng_manager = first_manager, eng_wal = first_wal\<rparr>"

definition key_a :: bytes where "key_a = [0x61]"
definition key_b :: bytes where "key_b = [0x62]"

definition input_a :: WriteInput where "input_a = \<lparr>in_PrimaryKey = key_a, in_Payload = [1, 2, 3]\<rparr>"
definition input_b :: WriteInput where "input_b = \<lparr>in_PrimaryKey = key_b, in_Payload = [4]\<rparr>"

lemma input_ab_fields:
  "in_PrimaryKey input_a = key_a" "in_Payload input_a = [1, 2, 3]" "in_PrimaryKey input_b = key_b" "in_Payload input_b = [4]"
  by (simp_all add: input_a_def input_b_def)

lemma first_segment_new: "NewWriteSegment 1 0 10 = Inr first_segment"
  by (simp add: NewWriteSegment_def first_segment_def)

lemma first_manager_set: "SegmentManager_SetWriting first_segment (NewSegmentManager None None) = (None, first_manager)"
  by (simp add: SegmentManager_SetWriting_def first_manager_def NewSegmentManager_def)

lemma first_wal_create: "CreateWAL ''wal'' \<lparr>SyncEvery = 0\<rparr> (Inr True) quiet_world = (Inr first_wal, first_world)"
proof -
  have n: "length encodeWALFileHeader = 32" "encodeWALFileHeader \<noteq> []" by (auto simp flip: length_greater_0_conv)
  have "WriteFullAt [] [] src 0 = (None, src, [])" for src by (cases src) (auto simp: write_at_def)
  then show ?thesis using n
    by (simp add: CreateWAL_def quiet_world_def os_Stat_def os_CreateExcl_def set_file_def file_WriteFullAt_def
        file_Sync_def syncDirectory_def first_wal_def walFileHeaderSize_def first_world_def first_file_def)
qed

lemma first_manager_ok: "mgr_ok first_manager"
proof -
  have "ws_wf first_segment" using NewWriteSegment_wf [OF first_segment_new] by simp
  then have "mgr_wf first_manager"
    using SegmentManager_SetWriting_ok [OF NewSegmentManager_wf _ first_manager_set] by simp
  moreover have "mgr_indexed first_manager"
    by (simp add: mgr_indexed_def first_manager_def NewSegmentManager_def NewPrimaryKeyMap_def NewDeleteStore_def
        PrimaryKeyMap_Get_def DeleteStore_IsDeleted_def mgr_docs_def writing_docs_def first_segment_def)
  moreover have "mgr_ordered first_manager"
    by (simp add: mgr_ordered_def first_manager_def NewSegmentManager_def)
  moreover have "mgr_known first_manager"
    by (simp add: mgr_known_def first_manager_def NewSegmentManager_def NewDeleteStore_def DeleteStore_IsDeleted_def)
  ultimately show ?thesis by (simp add: mgr_ok_def)
qed

lemma first_engine_new: "NewWriteEngine first_manager first_wal = Inr first_engine"
  by (simp add: NewWriteEngine_def first_manager_def first_engine_def)

lemma first_engine_inv: "eng_inv first_manager [] first_engine first_world"
  unfolding first_engine_def by (rule eng_inv_start [OF first_wal_create first_manager_ok])

lemma first_log_ready: "log_ready [] first_engine (first_world\<lparr>polls := p\<rparr>)"
  using first_engine_inv
  by (auto simp: eng_inv_def log_ready_def first_engine_def first_wal_def wal_holds_def first_world_def quiet_world_def)

lemma first_engine_facts:
  "mgr_writing (eng_manager first_engine) = Some first_segment" "WriteSegment_NextDocumentID first_segment = Inr 0"
  "PrimaryKeyMap_Get k (mgr_primaryKey (eng_manager first_engine)) = None" "wal_path (eng_wal first_engine) = ''wal''"
  "fs first_world ''wal'' = Some first_file"
  by (simp_all add: first_engine_def first_manager_def first_segment_def WriteSegment_NextDocumentID_def len64_def
      NewSegmentManager_def NewPrimaryKeyMap_def PrimaryKeyMap_Get_def first_wal_def first_world_def)

lemma key_ab_valid: "validatePrimaryKey key_a = None" "validatePrimaryKey key_b = None" "key_a \<noteq> key_b"
  by (simp_all add: validatePrimaryKey_def key_a_def key_b_def maxPrimaryKeyBytes_def)

lemma input_ab_small: "small_input input_a" "small_input input_b"
  by (simp_all add: small_input_def input_a_def input_b_def key_ab_valid key_a_def key_b_def wal_sizes
      validatePrimaryKey_def maxPrimaryKeyBytes_def)

text \<open>The first insert succeeds.\<close>

lemma first_insert:
  obtains e w p where "insertOneLocked input_a first_engine first_world = (Inr 0, e, w)"
    "eng_inv first_manager [p] e w" "mgr_kv (eng_manager e) = [key_a \<mapsto> [1, 2, 3]]"
    "polls w = None" "log_ready [p] e w" "wal_path (eng_wal e) = ''wal''"
proof -
  have rd: "log_ready [] first_engine first_world" and w: "polls first_world = None"
    using first_log_ready [of None] by (simp_all add: first_world_def quiet_world_def set_file_def)
  have empty: "mgr_kv (eng_manager first_engine) = Map.empty"
    using mgr_kv_None [OF first_manager_ok] first_engine_facts(3) by (auto simp: first_engine_def)
  show ?thesis
  proof (rule insert_succeeds [OF first_engine_inv rd w _ first_engine_facts(1,2) input_ab_small(1) first_engine_facts(3)])
    show "length ([] :: bytes list) + 1 < 2 ^ 64" by simp
  next
    fix e' w' p
    assume "insertOneLocked input_a first_engine first_world = (Inr 0, e', w')" "eng_inv first_manager ([] @ [p]) e' w'"
      "mgr_kv (eng_manager e') = (mgr_kv (eng_manager first_engine))(in_PrimaryKey input_a \<mapsto> in_Payload input_a)"
      "polls w' = None" "log_ready ([] @ [p]) e' w'" "wal_path (eng_wal e') = wal_path (eng_wal first_engine)"
    then show ?thesis using that [of e' w' p] empty first_engine_facts(4) by (simp add: input_a_def)
  qed
qed

section \<open>A segment with one document\<close>

definition one_doc :: StoredDocument where
  "one_doc = \<lparr>doc_DocID = 0, doc_PrimaryKey = key_a, doc_Payload = [1, 2, 3]\<rparr>"

definition one_segment :: WriteSegment where
  "one_segment = first_segment\<lparr>ws_docs := [one_doc]\<rparr>"

definition one_immutable :: ImmutableSegment where
  "one_immutable = \<lparr>imm_metadata = segmentMetadata 1 [one_doc] [''seg''], imm_docs = [one_doc]\<rparr>"

definition one_key :: PrimaryKeyMap where
  "one_key = \<lparr>entries = [(key_a, \<lparr>SegmentID = 1, DocID = 0\<rparr>)]\<rparr>"

definition one_manager :: SegmentManager where
  "one_manager = first_manager\<lparr>mgr_writing := Some one_segment, mgr_primaryKey := one_key\<rparr>"

lemma one_doc_valid: "validateStoredDocument one_doc 0 = None"
  by (simp add: validateStoredDocument_None one_doc_def key_ab_valid MaxDocumentPayloadSize_def)

lemma one_segment_wf: "ws_wf one_segment"
  by (simp add: ws_wf_def one_segment_def first_segment_def one_doc_valid)

lemma quiet_world_calm: "calm quiet_world"
  by (simp add: calm_def quiet_world_def)

lemma one_segment_seal:
  "\<exists>s' w'. WriteSegment_writeImmutable ''.'' ''seg'' True one_segment quiet_world = (Inr one_immutable, s', w')"
proof -
  have path: "free_name (filepath_Join ''.'' ''seg'') quiet_world"
    by (simp add: free_name_def quiet_world_def filepath_Join_def path_Clean_def path_IsAbs_def filepath_Dir_def Let_def)
  have valid: "validatePortableRelativePath ''seg'' = None"
    by (rule validate_portable_if) (simp_all add: ordinary_def)
  have "\<exists>k. encodeSegment_size 0 0 [one_doc] = Inr k"
    by (rule encodeSegment_size_ok)
      (simp_all add: one_doc_valid, simp add: one_doc_def key_a_def maxSegmentPayloadSize_def)
  then obtain enc where enc: "encodeSegment (segmentMetadata 1 [one_doc] [''seg'']) [one_doc] = Inr enc"
    by (auto simp: encodeSegment_def segmentMetadata_def one_doc_def Let_def)
  have "writeImmutableSnapshot (filepath_Join ''.'' ''seg'') enc quiet_world =
      (None, set_file (filepath_Join ''.'' ''seg'') \<lparr>content = enc, synced = length enc\<rparr> quiet_world)"
    by (rule writeImmutableSnapshot_calm) (simp_all add: quiet_world_calm path)
  then show ?thesis
    using valid enc
    by (simp add: WriteSegment_writeImmutable_def one_segment_def first_segment_def one_immutable_def Let_def quiet_world_def)
qed

lemma one_manager_put: "one_manager = put_version key_a [1, 2, 3] first_segment 0 first_manager"
  by (simp add: one_manager_def put_version_def one_segment_def one_doc_def one_key_def first_manager_def
      NewSegmentManager_def NewPrimaryKeyMap_def NewDeleteStore_def PrimaryKeyMap_Get_def first_segment_def)

lemma one_manager_ok: "mgr_ok one_manager"
proof -
  have "mgr_writing first_manager = Some first_segment" using first_engine_facts(1) by (simp add: first_engine_def)
  then show ?thesis
    using put_version_ok [OF first_manager_ok _ first_engine_facts(2) key_ab_valid(1), of "[1, 2, 3]"]
    by (simp add: one_manager_put MaxDocumentPayloadSize_def)
qed

lemma one_immutable_wf: "imm_wf one_immutable"
  using WriteSegment_writeImmutable_Inr(1) [OF one_segment_wf] one_segment_seal by blast

section \<open>A collection with a version\<close>

definition empty_manifest :: Manifest where
  "empty_manifest = \<lparr>FormatVersion = 0, Generation = 0, Schema = [0x7B, 0x7D], EnableMmap = False,
     SegmentMaxDocuments = 10, PersistedSegments = [], WritingSegment = None, WritingSegmentStartDocID = 0,
     IDMapGeneration = 0, DeleteSnapshotGeneration = 0, NextSegmentID = 1, SegmentIndexSnapshots = []\<rparr>"

text \<open>A JSON library that stores the versions of one manifest, which differ in their generation.\<close>

definition plain_json :: "Manifest \<Rightarrow> json_lib" where
  "plain_json v = \<lparr>jl_Marshal = (\<lambda>m. Inr (PutUint64 (Generation m))),
     jl_Fields = (\<lambda>p. Inr [''writing_segment_start_doc_id'' \<mapsto> [0x30]]),
     jl_Decode = (\<lambda>p. Inr (prepareManifest v (Uint64 p), []))\<rparr>"

lemma plain_json_stores: "json_stores (plain_json v) (prepareManifest v g)"
  by (simp add: json_stores_def plain_json_def prepareManifest_def maxManifestSize_def trim_space_def ascii_space_def json_null_def)

lemma empty_manifest_valid: "g \<noteq> 0 \<Longrightarrow> Manifest_Validate (prepareManifest empty_manifest g) = None"
  using json_Object_empty
  by (simp add: Manifest_Validate_iff manifest_ok_def prepareManifest_def empty_manifest_def all_segments_def DiskFormatVersion_def)

lemma quiet_paths: "paths_complete quiet_world"
  by (simp add: paths_complete_def quiet_world_def)

lemma first_version_room:
  "\<exists>m w g. CreateVersionManager (plain_json empty_manifest) (Inr True) ''.'' empty_manifest quiet_world = ((Some m, None), w)
    \<and> calm w \<and> vm_dir m = ''.'' \<and> vm_inv (plain_json empty_manifest) m w \<and> nextManifestGeneration ''.'' w = (Inr g, w)"
proof -
  let ?jl = "plain_json empty_manifest" and ?v = "prepareManifest empty_manifest 1"
  have c: "calm quiet_world" by (simp add: calm_def quiet_world_def)
  have g: "Generation ?v = 1" by (simp add: prepareManifest_def)
  obtain w where p: "publishLocked ?jl ''.'' [] ?v quiet_world = ((manifestFileName 1, True, None), w)" "calm w"
    using publishLocked_calm [OF c empty_manifest_valid [of 1] plain_json_stores, of "''.''" "[]"] g by (auto simp: quiet_world_def)
  have "os_MkdirAll ''.'' quiet_world = (None, quiet_world)" by (simp add: os_MkdirAll_def quiet_world_def)
  moreover have "readCurrent ''.'' quiet_world = (Inl (Sentinel ErrManifestNotFound), quiet_world)"
    by (simp add: readCurrent_def os_Open_def quiet_world_def)
  moreover have "nextManifestGeneration ''.'' quiet_world = (Inr 1, quiet_world)"
    by (simp add: nextManifestGeneration_def os_ReadDir_def quiet_world_def map_filter_simps)
  moreover have "ctx_Err quiet_world = (None, quiet_world)" by (simp add: quiet_world_def)
  ultimately obtain m where m: "CreateVersionManager ?jl (Inr True) ''.'' empty_manifest quiet_world = ((Some m, None), w)"
    using p by (simp add: CreateVersionManager_def Let_def)
  note i = CreateVersionManager_inv [OF plain_json_stores quiet_paths m]
  have files: "q = manifest_path ''.'' 1 \<or> q = current_path ''.''" if "fs w q \<noteq> None" for q
    using publishLocked_cases(1) [OF p(1), unfolded g] that by (auto simp: quiet_world_def split: if_splits)
  have "\<exists>g. nextManifestGeneration ''.'' w = (Inr g, w)"
  proof (rule generation_room [OF p(2)])
    fix g :: u64 and q
    assume q: "fs w q \<noteq> None" and gz: "g \<noteq> 0" and b: "filepath_Base q = manifestFileName g"
    have cur: "filepath_Base (current_path ''.'') = currentFileName"
      by (rule filepath_Base_Join) (simp_all add: currentFileName_def ordinary_def)
    have "manifestFileName g = manifestFileName 1 \<or> manifestFileName g = currentFileName"
      using files [OF q] b filepath_Base_Join [OF manifestFileName_simple, of "''.''" 1] cur by auto
    then have "g = 1"
      using manifestFileName_inj [OF gz] by (auto simp: currentFileName_def manifestFileName_def manifestPrefix_def)
    then show "g < MaxUint64" by (simp add: word_less_nat_alt unat_MaxUint64)
  qed
  then show ?thesis using m p(2) i by blast
qed

end
