(* ===== verification/Collection_Files.thy ===== *)
theory Collection_Files
  imports Collection_State Manager_Order Artifact_Names
begin

text \<open>
  The files of a collection: what it means for the file at a path to hold a value for good, which operations only
  add files, which ones touch only the files they name, and that the searches for a free name
  end with one.
\<close>

section \<open>What a file holds\<close>

text \<open>The file at a path is complete and durable, and reading its bytes in any world where nothing fails
  gives the value.\<close>

definition stored :: "(world \<Rightarrow> 'a result \<times> world) \<Rightarrow> string \<Rightarrow> 'a \<Rightarrow> world \<Rightarrow> bool" where
  "stored load path x w \<longleftrightarrow> (\<exists>c. fs w path = Some (whole c)
     \<and> (\<forall>w1 f. calm w1 \<longrightarrow> fs w1 path = Some f \<longrightarrow> content f = c \<longrightarrow> load w1 = (Inr x, w1)))"

lemma stored_frame: "stored load path x w \<Longrightarrow> fs w' path = fs w path \<Longrightarrow> stored load path x w'"
  by (simp add: stored_def)

lemma reboot_calmD: "reboot w w1 \<Longrightarrow> calm w1"
  by (simp add: reboot_def calm_def)

lemma stored_reboot:
  assumes "stored load path x w" and "reboot w w1"
  shows "load w1 = (Inr x, w1)"
proof -
  obtain c where c: "fs w path = Some (whole c)"
    "\<And>w1 f. calm w1 \<Longrightarrow> fs w1 path = Some f \<Longrightarrow> content f = c \<Longrightarrow> load w1 = (Inr x, w1)"
    using assms(1) by (auto simp: stored_def)
  obtain f where "fs w1 path = Some f" "content f = c" by (rule reboot_whole [OF assms(2) c(1)])
  then show ?thesis using c(2) reboot_calmD [OF assms(2)] by blast
qed

lemma stored_new:
  assumes "fs w' = (fs w)(path \<mapsto> whole c)"
    and "\<And>w1 f. calm w1 \<Longrightarrow> fs w1 path = Some f \<Longrightarrow> content f = c \<Longrightarrow> load w1 = (Inr x, w1)"
  shows "stored load path x w'"
  using assms by (auto simp: stored_def)

lemma PrimaryKeyMap_WriteSnapshot_stored:
  assumes wf: "pk_wf m" and wr: "PrimaryKeyMap_WriteSnapshot name m w = (None, w')"
  shows "stored (LoadPrimaryKeyMap name) name (pk_canonical m) w'"
proof -
  have st: "pk_storable m" using wf wr by (auto simp: PrimaryKeyMap_WriteSnapshot_def pk_storable_def split: option.splits)
  obtain e where e: "encodeSnapshot primaryMapMagic (len64 (pk_sorted_keys m)) (pk_payload m) = Inr e"
    and w: "writeImmutableSnapshot name e w = (None, w')"
    using wr by (auto simp: PrimaryKeyMap_WriteSnapshot_def split: option.splits sum.splits)
  have fs: "fs w' = (fs w)(name \<mapsto> whole e)" using writeImmutableSnapshot_atomic [OF w] by simp
  show ?thesis
  proof (rule stored_new [OF fs])
    fix w1 f assume c: "calm w1" "fs w1 name = Some f" "content f = e"
    then have "readSnapshotFile name w1 = (Inr e, w1)"
      using readSnapshotFile_calm [of w1 name f] encodeSnapshot_length [OF e pk_snapshot.magic_length] by simp
    then show "LoadPrimaryKeyMap name w1 = (Inr (pk_canonical m), w1)"
      using decode_encodeSnapshot [OF e pk_snapshot.magic_length] pk_snapshot.parse_payload [OF st] by (simp add: LoadPrimaryKeyMap_def)
  qed
qed

lemma DeleteStore_WriteSnapshot_stored:
  assumes wf: "del_wf m" and wr: "DeleteStore_WriteSnapshot name m w = (None, w')"
  shows "stored (LoadDeleteStore name) name (del_canonical m) w'"
proof -
  have st: "del_storable m" using wf wr by (auto simp: DeleteStore_WriteSnapshot_def del_storable_def Let_def split: if_splits)
  obtain e where e: "encodeSnapshot deleteSnapshotMagic (len64 (sort (deleted m))) (del_payload m) = Inr e"
    and w: "writeImmutableSnapshot name e w = (None, w')"
    using wr by (auto simp: DeleteStore_WriteSnapshot_def Let_def split: if_splits sum.splits)
  have fs: "fs w' = (fs w)(name \<mapsto> whole e)" using writeImmutableSnapshot_atomic [OF w] by simp
  show ?thesis
  proof (rule stored_new [OF fs])
    fix w1 f assume c: "calm w1" "fs w1 name = Some f" "content f = e"
    then have "readSnapshotFile name w1 = (Inr e, w1)"
      using readSnapshotFile_calm [of w1 name f] encodeSnapshot_length [OF e del_snapshot.magic_length] by simp
    then show "LoadDeleteStore name w1 = (Inr (del_canonical m), w1)"
      using decode_encodeSnapshot [OF e del_snapshot.magic_length] del_snapshot.parse_payload [OF st] by (simp add: LoadDeleteStore_def)
  qed
qed

lemma WriteSegment_writeImmutable_stored:
  assumes wf: "ws_wf s" and wr: "WriteSegment_writeImmutable dir name seal s w = (Inr imm, s', w')"
  shows "stored (OpenImmutableSegment dir (imm_metadata imm)) (filepath_Join dir name) imm w'"
proof -
  note i = WriteSegment_writeImmutable_Inr [OF wf wr]
  let ?md = "segmentMetadata (ws_id s) (ws_docs s) [name]"
  obtain e w0 where e: "encodeSegment ?md (ws_docs s) = Inr e" and dir: "dir \<noteq> []"
    and pv: "validatePortableRelativePath name = None"
    and ws: "writeImmutableSnapshot (filepath_Join dir name) e w0 = (None, w')"
    and imm: "imm = \<lparr>imm_metadata = ?md, imm_docs = ws_docs s\<rparr>"
    using wr by (auto simp: WriteSegment_writeImmutable_def Let_def split: prod.splits sum.splits option.splits if_splits)
  have fs: "fs w' = (fs w0)(filepath_Join dir name \<mapsto> whole e)" using writeImmutableSnapshot_atomic [OF ws] by simp
  show ?thesis
  proof (rule stored_new [OF fs])
    fix w1 f assume c: "calm w1" "fs w1 (filepath_Join dir name) = Some f" "content f = e"
    have b: "unat (MinDocID ?md) + length (ws_docs s) \<le> 2 ^ 64" using i(1) imm by (simp add: imm_wf_def)
    have p: "polls w1 = None" "outcomes w1 = []" using c(1) by (auto simp: calm_def)
    note d = decode_encodeSegment [OF e refl b p(1)]
    have v: "validateSegment ?md = None" using imm_wf_validateSegment [OF i(1) i(4) pv] imm by simp
    have op: "os_Open (filepath_Join dir name) w1 = (Inr e, w1)" using c p by (simp add: os_Open_def)
    have sz: "\<not> (length e < segmentHeaderSize \<or> maxSegmentPayloadSize < length e - segmentHeaderSize)"
      using d(2,3) by (simp add: segmentHeaderSize_def)
    show "OpenImmutableSegment dir (imm_metadata imm) w1 = (Inr imm, w1)"
      using p dir v op d(1) sz by (simp add: imm OpenImmutableSegment_def segmentMetadataEqual_def segmentMetadata_def)
  qed
qed


section \<open>Operations that only add files\<close>

definition grows :: "world \<Rightarrow> world \<Rightarrow> bool" where
  "grows w w' \<longleftrightarrow> (\<forall>p f. fs w p = Some f \<longrightarrow> fs w' p = Some f) \<and> set (dirs w) \<subseteq> set (dirs w')
     \<and> (paths_complete w \<longrightarrow> paths_complete w')"

named_theorems grows_intros

lemma grows_refl [simp]: "grows w w"
  by (simp add: grows_def)

lemma grows_trans: "grows w w1 \<Longrightarrow> grows w1 w2 \<Longrightarrow> grows w w2"
  by (auto simp: grows_def)

lemma grows_same: "fs w' = fs w \<Longrightarrow> paths w' = paths w \<Longrightarrow> set (dirs w) \<subseteq> set (dirs w') \<Longrightarrow> grows w w'"
  by (simp add: grows_def paths_complete_def)

lemma grows_file: "grows w w' \<Longrightarrow> fs w p = Some f \<Longrightarrow> fs w' p = Some f"
  by (simp add: grows_def)

lemma grows_stored: "grows w w' \<Longrightarrow> stored load path x w \<Longrightarrow> stored load path x w'"
  by (auto simp: stored_def dest: grows_file)

lemma ctx_Err_grows [grows_intros]: "ctx_Err w = (e, w') \<Longrightarrow> grows w w'"
  using ctx_Err_frame [of w e w'] ctx_Err_paths [of w e w'] by (simp add: grows_same)

lemma io_step_grows [grows_intros]: "io_step w = (e, w') \<Longrightarrow> grows w w'"
  using io_step_env [of w e w'] by (simp add: grows_same)

lemma syncDirectory_grows [grows_intros]: "syncDirectory w = (e, w') \<Longrightarrow> grows w w'"
  by (simp add: syncDirectory_def io_step_grows)

lemma os_Stat_grows [grows_intros]: "os_Stat p w = (e, w') \<Longrightarrow> grows w w'"
  by (auto simp: os_Stat_def split: prod.splits option.splits if_splits intro: io_step_grows)

lemma os_StatDir_grows [grows_intros]: "os_StatDir p w = (e, w') \<Longrightarrow> grows w w'"
  by (auto simp: os_StatDir_def split: prod.splits option.splits if_splits intro: io_step_grows)

lemma os_MkdirAll_grows [grows_intros]: "os_MkdirAll p w = (e, w') \<Longrightarrow> grows w w'"
proof -
  assume m: "os_MkdirAll p w = (e, w')"
  obtain r w1 where io: "io_step w = (r, w1)" by (cases "io_step w")
  show ?thesis using m io io_step_env [OF io]
    by (auto simp: os_MkdirAll_def split: option.splits if_splits intro!: grows_same)
qed

lemma missing_directories_grows: "missing_directories d ms w = (r, w') \<Longrightarrow> grows w w'"
proof (induction d ms w arbitrary: r w' rule: missing_directories.induct)
  case (1 d ms w)
  obtain x w1 where st: "os_StatDir d w = (x, w1)" by (cases "os_StatDir d w")
  note g = os_StatDir_grows [OF st]
  show ?case
  proof (cases "\<exists>e. x = Inl e \<and> errors_Is e OsErrNotExist \<and> filepath_Dir d \<noteq> d")
    case True
    then obtain e' where x: "x = Inl e'" "errors_Is e' OsErrNotExist" "filepath_Dir d \<noteq> d" by blast
    then have "missing_directories (filepath_Dir d) (ms @ [d]) w1 = (r, w')"
      using "1.prems" st by (subst (asm) missing_directories.simps) (simp add: Let_def)
    from "1.IH" [OF st [symmetric] x(1) _ refl refl x(3) this] x(2) show ?thesis using g grows_trans by blast
  next
    case False
    then have "w' = w1"
      using "1.prems" st by (subst (asm) missing_directories.simps) (auto simp: Let_def split: sum.splits if_splits)
    then show ?thesis using g by simp
  qed
qed

lemma sync_parents_grows: "sync_parents ds w = (e, w') \<Longrightarrow> grows w w'"
proof (induction ds arbitrary: w)
  case (Cons d ds)
  obtain r w1 where "syncDirectory w = (r, w1)" by (cases "syncDirectory w")
  then show ?case using Cons syncDirectory_grows [of w r w1] by (auto split: option.splits intro: grows_trans)
qed simp

lemma ensureDirectorySynced_grows [grows_intros]: "ensureDirectorySynced d w = (e, w') \<Longrightarrow> grows w w'"
  by (auto simp: ensureDirectorySynced_def split: prod.splits sum.splits option.splits if_splits
      dest!: missing_directories_grows os_MkdirAll_grows sync_parents_grows) (meson grows_trans)+


lemma writeTempSynced_grows [grows_intros]: "writeTempSynced c w = (r, w') \<Longrightarrow> grows w w'"
  using writeTempSynced_frame [of c w r w'] writeTempSynced_paths [of c w r w'] by (simp add: grows_same)

lemma grows_new:
  assumes "fs w p = None" and "fs w' = (fs w)(p \<mapsto> f)" and "dirs w' = dirs w" and "paths_complete w \<Longrightarrow> paths_complete w'"
  shows "grows w w'"
  using assms by (auto simp: grows_def)

lemma installFileNoReplace_grows [grows_intros]: "installFileNoReplace c n w = (e, w') \<Longrightarrow> grows w w'"
proof -
  assume i: "installFileNoReplace c n w = (e, w')"
  note c = installFileNoReplace_cases [OF i]
  show ?thesis
  proof (cases e)
    case None
    then show ?thesis using c grows_new [of w n w' "whole c"] by simp
  next
    case (Some err)
    then show ?thesis using c by (simp add: grows_def)
  qed
qed

lemma writeImmutableSnapshot_grows [grows_intros]: "writeImmutableSnapshot n c w = (e, w') \<Longrightarrow> grows w w'"
  by (auto simp: writeImmutableSnapshot_def split: prod.splits option.splits sum.splits if_splits dest!: grows_intros)
    (meson grows_trans)+

lemma PrimaryKeyMap_WriteSnapshot_grows [grows_intros]: "PrimaryKeyMap_WriteSnapshot n m w = (e, w') \<Longrightarrow> grows w w'"
  by (auto simp: PrimaryKeyMap_WriteSnapshot_def split: option.splits sum.splits dest!: grows_intros)

lemma DeleteStore_WriteSnapshot_grows [grows_intros]: "DeleteStore_WriteSnapshot n m w = (e, w') \<Longrightarrow> grows w w'"
  by (auto simp: DeleteStore_WriteSnapshot_def Let_def split: if_splits sum.splits dest!: grows_intros)

lemma WriteSegment_writeImmutable_grows [grows_intros]:
  "WriteSegment_writeImmutable dir n seal s w = (r, s', w') \<Longrightarrow> grows w w'"
  by (auto simp: WriteSegment_writeImmutable_def Let_def split: prod.splits option.splits sum.splits if_splits dest!: grows_intros)
    (meson grows_trans)+

lemma os_CreateExcl_cases:
  assumes "os_CreateExcl n w = (e, w')"
  shows "if e = None then fs w n = None \<and> fs w' = (fs w)(n \<mapsto> \<lparr>content = [], synced = 0\<rparr>) else fs w' = fs w"
    "dirs w' = dirs w" "paths_complete w \<Longrightarrow> paths_complete w'"
proof -
  obtain r w1 where io: "io_step w = (r, w1)" by (cases "io_step w")
  note f = io_step_env [OF io]
  show "if e = None then fs w n = None \<and> fs w' = (fs w)(n \<mapsto> \<lparr>content = [], synced = 0\<rparr>) else fs w' = fs w" "dirs w' = dirs w"
    using assms io f by (auto simp: os_CreateExcl_def split: option.splits if_splits)
  show "paths_complete w \<Longrightarrow> paths_complete w'"
    using assms io f paths_complete_frame [of w w1] paths_complete_set_file [of w1]
    by (auto simp: os_CreateExcl_def split: option.splits if_splits)
qed

text \<open>Creating a log: on success its file is new, complete and durable; on failure nothing but the new file
  may be there.\<close>

lemma left_over_trans_same: "fs w1 = fs w \<Longrightarrow> left_over n w1 w' \<Longrightarrow> left_over n w w'"
  by (simp add: left_over_def)

lemma left_over_grows:
  "left_over n w w' \<Longrightarrow> dirs w' = dirs w \<Longrightarrow> (paths_complete w \<Longrightarrow> paths_complete w') \<Longrightarrow> grows w w'"
  by (auto simp: left_over_def grows_def)

lemma CreateWAL_cases:
  assumes "CreateWAL name opts lock w = (r, w')"
  shows "case r of Inl e \<Rightarrow> left_over name w w'
      | Inr l \<Rightarrow> fs w name = None \<and> fs w' = (fs w)(name \<mapsto> whole encodeWALFileHeader)"
    "dirs w' = dirs w" "paths_complete w \<Longrightarrow> paths_complete w'"
proof -
  let ?goal = "(case r of Inl e \<Rightarrow> left_over name w w'
      | Inr l \<Rightarrow> fs w name = None \<and> fs w' = (fs w)(name \<mapsto> whole encodeWALFileHeader)) \<and> dirs w' = dirs w
      \<and> (paths_complete w \<longrightarrow> paths_complete w')"
  obtain e0 w0 where c0: "ctx_Err w = (e0, w0)" by (cases "ctx_Err w")
  obtain e1 w1 where st: "os_Stat name w0 = (e1, w1)" by (cases "os_Stat name w0")
  have f1: "fs w0 = fs w" "dirs w0 = dirs w" "paths w0 = paths w" "fs w1 = fs w" "dirs w1 = dirs w" "paths w1 = paths w"
    using ctx_Err_frame [OF c0] ctx_Err_paths [OF c0] st
    by (auto simp: os_Stat_def split: prod.splits option.splits if_splits dest!: io_step_env)
  have same: ?goal if "w' = w \<or> w' = w0 \<or> w' = w1" "\<exists>e. r = Inl e"
    using that f1 paths_complete_frame [of w] by (auto simp: left_over_def)
  obtain e2 w2 where cr: "os_CreateExcl name w1 = (e2, w2)" by (cases "os_CreateExcl name w1")
  note c2 = os_CreateExcl_cases [OF cr]
  have ?goal
  proof (cases "name \<noteq> [] \<and> e0 = None \<and> (\<exists>e. e1 = Some e \<and> errors_Is e OsErrNotExist) \<and> lock = Inr True")
    case False
    then show ?thesis
      using assms c0 st by (intro same) (auto simp: CreateWAL_def split: if_splits option.splits sum.splits)
  next
    case True
    then have lk: "lock = Inr True" "name \<noteq> []" "e0 = None" by auto
    obtain e where e1: "e1 = Some e" "errors_Is e OsErrNotExist" using True by blast
    show ?thesis
    proof (cases e2)
      case (Some x)
      then have "w' = w2" "\<exists>e. r = Inl e" using assms c0 st lk e1 cr by (auto simp: CreateWAL_def split: if_splits)
      then show ?thesis using c2 f1 Some paths_complete_frame [of w w1] by (auto simp: left_over_def)
    next
      case None
      then have free: "fs w name = None" and w2: "fs w2 = (fs w)(name \<mapsto> \<lparr>content = [], synced = 0\<rparr>)" using c2 f1 by auto
      obtain e3 w3 where wr: "file_WriteFullAt name encodeWALFileHeader 0 w2 = (e3, w3)"
        by (cases "file_WriteFullAt name encodeWALFileHeader 0 w2")
      have "fs w2 name = Some \<lparr>content = [], synced = 0\<rparr>" using w2 by simp
      note wn = file_WriteFullAt_new [OF wr this]
      from wn(1) obtain c where
        w3: "fs w3 = (fs w)(name \<mapsto> \<lparr>content = c, synced = 0\<rparr>)" "e3 = None \<longrightarrow> c = encodeWALFileHeader"
        using w2 by auto
      have p3: "dirs w3 = dirs w" "paths_complete w \<Longrightarrow> paths_complete w3"
        using wn(2,3) c2(2,3) f1 paths_complete_frame [of w w1] by auto
      obtain e4 w4 where sy: "file_Sync name w3 = (e4, w4)" by (cases "file_Sync name w3")
      have w4: "fs w4 = (fs w)(name \<mapsto> \<lparr>content = c, synced = if e4 = None then length c else 0\<rparr>)"
        "dirs w4 = dirs w" "paths_complete w \<Longrightarrow> paths_complete w4"
        using file_Sync_set [OF sy] w3 p3 by auto
      obtain e5 w5 where sd: "io_step w4 = (e5, w5)" by (cases "io_step w4")
      have w5: "fs w5 = (fs w)(name \<mapsto> \<lparr>content = c, synced = if e4 = None then length c else 0\<rparr>)"
        "dirs w5 = dirs w" "paths_complete w \<Longrightarrow> paths_complete w5"
        using io_step_env [OF sd] w4 paths_complete_frame [of w4 w5] by auto
      have res: "if e3 \<noteq> None then (\<exists>x. r = Inl x) \<and> w' = snd (os_Remove name w3)
          else if e4 \<noteq> None then (\<exists>x. r = Inl x) \<and> w' = snd (os_Remove name w4)
          else if e5 \<noteq> None then (\<exists>x. r = Inl x) \<and> w' = snd (os_Remove name w5) else (\<exists>l. r = Inr l) \<and> w' = w5"
        using assms c0 st lk e1 cr None wr sy sd
        by (auto simp: CreateWAL_def syncDirectory_def split: option.splits)
      note lo = left_over_removed [OF free w3(1)] left_over_removed [OF free w4(1)] left_over_removed [OF free w5(1)]
      show ?thesis
      proof (cases "e3 = None \<and> e4 = None \<and> e5 = None")
        case True
        then show ?thesis using res w3(2) w5 free by auto
      next
        case False
        then have "(\<exists>x. r = Inl x) \<and> left_over name w w' \<and> dirs w' = dirs w \<and> (paths_complete w \<longrightarrow> paths_complete w')"
          using res lo [OF refl] p3 w4(2,3) w5(2,3) by (auto split: if_splits)
        then show ?thesis by auto
      qed
    qed
  qed
  then show "case r of Inl e \<Rightarrow> left_over name w w'
      | Inr l \<Rightarrow> fs w name = None \<and> fs w' = (fs w)(name \<mapsto> whole encodeWALFileHeader)"
    "dirs w' = dirs w" "paths_complete w \<Longrightarrow> paths_complete w'" by blast+
qed


lemma CreateWAL_grows [grows_intros]: "CreateWAL name opts lock w = (r, w') \<Longrightarrow> grows w w'"
  using CreateWAL_cases [of name opts lock w r w'] left_over_grows grows_new
  by (cases r) (fastforce simp: left_over_def grows_def)+

section \<open>Operations that touch some files\<close>

definition touches :: "string set \<Rightarrow> world \<Rightarrow> world \<Rightarrow> bool" where
  "touches P w w' \<longleftrightarrow> (\<forall>p. p \<notin> P \<longrightarrow> fs w' p = fs w p) \<and> set (dirs w) \<subseteq> set (dirs w') \<and> (paths_complete w \<longrightarrow> paths_complete w')"

lemma touches_refl [simp]: "touches P w w"
  by (simp add: touches_def)

lemma touches_trans: "touches P w w1 \<Longrightarrow> touches P w1 w2 \<Longrightarrow> touches P w w2"
  by (auto simp: touches_def)

lemma touches_mono: "touches P w w' \<Longrightarrow> P \<subseteq> Q \<Longrightarrow> touches Q w w'"
  by (auto simp: touches_def)

lemma touches_same: "fs w' = fs w \<Longrightarrow> paths w' = paths w \<Longrightarrow> dirs w' = dirs w \<Longrightarrow> touches P w w'"
  by (simp add: touches_def paths_complete_def)

lemma grows_touches: "grows w w1 \<Longrightarrow> touches P w1 w2 \<Longrightarrow> (\<And>p. p \<in> P \<Longrightarrow> fs w p = None) \<Longrightarrow> grows w w2"
  unfolding grows_def touches_def by (metis option.distinct(1) subset_trans)

lemma grows_fresh: "grows w w' \<Longrightarrow> fs w' p = None \<Longrightarrow> fs w p = None"
  by (cases "fs w p") (auto dest: grows_file)

lemma io_step_touches: "io_step w = (e, w') \<Longrightarrow> touches P w w'"
  using io_step_env [of w e w'] by (simp add: touches_same)

lemma ctx_Err_touches: "ctx_Err w = (e, w') \<Longrightarrow> touches P w w'"
  using ctx_Err_frame [of w e w'] ctx_Err_paths [of w e w'] by (simp add: touches_same)

lemma os_Remove_touches: "touches {name} w (snd (os_Remove name w))"
proof -
  obtain e w' where r: "os_Remove name w = (e, w')" by (cases "os_Remove name w")
  show ?thesis using os_Remove_cases [OF r] paths_complete_remove [OF _ r] r by (auto simp: touches_def)
qed

lemma cleanup_touches: "touches (set names) w (cleanup names w)"
proof (induction names arbitrary: w)
  case (Cons n names)
  have "touches (set (n # names)) w (snd (os_Remove n w))" by (rule touches_mono [OF os_Remove_touches]) simp
  then show ?case using touches_trans [OF _ touches_mono [OF Cons.IH]] by fastforce
qed simp

lemma file_Sync_touches: "file_Sync n w = (e, w') \<Longrightarrow> touches {n} w w'"
proof -
  assume s: "file_Sync n w = (e, w')"
  obtain r w1 where io: "io_step w = (r, w1)" by (cases "io_step w")
  note f = io_step_env [OF io]
  show ?thesis using s io f paths_complete_frame [of w w1] paths_complete_set_file [of w1 n]
    by (auto simp: file_Sync_def touches_def split: option.splits)
qed

lemma file_WriteFullAt_touches: "file_WriteFullAt n c k w = (e, w') \<Longrightarrow> touches {n} w w'"
  using paths_complete_set_file [of "w\<lparr>outcomes := ios\<rparr>" n for ios]
  by (fastforce simp: file_WriteFullAt_def touches_def paths_complete_def set_file_def split: option.splits prod.splits)

lemma discard_wal_touches: "touches {wal_path l} w (discard_wal lk l w)"
proof -
  obtain es l' w' where c: "WAL_Close (close_wal lk) l w = (es, l', w')" by (cases "WAL_Close (close_wal lk) l w")
  then show ?thesis
    by (auto simp: discard_wal_def WAL_Close_def Let_def split: if_splits prod.splits
        dest!: file_Sync_touches io_step_touches [where P = "{wal_path l}"]) (meson touches_trans)+
qed

section \<open>Free names\<close>

lemma os_Stat_fresh: "os_Stat p w = (Some e, w') \<Longrightarrow> errors_Is e OsErrNotExist \<Longrightarrow> fs w' p = None"
  by (auto simp: os_Stat_def io_step_def io_error_def split: prod.splits option.splits if_splits list.splits io_outcome.splits)

lemma availableArtifact_spec:
  "availableArtifact dir name g w = (r, w') \<Longrightarrow> grows w w' \<and>
     (\<forall>rel. r = Inr rel \<longrightarrow> fs w' (filepath_Join dir rel) = None \<and> (\<exists>h \<ge> g. rel = name h))"
proof (induction dir name g w arbitrary: r w' rule: availableArtifact.induct)
  case (1 dir name g w)
  obtain e w1 where st: "os_Stat (filepath_Join dir (name g)) w = (e, w1)" by (cases "os_Stat (filepath_Join dir (name g)) w")
  note gr = os_Stat_grows [OF st]
  show ?case
  proof (cases "e = None \<and> g \<noteq> MaxUint64")
    case True
    then have st': "os_Stat (filepath_Join dir (name g)) w = (None, w1)" using st by simp
    have "availableArtifact dir name (g + 1) w1 = (r, w')"
      using "1.prems" st' True by (subst (asm) availableArtifact.simps) (simp add: Let_def)
    from "1.IH" [OF refl st' [symmetric] refl _ this] True
    have ih: "grows w1 w'" "\<And>rel. r = Inr rel \<Longrightarrow> fs w' (filepath_Join dir rel) = None \<and> (\<exists>h \<ge> g + 1. rel = name h)" by blast+
    have "g \<le> g + 1" using True unat_plus_one_u64 [of g] by (simp add: word_le_nat_alt)
    then have "\<exists>h \<ge> g. rel = name h" if "r = Inr rel" for rel using ih(2) [OF that] order_trans by blast
    then show ?thesis using ih grows_trans [OF gr ih(1)] by simp
  next
    case False
    then have "w' = w1 \<and> (\<forall>rel. r = Inr rel \<longrightarrow> rel = name g \<and> (\<exists>x. e = Some x \<and> errors_Is x OsErrNotExist))"
      using "1.prems" st by (subst (asm) availableArtifact.simps) (auto simp: Let_def split: option.splits if_splits)
    then show ?thesis using gr os_Stat_fresh [of "filepath_Join dir (name g)" w _ w1] st by auto
  qed
qed

lemma snapshotGenerationExists_spec:
  assumes "snapshotGenerationExists dir g w = (b, w')"
  shows "grows w w'" "\<not> b \<Longrightarrow> fs w' (filepath_Join dir (primarySnapshotName g)) = None \<and> fs w' (filepath_Join dir (deleteSnapshotName g)) = None"
proof -
  obtain e1 w1 where a: "os_Stat (filepath_Join dir (primarySnapshotName g)) w = (e1, w1)"
    by (cases "os_Stat (filepath_Join dir (primarySnapshotName g)) w")
  obtain e2 w2 where b: "os_Stat (filepath_Join dir (deleteSnapshotName g)) w1 = (e2, w2)"
    by (cases "os_Stat (filepath_Join dir (deleteSnapshotName g)) w1")
  note gr = os_Stat_grows [OF a] os_Stat_grows [OF b]
  show "grows w w'"
    using assms a b gr grows_trans by (auto simp: snapshotGenerationExists_def split: option.splits if_splits)
  have "fs w2 = fs w1" using b by (auto simp: os_Stat_def split: prod.splits option.splits if_splits dest!: io_step_env)
  then show "\<not> b \<Longrightarrow> fs w' (filepath_Join dir (primarySnapshotName g)) = None \<and> fs w' (filepath_Join dir (deleteSnapshotName g)) = None"
    using assms a b os_Stat_fresh [of "filepath_Join dir (primarySnapshotName g)" w _ w1]
      os_Stat_fresh [of "filepath_Join dir (deleteSnapshotName g)" w1 _ w2]
    by (auto simp: snapshotGenerationExists_def split: option.splits if_splits)
qed

lemma next_generation_spec:
  "next_generation dir g w = (r, w') \<Longrightarrow> grows w w' \<and> (\<forall>h. r = Inr h \<longrightarrow> g < h
     \<and> fs w' (filepath_Join dir (primarySnapshotName h)) = None \<and> fs w' (filepath_Join dir (deleteSnapshotName h)) = None)"
proof (induction dir g w arbitrary: r w' rule: next_generation.induct)
  case (1 dir g w)
  obtain b w1 where ex: "snapshotGenerationExists dir (g + 1) w = (b, w1)" by (cases "snapshotGenerationExists dir (g + 1) w")
  note s = snapshotGenerationExists_spec [OF ex]
  have less: "g \<noteq> MaxUint64 \<Longrightarrow> g < g + 1" using unat_plus_one_u64 [of g] by (simp add: word_less_nat_alt)
  show ?case
  proof (cases "g \<noteq> MaxUint64 \<and> b")
    case True
    then have g: "g \<noteq> MaxUint64" and ex': "snapshotGenerationExists dir (g + 1) w = (True, w1)" using ex by auto
    have "next_generation dir (g + 1) w1 = (r, w')"
      using "1.prems" ex' g by (subst (asm) next_generation.simps) simp
    note ih = "1.IH" [OF g ex' [symmetric] refl this]
    have "g < h" if "r = Inr h" for h using ih that less [OF g] by auto
    then show ?thesis using ih grows_trans [OF s(1)] by simp
  next
    case False
    then show ?thesis
    proof (cases "g = MaxUint64")
      case True
      then show ?thesis using "1.prems" by (subst (asm) next_generation.simps) auto
    next
      case ne: False
      then have ex': "snapshotGenerationExists dir (g + 1) w = (False, w1)" using ex False by simp
      then have "r = Inr (g + 1)" "w' = w1" using "1.prems" ne by (subst (asm) next_generation.simps; simp)+
      then show ?thesis using s False ne less by simp
    qed
  qed
qed

section \<open>The search for a free name\<close>

lemma availableArtifact_calm_step:
  assumes "calm w"
  shows "availableArtifact dir name g w =
    (if fs w (filepath_Join dir (name g)) = None then (Inr (name g), w)
     else if g = MaxUint64 then (Inl (NewError ''db: artifact generation space is exhausted''), w)
     else availableArtifact dir name (g + 1) w)"
  using assms by (subst availableArtifact.simps) (simp add: Let_def os_Stat_def calm_def)

lemma less_plus_one_u64: "g \<noteq> MaxUint64 \<Longrightarrow> (i :: u64) < g + 1 \<longleftrightarrow> i \<le> g"
  using unat_plus_one_u64 [of g] by (simp add: word_less_nat_alt word_le_nat_alt less_Suc_eq_le)

lemma availableArtifact_calm:
  assumes w: "calm w"
  shows "g \<le> h \<Longrightarrow> fs w (filepath_Join dir (name h)) = None
      \<Longrightarrow> (\<And>i. g \<le> i \<Longrightarrow> i < h \<Longrightarrow> fs w (filepath_Join dir (name i)) \<noteq> None) \<Longrightarrow> availableArtifact dir name g w = (Inr (name h), w)"
    and "(\<And>i. g \<le> i \<Longrightarrow> fs w (filepath_Join dir (name i)) \<noteq> None)
      \<Longrightarrow> availableArtifact dir name g w = (Inl (NewError ''db: artifact generation space is exhausted''), w)"
proof (induction "2 ^ 64 - unat g" arbitrary: g rule: less_induct)
  case less
  {
    case 1
    show ?case
    proof (cases "g = h")
      case True
      then show ?thesis using 1 availableArtifact_calm_step [OF w, of dir name g] by simp
    next
      case False
      then have gh: "g < h" using 1 by simp
      then have m: "g \<noteq> MaxUint64" using word_order.extremum [of h] by auto
      have "availableArtifact dir name (g + 1) w = (Inr (name h), w)"
        by (rule less.hyps(1) [OF generation_measure [OF m]])
          (use 1 gh less_plus_one_u64 [OF m] in \<open>auto simp: not_less [symmetric]\<close>)
      then show ?thesis using 1(3) [of g] gh m availableArtifact_calm_step [OF w, of dir name g] by auto
    qed
  next
    case 2
    show ?case
    proof (cases "g = MaxUint64")
      case True
      then show ?thesis using 2 availableArtifact_calm_step [OF w, of dir name g] by simp
    next
      case m: False
      have "availableArtifact dir name (g + 1) w = (Inl (NewError ''db: artifact generation space is exhausted''), w)"
        by (rule less.hyps(2) [OF generation_measure [OF m]])
          (use 2 less_plus_one_u64 [OF m] in \<open>auto simp: not_less [symmetric]\<close>)
      then show ?thesis using 2 [of g] m availableArtifact_calm_step [OF w, of dir name g] by auto
    qed
  }
qed

end
