(* ===== verification/Collection_Recovery.thy ===== *)
theory Collection_Recovery
  imports Collection_Files
begin

text \<open>
  Recovery of a collection: the checkpoint that a version names, what survives a restart of the machine, the
  invariant that ties the documents in memory to the files, and that \<open>OpenCollection\<close> after a restart finds
  those documents.
\<close>

section \<open>Checkpoints\<close>

text \<open>A version names a checkpoint: two snapshots, the immutable segments and the empty writing segment of a
  manager, each in a file that holds it for good.\<close>

abbreviation primary_path :: "string \<Rightarrow> Manifest \<Rightarrow> string" where
  "primary_path dir v \<equiv> filepath_Join dir (primarySnapshotName (IDMapGeneration v))"

abbreviation deletes_path :: "string \<Rightarrow> Manifest \<Rightarrow> string" where
  "deletes_path dir v \<equiv> filepath_Join dir (deleteSnapshotName (DeleteSnapshotGeneration v))"

definition segment_stored :: "string \<Rightarrow> ImmutableSegment \<Rightarrow> world \<Rightarrow> bool" where
  "segment_stored dir s w \<longleftrightarrow> (\<exists>g. Files (imm_metadata s) = [segmentFileName (ImmutableSegment_ID s) g]
     \<and> stored (OpenImmutableSegment dir (imm_metadata s)) (filepath_Join dir (segmentFileName (ImmutableSegment_ID s) g)) s w)"

definition writing_named :: "Manifest \<Rightarrow> string \<Rightarrow> WriteSegment \<Rightarrow> bool" where
  "writing_named v rel ws \<longleftrightarrow> (\<exists>g. rel = walFileName (ws_id ws) g)
     \<and> WritingSegment v = Some \<lparr>seg_ID = ws_id ws, MinDocID = 0, MaxDocID = 0, DocCount = 0, Files = [rel]\<rparr>
     \<and> NewWriteSegment (ws_id ws) (WritingSegmentStartDocID v) (SegmentMaxDocuments v) = Inr ws"

definition checkpoint :: "SegmentManager \<Rightarrow> string \<Rightarrow> string \<Rightarrow> Manifest \<Rightarrow> world \<Rightarrow> bool" where
  "checkpoint m rel dir v w \<longleftrightarrow> mgr_ok m \<and> IDMapGeneration v \<noteq> 0 \<and> DeleteSnapshotGeneration v \<noteq> 0
     \<and> stored (LoadPrimaryKeyMap (primary_path dir v)) (primary_path dir v) (pk_canonical (mgr_primaryKey m)) w
     \<and> stored (LoadDeleteStore (deletes_path dir v)) (deletes_path dir v) (del_canonical (mgr_deletes m)) w
     \<and> PersistedSegments v = map (imm_metadata \<circ> snd) (rev (mgr_immutable m))
     \<and> (\<forall>(i, s) \<in> set (mgr_immutable m). segment_stored dir s w)
     \<and> (\<exists>ws. mgr_writing m = Some ws \<and> writing_named v rel ws)"

lemma AddImmutable_fresh:
  assumes "immutables_wf ((i, s) # mgr_immutable m)" and "mgr_writing m = None"
  shows "SegmentManager_AddImmutable s m = (None, m\<lparr>mgr_immutable := (i, s) # mgr_immutable m\<rparr>)"
proof -
  have i: "ImmutableSegment_ID s = i" using assms(1) immutables_wf_member [of "(i, s) # mgr_immutable m" i s] by simp
  note c = immutables_wf_ConsD [OF assms(1)]
  have "checkRangeAgainstImmutableLocked (imm_metadata s) i m = None"
    using c by (subst checkRangeAgainstImmutable_None) auto
  then have "checkRangeLocked (imm_metadata s) i m = None"
    using assms(2) by (auto simp: checkRangeLocked_def checkRangeAgainstImmutableLocked_def split: if_splits)
  then show ?thesis using i c assms(2) by (simp add: SegmentManager_AddImmutable_def map_of_None_fst)
qed

lemma immutables_wf_appendD: "immutables_wf (xs @ ys) \<Longrightarrow> immutables_wf ys"
  by (auto simp: immutables_wf_def)

lemma open_segments_stored:
  assumes "immutables_wf (rev xs @ mgr_immutable m)" and "mgr_writing m = None" and "reboot w w1"
    and "\<forall>(i, s) \<in> set xs. segment_stored dir s w"
  shows "open_segments dir (map (imm_metadata \<circ> snd) xs) m w1 = (Inr (m\<lparr>mgr_immutable := rev xs @ mgr_immutable m\<rparr>), w1)"
  using assms
proof (induction xs arbitrary: m)
  case (Cons x xs)
  obtain i s where x: "x = (i, s)" by (cases x)
  have wf: "immutables_wf ((i, s) # mgr_immutable m)"
    using Cons.prems(1) x by (simp add: immutables_wf_appendD)
  note a = AddImmutable_fresh [OF wf Cons.prems(2)]
  have st: "segment_stored dir s w" using Cons.prems(4) x by simp
  then have op: "OpenImmutableSegment dir (imm_metadata s) w1 = (Inr s, w1)"
    using stored_reboot [OF _ Cons.prems(3)] by (auto simp: segment_stored_def)
  show ?case
    using Cons.IH [of "m\<lparr>mgr_immutable := (i, s) # mgr_immutable m\<rparr>"] Cons.prems x op a by simp
qed simp

lemma SetWriting_fresh:
  assumes "immutables_wf (mgr_immutable m)" and "writing_wf (mgr_immutable m) ws" and "mgr_writing m = None"
  shows "SegmentManager_SetWriting ws m = (None, m\<lparr>mgr_writing := Some ws\<rparr>)"
  using assms list_reserved_overlap [OF assms(1), of ws]
  by (simp add: SegmentManager_SetWriting_def writing_wf_def map_of_None_fst)

definition mgr_canonical :: "SegmentManager \<Rightarrow> SegmentManager" where
  "mgr_canonical m = m\<lparr>mgr_primaryKey := pk_canonical (mgr_primaryKey m), mgr_deletes := del_canonical (mgr_deletes m)\<rparr>"

lemma mgr_canonical_simps [simp]:
  "mgr_immutable (mgr_canonical m) = mgr_immutable m" "mgr_writing (mgr_canonical m) = mgr_writing m"
  "mgr_primaryKey (mgr_canonical m) = pk_canonical (mgr_primaryKey m)" "mgr_deletes (mgr_canonical m) = del_canonical (mgr_deletes m)"
  by (simp_all add: mgr_canonical_def)

lemma mgr_canonical_sim: "mgr_wf m \<Longrightarrow> mgr_sim m (mgr_canonical m)"
  by (simp add: mgr_sim_def pk_sim_def del_sim_def mgr_wf_def pk_canonical_wf pk_canonical_Get del_canonical_IsDeleted)
    (simp add: del_wf_def del_canonical_def)

lemma pk_canonical_idem: "pk_wf m \<Longrightarrow> pk_canonical (pk_canonical m) = pk_canonical m"
proof -
  assume wf: "pk_wf m"
  have k: "pk_sorted_keys (pk_canonical m) = pk_sorted_keys m"
    by (simp add: pk_sorted_keys_def pk_canonical_def comp_def sorted_sort_id)
  have "the (map_of (entries (pk_canonical m)) k) = the (map_of (entries m) k)" for k
    using pk_canonical_Get [OF wf, of k] by (simp add: PrimaryKeyMap_Get_def)
  then show ?thesis using k by (simp add: pk_canonical_def)
qed

lemma del_canonical_idem: "del_canonical (del_canonical s) = del_canonical s"
  by (simp add: del_canonical_def) (metis mset_rev mset_sort properties_for_sort sorted_sort)

lemma checkpoint_canonical: "checkpoint m rel dir v w \<Longrightarrow> checkpoint (mgr_canonical m) rel dir v w"
proof -
  assume c: "checkpoint m rel dir v w"
  then have ok: "mgr_ok m" by (simp add: checkpoint_def)
  then have "mgr_ok (mgr_canonical m)" using mgr_sim_ok(1) [OF mgr_canonical_sim] mgr_okD(1) by blast
  moreover have "pk_wf (mgr_primaryKey m)" using mgr_okD(1) [OF ok] by (simp add: mgr_wf_def)
  ultimately show ?thesis using c by (simp add: checkpoint_def pk_canonical_idem del_canonical_idem)
qed

lemma open_checkpoint_stored:
  assumes c: "checkpoint m rel dir v w" and r: "reboot w w1" and ws: "mgr_writing m = Some ws" and wm: "WritingSegment v = Some md"
  shows "open_checkpoint dir v md w1 = (Inr (mgr_canonical m), w1)"
proof -
  let ?m = "NewSegmentManager (Some (pk_canonical (mgr_primaryKey m))) (Some (del_canonical (mgr_deletes m)))"
  have wf: "mgr_wf m" using c by (simp add: checkpoint_def mgr_ok_def)
  then have im: "immutables_wf (mgr_immutable m)" "writing_wf (mgr_immutable m) ws" using ws by (auto simp: mgr_wf_def)
  have st: "LoadPrimaryKeyMap (primary_path dir v) w1 = (Inr (pk_canonical (mgr_primaryKey m)), w1)"
    "LoadDeleteStore (deletes_path dir v) w1 = (Inr (del_canonical (mgr_deletes m)), w1)"
    using c stored_reboot [OF _ r] by (auto simp: checkpoint_def)
  have seg: "open_segments dir (PersistedSegments v) ?m w1 = (Inr (?m\<lparr>mgr_immutable := mgr_immutable m\<rparr>), w1)"
    using open_segments_stored [of "rev (mgr_immutable m)" ?m w w1 dir] c im r
    by (simp add: checkpoint_def NewSegmentManager_def)
  have nw: "NewWriteSegment (seg_ID md) (WritingSegmentStartDocID v) (SegmentMaxDocuments v) = Inr ws"
    using c ws wm by (auto simp: checkpoint_def writing_named_def)
  have "SegmentManager_SetWriting ws (?m\<lparr>mgr_immutable := mgr_immutable m\<rparr>) = (None, mgr_canonical m)"
    using SetWriting_fresh [of "?m\<lparr>mgr_immutable := mgr_immutable m\<rparr>" ws] im ws by (simp add: NewSegmentManager_def mgr_canonical_def)
  then show ?thesis using st seg nw by (simp add: open_checkpoint_def)
qed

section \<open>Restart\<close>

text \<open>After a restart the files are crash images of what they were, and what they hold is durable.\<close>

definition restart :: "world \<Rightarrow> world \<Rightarrow> bool" where
  "restart w w1 \<longleftrightarrow> reboot w w1 \<and> paths_complete w1 \<and> (\<forall>p f. fs w1 p = Some f \<longrightarrow> synced f = length (content f))"

lemma restart_whole: "restart w w1 \<Longrightarrow> fs w p = Some (whole c) \<Longrightarrow> fs w1 p = Some (whole c)"
proof -
  assume r: "restart w w1" and f: "fs w p = Some (whole c)"
  obtain f1 where "fs w1 p = Some f1" "content f1 = c" by (rule reboot_whole [OF _ f]) (use r in \<open>auto simp: restart_def\<close>)
  then show ?thesis using r by (auto simp: restart_def)
qed

text \<open>The files that hold their contents for good are still there, outside a set of paths.\<close>

definition keeps :: "string set \<Rightarrow> world \<Rightarrow> world \<Rightarrow> bool" where
  "keeps P w w' \<longleftrightarrow> (\<forall>p c. p \<notin> P \<longrightarrow> fs w p = Some (whole c) \<longrightarrow> fs w' p = Some (whole c))"

lemma keeps_stored: "keeps P w w' \<Longrightarrow> p \<notin> P \<Longrightarrow> stored load p x w \<Longrightarrow> stored load p x w'"
  unfolding keeps_def stored_def by blast

lemma keeps_trans: "keeps P w w1 \<Longrightarrow> keeps P w1 w2 \<Longrightarrow> keeps P w w2"
  by (auto simp: keeps_def)

lemma keeps_mono: "keeps P w w' \<Longrightarrow> P \<subseteq> Q \<Longrightarrow> keeps Q w w'"
  by (auto simp: keeps_def)

lemma grows_keeps: "grows w w' \<Longrightarrow> keeps P w w'"
  by (auto simp: keeps_def grows_def)

lemma touches_keeps: "touches P w w' \<Longrightarrow> keeps P w w'"
  by (auto simp: keeps_def touches_def)

lemma restart_keeps: "restart w w1 \<Longrightarrow> keeps P w w1"
  by (auto simp: keeps_def intro: restart_whole)

definition version_paths :: "string \<Rightarrow> string set" where
  "version_paths dir = {current_path dir} \<union> {p. \<exists>g. p = manifest_path dir g}"

lemma vm_inv_keeps:
  assumes "vm_inv jl m w" and k: "keeps P w w'" and P: "P \<inter> version_paths (vm_dir m) = {}" and "paths_complete w'"
  shows "vm_inv jl m w'"
proof -
  have "current_path (vm_dir m) \<notin> P" "manifest_path (vm_dir m) g \<notin> P" for g using P by (auto simp: version_paths_def)
  then show ?thesis using assms unfolding vm_inv_def on_disk_def keeps_def by blast
qed

definition artifact_paths :: "string \<Rightarrow> string set" where
  "artifact_paths dir = {p. \<exists>g. p = filepath_Join dir (primarySnapshotName g)} \<union> {p. \<exists>g. p = filepath_Join dir (deleteSnapshotName g)}
     \<union> {p. \<exists>i g. p = filepath_Join dir (segmentFileName i g)}"

lemma checkpoint_keeps:
  assumes c: "checkpoint m rel dir v w" and k: "keeps P w w'" and P: "P \<inter> artifact_paths dir = {}"
  shows "checkpoint m rel dir v w'"
proof -
  have free: "filepath_Join dir (primarySnapshotName g) \<notin> P" "filepath_Join dir (deleteSnapshotName g) \<notin> P"
    "filepath_Join dir (segmentFileName i g) \<notin> P" for i g
    using P by (auto simp: artifact_paths_def)
  note st = keeps_stored [OF k]
  have "segment_stored dir s w'" if "segment_stored dir s w" for s
    using that st [OF free(3), where load = "OpenImmutableSegment dir (imm_metadata s)" and x = s]
    unfolding segment_stored_def by blast
  then have "\<forall>(i, s) \<in> set (mgr_immutable m). segment_stored dir s w'" using c by (auto simp: checkpoint_def)
  then show ?thesis using c st [OF free(1), where x = "pk_canonical (mgr_primaryKey m)"]
      st [OF free(2), where x = "del_canonical (mgr_deletes m)"] by (simp add: checkpoint_def)
qed

section \<open>The invariant of a collection\<close>

text \<open>The version on disk names a checkpoint and the log whose replay on it gives the documents in memory.\<close>

definition coll_inv :: "json_lib \<Rightarrow> CollectionStore \<Rightarrow> world \<Rightarrow> bool" where
  "coll_inv jl c w \<longleftrightarrow> vm_inv jl (cs_versions c) w \<and> vm_dir (cs_versions c) = cs_dir c \<and> cs_dir c \<noteq> [] \<and> cs_dir c \<in> set (dirs w)
     \<and> (\<exists>m0 rel ps. checkpoint m0 rel (cs_dir c) (vm_current (cs_versions c)) w
           \<and> eng_inv m0 ps (cs_engine c) w \<and> wal_path (cs_wal c) = filepath_Join (cs_dir c) rel)"

lemma coll_invE:
  assumes "coll_inv jl c w"
  obtains m0 rel ps ws where "checkpoint m0 rel (cs_dir c) (vm_current (cs_versions c)) w" "eng_inv m0 ps (cs_engine c) w"
    "wal_path (cs_wal c) = filepath_Join (cs_dir c) rel" "mgr_writing m0 = Some ws" "writing_named (vm_current (cs_versions c)) rel ws"
  using assms by (auto simp: coll_inv_def checkpoint_def)

lemma vm_inv_valid: "vm_inv jl m w \<Longrightarrow> Manifest_Validate (vm_current m) = None"
  by (auto simp: vm_inv_def on_disk_def dest: UnmarshalManifest_valid(1))

lemma NewWriteSegment_Inr: "NewWriteSegment i d n = Inr ws \<Longrightarrow> ws_id ws = i \<and> ws_minDocID ws = d \<and> ws_maxDocs ws = n \<and> ws_docs ws = [] \<and> n \<noteq> 0"
  by (auto simp: NewWriteSegment_def split: if_splits)

lemma checkpoint_lifecycle:
  assumes c: "checkpoint m rel dir v w"
  shows "validateLifecycleManifest v = None"
proof -
  obtain ws where ws: "mgr_writing m = Some ws" "writing_named v rel ws" using c by (auto simp: checkpoint_def)
  have min: "ws_minDocID ws = WritingSegmentStartDocID v" "SegmentMaxDocuments v \<noteq> 0"
    using ws(2) by (auto simp: writing_named_def dest: NewWriteSegment_Inr)
  have "MaxDocID (imm_metadata s) < WritingSegmentStartDocID v" if "(i, s) \<in> set (mgr_immutable m)" for i s
    using c that ws(1) min by (auto simp: checkpoint_def mgr_ok_def mgr_ordered_def)
  then have "\<not> list_ex (\<lambda>s. 0 < DocCount s \<and> WritingSegmentStartDocID v \<le> MaxDocID s) (PersistedSegments v)"
    using c by (fastforce simp: checkpoint_def list_ex_iff)
  then show ?thesis using c ws(2) min by (auto simp: validateLifecycleManifest_def checkpoint_def writing_named_def)
qed

lemma reboot_file:
  assumes "reboot w w1" and "fs w p = Some f"
  obtains f1 where "fs w1 p = Some f1" "crash_image f (content f1)"
proof -
  have "case fs w p of None \<Rightarrow> fs w1 p = None | Some f \<Rightarrow> \<exists>f1. fs w1 p = Some f1 \<and> crash_image f (content f1)"
    using assms(1) unfolding reboot_def by blast
  then show thesis using assms(2) that by auto
qed

lemma eng_inv_file: "eng_inv m0 ps e w \<Longrightarrow> \<exists>f. fs w (wal_path (eng_wal e)) = Some f"
  by (auto simp: eng_inv_def wal_durable_def)

text \<open>Opening a log whose file is durable leaves a durable file and nothing else changed.\<close>

definition all_durable :: "world \<Rightarrow> bool" where
  "all_durable w \<longleftrightarrow> (\<forall>p f. fs w p = Some f \<longrightarrow> synced f = length (content f))"

lemma scanWAL_loop_calm: "polls w = None \<Longrightarrow> snd (scanWAL_loop c sz off lsn r w) = w"
proof (induction "sz - off" arbitrary: off lsn r rule: less_induct)
  case less
  have ih: "snd (scanWAL_loop c sz (off + (walRecordHeaderSize + n)) lsn' r' w) = w" if "off < sz" for n lsn' r'
    by (rule less.hyps [OF _ less.prems]) (use that in \<open>simp add: walRecordHeaderSize_def\<close>)
  show ?case using less.prems ih by (subst scanWAL_loop.simps) (simp add: Let_def split: sum.split)
qed

lemma scanWAL_calm: "polls w = None \<Longrightarrow> snd (scanWAL c sz w) = w"
  by (auto simp: scanWAL_def scanWAL_loop_calm split: sum.split option.split)

lemma openWAL_durable:
  assumes op: "openWAL name opts ro lock w = (Inr l, w')" and c: "calm w" and d: "all_durable w"
  shows "all_durable w' \<and> dirs w' = dirs w \<and> (paths_complete w \<longrightarrow> paths_complete w')"
proof -
  have q: "polls w = None" "outcomes w = []" using c by (auto simp: calm_def)
  have io: "io_step w = (None, w)" using q by (simp add: io_step_def)
  obtain f where f: "fs w name = Some f" "os_Open name w = (Inr (content f), w)"
    using op q io by (auto simp: openWAL_def os_Open_def split: if_splits sum.splits option.splits)
  obtain r where sc: "scanWAL (content f) (length (content f)) w = (Inr r, w)"
    using op q io f scanWAL_calm [OF q(1), of "content f" "length (content f)"]
    by (auto simp: openWAL_def split: if_splits sum.splits prod.splits)
  show ?thesis
  proof (cases "0 < TruncatedBytes r \<and> \<not> ro")
    case True
    then have "fs w' = (fs w)(name \<mapsto> whole (take (ValidBytes r) (content f)))" "dirs w' = dirs w" "set (paths w) \<subseteq> set (paths w')"
      "name \<in> set (paths w')"
      using op q io f sc by (auto simp: openWAL_def file_Truncate_def file_Sync_def set_file_def io_step_def split: if_splits sum.splits)
    then show ?thesis using d by (auto simp: all_durable_def paths_complete_def)
  next
    case False
    then have "w' = w" using op q io f sc by (auto simp: openWAL_def split: if_splits sum.splits)
    then show ?thesis using d by simp
  qed
qed

text \<open>What recovery finds: the documents in memory, and after a write whose outcome is unknown possibly that
  write too.\<close>

definition recovered_from :: "WriteEngine \<Rightarrow> SegmentManager \<Rightarrow> bool" where
  "recovered_from e m \<longleftrightarrow> mgr_sim (eng_manager e) m
     \<or> wal_poisoned (eng_wal e) \<noteq> None \<and> (\<exists>p m'. replays [p] (eng_manager e) m' \<and> mgr_sim m' m)"

lemma eng_inv_reopened:
  assumes "wal_holds ps l w" "wal_poisoned l = None" "all_durable w" "replays ps m0 m" "mgr_ok m"
  shows "eng_inv m0 ps \<lparr>eng_manager = m, eng_wal = l\<rparr> w"
proof -
  obtain f where f: "fs w (wal_path l) = Some f" "content f = wal_image ps"
    using assms(1,2) by (auto simp: wal_holds_def)
  then have "wal_durable ps l w" using assms(3) by (simp add: wal_durable_def all_durable_def)
  then show ?thesis using assms wal_holds_tail [OF assms(1,2)] by (auto simp: eng_inv_def inflight_def)
qed

lemma engine_reopens:
  assumes inv: "eng_inv m0 ps e w" and r: "restart w w1" and name: "wal_path (eng_wal e) \<noteq> []"
    and short: "length ps + 1 < 2 ^ 64" and sim: "mgr_sim m0 n0"
  obtains l w2 qs n where "OpenWAL (wal_path (eng_wal e)) opts (Inr True) w1 = (Inr l, w2)" "polls w2 = None"
    "replayWriteWAL l n0 w2 = (None, n, w2)" "eng_inv n0 qs \<lparr>eng_manager = n, eng_wal = l\<rparr> w2" "recovered_from e n" "mgr_ok n"
    "wal_path l = wal_path (eng_wal e)" "keeps {wal_path (eng_wal e)} w1 w2" "dirs w2 = dirs w1" "paths_complete w2"
proof -
  obtain f where f: "fs w (wal_path (eng_wal e)) = Some f" using eng_inv_file [OF inv] by blast
  have rb: "reboot w w1" "all_durable w1" "paths_complete w1" using r by (auto simp: restart_def all_durable_def)
  obtain f1 where f1: "fs w1 (wal_path (eng_wal e)) = Some f1" "crash_image f (content f1)" by (rule reboot_file [OF rb(1) f])
  have q: "calm w1" "polls w1 = None" "outcomes w1 = []" using reboot_calmD [OF rb(1)] by (auto simp: calm_def)
  obtain l w2 rs m' where l: "OpenWAL (wal_path (eng_wal e)) opts (Inr True) w1 = (Inr l, w2)"
    "wal_holds (ps @ rs) l w2" "wal_path l = wal_path (eng_wal e)" "wal_poisoned l = None" "polls w2 = None"
    and m': "replays (ps @ rs) m0 m'"
    and re: "\<And>m. replayWriteWAL l m w2 = replay_payloads replay_record 1 (ps @ rs) m w2"
    and fr: "\<And>p. p \<noteq> wal_path (eng_wal e) \<Longrightarrow> fs w2 p = fs w1 p"
    and out: "m' = eng_manager e \<or> wal_poisoned (eng_wal e) \<noteq> None \<and> mgr_ok m' \<and> (\<exists>p. replays [p] (eng_manager e) m')"
    by (rule log_recovery [OF inv f f1(2) name short q(2,3) f1(1) refl, of opts]) (rule that; assumption)
  obtain n where n: "replays (ps @ rs) n0 n" "mgr_sim m' n" using replays_sim [OF m' sim] by blast
  have d: "all_durable w2" "dirs w2 = dirs w1" "paths_complete w2"
    using openWAL_durable [OF l(1) [unfolded OpenWAL_def] q(1) rb(2)] rb(3) by auto
  have ok: "mgr_ok n" using mgr_sim_ok(1) [OF n(2)] out inv by (auto simp: eng_inv_def)
  show thesis
    by (rule that [OF l(1,5) _ eng_inv_reopened [OF l(2,4) d(1) n(1) ok] _ ok l(3) _ d(2,3)])
      (use re n l(5) out fr in \<open>auto simp: replays_def recovered_from_def keeps_def\<close>)
qed

lemma OpenCollection_reopens:
  assumes inv: "coll_inv jl c w" and r: "restart w w1" and short: "wal_lastLSN (cs_wal c) < MaxUint64"
    and opts: "\<not> opt_ReadOnly opts" and lk: "try_collection lk = Inr True" "try_wal lk = Inr True"
  obtains c' w' where "OpenCollection jl lk (cs_dir c) opts w1 = (Inr c', w')" "coll_inv jl c' w'"
    "cs_versions c' = cs_versions c" "cs_dir c' = cs_dir c" "requireWritableLocked c' = None" "recovered_from (cs_engine c) (cs_manager c')"
proof -
  let ?dir = "cs_dir c" and ?v = "vm_current (cs_versions c)"
  obtain m0 rel ps ws where cp: "checkpoint m0 rel ?dir ?v w" and e: "eng_inv m0 ps (cs_engine c) w"
    and path: "wal_path (cs_wal c) = filepath_Join ?dir rel" and ws: "mgr_writing m0 = Some ws" "writing_named ?v rel ws"
    by (rule coll_invE [OF inv])
  have v: "vm_inv jl (cs_versions c) w" "vm_dir (cs_versions c) = ?dir" "?dir \<noteq> []" "?dir \<in> set (dirs w)"
    using inv by (auto simp: coll_inv_def)
  have rb: "reboot w w1" using r by (simp add: restart_def)
  have q: "polls w1 = None" "outcomes w1 = []" "dirs w1 = dirs w" using rb by (auto simp: reboot_def)
  have sd: "os_StatDir ?dir w1 = (Inr True, w1)" using v(4) q by (simp add: os_StatDir_def io_step_def)
  have ov: "OpenVersionManager jl ?dir w1 = (Inr (cs_versions c), w1)"
    using vm_inv_opens [OF v(1) rb] v by simp
  obtain md where md: "WritingSegment ?v = Some md" "Files md = [rel]" using ws(2) by (auto simp: writing_named_def)
  have oc: "open_checkpoint ?dir ?v md w1 = (Inr (mgr_canonical m0), w1)" by (rule open_checkpoint_stored [OF cp rb ws(1) md(1)])
  have sim: "mgr_sim m0 (mgr_canonical m0)" using cp by (intro mgr_canonical_sim) (simp add: checkpoint_def mgr_ok_def)
  have "wal_lastLSN (cs_wal c) = of_nat (length ps)" "length ps < 2 ^ 64" using e wal_holds_lastLSN by (auto simp: eng_inv_def)
  then have len: "length ps + 1 < 2 ^ 64" using short by (simp add: word_less_nat_alt unat_of_nat unat_MaxUint64)
  have ne: "wal_path (cs_wal c) \<noteq> []" using path by simp
  obtain l w2 qs n where l: "OpenWAL (wal_path (cs_wal c)) (opt_WAL opts) (Inr True) w1 = (Inr l, w2)"
    and n: "replayWriteWAL l (mgr_canonical m0) w2 = (None, n, w2)" "eng_inv (mgr_canonical m0) qs \<lparr>eng_manager = n, eng_wal = l\<rparr> w2"
      "recovered_from (cs_engine c) n" "mgr_ok n"
    and w2: "wal_path l = wal_path (cs_wal c)" "keeps {wal_path (cs_wal c)} w1 w2" "dirs w2 = dirs w1" "paths_complete w2"
    by (rule engine_reopens [OF e r ne len sim, of "opt_WAL opts"])
  have "same_segments (mgr_canonical m0) n" using n(2) by (auto simp: eng_inv_def dest: replays_segments)
  then have nw: "mgr_writing n \<noteq> None" by (rule same_segmentsE) (use ws(1) in auto)
  have vs: "validateCollectionState n = None"
    using validateCollectionState_iff [of n] n(4) by (simp add: mgr_ok_def)
  let ?c = "\<lparr>cs_dir = ?dir, cs_readOnly = False, cs_closed = False, cs_versions = cs_versions c,
    cs_engine = \<lparr>eng_manager = n, eng_wal = l\<rparr>\<rparr>"
  have "OpenCollection jl lk ?dir opts w1 = (Inr ?c, w2)"
    using v(3) q sd lk ov checkpoint_lifecycle [OF cp] md oc path l n(1) vs opts nw
    by (simp add: OpenCollection_def open_version_def Let_def NewWriteEngine_def)
  moreover have "coll_inv jl ?c w2"
  proof -
    have g: "\<exists>i g. rel = walFileName i g" using ws(2) by (auto simp: writing_named_def)
    have k: "keeps {wal_path (cs_wal c)} w w2" by (rule keeps_trans [OF restart_keeps [OF r] w2(2)])
    have "checkpoint (mgr_canonical m0) rel ?dir ?v w2"
      by (rule checkpoint_keeps [OF checkpoint_canonical [OF cp] k]) (use g in \<open>auto simp: path artifact_paths_def\<close>)
    moreover have "vm_inv jl (cs_versions c) w2"
      by (rule vm_inv_keeps [OF v(1) k _ w2(4)]) (use g in \<open>auto simp: path v(2) version_paths_def\<close>)
    ultimately show ?thesis using v q(3) w2 n(2) path by (auto simp: coll_inv_def)
  qed
  ultimately show thesis using that [of ?c w2] n(3) by (simp add: requireWritableLocked_def)
qed

end
