(* ===== verification/Collection_Steps.thy ===== *)
theory Collection_Steps
  imports Collection_Recovery
begin

text \<open>
  Steps of an open collection: the rotation of the writing segment in memory, the frames of the operations on the
  files, and that publishing a version that recovery reads alike keeps the invariant.
\<close>

section \<open>Rotation of the writing segment\<close>

text \<open>A segment \<open>imm\<close> with the documents of the writing segment \<open>ws\<close>, and an empty writing segment \<open>nxt\<close>
  that starts after them under an unused ID.\<close>

definition rotation :: "SegmentManager \<Rightarrow> WriteSegment \<Rightarrow> ImmutableSegment \<Rightarrow> WriteSegment \<Rightarrow> bool" where
  "rotation m ws imm nxt \<longleftrightarrow> mgr_ok m \<and> mgr_writing m = Some ws \<and> ws_docs ws \<noteq> []
     \<and> imm_wf imm \<and> imm_docs imm = ws_docs ws \<and> ImmutableSegment_ID imm = ws_id ws \<and> MinDocID (imm_metadata imm) = ws_minDocID ws
     \<and> ws_wf nxt \<and> ws_docs nxt = [] \<and> ws_id nxt \<notin> fst ` set (mgr_immutable m) \<and> ws_id nxt \<noteq> ws_id ws
     \<and> ws_minDocID nxt = doc_DocID (last (ws_docs ws)) + 1 \<and> doc_DocID (last (ws_docs ws)) \<noteq> MaxUint64"

definition rotated :: "WriteSegment \<Rightarrow> ImmutableSegment \<Rightarrow> WriteSegment \<Rightarrow> SegmentManager \<Rightarrow> SegmentManager" where
  "rotated ws imm nxt m = m\<lparr>mgr_immutable := (ws_id ws, imm) # mgr_immutable m, mgr_writing := Some nxt\<rparr>"

lemma rotated_simps [simp]:
  "mgr_immutable (rotated ws imm nxt m) = (ws_id ws, imm) # mgr_immutable m" "mgr_writing (rotated ws imm nxt m) = Some nxt"
  "mgr_primaryKey (rotated ws imm nxt m) = mgr_primaryKey m" "mgr_deletes (rotated ws imm nxt m) = mgr_deletes m"
  by (simp_all add: rotated_def)

lemma rotationD:
  assumes "rotation m ws imm nxt"
  shows "mgr_ok m" "mgr_writing m = Some ws" "imm_wf imm" "imm_docs imm = ws_docs ws" "ws_wf nxt" "ws_docs nxt = []"
    "immutables_wf (mgr_immutable m)" "writing_wf (mgr_immutable m) ws" "ws_wf ws" "ws_id ws \<notin> fst ` set (mgr_immutable m)"
proof -
  show c: "mgr_ok m" "mgr_writing m = Some ws" "imm_wf imm" "imm_docs imm = ws_docs ws" "ws_wf nxt" "ws_docs nxt = []"
    using assms by (simp_all add: rotation_def)
  show w: "immutables_wf (mgr_immutable m)" "writing_wf (mgr_immutable m) ws" using c(1,2) by (auto simp: mgr_ok_def mgr_wf_def)
  show "ws_wf ws" "ws_id ws \<notin> fst ` set (mgr_immutable m)" using w(2) unfolding writing_wf_def by blast+
qed

lemma rotation_bounds:
  assumes r: "rotation m ws imm nxt"
  shows "MaxDocID (imm_metadata imm) = doc_DocID (last (ws_docs ws))" "imm_range imm \<subseteq> ws_range ws"
    "MaxDocID (imm_metadata imm) < ws_minDocID nxt" "ws_minDocID ws \<le> MaxDocID (imm_metadata imm)"
proof -
  have docs: "ws_docs ws \<noteq> []" using r by (simp add: rotation_def)
  have l: "doc_DocID (last (ws_docs ws)) \<in> ws_range ws" "ws_minDocID ws \<le> doc_DocID (last (ws_docs ws))"
    using ws_docs_range [OF rotationD(9) [OF r] last_in_set [OF docs]] by (auto simp: ws_range_def WriteSegment_ReservedRange_def)
  have md: "imm_metadata imm = segmentMetadata (seg_ID (imm_metadata imm)) (ws_docs ws) (Files (imm_metadata imm))"
    using rotationD(3,4) [OF r] unfolding imm_wf_def by metis
  show mx: "MaxDocID (imm_metadata imm) = doc_DocID (last (ws_docs ws))"
    by (subst md) (simp add: segmentMetadata_def docs)
  show "imm_range imm \<subseteq> ws_range ws"
    using l r mx by (auto simp: imm_range_def ws_range_def WriteSegment_ReservedRange_def rotation_def)
  show "MaxDocID (imm_metadata imm) < ws_minDocID nxt"
    using mx r unat_plus_one_u64 [of "doc_DocID (last (ws_docs ws))"] by (simp add: word_less_nat_alt rotation_def)
  show "ws_minDocID ws \<le> MaxDocID (imm_metadata imm)" using l mx by simp
qed

lemma rotated_ordered:
  assumes r: "rotation m ws imm nxt"
  shows "mgr_ordered (rotated ws imm nxt m)"
proof -
  note b = rotation_bounds [OF r]
  have "MaxDocID (imm_metadata s) < ws_minDocID nxt" if "(i, s) \<in> set (mgr_immutable m)" for i s
  proof -
    have "MaxDocID (imm_metadata s) < ws_minDocID ws"
      using rotationD(1,2) [OF r] that by (auto simp: mgr_ok_def mgr_ordered_def)
    then show ?thesis using b(3,4) by order
  qed
  then show ?thesis using b(3) by (auto simp: mgr_ordered_def)
qed

lemma rotation_disjoint:
  assumes r: "rotation m ws imm nxt"
  shows "(i, s) \<in> set ((ws_id ws, imm) # mgr_immutable m) \<Longrightarrow> imm_range s \<inter> ws_range nxt = {}"
    "(i, s) \<in> set (mgr_immutable m) \<Longrightarrow> imm_range imm \<inter> imm_range s = {}"
proof -
  assume "(i, s) \<in> set ((ws_id ws, imm) # mgr_immutable m)"
  then have "MaxDocID (imm_metadata s) < ws_minDocID nxt" using rotated_ordered [OF r] by (auto simp: mgr_ordered_def)
  then show "imm_range s \<inter> ws_range nxt = {}" by (auto simp: imm_range_def ws_range_def WriteSegment_ReservedRange_def)
next
  assume "(i, s) \<in> set (mgr_immutable m)"
  then have "imm_range s \<inter> ws_range ws = {}" using rotationD(8) [OF r] by (simp add: writing_wf_def)
  then show "imm_range imm \<inter> imm_range s = {}" using rotation_bounds(2) [OF r] by blast
qed

lemma rotated_wf:
  assumes r: "rotation m ws imm nxt"
  shows "mgr_wf (rotated ws imm nxt m)"
proof -
  have i: "immutables_wf ((ws_id ws, imm) # mgr_immutable m)"
    by (rule immutables_wf_Cons [OF rotationD(7,3) [OF r] _ rotationD(10) [OF r] rotation_disjoint(2) [OF r]])
      (use r in \<open>simp_all add: rotation_def\<close>)
  have "writing_wf ((ws_id ws, imm) # mgr_immutable m) nxt"
    unfolding writing_wf_def using r rotation_disjoint(1) [OF r] by (auto simp: rotation_def)
  then show ?thesis using i rotationD(1) [OF r] by (simp add: mgr_wf_def mgr_ok_def)
qed

lemma RotateWriting_rotated:
  assumes r: "rotation m ws imm nxt"
  shows "SegmentManager_RotateWriting (ws_id ws) imm nxt m = (None, rotated ws imm nxt m)"
proof -
  have a: "checkRangeAgainstImmutableLocked (imm_metadata imm) (ws_id ws) m = None"
    using checkRangeAgainstImmutable_None [OF rotationD(7,3,10) [OF r]] rotation_disjoint(2) [OF r] by blast
  have b: "\<not> reserved_overlap (WriteSegment_ReservedRange nxt) (imm_metadata imm)"
    using reserved_overlap_iff [OF rotationD(3,5) [OF r]] rotation_disjoint(1) [OF r, of "ws_id ws" imm] by simp
  have d: "\<not> list_ex (\<lambda>(i, s). reserved_overlap (WriteSegment_ReservedRange nxt) (imm_metadata s)) (mgr_immutable m)"
    using list_reserved_overlap [OF rotationD(7,5) [OF r]] rotation_disjoint(1) [OF r] by fastforce
  show ?thesis
    using r rotationD(10) [OF r] a b d
    by (simp add: SegmentManager_RotateWriting_def rotated_def rotation_def map_of_None_fst Let_def)
qed

lemma rotated_docs: "rotation m ws imm nxt \<Longrightarrow> set (mgr_docs (rotated ws imm nxt m)) = set (mgr_docs m)"
  by (auto simp: mgr_docs_def writing_docs_def rotation_def)

lemma rotated_segment_docs:
  assumes r: "rotation m ws imm nxt"
  shows "segment_docs i (rotated ws imm nxt m) = segment_docs i m"
proof -
  have "map_of (mgr_immutable m) (ws_id ws) = None" "map_of (mgr_immutable m) (ws_id nxt) = None"
    using rotationD(10) [OF r] r by (auto simp: map_of_None_fst rotation_def)
  then show ?thesis using r by (auto simp: segment_docs_def rotation_def split: option.splits)
qed

lemma rotation_docs_below:
  assumes r: "rotation m ws imm nxt" and x: "x \<in> set (mgr_docs m)"
  shows "doc_DocID x < ws_minDocID nxt"
proof -
  obtain i s where s: "(i, s) \<in> set ((ws_id ws, imm) # mgr_immutable m)" "x \<in> set (imm_docs s)"
    using x rotationD(2) [OF r] rotationD(4) [OF r, symmetric] by (auto simp: set_mgr_docs writing_docs_def)
  have "imm_wf s" using s(1) rotated_wf [OF r] immutables_wf_member by (fastforce simp: mgr_wf_def)
  then have "doc_DocID x \<le> MaxDocID (imm_metadata s)" using imm_docs_range s(2) by (fastforce simp: imm_range_def)
  also have "\<dots> < ws_minDocID nxt" using rotated_ordered [OF r] s(1) by (auto simp: mgr_ordered_def)
  finally show ?thesis .
qed

lemma rotated_ok:
  assumes r: "rotation m ws imm nxt"
  shows "mgr_ok (rotated ws imm nxt m)"
proof -
  have kn: "mgr_known m" "mgr_indexed m" using rotationD(1) [OF r] by (auto simp: mgr_ok_def)
  then have "\<not> future nxt d" if "DeleteStore_IsDeleted d (mgr_deletes m)" for d
    using that rotation_docs_below [OF r] by (fastforce simp: mgr_known_def future_def word_less_nat_alt)
  then have "mgr_indexed (rotated ws imm nxt m)"
    using kn(2) unfolding mgr_indexed_def rotated_docs [OF r] rotated_segment_docs [OF r] rotated_simps by blast
  moreover have "mgr_known (rotated ws imm nxt m)" using kn(1) by (simp add: mgr_known_def rotated_docs [OF r])
  ultimately show ?thesis using rotated_wf [OF r] rotated_ordered [OF r] by (simp add: mgr_ok_def)
qed

lemma rotated_kv: "rotation m ws imm nxt \<Longrightarrow> mgr_kv (rotated ws imm nxt m) = mgr_kv m"
  by (rule ext, rule option_eq_iff) (simp add: mgr_kv_iff rotationD(1) rotated_ok rotated_docs)

section \<open>Frames\<close>

lemma eng_inv_frame:
  "eng_inv m0 ps e w \<Longrightarrow> fs w' (wal_path (eng_wal e)) = fs w (wal_path (eng_wal e)) \<Longrightarrow> eng_inv m0 ps e w'"
  by (simp add: eng_inv_def wal_holds_def wal_durable_def wal_tail_def)

lemma WAL_Sync_cases:
  assumes "WAL_Sync l w = (r, l', w')"
  shows "wal_path l' = wal_path l" "wal_options l' = wal_options l" "touches {wal_path l} w w'" "r \<noteq> None \<Longrightarrow> l' = l \<and> fs w' = fs w"
proof -
  obtain e0 w0 where c: "ctx_Err w = (e0, w0)" by (cases "ctx_Err w")
  obtain e1 w1 where s: "file_Sync (wal_path l) w0 = (e1, w1)" by (cases "file_Sync (wal_path l) w0")
  note t = ctx_Err_touches [OF c, of "{wal_path l}"] file_Sync_touches [OF s]
  have e1: "e1 \<noteq> None \<Longrightarrow> fs w1 = fs w0" using s io_step_env [of w0 _ w1]
    by (auto simp: file_Sync_def split: prod.splits option.splits)
  show "wal_path l' = wal_path l" "wal_options l' = wal_options l" "r \<noteq> None \<Longrightarrow> l' = l \<and> fs w' = fs w"
    using assms c s e1 ctx_Err_frame [OF c] by (auto simp: WAL_Sync_def split: option.splits if_splits)
  show "touches {wal_path l} w w'"
    using assms c s t touches_trans [OF t] by (auto simp: WAL_Sync_def split: option.splits if_splits)
qed

lemma WAL_Sync_inv:
  assumes inv: "eng_inv m0 ps e w" and s: "WAL_Sync (eng_wal e) w = (r, l, w')"
  shows "eng_inv m0 ps (e\<lparr>eng_wal := l\<rparr>) w'"
proof (cases r)
  case None
  have h: "wal_holds ps (eng_wal e) w" using inv by (simp add: eng_inv_def)
  note d = WAL_Sync_durable [OF h s [unfolded None]]
  then have "wal_tail ps [] l w'" using wal_holds_tail by blast
  then show ?thesis using inv d by (auto simp: eng_inv_def inflight_def)
next
  case (Some x)
  then have "l = eng_wal e" "fs w' = fs w" using WAL_Sync_cases(4) [OF s] by auto
  then show ?thesis using inv eng_inv_frame [OF inv, of w'] by simp
qed

lemma wal_not_artifact: "{filepath_Join dir (walFileName i g)} \<inter> artifact_paths dir = {}"
  by (auto simp: artifact_paths_def)

lemma wal_not_version: "{filepath_Join dir (walFileName i g)} \<inter> version_paths dir = {}"
  by (auto simp: version_paths_def)

lemma current_not_artifact: "{current_path dir} \<inter> artifact_paths dir = {}"
  by (auto simp: artifact_paths_def)

text \<open>A step of the engine that touches only its log keeps the invariant.\<close>

lemma coll_inv_engine:
  assumes inv: "coll_inv jl c w" and t: "touches {wal_path (cs_wal c)} w w'" and p: "wal_path (eng_wal e) = wal_path (cs_wal c)"
    and e: "\<And>m0 ps. eng_inv m0 ps (cs_engine c) w \<Longrightarrow> \<exists>qs. eng_inv m0 qs e w'"
  shows "coll_inv jl (c\<lparr>cs_engine := e\<rparr>) w'"
proof -
  obtain m0 rel ps ws where cp: "checkpoint m0 rel (cs_dir c) (vm_current (cs_versions c)) w"
    and en: "eng_inv m0 ps (cs_engine c) w" and path: "wal_path (cs_wal c) = filepath_Join (cs_dir c) rel"
    and ws: "writing_named (vm_current (cs_versions c)) rel ws"
    by (rule coll_invE [OF inv])
  obtain g where g: "rel = walFileName (ws_id ws) g" using ws by (auto simp: writing_named_def)
  have k: "keeps {filepath_Join (cs_dir c) rel} w w'" using touches_keeps [OF t] path by simp
  have "checkpoint m0 rel (cs_dir c) (vm_current (cs_versions c)) w'"
    by (rule checkpoint_keeps [OF cp k]) (simp add: g wal_not_artifact)
  moreover have "vm_inv jl (cs_versions c) w'"
    by (rule vm_inv_keeps [OF _ k]) (use inv t in \<open>auto simp: coll_inv_def g wal_not_version vm_inv_def touches_def\<close>)
  ultimately show ?thesis using inv e [OF en] t p path by (auto simp: coll_inv_def touches_def)
qed

text \<open>The fields of a version that recovery reads.\<close>

definition lifecycle :: "Manifest \<Rightarrow> u64 \<times> SegmentMetadata list \<times> SegmentMetadata option \<times> u64 \<times> u64 \<times> u64" where
  "lifecycle v = (SegmentMaxDocuments v, PersistedSegments v, WritingSegment v, WritingSegmentStartDocID v,
     IDMapGeneration v, DeleteSnapshotGeneration v)"

lemma lifecycle_prepare [simp]: "lifecycle (prepareManifest v g) = lifecycle v"
  by (simp add: lifecycle_def prepareManifest_def)

lemma checkpoint_lifecycle_cong: "lifecycle v' = lifecycle v \<Longrightarrow> checkpoint m rel dir v' w = checkpoint m rel dir v w"
  by (simp add: lifecycle_def checkpoint_def writing_named_def)

text \<open>Nothing but CURRENT has changed or gone, and the version, old or new, reads alike.\<close>

lemma coll_inv_version:
  assumes inv: "coll_inv jl c w" and v: "vm_inv jl vs w'" "vm_dir vs = cs_dir c"
    and l: "lifecycle (vm_current vs) = lifecycle (vm_current (cs_versions c))" and d: "set (dirs w) \<subseteq> set (dirs w')"
    and k: "\<And>p f. fs w p = Some f \<Longrightarrow> p \<noteq> current_path (cs_dir c) \<Longrightarrow> fs w' p = Some f"
  shows "coll_inv jl (c\<lparr>cs_versions := vs\<rparr>) w'"
proof -
  obtain m0 rel ps ws where cp: "checkpoint m0 rel (cs_dir c) (vm_current (cs_versions c)) w"
    and en: "eng_inv m0 ps (cs_engine c) w" and path: "wal_path (cs_wal c) = filepath_Join (cs_dir c) rel"
    and ws: "writing_named (vm_current (cs_versions c)) rel ws"
    by (rule coll_invE [OF inv])
  obtain g where g: "rel = walFileName (ws_id ws) g" using ws by (auto simp: writing_named_def)
  obtain f where f: "fs w (wal_path (cs_wal c)) = Some f" using eng_inv_file [OF en] by blast
  have "fs w' (wal_path (cs_wal c)) = Some f" by (rule k [OF f]) (simp add: path g)
  then have en': "eng_inv m0 ps (cs_engine c) w'" using eng_inv_frame [OF en, of w'] f by simp
  have kp: "keeps {current_path (cs_dir c)} w w'" using k by (auto simp: keeps_def)
  have "checkpoint m0 rel (cs_dir c) (vm_current (cs_versions c)) w'"
    by (rule checkpoint_keeps [OF cp kp]) (simp add: current_not_artifact)
  then have "checkpoint m0 rel (cs_dir c) (vm_current vs) w'" using checkpoint_lifecycle_cong [OF l] by blast
  then show ?thesis using inv v d en' path by (auto simp: coll_inv_def)
qed

lemma coll_inv_frame:
  assumes inv: "coll_inv jl c w" and v: "vm_inv jl (cs_versions c) w'" and d: "set (dirs w) \<subseteq> set (dirs w')"
    and k: "\<And>p f. fs w p = Some f \<Longrightarrow> p \<noteq> current_path (cs_dir c) \<Longrightarrow> fs w' p = Some f"
  shows "coll_inv jl c w'"
  using coll_inv_version [OF inv v _ refl d k] inv by (simp add: coll_inv_def)

lemma coll_inv_grows:
  assumes inv: "coll_inv jl c w" and g: "grows w w'"
  shows "coll_inv jl c w'"
proof (rule coll_inv_frame [OF inv])
  show "vm_inv jl (cs_versions c) w'"
    by (rule vm_inv_keeps [OF _ grows_keeps [OF g, of "{}"]]) (use inv g in \<open>auto simp: coll_inv_def vm_inv_def grows_def\<close>)
qed (use g in \<open>auto simp: grows_def\<close>)

section \<open>Publishing a version\<close>

lemma publish_next_spec:
  assumes v: "vm_inv jl (cs_versions c) w" and js: "json_stores jl (vm_current (cs_versions c'))"
    and p: "publish_next jl lk v c w = ((committed, err), c', w')"
  shows "vm_inv jl (cs_versions c') w'" "dirs w' = dirs w" "vm_dir (cs_versions c') = vm_dir (cs_versions c)"
    "c' = c\<lparr>cs_versions := cs_versions c'\<rparr>" "\<not> committed \<Longrightarrow> cs_versions c' = cs_versions c"
    "committed \<Longrightarrow> \<exists>g. vm_current (cs_versions c') = prepareManifest v g"
    "\<And>q f. fs w q = Some f \<Longrightarrow> q \<noteq> current_path (vm_dir (cs_versions c)) \<Longrightarrow> fs w' q = Some f"
proof -
  obtain e0 w0 where c0: "ctx_Err w = (e0, w0)" by (cases "ctx_Err w")
  note f0 = ctx_Err_frame [OF c0] ctx_Err_paths [OF c0]
  have v0: "vm_inv jl (cs_versions c) w0" by (rule vm_inv_env [OF v]) (use f0 in auto)
  have "vm_inv jl (cs_versions c') w' \<and> dirs w' = dirs w \<and> vm_dir (cs_versions c') = vm_dir (cs_versions c)
    \<and> c' = c\<lparr>cs_versions := cs_versions c'\<rparr> \<and> (\<not> committed \<longrightarrow> cs_versions c' = cs_versions c)
    \<and> (committed \<longrightarrow> (\<exists>g. vm_current (cs_versions c') = prepareManifest v g))
    \<and> (\<forall>q f. fs w q = Some f \<longrightarrow> q \<noteq> current_path (vm_dir (cs_versions c)) \<longrightarrow> fs w' q = Some f)"
  proof (cases e0)
    case (Some e)
    then show ?thesis using p c0 v0 f0 by (auto simp: publish_next_def VersionManager_Publish_def)
  next
    case None
    obtain answer err' m' w1 where pm: "publishManagerLocked jl (try_version lk) v (cs_versions c) w0 = ((answer, err'), m', w1)"
      by (metis prod_cases4 surj_pair)
    have c': "c' = c\<lparr>cs_versions := m'\<rparr>" "w' = w1"
      "committed \<longleftrightarrow> Generation (vm_current m') \<noteq> Generation (vm_current (cs_versions c))"
      using p c0 None pm by (auto simp: publish_next_def VersionManager_Publish_def)
    note s = publishManagerLocked_stored [OF v0 _ pm]
    have js': "json_stores jl (vm_current m')" using js c' by simp
    show ?thesis
      using s [OF js'] c' f0 publishManagerLocked_files [OF pm] by (auto split: option.splits)
  qed
  then show "vm_inv jl (cs_versions c') w'" "dirs w' = dirs w" "vm_dir (cs_versions c') = vm_dir (cs_versions c)"
    "c' = c\<lparr>cs_versions := cs_versions c'\<rparr>" "\<not> committed \<Longrightarrow> cs_versions c' = cs_versions c"
    "committed \<Longrightarrow> \<exists>g. vm_current (cs_versions c') = prepareManifest v g"
    "\<And>q f. fs w q = Some f \<Longrightarrow> q \<noteq> current_path (vm_dir (cs_versions c)) \<Longrightarrow> fs w' q = Some f" by blast+
qed

lemma publish_next_keeps:
  assumes v: "vm_inv jl (cs_versions c) w" and js: "json_stores jl (vm_current (cs_versions c'))"
    and p: "publish_next jl lk v c w = (r, c', w')"
  shows "keeps {current_path (vm_dir (cs_versions c))} w w'"
proof -
  obtain committed err where r: "r = (committed, err)" by (cases r)
  show ?thesis unfolding keeps_def using publish_next_spec(7) [OF v js p [unfolded r]] by blast
qed

lemma publish_same_lifecycle:
  assumes inv: "coll_inv jl c w" and js: "json_stores jl (vm_current (cs_versions c'))"
    and p: "publish_next jl lk v c w = ((committed, err), c', w')"
    and l: "committed \<Longrightarrow> lifecycle v = lifecycle (vm_current (cs_versions c))"
  shows "coll_inv jl c' w'" "cs_engine c' = cs_engine c"
proof -
  have v: "vm_inv jl (cs_versions c) w" "vm_dir (cs_versions c) = cs_dir c" using inv by (auto simp: coll_inv_def)
  note s = publish_next_spec [OF v(1) js p]
  obtain vs where c': "c' = c\<lparr>cs_versions := vs\<rparr>" by (rule that [OF s(4)])
  then show "cs_engine c' = cs_engine c" by simp
  have lc: "lifecycle (vm_current vs) = lifecycle (vm_current (cs_versions c))"
    using s(5,6) l c' by (cases committed) auto
  show "coll_inv jl c' w'"
    unfolding c' by (rule coll_inv_version [OF inv _ _ lc]) (use s(1-3,7) c' v(2) in auto)
qed

lemma coll_inv_env: "coll_inv jl c w \<Longrightarrow> ctx_Err w = (e, w') \<Longrightarrow> coll_inv jl c w'"
  using coll_inv_grows ctx_Err_grows by blast

lemma PublishSchema_inv:
  assumes inv: "coll_inv jl c w" and js: "json_stores jl (vm_current (cs_versions c'))"
    and p: "CollectionStore_PublishSchema jl lk schema c w = (r, c', w')"
  shows "coll_inv jl c' w' \<and> cs_engine c' = cs_engine c"
proof -
  obtain e0 w0 where c0: "ctx_Err w = (e0, w0)" by (cases "ctx_Err w")
  note i0 = coll_inv_env [OF inv c0]
  have "c' = c \<and> w' = w0 \<or> publish_next jl lk (vm_current (cs_versions c)\<lparr>Schema := schema\<rparr>) c w0 = (r, c', w')"
    using p c0 by (auto simp: CollectionStore_PublishSchema_def Let_def split: option.splits if_splits)
  moreover have "lifecycle (vm_current (cs_versions c)\<lparr>Schema := schema\<rparr>) = lifecycle (vm_current (cs_versions c))"
    by (simp add: lifecycle_def)
  ultimately show ?thesis using i0 publish_same_lifecycle [OF i0 js, of lk _ "fst r" "snd r"] by auto
qed

lemma check_artifacts_grows: "check_artifacts dir as w = (e, w') \<Longrightarrow> grows w w'"
proof (induction as arbitrary: w)
  case (Cons a as)
  obtain r w1 where st: "os_StatDir (filepath_Join dir (art_File a)) w = (r, w1)" by (cases "os_StatDir (filepath_Join dir (art_File a)) w")
  show ?case using Cons.IH [of w1] Cons.prems st grows_trans [OF os_StatDir_grows [OF st]] os_StatDir_grows [OF st]
    by (auto split: sum.splits if_splits)
qed simp

lemma PublishSegmentIndexSnapshots_inv:
  assumes inv: "coll_inv jl c w" and js: "json_stores jl (vm_current (cs_versions c'))"
    and p: "CollectionStore_PublishSegmentIndexSnapshots jl lk snapshots c w = (r, c', w')"
  shows "coll_inv jl c' w' \<and> cs_engine c' = cs_engine c"
proof -
  obtain e0 w0 where c0: "ctx_Err w = (e0, w0)" by (cases "ctx_Err w")
  obtain e1 w1 where c1: "check_artifacts (cs_dir c) (concat (map sis_Artifacts snapshots)) w0 = (e1, w1)"
    by (cases "check_artifacts (cs_dir c) (concat (map sis_Artifacts snapshots)) w0")
  note i0 = coll_inv_env [OF inv c0]
  note i1 = coll_inv_grows [OF i0 check_artifacts_grows [OF c1]]
  have "c' = c \<and> (w' = w0 \<or> w' = w1)
      \<or> publish_next jl lk (vm_current (cs_versions c)\<lparr>SegmentIndexSnapshots := snapshots\<rparr>) c w1 = (r, c', w')"
    using p c0 c1 by (auto simp: CollectionStore_PublishSegmentIndexSnapshots_def Let_def split: option.splits if_splits)
  moreover have "lifecycle (vm_current (cs_versions c)\<lparr>SegmentIndexSnapshots := snapshots\<rparr>) = lifecycle (vm_current (cs_versions c))"
    by (simp add: lifecycle_def)
  ultimately show ?thesis using i0 i1 publish_same_lifecycle [OF i1 js, of lk _ "fst r" "snd r"] by auto
qed

end
