(* ===== verification/Collection_Prune.thy ===== *)
theory Collection_Prune
  imports Collection_Steps
begin

text \<open>
  Pruning: only files that match the patterns of artifacts and that the version does not name are removed, so
  \<open>PruneObsoleteArtifacts\<close> keeps the invariant.
\<close>

lemma Match_last: "filepath_Match pat name \<Longrightarrow> pat \<noteq> [] \<Longrightarrow> last pat \<noteq> CHR ''*'' \<Longrightarrow> name \<noteq> [] \<and> last name = last pat"
proof (induction pat name rule: filepath_Match.induct)
  case (3 p pattern name)
  show ?case
  proof (cases "p = CHR ''*''")
    case True
    then have ne: "pattern \<noteq> []" "last (p # pattern) = last pattern" using "3.prems" by (auto split: if_splits)
    from "3.prems"(1) True consider "filepath_Match pattern name" | c name' where "name = c # name'" "filepath_Match (p # pattern) name'"
      by (subst (asm) filepath_Match.simps(3)) (auto split: list.splits)
    then show ?thesis
    proof cases
      case 1
      then show ?thesis using "3.IH"(1) [OF True 1 ne(1)] "3.prems"(3) ne(2) by simp
    next
      case 2
      then show ?thesis using "3.IH"(2) [OF True 2(1) 2(2)] "3.prems"(3) by simp
    qed
  next
    case False
    then obtain name' where n: "name = p # name'" "filepath_Match pattern name'"
      using "3.prems"(1) by (subst (asm) filepath_Match.simps(3)) (auto split: list.splits)
    show ?thesis
    proof (cases pattern)
      case Nil
      then show ?thesis using n by (cases name') auto
    next
      case (Cons q rest)
      then show ?thesis using "3.IH"(3) [OF False n(1) n(2)] "3.prems"(3) n(1) by simp
    qed
  qed
qed auto

lemma prune_files_touches:
  "prune_files keep cs touched w = (r, w') \<Longrightarrow> touches {n. n \<notin> set keep \<and> n \<in> path_Clean ` set cs} w w'"
proof (induction cs arbitrary: touched w)
  case (Cons name cs)
  let ?P = "{n. n \<notin> set keep \<and> n \<in> path_Clean ` set (name # cs)}"
  obtain e0 w0 where c0: "ctx_Err w = (e0, w0)" by (cases "ctx_Err w")
  obtain x w1 where st: "os_StatDir (path_Clean name) w0 = (x, w1)" by (cases "os_StatDir (path_Clean name) w0")
  obtain e2 w2 where rm: "os_Remove (path_Clean name) w1 = (e2, w2)" by (cases "os_Remove (path_Clean name) w1")
  have t0: "touches ?P w w0" by (rule ctx_Err_touches [OF c0])
  have t1: "touches ?P w0 w1" using st by (auto simp: os_StatDir_def split: prod.splits option.splits if_splits intro: io_step_touches)
  have t2: "path_Clean name \<notin> set keep \<Longrightarrow> touches ?P w1 w2"
    using touches_mono [OF os_Remove_touches [of "path_Clean name" w1], of ?P] rm by simp
  have t01: "touches ?P w w1" by (rule touches_trans [OF t0 t1])
  have ih: "touches ?P v w'" if "prune_files keep cs t v = (r, w')" for t v
    by (rule touches_mono [OF Cons.IH [OF that]]) auto
  have "w' = w0 \<or> w' = w1 \<or> path_Clean name \<notin> set keep \<and> w' = w2
    \<or> (\<exists>t. prune_files keep cs t w0 = (r, w') \<or> prune_files keep cs t w1 = (r, w')
          \<or> path_Clean name \<notin> set keep \<and> prune_files keep cs t w2 = (r, w'))"
    using Cons.prems c0 st rm by (auto simp: Let_def split: if_splits sum.splits option.splits)
  then show ?case using t0 t01 t2 ih touches_trans [OF t0 ih] touches_trans [OF t01 ih]
      touches_trans [OF t01 t2] touches_trans [OF touches_trans [OF t01 t2] ih] by blast
qed simp

definition owned_name :: "string \<Rightarrow> string list \<Rightarrow> string \<Rightarrow> bool" where
  "owned_name d pats n \<longleftrightarrow> (\<exists>name. \<exists>pat \<in> set pats. n = filepath_Join d name \<and> filepath_Match pat name \<and> CHR ''/'' \<notin> set name)"

lemma ownedDirectoryEntries_spec:
  assumes "ownedDirectoryEntries d w = (r, w')"
  shows "grows w w'" "r = Inr es \<Longrightarrow> (name, k) \<in> set es \<Longrightarrow> CHR ''/'' \<notin> set name"
    "r = Inr es \<Longrightarrow> (name, True) \<in> set es \<Longrightarrow> \<exists>p. lies_in d p \<and> name = filepath_Base p"
proof -
  have base: "CHR ''/'' \<notin> set (filepath_Base p)" for p by (auto simp: filepath_Base_def dest: set_takeWhileD)
  obtain x w1 where st: "os_StatDir d w = (x, w1)" by (cases "os_StatDir d w")
  obtain y w2 where rd: "os_ReadEntries d w1 = (y, w2)" by (cases "os_ReadEntries d w1")
  have g: "grows w w1" "grows w1 w2" using os_StatDir_grows [OF st] rd
    by (auto simp: os_ReadEntries_def split: prod.splits option.splits dest: io_step_grows)
  have es: "y = Inr es \<Longrightarrow> (name, k) \<in> set es \<Longrightarrow> \<exists>p. name = filepath_Base p \<and> (k \<longrightarrow> lies_in d p)" for es name k
    using rd by (auto simp: os_ReadEntries_def split: prod.splits option.splits)
  show "grows w w'" using assms st rd g grows_trans [OF g]
    by (auto simp: ownedDirectoryEntries_def split: sum.splits if_splits)
  show "r = Inr es \<Longrightarrow> (name, k) \<in> set es \<Longrightarrow> CHR ''/'' \<notin> set name"
    "r = Inr es \<Longrightarrow> (name, True) \<in> set es \<Longrightarrow> \<exists>p. lies_in d p \<and> name = filepath_Base p"
    using assms st rd es [of es name k] es [of es name True] base
    by (auto simp: ownedDirectoryEntries_def split: sum.splits if_splits)
qed

lemma ownedFiles_spec:
  assumes "ownedFiles d pats w = (r, w')"
  shows "grows w w'" "r = Inr cs \<Longrightarrow> list_all (owned_name d pats) cs"
proof -
  obtain x w1 where x: "ownedDirectoryEntries d w = (x, w1)" by (cases "ownedDirectoryEntries d w")
  note s = ownedDirectoryEntries_spec [OF x]
  show "grows w w'" using assms x s(1) by (auto simp: ownedFiles_def split: sum.splits)
  show "list_all (owned_name d pats) cs" if rc: "r = Inr cs"
  proof -
    obtain es where es: "x = Inr es" using assms x rc by (auto simp: ownedFiles_def split: sum.splits)
    have cs: "cs = map (\<lambda>(name, _). filepath_Join d name) (filter (\<lambda>(name, _). list_ex (\<lambda>pat. filepath_Match pat name) pats) es)"
      using assms x es rc by (simp add: ownedFiles_def)
    show ?thesis unfolding cs using s(2) [OF es] by (fastforce simp: list_all_iff list_ex_iff owned_name_def)
  qed
qed

lemma owned_in_spec:
  "owned_in specs w = (r, w') \<Longrightarrow> grows w w' \<and> (\<forall>cs. r = Inr cs \<longrightarrow> list_all (\<lambda>n. \<exists>(d, pats) \<in> set specs. owned_name d pats n) cs)"
proof (induction specs arbitrary: w r)
  case (Cons spec specs)
  obtain d pats where spec: "spec = (d, pats)" by (cases spec)
  obtain x w1 where x: "ownedFiles d pats w = (x, w1)" by (cases "ownedFiles d pats w")
  note o = ownedFiles_spec [OF x]
  obtain y w2 where y: "owned_in specs w1 = (y, w2)" by (cases "owned_in specs w1")
  note ih = Cons.IH [of w1 y]
  show ?case
  proof (cases "\<exists>ms ns. x = Inr ms \<and> y = Inr ns")
    case True
    then obtain ms ns where n: "x = Inr ms" "y = Inr ns" by blast
    have r: "r = Inr (ms @ ns)" "w' = w2" using Cons.prems spec x y n by auto
    show ?thesis using o(1) o(2) [OF n(1)] ih y n(2) grows_trans unfolding r spec by (auto simp: list_all_iff)
  next
    case False
    then have "(\<exists>e. r = Inl e) \<and> (w' = w1 \<or> w' = w2 \<and> owned_in specs w1 = (y, w'))"
      using Cons.prems spec x y by (auto split: sum.splits)
    then show ?thesis using o(1) ih grows_trans by auto
  qed
qed simp

lemma ordinary_matched: "filepath_Match pat name \<Longrightarrow> last pat \<notin> {CHR ''*'', CHR ''.''} \<Longrightarrow> pat \<noteq> [] \<Longrightarrow> ordinary name"
  using Match_last [of pat name] by (auto simp: ordinary_def)

text \<open>The patterns of the artifacts end in letters that end no name of a version.\<close>

definition artifact_pattern :: "string \<Rightarrow> bool" where
  "artifact_pattern pat \<longleftrightarrow> pat \<noteq> [] \<and> last pat \<in> {CHR ''g'', CHR ''i'', CHR ''k'', CHR ''l'', CHR ''p''}"

lemma last_manifestFileName: "last (manifestFileName g) \<notin> {CHR ''g'', CHR ''i'', CHR ''k'', CHR ''l'', CHR ''p''}"
proof -
  have ne: "decimal20 g \<noteq> []" using decimal20_spec(1) [of g] by (metis list.size(3) zero_neq_numeral)
  then have "last (manifestFileName g) = last (decimal20 g)" by (simp add: manifestFileName_def)
  then have "is_digit (last (manifestFileName g))" using decimal20_spec(2) [of g] ne by (simp add: list_all_iff)
  then show ?thesis by (auto simp: is_digit_def)
qed

lemma owned_not_version:
  assumes o: "owned_name d pats n" and p: "\<forall>pat \<in> set pats. artifact_pattern pat"
  shows "path_Clean n \<notin> version_paths dir"
proof -
  obtain name pat where n: "pat \<in> set pats" "n = filepath_Join d name" "filepath_Match pat name" "CHR ''/'' \<notin> set name"
    using o by (auto simp: owned_name_def)
  have ap: "artifact_pattern pat" using p n(1) by blast
  then have l: "last name = last pat" "ordinary name" using Match_last [OF n(3)] ordinary_matched [OF n(3)] by (auto simp: artifact_pattern_def)
  have cl: "path_Clean n = n" unfolding n(2) filepath_Join_def by (rule path_Clean_idem)
  have "filepath_Base n = name" unfolding n(2) by (rule filepath_Base_Join [OF l(2) n(4)])
  then have b: "filepath_Base (path_Clean n) = name" using cl by simp
  have "name \<noteq> currentFileName" using l(1) ap by (auto simp: currentFileName_def artifact_pattern_def)
  then have "path_Clean n \<noteq> current_path dir" using b filepath_Base_Join [OF currentFileName_simple, of dir] by auto
  moreover have "path_Clean n \<noteq> manifest_path dir g" for g
  proof -
    have "name \<noteq> manifestFileName g" using l(1) ap last_manifestFileName [of g] unfolding artifact_pattern_def by metis
    then show ?thesis using b filepath_Base_Join [OF manifestFileName_simple, of dir g] by auto
  qed
  ultimately show ?thesis by (auto simp: version_paths_def)
qed

lemma filepath_Join_longer:
  assumes "path_Clean d = d" and "d \<noteq> ''.''" and "clean_name r"
  shows "length d < length (filepath_Join d r)"
proof -
  have ne: "d \<noteq> []" using path_Clean_ne [of d] assms(1) by auto
  have d: "d = dir_root d @ join_slash (dir_elements d)"
    using assms(1,2) ne by (simp add: path_Clean_def dir_root_def dir_elements_def Let_def split: if_splits)
  have "length (join_slash xs) < length (join_slash (xs @ split_slash r))" for xs
  proof -
    have "Suc (length (join_slash (xs @ split_slash r))) = weight xs + weight (split_slash r)"
      using length_join_slash [of "xs @ split_slash r"] by simp
    moreover have "1 < weight (split_slash r)" using clean_name_ne [OF assms(3)] by (simp add: weight_split_slash)
    ultimately show ?thesis using length_join_slash [of xs] by (cases "xs = []") auto
  qed
  then have "length (dir_root d @ join_slash (dir_elements d)) < length (filepath_Join d r)"
    by (simp add: filepath_Join_elements [OF assms(3)])
  then show ?thesis using d by simp
qed

lemma path_Clean_dot: "s \<noteq> [] \<Longrightarrow> path_Clean (s @ ''/.'') = path_Clean s"
proof -
  assume ne: "s \<noteq> []"
  have sp: "split_slash (s @ ''/.'') = split_slash s @ [''.'']" using split_slash_glue [of s "''.''"] by (simp add: split_no_slash)
  have "clean_elements r st (xs @ [''.'']) = clean_elements r st xs" for r st xs
    by (induction r st xs rule: clean_elements.induct) (auto split: list.split)
  moreover have "path_IsAbs (s @ ''/.'') = path_IsAbs s" using ne by (cases s) (auto simp: path_IsAbs_def)
  ultimately show ?thesis unfolding path_Clean_def sp by simp
qed

lemma segment_directory_not_root:
  assumes l: "lies_in (filepath_Join dir ''segments'') p"
  shows "p \<noteq> dir" "filepath_Join (filepath_Join dir ''segments'') (filepath_Base p) = p"
proof -
  let ?s = "filepath_Join dir ''segments''" and ?b = "filepath_Base p"
  show p: "filepath_Join ?s ?b = p" using l by (simp add: lies_in_def)
  have ns: "CHR ''/'' \<notin> set ?b" by (auto simp: filepath_Base_def dest: set_takeWhileD)
  have cs: "path_Clean ?s = ?s" unfolding filepath_Join_def by (rule path_Clean_idem)
  have sne: "?s \<noteq> []" by simp
  have "filepath_Join ?s [] = ?s" "filepath_Join ?s ''.'' = ?s"
    using cs sne path_Clean_snoc [OF sne] path_Clean_dot [OF sne] by (simp_all add: filepath_Join_def)
  then have ord: "ordinary ?b" using l by (auto simp: ordinary_def lies_in_def)
  have cl: "clean_name ?b" by (rule simple_clean_name [OF ord ns])
  have seg: "ordinary ''segments''" "CHR ''/'' \<notin> set ''segments''" by (simp_all add: ordinary_def)
  have bs: "filepath_Base ?s = ''segments''" by (rule filepath_Base_Join [OF seg])
  have "?s \<noteq> ''.''" using bs by (auto simp: filepath_Base_def)
  then have a: "length ?s < length p" using filepath_Join_longer [OF cs _ cl] p by simp
  show "p \<noteq> dir"
  proof
    assume d: "p = dir"
    have "path_Clean p = p" using path_Clean_idem p by (metis filepath_Join_def)
    moreover have "p \<noteq> ''.''" using ord by (auto simp: ordinary_def filepath_Base_def)
    ultimately have "length p < length ?s" using filepath_Join_longer [OF _ _ simple_clean_name [OF seg]] d by simp
    then show False using a by simp
  qed
qed

lemma ownedSubdirectories_spec:
  assumes "ownedSubdirectories (filepath_Join dir ''segments'') w = (r, w')"
  shows "grows w w'" "r = Inr ds \<Longrightarrow> dir \<notin> set ds"
proof -
  let ?s = "filepath_Join dir ''segments''"
  obtain x w1 where x: "ownedDirectoryEntries ?s w = (x, w1)" by (cases "ownedDirectoryEntries ?s w")
  note s = ownedDirectoryEntries_spec [OF x]
  show "grows w w'" using assms x s(1) by (auto simp: ownedSubdirectories_def split: sum.splits)
  assume r: "r = Inr ds"
  then obtain es where es: "x = Inr es" "ds = map (\<lambda>(name, _). filepath_Join ?s name) (filter snd es)"
    using assms x by (auto simp: ownedSubdirectories_def split: sum.splits)
  show "dir \<notin> set ds"
  proof
    assume "dir \<in> set ds"
    then obtain name where n: "(name, True) \<in> set es" "dir = filepath_Join ?s name" using es(2) by auto
    obtain p where p: "lies_in ?s p" "name = filepath_Base p" using s(3) [OF es(1) n(1)] by blast
    show False using segment_directory_not_root [OF p(1)] n(2) p(2) by simp
  qed
qed

definition directory_frame :: "string list \<Rightarrow> world \<Rightarrow> world \<Rightarrow> bool" where
  "directory_frame ds w w' \<longleftrightarrow> fs w' = fs w \<and> paths w' = paths w \<and> set (dirs w) - set ds \<subseteq> set (dirs w')"

lemma directory_frame_trans: "directory_frame ds w w1 \<Longrightarrow> directory_frame ds w1 w2 \<Longrightarrow> directory_frame ds w w2"
  by (auto simp: directory_frame_def)

lemma prune_directories_frame: "prune_directories ds removed w = (r, w') \<Longrightarrow> directory_frame ds w w'"
proof (induction ds arbitrary: removed w)
  case Nil
  then show ?case by (simp add: directory_frame_def)
next
  case (Cons d ds)
  have same: "fs w2 = fs w1 \<and> paths w2 = paths w1 \<and> dirs w2 = dirs w1 \<Longrightarrow> directory_frame (d # ds) w1 w2" for w1 w2
    by (simp add: directory_frame_def)
  obtain e0 w0 where c0: "ctx_Err w = (e0, w0)" by (cases "ctx_Err w")
  obtain x w1 where st: "os_StatDir d w0 = (x, w1)" by (cases "os_StatDir d w0")
  obtain e2 w2 where rm: "os_RemoveDir d w1 = (e2, w2)" by (cases "os_RemoveDir d w1")
  have f0: "directory_frame (d # ds) w w0" by (rule same) (use ctx_Err_frame [OF c0] ctx_Err_paths [OF c0] in simp)
  have f1: "directory_frame (d # ds) w0 w1"
    by (rule same) (use st in \<open>auto simp: os_StatDir_def split: prod.splits option.splits if_splits dest!: io_step_env\<close>)
  have f2: "directory_frame (d # ds) w1 w2"
    using rm by (auto simp: os_RemoveDir_def directory_frame_def split: prod.splits option.splits if_splits dest!: io_step_env)
  have ih: "directory_frame (d # ds) v w'" if "prune_directories ds b v = (r, w')" for b v
    using Cons.IH [OF that] by (auto simp: directory_frame_def)
  have "w' = w0 \<or> w' = w1 \<or> (\<exists>b. prune_directories ds b w1 = (r, w') \<or> prune_directories ds b w2 = (r, w'))"
    using Cons.prems c0 st rm by (auto split: option.splits sum.splits if_splits)
  then show ?case using f0 f1 f2 ih by (meson directory_frame_trans)
qed

lemma sync_touched_grows: "sync_touched ds w = (e, w') \<Longrightarrow> grows w w'"
proof (induction ds arbitrary: w)
  case (Cons d ds)
  obtain r w1 where s: "syncDirectory w = (r, w1)" by (cases "syncDirectory w")
  show ?case using Cons.IH [of w1] Cons.prems s syncDirectory_grows [OF s] grows_trans [of w w1]
    by (auto split: option.splits if_splits)
qed simp

text \<open>What pruning leaves alone: the files that the version names, the versions themselves and the
  directory of the collection.\<close>

definition spared :: "string \<Rightarrow> Manifest \<Rightarrow> world \<Rightarrow> world \<Rightarrow> bool" where
  "spared dir v w w' \<longleftrightarrow> (\<forall>p f. p \<in> set (retained dir v) \<union> version_paths dir \<longrightarrow> fs w p = Some f \<longrightarrow> fs w' p = Some f)
     \<and> (paths_complete w \<longrightarrow> paths_complete w') \<and> (dir \<in> set (dirs w) \<longrightarrow> dir \<in> set (dirs w'))"

lemma spared_trans: "spared dir v w w1 \<Longrightarrow> spared dir v w1 w2 \<Longrightarrow> spared dir v w w2"
  unfolding spared_def by blast

lemma grows_spared: "grows w w' \<Longrightarrow> spared dir v w w'"
  by (auto simp: grows_def spared_def)

lemma touches_spared: "touches P w w' \<Longrightarrow> P \<inter> (set (retained dir v) \<union> version_paths dir) = {} \<Longrightarrow> spared dir v w w'"
  unfolding touches_def spared_def by (metis disjoint_iff subsetD)

lemma prune_patterns:
  assumes "(d, pats) \<in> set (map (\<lambda>directory. (directory, [''data-*.seg''])) ds
      @ [(a, [''*.wal.lock'', ''*.wal'']), (b, [''primary-*.snap'', ''delete-*.snap'']), (c, [''*.zvi''])])"
  shows "\<forall>pat \<in> set pats. artifact_pattern pat"
  using assms by (auto simp: artifact_pattern_def)

lemma Prune_spared:
  assumes "CollectionStore_PruneObsoleteArtifacts c w = (r, w')"
  shows "spared (cs_dir c) (vm_current (cs_versions c)) w w'"
proof -
  let ?dir = "cs_dir c" and ?v = "vm_current (cs_versions c)"
  let ?specs = "\<lambda>ds. map (\<lambda>directory. (directory, [''data-*.seg''])) ds
    @ [(filepath_Join ?dir ''wal'', [''*.wal.lock'', ''*.wal'']), (filepath_Join ?dir ''snapshots'', [''primary-*.snap'', ''delete-*.snap'']),
       (filepath_Join ?dir ''indexes'', [''*.zvi''])]"
  obtain e0 w0 where c0: "ctx_Err w = (e0, w0)" by (cases "ctx_Err w")
  obtain x1 w1 where s1: "ownedSubdirectories (filepath_Join ?dir ''segments'') w0 = (x1, w1)"
    by (cases "ownedSubdirectories (filepath_Join ?dir ''segments'') w0")
  have g: "spared ?dir ?v w w0" "spared ?dir ?v w w1"
    using ctx_Err_grows [OF c0] ownedSubdirectories_spec(1) [OF s1] grows_trans grows_spared by blast+
  show ?thesis
  proof (cases "e0 = None \<and> requireWritableLocked c = None \<and> (\<exists>ds. x1 = Inr ds)")
    case False
    then have "w' = w0 \<or> w' = w1" using assms c0 s1
      by (auto simp: CollectionStore_PruneObsoleteArtifacts_def Let_def split: option.splits sum.splits)
    then show ?thesis using g by blast
  next
    case True
    then obtain ds where ds: "x1 = Inr ds" by blast
    obtain x2 w2 where s2: "owned_in (?specs ds) w1 = (x2, w2)" by (cases "owned_in (?specs ds) w1")
    note o = owned_in_spec [OF s2]
    have g2: "spared ?dir ?v w w2" using o grows_spared spared_trans g(2) by blast
    show ?thesis
    proof (cases x2)
      case (Inl e)
      then have "w' = w2" using assms c0 s1 True ds s2 by (simp add: CollectionStore_PruneObsoleteArtifacts_def Let_def)
      then show ?thesis using g2 by simp
    next
      case cs: (Inr cs)
      obtain x3 w3 where s3: "prune_files (retained ?dir ?v) cs [] w2 = (x3, w3)" by (cases "prune_files (retained ?dir ?v) cs [] w2")
      have "path_Clean n \<notin> version_paths ?dir" if n: "n \<in> set cs" for n
      proof -
        note all = o [THEN conjunct2, rule_format, OF cs, unfolded list_all_iff]
        obtain y where y: "y \<in> set (?specs ds)" "case y of (d, pats) \<Rightarrow> owned_name d pats n" using all n by blast
        obtain d pats where dp: "y = (d, pats)" by (cases y)
        show ?thesis using owned_not_version [OF _ prune_patterns [OF y(1) [unfolded dp]]] y(2) dp by simp
      qed
      then have "spared ?dir ?v w2 w3" by (intro touches_spared [OF prune_files_touches [OF s3]]) auto
      then have g3: "spared ?dir ?v w w3" using g2 spared_trans by blast
      obtain e4 w4 where s4: "sync_touched (case x3 of Inl _ \<Rightarrow> [] | Inr t \<Rightarrow> t) w3 = (e4, w4)"
        by (cases "sync_touched (case x3 of Inl _ \<Rightarrow> [] | Inr t \<Rightarrow> t) w3")
      have g4: "spared ?dir ?v w w4" using sync_touched_grows [OF s4] grows_spared g3 spared_trans by blast
      obtain x5 w5 where s5: "prune_directories ds False w4 = (x5, w5)" by (cases "prune_directories ds False w4")
      have "?dir \<notin> set ds" using ownedSubdirectories_spec(2) [OF s1 ds] .
      then have "spared ?dir ?v w4 w5" using prune_directories_frame [OF s5] by (auto simp: directory_frame_def spared_def paths_complete_def)
      then have g5: "spared ?dir ?v w w5" using g4 spared_trans by blast
      obtain e6 w6 where s6: "syncDirectory w5 = (e6, w6)" by (cases "syncDirectory w5")
      have g6: "spared ?dir ?v w w6" using syncDirectory_grows [OF s6] grows_spared g5 spared_trans by blast
      have "w' = w3 \<or> w' = w4 \<or> w' = w5 \<or> w' = w6"
        using assms c0 s1 True ds s2 cs s3 s4 s5 s6
        by (auto simp: CollectionStore_PruneObsoleteArtifacts_def Let_def split: option.splits sum.splits if_splits)
      then show ?thesis using g3 g4 g5 g6 by blast
    qed
  qed
qed

text \<open>The files a version names: those of its segments, its log, its index artifacts and its two snapshots.\<close>

definition named_by :: "string \<Rightarrow> Manifest \<Rightarrow> string \<Rightarrow> bool" where
  "named_by dir v p \<longleftrightarrow> (\<exists>rel. rel \<noteq> [] \<and> p = path_Clean (filepath_Join dir rel)
     \<and> ((\<exists>s \<in> set (PersistedSegments v). rel \<in> set (Files s))
      \<or> (\<exists>s. WritingSegment v = Some s \<and> rel \<in> set (Files s))
      \<or> (\<exists>s \<in> set (SegmentIndexSnapshots v). \<exists>a \<in> set (sis_Artifacts s). rel = art_File a)
      \<or> rel = primarySnapshotName (IDMapGeneration v) \<or> rel = deleteSnapshotName (DeleteSnapshotGeneration v)))"

definition lock_of_log :: "string \<Rightarrow> Manifest \<Rightarrow> string \<Rightarrow> bool" where
  "lock_of_log dir v p \<longleftrightarrow> (\<exists>s rel. WritingSegment v = Some s \<and> rel \<in> set (Files s) \<and> p = path_Clean (filepath_Join dir rel @ ''.lock''))"

lemma retained_iff: "p \<in> set (retained dir v) \<longleftrightarrow> named_by dir v p \<or> lock_of_log dir v p"
proof -
  have k: "p \<in> set (keepRelative dir rel) \<longleftrightarrow> rel \<noteq> [] \<and> p = path_Clean (filepath_Join dir rel)" for rel
    by (simp add: keepRelative_def)
  show ?thesis
    unfolding retained_def named_by_def lock_of_log_def
    by (cases "WritingSegment v") (simp_all add: k del: ex_simps, blast+)
qed

lemma keepRelative_Join: "clean_name rel \<Longrightarrow> keepRelative dir rel = [filepath_Join dir rel]"
  using clean_name_ne [of rel] path_Clean_idem by (simp add: keepRelative_def filepath_Join_def)

lemma retained_named:
  "filepath_Join dir (primarySnapshotName (IDMapGeneration v)) \<in> set (retained dir v)"
  "filepath_Join dir (deleteSnapshotName (DeleteSnapshotGeneration v)) \<in> set (retained dir v)"
  "md \<in> set (PersistedSegments v) \<Longrightarrow> rel \<in> set (Files md) \<Longrightarrow> clean_name rel \<Longrightarrow> filepath_Join dir rel \<in> set (retained dir v)"
  "WritingSegment v = Some md \<Longrightarrow> rel \<in> set (Files md) \<Longrightarrow> clean_name rel \<Longrightarrow> filepath_Join dir rel \<in> set (retained dir v)"
  using keepRelative_Join [of rel dir] by (force simp: retained_def keepRelative_Join)+

lemma spared_stored: "spared dir v w w' \<Longrightarrow> p \<in> set (retained dir v) \<Longrightarrow> stored load p x w \<Longrightarrow> stored load p x w'"
  unfolding spared_def stored_def by blast

lemma Prune_inv:
  assumes inv: "coll_inv jl c w" and p: "CollectionStore_PruneObsoleteArtifacts c w = (r, w')"
  shows "coll_inv jl c w'"
proof -
  let ?dir = "cs_dir c" and ?v = "vm_current (cs_versions c)"
  note s = Prune_spared [OF p] and st = spared_stored [OF Prune_spared [OF p]]
  obtain m0 rel ps ws where cp: "checkpoint m0 rel ?dir ?v w" and en: "eng_inv m0 ps (cs_engine c) w"
    and path: "wal_path (cs_wal c) = filepath_Join ?dir rel" and ws: "writing_named ?v rel ws"
    by (rule coll_invE [OF inv])
  have rel: "filepath_Join ?dir rel \<in> set (retained ?dir ?v)"
    using ws by (auto simp: writing_named_def intro!: retained_named(4))
  obtain f where f: "fs w (filepath_Join ?dir rel) = Some f" using eng_inv_file [OF en] path by auto
  have "fs w' (filepath_Join ?dir rel) = Some f" using s rel f unfolding spared_def by blast
  then have en': "eng_inv m0 ps (cs_engine c) w'" using eng_inv_frame [OF en, of w'] f path by simp
  have "segment_stored ?dir x w'" if x: "(i, x) \<in> set (mgr_immutable m0)" "segment_stored ?dir x w" for i x
  proof -
    obtain g where g: "Files (imm_metadata x) = [segmentFileName (ImmutableSegment_ID x) g]"
      "stored (OpenImmutableSegment ?dir (imm_metadata x)) (filepath_Join ?dir (segmentFileName (ImmutableSegment_ID x) g)) x w"
      using x(2) unfolding segment_stored_def by blast
    have "imm_metadata x \<in> set (PersistedSegments ?v)" using cp x(1) by (force simp: checkpoint_def)
    then have "filepath_Join ?dir (segmentFileName (ImmutableSegment_ID x) g) \<in> set (retained ?dir ?v)"
      by (rule retained_named(3)) (use g(1) in auto)
    then show ?thesis using st [where x = x] g unfolding segment_stored_def by blast
  qed
  then have "checkpoint m0 rel ?dir ?v w'"
    using cp st [OF retained_named(1), where x = "pk_canonical (mgr_primaryKey m0)"]
      st [OF retained_named(2), where x = "del_canonical (mgr_deletes m0)"] by (auto simp: checkpoint_def)
  moreover have "vm_inv jl (cs_versions c) w'"
  proof (rule vm_inv_keeps)
    show "keeps (- version_paths ?dir) w w'" using s unfolding keeps_def spared_def by blast
  qed (use inv s in \<open>auto simp: coll_inv_def vm_inv_def spared_def\<close>)
  ultimately show ?thesis using inv en' path s by (auto simp: coll_inv_def spared_def)
qed

section \<open>Pruning removes the rest\<close>

definition shrinks :: "world \<Rightarrow> world \<Rightarrow> bool" where
  "shrinks w w' \<longleftrightarrow> (\<forall>p. fs w p = None \<longrightarrow> fs w' p = None)"

lemma shrinks_same: "fs w' = fs w \<Longrightarrow> shrinks w w'" by (simp add: shrinks_def)

lemma shrinks_trans: "shrinks w w1 \<Longrightarrow> shrinks w1 w2 \<Longrightarrow> shrinks w w2" by (simp add: shrinks_def)

lemma prune_files_removes:
  "prune_files keep cs touched w = (r, w') \<Longrightarrow> shrinks w w' \<and>
     (\<forall>ts n. r = Inr ts \<longrightarrow> n \<in> set cs \<longrightarrow> path_Clean n \<notin> set keep \<longrightarrow> fs w' (path_Clean n) = None)"
proof (induction cs arbitrary: touched w)
  case Nil
  then show ?case by (simp add: shrinks_def)
next
  case (Cons n cs)
  obtain e0 w0 where c0: "ctx_Err w = (e0, w0)" by (cases "ctx_Err w")
  obtain x w1 where st: "os_StatDir (path_Clean n) w0 = (x, w1)" by (cases "os_StatDir (path_Clean n) w0")
  obtain e2 w2 where rm: "os_Remove (path_Clean n) w1 = (e2, w2)" by (cases "os_Remove (path_Clean n) w1")
  have f: "fs w0 = fs w" using ctx_Err_frame [OF c0] by simp
  have f1: "fs w1 = fs w" using st f by (auto simp: os_StatDir_def split: prod.splits option.splits if_splits dest!: io_step_env)
  have gone1: "fs w (path_Clean n) = None" if "x = Inl e" "errors_Is e OsErrNotExist" for e
    using st that f by (auto simp: os_StatDir_def io_step_def io_error_def split: prod.splits option.splits if_splits list.splits io_outcome.splits)
  have f2: "shrinks w1 w2" using rm by (auto simp: os_Remove_def shrinks_def split: prod.splits option.splits if_splits dest!: io_step_env)
  have gone2: "fs w2 (path_Clean n) = None" if "case e2 of None \<Rightarrow> True | Some e \<Rightarrow> errors_Is e OsErrNotExist"
    using rm that by (auto simp: os_Remove_def io_step_def io_error_def split: prod.splits option.splits if_splits list.splits io_outcome.splits)
  have "e0 \<noteq> None \<and> w' = w0 \<and> (\<exists>e. r = Inl e)
    \<or> path_Clean n \<in> set keep \<and> prune_files keep cs touched w0 = (r, w')
    \<or> fs w (path_Clean n) = None \<and> prune_files keep cs touched w1 = (r, w')
    \<or> w' \<in> {w1, w2} \<and> (\<exists>e. r = Inl e)
    \<or> fs w2 (path_Clean n) = None \<and> (\<exists>ts. prune_files keep cs ts w2 = (r, w'))"
    using Cons.prems c0 st rm gone1 gone2 by (auto simp: Let_def split: option.splits if_splits sum.splits)
  then show ?case
  proof (elim disjE conjE exE)
    fix ts assume g: "fs w2 (path_Clean n) = None" and p: "prune_files keep cs ts w2 = (r, w')"
    have a: "shrinks w2 w'" "\<And>ts n. r = Inr ts \<Longrightarrow> n \<in> set cs \<Longrightarrow> path_Clean n \<notin> set keep \<Longrightarrow> fs w' (path_Clean n) = None"
      using Cons.IH [OF p] by blast+
    have "fs w' (path_Clean n) = None" using a(1) g by (simp add: shrinks_def)
    moreover have "shrinks w w'" by (rule shrinks_trans [OF shrinks_trans [OF shrinks_same f2] a(1)]) (rule f1)
    ultimately show ?thesis using a(2) by auto
  qed (use Cons.IH [of touched w0] Cons.IH [of touched w1] f f1 f2 in \<open>auto simp: shrinks_def\<close>)
qed

lemma os_StatDir_env: "os_StatDir d w = (r, w') \<Longrightarrow> fs w' = fs w \<and> paths w' = paths w \<and> dirs w' = dirs w"
  by (auto simp: os_StatDir_def split: prod.splits option.splits if_splits dest!: io_step_env)

lemma os_ReadEntries_env: "os_ReadEntries d w = (r, w') \<Longrightarrow> fs w' = fs w \<and> paths w' = paths w \<and> dirs w' = dirs w"
  by (auto simp: os_ReadEntries_def split: prod.splits option.splits if_splits dest!: io_step_env)

lemma ownedDirectoryEntries_env:
  "ownedDirectoryEntries d w = (r, w') \<Longrightarrow> fs w' = fs w \<and> paths w' = paths w \<and> dirs w' = dirs w"
  by (auto simp: ownedDirectoryEntries_def split: prod.splits if_splits sum.splits dest!: os_StatDir_env os_ReadEntries_env)

lemma os_ReadEntries_files:
  assumes "os_ReadEntries d w = (Inr es, w')" and "paths_complete w" and "fs w p \<noteq> None" and "lies_in d p"
  shows "(filepath_Base p, False) \<in> set es"
proof -
  obtain e w1 where io: "io_step w = (e, w1)" by (cases "io_step w")
  have "p \<in> set (paths w)" using assms(2,3) by (auto simp: paths_complete_def)
  then show ?thesis using assms io io_step_env [OF io] by (auto simp: os_ReadEntries_def split: option.splits)
qed

lemma ownedDirectoryEntries_files:
  assumes "ownedDirectoryEntries d w = (Inr es, w')" and "d \<in> set (dirs w)" and "paths_complete w" and "fs w p \<noteq> None" and "lies_in d p"
  shows "(filepath_Base p, False) \<in> set es"
proof -
  obtain x w1 where st: "os_StatDir d w = (x, w1)" by (cases "os_StatDir d w")
  note f = os_StatDir_env [OF st]
  have "os_ReadEntries d w1 = (Inr es, w') \<or> (\<exists>e. x = Inl e \<and> errors_Is e OsErrNotExist)"
    using assms(1) st by (auto simp: ownedDirectoryEntries_def split: prod.splits if_splits sum.splits)
  moreover have "\<not> errors_Is e OsErrNotExist" if "x = Inl e" for e
    using st that assms(2) io_step_env [of w]
    by (auto simp: os_StatDir_def io_step_def io_error_def split: prod.splits option.splits if_splits list.splits io_outcome.splits)
  ultimately show ?thesis using os_ReadEntries_files [of d w1 es w' p] assms(3-5) f by (auto simp: paths_complete_def)
qed

lemma ownedFiles_files:
  assumes "ownedFiles d pats w = (Inr cs, w')" and "d \<in> set (dirs w)" and "paths_complete w" and "fs w p \<noteq> None" and "lies_in d p"
    and "pat \<in> set pats" "filepath_Match pat (filepath_Base p)"
  shows "p \<in> set cs"
proof -
  obtain es where es: "ownedDirectoryEntries d w = (Inr es, w')"
    "cs = map (\<lambda>(name, _). filepath_Join d name) (filter (\<lambda>(name, _). list_ex (\<lambda>pattern. filepath_Match pattern name) pats) es)"
    using assms(1) by (auto simp: ownedFiles_def split: prod.splits sum.splits)
  have "(filepath_Base p, False) \<in> set (filter (\<lambda>(name, _). list_ex (\<lambda>pattern. filepath_Match pattern name) pats) es)"
    using ownedDirectoryEntries_files [OF es(1) assms(2-5)] assms(6,7) by (auto simp: list_ex_iff)
  then have "filepath_Join d (filepath_Base p) \<in> set cs" unfolding es(2) by force
  then show ?thesis using assms(5) by (simp add: lies_in_def)
qed

lemma owned_in_files:
  "owned_in specs w = (Inr cs, w') \<Longrightarrow> (d, pats) \<in> set specs \<Longrightarrow> d \<in> set (dirs w) \<Longrightarrow> paths_complete w \<Longrightarrow> fs w p \<noteq> None
    \<Longrightarrow> lies_in d p \<Longrightarrow> pat \<in> set pats \<Longrightarrow> filepath_Match pat (filepath_Base p) \<Longrightarrow> p \<in> set cs"
proof (induction specs arbitrary: cs w)
  case (Cons spec specs)
  obtain d1 pats1 where sp: "spec = (d1, pats1)" by (cases spec)
  obtain ms w1 rest where m: "ownedFiles d1 pats1 w = (Inr ms, w1)" "owned_in specs w1 = (Inr rest, w')" "cs = ms @ rest"
    using Cons.prems(1) sp by (auto split: prod.splits sum.splits)
  have "fs w1 = fs w" "dirs w1 = dirs w" "paths w1 = paths w"
    using m(1) by (auto simp: ownedFiles_def split: prod.splits sum.splits dest!: ownedDirectoryEntries_env)
  then have "paths_complete w1" using Cons.prems(4) by (simp add: paths_complete_def)
  then show ?case using Cons.IH [OF m(2)] Cons.prems ownedFiles_files [OF m(1)] sp m(3) \<open>fs w1 = fs w\<close> \<open>dirs w1 = dirs w\<close> by auto
qed simp

text \<open>The directories other than those of the segments, with the names that are removed there.\<close>

definition pruned_directories :: "string \<Rightarrow> (string \<times> string list) list" where
  "pruned_directories dir = [(filepath_Join dir ''wal'', [''*.wal.lock'', ''*.wal'']),
     (filepath_Join dir ''snapshots'', [''primary-*.snap'', ''delete-*.snap'']), (filepath_Join dir ''indexes'', [''*.zvi''])]"

lemma lies_in_clean: "lies_in d p \<Longrightarrow> path_Clean p = p"
  unfolding lies_in_def filepath_Join_def by (metis path_Clean_idem)

lemma owned_in_env: "owned_in specs w = (r, w') \<Longrightarrow> fs w' = fs w"
  by (induction specs w arbitrary: r rule: owned_in.induct)
    (auto simp: ownedFiles_def split: prod.splits sum.splits dest!: ownedDirectoryEntries_env)

lemma sync_touched_env: "sync_touched ds w = (e, w') \<Longrightarrow> fs w' = fs w"
  by (induction ds w rule: sync_touched.induct)
    (auto simp: syncDirectory_def split: prod.splits option.splits if_splits dest!: io_step_env)

lemma Prune_removes:
  assumes pr: "CollectionStore_PruneObsoleteArtifacts c w = (None, w')" and pc: "paths_complete w"
    and d: "(d, pats) \<in> set (pruned_directories (cs_dir c))" "d \<in> set (dirs w)"
    and p: "lies_in d p" "pat \<in> set pats" "filepath_Match pat (filepath_Base p)"
    and old: "p \<notin> set (retained (cs_dir c) (vm_current (cs_versions c)))"
  shows "fs w' p = None"
proof -
  let ?dir = "cs_dir c" and ?keep = "retained (cs_dir c) (vm_current (cs_versions c))"
  obtain e0 w0 where c0: "ctx_Err w = (e0, w0)" by (cases "ctx_Err w")
  obtain x1 w1 where s1: "ownedSubdirectories (filepath_Join ?dir ''segments'') w0 = (x1, w1)"
    by (cases "ownedSubdirectories (filepath_Join ?dir ''segments'') w0")
  obtain ds where ds: "e0 = None" "x1 = Inr ds" using pr c0 s1
    by (cases e0; cases x1) (auto simp: CollectionStore_PruneObsoleteArtifacts_def Let_def split: option.splits)
  let ?specs = "map (\<lambda>directory. (directory, [''data-*.seg''])) ds @ pruned_directories ?dir"
  obtain x2 w2 where s2: "owned_in ?specs w1 = (x2, w2)" by (cases "owned_in ?specs w1")
  obtain cs where cs: "x2 = Inr cs" using pr c0 s1 ds s2
    by (cases x2) (auto simp: CollectionStore_PruneObsoleteArtifacts_def pruned_directories_def Let_def split: option.splits)
  obtain x3 w3 where s3: "prune_files ?keep cs [] w2 = (x3, w3)" by (cases "prune_files ?keep cs [] w2")
  obtain ts where ts: "x3 = Inr ts" using pr c0 s1 ds s2 cs s3
    by (cases x3) (auto simp: CollectionStore_PruneObsoleteArtifacts_def pruned_directories_def Let_def split: option.splits)
  obtain e4 w4 where s4: "sync_touched ts w3 = (e4, w4)" by (cases "sync_touched ts w3")
  obtain x5 w5 where s5: "prune_directories ds False w4 = (x5, w5)" by (cases "prune_directories ds False w4")
  obtain e6 w6 where s6: "syncDirectory w5 = (e6, w6)" by (cases "syncDirectory w5")
  have w': "w' = w5 \<or> w' = w6" using pr c0 s1 ds s2 cs s3 ts s4 s5 s6
    by (auto simp: CollectionStore_PruneObsoleteArtifacts_def pruned_directories_def Let_def split: option.splits sum.splits if_splits)
  have f1: "fs w1 = fs w" "dirs w1 = dirs w" "paths w1 = paths w"
    using ctx_Err_frame [OF c0] ctx_Err_paths [OF c0] s1
    by (auto simp: ownedSubdirectories_def split: prod.splits sum.splits dest!: ownedDirectoryEntries_env)
  have "fs w3 p = None"
  proof (cases "fs w p = None")
    case True
    have "fs w2 = fs w1" by (rule owned_in_env [OF s2])
    then show ?thesis using prune_files_removes [OF s3] True f1 by (simp add: shrinks_def)
  next
    case False
    have "p \<in> set cs" by (rule owned_in_files [OF s2 [unfolded cs], of d pats p pat]) (use d p False f1 pc in \<open>auto simp: paths_complete_def\<close>)
    then show ?thesis using prune_files_removes [OF s3] lies_in_clean [OF p(1)] old ts by metis
  qed
  moreover have "fs w5 = fs w3" "fs w6 = fs w5"
    using sync_touched_env [OF s4] prune_directories_frame [OF s5] io_step_env [OF s6 [unfolded syncDirectory_def]]
    by (simp_all add: directory_frame_def)
  ultimately show ?thesis using w' by auto
qed

end
