(* ===== verification/Collection_Flush.thy ===== *)
theory Collection_Flush
  imports Collection_Steps
begin

text \<open>
  Flushing a collection: the files a flush writes, what the publication of a new checkpoint makes of the collection
  when it is committed and when it is not, and that \<open>Flush\<close> keeps the invariant and the documents.
\<close>

section \<open>Flushing\<close>

definition new_log :: "string \<Rightarrow> string \<Rightarrow> WAL \<Rightarrow> world \<Rightarrow> world \<Rightarrow> bool" where
  "new_log dir rel l w w' \<longleftrightarrow> wal_holds [] l w' \<and> wal_durable [] l w' \<and> wal_poisoned l = None
     \<and> wal_path l = filepath_Join dir rel \<and> fs w (filepath_Join dir rel) = None"

lemma CreateWAL_new_log:
  assumes "CreateWAL (filepath_Join dir rel) opts lock w1 = (Inr l, w')" and "grows w w1"
  shows "new_log dir rel l w w'"
  using CreateWAL_empty [OF assms(1)] CreateWAL_cases(1) [OF assms(1)] grows_fresh [OF assms(2)] by (simp add: new_log_def)

lemma new_log_start:
  assumes "new_log dir rel l w w1" and "mgr_ok m" and "fs w' (filepath_Join dir rel) = fs w1 (filepath_Join dir rel)"
  shows "eng_inv m [] \<lparr>eng_manager = m, eng_wal = l\<rparr> w'"
proof -
  have "eng_inv m [] \<lparr>eng_manager = m, eng_wal = l\<rparr> w1"
    using assms(1,2) wal_holds_tail [of "[]" l w1] by (auto simp: new_log_def eng_inv_def inflight_def)
  then show ?thesis by (rule eng_inv_frame) (use assms in \<open>simp add: new_log_def\<close>)
qed

lemma create_next_wal_spec:
  assumes "create_next_wal lk dir opts i g w = (r, w')"
  shows "grows w w'" "r = Inr (rel, l) \<Longrightarrow> (\<exists>h. rel = walFileName i h) \<and> new_log dir rel l w w'"
proof -
  obtain a w1 where a: "availableArtifact dir (walFileName i) g w = (a, w1)" by (cases "availableArtifact dir (walFileName i) g w")
  note s = availableArtifact_spec [OF a]
  have "grows w w' \<and> (\<forall>rel l. r = Inr (rel, l) \<longrightarrow> (\<exists>h. rel = walFileName i h) \<and> new_log dir rel l w w')"
  proof (cases a)
    case (Inl e)
    then show ?thesis using assms a s by (auto simp: create_next_wal_def)
  next
    case (Inr rel')
    obtain e2 w2 where d: "ensureDirectorySynced (filepath_Dir (filepath_Join dir rel')) w1 = (e2, w2)"
      by (cases "ensureDirectorySynced (filepath_Dir (filepath_Join dir rel')) w1")
    have g2: "grows w w2" using s grows_trans ensureDirectorySynced_grows [OF d] by blast
    obtain x w3 where cw: "CreateWAL (filepath_Join dir rel') opts (try_wal lk) w2 = (x, w3)"
      by (cases "CreateWAL (filepath_Join dir rel') opts (try_wal lk) w2")
    have g3: "grows w w3" by (rule grows_trans [OF g2 CreateWAL_grows [OF cw]])
    have n: "x = Inr l \<Longrightarrow> new_log dir rel' l w w3" for l using CreateWAL_new_log [OF _ g2] cw by simp
    show ?thesis
      using assms a Inr d cw g2 g3 n s by (auto simp: create_next_wal_def Let_def split: option.splits sum.splits)
  qed
  then show "grows w w'" "r = Inr (rel, l) \<Longrightarrow> (\<exists>h. rel = walFileName i h) \<and> new_log dir rel l w w'" by blast+
qed

lemma new_log_grows: "new_log dir rel l w1 w2 \<Longrightarrow> grows w w1 \<Longrightarrow> new_log dir rel l w w2"
  by (auto simp: new_log_def grows_fresh)

lemma grows_cleanup: "grows w w1 \<Longrightarrow> (\<And>p. p \<in> set names \<Longrightarrow> fs w p = None) \<Longrightarrow> grows w (cleanup names w1)"
  by (rule grows_touches [OF _ cleanup_touches])

text \<open>The snapshots of a manager and a new log, seen from the world before they were written.\<close>

definition snapshots_stored :: "string \<Rightarrow> u64 \<Rightarrow> SegmentManager \<Rightarrow> world \<Rightarrow> bool" where
  "snapshots_stored dir g m w \<longleftrightarrow> g \<noteq> 0
     \<and> stored (LoadPrimaryKeyMap (filepath_Join dir (primarySnapshotName g))) (filepath_Join dir (primarySnapshotName g))
          (pk_canonical (mgr_primaryKey m)) w
     \<and> stored (LoadDeleteStore (filepath_Join dir (deleteSnapshotName g))) (filepath_Join dir (deleteSnapshotName g))
          (del_canonical (mgr_deletes m)) w"

lemma snapshots_stored_grows: "snapshots_stored dir g m w \<Longrightarrow> grows w w' \<Longrightarrow> snapshots_stored dir g m w'"
  by (auto simp: snapshots_stored_def intro: grows_stored)

definition flushed ::
  "CollectionStore \<Rightarrow> Manifest \<Rightarrow> u64 \<times> string \<times> WAL \<times> string list \<Rightarrow> world \<Rightarrow> world \<Rightarrow> bool" where
  "flushed c current x w w' \<longleftrightarrow> (case x of (g, rel, l, created) \<Rightarrow>
     snapshots_stored (cs_dir c) g (cs_manager c) w' \<and> (\<exists>h. rel = walFileName (NextSegmentID current) h)
     \<and> new_log (cs_dir c) rel l w w' \<and> (\<forall>p \<in> set created. fs w p = None))"

definition grows_if_Inr :: "'a result \<Rightarrow> world \<Rightarrow> world \<Rightarrow> bool" where
  "grows_if_Inr r w w' \<longleftrightarrow> (\<forall>x. r = Inr x \<longrightarrow> grows w w')"

lemma flush_snapshots_spec:
  assumes wf: "mgr_wf (cs_manager c)" and g2: "grows w w2" and cr: "\<And>p. p \<in> set created \<Longrightarrow> fs w p = None"
    and f: "flush_snapshots lk c current created w2 = (r, w')"
  shows "grows w w' \<and> grows_if_Inr r w2 w' \<and> (\<forall>x. r = Inr x \<longrightarrow> flushed c current x w w')"
proof -
  let ?dir = "cs_dir c" and ?m = "cs_manager c"
  have keys: "pk_wf (mgr_primaryKey ?m)" "del_wf (mgr_deletes ?m)" using wf by (auto simp: mgr_wf_def)
  obtain h w3 where h: "nextSnapshotGeneration ?dir current w2 = (h, w3)" by (cases "nextSnapshotGeneration ?dir current w2")
  note hs = next_generation_spec [OF h [unfolded nextSnapshotGeneration_def]]
  have g3: "grows w w3" "grows w2 w3" using hs g2 grows_trans by blast+
  show ?thesis
  proof (cases h)
    case (Inl e)
    then show ?thesis using f h grows_cleanup [OF g3(1) cr] by (auto simp: flush_snapshots_def grows_if_Inr_def)
  next
    case hr: (Inr g)
    let ?pp = "filepath_Join ?dir (primarySnapshotName g)" and ?dp = "filepath_Join ?dir (deleteSnapshotName g)"
    have fr: "fs w ?pp = None" "fs w ?dp = None" "g \<noteq> 0" using hs hr grows_fresh [OF g3(1)] by auto
    obtain e4 w4 where p4: "PrimaryKeyMap_WriteSnapshot ?pp (mgr_primaryKey ?m) w3 = (e4, w4)"
      by (cases "PrimaryKeyMap_WriteSnapshot ?pp (mgr_primaryKey ?m) w3")
    note g34 = PrimaryKeyMap_WriteSnapshot_grows [OF p4]
    obtain e5 w5 where p5: "DeleteStore_WriteSnapshot ?dp (mgr_deletes ?m) w4 = (e5, w5)"
      by (cases "DeleteStore_WriteSnapshot ?dp (mgr_deletes ?m) w4")
    note g45 = DeleteStore_WriteSnapshot_grows [OF p5]
    obtain y w6 where p6: "create_next_wal lk ?dir (wal_options (cs_wal c)) (NextSegmentID current) (Generation current + 1) w5 = (y, w6)"
      by (cases "create_next_wal lk ?dir (wal_options (cs_wal c)) (NextSegmentID current) (Generation current + 1) w5")
    note g56 = create_next_wal_spec(1) [OF p6]
    have g: "grows w w4" "grows w w5" "grows w w6" "grows w2 w6" using g3 g34 g45 g56 by (meson grows_trans)+
    have res: "if e4 \<noteq> None then (\<exists>e. r = Inl e) \<and> w' = cleanup created w4
      else if e5 \<noteq> None then (\<exists>e. r = Inl e) \<and> w' = cleanup (created @ [?pp]) w5
      else case y of Inl e \<Rightarrow> r = Inl e \<and> w' = cleanup (created @ [?pp, ?dp]) w6
        | Inr (wrel, l) \<Rightarrow> r = Inr (g, wrel, l, created @ [?pp, ?dp, filepath_Join ?dir wrel]) \<and> w' = w6"
      using f h hr p4 p5 p6 by (auto simp: flush_snapshots_def Let_def split: option.splits sum.splits)
    show ?thesis
    proof (cases "e4 = None \<and> e5 = None \<and> (\<exists>wrel l. y = Inr (wrel, l))")
      case False
      then have "grows w w' \<and> (\<exists>e. r = Inl e)"
        using res grows_cleanup [OF g(1) cr] grows_cleanup [OF g(2), of "created @ [?pp]"]
          grows_cleanup [OF g(3), of "created @ [?pp, ?dp]"] cr fr by (auto split: if_splits sum.splits)
      then show ?thesis by (auto simp: grows_if_Inr_def)
    next
      case True
      then obtain wrel l where y: "y = Inr (wrel, l)" and n: "e4 = None" "e5 = None" by blast
      have r: "r = Inr (g, wrel, l, created @ [?pp, ?dp, filepath_Join ?dir wrel])" "w' = w6" using res y n by auto
      have nl: "\<exists>h. wrel = walFileName (NextSegmentID current) h" "new_log ?dir wrel l w w6"
        using create_next_wal_spec(2) [OF p6 y] new_log_grows [OF _ g(2)] by auto
      have "snapshots_stored ?dir g ?m w6"
        unfolding snapshots_stored_def
        using fr(3) grows_stored [OF grows_trans [OF g45 g56] PrimaryKeyMap_WriteSnapshot_stored [OF keys(1) p4 [unfolded n]]]
          grows_stored [OF g56 DeleteStore_WriteSnapshot_stored [OF keys(2) p5 [unfolded n]]] by blast
      then have "flushed c current (g, wrel, l, created @ [?pp, ?dp, filepath_Join ?dir wrel]) w w6"
        using nl cr fr by (auto simp: flushed_def new_log_def)
      then show ?thesis using r g by (simp add: grows_if_Inr_def)
    qed
  qed
qed

lemma flush_segment:
  assumes wf: "ws_wf writing" and a: "availableArtifact dir (segmentFileName (ws_id writing)) g w = (Inr rel, w1)"
    and s: "WriteSegment_Snapshot dir rel writing w1 = (Inr imm, x, w2)"
  shows "segment_stored dir imm w2" "imm_wf imm" "imm_docs imm = ws_docs writing" "ImmutableSegment_ID imm = ws_id writing"
    "MinDocID (imm_metadata imm) = ws_minDocID writing" "grows w w2" "fs w (filepath_Join dir rel) = None"
proof -
  note sp = availableArtifact_spec [OF a]
  note i = WriteSegment_writeImmutable_Inr [OF wf s [unfolded WriteSegment_Snapshot_def]]
  note st = WriteSegment_writeImmutable_stored [OF wf s [unfolded WriteSegment_Snapshot_def]]
  show "imm_wf imm" "imm_docs imm = ws_docs writing" "ImmutableSegment_ID imm = ws_id writing"
    "MinDocID (imm_metadata imm) = ws_minDocID writing" by (rule i)+
  obtain h where h: "rel = segmentFileName (ws_id writing) h" using sp by blast
  show "segment_stored dir imm w2"
    unfolding segment_stored_def i(3) by (rule exI [where x = h], rule conjI [OF i(4) [unfolded h] st [unfolded h]])
  show "grows w w2" using sp grows_trans WriteSegment_writeImmutable_grows [OF s [unfolded WriteSegment_Snapshot_def]] by blast
  show "fs w (filepath_Join dir rel) = None" by (rule grows_fresh [of w w1]) (use sp in auto)
qed

lemma segment_stored_grows: "segment_stored dir s w \<Longrightarrow> grows w w' \<Longrightarrow> segment_stored dir s w'"
  by (auto simp: segment_stored_def intro: grows_stored)

definition segment_of :: "string \<Rightarrow> WriteSegment \<Rightarrow> ImmutableSegment \<Rightarrow> world \<Rightarrow> bool" where
  "segment_of dir ws imm w \<longleftrightarrow> segment_stored dir imm w \<and> imm_wf imm \<and> imm_docs imm = ws_docs ws
     \<and> ImmutableSegment_ID imm = ws_id ws \<and> MinDocID (imm_metadata imm) = ws_minDocID ws"

lemma segment_of_grows: "segment_of dir ws imm w \<Longrightarrow> grows w w' \<Longrightarrow> segment_of dir ws imm w'"
  by (auto simp: segment_of_def intro: segment_stored_grows)

lemma flush_files_spec:
  assumes wf: "ws_wf writing" "mgr_wf (cs_manager c)" and f: "flush_files lk c writing current w = (r, w')"
  shows "grows w w'" "r = Inr (imm, x) \<Longrightarrow> segment_of (cs_dir c) writing imm w' \<and> flushed c current x w w'"
proof -
  let ?dir = "cs_dir c"
  obtain a w1 where a: "availableArtifact ?dir (segmentFileName (ws_id writing)) (Generation current + 1) w = (a, w1)"
    by (cases "availableArtifact ?dir (segmentFileName (ws_id writing)) (Generation current + 1) w")
  have g1: "grows w w1" using availableArtifact_spec [OF a] by simp
  have "grows w w' \<and> (\<forall>imm x. r = Inr (imm, x) \<longrightarrow> segment_of ?dir writing imm w' \<and> flushed c current x w w')"
  proof (cases a)
    case (Inl e)
    then show ?thesis using f a g1 by (auto simp: flush_files_def)
  next
    case ar: (Inr rel)
    obtain b s w2 where b: "WriteSegment_Snapshot ?dir rel writing w1 = (b, s, w2)" by (cases "WriteSegment_Snapshot ?dir rel writing w1")
    have g2: "grows w w2" using grows_trans [OF g1 WriteSegment_writeImmutable_grows [OF b [unfolded WriteSegment_Snapshot_def]]] .
    show ?thesis
    proof (cases b)
      case (Inl e)
      then show ?thesis using f a ar b g2 by (auto simp: flush_files_def)
    next
      case im: (Inr imm)
      note seg = flush_segment [OF wf(1) a [unfolded ar] b [unfolded im]]
      obtain y w3 where y: "flush_snapshots lk c current [filepath_Join ?dir rel] w2 = (y, w3)"
        by (cases "flush_snapshots lk c current [filepath_Join ?dir rel] w2")
      have cr: "\<And>p. p \<in> set [filepath_Join ?dir rel] \<Longrightarrow> fs w p = None" using seg(7) by simp
      note sp = flush_snapshots_spec [OF wf(2) g2 cr y]
      have so: "segment_of ?dir writing imm w2" using seg by (simp add: segment_of_def)
      show ?thesis using f a ar b im y sp segment_of_grows [OF so]
        by (auto simp: flush_files_def grows_if_Inr_def split: sum.splits)
    qed
  qed
  then show "grows w w'" "r = Inr (imm, x) \<Longrightarrow> segment_of ?dir writing imm w' \<and> flushed c current x w w'" by blast+
qed

text \<open>A version that names a checkpoint just written and an empty log.\<close>

definition new_version :: "u64 \<Rightarrow> u64 \<Rightarrow> string \<Rightarrow> SegmentManager \<Rightarrow> Manifest \<Rightarrow> bool" where
  "new_version cap g rel m v \<longleftrightarrow> (\<exists>ws h. mgr_writing m = Some ws \<and> rel = walFileName (ws_id ws) h
     \<and> NewWriteSegment (ws_id ws) (ws_minDocID ws) cap = Inr ws
     \<and> lifecycle v = (cap, map (imm_metadata \<circ> snd) (rev (mgr_immutable m)),
          Some \<lparr>seg_ID = ws_id ws, MinDocID = 0, MaxDocID = 0, DocCount = 0, Files = [rel]\<rparr>, ws_minDocID ws, g, g))"

lemma new_checkpoint:
  assumes "new_version cap g rel m v" and "mgr_ok m" and "snapshots_stored dir g m w"
    and "\<forall>(i, s) \<in> set (mgr_immutable m). segment_stored dir s w"
  shows "checkpoint m rel dir v w"
  using assms by (auto simp: new_version_def checkpoint_def snapshots_stored_def writing_named_def lifecycle_def)

lemma snapshots_stored_keeps:
  assumes "keeps P w w'" and "P \<inter> artifact_paths dir = {}"
  shows "snapshots_stored dir g m w \<Longrightarrow> snapshots_stored dir g m w'" "segment_stored dir s w \<Longrightarrow> segment_stored dir s w'"
proof -
  have free: "filepath_Join dir (primarySnapshotName g) \<notin> P" "filepath_Join dir (deleteSnapshotName g) \<notin> P"
    "filepath_Join dir (segmentFileName i g) \<notin> P" for i g
    using assms(2) by (auto simp: artifact_paths_def)
  show "snapshots_stored dir g m w \<Longrightarrow> snapshots_stored dir g m w'"
    using keeps_stored [OF assms(1) free(1), where x = "pk_canonical (mgr_primaryKey m)"]
      keeps_stored [OF assms(1) free(2), where x = "del_canonical (mgr_deletes m)"] by (simp add: snapshots_stored_def)
  show "segment_stored dir s w \<Longrightarrow> segment_stored dir s w'"
    using keeps_stored [OF assms(1) free(3), where x = s] unfolding segment_stored_def by blast
qed

text \<open>The commit of a new checkpoint: from \<open>w\<close>, where the collection was, to \<open>w1\<close>, where the files are
  written, the publication, and whatever touches the old log.\<close>

lemma commit_new:
  assumes inv: "coll_inv jl c w" and g: "grows w w1" and js: "json_stores jl (vm_current (cs_versions c1))"
    and pub: "publish_next jl lk v c w1 = ((True, err), c1, w2)" and t: "touches {wal_path (cs_wal c)} w2 w3"
    and nv: "new_version cap gen rel m v" and ok: "mgr_ok m" and sn: "snapshots_stored (cs_dir c) gen m w1"
    and seg: "\<forall>(i, s) \<in> set (mgr_immutable m). segment_stored (cs_dir c) s w1" and nl: "new_log (cs_dir c) rel l w w1"
  shows "coll_inv jl (c1\<lparr>cs_engine := \<lparr>eng_manager = m, eng_wal = l\<rparr>\<rparr>) w3"
proof -
  let ?dir = "cs_dir c"
  have i1: "coll_inv jl c w1" by (rule coll_inv_grows [OF inv g])
  then have v1: "vm_inv jl (cs_versions c) w1" "vm_dir (cs_versions c) = ?dir" "?dir \<noteq> []" "?dir \<in> set (dirs w1)"
    by (auto simp: coll_inv_def)
  note s = publish_next_spec [OF v1(1) js pub]
  obtain vs where c1: "c1 = c\<lparr>cs_versions := vs\<rparr>" by (rule that [OF s(4)])
  obtain old where old: "wal_path (cs_wal c) = filepath_Join ?dir old" "\<exists>i h. old = walFileName i h" "fs w (filepath_Join ?dir old) \<noteq> None"
    by (rule coll_invE [OF inv]) (metis writing_named_def eng_inv_file option.distinct(1) that)
  obtain i h where o: "old = walFileName i h" using old(2) by blast
  have k: "keeps {current_path ?dir} w1 w2" using publish_next_keeps [OF v1(1) js pub] v1(2) by simp
  have k3: "keeps {wal_path (cs_wal c)} w2 w3" by (rule touches_keeps [OF t])
  have a: "{wal_path (cs_wal c)} \<inter> artifact_paths ?dir = {}" by (simp add: old(1) o wal_not_artifact)
  have "snapshots_stored ?dir gen m w3" "\<forall>(i, s) \<in> set (mgr_immutable m). segment_stored ?dir s w3"
    using snapshots_stored_keeps [OF k current_not_artifact] snapshots_stored_keeps [OF k3 a] sn seg by blast+
  moreover have "new_version cap gen rel m (vm_current vs)"
    using s(6) nv c1 by (auto simp: new_version_def)
  ultimately have cp: "checkpoint m rel ?dir (vm_current vs) w3" using new_checkpoint ok by blast
  have new: "filepath_Join ?dir rel \<noteq> wal_path (cs_wal c)" using nl old by (auto simp: new_log_def)
  obtain f where f: "fs w1 (filepath_Join ?dir rel) = Some f" using nl by (auto simp: new_log_def wal_durable_def)
  obtain j h' where rel: "rel = walFileName j h'" using nv by (auto simp: new_version_def)
  have "fs w2 (filepath_Join ?dir rel) = Some f" by (rule s(7) [OF f]) (simp add: rel v1(2))
  then have "fs w3 (filepath_Join ?dir rel) = fs w1 (filepath_Join ?dir rel)" using t new f by (simp add: touches_def)
  then have e: "eng_inv m [] \<lparr>eng_manager = m, eng_wal = l\<rparr> w3" by (rule new_log_start [OF nl ok])
  have "vm_inv jl vs w3"
    by (rule vm_inv_keeps [OF _ k3]) (use s(1,3) c1 v1 t in \<open>auto simp: old(1) o wal_not_version vm_inv_def touches_def\<close>)
  then show ?thesis
    using cp e s(2,3) v1 c1 t nl by (auto simp: coll_inv_def new_log_def touches_def)
qed

lemma vm_inv_touches:
  assumes "vm_inv jl m w" and "touches P w w'" and "current_path (vm_dir m) \<notin> P" and "manifest_path (vm_dir m) (Generation (vm_current m)) \<notin> P"
  shows "vm_inv jl m w'"
  using assms by (auto simp: vm_inv_def on_disk_def touches_def)

lemma commit_failed:
  assumes inv: "coll_inv jl c w" and g: "grows w w1" and js: "json_stores jl (vm_current (cs_versions c1))"
    and pub: "publish_next jl lk v c w1 = ((False, err), c1, w2)" and t: "touches P w2 w3" and P: "\<And>p. p \<in> P \<Longrightarrow> fs w p = None"
  shows "coll_inv jl c1 w3" "c1 = c"
proof -
  have v: "vm_inv jl (cs_versions c) w" "vm_dir (cs_versions c) = cs_dir c" using inv by (auto simp: coll_inv_def)
  have v1: "vm_inv jl (cs_versions c) w1" using coll_inv_grows [OF inv g] by (simp add: coll_inv_def)
  note s = publish_next_spec [OF v1 js pub]
  have same: "cs_versions c1 = cs_versions c" using s(5) by simp
  obtain vs where c1: "c1 = c\<lparr>cs_versions := vs\<rparr>" by (rule that [OF s(4)])
  then show "c1 = c" using same by simp
  then have "vm_inv jl (cs_versions c) w2" using s(1) by simp
  moreover have "current_path (cs_dir c) \<notin> P" "manifest_path (cs_dir c) (Generation (vm_current (cs_versions c))) \<notin> P"
    using v P by (fastforce simp: vm_inv_def on_disk_def)+
  ultimately have "vm_inv jl (cs_versions c) w3" using vm_inv_touches [OF _ t] v(2) by simp
  then have "coll_inv jl c w3"
  proof (rule coll_inv_frame [OF inv])
    show "set (dirs w) \<subseteq> set (dirs w3)" using g t s(2) by (auto simp: grows_def touches_def)
    fix p f assume p: "fs w p = Some f" "p \<noteq> current_path (cs_dir c)"
    then have "p \<notin> P" using P by force
    moreover have "fs w2 p = Some f" by (rule s(7)) (use p g v(2) in \<open>auto simp: grows_def\<close>)
    ultimately show "fs w3 p = Some f" using t by (simp add: touches_def)
  qed
  then show "coll_inv jl c1 w3" using \<open>c1 = c\<close> by simp
qed

lemma coll_inv_manager:
  assumes "coll_inv jl c w"
  obtains ws where "mgr_ok (cs_manager c)" "mgr_writing (cs_manager c) = Some ws"
    "PersistedSegments (vm_current (cs_versions c)) = map (imm_metadata \<circ> snd) (rev (mgr_immutable (cs_manager c)))"
    "\<forall>(i, s) \<in> set (mgr_immutable (cs_manager c)). segment_stored (cs_dir c) s w"
    "ws_id ws < NextSegmentID (vm_current (cs_versions c))"
    "\<And>i. i \<in> fst ` set (mgr_immutable (cs_manager c)) \<Longrightarrow> i < NextSegmentID (vm_current (cs_versions c))"
proof -
  let ?v = "vm_current (cs_versions c)" and ?m = "cs_manager c"
  obtain m0 rel ps ws0 where cp: "checkpoint m0 rel (cs_dir c) ?v w" and en: "eng_inv m0 ps (cs_engine c) w"
    and ws0: "mgr_writing m0 = Some ws0" "writing_named ?v rel ws0"
    by (rule coll_invE [OF assms])
  have ok: "mgr_ok ?m" and sg: "same_segments m0 ?m" using en replays_segments by (auto simp: eng_inv_def)
  obtain ws where ws: "mgr_writing ?m = Some ws" "ws_id ws = ws_id ws0" "mgr_immutable ?m = mgr_immutable m0"
    by (rule same_segmentsE [OF sg ws0(1)])
  have mo: "manifest_ok ?v" using assms vm_inv_valid Manifest_Validate_iff by (auto simp: coll_inv_def)
  have ps: "PersistedSegments ?v = map (imm_metadata \<circ> snd) (rev (mgr_immutable ?m))" using cp ws by (simp add: checkpoint_def)
  have below: "i < NextSegmentID ?v" if "i \<in> fst ` set (mgr_immutable ?m)" for i
  proof -
    obtain s where s: "(i, s) \<in> set (mgr_immutable ?m)" using \<open>i \<in> fst ` set (mgr_immutable ?m)\<close> by auto
    have "ImmutableSegment_ID s = i" using immutables_wf_member [OF _ s] ok by (simp add: mgr_ok_def mgr_wf_def)
    moreover have "imm_metadata s \<in> set (all_segments ?v)" using s ps by (force simp: all_segments_def)
    ultimately show ?thesis using mo by (auto simp: manifest_ok_def list_all_iff ImmutableSegment_ID_def)
  qed
  have "ws_id ws < NextSegmentID ?v"
    using mo ws(2) ws0(2) by (auto simp: manifest_ok_def list_all_iff all_segments_def writing_named_def)
  then show thesis using that ok ws(1) ps cp ws(3) below by (auto simp: checkpoint_def)
qed

lemma flush_rotation:
  assumes inv: "coll_inv jl c w" and ws: "mgr_writing (cs_manager c) = Some writing" "ws_docs writing \<noteq> []"
    and l: "doc_DocID (last (ws_docs writing)) \<noteq> MaxUint64"
    and nx: "NewWriteSegment (NextSegmentID (vm_current (cs_versions c))) (doc_DocID (last (ws_docs writing)) + 1) cap = Inr nxt"
    and so: "segment_of dir writing imm w1"
  shows "rotation (cs_manager c) writing imm nxt"
proof -
  obtain ws' where m: "mgr_ok (cs_manager c)" "mgr_writing (cs_manager c) = Some ws'" "ws_id ws' < NextSegmentID (vm_current (cs_versions c))"
    "\<And>i. i \<in> fst ` set (mgr_immutable (cs_manager c)) \<Longrightarrow> i < NextSegmentID (vm_current (cs_versions c))"
    by (rule coll_inv_manager [OF inv]) (rule that; assumption)
  note n = NewWriteSegment_wf [OF nx]
  show ?thesis using m ws l n so unfolding rotation_def segment_of_def by (metis less_irrefl option.inject)
qed

lemma flush_new_version:
  assumes r: "rotation (cs_manager c) writing imm nxt"
    and ps: "PersistedSegments (vm_current (cs_versions c)) = map (imm_metadata \<circ> snd) (rev (mgr_immutable (cs_manager c)))"
    and nx: "NewWriteSegment (NextSegmentID (vm_current (cs_versions c))) (doc_DocID (last (ws_docs writing)) + 1)
      (SegmentMaxDocuments (vm_current (cs_versions c))) = Inr nxt"
    and rel: "rel = walFileName (NextSegmentID (vm_current (cs_versions c))) h"
  shows "new_version (SegmentMaxDocuments (vm_current (cs_versions c))) g rel (rotated writing imm nxt (cs_manager c))
    (flush_manifest (vm_current (cs_versions c)) imm (doc_DocID (last (ws_docs writing))) g rel)"
  using NewWriteSegment_wf [OF nx] nx ps rel
  by (auto simp: new_version_def lifecycle_def flush_manifest_def)

lemma WAL_Close_touches: "WAL_Close e l w = (errs, l', w') \<Longrightarrow> touches {wal_path l} w w'"
  by (auto simp: WAL_Close_def Let_def split: if_splits prod.splits
      dest!: file_Sync_touches io_step_touches [where P = "{wal_path l}"]) (meson touches_trans)+

lemma flush_commit_inv:
  assumes inv: "coll_inv jl c w" and js: "json_stores jl (vm_current (cs_versions c'))"
    and ws: "mgr_writing (cs_manager c) = Some writing" "ws_docs writing \<noteq> []" "doc_DocID (last (ws_docs writing)) \<noteq> MaxUint64"
    and nx: "NewWriteSegment (NextSegmentID (vm_current (cs_versions c))) (doc_DocID (last (ws_docs writing)) + 1)
      (SegmentMaxDocuments (vm_current (cs_versions c))) = Inr nxt"
    and ff: "flush_files lk c writing (vm_current (cs_versions c)) w = (Inr (imm, g, rel, l, created), w1)"
    and fc: "flush_commit jl lk (flush_manifest (vm_current (cs_versions c)) imm (doc_DocID (last (ws_docs writing))) g rel)
      writing imm nxt l created c w1 = (errs, c', w')"
  shows "coll_inv jl c' w'" "mgr_kv (cs_manager c') = mgr_kv (cs_manager c)"
proof -
  let ?v = "vm_current (cs_versions c)" and ?m = "cs_manager c"
  let ?next = "flush_manifest ?v imm (doc_DocID (last (ws_docs writing))) g rel"
  obtain ws' where m: "mgr_ok ?m" "PersistedSegments ?v = map (imm_metadata \<circ> snd) (rev (mgr_immutable ?m))"
    "\<forall>(i, s) \<in> set (mgr_immutable ?m). segment_stored (cs_dir c) s w"
    by (rule coll_inv_manager [OF inv]) (rule that; assumption)
  have wf: "ws_wf writing" "mgr_wf ?m" using m(1) ws(1) by (auto simp: mgr_ok_def mgr_wf_def writing_wf_def)
  note f = flush_files_spec(1) [OF wf ff] flush_files_spec(2) [OF wf ff refl]
  have r: "rotation ?m writing imm nxt" by (rule flush_rotation [OF inv ws nx]) (use f in blast)
  obtain h where rel: "rel = walFileName (NextSegmentID ?v) h" and nl: "new_log (cs_dir c) rel l w w1"
    and sn: "snapshots_stored (cs_dir c) g ?m w1" and cr: "\<And>p. p \<in> set created \<Longrightarrow> fs w p = None"
    using f(2) by (auto simp: flushed_def)
  obtain committed err c1 w2 where pub: "publish_next jl lk ?next c w1 = ((committed, err), c1, w2)"
    by (metis prod_cases4 surj_pair)
  have c1: "cs_manager c1 = ?m" "cs_wal c1 = cs_wal c" using pub by (auto simp: publish_next_def split: prod.splits)
  have "coll_inv jl c' w' \<and> mgr_kv (cs_manager c') = mgr_kv ?m"
  proof (cases committed)
    case False
    then have c': "c' = c1" "w' = cleanup created (discard_wal lk l w2)" using fc pub by (auto simp: flush_commit_def)
    have pf: "publish_next jl lk ?next c w1 = ((False, err), c1, w2)" using pub False by simp
    have t: "touches (insert (wal_path l) (set created)) w2 w'"
      unfolding c' by (rule touches_trans [OF touches_mono [OF discard_wal_touches] touches_mono [OF cleanup_touches]]) auto
    have "fs w p = None" if "p \<in> insert (wal_path l) (set created)" for p using that cr nl by (auto simp: new_log_def)
    then show ?thesis using commit_failed [OF inv f(1) _ pf t] js c' c1 by blast
  next
    case True
    obtain errs' l' w3 where cl: "WAL_Close (close_wal lk) (cs_wal c1) w2 = (errs', l', w3)"
      by (cases "WAL_Close (close_wal lk) (cs_wal c1) w2")
    have c': "c' = c1\<lparr>cs_engine := \<lparr>eng_manager = rotated writing imm nxt ?m, eng_wal = l\<rparr>\<rparr>" "w' = w3"
      using fc pub True RotateWriting_rotated [OF r] c1 cl by (auto simp: flush_commit_def)
    have "\<forall>(i, s) \<in> set (mgr_immutable (rotated writing imm nxt ?m)). segment_stored (cs_dir c) s w1"
      using m(3) f segment_stored_grows [OF _ f(1)] by (auto simp: segment_of_def)
    moreover have "snapshots_stored (cs_dir c) g (rotated writing imm nxt ?m) w1" using sn by (simp add: snapshots_stored_def)
    moreover have "touches {wal_path (cs_wal c)} w2 w3" using WAL_Close_touches [OF cl] c1 by simp
    moreover have "publish_next jl lk ?next c w1 = ((True, err), c1, w2)" using pub True by simp
    moreover have "json_stores jl (vm_current (cs_versions c1))" using js c' by simp
    ultimately have "coll_inv jl c' w'"
      unfolding c' using commit_new [OF inv f(1) _ _ _ flush_new_version [OF r m(2) nx rel] rotated_ok [OF r] _ _ nl] by blast
    then show ?thesis using c' rotated_kv [OF r] by simp
  qed
  then show "coll_inv jl c' w'" "mgr_kv (cs_manager c') = mgr_kv ?m" by blast+
qed

lemma coll_inv_sync:
  assumes inv: "coll_inv jl c w" and s: "WAL_Sync (cs_wal c) w = (r, l, w')"
  shows "coll_inv jl (c\<lparr>cs_engine := (cs_engine c)\<lparr>eng_wal := l\<rparr>\<rparr>) w'"
proof (rule coll_inv_engine [OF inv WAL_Sync_cases(3) [OF s]])
  show "wal_path (eng_wal ((cs_engine c)\<lparr>eng_wal := l\<rparr>)) = wal_path (cs_wal c)" using WAL_Sync_cases(1) [OF s] by simp
  show "\<exists>qs. eng_inv m0 qs ((cs_engine c)\<lparr>eng_wal := l\<rparr>) w'" if "eng_inv m0 ps (cs_engine c) w" for m0 ps
    using WAL_Sync_inv [OF that s] by blast
qed

lemma Flush_inv:
  assumes inv: "coll_inv jl c w" and js: "json_stores jl (vm_current (cs_versions c'))"
    and fl: "CollectionStore_Flush jl lk c w = (errs, c', w')"
  shows "coll_inv jl c' w'" "mgr_kv (cs_manager c') = mgr_kv (cs_manager c)"
proof -
  obtain e0 w0 where c0: "ctx_Err w = (e0, w0)" by (cases "ctx_Err w")
  note i0 = coll_inv_env [OF inv c0]
  obtain e1 l1 w1 where s: "WAL_Sync (cs_wal c) w0 = (e1, l1, w1)" by (cases "WAL_Sync (cs_wal c) w0")
  define c1 where "c1 = c\<lparr>cs_engine := (cs_engine c)\<lparr>eng_wal := l1\<rparr>\<rparr>"
  have i1: "coll_inv jl c1 w1" unfolding c1_def by (rule coll_inv_sync [OF i0 s])
  have m1: "cs_manager c1 = cs_manager c" by (simp add: c1_def)
  let ?v = "vm_current (cs_versions c1)"
  have "c' = c \<and> w' = w0 \<or> c' = c1 \<and> w' = w1
    \<or> (\<exists>writing nxt r w2. mgr_writing (cs_manager c1) = Some writing \<and> ws_docs writing \<noteq> [] \<and> doc_DocID (last (ws_docs writing)) \<noteq> MaxUint64
      \<and> NewWriteSegment (NextSegmentID ?v) (doc_DocID (last (ws_docs writing)) + 1) (SegmentMaxDocuments ?v) = Inr nxt
      \<and> flush_files lk c1 writing ?v w1 = (r, w2)
      \<and> (case r of Inl e \<Rightarrow> c' = c1 \<and> w' = w2 | Inr (imm, g, rel, l, created) \<Rightarrow>
          flush_commit jl lk (flush_manifest ?v imm (doc_DocID (last (ws_docs writing))) g rel) writing imm nxt l created c1 w2 = (errs, c', w')))"
    using fl c0 s unfolding CollectionStore_Flush_def c1_def WriteSegment_Documents_def
    by (auto simp: Let_def split: option.splits if_splits sum.splits prod.splits)
  then consider "c' = c \<and> w' = w0 \<or> c' = c1 \<and> w' = w1"
    | writing nxt r w2 where "mgr_writing (cs_manager c1) = Some writing" "ws_docs writing \<noteq> []" "doc_DocID (last (ws_docs writing)) \<noteq> MaxUint64"
      "NewWriteSegment (NextSegmentID ?v) (doc_DocID (last (ws_docs writing)) + 1) (SegmentMaxDocuments ?v) = Inr nxt"
      "flush_files lk c1 writing ?v w1 = (r, w2)"
      "case r of Inl e \<Rightarrow> c' = c1 \<and> w' = w2 | Inr (imm, g, rel, l, created) \<Rightarrow>
          flush_commit jl lk (flush_manifest ?v imm (doc_DocID (last (ws_docs writing))) g rel) writing imm nxt l created c1 w2 = (errs, c', w')"
    by blast
  then have "coll_inv jl c' w' \<and> mgr_kv (cs_manager c') = mgr_kv (cs_manager c)"
  proof cases
    case 1
    then show ?thesis using i0 i1 m1 by auto
  next
    case 2
    have wf: "ws_wf writing" "mgr_wf (cs_manager c1)"
      using 2(1) coll_inv_manager [OF i1] by (metis mgr_ok_def mgr_wf_def option.pred_inject(2) writing_wf_def)+
    show ?thesis
    proof (cases r)
      case (Inl e)
      then show ?thesis using 2(6) coll_inv_grows [OF i1 flush_files_spec(1) [OF wf 2(5)]] m1 by simp
    next
      case (Inr x)
      obtain imm g rel l created where x: "x = (imm, g, rel, l, created)" by (metis prod_cases5)
      show ?thesis using flush_commit_inv [OF i1 js 2(1-4)] 2(5,6) Inr x m1 by auto
    qed
  qed
  then show "coll_inv jl c' w'" "mgr_kv (cs_manager c') = mgr_kv (cs_manager c)" by blast+
qed

section \<open>A flush without an error\<close>

lemma install_current_success:
  "install_current dir expected name w = ((n, committed, None), w') \<Longrightarrow> committed"
  by (auto simp: install_current_def split: prod.splits option.splits sum.splits if_splits)

lemma publishLocked_success:
  "publishLocked jl dir expected m w = ((name, committed, None), w') \<Longrightarrow> committed"
  by (auto simp: publishLocked_def Let_def split: prod.splits option.splits sum.splits dest!: install_current_success)

lemma publishManagerLocked_success:
  "publishManagerLocked jl lock v m w = ((answer, None), m', w') \<Longrightarrow> answer \<noteq> None"
  by (auto simp: publishManagerLocked_def Let_def split: prod.splits option.splits sum.splits if_splits dest!: publishLocked_success)

lemma publish_next_success:
  assumes v: "vm_inv jl (cs_versions c) w" and js: "json_stores jl (vm_current (cs_versions c'))"
    and p: "publish_next jl lk v c w = ((committed, None), c', w')"
  shows committed
proof -
  obtain e0 w0 where c0: "ctx_Err w = (e0, w0)" by (cases "ctx_Err w")
  have v0: "vm_inv jl (cs_versions c) w0" by (rule vm_inv_env [OF v]) (use ctx_Err_frame [OF c0] ctx_Err_paths [OF c0] in auto)
  obtain answer err' m' w1 where pm: "publishManagerLocked jl (try_version lk) v (cs_versions c) w0 = ((answer, err'), m', w1)"
    by (metis prod_cases4 surj_pair)
  have e0: "e0 = None" using p c0 by (cases e0) (auto simp: publish_next_def VersionManager_Publish_def)
  then have c': "err' = None" "c' = c\<lparr>cs_versions := m'\<rparr>"
    "committed \<longleftrightarrow> Generation (vm_current m') \<noteq> Generation (vm_current (cs_versions c))"
    using p c0 pm by (auto simp: publish_next_def VersionManager_Publish_def)
  have js': "json_stores jl (vm_current m')" using js c' by simp
  show ?thesis using publishManagerLocked_stored(4) [OF v0 js' pm] publishManagerLocked_success [OF pm [unfolded c'(1)]] c'
    by (auto split: option.splits)
qed

lemma option_list_Nil [simp]: "option_list x = [] \<longleftrightarrow> x = None"
  by (simp add: option_list_def split: option.splits)

lemma flush_commit_done:
  assumes v: "vm_inv jl (cs_versions c) w" and js: "json_stores jl (vm_current (cs_versions c'))"
    and fc: "flush_commit jl lk v writing imm nxt l created c w = ([], c', w')"
  shows "mgr_writing (cs_manager c') = Some nxt"
proof -
  obtain committed err c1 w2 where pub: "publish_next jl lk v c w = ((committed, err), c1, w2)" by (metis prod_cases4 surj_pair)
  have "cs_versions c1 = cs_versions c'" "err = None"
    using fc pub by (auto simp: flush_commit_def split: if_splits prod.splits option.splits)
  then have committed using publish_next_success [OF v] js pub by metis
  then show ?thesis using fc pub
    by (auto simp: flush_commit_def SegmentManager_RotateWriting_def Let_def split: prod.splits option.splits if_splits)
qed

lemma Flush_done:
  assumes inv: "coll_inv jl c w" and js: "json_stores jl (vm_current (cs_versions c'))"
    and fl: "CollectionStore_Flush jl lk c w = ([], c', w')"
  shows "writing_docs (cs_manager c') = []"
proof -
  obtain e0 w0 where c0: "ctx_Err w = (e0, w0)" by (cases "ctx_Err w")
  obtain e1 l1 w1 where s: "WAL_Sync (cs_wal c) w0 = (e1, l1, w1)" by (cases "WAL_Sync (cs_wal c) w0")
  define c1 where "c1 = c\<lparr>cs_engine := (cs_engine c)\<lparr>eng_wal := l1\<rparr>\<rparr>"
  have i1: "coll_inv jl c1 w1" unfolding c1_def by (rule coll_inv_sync [OF coll_inv_env [OF inv c0] s])
  let ?v = "vm_current (cs_versions c1)"
  consider "c' = c1" "writing_docs (cs_manager c1) = []"
    | writing nxt w2 imm g rel l created where "mgr_writing (cs_manager c1) = Some writing" 
      "NewWriteSegment (NextSegmentID ?v) (doc_DocID (last (ws_docs writing)) + 1) (SegmentMaxDocuments ?v) = Inr nxt"
      "flush_files lk c1 writing ?v w1 = (Inr (imm, g, rel, l, created), w2)"
      "flush_commit jl lk (flush_manifest ?v imm (doc_DocID (last (ws_docs writing))) g rel) writing imm nxt l created c1 w2 = ([], c', w')"
    using fl c0 s unfolding CollectionStore_Flush_def c1_def WriteSegment_Documents_def
    by (auto simp: Let_def writing_docs_def split: option.splits if_splits sum.splits prod.splits)
  then show ?thesis
  proof cases
    case 2
    have wf: "ws_wf writing" "mgr_wf (cs_manager c1)"
      using 2(1) coll_inv_manager [OF i1] by (metis mgr_ok_def mgr_wf_def option.pred_inject(2) writing_wf_def)+
    have "coll_inv jl c1 w2" by (rule coll_inv_grows [OF i1 flush_files_spec(1) [OF wf 2(3)]])
    then have "vm_inv jl (cs_versions c1) w2" by (simp add: coll_inv_def)
    then show ?thesis using flush_commit_done [OF _ js 2(4)] NewWriteSegment_Inr [OF 2(2)] by (simp add: writing_docs_def)
  qed simp
qed

end
