(* ===== verification/Collection_Writes.thy ===== *)
theory Collection_Writes
  imports Collection_Steps
begin

text \<open>
  Writes of a collection: the engine touches only its log, so a sequence of settled writes keeps the invariant.
\<close>

section \<open>Writes touch only the log\<close>

lemma WAL_Append_touches:
  assumes "WAL_Append p l w = (r, l', w')"
  shows "touches {wal_path l} w w'" "wal_path l' = wal_path l"
proof -
  have "touches {wal_path l} w w' \<and> wal_path l' = wal_path l"
    using assms unfolding WAL_Append_def
    by (auto simp: Let_def split: prod.splits option.splits if_splits
        dest!: ctx_Err_touches [where P = "{wal_path l}"] file_WriteFullAt_touches file_Sync_touches)
      (meson touches_trans)+
  then show "touches {wal_path l} w w'" "wal_path l' = wal_path l" by blast+
qed

lemma log_operation_touches:
  assumes "log_operation op e w = (r, e', w')"
  shows "touches {wal_path (eng_wal e)} w w'" "wal_path (eng_wal e') = wal_path (eng_wal e)"
proof -
  have "touches {wal_path (eng_wal e)} w w' \<and> wal_path (eng_wal e') = wal_path (eng_wal e)"
    using assms unfolding log_operation_def
    by (auto simp: Let_def split: sum.splits prod.splits option.splits dest: WAL_Append_touches(2) WAL_Sync_cases(1))
      (metis WAL_Append_touches WAL_Sync_cases(1,3) touches_trans)+
  then show "touches {wal_path (eng_wal e)} w w'" "wal_path (eng_wal e') = wal_path (eng_wal e)" by blast+
qed

text \<open>The part of a write after the log runs on the manager, outside cancellation.\<close>

lemma finish_touches:
  assumes "finish e w (apply_it (eng_manager e) (without_cancel w)) = (r, e', w')"
    and "\<And>m w r m' w'. apply_it m w = (r, m', w') \<Longrightarrow> touches P w w'"
  shows "touches P w w'" "eng_wal e' = eng_wal e"
proof -
  obtain r1 m1 w1 where a: "apply_it (eng_manager e) (without_cancel w) = (r1, m1, w1)"
    by (cases "apply_it (eng_manager e) (without_cancel w)")
  show "eng_wal e' = eng_wal e" using assms(1) a by (auto simp: finish_def)
  have "touches P (without_cancel w) w1" by (rule assms(2) [OF a])
  then show "touches P w w'" using assms(1) a by (auto simp: finish_def touches_def without_cancel_def paths_complete_def)
qed

lemma shared_calls_touch:
  "keys_Put k l m w = (r1, m', w') \<Longrightarrow> touches P w w'"
  "keys_Delete k m w = (r2, m', w') \<Longrightarrow> touches P w w'"
  "deletes_MarkDeleted d m w = (r3, m', w') \<Longrightarrow> touches P w w'"
  "writing_AppendExpected d k p m w = (r4, m', w') \<Longrightarrow> touches P w w'"
  by (auto simp: keys_Put_def PrimaryKeyMap_Put_def keys_Delete_def PrimaryKeyMap_Delete_def deletes_MarkDeleted_def
      DeleteStore_MarkDeleted_def writing_AppendExpected_def WriteSegment_AppendExpected_def WriteSegment_append_def Let_def
      split: prod.splits option.splits if_splits intro: ctx_Err_touches)

lemma apply_put_touches: "apply_put k d p prev i m w = (r, m', w') \<Longrightarrow> touches P w w'"
  by (auto simp: apply_put_def split: prod.splits option.splits sum.splits dest!: shared_calls_touch [where P = P])
    (meson touches_trans)+

lemma apply_delete_touches: "apply_delete k l m w = (r, m', w') \<Longrightarrow> touches P w w'"
  by (auto simp: apply_delete_def split: prod.splits option.splits sum.splits if_splits dest!: shared_calls_touch [where P = P])
    (meson touches_trans)+

definition writes_log :: "WriteEngine \<Rightarrow> world \<Rightarrow> 'a \<times> WriteEngine \<times> world \<Rightarrow> bool" where
  "writes_log e w x \<longleftrightarrow> (case x of (_, e', w') \<Rightarrow>
     touches {wal_path (eng_wal e)} w w' \<and> wal_path (eng_wal e') = wal_path (eng_wal e))"

lemma logged_writes_log:
  assumes "\<And>m w r m' w'. apply_it m w = (r, m', w') \<Longrightarrow> touches {wal_path (eng_wal e)} w w'"
  shows "writes_log e w (case log_operation op e w of
      (Some err, e, w) \<Rightarrow> (Inl err, e, w)
    | (None, e, w) \<Rightarrow> finish e w (apply_it (eng_manager e) (without_cancel w)))"
proof -
  obtain r1 e1 w1 where l: "log_operation op e w = (r1, e1, w1)" by (cases "log_operation op e w")
  note t = log_operation_touches [OF l]
  obtain r2 e2 w2 where f: "finish e1 w1 (apply_it (eng_manager e1) (without_cancel w1)) = (r2, e2, w2)"
    by (cases "finish e1 w1 (apply_it (eng_manager e1) (without_cancel w1))")
  note ft = finish_touches [where apply_it = apply_it, OF f assms]
  show ?thesis using l t f ft touches_trans [OF t(1) ft(1)] by (auto simp: writes_log_def split: option.splits)
qed

lemma writes_log_refl [simp]: "writes_log e w (r, e, w)"
  by (simp add: writes_log_def)

lemma one_writes_log:
  "writes_log e w (insertOneLocked i e w)" "writes_log e w (upsertOneLocked i e w)"
  "writes_log e w (updateOneLocked i e w)" "writes_log e w (deleteOneLocked k e w)"
  by (auto simp: insertOneLocked_def upsertOneLocked_def updateOneLocked_def deleteOneLocked_def Let_def
      split: option.split sum.split intro!: logged_writes_log elim: apply_put_touches apply_delete_touches)

lemma engine_step_writes_log:
  "engine_step (e, w) (e', w') \<Longrightarrow> touches {wal_path (eng_wal e)} w w' \<and> wal_path (eng_wal e') = wal_path (eng_wal e)"
proof (induction "(e, w)" "(e', w')" arbitrary: e w e' w' rule: engine_step.induct)
  case (step_call e w n ios)
  then show ?case by (simp add: touches_def paths_complete_def)
qed (use one_writes_log in \<open>fastforce simp: writes_log_def split: prod.splits\<close>)+

lemma engine_steps_write_log:
  "engine_step\<^sup>*\<^sup>* (e, w) (e', w') \<Longrightarrow> touches {wal_path (eng_wal e)} w w' \<and> wal_path (eng_wal e') = wal_path (eng_wal e)"
proof (induction "(e', w')" arbitrary: e' w' rule: rtranclp_induct)
  case base
  then show ?case by simp
next
  case (step y)
  obtain e1 w1 where y: "y = (e1, w1)" by (cases y)
  have i: "touches {wal_path (eng_wal e)} w w1" "wal_path (eng_wal e1) = wal_path (eng_wal e)" using step.hyps(3) [OF y] by auto
  then show ?case using engine_step_writes_log [of e1 w1 e' w'] step.hyps(2) y touches_trans [OF i(1)] by simp
qed

lemma engine_steps_coll_inv:
  assumes inv: "coll_inv jl c w" and st: "engine_step\<^sup>*\<^sup>* (cs_engine c, w) (e', w')"
  shows "coll_inv jl (c\<lparr>cs_engine := e'\<rparr>) w'"
  using engine_steps_write_log [OF st] engine_reachable_inv [OF st] by (intro coll_inv_engine [OF inv]) blast+

text \<open>A batch in which every write succeeds is a sequence of such writes.\<close>

lemma batch_loop_steps:
  assumes one: "\<And>i e w d e' w'. one i e w = (Inr d, e', w') \<Longrightarrow> engine_step (e, w) (e', w')"
  shows "batch_loop key_of one inputs e w = (results, e', w') \<Longrightarrow> list_all (\<lambda>r. wr_Err r = None) results
    \<Longrightarrow> engine_step\<^sup>*\<^sup>* (e, w) (e', w')"
proof (induction inputs arbitrary: e w results)
  case (Cons i inputs)
  obtain err w1 where c: "ctx_Err w = (err, w1)" by (cases "ctx_Err w")
  have env: "engine_step (e, w) (e, w1)"
  proof -
    have "w1 = w\<lparr>polls := polls w1, outcomes := outcomes w\<rparr>" using c by (auto simp: ctx_Err_def split: option.splits nat.splits)
    then show ?thesis by (metis step_call)
  qed
  obtain r e1 w2 where o: "one i e w1 = (r, e1, w2)" by (cases "one i e w1")
  obtain rs e2 w3 where b: "batch_loop key_of one inputs e1 w2 = (rs, e2, w3)" by (cases "batch_loop key_of one inputs e1 w2")
  have ok: "err = None" using Cons.prems c by (cases err) auto
  then have "\<exists>d. r = Inr d" "list_all (\<lambda>r. wr_Err r = None) rs" "e2 = e'" "w3 = w'"
    using Cons.prems c o b by (auto simp: Let_def split: sum.splits)
  moreover from this have "engine_step (e, w1) (e1, w2)" using one o by blast
  ultimately show ?case using Cons.IH [of e1 w2 rs] b env by (meson converse_rtranclp_into_rtranclp)
qed simp

lemma success_steps:
  "insertOneLocked i e w = (Inr d, e', w') \<Longrightarrow> engine_step (e, w) (e', w')"
  "upsertOneLocked i e w = (Inr d, e', w') \<Longrightarrow> engine_step (e, w) (e', w')"
  "updateOneLocked i e w = (Inr d, e', w') \<Longrightarrow> engine_step (e, w) (e', w')"
  "deleteOneLocked k e w = (Inr d, e', w') \<Longrightarrow> engine_step (e, w) (e', w')"
  by (auto intro: engine_step.intros simp: settled_def)

end
