(* ===== verification/Collection_Lifecycle.thy ===== *)
theory Collection_Lifecycle
  imports Collection_Flush Collection_Writes
begin

text \<open>
  Creating and closing a collection: \<open>CreateCollection\<close> establishes the invariant with no documents, and
  \<open>Close\<close> keeps it.
\<close>

section \<open>Creation\<close>

lemma empty_manager_ok:
  assumes n: "NewWriteSegment i d cap = Inr ws"
    and s: "SegmentManager_SetWriting ws (NewSegmentManager (Some NewPrimaryKeyMap) (Some NewDeleteStore)) = (None, m)"
  shows "mgr_ok m" "mgr_immutable m = []" "mgr_writing m = Some ws" "mgr_kv m = Map.empty"
    "mgr_primaryKey m = NewPrimaryKeyMap" "mgr_deletes m = NewDeleteStore"
proof -
  have wf: "ws_wf ws" "ws_docs ws = []" using NewWriteSegment_wf [OF n] by auto
  note st = SegmentManager_SetWriting_ok [OF NewSegmentManager_wf wf(1) s]
  then have m: "m = (NewSegmentManager (Some NewPrimaryKeyMap) (Some NewDeleteStore))\<lparr>mgr_writing := Some ws\<rparr>" "mgr_wf m"
    using pk_wf_New by (auto simp: del_wf_def NewDeleteStore_def)
  then show f: "mgr_immutable m = []" "mgr_writing m = Some ws" "mgr_primaryKey m = NewPrimaryKeyMap" "mgr_deletes m = NewDeleteStore"
    by (simp_all add: NewSegmentManager_def)
  have d: "mgr_docs m = []" using f wf by (simp add: mgr_docs_def writing_docs_def)
  have "mgr_indexed m" "mgr_ordered m" "mgr_known m"
    using f d by (simp_all add: mgr_indexed_def mgr_ordered_def mgr_known_def NewPrimaryKeyMap_def NewDeleteStore_def
        PrimaryKeyMap_Get_def DeleteStore_IsDeleted_def)
  then show ok: "mgr_ok m" using m(2) by (simp add: mgr_ok_def)
  show "mgr_kv m = Map.empty"
    by (rule ext) (simp add: mgr_kv_None [OF ok] f NewPrimaryKeyMap_def PrimaryKeyMap_Get_def)
qed

lemma create_files_inv:
  assumes pc: "paths_complete w" and js: "json_stores jl (vm_current (cs_versions c))" and dir: "dir \<noteq> []"
    and cr: "create_files jl lk dir schema options cap w = (Inr c, w')"
  shows "coll_inv jl c w'" "mgr_kv (cs_manager c) = Map.empty" "cs_dir c = dir" "requireWritableLocked c = None"
proof -
  let ?wp = "filepath_Join dir (walFileName 0 1)" and ?pp = "filepath_Join dir (primarySnapshotName 1)"
    and ?dp = "filepath_Join dir (deleteSnapshotName 1)" and ?v = "initial_manifest schema (opt_EnableMmap options) cap (walFileName 0 1)"
  obtain e1 w1 where d: "ensureDirectorySynced (filepath_Dir ?wp) w = (e1, w1)" by (cases "ensureDirectorySynced (filepath_Dir ?wp) w")
  have n1: "e1 = None" using cr d by (cases e1) (auto simp: create_files_def Let_def)
  obtain r2 w2 where wl: "CreateWAL ?wp (opt_WAL options) (try_wal lk) w1 = (r2, w2)" by (cases "CreateWAL ?wp (opt_WAL options) (try_wal lk) w1")
  obtain l where n2: "r2 = Inr l" using cr d n1 wl by (cases r2) (auto simp: create_files_def Let_def)
  obtain e3 w3 where pk: "PrimaryKeyMap_WriteSnapshot ?pp NewPrimaryKeyMap w2 = (e3, w3)" by (cases "PrimaryKeyMap_WriteSnapshot ?pp NewPrimaryKeyMap w2")
  have n3: "e3 = None" using cr d n1 wl n2 pk by (cases e3) (auto simp: create_files_def Let_def)
  obtain e4 w4 where de: "DeleteStore_WriteSnapshot ?dp NewDeleteStore w3 = (e4, w4)" by (cases "DeleteStore_WriteSnapshot ?dp NewDeleteStore w3")
  have n4: "e4 = None" using cr d n1 wl n2 pk n3 de by (cases e4) (auto simp: create_files_def Let_def)
  note n = n1 n2 n3 n4
  obtain ws where nw: "NewWriteSegment 0 0 cap = Inr ws"
    using cr d wl pk de n by (cases "NewWriteSegment 0 0 cap") (auto simp: create_files_def Let_def)
  obtain e5 m where sw0: "SegmentManager_SetWriting ws (NewSegmentManager (Some NewPrimaryKeyMap) (Some NewDeleteStore)) = (e5, m)"
    by (cases "SegmentManager_SetWriting ws (NewSegmentManager (Some NewPrimaryKeyMap) (Some NewDeleteStore))")
  have n5: "e5 = None" using cr d wl pk de n nw sw0 by (cases e5) (auto simp: create_files_def Let_def)
  note d = d [unfolded n] and wl = wl [unfolded n] and pk = pk [unfolded n] and de = de [unfolded n] and sw = sw0 [unfolded n5]
  note m = empty_manager_ok [OF nw sw]
  obtain vs w5 where vm: "CreateVersionManager jl (try_version lk) dir ?v w4 = ((Some vs, None), w5)"
    and c: "c = \<lparr>cs_dir = dir, cs_readOnly = False, cs_closed = False, cs_versions = vs, cs_engine = \<lparr>eng_manager = m, eng_wal = l\<rparr>\<rparr>" "w' = w5"
    using cr d wl pk de nw sw m(3) by (auto simp: create_files_def Let_def NewWriteEngine_def split: prod.splits option.splits)
  show "mgr_kv (cs_manager c) = Map.empty" "cs_dir c = dir" "requireWritableLocked c = None"
    using m(4) c by (simp_all add: requireWritableLocked_def)
  have g: "grows w w1" "grows w1 w2" "grows w2 w3" "grows w3 w4" using d wl pk de by (auto intro: grows_intros)
  have pc4: "paths_complete w4" using pc g by (simp add: grows_def)
  have "json_stores jl (vm_current vs)" using js c by simp
  note v = CreateVersionManager_stored [OF this pc4 vm]
  have k: "keeps {current_path dir} w4 w5" using v(6) by (auto simp: keeps_def)
  have sn: "snapshots_stored dir 1 m w4"
    using grows_stored [OF g(4) PrimaryKeyMap_WriteSnapshot_stored [OF pk_wf_New pk]]
      DeleteStore_WriteSnapshot_stored [OF _ de] m(5,6) by (simp add: snapshots_stored_def del_wf_def NewDeleteStore_def)
  have nv: "new_version cap 1 (walFileName 0 1) m (vm_current vs)"
    unfolding new_version_def trans [OF arg_cong [where f = lifecycle, OF v(4)] lifecycle_prepare]
    using m(2,3) NewWriteSegment_wf [OF nw] nw by (auto simp: lifecycle_def initial_manifest_def)
  have cp: "checkpoint m (walFileName 0 1) dir (vm_current vs) w5"
    by (rule new_checkpoint [OF nv m(1) snapshots_stored_keeps(1) [OF k current_not_artifact sn]]) (simp add: m(2))
  have nl: "new_log dir (walFileName 0 1) l w1 w2" by (rule CreateWAL_new_log [OF wl grows_refl])
  obtain f where f: "fs w2 ?wp = Some f" using nl by (auto simp: new_log_def wal_durable_def)
  have "fs w5 ?wp = Some f" by (rule v(6)) (use f g in \<open>auto simp: grows_def\<close>)
  then have e: "eng_inv m [] \<lparr>eng_manager = m, eng_wal = l\<rparr> w5" using new_log_start [OF nl m(1)] f by simp
  show "coll_inv jl c w'" using v(1-3) cp e dir nl c by (auto simp: coll_inv_def new_log_def)
qed

lemma OpenVersionManager_grows [grows_intros]: "OpenVersionManager jl dir w = (r, w') \<Longrightarrow> grows w w'"
proof -
  assume o: "OpenVersionManager jl dir w = (r, w')"
  have rc: "readCurrent d v = (x, v') \<Longrightarrow> grows v v'" for d v x v'
    using readCurrent_frame [of d v x v'] by (simp add: grows_same)
  have rm: "readManifestFile jl n v = (x, v') \<Longrightarrow> grows v v'" for n v x v'
    by (auto simp: readManifestFile_def os_Open_def split: prod.splits option.splits sum.splits if_splits dest!: io_step_grows)
      (meson grows_trans)+
  show ?thesis using o
    by (auto simp: OpenVersionManager_def split: prod.splits option.splits sum.splits if_splits dest!: rc rm ctx_Err_grows os_StatDir_grows)
      (meson grows_trans)+
qed

lemma CreateCollection_inv:
  assumes pc: "paths_complete w" and js: "json_stores jl (vm_current (cs_versions c))"
    and cr: "CreateCollection jl lk dir schema options w = (Inr c, w')"
  shows "coll_inv jl c w'" "mgr_kv (cs_manager c) = Map.empty" "cs_dir c = dir" "requireWritableLocked c = None"
proof -
  obtain e0 w0 where c0: "ctx_Err w = (e0, w0)" by (cases "ctx_Err w")
  obtain e1 w1 where mk: "os_MkdirAll dir w0 = (e1, w1)" by (cases "os_MkdirAll dir w0")
  obtain r w2 where ov: "OpenVersionManager jl dir w1 = (r, w2)" by (cases "OpenVersionManager jl dir w1")
  have ne: "dir \<noteq> []" using cr by (auto simp: CreateCollection_def)
  obtain cap where cf: "create_files jl lk dir schema options cap w2 = (Inr c, w')"
    using cr c0 mk ov by (auto simp: CreateCollection_def Let_def split: if_splits option.splits sum.splits)
  have "grows w w2" using ctx_Err_grows [OF c0] os_MkdirAll_grows [OF mk] OpenVersionManager_grows [OF ov] grows_trans by blast
  then have "paths_complete w2" using pc by (simp add: grows_def)
  note i = create_files_inv [OF this js ne cf]
  show "coll_inv jl c w'" "mgr_kv (cs_manager c) = Map.empty" "cs_dir c = dir" "requireWritableLocked c = None" by (rule i)+
qed

section \<open>Closing\<close>

lemma WAL_Close_inv:
  assumes inv: "eng_inv m0 ps e w" and c: "WAL_Close lockErr (eng_wal e) w = (errs, l, w')"
  shows "eng_inv m0 ps (e\<lparr>eng_wal := l\<rparr>) w'" "wal_path l = wal_path (eng_wal e)"
proof -
  let ?l = "eng_wal e"
  obtain f qs where f: "fs w (wal_path ?l) = Some f" "length (wal_image ps) \<le> synced f" "synced f \<le> length (content f)"
    using inv by (auto simp: eng_inv_def wal_durable_def)
  have l: "l = ?l \<or> l = ?l\<lparr>wal_closed := True\<rparr>"
    using c by (auto simp: WAL_Close_def Let_def split: if_splits prod.splits)
  then show "wal_path l = wal_path ?l" by auto
  have "fs w' (wal_path ?l) = Some f \<or> fs w' (wal_path ?l) = Some (f\<lparr>synced := length (content f)\<rparr>)"
    using c f(1) by (auto simp: WAL_Close_def Let_def split: if_splits prod.splits dest!: io_step_env)
      (metis file_Sync_set(1) fun_upd_same)+
  moreover have "wal_holds ps l w'" "wal_tail ps qs l w'" if "wal_holds ps ?l w" "wal_tail ps qs ?l w" for qs
    using that calculation f(1) l by (auto simp: wal_holds_def wal_tail_def)
  ultimately show "eng_inv m0 ps (e\<lparr>eng_wal := l\<rparr>) w'"
    using inv f l by (fastforce simp: eng_inv_def wal_durable_def)
qed

lemma Close_inv:
  assumes inv: "coll_inv jl c w" and cl: "CollectionStore_Close lk c w = (errs, c', w')"
  shows "coll_inv jl c' w'" "cs_manager c' = cs_manager c" "cs_closed c'"
proof -
  obtain es l w1 where w: "WAL_Close (close_wal lk) (cs_wal c) w = (es, l, w1)" by (cases "WAL_Close (close_wal lk) (cs_wal c) w")
  show "cs_manager c' = cs_manager c" "cs_closed c'" using cl w by (auto simp: CollectionStore_Close_def split: if_splits)
  have "coll_inv jl (c\<lparr>cs_engine := (cs_engine c)\<lparr>eng_wal := l\<rparr>\<rparr>) w1"
  proof (rule coll_inv_engine [OF inv WAL_Close_touches [OF w]])
    show "wal_path (eng_wal ((cs_engine c)\<lparr>eng_wal := l\<rparr>)) = wal_path (cs_wal c)"
      using w by (auto simp: WAL_Close_def Let_def split: if_splits prod.splits)
    show "\<exists>qs. eng_inv m0 qs ((cs_engine c)\<lparr>eng_wal := l\<rparr>) w1" if "eng_inv m0 ps (cs_engine c) w" for m0 ps
      using WAL_Close_inv(1) [OF that w] by blast
  qed
  then have "coll_inv jl (c\<lparr>cs_closed := True, cs_engine := (cs_engine c)\<lparr>eng_wal := l\<rparr>\<rparr>) w1"
    unfolding coll_inv_def by simp
  then show "coll_inv jl c' w'" using cl w inv by (auto simp: CollectionStore_Close_def split: if_splits)
qed

end
