(* ===== verification/Collection_Rewrite.thy ===== *)
theory Collection_Rewrite
  imports Collection_Lifecycle
begin

text \<open>
  \<open>CollectionStore.RewriteDocuments\<close> (\<^verbatim>\<open>src/internal/db/collection.go\<close>): the live documents it compares its argument
  with, the segments it writes for the runs of consecutive document IDs (\<open>rewrite_segments_spec\<close>), the snapshots
  and the log that go with them (\<open>rewrite_files_spec\<close>) and the commit.  \<open>RewriteDocuments_inv\<close> says that the
  collection invariant is kept on every path, and that the contents are the given documents exactly when the call
  reports the commit, and what they were otherwise.
\<close>

section \<open>The live documents\<close>

lemma appendLive_Inr: "appendLive m docs acc w = (Inr xs, w') \<Longrightarrow> xs = acc @ filter (live_document m) docs"
  by (induction m docs acc w rule: appendLive.induct) (auto split: prod.splits option.splits if_splits)

lemma appendLive_grows: "appendLive m docs acc w = (r, w') \<Longrightarrow> grows w w'"
  by (induction m docs acc w rule: appendLive.induct)
    (auto split: prod.splits option.splits if_splits dest!: ctx_Err_grows intro: grows_trans)

lemma live_segments_Inr: "live_segments m segs acc w = (Inr xs, w') \<Longrightarrow> xs = acc @ filter (live_document m) (concat (map imm_docs segs))"
  by (induction m segs acc w rule: live_segments.induct) (auto split: prod.splits sum.splits dest!: appendLive_Inr)

lemma live_segments_grows: "live_segments m segs acc w = (r, w') \<Longrightarrow> grows w w'"
  by (induction m segs acc w rule: live_segments.induct)
    (auto split: prod.splits sum.splits dest!: appendLive_grows intro: grows_trans)

lemma LiveDocuments_Inr:
  assumes "SegmentManager_LiveDocuments m w = (Inr xs, w')"
  shows "xs = filter (live_document m) (concat (map imm_docs (SegmentManager_ImmutableSegments m)) @ writing_docs m)"
  using assms by (auto simp: SegmentManager_LiveDocuments_def writing_docs_def WriteSegment_Documents_def
      split: prod.splits option.splits sum.splits dest!: live_segments_Inr appendLive_Inr)

lemma LiveDocuments_grows: "SegmentManager_LiveDocuments m w = (r, w') \<Longrightarrow> grows w w'"
  by (auto simp: SegmentManager_LiveDocuments_def split: prod.splits option.splits sum.splits
      dest!: ctx_Err_grows live_segments_grows appendLive_grows) (meson grows_trans)+

lemma LiveDocuments_sound:
  assumes ok: "mgr_ok m" and l: "SegmentManager_LiveDocuments m w = (Inr xs, w')"
  shows "sorted_wrt (\<lambda>x y. doc_DocID x < doc_DocID y) xs"
    "mgr_kv m k = Some v \<longleftrightarrow> (\<exists>x \<in> set xs. doc_PrimaryKey x = k \<and> doc_Payload x = v)"
proof -
  note x = LiveDocuments_Inr [OF l]
  show "sorted_wrt (\<lambda>x y. doc_DocID x < doc_DocID y) xs"
    unfolding x by (rule sorted_wrt_filter [OF all_docs_ascending]) (use ok in \<open>auto simp: mgr_ok_def\<close>)
  have "set (concat (map imm_docs (SegmentManager_ImmutableSegments m)) @ writing_docs m) = set (mgr_docs m)"
    by (auto simp: mgr_docs_def ImmutableSegments_set)
  then have "set xs = {x \<in> set (mgr_docs m). live_document m x}" unfolding x set_filter by simp
  then show "mgr_kv m k = Some v \<longleftrightarrow> (\<exists>x \<in> set xs. doc_PrimaryKey x = k \<and> doc_Payload x = v)"
    unfolding mgr_kv_iff [OF ok] using live_document_iff [of m] ok by (auto simp: mgr_ok_def)
qed

section \<open>Segments of a rewrite\<close>

lemma append_run_spec:
  "append_run run ws w = (r, w') \<Longrightarrow> ws_wf ws \<Longrightarrow> grows w w' \<and> (\<forall>ws'. r = Inr ws' \<longrightarrow> ws_wf ws'
     \<and> ws_docs ws' = ws_docs ws @ run \<and> ws_id ws' = ws_id ws \<and> ws_minDocID ws' = ws_minDocID ws)"
proof (induction run arbitrary: ws w)
  case (Cons d run)
  obtain x ws1 w1 where a: "WriteSegment_AppendExpected (doc_DocID d) (doc_PrimaryKey d) (doc_Payload d) ws w = (x, ws1, w1)"
    by (cases "WriteSegment_AppendExpected (doc_DocID d) (doc_PrimaryKey d) (doc_Payload d) ws w")
  note a' = a [unfolded WriteSegment_AppendExpected_def]
  have g: "grows w w1" using a' by (auto simp: WriteSegment_append_def Let_def split: prod.splits option.splits if_splits dest: ctx_Err_grows)
  have wf: "ws_wf ws1" using WriteSegment_append_wf [OF Cons.prems(2) a'] by simp
  show ?case
  proof (cases x)
    case (Inl e)
    then show ?thesis using Cons.prems a g by auto
  next
    case (Inr y)
    note ok = WriteSegment_append_ok [OF a' [unfolded Inr]]
    have "doc_DocID d = ws_minDocID ws + len64 (ws_docs ws)" using ok(6) by simp
    then have "y = d" using ok(1) by (cases d) simp
    then have f: "ws_docs ws1 = ws_docs ws @ [d]" "ws_id ws1 = ws_id ws" "ws_minDocID ws1 = ws_minDocID ws"
      unfolding ok(2) by simp_all
    have "append_run run ws1 w1 = (r, w')" using Cons.prems(1) a Inr by simp
    note ih = Cons.IH [OF this wf]
    show ?thesis
    proof (intro conjI allI impI)
      show "grows w w'" using ih grows_trans [OF g] by blast
      fix ws' assume "r = Inr ws'"
      with ih have i: "ws_wf ws'" "ws_docs ws' = ws_docs ws1 @ run" "ws_id ws' = ws_id ws1" "ws_minDocID ws' = ws_minDocID ws1" by blast+
      show "ws_wf ws'" "ws_docs ws' = ws_docs ws @ d # run" "ws_id ws' = ws_id ws" "ws_minDocID ws' = ws_minDocID ws"
        using i(1) by (simp_all add: i(2-4) f)
    qed
  qed
qed auto

lemma map_run_Cons: "map_run i (d # run) p = map_run i run
    (p\<lparr>entries := AList.update (doc_PrimaryKey d) \<lparr>SegmentID = i, DocID = doc_DocID d\<rparr> (entries p)\<rparr>)"
  by (simp add: map_run_def)

lemma map_run_wf:
  assumes "pk_wf p" and "list_all (\<lambda>d. validatePrimaryKey (doc_PrimaryKey d) = None) run" and "distinct (map doc_DocID run)"
    and "\<forall>l \<in> snd ` set (entries p). SegmentID l = i \<longrightarrow> DocID l \<notin> doc_DocID ` set run"
  shows "pk_wf (map_run i run p) \<and> snd ` set (entries (map_run i run p)) \<subseteq> snd ` set (entries p) \<union> {l. SegmentID l = i}"
  using assms
proof (induction run arbitrary: p)
  case (Cons d run)
  let ?l = "\<lparr>SegmentID = i, DocID = doc_DocID d\<rparr>"
  let ?es = "AList.update (doc_PrimaryKey d) ?l (entries p)"
  have sub: "set ?es \<subseteq> insert (doc_PrimaryKey d, ?l) (set (entries p))" by (rule set_update_subset)
  have new: "l \<noteq> ?l" if "(k, l) \<in> set (entries p)" for k l
  proof
    assume "l = ?l"
    then have "SegmentID l = i" "DocID l \<in> doc_DocID ` set (d # run)" by simp_all
    then show False using Cons.prems(4) that by force
  qed
  have "distinct (map fst ?es)" using Cons.prems(1) by (simp add: pk_wf_def distinct_fst_update)
  moreover have "distinct (map snd ?es)"
    by (rule distinct_snd_update) (use Cons.prems(1) new in \<open>auto simp: pk_wf_def\<close>)
  moreover have "list_all (\<lambda>(k, _). validatePrimaryKey k = None) ?es"
    using Cons.prems(1,2) sub by (fastforce simp: pk_wf_def list_all_iff)
  ultimately have wf: "pk_wf (p\<lparr>entries := ?es\<rparr>)" by (simp add: pk_wf_def)
  have fr: "\<forall>l \<in> snd ` set ?es. SegmentID l = i \<longrightarrow> DocID l \<notin> doc_DocID ` set run"
  proof (intro ballI impI)
    fix l assume l: "l \<in> snd ` set ?es" "SegmentID l = i"
    then consider "l = ?l" | "l \<in> snd ` set (entries p)" using sub by (metis image_eqI image_insert insertE snd_conv subsetD image_mono)
    then show "DocID l \<notin> doc_DocID ` set run"
    proof cases
      case 1
      then show ?thesis using Cons.prems(3) by simp
    next
      case 2
      then show ?thesis using Cons.prems(4) l(2) by auto
    qed
  qed
  have "pk_wf (map_run i run (p\<lparr>entries := ?es\<rparr>))
    \<and> snd ` set (entries (map_run i run (p\<lparr>entries := ?es\<rparr>))) \<subseteq> snd ` set ?es \<union> {l. SegmentID l = i}"
    using Cons.IH [OF wf] Cons.prems(2,3) fr by simp
  moreover have "snd ` set ?es \<subseteq> snd ` set (entries p) \<union> {l. SegmentID l = i}" using sub by force
  ultimately show ?case unfolding map_run_Cons by blast
qed (auto simp: map_run_def)

text \<open>The state of a rewrite between two segments.\<close>

definition rewriting :: "string \<Rightarrow> SegmentManager \<Rightarrow> SegmentMetadata list \<Rightarrow> world \<Rightarrow> bool" where
  "rewriting dir m metadata w \<longleftrightarrow> mgr_wf m \<and> mgr_writing m = None \<and> mgr_deletes m = NewDeleteStore
     \<and> metadata = map (imm_metadata \<circ> snd) (rev (mgr_immutable m))
     \<and> (\<forall>l \<in> snd ` set (entries (mgr_primaryKey m)). SegmentID l \<in> fst ` set (mgr_immutable m))
     \<and> (\<forall>(i, s) \<in> set (mgr_immutable m). segment_stored dir s w)"

lemma rewriting_grows: "rewriting dir m md w \<Longrightarrow> grows w w' \<Longrightarrow> rewriting dir m md w'"
  using segment_stored_grows [of dir _ w w'] by (auto simp: rewriting_def)

lemma rewriting_segment:
  assumes r: "rewriting dir m md w" and so: "segment_of dir ws imm w" and wf: "ws_wf ws" and run: "ws_docs ws = run"
    and a: "SegmentManager_AddImmutable imm m = (None, m1)"
  shows "rewriting dir (m1\<lparr>mgr_primaryKey := map_run (ws_id ws) run (mgr_primaryKey m1)\<rparr>) (md @ [imm_metadata imm]) w"
    "mgr_immutable m1 = (ws_id ws, imm) # mgr_immutable m"
proof -
  have i: "imm_wf imm" "ImmutableSegment_ID imm = ws_id ws" "imm_docs imm = run" using so run by (auto simp: segment_of_def)
  have m: "mgr_wf m" using r by (simp add: rewriting_def)
  note ok = SegmentManager_AddImmutable_ok [OF m i(1) a]
  then have m1: "m1 = m\<lparr>mgr_immutable := (ws_id ws, imm) # mgr_immutable m\<rparr>" "mgr_wf m1" using i(2) by auto
  then show im: "mgr_immutable m1 = (ws_id ws, imm) # mgr_immutable m" by simp
  have fresh: "ws_id ws \<notin> fst ` set (mgr_immutable m)" using m1(2) im by (auto simp: mgr_wf_def immutables_wf_def)
  have v: "list_all (\<lambda>d. validatePrimaryKey (doc_PrimaryKey d) = None) run" "sorted_wrt (\<lambda>x y. doc_DocID x < doc_DocID y) run"
    using i(1,3) valid_run_ascending valid_run_nth validateStoredDocument_None by (auto simp: imm_wf_def list_all_length)
  have "distinct (map doc_DocID run)" using v(2) strict_sorted_iff [of "map doc_DocID run"] by (simp add: sorted_wrt_map)
  moreover have "\<forall>l \<in> snd ` set (entries (mgr_primaryKey m)). SegmentID l \<noteq> ws_id ws"
    using r fresh unfolding rewriting_def by metis
  ultimately have pk: "pk_wf (map_run (ws_id ws) run (mgr_primaryKey m)) \<and> snd ` set (entries (map_run (ws_id ws) run (mgr_primaryKey m)))
      \<subseteq> snd ` set (entries (mgr_primaryKey m)) \<union> {l. SegmentID l = ws_id ws}"
    using v(1) m by (intro map_run_wf) (auto simp: mgr_wf_def)
  have p1: "mgr_primaryKey m1 = mgr_primaryKey m" "mgr_writing m1 = mgr_writing m" "mgr_deletes m1 = mgr_deletes m" using m1 by simp_all
  show "rewriting dir (m1\<lparr>mgr_primaryKey := map_run (ws_id ws) run (mgr_primaryKey m1)\<rparr>) (md @ [imm_metadata imm]) w"
    unfolding rewriting_def
  proof (intro conjI)
    have "\<forall>l \<in> snd ` set (entries (map_run (ws_id ws) run (mgr_primaryKey m))). SegmentID l \<in> insert (ws_id ws) (fst ` set (mgr_immutable m))"
      using pk r unfolding rewriting_def by blast
    then show "\<forall>l \<in> snd ` set (entries (mgr_primaryKey (m1\<lparr>mgr_primaryKey := map_run (ws_id ws) run (mgr_primaryKey m1)\<rparr>))).
        SegmentID l \<in> fst ` set (mgr_immutable (m1\<lparr>mgr_primaryKey := map_run (ws_id ws) run (mgr_primaryKey m1)\<rparr>))"
      by (simp add: p1 im)
  qed (use r so pk m1(2) in \<open>auto simp: rewriting_def segment_of_def mgr_wf_def p1 im\<close>)
qed

lemma rewrite_segments_spec:
  assumes "rewrite_segments dir g runs i m md created w = (r, w')" and "rewriting dir m md w" and "grows w0 w"
    and "\<forall>p \<in> set created. fs w0 p = None"
  shows "grows w w' \<and> (case r of Inl (e, cs) \<Rightarrow> \<forall>p \<in> set cs. fs w0 p = None
    | Inr (m', md', cs) \<Rightarrow> (\<forall>p \<in> set cs. fs w0 p = None) \<and> rewriting dir m' md' w'
        \<and> set (mgr_docs m') = set (mgr_docs m) \<union> set (concat runs))"
  using assms
proof (induction runs arbitrary: i m md created w)
  case (Cons run runs)
  note pre = Cons.prems(2-4)
  let ?goal = "\<lambda>w'. grows w w' \<and> (case r of Inl (e, cs) \<Rightarrow> \<forall>p \<in> set cs. fs w0 p = None
    | Inr (m', md', cs) \<Rightarrow> (\<forall>p \<in> set cs. fs w0 p = None) \<and> rewriting dir m' md' w'
        \<and> set (mgr_docs m') = set (mgr_docs m) \<union> set (concat (run # runs)))"
  show ?case
  proof (cases "NewWriteSegment i (doc_DocID (hd run)) (len64 run)")
    case (Inl e)
    then show ?thesis using Cons.prems by auto
  next
    case ws: (Inr ws)
    note nw = NewWriteSegment_wf [OF ws]
    obtain a w1 where a: "append_run run ws w = (a, w1)" by (cases "append_run run ws w")
    note as = append_run_spec [OF a nw [THEN conjunct1]]
    show ?thesis
    proof (cases a)
      case (Inl e)
      then show ?thesis using Cons.prems ws a as by auto
    next
      case ws1: (Inr ws1)
      have w1: "ws_wf ws1" "ws_docs ws1 = run" "ws_id ws1 = i" using as ws1 nw by auto
      obtain b w2 where b: "availableArtifact dir (segmentFileName i) g w1 = (b, w2)" by (cases "availableArtifact dir (segmentFileName i) g w1")
      note bs = availableArtifact_spec [OF b]
      have g2: "grows w w2" using as bs grows_trans by blast
      show ?thesis
      proof (cases b)
        case (Inl e)
        then show ?thesis using Cons.prems ws a ws1 b g2 by auto
      next
        case rel: (Inr rel)
        let ?p = "filepath_Join dir rel"
        have fr: "\<forall>p \<in> set (created @ [?p]). fs w0 p = None"
          using pre(3) bs rel grows_fresh [OF grows_trans [OF pre(2) g2]] by auto
        obtain c x w3 where c: "WriteSegment_Snapshot dir rel ws1 w2 = (c, x, w3)" by (cases "WriteSegment_Snapshot dir rel ws1 w2")
        have g3: "grows w w3" by (rule grows_trans [OF g2 WriteSegment_writeImmutable_grows [OF c [unfolded WriteSegment_Snapshot_def]]])
        show ?thesis
        proof (cases c)
          case (Inl e)
          then show ?thesis using Cons.prems ws a ws1 b rel c g3 fr by auto
        next
          case imm: (Inr imm)
          have so: "segment_of dir ws1 imm w3"
            using flush_segment [OF w1(1) b [folded w1(3), unfolded rel] c [unfolded imm]] by (simp add: segment_of_def)
          obtain d m1 where d: "SegmentManager_AddImmutable imm m = (d, m1)" by (cases "SegmentManager_AddImmutable imm m")
          show ?thesis
          proof (cases d)
            case (Some e)
            then show ?thesis using Cons.prems ws a ws1 b rel c imm d g3 fr by auto
          next
            case None
            let ?m = "m1\<lparr>mgr_primaryKey := map_run i run (mgr_primaryKey m1)\<rparr>"
            note rs = rewriting_segment [OF rewriting_grows [OF pre(1) g3] so w1(1,2) d [unfolded None], unfolded w1(3)]
            have "rewrite_segments dir g runs (i + 1) ?m (md @ [imm_metadata imm]) (created @ [?p]) w3 = (r, w')"
              using Cons.prems(1) ws a ws1 b rel c imm d None by simp
            note ih = Cons.IH [OF this rs(1) grows_trans [OF pre(2) g3] fr]
            have "mgr_writing m = None" "mgr_writing m1 = None" using pre(1) rs(1) by (auto simp: rewriting_def)
            then have "set (mgr_docs ?m) = set (mgr_docs m) \<union> set run"
              using so w1(2) by (auto simp: mgr_docs_def rs(2) writing_docs_def segment_of_def)
            then show ?thesis using ih grows_trans [OF g3] by (auto split: sum.splits)
          qed
        qed
      qed
    qed
  qed
qed auto

section \<open>Lock files\<close>

text \<open>A rewrite that fails also removes the lock file of the log it made, which is none of the files that matter.\<close>

lemma last_join_slash:
  "ys \<noteq> [] \<Longrightarrow> join_slash ys \<noteq> [] \<Longrightarrow> join_slash (xs @ ys) \<noteq> [] \<and> last (join_slash (xs @ ys)) = last (join_slash ys)"
proof (induction xs rule: join_slash.induct)
  case (2 x)
  then show ?case by (cases ys) auto
qed auto

lemma last_Join: "clean_name r \<Longrightarrow> last (filepath_Join dir r) = last r"
  using last_join_slash [of "split_slash r" "dir_elements dir"] clean_name_ne [of r] by (simp add: filepath_Join_elements)

lemma lock_elsewhere:
  "(filepath_Join dir' rel @ ''.lock'') \<notin> artifact_paths dir" "(filepath_Join dir' rel @ ''.lock'') \<notin> version_paths dir"
  "filepath_Join dir' rel @ ''.lock'' \<noteq> filepath_Join dir (walFileName i g)"
proof -
  have l: "last (filepath_Join dir' rel @ ''.lock'') = CHR ''k''" by simp
  have n: "last (filepath_Join dir (primarySnapshotName g)) = CHR ''p''" "last (filepath_Join dir (deleteSnapshotName g)) = CHR ''p''"
    "last (filepath_Join dir (segmentFileName i g)) = CHR ''g''" "last (filepath_Join dir (walFileName i g)) = CHR ''l''"
    "last (current_path dir) = CHR ''T''" "last (manifest_path dir g) = last (manifestFileName g)" for i g
    by (simp_all add: last_Join) (simp_all add: primarySnapshotName_def deleteSnapshotName_def segmentFileName_def walFileName_def currentFileName_def)
  have d: "last (manifestFileName g) \<noteq> CHR ''k''" for g
  proof -
    have ne: "decimal20 g \<noteq> []" using decimal20_spec(1) [of g] by (metis list.size(3) zero_neq_numeral)
    then have "is_digit (last (manifestFileName g))" using decimal20_spec(2) [of g] by (simp add: manifestFileName_def list_all_iff)
    then show ?thesis by (auto simp: is_digit_def)
  qed
  define q where "q = filepath_Join dir' rel @ ''.lock''"
  have ne: "q \<noteq> p" if "last p \<noteq> CHR ''k''" for p using l that by (auto simp: q_def)
  have "q \<noteq> filepath_Join dir (primarySnapshotName g)" "q \<noteq> filepath_Join dir (deleteSnapshotName g)"
    "q \<noteq> filepath_Join dir (segmentFileName i g)" "q \<noteq> filepath_Join dir (walFileName i g)" "q \<noteq> current_path dir" "q \<noteq> manifest_path dir g" for i g
    by (rule ne; simp add: n d)+
  then have "q \<notin> artifact_paths dir" "q \<notin> version_paths dir" "q \<noteq> filepath_Join dir (walFileName i g)"
    unfolding artifact_paths_def version_paths_def by blast+
  then show "(filepath_Join dir' rel @ ''.lock'') \<notin> artifact_paths dir" "(filepath_Join dir' rel @ ''.lock'') \<notin> version_paths dir"
    "filepath_Join dir' rel @ ''.lock'' \<noteq> filepath_Join dir (walFileName i g)" by (simp_all only: q_def not_False_eq_True)
qed

lemma coll_inv_lock:
  assumes inv: "coll_inv jl c w" and t: "touches {filepath_Join dir rel @ ''.lock''} w w'"
  shows "coll_inv jl c w'"
proof -
  obtain m0 rel' ps ws where cp: "checkpoint m0 rel' (cs_dir c) (vm_current (cs_versions c)) w"
    and en: "eng_inv m0 ps (cs_engine c) w" and path: "wal_path (cs_wal c) = filepath_Join (cs_dir c) rel'"
    and ws: "writing_named (vm_current (cs_versions c)) rel' ws"
    by (rule coll_invE [OF inv])
  obtain g where g: "rel' = walFileName (ws_id ws) g" using ws by (auto simp: writing_named_def)
  note k = touches_keeps [OF t]
  have "checkpoint m0 rel' (cs_dir c) (vm_current (cs_versions c)) w'"
    by (rule checkpoint_keeps [OF cp k]) (simp add: lock_elsewhere)
  moreover have "vm_inv jl (cs_versions c) w'"
    by (rule vm_inv_keeps [OF _ k]) (use inv t in \<open>auto simp: coll_inv_def lock_elsewhere vm_inv_def touches_def\<close>)
  moreover have "eng_inv m0 ps (cs_engine c) w'"
  proof (rule eng_inv_frame [OF en])
    have "wal_path (cs_wal c) \<notin> {filepath_Join dir rel @ ''.lock''}" unfolding path g by (simp add: lock_elsewhere(3) [symmetric])
    then show "fs w' (wal_path (cs_wal c)) = fs w (wal_path (cs_wal c))" using t unfolding touches_def by blast
  qed
  ultimately show ?thesis using inv t path by (auto simp: coll_inv_def touches_def)
qed

lemma cleanup_append: "cleanup (xs @ ys) w = cleanup ys (cleanup xs w)"
  by (induction xs arbitrary: w) auto

lemma cleanup_lock: "touches {n} w (cleanup [n] w)"
  using os_Remove_touches [of n w] by simp

section \<open>The rewrite\<close>

definition rewritten :: "string \<Rightarrow> u64 \<Rightarrow> SegmentManager \<Rightarrow> u64 \<times> string \<times> WriteEngine \<times> string list \<Rightarrow> world \<Rightarrow> world \<Rightarrow> bool" where
  "rewritten dir writingID m x w0 w' \<longleftrightarrow> (case x of (g, rel, e, created) \<Rightarrow>
     snapshots_stored dir g m w' \<and> (\<exists>h. rel = walFileName writingID h) \<and> eng_manager e = m \<and> new_log dir rel (eng_wal e) w0 w'
     \<and> (\<exists>xs. created = xs @ [filepath_Join dir rel @ ''.lock''] \<and> (\<forall>p \<in> set xs. fs w0 p = None)))"

definition undone :: "world \<Rightarrow> world \<Rightarrow> bool" where
  "undone w0 w' \<longleftrightarrow> (\<exists>w1 dir rel. grows w0 w1 \<and> touches {filepath_Join dir rel @ ''.lock''} w1 w')"

lemma undone_inv: "coll_inv jl c w0 \<Longrightarrow> undone w0 w' \<Longrightarrow> coll_inv jl c w'"
  unfolding undone_def using coll_inv_grows coll_inv_lock by blast

lemma grows_undone: "grows w0 w' \<Longrightarrow> undone w0 w'"
  unfolding undone_def using touches_refl by blast

lemma cleanup_undone: "grows w0 w1 \<Longrightarrow> (\<And>p. p \<in> set xs \<Longrightarrow> fs w0 p = None) \<Longrightarrow> undone w0 (cleanup (xs @ [filepath_Join dir rel @ ''.lock'']) w1)"
  unfolding undone_def cleanup_append using grows_cleanup cleanup_lock by blast

lemma rewrite_files_spec:
  assumes wf: "mgr_wf m" "mgr_writing m \<noteq> None" and g2: "grows w0 w" and cr: "\<And>p. p \<in> set created \<Longrightarrow> fs w0 p = None"
    and f: "rewrite_files lk c current writingID m created w = (r, w')"
  shows "case r of Inl e \<Rightarrow> undone w0 w' | Inr x \<Rightarrow> grows w w' \<and> rewritten (cs_dir c) writingID m x w0 w'"
proof -
  let ?dir = "cs_dir c"
  have keys: "pk_wf (mgr_primaryKey m)" "del_wf (mgr_deletes m)" using wf by (auto simp: mgr_wf_def)
  obtain h w3 where h: "nextSnapshotGeneration ?dir current w = (h, w3)" by (cases "nextSnapshotGeneration ?dir current w")
  note hs = next_generation_spec [OF h [unfolded nextSnapshotGeneration_def]]
  have g3: "grows w w3" "grows w0 w3" using hs g2 grows_trans by blast+
  show ?thesis
  proof (cases h)
    case (Inl e)
    then show ?thesis using f h grows_undone [OF grows_cleanup [OF g3(2) cr]] by (auto simp: rewrite_files_def)
  next
    case hr: (Inr g)
    let ?pp = "filepath_Join ?dir (primarySnapshotName g)" and ?dp = "filepath_Join ?dir (deleteSnapshotName g)"
    have fr: "fs w0 ?pp = None" "fs w0 ?dp = None" "g \<noteq> 0" using hs hr grows_fresh [OF g3(2)] by auto
    obtain e4 w4 where p4: "PrimaryKeyMap_WriteSnapshot ?pp (mgr_primaryKey m) w3 = (e4, w4)"
      by (cases "PrimaryKeyMap_WriteSnapshot ?pp (mgr_primaryKey m) w3")
    note g34 = PrimaryKeyMap_WriteSnapshot_grows [OF p4]
    obtain e5 w5 where p5: "DeleteStore_WriteSnapshot ?dp (mgr_deletes m) w4 = (e5, w5)"
      by (cases "DeleteStore_WriteSnapshot ?dp (mgr_deletes m) w4")
    note g45 = DeleteStore_WriteSnapshot_grows [OF p5]
    obtain a w6 where p6: "availableArtifact ?dir (walFileName writingID) (Generation current + 1) w5 = (a, w6)"
      by (cases "availableArtifact ?dir (walFileName writingID) (Generation current + 1) w5")
    note as = availableArtifact_spec [OF p6]
    define rel where "rel = (case a of Inl _ \<Rightarrow> [] | Inr rel \<Rightarrow> rel)"
    let ?wp = "filepath_Join ?dir rel"
    obtain e7 w7 where p7: "ensureDirectorySynced (filepath_Dir ?wp) w6 = (e7, w7)" by (cases "ensureDirectorySynced (filepath_Dir ?wp) w6")
    obtain y w8 where p8: "CreateWAL ?wp (wal_options (cs_wal c)) (try_wal lk) w7 = (y, w8)"
      by (cases "CreateWAL ?wp (wal_options (cs_wal c)) (try_wal lk) w7")
    have st: "grows w5 w6" "grows w6 w7" "grows w7 w8" using as ensureDirectorySynced_grows [OF p7] CreateWAL_grows [OF p8] by auto
    have g: "grows w0 w4" "grows w0 w5" "grows w0 w6" "grows w0 w7" "grows w0 w8" "grows w w8" "grows w3 w8" "grows w4 w8" "grows w5 w8"
      using g3 g34 g45 st by (meson grows_trans)+
    have res: "if e4 \<noteq> None then (\<exists>e. r = Inl e) \<and> w' = cleanup (created @ [?pp]) w4
      else if e5 \<noteq> None then (\<exists>e. r = Inl e) \<and> w' = cleanup (created @ [?pp, ?dp]) w5
      else if \<exists>e. a = Inl e then (\<exists>e. r = Inl e) \<and> w' = cleanup (created @ [?pp, ?dp]) w6
      else if e7 \<noteq> None then (\<exists>e. r = Inl e) \<and> w' = cleanup (created @ [?pp, ?dp]) w7
      else case y of Inl e \<Rightarrow> (\<exists>e. r = Inl e) \<and> w' = cleanup ((created @ [?pp, ?dp, ?wp]) @ [?wp @ ''.lock'']) w8
        | Inr l \<Rightarrow> r = Inr (g, rel, \<lparr>eng_manager = m, eng_wal = l\<rparr>, (created @ [?pp, ?dp, ?wp]) @ [?wp @ ''.lock'']) \<and> w' = w8"
      using f h hr p4 p5 p6 p7 p8 wf(2) unfolding rel_def
      by (auto simp: rewrite_files_def Let_def NewWriteEngine_def split: option.splits sum.splits)
    show ?thesis
    proof (cases "e4 = None \<and> e5 = None \<and> (\<exists>rel. a = Inr rel)")
      case False
      then have "(\<exists>e. r = Inl e) \<and> grows w0 w'"
        using res grows_cleanup [OF g(1), of "created @ [?pp]"] grows_cleanup [OF g(2), of "created @ [?pp, ?dp]"]
          grows_cleanup [OF g(3), of "created @ [?pp, ?dp]"] cr fr by (cases a) (auto split: if_splits)
      then show ?thesis using grows_undone by auto
    next
      case True
      then have a: "a = Inr rel" by (auto simp: rel_def)
      have wfr: "fs w0 ?wp = None" "\<exists>h. rel = walFileName writingID h" using as a grows_fresh [OF g(3)] by auto
      have all: "\<And>p. p \<in> set (created @ [?pp, ?dp, ?wp]) \<Longrightarrow> fs w0 p = None" using cr fr wfr by auto
      have u7: "undone w0 (cleanup (created @ [?pp, ?dp]) w7)" by (rule grows_undone [OF grows_cleanup [OF g(4)]]) (use all in auto)
      have u8: "undone w0 (cleanup (created @ [?pp, ?dp, ?wp, ?wp @ ''.lock'']) w8)"
        using cleanup_undone [OF g(5), of "created @ [?pp, ?dp, ?wp]" ?dir rel] all by simp
      show ?thesis
      proof (cases y)
        case (Inl e)
        then show ?thesis using res True a u7 u8 by (auto split: if_splits)
      next
        case l: (Inr l)
        have "snapshots_stored ?dir g m w8"
          unfolding snapshots_stored_def
          using fr(3) True grows_stored [OF g(8) PrimaryKeyMap_WriteSnapshot_stored [OF keys(1)]] p4
            grows_stored [OF g(9) DeleteStore_WriteSnapshot_stored [OF keys(2)]] p5 by blast
        moreover have "new_log ?dir rel l w0 w8" using CreateWAL_new_log [OF p8 [unfolded l] g(4)] .
        ultimately have "rewritten ?dir writingID m (g, rel, \<lparr>eng_manager = m, eng_wal = l\<rparr>, (created @ [?pp, ?dp, ?wp]) @ [?wp @ ''.lock'']) w0 w8"
          using wfr(2) all by (simp add: rewritten_def)
        then show ?thesis using res True a l g(6) u7 by (auto split: if_splits)
      qed
    qed
  qed
qed

text \<open>The key-value map of a list of documents.\<close>

definition docs_kv :: "StoredDocument list \<Rightarrow> bytes \<Rightarrow> bytes option" where
  "docs_kv docs = map_of (map (\<lambda>d. (doc_PrimaryKey d, doc_Payload d)) docs)"

definition rewrite_outcome :: "json_lib \<Rightarrow> StoredDocument list \<Rightarrow> CollectionStore \<Rightarrow> bool \<Rightarrow> CollectionStore \<Rightarrow> world \<Rightarrow> bool" where
  "rewrite_outcome jl documents c committed c' w' \<longleftrightarrow> coll_inv jl c' w'
     \<and> mgr_kv (cs_manager c') = (if committed then docs_kv documents else mgr_kv (cs_manager c))"

lemma rewrite_commit_outcome:
  assumes inv: "coll_inv jl c w0" and js: "json_stores jl (vm_current (cs_versions c'))" and g: "grows w0 w"
    and x: "rewritten (cs_dir c) writingID m (gen, rel, e, created) w0 w"
    and nv: "new_version cap gen rel m v" and ok: "mgr_ok m" "mgr_kv m = docs_kv documents"
    and seg: "\<forall>(i, s) \<in> set (mgr_immutable m). segment_stored (cs_dir c) s w"
    and rc: "rewrite_commit jl lk v e created c w = ((committed, errs), c', w')"
  shows "rewrite_outcome jl documents c committed c' w'"
proof -
  have sn: "snapshots_stored (cs_dir c) gen m w" and nl: "new_log (cs_dir c) rel (eng_wal e) w0 w" and em: "eng_manager e = m"
    using x by (auto simp: rewritten_def)
  obtain xs where xs: "created = xs @ [filepath_Join (cs_dir c) rel @ ''.lock'']" "\<forall>p \<in> set xs. fs w0 p = None"
    using x by (auto simp: rewritten_def)
  have e: "e = \<lparr>eng_manager = m, eng_wal = eng_wal e\<rparr>" using em by (cases e) simp
  obtain cm err c1 w2 where pub: "publish_next jl lk v c w = ((cm, err), c1, w2)" by (metis prod_cases4 surj_pair)
  have c1: "cs_manager c1 = cs_manager c" "cs_wal c1 = cs_wal c" using pub by (auto simp: publish_next_def split: prod.splits)
  show ?thesis
  proof (cases cm)
    case False
    let ?w3 = "cleanup xs (discard_wal lk (eng_wal e) w2)"
    have r: "\<not> committed" "c' = c1" "w' = cleanup [filepath_Join (cs_dir c) rel @ ''.lock''] ?w3"
      using rc pub False xs(1) by (auto simp: rewrite_commit_def cleanup_append)
    have t: "touches (insert (wal_path (eng_wal e)) (set xs)) w2 ?w3"
      by (rule touches_trans [OF touches_mono [OF discard_wal_touches] touches_mono [OF cleanup_touches]]) auto
    have fr: "fs w0 p = None" if "p \<in> insert (wal_path (eng_wal e)) (set xs)" for p using that xs(2) nl by (auto simp: new_log_def)
    have pf: "publish_next jl lk v c w = ((False, err), c1, w2)" using pub False by simp
    have js1: "json_stores jl (vm_current (cs_versions c1))" using js r by simp
    have "coll_inv jl c1 ?w3" by (rule commit_failed(1) [OF inv g js1 pf t fr])
    then have "coll_inv jl c1 w'" unfolding r(3) by (rule coll_inv_lock [OF _ cleanup_lock])
    then show ?thesis using r c1 by (simp add: rewrite_outcome_def)
  next
    case True
    obtain es l' w3 where cl: "WAL_Close (close_wal lk) (cs_wal c1) w2 = (es, l', w3)" by (cases "WAL_Close (close_wal lk) (cs_wal c1) w2")
    have r: "committed" "c' = c1\<lparr>cs_engine := e\<rparr>" "w' = w3" using rc pub True cl by (auto simp: rewrite_commit_def)
    have pt: "publish_next jl lk v c w = ((True, err), c1, w2)" using pub True by simp
    have js1: "json_stores jl (vm_current (cs_versions c1))" using js r by simp
    have t: "touches {wal_path (cs_wal c)} w2 w3" using WAL_Close_touches [OF cl] c1 by simp
    have "coll_inv jl (c1\<lparr>cs_engine := \<lparr>eng_manager = m, eng_wal = eng_wal e\<rparr>\<rparr>) w3"
      by (rule commit_new [OF inv g js1 pt t nv ok(1) sn seg nl])
    then have "coll_inv jl c' w'" unfolding r(2,3) using e by simp
    then show ?thesis using r em ok(2) by (simp add: rewrite_outcome_def)
  qed
qed

lemma docs_kv_iff:
  assumes "distinct (map doc_PrimaryKey docs)"
  shows "docs_kv docs k = Some v \<longleftrightarrow> (\<exists>x \<in> set docs. doc_PrimaryKey x = k \<and> doc_Payload x = v)"
  using assms by (auto simp: docs_kv_def map_of_eq_Some_iff comp_def)

lemma imm_wf_last:
  assumes "imm_wf s"
  shows "imm_docs s \<noteq> []" "MaxDocID (imm_metadata s) = doc_DocID (last (imm_docs s))"
proof -
  show ne: "imm_docs s \<noteq> []" using assms by (simp add: imm_wf_def)
  have md: "imm_metadata s = segmentMetadata (seg_ID (imm_metadata s)) (imm_docs s) (Files (imm_metadata s))"
    using assms unfolding imm_wf_def by blast
  show "MaxDocID (imm_metadata s) = doc_DocID (last (imm_docs s))" by (subst md) (simp add: segmentMetadata_def ne)
qed

lemma rewritten_manager:
  assumes r: "rewriting dir m md w" and docs: "set (mgr_docs m) = set documents" and d: "distinct (map doc_PrimaryKey documents)"
    and below: "\<And>x. x \<in> set documents \<Longrightarrow> doc_DocID x < nextDocID"
    and nw: "NewWriteSegment writingID nextDocID cap = Inr nws"
    and sw: "SegmentManager_SetWriting nws m = (None, m2)" and v: "validateCollectionState m2 = None"
  shows "mgr_ok m2" "mgr_kv m2 = docs_kv documents" "mgr_immutable m2 = mgr_immutable m" "mgr_writing m2 = Some nws"
proof -
  note n = NewWriteSegment_wf [OF nw]
  have wf: "mgr_wf m" using r by (simp add: rewriting_def)
  have m2: "m2 = m\<lparr>mgr_writing := Some nws\<rparr>" "mgr_wf m2" using SegmentManager_SetWriting_ok [OF wf _ sw] n by auto
  show im: "mgr_immutable m2 = mgr_immutable m" and mw: "mgr_writing m2 = Some nws" using m2 by simp_all
  have docs2: "set (mgr_docs m2) = set documents"
    using docs r n m2 by (simp add: mgr_docs_def writing_docs_def rewriting_def)
  have "MaxDocID (imm_metadata s) < nextDocID" if s: "(i, s) \<in> set (mgr_immutable m)" for i s
  proof -
    have "imm_wf s" using immutables_wf_member [OF _ s] wf by (simp add: mgr_wf_def)
    note mx = imm_wf_last [OF this]
    have "last (imm_docs s) \<in> set (mgr_docs m)" unfolding set_mgr_docs using s last_in_set [OF mx(1)] by blast
    then show ?thesis using below docs mx(2) by auto
  qed
  then have o: "mgr_ordered m2" using n by (auto simp: mgr_ordered_def m2)
  then show ok: "mgr_ok m2" using validateCollectionState_iff [OF m2(2) o] v m2(2) by (simp add: mgr_ok_def)
  have nd: "\<not> DeleteStore_IsDeleted x (mgr_deletes m2)" for x
    using r m2 by (simp add: rewriting_def NewDeleteStore_def DeleteStore_IsDeleted_def)
  show "mgr_kv m2 = docs_kv documents"
    by (rule ext, rule option_eq_iff) (simp add: mgr_kv_iff [OF ok] docs2 nd docs_kv_iff [OF d])
qed

lemma coll_inv_outcome: "coll_inv jl c w' \<Longrightarrow> rewrite_outcome jl documents c False c w'"
  by (simp add: rewrite_outcome_def)

lemma rewriting_start: "rewriting dir (NewSegmentManager (Some NewPrimaryKeyMap) (Some NewDeleteStore)) [] w"
  using NewSegmentManager_wf [of "Some NewPrimaryKeyMap" "Some NewDeleteStore"] pk_wf_New
  by (simp add: rewriting_def NewSegmentManager_def NewDeleteStore_def NewPrimaryKeyMap_def del_wf_def)

lemma rewrite_runs_outcome:
  assumes inv: "coll_inv jl c w" and js: "json_stores jl (vm_current (cs_versions c'))"
    and d: "distinct (map doc_PrimaryKey documents)" and below: "\<And>x. x \<in> set documents \<Longrightarrow> doc_DocID x < nextDocID"
    and rr: "rewrite_runs jl lk schema documents nextDocID c w = ((committed, errs), c', w')"
  shows "rewrite_outcome jl documents c committed c' w'"
proof -
  let ?v = "vm_current (cs_versions c)" and ?dir = "cs_dir c"
  let ?runs = "rewriteDocumentRuns (SegmentMaxDocuments ?v) documents"
  let ?wid = "NextSegmentID ?v + len64 ?runs"
  obtain x w1 where x: "rewrite_segments ?dir (Generation ?v + 1) ?runs (NextSegmentID ?v)
      (NewSegmentManager (Some NewPrimaryKeyMap) (Some NewDeleteStore)) [] [] w = (x, w1)"
    by (cases "rewrite_segments ?dir (Generation ?v + 1) ?runs (NextSegmentID ?v)
      (NewSegmentManager (Some NewPrimaryKeyMap) (Some NewDeleteStore)) [] [] w")
  note xs = rewrite_segments_spec [OF x rewriting_start grows_refl, simplified]
  have g1: "grows w w1" using xs by blast
  have undo: "rewrite_outcome jl documents c False c (cleanup cs w1)" if "\<forall>p \<in> set cs. fs w p = None" for cs
    using coll_inv_outcome [OF coll_inv_grows [OF inv grows_cleanup [OF g1]]] that by blast
  consider "\<not> committed \<and> c' = c \<and> w' = w"
    | e cs where "x = Inl (e, cs)" "\<not> committed \<and> c' = c \<and> w' = cleanup cs w1"
    | m md cs where "x = Inr (m, md, cs)" "\<not> committed \<and> c' = c \<and> w' = cleanup cs w1"
    | m md cs nws m2 y w2 where "x = Inr (m, md, cs)" "NewWriteSegment ?wid nextDocID (SegmentMaxDocuments ?v) = Inr nws"
      "SegmentManager_SetWriting nws m = (None, m2)" "validateCollectionState m2 = None"
      "rewrite_files lk c ?v ?wid m2 cs w1 = (y, w2)"
      "case y of Inl e \<Rightarrow> \<not> committed \<and> c' = c \<and> w' = w2 | Inr (gen, rel, e, created) \<Rightarrow>
         rewrite_commit jl lk (rewrite_manifest ?v schema md ?wid nextDocID gen rel) e created c w2 = ((committed, errs), c', w')"
    using rr x unfolding rewrite_runs_def
    by (auto simp: Let_def split: if_splits sum.splits option.splits prod.splits)
  then show ?thesis
  proof cases
    case 1
    then show ?thesis using coll_inv_outcome [OF inv] by simp
  next
    case 2
    then show ?thesis using undo xs by simp
  next
    case 3
    then show ?thesis using undo xs by simp
  next
    case 4
    have rm: "rewriting ?dir m md w1" "set (mgr_docs m) = set documents" "\<And>p. p \<in> set cs \<Longrightarrow> fs w p = None"
      using xs 4(1) concat_runs [of "SegmentMaxDocuments ?v" documents]
      by (auto simp: mgr_docs_def NewSegmentManager_def writing_docs_def simp flip: set_concat)
    note m2 = rewritten_manager [OF rm(1,2) d below 4(2-4)]
    note ys = rewrite_files_spec [OF mgr_okD(1) [OF m2(1)] _ g1 rm(3) 4(5)]
    show ?thesis
    proof (cases y)
      case (Inl e)
      then show ?thesis using ys m2(4) 4(6) coll_inv_outcome [OF undone_inv [OF inv]] by simp
    next
      case (Inr z)
      obtain gen rel e created where z: "z = (gen, rel, e, created)" by (metis prod_cases4)
      have y: "grows w1 w2" "rewritten ?dir ?wid m2 (gen, rel, e, created) w w2" using ys m2(4) Inr z by auto
      obtain h where h: "rel = walFileName ?wid h" using y(2) by (auto simp: rewritten_def)
      have nv: "new_version (SegmentMaxDocuments ?v) gen rel m2 (rewrite_manifest ?v schema md ?wid nextDocID gen rel)"
        using NewWriteSegment_wf [OF 4(2)] 4(2) m2(3,4) rm(1) h
        by (auto simp: new_version_def lifecycle_def rewrite_manifest_def rewriting_def)
      have "\<forall>(i, s) \<in> set (mgr_immutable m2). segment_stored ?dir s w2"
        using rm(1) m2(3) segment_stored_grows [OF _ y(1)] by (auto simp: rewriting_def)
      then show ?thesis
        using rewrite_commit_outcome [OF inv js grows_trans [OF g1 y(1)] y(2) nv m2(1,2)] 4(6) Inr z by simp
    qed
  qed
qed

section \<open>Rewriting the documents\<close>

lemma check_rewrite_None:
  "check_rewrite documents live keys = None \<Longrightarrow> length documents = length live \<Longrightarrow>
     map doc_DocID documents = map doc_DocID live \<and> map doc_PrimaryKey documents = map doc_PrimaryKey live
     \<and> distinct (map doc_PrimaryKey documents) \<and> set (map doc_PrimaryKey documents) \<inter> set keys = {}"
  by (induction documents live keys rule: check_rewrite.induct) (auto split: if_splits option.splits)

lemma sorted_last_less:
  assumes s: "sorted_wrt (<) (map doc_DocID documents)" and l: "documents \<noteq> [] \<longrightarrow> doc_DocID (last documents) < n"
    and x: "x \<in> set documents"
  shows "doc_DocID x < n"
  using assms by (cases documents rule: rev_cases) (auto simp: sorted_wrt_append intro: less_trans)

lemma RewriteDocuments_inv:
  assumes inv: "coll_inv jl c w" and js: "json_stores jl (vm_current (cs_versions c'))"
    and rw: "CollectionStore_RewriteDocuments jl lk schema documents c w = ((committed, errs), c', w')"
  shows "rewrite_outcome jl documents c committed c' w'"
proof -
  obtain e0 w0 where c0: "ctx_Err w = (e0, w0)" by (cases "ctx_Err w")
  obtain x w1 where l: "SegmentManager_LiveDocuments (cs_manager c) w0 = (x, w1)"
    by (cases "SegmentManager_LiveDocuments (cs_manager c) w0")
  obtain r wal w2 where s: "WAL_Sync (cs_wal c) w1 = (r, wal, w2)" by (metis prod_cases3)
  let ?c = "c\<lparr>cs_engine := (cs_engine c)\<lparr>eng_wal := wal\<rparr>\<rparr>"
  note inv0 = coll_inv_grows [OF inv ctx_Err_grows [OF c0]]
  note inv1 = coll_inv_grows [OF inv0 LiveDocuments_grows [OF l]]
  note inv2 = coll_inv_sync [OF inv1 s]
  have keep: "rewrite_outcome jl documents c False ?c w2" using inv2 by (simp add: rewrite_outcome_def)
  consider "\<not> committed \<and> c' = c \<and> w' = w0" | "\<not> committed \<and> c' = c \<and> w' = w1" | "\<not> committed \<and> c' = ?c \<and> w' = w2"
    | live n where "x = Inr live" "length documents = length live" "check_rewrite documents live [] = None"
      "documents \<noteq> [] \<longrightarrow> doc_DocID (last documents) < n"
      "rewrite_runs jl lk schema documents n ?c w2 = ((committed, errs), c', w')"
    using rw c0 l s unfolding CollectionStore_RewriteDocuments_def
    by (auto simp: Let_def not_le split: if_splits sum.splits option.splits)
  then show ?thesis
  proof cases
    case 4
    obtain m0 ps where e: "eng_inv m0 ps (cs_engine c) w" using inv by (rule coll_invE)
    have ok: "mgr_ok (cs_manager c)" using e by (simp add: eng_inv_def)
    note ck = check_rewrite_None [OF 4(3,2)]
    have "sorted_wrt (<) (map doc_DocID live)" using LiveDocuments_sound(1) [OF ok l [unfolded 4(1)]] by (simp add: sorted_wrt_map)
    then have "sorted_wrt (<) (map doc_DocID documents)" using ck by simp
    note below = sorted_last_less [OF this 4(4)]
    have "rewrite_outcome jl documents ?c committed c' w'"
      using rewrite_runs_outcome [OF inv2 js _ below 4(5)] ck by blast
    then show ?thesis by (simp add: rewrite_outcome_def)
  qed (use coll_inv_outcome [OF inv0] coll_inv_outcome [OF inv1] keep in simp_all)
qed

end
