(* ===== verification/Collection_History.thy ===== *)
theory Collection_History
  imports Collection_Prune Collection_Rewrite
begin

text \<open>
  Histories of a collection: a step relation whose steps are the operations of \<open>collection.go\<close> that change the
  handle or the files, a new call with its own schedule of cancellation and failures, and a
  crash followed by an open.  Every reachable state satisfies the collection invariant, so a
  collection can always be opened again (\<open>coll_reachable_reopens\<close>).  The batch operations of the handle are made of these steps.
\<close>

section \<open>Steps\<close>

text \<open>A committed version has to be one the JSON library can store; this is the condition on \<open>c'\<close> of the steps that
  publish.  The locks are free when a collection is opened.\<close>

inductive coll_step :: "json_lib \<Rightarrow> CollectionStore \<times> world \<Rightarrow> CollectionStore \<times> world \<Rightarrow> bool" for jl where
  step_write: "requireWritableLocked c = None \<Longrightarrow> engine_step (cs_engine c, w) (e', w')
    \<Longrightarrow> coll_step jl (c, w) (c\<lparr>cs_engine := e'\<rparr>, w')"
| step_flush: "CollectionStore_Flush jl lk c w = (errs, c', w') \<Longrightarrow> json_stores jl (vm_current (cs_versions c'))
    \<Longrightarrow> coll_step jl (c, w) (c', w')"
| step_schema: "CollectionStore_PublishSchema jl lk schema c w = (r, c', w') \<Longrightarrow> json_stores jl (vm_current (cs_versions c'))
    \<Longrightarrow> coll_step jl (c, w) (c', w')"
| step_indexes: "CollectionStore_PublishSegmentIndexSnapshots jl lk snapshots c w = (r, c', w')
    \<Longrightarrow> json_stores jl (vm_current (cs_versions c')) \<Longrightarrow> coll_step jl (c, w) (c', w')"
| step_rewrite: "CollectionStore_RewriteDocuments jl lk schema documents c w = (r, c', w')
    \<Longrightarrow> json_stores jl (vm_current (cs_versions c')) \<Longrightarrow> coll_step jl (c, w) (c', w')"
| step_prune: "CollectionStore_PruneObsoleteArtifacts c w = (err, w') \<Longrightarrow> coll_step jl (c, w) (c, w')"
| step_close: "CollectionStore_Close lk c w = (errs, c', w') \<Longrightarrow> coll_step jl (c, w) (c', w')"
| step_call: "coll_step jl (c, w) (c, w\<lparr>polls := n, outcomes := ios\<rparr>)"
| step_reopen: "restart w w1 \<Longrightarrow> wal_lastLSN (cs_wal c) < MaxUint64 \<Longrightarrow> \<not> opt_ReadOnly opts
    \<Longrightarrow> try_collection lk = Inr True \<Longrightarrow> try_wal lk = Inr True
    \<Longrightarrow> OpenCollection jl lk (cs_dir c) opts w1 = (Inr c', w') \<Longrightarrow> coll_step jl (c, w) (c', w')"

lemma coll_inv_call: "coll_inv jl c w \<Longrightarrow> coll_inv jl c (w\<lparr>polls := n, outcomes := ios\<rparr>)"
  by (erule coll_inv_grows) (simp add: grows_def touches_def paths_complete_def)

lemma coll_step_inv:
  assumes st: "coll_step jl (c, w) (c', w')" and inv: "coll_inv jl c w"
  shows "coll_inv jl c' w'"
  using st inv
proof (induction "(c, w)" "(c', w')" rule: coll_step.induct)
  case (step_write e')
  then show ?case using engine_steps_coll_inv [OF inv] by blast
next
  case (step_flush lk errs)
  then show ?case using Flush_inv(1) [OF inv] by blast
next
  case (step_schema lk schema r)
  then show ?case using PublishSchema_inv [OF inv] by blast
next
  case (step_indexes lk snapshots r)
  then show ?case using PublishSegmentIndexSnapshots_inv [OF inv] by blast
next
  case (step_rewrite lk schema documents r)
  then show ?case using RewriteDocuments_inv [OF inv] by (cases r) (auto simp: rewrite_outcome_def)
next
  case (step_prune err)
  then show ?case using Prune_inv [OF inv] by simp
next
  case (step_close lk errs)
  then show ?case using Close_inv(1) [OF inv] by blast
next
  case (step_call n ios)
  then show ?case using coll_inv_call [OF inv] by metis
next
  case (step_reopen w1 opts lk)
  obtain c'' w'' where "OpenCollection jl lk (cs_dir c) opts w1 = (Inr c'', w'')" "coll_inv jl c'' w''"
    by (rule OpenCollection_reopens [OF inv step_reopen(1-5)])
  then show ?case using step_reopen(6) by simp
qed

lemma coll_reachable_inv:
  assumes "(coll_step jl)\<^sup>*\<^sup>* (c, w) (c', w')" and "coll_inv jl c w"
  shows "coll_inv jl c' w'"
  using assms by (induction "(c', w')" arbitrary: c' w' rule: rtranclp_induct) (auto intro: coll_step_inv)

section \<open>Batches\<close>

lemma engine_steps_coll_steps:
  assumes "engine_step\<^sup>*\<^sup>* (cs_engine c, w) (e', w')" and "requireWritableLocked c = None"
  shows "(coll_step jl)\<^sup>*\<^sup>* (c, w) (c\<lparr>cs_engine := e'\<rparr>, w')"
  using assms(1)
proof (induction "(e', w')" arbitrary: e' w' rule: rtranclp_induct)
  case base
  then show ?case by simp
next
  case (step y)
  obtain e1 w1 where y: "y = (e1, w1)" by (cases y)
  have "requireWritableLocked (c\<lparr>cs_engine := e1\<rparr>) = None" using assms(2) by (simp add: requireWritableLocked_def split: if_splits)
  from coll_step.step_write [OF this, of w1 e' w'] step.hyps(2) y
  have "coll_step jl (c\<lparr>cs_engine := e1\<rparr>, w1) (c\<lparr>cs_engine := e'\<rparr>, w')" by simp
  with step.hyps(3) [OF y] show ?case by (rule rtranclp.rtrancl_into_rtrancl)
qed

lemma batch_steps:
  assumes run: "with_engine (run_batch key_of one inputs) c w = (Inr (results, err), c', w')"
    and ok: "list_all (\<lambda>r. wr_Err r = None) results"
    and one: "\<And>i e w d e' w'. one i e w = (Inr d, e', w') \<Longrightarrow> engine_step (e, w) (e', w')"
  shows "(coll_step jl)\<^sup>*\<^sup>* (c, w) (c', w')"
proof -
  obtain e' where e: "requireWritableLocked c = None" "batch_loop key_of one inputs (cs_engine c) w = (results, e', w')"
    "c' = c\<lparr>cs_engine := e'\<rparr>"
    using run by (auto simp: with_engine_def run_batch_def Let_def split: option.splits prod.splits if_splits)
  have "engine_step\<^sup>*\<^sup>* (cs_engine c, w) (e', w')" by (rule batch_loop_steps [OF _ e(2) ok]) (rule one)
  then show ?thesis unfolding e(3) by (rule engine_steps_coll_steps) (rule e(1))
qed

lemma successful_batches_are_steps:
  assumes "list_all (\<lambda>r. wr_Err r = None) results"
  shows "CollectionStore_Insert inputs c w = (Inr (results, err), c', w') \<Longrightarrow> (coll_step jl)\<^sup>*\<^sup>* (c, w) (c', w')"
    "CollectionStore_Upsert inputs c w = (Inr (results, err), c', w') \<Longrightarrow> (coll_step jl)\<^sup>*\<^sup>* (c, w) (c', w')"
    "CollectionStore_Update inputs c w = (Inr (results, err), c', w') \<Longrightarrow> (coll_step jl)\<^sup>*\<^sup>* (c, w) (c', w')"
    "CollectionStore_Delete ks c w = (Inr (results, err), c', w') \<Longrightarrow> (coll_step jl)\<^sup>*\<^sup>* (c, w) (c', w')"
  unfolding CollectionStore_Insert_def CollectionStore_Upsert_def CollectionStore_Update_def CollectionStore_Delete_def
    WriteEngine_Insert_def WriteEngine_Upsert_def WriteEngine_Update_def WriteEngine_Delete_def
  by (erule batch_steps [OF _ assms], erule success_steps)+

section \<open>Opening a collection again\<close>

lemma coll_reachable_reopens:
  assumes run: "(coll_step jl)\<^sup>*\<^sup>* (c0, w0) (c, w)" and inv: "coll_inv jl c0 w0"
    and r: "restart w w1" and short: "wal_lastLSN (cs_wal c) < MaxUint64"
    and opts: "\<not> opt_ReadOnly opts" and lk: "try_collection lk = Inr True" "try_wal lk = Inr True"
  shows "\<exists>c' w'. OpenCollection jl lk (cs_dir c) opts w1 = (Inr c', w') \<and> requireWritableLocked c' = None
    \<and> cs_versions c' = cs_versions c
    \<and> (mgr_kv (cs_manager c') = mgr_kv (cs_manager c)
       \<or> wal_poisoned (cs_wal c) \<noteq> None \<and> (\<exists>p m. replays [p] (cs_manager c) m \<and> mgr_kv (cs_manager c') = mgr_kv m))"
proof -
  note i = coll_reachable_inv [OF run inv]
  obtain c' w' where o: "OpenCollection jl lk (cs_dir c) opts w1 = (Inr c', w')" "coll_inv jl c' w'"
    "cs_versions c' = cs_versions c" "requireWritableLocked c' = None" "recovered_from (cs_engine c) (cs_manager c')"
    by (rule OpenCollection_reopens [OF i r short opts lk])
  obtain m0 ps where "eng_inv m0 ps (cs_engine c') w'" using o(2) by (rule coll_invE)
  then have ok: "mgr_ok (cs_manager c')" by (simp add: eng_inv_def)
  have "mgr_kv (cs_manager c') = mgr_kv m" if "mgr_sim m (cs_manager c')" for m
    using mgr_sim_ok(2) [OF mgr_sim_sym [OF that] ok] by simp
  then show ?thesis using o unfolding recovered_from_def by blast
qed

section \<open>The directory of a handle\<close>

lemma publish_next_dir: "publish_next jl lk v c w = (r, c', w') \<Longrightarrow> cs_dir c' = cs_dir c"
  by (auto simp: publish_next_def split: prod.splits)

lemma Flush_dir: "CollectionStore_Flush jl lk c w = (errs, c', w') \<Longrightarrow> cs_dir c' = cs_dir c"
  by (auto simp: CollectionStore_Flush_def flush_commit_def Let_def split: prod.splits option.splits sum.splits if_splits
      dest!: publish_next_dir)

lemma rewrite_commit_dir: "rewrite_commit jl lk v e created c w = (r, c', w') \<Longrightarrow> cs_dir c' = cs_dir c"
  by (auto simp: rewrite_commit_def split: prod.splits if_splits dest!: publish_next_dir)

lemma rewrite_runs_dir: "rewrite_runs jl lk schema documents n c w = (r, c', w') \<Longrightarrow> cs_dir c' = cs_dir c"
  by (auto simp: rewrite_runs_def Let_def split: prod.splits option.splits sum.splits if_splits dest!: rewrite_commit_dir)

lemma RewriteDocuments_dir: "CollectionStore_RewriteDocuments jl lk schema documents c w = (r, c', w') \<Longrightarrow> cs_dir c' = cs_dir c"
  by (auto simp: CollectionStore_RewriteDocuments_def Let_def split: prod.splits option.splits sum.splits if_splits
      dest!: rewrite_runs_dir)

lemma OpenCollection_dir: "OpenCollection jl lk dir opts w = (Inr c, w') \<Longrightarrow> cs_dir c = dir"
  by (auto simp: OpenCollection_def open_version_def NewWriteEngine_def Let_def
      split: prod.splits option.splits sum.splits if_splits)

lemma coll_step_dir: "coll_step jl (c, w) (c', w') \<Longrightarrow> cs_dir c' = cs_dir c"
  by (erule coll_step.cases)
    (auto simp: CollectionStore_PublishSchema_def CollectionStore_PublishSegmentIndexSnapshots_def CollectionStore_Close_def Let_def
      split: prod.splits option.splits if_splits dest!: Flush_dir RewriteDocuments_dir OpenCollection_dir publish_next_dir)

lemma coll_reachable_dir: "(coll_step jl)\<^sup>*\<^sup>* (c, w) (c', w') \<Longrightarrow> cs_dir c' = cs_dir c"
  by (induction "(c', w')" arbitrary: c' w' rule: rtranclp_induct) (auto dest: coll_step_dir)

section \<open>Handles that refuse\<close>

lemma refused_writes:
  assumes r: "requireWritableLocked c = Some e"
  shows "CollectionStore_Insert inputs c w = (Inl e, c, w)" "CollectionStore_Upsert inputs c w = (Inl e, c, w)"
    "CollectionStore_Update inputs c w = (Inl e, c, w)" "CollectionStore_Delete ks c w = (Inl e, c, w)"
  using r by (simp_all add: CollectionStore_Insert_def CollectionStore_Upsert_def CollectionStore_Update_def
      CollectionStore_Delete_def with_engine_def)

end
