(* ===== verification/Collection_Scenario.thy ===== *)
theory Collection_Scenario
  imports Scenario Collection_History
begin

text \<open>
  A concrete collection on which the properties of \<open>collection.go\<close> are exercised: created in the
  current directory of an empty file system, with room for ten documents in a segment, and then given a document.
\<close>

section \<open>A collection\<close>

definition first_options :: CollectionOptions where
  "first_options = \<lparr>opt_ReadOnly = False, opt_EnableMmap = False, opt_SegmentMaxDocuments = 10, opt_WAL = \<lparr>SyncEvery = 0\<rparr>\<rparr>"

definition free_locks :: flocks where
  "free_locks = \<lparr>try_collection = Inr True, try_wal = Inr True, try_version = Inr True, close_wal = None, close_collection = None\<rparr>"

definition first_manifest :: Manifest where
  "first_manifest = initial_manifest [0x7B, 0x7D] False 10 (walFileName 0 1)"

abbreviation first_json :: json_lib where
  "first_json \<equiv> plain_json first_manifest"

text \<open>Directories below the current one are created when they are missing.\<close>

lemma subdirectory_paths:
  "filepath_Dir (filepath_Join ''.'' (walFileName 0 1)) = ''wal''"
  "filepath_Dir (filepath_Join ''.'' (primarySnapshotName 1)) = ''snapshots''"
  "filepath_Dir (filepath_Join ''.'' (deleteSnapshotName 1)) = ''snapshots''"
  "filepath_Dir ''wal'' = ''.''" "filepath_Dir ''snapshots'' = ''.''"
  "ancestors ''wal'' = [''wal'', ''.'']" "ancestors ''snapshots'' = [''snapshots'', ''.'']"
  by code_simp+

lemma subdirectory_created:
  assumes "calm w" and "d \<in> {''wal'', ''snapshots''}" and "''.'' \<in> set (dirs w)" and "fs w d = None" "fs w ''.'' = None"
  shows "\<exists>w'. ensureDirectorySynced d w = (None, w') \<and> calm w' \<and> fs w' = fs w \<and> paths w' = paths w \<and> ''.'' \<in> set (dirs w')"
proof (cases "d \<in> set (dirs w)")
  case True
  then show ?thesis using ensureDirectorySynced_exists [OF assms(1)] assms by auto
next
  case False
  let ?w = "w\<lparr>dirs := remdups (ancestors d @ dirs w)\<rparr>"
  have "missing_directories ''.'' ms w = (Inr ms, w)" for ms
    using assms(1,3) by (subst missing_directories.simps) (simp add: os_StatDir_def calm_def)
  then have "missing_directories d [] w = (Inr [d], w)"
    using assms False subdirectory_paths(4,5)
    by (auto simp: missing_directories.simps [of d "[]" w] os_StatDir_def calm_def Let_def)
  moreover have "os_MkdirAll d w = (None, ?w)"
    using assms False subdirectory_paths(6,7) by (auto simp: os_MkdirAll_def calm_def)
  moreover have "calm ?w" using assms(1) by (simp add: calm_def)
  ultimately show ?thesis using assms(3) sync_parents_calm by (auto simp: ensureDirectorySynced_def syncDirectory_def calm_def)
qed

lemma snapshot_created:
  assumes "calm w" and "ensureDirectorySynced (filepath_Dir name) w = (None, w1)" "calm w1" "fs w1 name = None" "name \<noteq> []"
  shows "writeImmutableSnapshot name c w = (None, set_file name \<lparr>content = c, synced = length c\<rparr> w1)"
proof -
  have same: "w1\<lparr>outcomes := []\<rparr> = w1" using assms(3) by (cases w1) (simp add: calm_def)
  show ?thesis using assms
    by (cases c) (auto simp: same calm_def writeImmutableSnapshot_def installFileNoReplace_def
        syncDirectory_def writeTempSynced_def Let_def write_at_def)
qed

lemma log_created:
  assumes "calm w" and "fs w name = None" and "name \<noteq> []"
  shows "\<exists>l w'. CreateWAL name opts (Inr True) w = (Inr l, w') \<and> calm w' \<and> dirs w' = dirs w
    \<and> fs w' = (fs w)(name \<mapsto> \<lparr>content = encodeWALFileHeader, synced = 32\<rparr>) \<and> \<not> wal_closed l \<and> \<not> wal_readOnly l \<and> wal_options l = opts
    \<and> wal_lastLSN l = 0"
proof -
  have n: "length encodeWALFileHeader = 32" "encodeWALFileHeader \<noteq> []" by (auto simp flip: length_greater_0_conv)
  have "WriteFullAt [] [] src 0 = (None, src, [])" for src by (cases src) (auto simp: write_at_def)
  then show ?thesis using n assms
    by (simp add: CreateWAL_def calm_def os_Stat_def os_CreateExcl_def set_file_def file_WriteFullAt_def
        file_Sync_def syncDirectory_def)
qed

lemma first_manifest_valid: "g \<noteq> 0 \<Longrightarrow> Manifest_Validate (prepareManifest first_manifest g) = None"
proof -
  assume g: "g \<noteq> 0"
  have "validatePortableRelativePath (walFileName 0 1) = None" by code_simp
  then have "validateSegment \<lparr>seg_ID = 0, MinDocID = 0, MaxDocID = 0, DocCount = 0, Files = [walFileName 0 1]\<rparr> = None"
    by (simp add: validateSegment_def)
  then show ?thesis using json_Object_empty g
    by (simp add: Manifest_Validate_iff manifest_ok_def prepareManifest_def first_manifest_def initial_manifest_def
        all_segments_def DiskFormatVersion_def)
qed

lemma first_version_created:
  assumes c: "calm w" and pc: "paths_complete w" and "''.'' \<in> set (dirs w)" and cur: "fs w (current_path ''.'') = None"
    and none: "\<And>g p. fs w p \<noteq> None \<Longrightarrow> filepath_Base p \<noteq> manifestFileName g"
  shows "\<exists>m w'. CreateVersionManager first_json (Inr True) ''.'' first_manifest w = ((Some m, None), w') \<and> calm w'"
proof -
  obtain g where g: "nextManifestGeneration ''.'' w = (Inr g, w)" using generation_room [OF c] none by blast
  note fresh = nextManifestGeneration_fresh [OF g pc]
  let ?v = "prepareManifest first_manifest g"
  have gv: "Generation ?v = g" by (simp add: prepareManifest_def)
  obtain w' where p: "publishLocked first_json ''.'' [] ?v w = ((manifestFileName g, True, None), w')" "calm w'"
    using publishLocked_calm [OF c first_manifest_valid [of g] plain_json_stores, of "''.''" "[]"] gv fresh cur by auto
  have "os_MkdirAll ''.'' w = (None, w)" using assms(1,3) by (simp add: os_MkdirAll_def calm_def)
  moreover have "readCurrent ''.'' w = (Inl (Sentinel ErrManifestNotFound), w)"
    using c cur by (simp add: readCurrent_def os_Open_def calm_def)
  moreover have "ctx_Err w = (None, w)" using c by (simp add: calm_def)
  ultimately show ?thesis using p g by (simp add: CreateVersionManager_def Let_def)
qed

lemma empty_snapshots_written:
  "calm w \<Longrightarrow> (\<And>c. writeImmutableSnapshot name c w = (None, f c)) \<Longrightarrow>
     (\<exists>c. PrimaryKeyMap_WriteSnapshot name NewPrimaryKeyMap w = (None, f c))"
  "calm w \<Longrightarrow> (\<And>c. writeImmutableSnapshot name c w = (None, f c)) \<Longrightarrow>
     (\<exists>c. DeleteStore_WriteSnapshot name NewDeleteStore w = (None, f c))"
  by (auto simp: PrimaryKeyMap_WriteSnapshot_def NewPrimaryKeyMap_def pk_sorted_keys_def DeleteStore_WriteSnapshot_def
      NewDeleteStore_def Let_def encodeSnapshot_def pk_payload_def del_payload_def maxSnapshotPayload_def)

lemma first_collection:
  obtains c w where "CreateCollection first_json free_locks ''.'' [0x7B, 0x7D] first_options quiet_world = (Inr c, w)"
    "calm w" "coll_inv first_json c w" "mgr_kv (cs_manager c) = Map.empty" "requireWritableLocked c = None" "cs_dir c = ''.''"
    "\<not> wal_closed (cs_wal c)" "\<not> wal_readOnly (cs_wal c)" "wal_options (cs_wal c) = \<lparr>SyncEvery = 0\<rparr>" "wal_poisoned (cs_wal c) = None"
    "wal_lastLSN (cs_wal c) = 0" "mgr_writing (cs_manager c) = Some \<lparr>ws_id = 0, ws_minDocID = 0, ws_maxDocs = 10, ws_docs = [], ws_sealed = False\<rparr>"
    "json_stores first_json (vm_current (cs_versions c))"
proof -
  let ?wp = "filepath_Join ''.'' (walFileName 0 1)" and ?pp = "filepath_Join ''.'' (primarySnapshotName 1)"
    and ?dp = "filepath_Join ''.'' (deleteSnapshotName 1)"
  have strs: "?wp \<noteq> ''.''" "?wp \<noteq> ''snapshots''" "?pp \<noteq> ''.''" "?pp \<noteq> ''snapshots''" by code_simp+
  have "hd (filepath_Base ?wp) \<noteq> CHR ''M''" "hd (filepath_Base ?pp) \<noteq> CHR ''M''" "hd (filepath_Base ?dp) \<noteq> CHR ''M''" by code_simp+
  then have bases: "filepath_Base ?wp \<noteq> manifestFileName g" "filepath_Base ?pp \<noteq> manifestFileName g"
    "filepath_Base ?dp \<noteq> manifestFileName g" for g
    by (auto simp: manifestFileName_def manifestPrefix_def)
  obtain w1 where w1: "ensureDirectorySynced (filepath_Dir ?wp) quiet_world = (None, w1)" "calm w1" "fs w1 = Map.empty"
    "paths w1 = []" "''.'' \<in> set (dirs w1)"
    using subdirectory_created [OF quiet_world_calm, of "''wal''"] subdirectory_paths(1) by (auto simp: quiet_world_def)
  obtain l w2 where w2: "CreateWAL ?wp \<lparr>SyncEvery = 0\<rparr> (Inr True) w1 = (Inr l, w2)" "calm w2" "dirs w2 = dirs w1"
    "fs w2 = [?wp \<mapsto> \<lparr>content = encodeWALFileHeader, synced = 32\<rparr>]" "\<not> wal_closed l" "\<not> wal_readOnly l"
    "wal_options l = \<lparr>SyncEvery = 0\<rparr>" "wal_lastLSN l = 0"
    using log_created [OF w1(2), of ?wp "\<lparr>SyncEvery = 0\<rparr>"] w1(3) by auto
  have np: "wal_poisoned l = None" using CreateWAL_empty [OF w2(1)] by simp
  obtain w3 where w3: "ensureDirectorySynced ''snapshots'' w2 = (None, w3)" "calm w3" "fs w3 = fs w2" "''.'' \<in> set (dirs w3)"
    using subdirectory_created [OF w2(2), of "''snapshots''"] strs w1(5) w2(3,4) by auto
  obtain pc where pc: "PrimaryKeyMap_WriteSnapshot ?pp NewPrimaryKeyMap w2 = (None, set_file ?pp \<lparr>content = pc, synced = length pc\<rparr> w3)"
    using empty_snapshots_written(1) [OF w2(2) snapshot_created [OF w2(2) _ w3(2)], of ?pp] w3(1,3) subdirectory_paths(2) w2(4) by auto
  define w4 where "w4 = set_file ?pp \<lparr>content = pc, synced = length pc\<rparr> w3"
  have c4: "calm w4" "fs w4 = (fs w2)(?pp \<mapsto> \<lparr>content = pc, synced = length pc\<rparr>)" "''.'' \<in> set (dirs w4)"
    using w3 by (simp_all add: w4_def calm_def set_file_def)
  obtain w5 where w5: "ensureDirectorySynced ''snapshots'' w4 = (None, w5)" "calm w5" "fs w5 = fs w4" "''.'' \<in> set (dirs w5)"
    using subdirectory_created [OF c4(1), of "''snapshots''"] strs w2(4) c4 by auto
  obtain dc where dc: "DeleteStore_WriteSnapshot ?dp NewDeleteStore w4 = (None, set_file ?dp \<lparr>content = dc, synced = length dc\<rparr> w5)"
    using empty_snapshots_written(2) [OF c4(1) snapshot_created [OF c4(1) _ w5(2)], of ?dp] w5(1,3) subdirectory_paths(3) c4(2) w2(4) by auto
  define w6 where "w6 = set_file ?dp \<lparr>content = dc, synced = length dc\<rparr> w5"
  have c6: "calm w6" "fs w6 = (fs w4)(?dp \<mapsto> \<lparr>content = dc, synced = length dc\<rparr>)" "''.'' \<in> set (dirs w6)"
    using w5 by (simp_all add: w6_def calm_def set_file_def)
  have "grows quiet_world w1" "grows w1 w2" "grows w2 w4" "grows w4 w6"
    using w1(1) w2(1) pc dc unfolding w4_def w6_def by (auto intro: grows_intros)
  then have "paths_complete w6" using quiet_paths by (simp add: grows_def)
  moreover have "filepath_Base p \<noteq> manifestFileName g" if "fs w6 p \<noteq> None" for g p
    using that bases c6(2) c4(2) w2(4) by (auto split: if_splits)
  ultimately obtain m w7 where v: "CreateVersionManager first_json (Inr True) ''.'' first_manifest w6 = ((Some m, None), w7)" "calm w7"
    using first_version_created [OF c6(1) _ c6(3)] c6(2) c4(2) w2(4) by auto
  have js: "json_stores first_json (vm_current m)" using CreateVersionManager_stored(4) [OF _ _ v(1)] plain_json_stores
    \<open>paths_complete w6\<close> by metis
  have pre: "OpenVersionManager first_json ''.'' quiet_world = (Inl (Sentinel ErrManifestNotFound), quiet_world)"
    "os_MkdirAll ''.'' quiet_world = (None, quiet_world)" "ctx_Err quiet_world = (None, quiet_world)"
    by (simp_all add: OpenVersionManager_def os_StatDir_def readCurrent_def os_Open_def os_MkdirAll_def quiet_world_def)
  let ?ws = "\<lparr>ws_id = 0, ws_minDocID = 0, ws_maxDocs = 10, ws_docs = [], ws_sealed = False\<rparr>"
  obtain mg where mg: "SegmentManager_SetWriting ?ws (NewSegmentManager (Some NewPrimaryKeyMap) (Some NewDeleteStore)) = (None, mg)"
    "mgr_writing mg = Some ?ws"
    by (simp add: SegmentManager_SetWriting_def NewSegmentManager_def)
  let ?c = "\<lparr>cs_dir = ''.'', cs_readOnly = False, cs_closed = False, cs_versions = m, cs_engine = \<lparr>eng_manager = mg, eng_wal = l\<rparr>\<rparr>"
  have cf: "create_files first_json free_locks ''.'' [0x7B, 0x7D] first_options 10 quiet_world = (Inr ?c, w7)"
    using w1(1) w2(1) pc dc v(1) mg
    by (simp add: create_files_def free_locks_def first_options_def Let_def NewWriteSegment_def NewWriteEngine_def
        first_manifest_def flip: w4_def w6_def)
  have cc: "CreateCollection first_json free_locks ''.'' [0x7B, 0x7D] first_options quiet_world = (Inr ?c, w7)"
    using cf pre json_Object_empty
    by (simp add: CreateCollection_def free_locks_def first_options_def Let_def validateSchemaJSON_def json_Object_def)
  note inv = CreateCollection_inv [OF quiet_paths _ cc]
  show ?thesis by (rule that [OF cc v(2) inv(1,2,4,3)]) (use js w2 np mg in simp_all)
qed

text \<open>A crash that loses nothing that was written.\<close>

definition power_cycle :: "world \<Rightarrow> world" where
  "power_cycle w = w\<lparr>fs := (\<lambda>p. map_option (\<lambda>f. whole (content f)) (fs w p))\<rparr>"

lemma restart_power_cycle: "calm w \<Longrightarrow> paths_complete w \<Longrightarrow> restart w (power_cycle w)"
proof -
  have "crash_image f (content f)" for f unfolding crash_image_def by (metis nat_le_linear take_all)
  then show "calm w \<Longrightarrow> paths_complete w \<Longrightarrow> restart w (power_cycle w)"
    by (auto simp: restart_def reboot_def calm_def power_cycle_def paths_complete_def split: option.splits)
qed

lemma first_collection_insert:
  obtains c w c1 w1 rs where "CreateCollection first_json free_locks ''.'' [0x7B, 0x7D] first_options quiet_world = (Inr c, w)"
    "CollectionStore_Insert [input_a] c w = (Inr (rs, None), c1, w1)" "list_all (\<lambda>r. wr_Err r = None) rs"
    "mgr_kv (cs_manager c1) = [key_a \<mapsto> [1, 2, 3]]" "calm w1" "coll_inv first_json c1 w1" "requireWritableLocked c1 = None" "cs_dir c1 = ''.''"
    "wal_poisoned (cs_wal c1) = None" "wal_lastLSN (cs_wal c1) = 1" "json_stores first_json (vm_current (cs_versions c))"
    "cs_versions c1 = cs_versions c"
proof -
  obtain c w where c: "CreateCollection first_json free_locks ''.'' [0x7B, 0x7D] first_options quiet_world = (Inr c, w)"
    "calm w" "coll_inv first_json c w" "mgr_kv (cs_manager c) = Map.empty" "requireWritableLocked c = None" "cs_dir c = ''.''"
    "\<not> wal_closed (cs_wal c)" "\<not> wal_readOnly (cs_wal c)" "wal_options (cs_wal c) = \<lparr>SyncEvery = 0\<rparr>" "wal_poisoned (cs_wal c) = None"
    "wal_lastLSN (cs_wal c) = 0" "mgr_writing (cs_manager c) = Some \<lparr>ws_id = 0, ws_minDocID = 0, ws_maxDocs = 10, ws_docs = [], ws_sealed = False\<rparr>"
    "json_stores first_json (vm_current (cs_versions c))"
    by (rule first_collection)
  obtain m0 ps where e: "eng_inv m0 ps (cs_engine c) w" using c(3) by (rule coll_invE)
  then have h: "wal_holds ps (cs_wal c) w" "mgr_ok (cs_manager c)" by (simp_all add: eng_inv_def)
  then have "of_nat (length ps) = (0 :: u64)" "length ps < 2 ^ 64" using c(11) wal_holds_lastLSN by auto
  then have "unat (of_nat (length ps) :: u64) = 0" "length ps < 2 ^ 64" by simp_all
  then have ps: "ps = []" by (simp add: unat_of_nat)
  have rd: "log_ready [] (cs_engine c) w" using c(2,7-10) h(1) ps by (simp add: log_ready_def calm_def)
  have pk: "PrimaryKeyMap_Get k (mgr_primaryKey (cs_manager c)) = None" for k using mgr_kv_None [OF h(2), of k] c(4) by simp
  let ?ws = "\<lparr>ws_id = 0, ws_minDocID = 0, ws_maxDocs = 10, ws_docs = [], ws_sealed = False\<rparr>"
  have nx: "WriteSegment_NextDocumentID ?ws = Inr 0" by (simp add: WriteSegment_NextDocumentID_def len64_def)
  obtain e1 w1 p where i: "insertOneLocked input_a (cs_engine c) w = (Inr 0, e1, w1)" "eng_inv m0 ([] @ [p]) e1 w1"
    "mgr_kv (eng_manager e1) = (mgr_kv (cs_manager c))(in_PrimaryKey input_a \<mapsto> in_Payload input_a)" "polls w1 = None"
    "log_ready ([] @ [p]) e1 w1"
    by (rule insert_succeeds [OF e [unfolded ps] rd _ _ c(12) nx input_ab_small(1) pk]) (use c(2) in \<open>auto simp: calm_def\<close>)
  let ?c = "c\<lparr>cs_engine := e1\<rparr>"
  have st: "engine_step\<^sup>*\<^sup>* (cs_engine c, w) (e1, w1)" using success_steps(1) [OF i(1)] by blast
  obtain rs where rs: "CollectionStore_Insert [input_a] c w = (Inr (rs, None), ?c, w1)" "list_all (\<lambda>r. wr_Err r = None) rs"
    using i(1) c(2,5)
    by (simp add: calm_def CollectionStore_Insert_def with_engine_def WriteEngine_Insert_def run_batch_def Let_def batch_error_def)
  have "requireWritableLocked ?c = None" using c(5) by (simp add: requireWritableLocked_def split: if_splits)
  moreover have "wal_lastLSN (eng_wal e1) = 1" "wal_poisoned (eng_wal e1) = None" "calm w1"
    using i(4,5) by (auto simp: log_ready_def calm_def dest!: wal_holds_lastLSN)
  ultimately show ?thesis
    using that [OF c(1) rs] i(3) c(4,6) c(13) input_ab_fields engine_steps_coll_inv [OF c(3) st] by simp
qed

end
