(* ===== verification/Binary_Heap.thy ===== *)
theory Binary_Heap
  imports "HOL-Library.Multiset"
begin

text \<open>
  The generic binary heap of \<open>internal/ailego/heap.go\<close>: the array in level order, the two sift
  loops, and the operations.  The locale \<open>heap_order\<close> is what a comparator has to promise (a
  strict weak order on the values that may occur); under it every operation keeps the heap order and the multiset of values,
  and the root is never behind another value.
\<close>

section \<open>The heap\<close>

record 'a Heap =
  hp_values :: "'a list"
  hp_less :: "'a \<Rightarrow> 'a \<Rightarrow> bool"

definition parent :: "nat \<Rightarrow> nat" where
  "parent index = (index - 1) div 2"

definition swap :: "nat \<Rightarrow> nat \<Rightarrow> 'a list \<Rightarrow> 'a list" where
  "swap i j xs = xs[i := xs ! j, j := xs ! i]"

function siftUp :: "('a \<Rightarrow> 'a \<Rightarrow> bool) \<Rightarrow> nat \<Rightarrow> 'a list \<Rightarrow> 'a list" where
  "siftUp lt index xs =
     (if 0 < index then
        if \<not> lt (xs ! index) (xs ! parent index) then xs
        else siftUp lt (parent index) (swap index (parent index) xs)
      else xs)"
  by pat_completeness auto
termination by (relation "measure (\<lambda>(_, i, _). i)") (auto simp: parent_def)

definition best_child :: "('a \<Rightarrow> 'a \<Rightarrow> bool) \<Rightarrow> nat \<Rightarrow> 'a list \<Rightarrow> nat" where
  "best_child lt index xs =
     (let left = index * 2 + 1; right = left + 1 in
      if right < length xs \<and> lt (xs ! right) (xs ! left) then right else left)"

function siftDown :: "('a \<Rightarrow> 'a \<Rightarrow> bool) \<Rightarrow> nat \<Rightarrow> 'a list \<Rightarrow> 'a list" where
  "siftDown lt index xs =
     (if length xs \<le> index * 2 + 1 then xs
      else let best = best_child lt index xs in
      if \<not> lt (xs ! best) (xs ! index) then xs
      else siftDown lt best (swap index best xs))"
  by pat_completeness auto
termination
  by (relation "measure (\<lambda>(_, i, xs). length xs - i)") (auto simp: best_child_def swap_def Let_def)

declare siftUp.simps [simp del] siftDown.simps [simp del]

definition NewHeap :: "('a \<Rightarrow> 'a \<Rightarrow> bool) \<Rightarrow> 'a Heap" where
  "NewHeap lt = \<lparr>hp_values = [], hp_less = lt\<rparr>"

definition Heap_Len :: "'a Heap \<Rightarrow> nat" where
  "Heap_Len h = length (hp_values h)"

definition Heap_Push :: "'a \<Rightarrow> 'a Heap \<Rightarrow> 'a Heap" where
  "Heap_Push v h = (let xs = hp_values h @ [v] in h\<lparr>hp_values := siftUp (hp_less h) (length xs - 1) xs\<rparr>)"

definition Heap_Peek :: "'a Heap \<Rightarrow> 'a option" where
  "Heap_Peek h = (if hp_values h = [] then None else Some (hp_values h ! 0))"

definition Heap_Pop :: "'a Heap \<Rightarrow> 'a option \<times> 'a Heap" where
  "Heap_Pop h =
     (if hp_values h = [] then (None, h)
      else let xs = hp_values h; root = xs ! 0; final = length xs - 1;
               ys = take final (xs[0 := xs ! final]) in
      (Some root, h\<lparr>hp_values := (if 0 < length ys then siftDown (hp_less h) 0 ys else ys)\<rparr>))"

definition Heap_Replace :: "'a \<Rightarrow> 'a Heap \<Rightarrow> 'a option \<times> 'a Heap" where
  "Heap_Replace v h =
     (if hp_values h = [] then (None, h\<lparr>hp_values := hp_values h @ [v]\<rparr>)
      else (Some (hp_values h ! 0), h\<lparr>hp_values := siftDown (hp_less h) 0 ((hp_values h)[0 := v])\<rparr>))"

definition Heap_Values :: "'a Heap \<Rightarrow> 'a list" where
  "Heap_Values h = hp_values h"

section \<open>Sifting\<close>

lemma length_swap [simp]: "length (swap i j xs) = length xs"
  by (simp add: swap_def)

lemma swap_nth:
  "i < length xs \<Longrightarrow> j < length xs \<Longrightarrow> k < length xs \<Longrightarrow>
     swap i j xs ! k = (if k = j then xs ! i else if k = i then xs ! j else xs ! k)"
  by (simp add: swap_def nth_list_update)

lemma mset_swap_list: "i < length xs \<Longrightarrow> j < length xs \<Longrightarrow> mset (swap i j xs) = mset xs"
  unfolding swap_def by (rule Multiset.mset_swap)

lemma parent_less: "0 < j \<Longrightarrow> parent j < j"
  by (auto simp: parent_def)

lemma parent_children: "0 < j \<Longrightarrow> parent j = i \<longleftrightarrow> j = i * 2 + 1 \<or> j = i * 2 + 2"
  by (auto simp: parent_def)

lemma siftUp_mset: "i < length xs \<Longrightarrow> mset (siftUp lt i xs) = mset xs \<and> length (siftUp lt i xs) = length xs"
proof (induction lt i xs rule: siftUp.induct)
  case (1 lt i xs)
  then show ?case
    using parent_less [of i] mset_swap_list [of i xs "parent i"] by (subst (1 2) siftUp.simps) auto
qed

lemma best_child_bounds:
  "\<not> length xs \<le> i * 2 + 1 \<Longrightarrow>
     i < best_child lt i xs \<and> best_child lt i xs < length xs \<and> parent (best_child lt i xs) = i"
  by (auto simp: best_child_def Let_def parent_def)

lemma siftDown_mset: "mset (siftDown lt i xs) = mset xs \<and> length (siftDown lt i xs) = length xs"
proof (induction lt i xs rule: siftDown.induct)
  case (1 lt i xs)
  then show ?case
    using best_child_bounds [of xs i lt] mset_swap_list [of i xs "best_child lt i xs"]
    by (subst (1 2) siftDown.simps) (auto simp: Let_def)
qed

section \<open>The order\<close>

text \<open>No value is before its parent.\<close>

definition is_heap :: "('a \<Rightarrow> 'a \<Rightarrow> bool) \<Rightarrow> 'a list \<Rightarrow> bool" where
  "is_heap lt xs \<longleftrightarrow> (\<forall>j. 0 < j \<longrightarrow> j < length xs \<longrightarrow> \<not> lt (xs ! j) (xs ! parent j))"

locale heap_order =
  fixes lt :: "'a \<Rightarrow> 'a \<Rightarrow> bool"
    and ok :: "'a \<Rightarrow> bool"
  assumes less_asym: "ok a \<Longrightarrow> ok b \<Longrightarrow> lt a b \<Longrightarrow> \<not> lt b a"
    and not_less_trans: "ok a \<Longrightarrow> ok b \<Longrightarrow> ok c \<Longrightarrow> \<not> lt a b \<Longrightarrow> \<not> lt b c \<Longrightarrow> \<not> lt a c"
begin

lemma all_ok_swap: "list_all ok xs \<Longrightarrow> i < length xs \<Longrightarrow> j < length xs \<Longrightarrow> list_all ok (swap i j xs)"
  unfolding list_all_iff by (metis mset_swap_list set_mset_mset)

lemma siftUp_heap:
  assumes "i < length xs"
    and "\<And>j. 0 < j \<Longrightarrow> j < length xs \<Longrightarrow> j \<noteq> i \<Longrightarrow> \<not> lt (xs ! j) (xs ! parent j)"
    and "\<And>c. 0 < c \<Longrightarrow> c < length xs \<Longrightarrow> parent c = i \<Longrightarrow> 0 < i \<Longrightarrow> \<not> lt (xs ! c) (xs ! parent i)"
    and "list_all ok xs"
  shows "is_heap lt (siftUp lt i xs)"
  using assms
proof (induction i arbitrary: xs rule: less_induct)
  case (less i xs)
  show ?case
  proof (cases "0 < i \<and> lt (xs ! i) (xs ! parent i)")
    case False
    have "is_heap lt xs" unfolding is_heap_def
    proof (intro allI impI)
      fix j assume "0 < j" "j < length xs"
      then show "\<not> lt (xs ! j) (xs ! parent j)" using False less.prems(2) by (cases "j = i") auto
    qed
    then show ?thesis using False by (subst siftUp.simps) auto
  next
    case True
    let ?p = "parent i" and ?ys = "swap i (parent i) xs"
    have p: "?p < i" "?p < length xs" using True parent_less [of i] less.prems(1) by auto
    note nth = swap_nth [OF less.prems(1) p(2)]
    have okn: "ok (xs ! j)" if "j < length xs" for j using less.prems(4) that by (simp add: list_all_length)
    have "is_heap lt (siftUp lt ?p ?ys)"
    proof (rule less.IH [OF p(1)])
      show "?p < length ?ys" using p by simp
      show "list_all ok ?ys" by (rule all_ok_swap [OF less.prems(4,1) p(2)])
      fix j assume j: "0 < j" "j < length ?ys"
      then have pj: "parent j < length xs" using parent_less [of j] by simp
      {
        assume "j \<noteq> ?p"
        then show "\<not> lt (?ys ! j) (?ys ! parent j)"
          using j pj p True less.prems(2) [of j] less.prems(3) [of j] less_asym [of "xs ! i" "xs ! ?p"]
            not_less_trans [of "xs ! j" "xs ! ?p" "xs ! i"] less.prems(1) by (auto simp: nth okn)
      next
        assume pj': "parent j = ?p" and pp: "0 < ?p"
        have gp: "parent ?p < ?p" using pp by (rule parent_less)
        have up: "\<not> lt (xs ! ?p) (xs ! parent ?p)" using less.prems(2) [of ?p] pp p by simp
        show "\<not> lt (?ys ! j) (?ys ! parent ?p)"
          using j p gp up pj' less.prems(2) [of j] not_less_trans [of "xs ! j" "xs ! ?p" "xs ! parent ?p"]
            parent_less [of j] by (auto simp: nth okn)
      }
    qed
    then show ?thesis using True by (subst siftUp.simps) auto
  qed
qed

lemma best_child_best:
  assumes "\<not> length xs \<le> i * 2 + 1" and "0 < c" and "c < length xs" and "parent c = i" and "list_all ok xs"
  shows "\<not> lt (xs ! c) (xs ! best_child lt i xs)"
proof -
  have okn: "ok (xs ! j)" if "j < length xs" for j using assms(5) that by (simp add: list_all_length)
  have irr: "\<not> lt (xs ! j) (xs ! j)" if "j < length xs" for j using less_asym okn [OF that] by blast
  show ?thesis
    using assms(1-4) less_asym [of "xs ! (i * 2 + 1 + 1)" "xs ! (i * 2 + 1)"] okn irr
    by (auto simp: best_child_def Let_def parent_children)
qed

lemma siftDown_heap:
  assumes "i < length xs"
    and "\<And>j. 0 < j \<Longrightarrow> j < length xs \<Longrightarrow> parent j \<noteq> i \<Longrightarrow> \<not> lt (xs ! j) (xs ! parent j)"
    and "\<And>c. 0 < c \<Longrightarrow> c < length xs \<Longrightarrow> parent c = i \<Longrightarrow> 0 < i \<Longrightarrow> \<not> lt (xs ! c) (xs ! parent i)"
    and "list_all ok xs"
  shows "is_heap lt (siftDown lt i xs)"
  using assms
proof (induction "length xs - i" arbitrary: i xs rule: less_induct)
  case (less i xs)
  let ?b = "best_child lt i xs" and ?ys = "swap i (best_child lt i xs) xs"
  show ?case
  proof (cases "length xs \<le> i * 2 + 1")
    case True
    then have "is_heap lt xs" using less.prems(2) by (auto simp: is_heap_def parent_children)
    then show ?thesis using True by (subst siftDown.simps) auto
  next
    case inner: False
    note b = best_child_bounds [OF inner, of lt]
    have best: "\<not> lt (xs ! c) (xs ! ?b)" if "0 < c" "c < length xs" "parent c = i" for c
      using best_child_best [OF inner] that less.prems(4) by simp
    have okn: "ok (xs ! j)" if "j < length xs" for j using less.prems(4) that by (simp add: list_all_length)
    show ?thesis
    proof (cases "lt (xs ! ?b) (xs ! i)")
      case False
      have "is_heap lt xs" unfolding is_heap_def
        using less.prems(1,2) best False not_less_trans [of _ "xs ! ?b" "xs ! i"] okn b by metis
      then show ?thesis using inner False by (subst siftDown.simps) auto
    next
      case True
      note nth = swap_nth [OF less.prems(1) conjunct1 [OF conjunct2 [OF b]]]
      have "is_heap lt (siftDown lt ?b ?ys)"
      proof (rule less.hyps)
        show "length ?ys - ?b < length xs - i" using b less.prems(1) by (simp add: diff_less_mono2)
        show "?b < length ?ys" using b by simp
        show "list_all ok ?ys" using all_ok_swap [OF less.prems(4,1)] b by simp
        fix j assume j: "0 < j" "j < length ?ys"
        then have pj: "parent j < j" "parent j < length xs" using parent_less [of j] by simp_all
        {
          assume "parent j \<noteq> ?b"
          then show "\<not> lt (?ys ! j) (?ys ! parent j)"
            using j pj b True best [of j] best [of ?b] less.prems(2) [of j] less.prems(3) [of ?b] less_asym [of "xs ! ?b" "xs ! i"]
              less.prems(1) by (auto simp: nth okn)
        next
          assume "parent j = ?b"
          then show "\<not> lt (?ys ! j) (?ys ! parent ?b)" using j pj b less.prems(2) [of j] by (auto simp: nth)
        }
      qed
      then show ?thesis using inner True by (subst siftDown.simps) (auto simp: Let_def)
    qed
  qed
qed

lemma root_first:
  assumes "is_heap lt xs" and "j < length xs" and "list_all ok xs"
  shows "\<not> lt (xs ! j) (xs ! 0)"
  using assms(2)
proof (induction j rule: less_induct)
  case (less j)
  show ?case
  proof (cases "j = 0")
    case True
    then show ?thesis using less_asym [of "xs ! 0" "xs ! 0"] assms(3) less.prems by (auto simp: list_all_length)
  next
    case False
    then have p: "parent j < j" using parent_less [of j] by simp
    then have "\<not> lt (xs ! parent j) (xs ! 0)" using less by auto
    moreover have "\<not> lt (xs ! j) (xs ! parent j)" using assms(1) False less.prems by (auto simp: is_heap_def)
    ultimately show ?thesis using not_less_trans [of "xs ! j" "xs ! parent j" "xs ! 0"] assms(3) less.prems p
      by (auto simp: list_all_length dest: spec [of _ 0])
  qed
qed

lemma siftDown_root:
  assumes "is_heap lt xs" and "length ys \<le> length xs" and "\<And>j. 0 < j \<Longrightarrow> j < length ys \<Longrightarrow> ys ! j = xs ! j"
    and "ys \<noteq> []" and "list_all ok ys"
  shows "is_heap lt (siftDown lt 0 ys)"
proof (rule siftDown_heap)
  show "0 < length ys" using assms(4) by simp
  fix j assume j: "0 < j" "j < length ys" "parent j \<noteq> 0"
  then show "\<not> lt (ys ! j) (ys ! parent j)"
    using assms parent_less [of j] by (auto simp: is_heap_def)
qed (use assms(5) in auto)

lemma push:
  assumes "is_heap lt (hp_values h)" and "hp_less h = lt" and "list_all ok (hp_values h)" and "ok v"
  shows "is_heap lt (hp_values (Heap_Push v h))" "mset (hp_values (Heap_Push v h)) = add_mset v (mset (hp_values h))"
proof -
  let ?xs = "hp_values h @ [v]"
  have "is_heap lt (siftUp lt (length ?xs - 1) ?xs)"
  proof (rule siftUp_heap)
    fix j assume "0 < j" "j < length ?xs" "j \<noteq> length ?xs - 1"
    then show "\<not> lt (?xs ! j) (?xs ! parent j)"
      using assms(1) parent_less [of j] by (auto simp: is_heap_def nth_append)
  next
    fix c assume "0 < c" "c < length ?xs" "parent c = length ?xs - 1"
    then show "\<not> lt (?xs ! c) (?xs ! parent (length ?xs - 1))" using parent_less [of c] by simp
  qed (use assms(3,4) in \<open>auto simp: list_all_iff\<close>)
  then show "is_heap lt (hp_values (Heap_Push v h))" using assms(2) by (simp add: Heap_Push_def)
  show "mset (hp_values (Heap_Push v h)) = add_mset v (mset (hp_values h))"
    using siftUp_mset [of "length ?xs - 1" ?xs lt] assms(2) by (simp add: Heap_Push_def)
qed

lemma pop:
  assumes hp: "is_heap lt (hp_values h)" and l: "hp_less h = lt" and av: "list_all ok (hp_values h)" and pop: "Heap_Pop h = (Some r, h')"
  shows "is_heap lt (hp_values h')" "mset (hp_values h) = add_mset r (mset (hp_values h'))"
    "\<And>x. x \<in> set (hp_values h) \<Longrightarrow> \<not> lt x r" "hp_less h' = lt"
proof -
  let ?xs = "hp_values h" let ?n = "length ?xs - 1"
  let ?ys = "take ?n (?xs[0 := ?xs ! ?n])"
  have ne: "?xs \<noteq> []" and r: "r = ?xs ! 0"
    and h': "hp_values h' = (if 0 < length ?ys then siftDown lt 0 ?ys else ?ys)" and l': "hp_less h' = lt"
    using pop l by (auto simp: Heap_Pop_def Let_def split: if_splits)
  show "hp_less h' = lt" by (rule l')
  show "is_heap lt (hp_values h')"
  proof (cases "0 < length ?ys")
    case True
    have "ok (?xs ! ?n)" using av ne by (simp add: list_all_length)
    then have "list_all ok ?ys"
      using av set_update_subset_insert [of ?xs 0 "?xs ! ?n"] set_take_subset [of ?n "?xs[0 := ?xs ! ?n]"]
      unfolding list_all_iff by blast
    then have "is_heap lt (siftDown lt 0 ?ys)" by (intro siftDown_root [OF hp]) (use True in auto)
    then show ?thesis using True h' by simp
  next
    case False
    then show ?thesis using h' by (simp add: is_heap_def)
  qed
  have split: "?xs[0 := ?xs ! ?n] = ?ys @ [?xs ! ?n]"
  proof -
    have "?xs[0 := ?xs ! ?n] = take ?n (?xs[0 := ?xs ! ?n]) @ [?xs[0 := ?xs ! ?n] ! ?n]"
      using take_Suc_conv_app_nth [of ?n "?xs[0 := ?xs ! ?n]"] ne by simp
    then show ?thesis using ne by (cases "?n = 0") (auto simp: nth_list_update)
  qed
  have "mset ?xs + {#?xs ! ?n#} = mset (?xs[0 := ?xs ! ?n]) + {#?xs ! 0#}"
    using mset_update [of 0 ?xs "?xs ! ?n"] ne by (simp add: nth_mem_mset)
  moreover have "mset (?xs[0 := ?xs ! ?n]) = add_mset (?xs ! ?n) (mset ?ys)" by (subst split) simp
  ultimately have "mset ?xs = add_mset r (mset ?ys)" using r by simp
  moreover have "mset (hp_values h') = mset ?ys" using siftDown_mset [of lt 0 ?ys] h' by auto
  ultimately show "mset (hp_values h) = add_mset r (mset (hp_values h'))" by simp
  show "\<not> lt x r" if x: "x \<in> set ?xs" for x
  proof -
    obtain j where "j < length ?xs" "x = ?xs ! j" using x by (auto simp: in_set_conv_nth)
    then show ?thesis using root_first [OF hp _ av] r by simp
  qed
qed

lemma replace:
  assumes hp: "is_heap lt (hp_values h)" and l: "hp_less h = lt" and av: "list_all ok (hp_values h)" and v: "ok v" and rep: "Heap_Replace v h = (r, h')"
  shows "is_heap lt (hp_values h')" "hp_less h' = lt"
    "case r of None \<Rightarrow> hp_values h = [] \<and> hp_values h' = [v]
      | Some x \<Rightarrow> add_mset v (mset (hp_values h)) = add_mset x (mset (hp_values h'))
          \<and> (\<forall>y \<in> set (hp_values h). \<not> lt y x)"
proof -
  let ?xs = "hp_values h"
  show "is_heap lt (hp_values h')"
  proof (cases "?xs = []")
    case True
    then show ?thesis using rep by (auto simp: Heap_Replace_def is_heap_def)
  next
    case False
    have "list_all ok (?xs[0 := v])"
      using av v set_update_subset_insert [of ?xs 0 v] unfolding list_all_iff by blast
    then have "is_heap lt (siftDown lt 0 (?xs[0 := v]))" by (intro siftDown_root [OF hp]) (use False in auto)
    then show ?thesis using False rep l by (auto simp: Heap_Replace_def)
  qed
  show "hp_less h' = lt" using rep l by (auto simp: Heap_Replace_def split: if_splits)
  show "case r of None \<Rightarrow> hp_values h = [] \<and> hp_values h' = [v]
      | Some x \<Rightarrow> add_mset v (mset (hp_values h)) = add_mset x (mset (hp_values h'))
          \<and> (\<forall>y \<in> set (hp_values h). \<not> lt y x)"
  proof (cases "?xs = []")
    case True
    then show ?thesis using rep by (auto simp: Heap_Replace_def)
  next
    case False
    have "\<forall>y \<in> set ?xs. \<not> lt y (?xs ! 0)" using root_first [OF hp _ av] by (auto simp: in_set_conv_nth)
    moreover have "add_mset v (mset ?xs) = add_mset (?xs ! 0) (mset (?xs[0 := v]))"
      using mset_update [of 0 ?xs v] False by (simp add: nth_mem_mset)
    ultimately show ?thesis using False rep siftDown_mset [of lt 0 "?xs[0 := v]"] l
      by (auto simp: Heap_Replace_def)
  qed
qed

end

end
