(* ===== verification/Top_K.thy ===== *)
theory Top_K
  imports Binary_Heap Go_Runtime
begin

text \<open>
  Exact top-k selection, \<open>internal/core/topk.go\<close> and \<open>internal/core/query.go\<close>: the order of
  results, the bounded heap that selects the best of them, the merge of the results of several
  segments.  A \<open>float32\<close> is its bit pattern, and the comparisons are those of the language,
  false on a NaN.  The distance computations are a parameter: floating-point arithmetic is not
  modelled.
\<close>

section \<open>Scores\<close>

type_synonym f32 = "32 word"

definition f32_magnitude :: "f32 \<Rightarrow> nat" where
  "f32_magnitude b = unat b mod 2 ^ 31"

definition f32_nan :: "f32 \<Rightarrow> bool" where
  "f32_nan b \<longleftrightarrow> 0x7F800000 < f32_magnitude b"

definition f32_inf :: "f32 \<Rightarrow> bool" where
  "f32_inf b \<longleftrightarrow> f32_magnitude b = 0x7F800000"

text \<open>Sign and magnitude as an integer; both zeros are 0.\<close>

definition f32_value :: "f32 \<Rightarrow> int" where
  "f32_value b = (if unat b < 2 ^ 31 then int (f32_magnitude b) else - int (f32_magnitude b))"

definition f32_lt :: "f32 \<Rightarrow> f32 \<Rightarrow> bool" where
  "f32_lt a b \<longleftrightarrow> \<not> f32_nan a \<and> \<not> f32_nan b \<and> f32_value a < f32_value b"

definition f32_eq :: "f32 \<Rightarrow> f32 \<Rightarrow> bool" where
  "f32_eq a b \<longleftrightarrow> \<not> f32_nan a \<and> \<not> f32_nan b \<and> f32_value a = f32_value b"

definition f32_le :: "f32 \<Rightarrow> f32 \<Rightarrow> bool" where
  "f32_le a b \<longleftrightarrow> f32_lt a b \<or> f32_eq a b"

section \<open>Results and their order\<close>

type_synonym Metric = u8

definition MetricL2 :: Metric where "MetricL2 = 1"
definition MetricIP :: Metric where "MetricIP = 2"
definition MetricCosine :: Metric where "MetricCosine = 3"
definition MetricMIPSL2 :: Metric where "MetricMIPSL2 = 4"

record Result =
  res_Key :: u64
  res_Score :: f32

record 'v Candidate =
  cand_Key :: u64
  cand_Vector :: 'v

record SearchOptions =
  so_TopK :: int
  so_Radius :: f32
  so_Filter :: "(u64 \<Rightarrow> bool) option"

definition Metric_Better :: "Metric \<Rightarrow> f32 \<Rightarrow> f32 \<Rightarrow> bool" where
  "Metric_Better m left right = (if m = MetricIP then f32_lt right left else f32_lt left right)"

definition resultBetter :: "Metric \<Rightarrow> Result \<Rightarrow> Result \<Rightarrow> bool" where
  "resultBetter metric left right =
     (if f32_eq (res_Score left) (res_Score right) then res_Key left < res_Key right
      else Metric_Better metric (res_Score left) (res_Score right))"

definition worstFirst :: "Metric \<Rightarrow> Result \<Rightarrow> Result \<Rightarrow> bool" where
  "worstFirst metric left right =
     (if f32_eq (res_Score left) (res_Score right) then res_Key right < res_Key left
      else Metric_Better metric (res_Score right) (res_Score left))"

definition SearchOptions_Validate :: "SearchOptions \<Rightarrow> go_error option" where
  "SearchOptions_Validate options =
     (if so_TopK options \<le> 0 then Some (NewError ''core: top-k must be positive'')
      else if f32_lt (so_Radius options) 0 \<or> f32_nan (so_Radius options) \<or> f32_inf (so_Radius options)
        then Some (NewError ''core: radius must be finite and non-negative'')
      else None)"

definition scoreWithinRadius :: "Metric \<Rightarrow> f32 \<Rightarrow> f32 \<Rightarrow> bool" where
  "scoreWithinRadius metric score radius =
     (if f32_eq radius 0 then True
      else if metric = MetricIP then f32_le radius score
      else f32_le score radius)"

section \<open>Selection\<close>

text \<open>The loop body both functions share: keep the result while there is room, else replace the
  worst one if the result is better.\<close>

definition select_result :: "Metric \<Rightarrow> nat \<Rightarrow> Result Heap \<Rightarrow> Result \<Rightarrow> Result Heap" where
  "select_result metric k h result =
     (if Heap_Len h < k then Heap_Push result h
      else case Heap_Peek h of
        None \<Rightarrow> h
      | Some worst \<Rightarrow> if resultBetter metric result worst then snd (Heap_Replace result h) else h)"

text \<open>\<open>slices.SortFunc\<close> with the comparison built from \<open>resultBetter\<close>.\<close>

fun insert_result :: "Metric \<Rightarrow> Result \<Rightarrow> Result list \<Rightarrow> Result list" where
  "insert_result metric x [] = [x]"
| "insert_result metric x (y # ys) =
     (if resultBetter metric y x then y # insert_result metric x ys else x # y # ys)"

definition sort_results :: "Metric \<Rightarrow> Result list \<Rightarrow> Result list" where
  "sort_results metric xs = foldr (insert_result metric) xs []"

definition MergeSearchResults :: "Metric \<Rightarrow> int \<Rightarrow> Result list list \<Rightarrow> Result list" where
  "MergeSearchResults metric k batches =
     (if k \<le> 0 then []
      else let heap = foldl (select_result metric (nat k)) (NewHeap (worstFirst metric)) (concat batches) in
      sort_results metric (Heap_Values heap))"

text \<open>The loop of \<open>topKCandidatesWithOptions\<close>; \<open>compute\<close> stands for \<open>metric.Compute\<close>.\<close>

fun topk_loop ::
  "(Metric \<Rightarrow> 'v \<Rightarrow> 'v \<Rightarrow> f32 result) \<Rightarrow> Metric \<Rightarrow> 'v \<Rightarrow> SearchOptions \<Rightarrow> nat \<Rightarrow> 'v Candidate list
     \<Rightarrow> Result Heap \<Rightarrow> world \<Rightarrow> Result Heap result \<times> world" where
  "topk_loop compute metric query options k [] heap w = (Inr heap, w)"
| "topk_loop compute metric query options k (candidate # candidates) heap w =
     (case ctx_Err w of (Some e, w) \<Rightarrow> (Inl e, w) | (None, w) \<Rightarrow>
      if (case so_Filter options of None \<Rightarrow> False | Some f \<Rightarrow> \<not> f (cand_Key candidate))
        then topk_loop compute metric query options k candidates heap w
      else case compute metric (cand_Vector candidate) query of
        Inl e \<Rightarrow> (Inl (Wrap ''core: score candidate'' e), w)
      | Inr score \<Rightarrow>
      if \<not> scoreWithinRadius metric score (so_Radius options)
        then topk_loop compute metric query options k candidates heap w
      else topk_loop compute metric query options k candidates
             (select_result metric k heap \<lparr>res_Key = cand_Key candidate, res_Score = score\<rparr>) w)"

definition topKCandidatesWithOptions ::
  "(Metric \<Rightarrow> 'v \<Rightarrow> 'v \<Rightarrow> f32 result) \<Rightarrow> Metric \<Rightarrow> 'v \<Rightarrow> SearchOptions \<Rightarrow> 'v Candidate list \<Rightarrow> bool
     \<Rightarrow> world \<Rightarrow> Result list result \<times> world" where
  "topKCandidatesWithOptions compute metric query options candidates requirePositiveTopK w =
     (case ctx_Err w of (Some e, w) \<Rightarrow> (Inl e, w) | (None, w) \<Rightarrow>
      case compute metric query query of
        Inl e \<Rightarrow> (Inl (Wrap ''core: invalid query'' e), w)
      | Inr _ \<Rightarrow>
      case (if requirePositiveTopK then SearchOptions_Validate options
            else if so_TopK options < 0 then Some (NewError ''core: negative top-k'') else None) of
        Some e \<Rightarrow> (Inl e, w)
      | None \<Rightarrow>
      if so_TopK options = 0 \<or> candidates = [] then (Inr [], w)
      else let k = min (nat (so_TopK options)) (length candidates) in
      case topk_loop compute metric query options k candidates (NewHeap (worstFirst metric)) w of
        (Inl e, w) \<Rightarrow> (Inl e, w)
      | (Inr heap, w) \<Rightarrow> (Inr (sort_results metric (Heap_Values heap)), w))"

definition TopK ::
  "(Metric \<Rightarrow> 'v \<Rightarrow> 'v \<Rightarrow> f32 result) \<Rightarrow> Metric \<Rightarrow> 'v \<Rightarrow> 'v Candidate list \<Rightarrow> int \<Rightarrow> world
     \<Rightarrow> Result list result \<times> world" where
  "TopK compute metric query candidates k w =
     topKCandidatesWithOptions compute metric query \<lparr>so_TopK = k, so_Radius = 0, so_Filter = None\<rparr> candidates False w"

section \<open>The order\<close>

definition ordered_result :: "Result \<Rightarrow> bool" where
  "ordered_result r \<longleftrightarrow> \<not> f32_nan (res_Score r)"

text \<open>What a result is ranked by.\<close>

definition rank :: "Metric \<Rightarrow> Result \<Rightarrow> int" where
  "rank m r = (if m = MetricIP then - f32_value (res_Score r) else f32_value (res_Score r))"

lemma resultBetter_rank:
  "ordered_result a \<Longrightarrow> ordered_result b \<Longrightarrow>
     resultBetter m a b \<longleftrightarrow> rank m a < rank m b \<or> rank m a = rank m b \<and> res_Key a < res_Key b"
  by (auto simp: resultBetter_def ordered_result_def f32_eq_def f32_lt_def Metric_Better_def rank_def)

lemma worstFirst_flip: "worstFirst m a b = resultBetter m b a"
  by (auto simp: worstFirst_def resultBetter_def f32_eq_def)

lemma better_asym: "ordered_result a \<Longrightarrow> ordered_result b \<Longrightarrow> resultBetter m a b \<Longrightarrow> \<not> resultBetter m b a"
  by (auto simp: resultBetter_rank)

lemma better_neg_trans:
  "ordered_result a \<Longrightarrow> ordered_result b \<Longrightarrow> ordered_result c \<Longrightarrow> \<not> resultBetter m a b \<Longrightarrow> \<not> resultBetter m b c \<Longrightarrow>
     \<not> resultBetter m a c"
  by (auto simp: resultBetter_rank)

interpretation result_heap: heap_order "worstFirst m" ordered_result for m
  by unfold_locales (auto simp: worstFirst_flip dest: better_asym better_neg_trans)

section \<open>The selection keeps the best\<close>

text \<open>\<open>chosen\<close> are the best \<open>k\<close> of \<open>all\<close>: none that was left out is better than one that was
  chosen.\<close>

definition best_k :: "Metric \<Rightarrow> nat \<Rightarrow> Result multiset \<Rightarrow> Result multiset \<Rightarrow> bool" where
  "best_k m k all chosen \<longleftrightarrow> chosen \<subseteq># all \<and> size chosen = min k (size all)
     \<and> (\<forall>x \<in># all - chosen. \<forall>y \<in># chosen. \<not> resultBetter m x y)"

lemma select_result_inv:
  assumes hp: "is_heap (worstFirst m) (hp_values h)" "hp_less h = worstFirst m"
    and best: "best_k m k all (mset (hp_values h))" and ok: "\<And>x. x \<in># add_mset r all \<Longrightarrow> ordered_result x" and k: "0 < k"
  defines "h' \<equiv> select_result m k h r"
  shows "is_heap (worstFirst m) (hp_values h')" "hp_less h' = worstFirst m"
    "best_k m k (add_mset r all) (mset (hp_values h'))"
proof -
  have sub: "mset (hp_values h) \<subseteq># all" and sz: "length (hp_values h) = min k (size all)"
    and out: "\<And>x y. x \<in># all - mset (hp_values h) \<Longrightarrow> y \<in> set (hp_values h) \<Longrightarrow> \<not> resultBetter m x y"
    using best by (auto simp: best_k_def)
  have okh: "list_all ordered_result (hp_values h)"
    using ok mset_subset_eqD [OF sub] by (auto simp: list_all_iff)
  have okr: "ordered_result r" and oka: "\<And>x. x \<in># all \<Longrightarrow> ordered_result x" using ok by auto
  note push = result_heap.push [OF hp okh okr]
  have "is_heap (worstFirst m) (hp_values h') \<and> hp_less h' = worstFirst m
    \<and> best_k m k (add_mset r all) (mset (hp_values h'))"
  proof (cases "length (hp_values h) < k")
    case True
    then have h': "h' = Heap_Push r h" by (simp add: h'_def select_result_def Heap_Len_def)
    have all: "mset (hp_values h) = all"
      using sub sz True by (metis min.absorb4 min.commute min_def nat_less_le size_mset mset_subset_size subset_mset.le_imp_less_or_eq)
    have "best_k m k (add_mset r all) (mset (hp_values h'))"
      using push(2) h' all sz True by (auto simp: best_k_def)
    then show ?thesis using push(1) h' hp(2) by (simp add: Heap_Push_def)
  next
    case False
    then have len: "length (hp_values h) = k" "k \<le> size all" using sz by auto
    then have ne: "hp_values h \<noteq> []" using k by auto
    let ?w = "hp_values h ! 0"
    have w: "?w \<in> set (hp_values h)" using ne by simp
    have okw: "ordered_result ?w" using okh w by (auto simp: list_all_iff)
    have root: "\<not> resultBetter m ?w y" if "y \<in> set (hp_values h)" for y
      using result_heap.root_first [OF hp(1) _ okh] that by (auto simp: in_set_conv_nth worstFirst_flip)
    show ?thesis
    proof (cases "resultBetter m r ?w")
      case nb: False
      then have h': "h' = h" using False ne by (simp add: h'_def select_result_def Heap_Len_def Heap_Peek_def)
      have "\<not> resultBetter m r y" if "y \<in> set (hp_values h)" for y
        using better_neg_trans [OF okr okw _ nb root [OF that]] okh that by (auto simp: list_all_iff)
      moreover obtain B where B: "all = mset (hp_values h) + B" using sub by (metis mset_subset_eq_exists_conv)
      moreover have "add_mset r all - mset (hp_values h) = add_mset r B" "all - mset (hp_values h) = B" using B by simp_all
      ultimately have "best_k m k (add_mset r all) (mset (hp_values h))"
        using len out by (auto simp: best_k_def)
      then show ?thesis using h' hp by simp
    next
      case b: True
      obtain x h1 where rep: "Heap_Replace r h = (x, h1)" by (cases "Heap_Replace r h")
      have x: "x = Some ?w" using rep ne by (auto simp: Heap_Replace_def)
      note rp = result_heap.replace [OF hp okh okr rep]
      have h': "h' = h1" using False ne b rep by (simp add: h'_def select_result_def Heap_Len_def Heap_Peek_def)
      have ms: "add_mset r (mset (hp_values h)) = add_mset ?w (mset (hp_values h1))" using rp(3) x by simp
      obtain A where A: "mset (hp_values h) = add_mset ?w A" using w by (metis multi_member_split set_mset_mset)
      obtain B where B: "all = add_mset ?w A + B" using sub A by (metis mset_subset_eq_exists_conv)
      have h1: "mset (hp_values h1) = add_mset r A" using ms A by (simp add: add_mset_commute)
      have inB: "\<not> resultBetter m x y" if "x \<in># B" "y \<in> set (hp_values h)" for x y
        using out [of x y] that A B by simp
      have rw: "\<not> resultBetter m ?w r" using better_asym [OF okr okw b] .
      have "\<not> resultBetter m x y" if "x \<in># add_mset ?w B" "y \<in># add_mset r A" for x y
      proof -
        have hy: "y \<in> set (hp_values h)" if "y \<in># A" using that A by (metis insertI2 set_mset_add_mset_insert set_mset_mset)
        have "\<not> resultBetter m x r" if "x \<in># B"
          using better_neg_trans [OF _ okw okr inB [OF that w] rw] oka B that by simp
        then show ?thesis using that rw root hy inB by auto
      qed
      moreover have "add_mset r all - mset (hp_values h1) = add_mset ?w B" using h1 B by simp
      ultimately have "best_k m k (add_mset r all) (mset (hp_values h1))"
        using h1 B len A by (auto simp: best_k_def simp flip: size_mset)
      then show ?thesis using h' rp(1,2) by simp
    qed
  qed
  then show "is_heap (worstFirst m) (hp_values h')" "hp_less h' = worstFirst m"
    "best_k m k (add_mset r all) (mset (hp_values h'))" by blast+
qed


lemma select_all:
  assumes "is_heap (worstFirst m) (hp_values h)" "hp_less h = worstFirst m" "best_k m k all (mset (hp_values h))"
    and "\<And>x. x \<in># all + mset rs \<Longrightarrow> ordered_result x" and "0 < k"
  shows "best_k m k (all + mset rs) (mset (hp_values (foldl (select_result m k) h rs)))"
  using assms
proof (induction rs arbitrary: h all)
  case (Cons r rs)
  have okr: "\<And>x. x \<in># add_mset r all \<Longrightarrow> ordered_result x" using Cons.prems(4) by auto
  note i = select_result_inv [OF Cons.prems(1-3) okr Cons.prems(5)]
  have "best_k m k (add_mset r all + mset rs) (mset (hp_values (foldl (select_result m k) (select_result m k h r) rs)))"
    by (rule Cons.IH [OF i]) (use Cons.prems(4,5) in auto)
  then show ?case by simp
qed simp

lemma mset_insert_result: "mset (insert_result m x ys) = add_mset x (mset ys)"
  by (induction ys) auto

lemma mset_sort_results: "mset (sort_results m xs) = mset xs"
  by (induction xs) (auto simp: sort_results_def mset_insert_result)

lemma insert_result_sorted:
  "sorted_wrt (\<lambda>a b. \<not> resultBetter m b a) ys \<Longrightarrow> \<forall>y \<in> set (x # ys). ordered_result y \<Longrightarrow>
     sorted_wrt (\<lambda>a b. \<not> resultBetter m b a) (insert_result m x ys)"
proof (induction ys)
  case (Cons y ys)
  have set: "set (insert_result m x ys) = insert x (set ys)"
    using arg_cong [OF mset_insert_result [of m x ys], of set_mset] by simp
  show ?case
  proof (cases "resultBetter m y x")
    case True
    then show ?thesis using Cons set better_asym [of y x m] by auto
  next
    case False
    have "\<not> resultBetter m z x" if "z \<in> set ys" for z
      using better_neg_trans [of z y x m] that Cons.prems False by auto
    then show ?thesis using Cons.prems False by auto
  qed
qed simp

lemma sort_results_sorted:
  "\<forall>x \<in> set xs. ordered_result x \<Longrightarrow> sorted_wrt (\<lambda>a b. \<not> resultBetter m b a) (sort_results m xs)"
proof (induction xs)
  case (Cons x xs)
  have "set (sort_results m xs) = set xs" by (metis mset_sort_results set_mset_mset)
  then show ?case using Cons insert_result_sorted [of m "sort_results m xs" x] by (simp add: sort_results_def)
qed (simp add: sort_results_def)

text \<open>Merging returns the best \<open>k\<close> of all batches, best first.\<close>

lemma MergeSearchResults_best:
  assumes ok: "\<And>x. x \<in> set (concat batches) \<Longrightarrow> ordered_result x" and k: "0 < k"
  shows "best_k m (nat k) (mset (concat batches)) (mset (MergeSearchResults m k batches))"
    and "sorted_wrt (\<lambda>a b. \<not> resultBetter m b a) (MergeSearchResults m k batches)"
proof -
  let ?h = "foldl (select_result m (nat k)) (NewHeap (worstFirst m)) (concat batches)"
  have "best_k m (nat k) ({#} + mset (concat batches)) (mset (hp_values ?h))"
    by (rule select_all) (use ok k in \<open>auto simp: NewHeap_def is_heap_def best_k_def\<close>)
  then have b: "best_k m (nat k) (mset (concat batches)) (mset (hp_values ?h))" by simp
  have eq: "MergeSearchResults m k batches = sort_results m (hp_values ?h)"
    using k by (simp add: MergeSearchResults_def Heap_Values_def Let_def)
  show "best_k m (nat k) (mset (concat batches)) (mset (MergeSearchResults m k batches))"
    using b by (simp add: eq mset_sort_results)
  have "\<forall>x \<in> set (hp_values ?h). ordered_result x"
    using b ok by (metis best_k_def mset_subset_eqD set_mset_mset)
  then show "sorted_wrt (\<lambda>a b. \<not> resultBetter m b a) (MergeSearchResults m k batches)"
    by (simp add: eq sort_results_sorted)
qed

section \<open>Distinct keys determine the answer\<close>

lemma better_total:
  "ordered_result a \<Longrightarrow> ordered_result b \<Longrightarrow> res_Key a \<noteq> res_Key b \<Longrightarrow> resultBetter m a b \<or> resultBetter m b a"
  by (auto simp: resultBetter_rank)

lemma distinct_submset:
  assumes "mset ys \<subseteq># mset xs" and "distinct xs"
  shows "distinct ys" and "z \<in># mset xs - mset ys \<longleftrightarrow> z \<in> set xs \<and> z \<notin> set ys"
proof -
  have cx: "count (mset xs) z = (if z \<in> set xs then 1 else 0)" for z using assms(2) by (simp add: distinct_count_atmost_1)
  have cys: "count (mset ys) z = (if z \<in> set ys then 1 else 0)" for z
  proof -
    have "count (mset xs) z \<le> 1" using cx [of z] by simp
    then have "count (mset ys) z \<le> 1" using mset_subset_eq_count [OF assms(1), of z] by linarith
    moreover have "z \<in> set ys \<Longrightarrow> 1 \<le> count (mset ys) z" by (simp add: Suc_le_eq)
    ultimately show ?thesis
    proof (cases "z \<in> set ys")
      case True
      then show ?thesis using \<open>count (mset ys) z \<le> 1\<close> \<open>z \<in> set ys \<Longrightarrow> 1 \<le> count (mset ys) z\<close> by (simp add: le_antisym)
    next
      case False
      then show ?thesis by (simp add: count_mset_0_iff)
    qed
  qed
  show "distinct ys" using cys by (simp add: distinct_count_atmost_1)
  show "z \<in># mset xs - mset ys \<longleftrightarrow> z \<in> set xs \<and> z \<notin> set ys"
    using cx [of z] cys [of z] by (auto simp: in_diff_count)
qed

text \<open>With distinct keys a result is chosen exactly when fewer than \<open>k\<close> are better.\<close>

lemma best_k_out:
  assumes b: "best_k m k (mset xs) (mset ys)" and d: "distinct (map res_Key xs)"
    and ok: "\<And>x. x \<in> set xs \<Longrightarrow> ordered_result x" and x: "x \<in> set xs" "x \<notin> set ys"
  shows "set ys \<subseteq> {y. resultBetter m y x}" "card (set ys) = k"
proof -
  have dx: "distinct xs" using d by (simp add: distinct_map)
  have sub: "mset ys \<subseteq># mset xs" and sz: "length ys = min k (length xs)"
    and out: "\<And>x y. x \<in># mset xs - mset ys \<Longrightarrow> y \<in> set ys \<Longrightarrow> \<not> resultBetter m x y"
    using b by (auto simp: best_k_def)
  note ds = distinct_submset [OF sub dx]
  have sy: "set ys \<subseteq> set xs" using sub by (metis set_mset_mono set_mset_mset)
  show "set ys \<subseteq> {y. resultBetter m y x}"
  proof
    fix y assume y: "y \<in> set ys"
    have "x \<noteq> y" using x y by auto
    then have "res_Key x \<noteq> res_Key y" using d x sy y by (auto simp: distinct_map inj_on_def)
    then have "resultBetter m y x"
      using better_total [of x y m] ok [OF x(1)] ok [OF subsetD [OF sy y]] out [of x y] ds(2) [of x] x y by blast
    then show "y \<in> {y. resultBetter m y x}" by simp
  qed
  have "card (set ys) < card (set xs)" using sy x by (intro psubset_card_mono) auto
  then show "card (set ys) = k" using sz dx ds(1) by (simp add: distinct_card)
qed

lemma best_k_iff:
  assumes b: "best_k m k (mset xs) (mset ys)" and d: "distinct (map res_Key xs)"
    and ok: "\<And>x. x \<in> set xs \<Longrightarrow> ordered_result x" and x: "x \<in> set xs"
  shows "x \<in> set ys \<longleftrightarrow> card {y \<in> set xs. resultBetter m y x} < k"
proof -
  have dx: "distinct xs" using d by (simp add: distinct_map)
  have sub: "mset ys \<subseteq># mset xs" and sz: "length ys = min k (length xs)"
    and out: "\<And>x y. x \<in># mset xs - mset ys \<Longrightarrow> y \<in> set ys \<Longrightarrow> \<not> resultBetter m x y"
    using b by (auto simp: best_k_def)
  note ds = distinct_submset [OF sub dx]
  have sy: "set ys \<subseteq> set xs" using sub by (metis set_mset_mono set_mset_mset)
  show ?thesis
  proof
    assume xy: "x \<in> set ys"
    have "y \<in> set ys - {x}" if y: "y \<in> set xs" "resultBetter m y x" for y
      using out [of y x] ds(2) [of y] xy better_asym [OF ok [OF y(1)] ok [OF x]] y by blast
    then have "card {y \<in> set xs. resultBetter m y x} \<le> card (set ys - {x})" by (intro card_mono) auto
    also have "\<dots> < card (set ys)" using xy by (intro card_Diff1_less) auto
    also have "\<dots> \<le> k" using sz ds(1) by (simp add: distinct_card)
    finally show "card {y \<in> set xs. resultBetter m y x} < k" .
  next
    assume c: "card {y \<in> set xs. resultBetter m y x} < k"
    show "x \<in> set ys"
    proof (rule ccontr)
      assume nx: "x \<notin> set ys"
      note o = best_k_out [OF b d ok x nx]
      have "card (set ys) \<le> card {y \<in> set xs. resultBetter m y x}"
        by (rule card_mono) (use o(1) sy in auto)
      then show False using o(2) c by simp
    qed
  qed
qed

lemma best_k_set: "best_k m k (mset xs) (mset ys) \<Longrightarrow> set ys \<subseteq> set xs"
  unfolding best_k_def by (metis set_mset_mono set_mset_mset)

text \<open>Merging the answers of the segments is the same as selecting from all their results at once.\<close>

lemma sorted_better_unique:
  assumes "sorted_wrt (\<lambda>a b. \<not> resultBetter m b a) xs" "sorted_wrt (\<lambda>a b. \<not> resultBetter m b a) ys"
    and "set xs = set ys" "distinct (map res_Key xs)" "distinct (map res_Key ys)"
    and "\<And>x. x \<in> set xs \<Longrightarrow> ordered_result x"
  shows "xs = ys"
  using assms
proof (induction xs arbitrary: ys)
  case (Cons x xs)
  then obtain y ys' where ys: "ys = y # ys'" by (cases ys) auto
  have "x = y"
  proof (rule ccontr)
    assume ne: "x \<noteq> y"
    have xy: "x \<in> set ys'" "y \<in> set xs" using ne Cons.prems(3) ys by auto
    then have "\<not> resultBetter m y x" "\<not> resultBetter m x y" using Cons.prems(1,2) ys by auto
    moreover have "res_Key x \<noteq> res_Key y" using Cons.prems(4) xy by auto
    ultimately show False using better_total [of x y m] Cons.prems(6) xy by auto
  qed
  moreover have "set xs = set ys'"
    using Cons.prems(3-5) ys calculation by (auto simp: insert_eq_iff)
  ultimately show ?case using Cons.IH [of ys'] Cons.prems ys by auto
qed simp

lemma card_better_le:
  assumes fin: "finite A" and sub: "B \<subseteq> A" and ok: "\<And>x. x \<in> A \<Longrightarrow> ordered_result x" and y: "y \<in> A" and x: "x \<in> A"
    and yx: "resultBetter m y x" and k: "k \<le> card {z \<in> B. resultBetter m z y}"
  shows "k \<le> card {z \<in> B. resultBetter m z x}"
proof -
  have "{z \<in> B. resultBetter m z y} \<subseteq> {z \<in> B. resultBetter m z x}"
    using sub ok x y yx by (auto simp: resultBetter_rank subset_iff)
  then have "card {z \<in> B. resultBetter m z y} \<le> card {z \<in> B. resultBetter m z x}"
    using fin sub by (intro card_mono) (auto intro: finite_subset)
  then show ?thesis using k by simp
qed


lemma concat_submset:
  "(\<And>b. b \<in> set bs \<Longrightarrow> mset (f b) \<subseteq># mset b) \<Longrightarrow> mset (concat (map f bs)) \<subseteq># mset (concat bs)"
  by (induction bs) (auto intro: subset_mset.add_mono)

lemma merge_of_merges:
  assumes d: "distinct (map res_Key (concat batches))" and k: "0 < k"
    and ok: "\<And>x. x \<in> set (concat batches) \<Longrightarrow> ordered_result x"
  shows "MergeSearchResults m k (map (\<lambda>b. MergeSearchResults m k [b]) batches) = MergeSearchResults m k batches"
proof -
  let ?f = "\<lambda>b. MergeSearchResults m k [b]"
  let ?A = "concat batches" let ?B = "concat (map ?f batches)"
  let ?R = "MergeSearchResults m k (map ?f batches)" and ?R' = "MergeSearchResults m k batches"
  have okb: "ordered_result x" if "b \<in> set batches" "x \<in> set b" for b x using ok that by auto
  have fb: "best_k m (nat k) (mset b) (mset (?f b))" if "b \<in> set batches" for b
    using MergeSearchResults_best(1) [of "[b]" k m] okb [OF that] k by simp
  have db: "distinct (map res_Key b)" if "b \<in> set batches" for b
    using d that by (auto simp: distinct_map distinct_concat_iff inj_on_def) 
  have subB: "mset ?B \<subseteq># mset ?A" by (rule concat_submset) (use fb in \<open>simp add: best_k_def\<close>)
  then have setB: "set ?B \<subseteq> set ?A" by (metis set_mset_mono set_mset_mset)
  have dB: "distinct (map res_Key ?B)"
    by (rule distinct_submset(1) [OF _ d]) (use image_mset_subseteq_mono [OF subB, of res_Key] in simp)
  have okB: "\<And>x. x \<in> set ?B \<Longrightarrow> ordered_result x" using ok setB by blast
  note bR = MergeSearchResults_best [of "map ?f batches" k m, OF okB k] and bR' = MergeSearchResults_best [of batches k m, OF ok k]
  have inR: "x \<in> set ?R \<longleftrightarrow> x \<in> set ?B \<and> card {y \<in> set ?B. resultBetter m y x} < nat k" for x
    using best_k_iff [OF bR(1) dB okB, of x] best_k_set [OF bR(1)] by blast
  have inR': "x \<in> set ?R' \<longleftrightarrow> x \<in> set ?A \<and> card {y \<in> set ?A. resultBetter m y x} < nat k" for x
    using best_k_iff [OF bR'(1) d ok, of x] best_k_set [OF bR'(1)] by blast
  have "x \<in> set ?R \<longleftrightarrow> x \<in> set ?R'" for x
  proof
    assume "x \<in> set ?R"
    then have xB: "x \<in> set ?B" and cB: "card {y \<in> set ?B. resultBetter m y x} < nat k" using inR by auto
    have "y \<in> set ?B" if y: "y \<in> set ?A" "resultBetter m y x" for y
    proof (rule ccontr)
      assume nB: "y \<notin> set ?B"
      obtain b where b: "b \<in> set batches" "y \<in> set b" using y(1) by auto
      have nf: "y \<notin> set (?f b)" using nB b(1) by auto
      note o = best_k_out [OF fb [OF b(1)] db [OF b(1)] okb [OF b(1)] b(2) nf]
      have "set (?f b) \<subseteq> {z \<in> set ?B. resultBetter m z y}" using o(1) b(1) by auto
      then have "nat k \<le> card {z \<in> set ?B. resultBetter m z y}" using card_mono [of "{z \<in> set ?B. resultBetter m z y}" "set (?f b)"] o(2) by simp
      then have "nat k \<le> card {z \<in> set ?B. resultBetter m z x}"
        by (rule card_better_le [OF _ setB ok y(1) subsetD [OF setB xB] y(2), rotated -1]) auto
      then show False using cB by simp
    qed
    then have "{y \<in> set ?A. resultBetter m y x} \<subseteq> {y \<in> set ?B. resultBetter m y x}" by auto
    then have "card {y \<in> set ?A. resultBetter m y x} \<le> card {y \<in> set ?B. resultBetter m y x}" by (intro card_mono) auto
    then show "x \<in> set ?R'" using inR' cB xB setB by auto
  next
    assume "x \<in> set ?R'"
    then have xA: "x \<in> set ?A" and cA: "card {y \<in> set ?A. resultBetter m y x} < nat k" using inR' by auto
    obtain b where b: "b \<in> set batches" "x \<in> set b" using xA by auto
    have "card {y \<in> set b. resultBetter m y x} \<le> card {y \<in> set ?A. resultBetter m y x}"
      using b by (intro card_mono) auto
    then have "x \<in> set (?f b)" using best_k_iff [OF fb [OF b(1)] db [OF b(1)] okb [OF b(1)] b(2)] cA by simp
    then have xB: "x \<in> set ?B" using b(1) by auto
    have "card {y \<in> set ?B. resultBetter m y x} \<le> card {y \<in> set ?A. resultBetter m y x}"
      using setB by (intro card_mono) auto
    then show "x \<in> set ?R" using inR xB cA by simp
  qed
  then have sets: "set ?R = set ?R'" by blast
  have keyR: "distinct (map res_Key ?R)"
    by (rule distinct_submset(1) [OF _ dB]) (use bR(1) in \<open>auto simp: best_k_def intro: image_mset_subseteq_mono\<close>)
  have keyR': "distinct (map res_Key ?R')"
    by (rule distinct_submset(1) [OF _ d]) (use bR'(1) in \<open>auto simp: best_k_def intro: image_mset_subseteq_mono\<close>)
  show ?thesis
    by (rule sorted_better_unique [OF bR(2) bR'(2) sets keyR keyR']) (use sets inR' ok in \<open>auto simp only:\<close>)
qed

section \<open>Scanning the candidates\<close>

text \<open>The results the loop offers to the heap, in the order of the candidates; the first
  failure of a distance computation ends the scan.\<close>

fun scored ::
  "(Metric \<Rightarrow> 'v \<Rightarrow> 'v \<Rightarrow> f32 result) \<Rightarrow> Metric \<Rightarrow> 'v \<Rightarrow> SearchOptions \<Rightarrow> 'v Candidate list \<Rightarrow> Result list result" where
  "scored compute metric query options [] = Inr []"
| "scored compute metric query options (c # cs) =
     (if (case so_Filter options of None \<Rightarrow> False | Some f \<Rightarrow> \<not> f (cand_Key c)) then scored compute metric query options cs
      else case compute metric (cand_Vector c) query of
        Inl e \<Rightarrow> Inl (Wrap ''core: score candidate'' e)
      | Inr score \<Rightarrow>
      case scored compute metric query options cs of
        Inl e \<Rightarrow> Inl e
      | Inr rs \<Rightarrow> Inr (if scoreWithinRadius metric score (so_Radius options)
                        then \<lparr>res_Key = cand_Key c, res_Score = score\<rparr> # rs else rs))"

lemma topk_loop_scored:
  assumes "polls w = None"
  shows "topk_loop compute m q options k cs h w =
    (case scored compute m q options cs of Inl e \<Rightarrow> Inl e | Inr rs \<Rightarrow> Inr (foldl (select_result m k) h rs), w)"
  by (induction cs arbitrary: h) (auto simp: assms split: sum.splits option.splits)

lemma scored_length: "scored compute m q options cs = Inr rs \<Longrightarrow> length rs \<le> length cs"
  by (induction cs arbitrary: rs) (fastforce split: if_splits sum.splits)+

lemma Heap_Push_Len: "Heap_Len (Heap_Push x h) = Suc (Heap_Len h)"
  by (simp add: Heap_Push_def Heap_Len_def siftUp_mset)

lemma select_with_room:
  "Heap_Len h + length rs \<le> k \<Longrightarrow> foldl (select_result m k) h rs = foldl (\<lambda>h r. Heap_Push r h) h rs"
  by (induction rs arbitrary: h) (simp_all add: select_result_def Heap_Push_Len)

lemma select_clamped:
  assumes "length rs \<le> n"
  shows "foldl (select_result m (min k n)) (NewHeap f) rs = foldl (select_result m k) (NewHeap f) rs"
proof (cases "k \<le> n")
  case False
  have "Heap_Len (NewHeap f :: Result Heap) = 0" by (simp add: Heap_Len_def NewHeap_def)
  then show ?thesis using assms False by (simp add: select_with_room min_def)
qed simp

text \<open>Without cancellation the search is the merge of the one batch of scored candidates.\<close>

lemma topKCandidatesWithOptions_merge:
  assumes "polls w = None" "compute m q q = Inr s" "scored compute m q options cs = Inr rs"
    and "(if positive then SearchOptions_Validate options = None else 0 \<le> so_TopK options)"
  shows "topKCandidatesWithOptions compute m q options cs positive w = (Inr (MergeSearchResults m (so_TopK options) [rs]), w)"
proof (cases "so_TopK options = 0 \<or> cs = []")
  case True
  then have "so_TopK options = 0 \<or> rs = []" using assms(3) by auto
  then have "MergeSearchResults m (so_TopK options) [rs] = []"
    by (auto simp: MergeSearchResults_def Let_def NewHeap_def Heap_Values_def sort_results_def)
  then show ?thesis using True assms by (cases positive) (auto simp: topKCandidatesWithOptions_def)
next
  case False
  then have pos: "0 < so_TopK options"
    using assms(4) by (auto simp: SearchOptions_Validate_def split: if_splits)
  show ?thesis
    using False pos assms select_clamped [OF scored_length [OF assms(3)], of m "nat (so_TopK options)" "worstFirst m"]
    by (auto simp: topKCandidatesWithOptions_def topk_loop_scored MergeSearchResults_def Let_def)
qed

lemma topKCandidatesWithOptions_error:
  assumes "polls w = None" "compute m q q = Inr s" "scored compute m q options cs = Inl e"
    and "(if positive then SearchOptions_Validate options = None else 0 < so_TopK options)"
  shows "topKCandidatesWithOptions compute m q options cs positive w = (Inl e, w)"
proof -
  have "cs \<noteq> []" using assms(3) by auto
  moreover have "0 < so_TopK options" using assms(4) by (auto simp: SearchOptions_Validate_def split: if_splits)
  ultimately show ?thesis using assms by (auto simp: topKCandidatesWithOptions_def topk_loop_scored Let_def)
qed

end
