(* ===== verification/Utf8.thy ===== *)
theory Utf8
  imports Go_Runtime "HOL-Library.Sublist"
begin

text \<open>
  Runes of a string.  A rune is represented by the bytes that encode it; a byte that begins no
  encoding is a rune of its own, of width 1, as \<open>utf8.DecodeRuneInString\<close> reports it.  In a valid string the
  representation is exact: encodings are self-delimiting, so prefixes, suffixes and substrings
  made of whole runes are the same for bytes and for runes.
\<close>

type_synonym rune = bytes

section \<open>Decoding\<close>

definition rune_ok :: "rune \<Rightarrow> bool" where
  "rune_ok r \<longleftrightarrow> (case r of
       [b] \<Rightarrow> b < 0x80
     | [b, c] \<Rightarrow> utf8_two b \<and> continuation c
     | [b, c, d] \<Rightarrow> utf8_three b c \<and> continuation d
     | [b, c, d, e] \<Rightarrow> utf8_four b c \<and> continuation d \<and> continuation e
     | _ \<Rightarrow> False)"

definition rune_width :: "bytes \<Rightarrow> nat" where
  "rune_width s = (if rune_ok (take 1 s) then 1 else if rune_ok (take 2 s) then 2 else if rune_ok (take 3 s) then 3 else if rune_ok (take 4 s) then 4 else 1)"

function runes :: "bytes \<Rightarrow> rune list" where
  "runes [] = []"
| "runes (b # s) = take (rune_width (b # s)) (b # s) # runes (drop (rune_width (b # s)) (b # s))"
  by pat_completeness auto
termination
  by (relation "measure length") (auto simp: rune_width_def)

declare runes.simps [simp del]

section \<open>Whole runes\<close>

lemma runes_Nil [simp]: "runes [] = []" by (simp add: runes.simps)

lemma lead_bytes:
  "b < 0x80 \<Longrightarrow> \<not> utf8_two b \<and> \<not> utf8_three b c \<and> \<not> utf8_four b c"
  "utf8_two b \<Longrightarrow> \<not> utf8_three b c \<and> \<not> utf8_four b c"
  "utf8_three b c \<Longrightarrow> \<not> utf8_four b d"
  "continuation b \<Longrightarrow> \<not> b < 0x80 \<and> \<not> utf8_two b \<and> \<not> utf8_three b c \<and> \<not> utf8_four b c"
  by (auto simp: utf8_two_def utf8_three_def utf8_four_def in_range_def word_le_nat_alt word_less_nat_alt)

lemma rune_okE:
  assumes "rune_ok r"
  obtains b where "r = [b]" "b < 0x80"
  | b c where "r = [b, c]" "utf8_two b" "continuation c"
  | b c d where "r = [b, c, d]" "utf8_three b c" "continuation d"
  | b c d e where "r = [b, c, d, e]" "utf8_four b c" "continuation d" "continuation e"
  using assms by (auto simp: rune_ok_def split: list.splits)

lemma rune_ok_ne [simp]: "\<not> rune_ok []" by (simp add: rune_ok_def)

lemma rune_ok_length: "rune_ok r \<Longrightarrow> 0 < length r" by (cases r) simp_all

lemma rune_width_append:
  assumes "rune_ok r"
  shows "rune_width (r @ s) = length r"
  using assms
proof (cases rule: rune_okE)
  case (2 b c)
  then show ?thesis using lead_bytes(1) [of b] by (simp add: rune_width_def rune_ok_def numeral_eq_Suc) blast
next
  case (3 b c d)
  then show ?thesis using lead_bytes(1,2) [of b] by (simp add: rune_width_def rune_ok_def numeral_eq_Suc) blast
next
  case (4 b c d e)
  then show ?thesis using lead_bytes(1,2,3) [of b] by (simp add: rune_width_def rune_ok_def numeral_eq_Suc) blast
qed (simp add: rune_width_def rune_ok_def)

lemma runes_append:
  assumes "rune_ok r"
  shows "runes (r @ s) = r # runes s"
proof -
  obtain b t where bt: "r @ s = b # t" using assms by (cases r) auto
  have "runes (b # t) = take (rune_width (b # t)) (b # t) # runes (drop (rune_width (b # t)) (b # t))" by (simp only: runes.simps)
  then show ?thesis unfolding bt [symmetric] by (simp add: rune_width_append [OF assms])
qed

lemma runes_concat: "list_all rune_ok rs \<Longrightarrow> runes (concat rs @ s) = rs @ runes s"
  by (induction rs) (simp_all add: runes_append)

lemma concat_runes [simp]: "concat (runes s) = s"
  by (induction s rule: runes.induct) (simp_all add: runes.simps del: take_Cons drop_Cons)

lemma utf8_valid_append_rune: "rune_ok r \<Longrightarrow> utf8_valid (r @ s) = utf8_valid s"
  using lead_bytes by (erule_tac rune_okE) auto

lemma utf8_valid_concat: "list_all rune_ok rs \<Longrightarrow> utf8_valid (concat rs)"
  by (induction rs) (simp_all add: utf8_valid_append_rune)

lemma utf8_valid_split:
  assumes "utf8_valid s" and "s \<noteq> []"
  shows "\<exists>r t. s = r @ t \<and> rune_ok r \<and> utf8_valid t"
proof -
  obtain b bs where s: "s = b # bs" using assms(2) by (cases s) auto
  consider "b < 0x80" "utf8_valid bs"
    | c cs where "bs = c # cs" "utf8_two b" "continuation c" "utf8_valid cs"
    | c d ds where "bs = c # d # ds" "utf8_three b c" "continuation d" "utf8_valid ds"
    | c d e es where "bs = c # d # e # es" "utf8_four b c" "continuation d" "continuation e" "utf8_valid es"
    using assms(1) unfolding s utf8_valid.simps(2) by (auto simp del: utf8_valid.simps split: if_splits list.splits)
  then show ?thesis
  proof cases
    case 1
    then show ?thesis using s by (intro exI [of _ "[b]"] exI [of _ bs]) (simp add: rune_ok_def)
  next
    case (2 c cs)
    then show ?thesis using s by (intro exI [of _ "[b, c]"] exI [of _ cs]) (simp add: rune_ok_def)
  next
    case (3 c d ds)
    then show ?thesis using s by (intro exI [of _ "[b, c, d]"] exI [of _ ds]) (simp add: rune_ok_def)
  next
    case (4 c d e es)
    then show ?thesis using s by (intro exI [of _ "[b, c, d, e]"] exI [of _ es]) (simp add: rune_ok_def)
  qed
qed

lemma utf8_valid_runes: "utf8_valid s \<longleftrightarrow> list_all rune_ok (runes s)"
proof
  show "utf8_valid s" if "list_all rune_ok (runes s)" using utf8_valid_concat [OF that] by simp
next
  show "list_all rune_ok (runes s)" if "utf8_valid s"
    using that
  proof (induction "length s" arbitrary: s rule: less_induct)
    case less
    show ?case
    proof (cases s)
      case (Cons b bs)
      obtain r t where rt: "s = r @ t" "rune_ok r" "utf8_valid t" using utf8_valid_split [OF less.prems] Cons by blast
      then show ?thesis using less.hyps [of t] rune_ok_length [of r] by (simp add: runes_append)
    qed simp
  qed
qed

section \<open>Boundaries\<close>

lemma later_bytes: "utf8_three b c \<Longrightarrow> continuation c" "utf8_four b c \<Longrightarrow> continuation c"
  by (auto simp: utf8_three_def utf8_four_def in_range_def word_le_nat_alt)

lemma rune_tail: "rune_ok r \<Longrightarrow> list_all (\<lambda>b. continuation b) (tl r)"
  using later_bytes by (erule_tac rune_okE) auto

lemma rune_head: "rune_ok r \<Longrightarrow> \<not> continuation (hd r)"
  using lead_bytes(4) by (erule_tac rune_okE) auto

lemma utf8_valid_boundary:
  "utf8_valid (t @ u) \<Longrightarrow> u \<noteq> [] \<Longrightarrow> \<not> continuation (hd u) \<Longrightarrow> utf8_valid t"
proof (induction "length t" arbitrary: t rule: less_induct)
  case less
  show ?case
  proof (cases "t = []")
    case False
    obtain q v where q: "t @ u = q @ v" "rune_ok q" "utf8_valid v" using utf8_valid_split [OF less.prems(1)] False by auto
    consider t' where "t = q @ t'" "v = t' @ u" | x where "q = t @ x" "u = x @ v" "x \<noteq> []"
      using q(1) unfolding append_eq_append_conv2 by fastforce
    then show ?thesis
    proof cases
      case (1 t')
      then show ?thesis using less.hyps [of t'] less.prems(2,3) q(2,3) rune_ok_length [of q] by (simp add: utf8_valid_append_rune)
    next
      case (2 x)
      then have "hd u \<in> set (tl q)" using False by (cases t; cases x) auto
      then show ?thesis using rune_tail [OF q(2)] less.prems(3) by (simp add: list_all_iff)
    qed
  qed simp
qed

lemma hd_concat_rune: "list_all rune_ok rs \<Longrightarrow> rs \<noteq> [] \<Longrightarrow> concat rs \<noteq> [] \<and> \<not> continuation (hd (concat rs))"
  using rune_head rune_ok_length by (cases rs) (auto simp: hd_append)

lemma prefix_runes:
  assumes "list_all rune_ok rs"
  shows "prefix (concat rs) s \<longleftrightarrow> prefix rs (runes s)"
proof
  assume "prefix (concat rs) s"
  then show "prefix rs (runes s)" using runes_concat [OF assms] by (auto simp: prefix_def)
next
  assume "prefix rs (runes s)"
  then obtain ts where "runes s = rs @ ts" by (auto simp: prefix_def)
  then have "s = concat rs @ concat ts" by (metis concat_append concat_runes)
  then show "prefix (concat rs) s" by (simp add: prefix_def)
qed

lemma runes_around:
  assumes "list_all rune_ok rs" and "utf8_valid s" and "rs \<noteq> []" and s: "s = t @ concat rs @ u"
  shows "runes s = runes t @ rs @ runes u"
proof -
  have "\<not> continuation (hd (concat rs @ u))" "concat rs @ u \<noteq> []" using hd_concat_rune [OF assms(1,3)] by auto
  then have "utf8_valid t" using utf8_valid_boundary assms(2) s by blast
  then show ?thesis
    using s runes_concat [of "runes t" "concat rs @ u"] runes_concat [OF assms(1)] by (simp add: utf8_valid_runes)
qed

lemma suffix_runes:
  assumes "list_all rune_ok rs" and "utf8_valid s"
  shows "suffix (concat rs) s \<longleftrightarrow> suffix rs (runes s)"
proof
  assume "suffix (concat rs) s"
  then obtain t where "s = t @ concat rs" by (auto simp: suffix_def)
  then show "suffix rs (runes s)" using runes_around [OF assms, of t "[]"] by (cases "rs = []") (auto simp: suffix_def)
next
  assume "suffix rs (runes s)"
  then obtain ts where "runes s = ts @ rs" by (auto simp: suffix_def)
  then have "s = concat ts @ concat rs" by (metis concat_append concat_runes)
  then show "suffix (concat rs) s" by (simp add: suffix_def)
qed

lemma sublist_runes:
  assumes "list_all rune_ok rs" and "utf8_valid s"
  shows "sublist (concat rs) s \<longleftrightarrow> sublist rs (runes s)"
proof
  assume "sublist (concat rs) s"
  then obtain t u where "s = t @ concat rs @ u" by (auto simp: sublist_def)
  then show "sublist rs (runes s)" using runes_around [OF assms, of t u] by (cases "rs = []") (auto simp: sublist_def)
next
  assume "sublist rs (runes s)"
  then obtain ts us where r: "runes s = ts @ rs @ us" by (auto simp: sublist_def)
  have "s = concat ts @ concat rs @ concat us" using concat_runes [of s] r by simp
  then show "sublist (concat rs) s" by (auto simp: sublist_def)
qed

end
