(* ===== verification/Sql_Ast.thy ===== *)
theory Sql_Ast
  imports Utf8 "HOL-Library.AList"
begin

text \<open>
  The filter language of \<open>internal/db/sql\<close>: positions and errors (\<open>error.go\<close>, \<open>analysis_error.go\<close>), the
  syntax tree and its printing (\<open>ast.go\<close>), and the rewriting of equalities into sets (\<open>rewrite.go\<close>).  A Go string
  is its bytes.  The enumerations hold their declared values only; the branches of the code for other
  values of these types are not reached.
\<close>

section \<open>Positions and errors\<close>

record Position =
  pos_Offset :: nat
  pos_Line :: nat
  pos_Column :: nat

record Span =
  span_Start :: Position
  span_End :: Position

datatype sql_error = ParseError Position string | AnalysisError Position string | SqlError string

type_synonym 'a sql_result = "sql_error + 'a"

abbreviation first_position :: Position where
  "first_position \<equiv> \<lparr>pos_Offset = 0, pos_Line = 1, pos_Column = 1\<rparr>"

text \<open>Bytes of an ASCII literal of the source.\<close>

definition ascii :: "string \<Rightarrow> bytes" where
  "ascii s = map (\<lambda>c. word_of_nat (of_char c)) s"

section \<open>Syntax tree\<close>

datatype LogicalOperator = LogicalAnd | LogicalOr

datatype PredicateOperator =
  PredicateEQ | PredicateNE | PredicateLT | PredicateLE | PredicateGT | PredicateGE
| PredicateLike | PredicateIn | PredicateContainAll | PredicateContainAny | PredicateIsNull

text \<open>The operators the code compares as numbers, \<open>PredicateEQ\<close> to \<open>PredicateGE\<close>.\<close>

definition comparison_operators :: "PredicateOperator set" where
  "comparison_operators = {PredicateEQ, PredicateNE, PredicateLT, PredicateLE, PredicateGT, PredicateGE}"

datatype LiteralKind = LiteralInteger | LiteralFloat | LiteralString | LiteralBool

record LiteralExpr =
  lit_Kind :: LiteralKind
  lit_Text :: bytes
  lit_Raw :: bytes
  lit_Range :: Span

datatype ValueExpr =
  IdentifierExpr bytes Span
| CallExpr bytes "ValueExpr list" Span
| LiteralNode LiteralExpr
| ListExpr "LiteralExpr list" Span
| VectorExpr "LiteralExpr list list" bool Span

text \<open>The right operand of \<open>IS NULL\<close> is nil.\<close>

datatype Expr =
  LogicalExpr LogicalOperator Expr Expr Span
| PredicateExpr PredicateOperator ValueExpr "ValueExpr option" bool Span
| ValueNode ValueExpr

fun value_NodeSpan :: "ValueExpr \<Rightarrow> Span" where
  "value_NodeSpan (IdentifierExpr name rng) = rng"
| "value_NodeSpan (CallExpr name arguments rng) = rng"
| "value_NodeSpan (LiteralNode literal) = lit_Range literal"
| "value_NodeSpan (ListExpr values rng) = rng"
| "value_NodeSpan (VectorExpr rows matrix rng) = rng"

fun NodeSpan :: "Expr \<Rightarrow> Span" where
  "NodeSpan (LogicalExpr operator left right rng) = rng"
| "NodeSpan (PredicateExpr operator left right negated rng) = rng"
| "NodeSpan (ValueNode v) = value_NodeSpan v"

section \<open>Printing\<close>

fun LogicalOperator_String :: "LogicalOperator \<Rightarrow> string" where
  "LogicalOperator_String LogicalAnd = ''AND''"
| "LogicalOperator_String LogicalOr = ''OR''"

fun PredicateOperator_String :: "PredicateOperator \<Rightarrow> string" where
  "PredicateOperator_String PredicateEQ = ''=''"
| "PredicateOperator_String PredicateNE = ''!=''"
| "PredicateOperator_String PredicateLT = ''<''"
| "PredicateOperator_String PredicateLE = ''<=''"
| "PredicateOperator_String PredicateGT = ''>''"
| "PredicateOperator_String PredicateGE = ''>=''"
| "PredicateOperator_String PredicateLike = ''LIKE''"
| "PredicateOperator_String PredicateIn = ''IN''"
| "PredicateOperator_String PredicateContainAll = ''CONTAIN_ALL''"
| "PredicateOperator_String PredicateContainAny = ''CONTAIN_ANY''"
| "PredicateOperator_String PredicateIsNull = ''IS NULL''"

text \<open>\<open>strings.Join\<close>, and \<open>strings.ReplaceAll\<close> of one byte.\<close>

fun strings_Join :: "bytes list \<Rightarrow> bytes \<Rightarrow> bytes" where
  "strings_Join [] sep = []"
| "strings_Join [x] sep = x"
| "strings_Join (x # y # ys) sep = x @ sep @ strings_Join (y # ys) sep"

definition replace_byte :: "u8 \<Rightarrow> bytes \<Rightarrow> bytes \<Rightarrow> bytes" where
  "replace_byte old new text = concat (map (\<lambda>b. if b = old then new else [b]) text)"

definition Format_literal :: "LiteralExpr \<Rightarrow> bytes" where
  "Format_literal literal =
     (if lit_Kind literal = LiteralString
      then ascii [CHR 0x27] @ replace_byte 0x27 [0x5C, 0x27] (replace_byte 0x5C [0x5C, 0x5C] (lit_Text literal)) @ ascii [CHR 0x27]
      else lit_Text literal)"

fun Format_value :: "ValueExpr \<Rightarrow> bytes" where
  "Format_value (IdentifierExpr name rng) = name"
| "Format_value (CallExpr name arguments rng) =
     name @ ascii ''('' @ strings_Join (map Format_value arguments) (ascii '', '') @ ascii '')''"
| "Format_value (LiteralNode literal) = Format_literal literal"
| "Format_value (ListExpr values rng) = ascii ''('' @ strings_Join (map Format_literal values) (ascii '', '') @ ascii '')''"
| "Format_value (VectorExpr rows matrix rng) =
     (let rows = map (\<lambda>row. ascii ''['' @ strings_Join (map Format_literal row) (ascii '', '') @ ascii '']'') rows in
      if matrix then ascii ''['' @ strings_Join rows (ascii '', '') @ ascii '']''
      else if length rows = 1 then hd rows else ascii ''[]'')"

fun Format :: "Expr \<Rightarrow> bytes" where
  "Format (LogicalExpr operator left right rng) =
     ascii ''('' @ Format left @ ascii '' '' @ ascii (LogicalOperator_String operator) @ ascii '' '' @ Format right @ ascii '')''"
| "Format (PredicateExpr operator left right negated rng) =
     (let left = Format_value left; right = (case right of None \<Rightarrow> ascii ''<nil>'' | Some v \<Rightarrow> Format_value v) in
      if operator = PredicateIsNull then left @ ascii (if negated then '' IS NOT NULL'' else '' IS NULL'')
      else if operator \<in> {PredicateIn, PredicateContainAll, PredicateContainAny}
        then left @ ascii '' '' @ ascii (if negated then ''NOT '' else []) @ ascii (PredicateOperator_String operator) @ ascii '' '' @ right
      else left @ ascii '' '' @ ascii (PredicateOperator_String operator) @ ascii '' '' @ right)"
| "Format (ValueNode v) = Format_value v"

section \<open>Rewriting\<close>

fun flattenLogical :: "Expr \<Rightarrow> LogicalOperator \<Rightarrow> Expr list" where
  "flattenLogical (LogicalExpr op left right rng) operator =
     (if op \<noteq> operator then [LogicalExpr op left right rng]
      else flattenLogical left operator @ flattenLogical right operator)"
| "flattenLogical expression operator = [expression]"

definition join_step :: "LogicalOperator \<Rightarrow> Expr \<Rightarrow> Expr \<Rightarrow> Expr" where
  "join_step operator joined expression =
     LogicalExpr operator joined expression \<lparr>span_Start = span_Start (NodeSpan joined), span_End = span_End (NodeSpan expression)\<rparr>"

text \<open>\<open>joinLogical\<close> of a list that is not empty; the code returns nil for the empty one, which it never joins.\<close>

definition joinLogical :: "Expr list \<Rightarrow> LogicalOperator \<Rightarrow> Expr" where
  "joinLogical expressions operator = foldl (join_step operator) (hd expressions) (tl expressions)"

definition equalitySetCandidate :: "Expr \<Rightarrow> (bytes \<times> Span \<times> LiteralExpr list) option" where
  "equalitySetCandidate expression =
     (case expression of
        PredicateExpr operator (IdentifierExpr name rng) right negated _ \<Rightarrow>
          if negated then None
          else if operator = PredicateEQ then
            (case right of Some (LiteralNode literal) \<Rightarrow> Some (name, rng, [literal]) | _ \<Rightarrow> None)
          else if operator = PredicateIn then
            (case right of Some (ListExpr values _) \<Rightarrow> Some (name, rng, values) | _ \<Rightarrow> None)
          else None
      | _ \<Rightarrow> None)"

record equalityGroup =
  eg_index :: nat
  eg_field :: "bytes \<times> Span"
  eg_values :: "LiteralExpr list"
  eg_terms :: nat
  eg_range :: Span

text \<open>One step of the first loop of \<open>rewriteEqualitySets\<close>: the groups by field name and the terms kept so far.\<close>

definition group_term ::
  "(bytes \<times> equalityGroup) list \<times> Expr list \<Rightarrow> Expr \<Rightarrow> (bytes \<times> equalityGroup) list \<times> Expr list" where
  "group_term x expression = (case x of (groups, kept) \<Rightarrow>
     case equalitySetCandidate expression of
       None \<Rightarrow> (groups, kept @ [expression])
     | Some (name, rng, values) \<Rightarrow>
     case map_of groups name of
       None \<Rightarrow> (groups @ [(name, \<lparr>eg_index = length kept, eg_field = (name, rng), eg_values = values, eg_terms = 1,
                   eg_range = NodeSpan expression\<rparr>)], kept @ [expression])
     | Some grp \<Rightarrow>
       (AList.update name (grp\<lparr>eg_values := eg_values grp @ values, eg_terms := eg_terms grp + 1,
            eg_range := (eg_range grp)\<lparr>span_End := span_End (NodeSpan expression)\<rparr>\<rparr>) groups, kept))"

definition group_predicate :: "equalityGroup \<Rightarrow> Expr" where
  "group_predicate grp =
     PredicateExpr PredicateIn (IdentifierExpr (fst (eg_field grp)) (snd (eg_field grp)))
       (Some (ListExpr (eg_values grp)
          \<lparr>span_Start = span_Start (lit_Range (hd (eg_values grp))), span_End = span_End (lit_Range (last (eg_values grp)))\<rparr>))
       False (eg_range grp)"

text \<open>The second loop.  Each group replaces the term at its own index, so the order in which the map of groups is
  visited does not matter.\<close>

definition replace_group :: "Expr list \<times> nat \<Rightarrow> bytes \<times> equalityGroup \<Rightarrow> Expr list \<times> nat" where
  "replace_group x g = (case x of (kept, equalitySets) \<Rightarrow>
     if eg_terms (snd g) < 2 then (kept, equalitySets)
     else (kept[eg_index (snd g) := group_predicate (snd g)], equalitySets + 1))"

definition rewriteEqualitySets :: "Expr list \<Rightarrow> nat \<Rightarrow> Expr \<times> nat" where
  "rewriteEqualitySets terms equalitySets =
     (case foldl group_term ([], []) terms of (groups, kept) \<Rightarrow>
      case foldl replace_group (kept, equalitySets) groups of (kept, equalitySets) \<Rightarrow>
      (joinLogical kept LogicalOr, equalitySets))"

lemma flatten_size: "sum_list (map size (flattenLogical x op)) \<le> size x"
  by (induction x op rule: flattenLogical.induct) auto

function rewriteExpression :: "Expr \<Rightarrow> nat \<Rightarrow> Expr \<times> nat"
  and rewriteTerms :: "Expr list \<Rightarrow> nat \<Rightarrow> Expr list \<times> nat" where
  "rewriteExpression (LogicalExpr operator left right rng) equalitySets =
     (if operator = LogicalOr
      then (case rewriteTerms (flattenLogical left LogicalOr @ flattenLogical right LogicalOr) equalitySets of
        (terms, equalitySets) \<Rightarrow> rewriteEqualitySets terms equalitySets)
      else (case rewriteExpression left equalitySets of (left, equalitySets) \<Rightarrow>
        case rewriteExpression right equalitySets of (right, equalitySets) \<Rightarrow>
        (LogicalExpr operator left right rng, equalitySets)))"
| "rewriteExpression (PredicateExpr operator l r negated rng) equalitySets =
     (PredicateExpr operator l r negated rng, equalitySets)"
| "rewriteExpression (ValueNode v) equalitySets = (ValueNode v, equalitySets)"
| "rewriteTerms [] equalitySets = ([], equalitySets)"
| "rewriteTerms (e # es) equalitySets =
     (case rewriteExpression e equalitySets of (e, equalitySets) \<Rightarrow>
      case rewriteTerms es equalitySets of (es, equalitySets) \<Rightarrow> (e # es, equalitySets))"
  by pat_completeness auto
termination
  using flatten_size [of _ LogicalOr]
  by (relation "measures [case_sum (\<lambda>(e, n). size e) (\<lambda>(es, n). sum_list (map size es)),
      case_sum (\<lambda>x. 0) (\<lambda>(es, n). Suc (length es))]") (auto simp: less_Suc_eq_le add_mono)

definition RewriteFilter :: "Expr \<Rightarrow> Expr \<times> nat" where
  "RewriteFilter expression = rewriteExpression expression 0"

end
