(* ===== verification/Sql_Like.thy ===== *)
theory Sql_Like
  imports Sql_Ast
begin

text \<open>
  LIKE patterns, \<open>internal/db/sql/like.go\<close>: the tokens of a pattern, its cheapest exact interpretation, and the
  match.  The regular expression the code builds is a sequence of quoted runes, \<open>.*\<close> and \<open>.\<close> between \<open>\A\<close> and
  \<open>\z\<close> with the dot matching every rune; its match is the usual one for such a sequence, on the runes of
  the value.  The two limits of a filter and the positions of errors come from \<open>lexer.go\<close>.
\<close>

section \<open>Positions in a string\<close>

definition MaxFilterBytes :: nat where "MaxFilterBytes = 2 ^ 20"

text \<open>How a rune moves the position; the offset is the number of bytes.\<close>

definition advance_position :: "rune \<Rightarrow> Position \<Rightarrow> Position" where
  "advance_position r p =
     (if r = [0x0A] then \<lparr>pos_Offset = pos_Offset p + length r, pos_Line = pos_Line p + 1, pos_Column = 1\<rparr>
      else p\<lparr>pos_Offset := pos_Offset p + length r, pos_Column := pos_Column p + 1\<rparr>)"

function firstInvalidUTF8 :: "bytes \<Rightarrow> nat" where
  "firstInvalidUTF8 [] = 0"
| "firstInvalidUTF8 (b # s) =
     (let width = rune_width (b # s) in
      if width = 1 \<and> 0x80 \<le> b then 0 else width + firstInvalidUTF8 (drop width (b # s)))"
  by pat_completeness auto
termination
  by (relation "measure length") (auto simp: rune_width_def)

text \<open>\<open>positionAt\<close>: the loop over the runes that begin before the target; the offset is then set to the target.\<close>

fun position_walk :: "rune list \<Rightarrow> nat \<Rightarrow> Position \<Rightarrow> Position" where
  "position_walk [] target p = p"
| "position_walk (r # rs) target p = (if pos_Offset p < target then position_walk rs target (advance_position r p) else p)"

definition positionAt :: "bytes \<Rightarrow> nat \<Rightarrow> Position" where
  "positionAt input target = (position_walk (runes input) target first_position)\<lparr>pos_Offset := target\<rparr>"

section \<open>Patterns\<close>

datatype LikeMode = LikeExact | LikeAny | LikePrefix | LikeSuffix | LikeContains | LikeGeneral

datatype likeToken = likeLiteral rune | likeAnySequence | likeAnyRune

record LikePattern =
  lp_raw :: bytes
  lp_mode :: LikeMode
  lp_literal :: bytes
  lp_regexp :: "likeToken list"

text \<open>The loop of \<open>tokenizeLike\<close>; \<open>tokens\<close> are those already appended.\<close>

fun tokenize_loop :: "rune list \<Rightarrow> likeToken list \<Rightarrow> likeToken list" where
  "tokenize_loop [] tokens = tokens"
| "tokenize_loop [current] tokens =
     (if current = [0x25] then (if tokens = [] \<or> last tokens \<noteq> likeAnySequence then tokens @ [likeAnySequence] else tokens)
      else if current = [0x5F] then tokens @ [likeAnyRune]
      else tokens @ [likeLiteral current])"
| "tokenize_loop (current # following # rest) tokens =
     (if current = [0x5C] then tokenize_loop rest (tokens @ [likeLiteral following])
      else if current = [0x25]
        then tokenize_loop (following # rest)
          (if tokens = [] \<or> last tokens \<noteq> likeAnySequence then tokens @ [likeAnySequence] else tokens)
      else if current = [0x5F] then tokenize_loop (following # rest) (tokens @ [likeAnyRune])
      else tokenize_loop (following # rest) (tokens @ [likeLiteral current]))"

definition tokenizeLike :: "bytes \<Rightarrow> likeToken list" where
  "tokenizeLike pattern = tokenize_loop (runes pattern) []"

fun literalBetween :: "likeToken list \<Rightarrow> bytes option" where
  "literalBetween [] = Some []"
| "literalBetween (likeLiteral r # tokens) = (case literalBetween tokens of None \<Rightarrow> None | Some text \<Rightarrow> Some (r @ text))"
| "literalBetween (_ # tokens) = None"

definition classifyLike :: "likeToken list \<Rightarrow> LikeMode \<times> bytes" where
  "classifyLike tokens =
     (let wildcards = length (filter (\<lambda>t. t \<in> {likeAnySequence, likeAnyRune}) tokens) in
      if wildcards = 0 then (LikeExact, case literalBetween tokens of None \<Rightarrow> [] | Some literal \<Rightarrow> literal)
      else if length tokens = 1 \<and> hd tokens = likeAnySequence then (LikeAny, [])
      else case (if last tokens = likeAnySequence then literalBetween (butlast tokens) else None) of
        Some literal \<Rightarrow> (LikePrefix, literal)
      | None \<Rightarrow>
      case (if hd tokens = likeAnySequence then literalBetween (tl tokens) else None) of
        Some literal \<Rightarrow> (LikeSuffix, literal)
      | None \<Rightarrow>
      case (if 2 \<le> length tokens \<and> hd tokens = likeAnySequence \<and> last tokens = likeAnySequence
            then literalBetween (butlast (tl tokens)) else None) of
        Some literal \<Rightarrow> (LikeContains, literal)
      | None \<Rightarrow> (LikeGeneral, []))"

text \<open>The quoted pieces always form an expression the regular-expression package accepts.\<close>

definition CompileLike :: "bytes \<Rightarrow> LikePattern sql_result" where
  "CompileLike pattern =
     (if MaxFilterBytes < length pattern then Inl (ParseError first_position ''LIKE pattern is too long'')
      else if \<not> utf8_valid pattern
        then Inl (ParseError (positionAt pattern (firstInvalidUTF8 pattern)) ''LIKE pattern is not valid UTF-8'')
      else let tokens = tokenizeLike pattern in
      case classifyLike tokens of (mode, literal) \<Rightarrow>
      Inr \<lparr>lp_raw = pattern, lp_mode = mode, lp_literal = literal, lp_regexp = tokens\<rparr>)"

text \<open>The match of the regular expression.\<close>

fun regexp_match :: "likeToken list \<Rightarrow> rune list \<Rightarrow> bool" where
  "regexp_match [] rs = (rs = [])"
| "regexp_match (likeLiteral r # tokens) rs = (case rs of [] \<Rightarrow> False | x # xs \<Rightarrow> x = r \<and> regexp_match tokens xs)"
| "regexp_match (likeAnyRune # tokens) rs = (case rs of [] \<Rightarrow> False | x # xs \<Rightarrow> regexp_match tokens xs)"
| "regexp_match (likeAnySequence # tokens) rs =
     (regexp_match tokens rs \<or> (case rs of [] \<Rightarrow> False | x # xs \<Rightarrow> regexp_match (likeAnySequence # tokens) xs))"

definition LikePattern_Match :: "LikePattern \<Rightarrow> bytes \<Rightarrow> bool" where
  "LikePattern_Match p value \<longleftrightarrow> utf8_valid value \<and> regexp_match (lp_regexp p) (runes value)"

section \<open>What a pattern matches\<close>

text \<open>The meaning of a pattern, rune by rune.\<close>

fun like_spec :: "rune list \<Rightarrow> rune list \<Rightarrow> bool" where
  "like_spec [] rs = (rs = [])"
| "like_spec (p # ps) rs =
     (if p = [0x5C] \<and> ps \<noteq> [] then rs \<noteq> [] \<and> hd rs = hd ps \<and> like_spec (tl ps) (tl rs)
      else if p = [0x25] then \<exists>n \<le> length rs. like_spec ps (drop n rs)
      else if p = [0x5F] then rs \<noteq> [] \<and> like_spec ps (tl rs)
      else rs \<noteq> [] \<and> hd rs = p \<and> like_spec ps (tl rs))"

fun simple_tokens :: "rune list \<Rightarrow> likeToken list" where
  "simple_tokens [] = []"
| "simple_tokens (p # ps) =
     (if p = [0x5C] \<and> ps \<noteq> [] then likeLiteral (hd ps) # simple_tokens (tl ps)
      else (if p = [0x25] then likeAnySequence else if p = [0x5F] then likeAnyRune else likeLiteral p) # simple_tokens ps)"

lemma ex_nat_split: "(\<exists>n. P n) \<longleftrightarrow> P 0 \<or> (\<exists>n. P (Suc n))"
  by (metis not0_implies_Suc)

lemma match_any: "regexp_match (likeAnySequence # ts) rs \<longleftrightarrow> (\<exists>n \<le> length rs. regexp_match ts (drop n rs))"
proof (induction rs)
  case (Cons x xs)
  have "(\<exists>n \<le> length (x # xs). regexp_match ts (drop n (x # xs)))
      \<longleftrightarrow> regexp_match ts (x # xs) \<or> (\<exists>n. Suc n \<le> length (x # xs) \<and> regexp_match ts (drop (Suc n) (x # xs)))"
    (is "(\<exists>n. ?P n) \<longleftrightarrow> ?Q \<or> (\<exists>n. ?P (Suc n))")
    using ex_nat_split [of ?P] by simp
  then show ?case using Cons by simp
qed simp

lemma match_simple_tokens: "regexp_match (simple_tokens ps) rs = like_spec ps rs"
proof (induction ps arbitrary: rs rule: simple_tokens.induct)
  case (2 p ps)
  show ?case using 2 by (cases rs) (auto simp: match_any simp del: regexp_match.simps(4))
qed simp

lemma match_cong: "(\<And>rs. regexp_match ts rs = regexp_match us rs) \<Longrightarrow> regexp_match (t # ts) rs = regexp_match (t # us) rs"
  by (cases t) (auto simp: match_any simp del: regexp_match.simps(4) split: list.splits)

lemma match_append_cong:
  "(\<And>rs. regexp_match ts rs = regexp_match us rs) \<Longrightarrow> regexp_match (pre @ ts) rs = regexp_match (pre @ us) rs"
proof (induction pre arbitrary: rs)
  case (Cons t pre)
  have "regexp_match (pre @ ts) qs = regexp_match (pre @ us) qs" for qs using Cons by blast
  then show ?case using match_cong [of "pre @ ts" "pre @ us" t rs] by simp
qed simp

lemma match_any_any: "regexp_match (likeAnySequence # likeAnySequence # ts) rs = regexp_match (likeAnySequence # ts) rs"
proof -
  have "(\<exists>n \<le> length rs. \<exists>k \<le> length rs - n. regexp_match ts (drop (k + n) rs)) \<longleftrightarrow> (\<exists>m \<le> length rs. regexp_match ts (drop m rs))"
    (is "?l \<longleftrightarrow> ?r")
  proof
    assume ?l
    then obtain n k where "n \<le> length rs" "k \<le> length rs - n" "regexp_match ts (drop (k + n) rs)" by blast
    then show ?r by (intro exI [of _ "k + n"]) simp
  next
    assume ?r
    then obtain m where "m \<le> length rs" "regexp_match ts (drop m rs)" by blast
    then show ?l by (intro exI [of _ m] conjI exI [of _ 0]) simp_all
  qed
  then show ?thesis by (simp add: match_any del: regexp_match.simps(4))
qed

text \<open>Dropping a wildcard that follows a wildcard changes no match.\<close>

lemma collapse_match:
  assumes "tokens \<noteq> []" and "last tokens = likeAnySequence"
  shows "regexp_match (tokens @ likeAnySequence # ts) rs = regexp_match (tokens @ ts) rs"
proof -
  obtain pre where pre: "tokens = pre @ [likeAnySequence]" using assms by (metis append_butlast_last_id)
  show ?thesis using match_append_cong [of "likeAnySequence # likeAnySequence # ts" "likeAnySequence # ts" pre rs, OF match_any_any]
    by (simp add: pre del: regexp_match.simps)
qed

lemma tokenize_loop_match: "regexp_match (tokenize_loop ps tokens) rs = regexp_match (tokens @ simple_tokens ps) rs"
proof (induction ps tokens rule: tokenize_loop.induct)
  case (2 current tokens)
  show ?case using collapse_match [of tokens "[]" rs] by (simp del: regexp_match.simps)
next
  case (3 current following rest tokens)
  show ?case using 3 collapse_match [of tokens "simple_tokens (following # rest)" rs]
    by (simp del: regexp_match.simps simple_tokens.simps(2) add: simple_tokens.simps(2) [of current])
qed simp

lemma tokenizeLike_match: "regexp_match (tokenizeLike pattern) rs = like_spec (runes pattern) rs"
  by (simp add: tokenizeLike_def tokenize_loop_match match_simple_tokens)

section \<open>The cheap interpretations\<close>

lemma map_likeLiteral [simp]: "map likeLiteral qs = map likeLiteral zs \<longleftrightarrow> qs = zs"
  by (simp add: inj_map_eq_map inj_def)

lemma literalBetween_Some: "literalBetween ts = Some text \<longleftrightarrow> (\<exists>qs. ts = map likeLiteral qs \<and> text = concat qs)"
proof (induction ts arbitrary: "text")
  case (Cons t ts)
  show ?case
  proof (cases t)
    case t: (likeLiteral r)
    have "(\<exists>qs. likeLiteral r # ts = map likeLiteral qs \<and> text = concat qs)
        \<longleftrightarrow> (\<exists>zs. ts = map likeLiteral zs \<and> text = r @ concat zs)"
      by (auto simp: Cons_eq_map_conv)
    also have "\<dots> \<longleftrightarrow> (\<exists>tail. literalBetween ts = Some tail \<and> text = r @ tail)" using Cons.IH by auto
    also have "\<dots> \<longleftrightarrow> literalBetween (likeLiteral r # ts) = Some text" by (auto split: option.splits)
    finally show ?thesis using t by simp
  qed (auto simp: Cons_eq_map_conv)
qed auto

definition token_ok :: "likeToken \<Rightarrow> bool" where
  "token_ok t \<longleftrightarrow> (case t of likeLiteral r \<Rightarrow> rune_ok r | _ \<Rightarrow> True)"

lemma tokenize_loop_ok: "list_all rune_ok ps \<Longrightarrow> list_all token_ok tokens \<Longrightarrow> list_all token_ok (tokenize_loop ps tokens)"
  by (induction ps tokens rule: tokenize_loop.induct) (auto simp: token_ok_def)

lemma tokenizeLike_ok: "utf8_valid pattern \<Longrightarrow> list_all token_ok (tokenizeLike pattern)"
  by (simp add: tokenizeLike_def tokenize_loop_ok utf8_valid_runes)

lemma literal_runes_ok: "list_all token_ok (map likeLiteral qs) \<longleftrightarrow> list_all rune_ok qs"
  by (induction qs) (simp_all add: token_ok_def)

lemma match_literals: "regexp_match (map likeLiteral qs @ ts) rs \<longleftrightarrow> (\<exists>us. rs = qs @ us \<and> regexp_match ts us)"
  by (induction qs arbitrary: rs) (auto split: list.splits)

lemma match_literals_all: "regexp_match (map likeLiteral qs) rs \<longleftrightarrow> rs = qs"
  using match_literals [of qs "[]" rs] by auto

lemma match_any_only: "regexp_match [likeAnySequence] rs"
  by (induction rs) simp_all

lemma match_suffix: "regexp_match (likeAnySequence # map likeLiteral qs) rs \<longleftrightarrow> suffix qs rs"
proof -
  have "(\<exists>n \<le> length rs. drop n rs = qs) \<longleftrightarrow> suffix qs rs"
    by (metis append_eq_conv_conj length_append le_add1 suffix_def suffix_drop)
  then show ?thesis by (simp add: match_any match_literals_all del: regexp_match.simps)
qed

lemma match_contains: "regexp_match (likeAnySequence # map likeLiteral qs @ [likeAnySequence]) rs \<longleftrightarrow> sublist qs rs"
proof -
  have "(\<exists>n \<le> length rs. \<exists>us. drop n rs = qs @ us) \<longleftrightarrow> (\<exists>ps us. rs = ps @ qs @ us)"
    by (metis append_eq_conv_conj append_take_drop_id length_append le_add1)
  then show ?thesis using match_any_only by (simp add: match_any [of "map likeLiteral qs @ _"] match_literals sublist_def del: regexp_match.simps)
qed

lemma wildcards_none: "filter (\<lambda>t. t \<in> {likeAnySequence, likeAnyRune}) ts = [] \<Longrightarrow> \<exists>qs. ts = map likeLiteral qs"
proof (induction ts)
  case (Cons t ts)
  then obtain qs where "ts = map likeLiteral qs" by (auto split: if_splits)
  moreover obtain r where "t = likeLiteral r" using Cons.prems by (cases t) auto
  ultimately show ?case by (intro exI [of _ "r # qs"]) simp
qed simp

text \<open>What a mode and its literal say of a value.\<close>

fun mode_spec :: "LikeMode \<Rightarrow> bytes \<Rightarrow> bytes \<Rightarrow> bool" where
  "mode_spec LikeExact literal value = (value = literal)"
| "mode_spec LikeAny literal value = True"
| "mode_spec LikePrefix literal value = prefix literal value"
| "mode_spec LikeSuffix literal value = suffix literal value"
| "mode_spec LikeContains literal value = sublist literal value"
| "mode_spec LikeGeneral literal value = True"

lemma classifyLike_cases:
  assumes "classifyLike ts = (mode, literal)"
  obtains qs where "mode = LikeExact" "ts = map likeLiteral qs" "literal = concat qs"
  | "mode = LikeAny" "ts = [likeAnySequence]"
  | qs where "mode = LikePrefix" "ts = map likeLiteral qs @ [likeAnySequence]" "literal = concat qs"
  | qs where "mode = LikeSuffix" "ts = likeAnySequence # map likeLiteral qs" "literal = concat qs"
  | qs where "mode = LikeContains" "ts = likeAnySequence # map likeLiteral qs @ [likeAnySequence]" "literal = concat qs"
  | "mode = LikeGeneral" "literal = []"
proof (cases "filter (\<lambda>t. t \<in> {likeAnySequence, likeAnyRune}) ts = []")
  case True
  then obtain qs where "ts = map likeLiteral qs" using wildcards_none by blast
  moreover have "literalBetween (map likeLiteral qs) = Some (concat qs)" by (simp add: literalBetween_Some)
  ultimately show thesis using that(1) assms True by (simp add: classifyLike_def)
next
  case False
  then have ne: "ts \<noteq> []" by auto
  have l: "ts = butlast ts @ [likeAnySequence]" if "last ts = likeAnySequence" using ne that by (metis append_butlast_last_id)
  have h: "ts = likeAnySequence # tl ts" if "hd ts = likeAnySequence" using ne that by (metis list.collapse)
  have hl: "ts = likeAnySequence # butlast (tl ts) @ [likeAnySequence]"
    if "2 \<le> length ts" "hd ts = likeAnySequence" "last ts = likeAnySequence"
  proof -
    have "tl ts \<noteq> []" using that(1) by (cases ts) auto
    then show ?thesis using h [OF that(2)] that(3) by (metis append_butlast_last_id last_tl)
  qed
  have one: "ts = [likeAnySequence]" if "length ts = 1" "hd ts = likeAnySequence" using that by (cases ts) auto
  have w: "length (filter (\<lambda>t. t \<in> {likeAnySequence, likeAnyRune}) ts) \<noteq> 0" using False by simp
  let ?p = "if last ts = likeAnySequence then literalBetween (butlast ts) else None"
  let ?s = "if hd ts = likeAnySequence then literalBetween (tl ts) else None"
  let ?c = "if 2 \<le> length ts \<and> hd ts = likeAnySequence \<and> last ts = likeAnySequence then literalBetween (butlast (tl ts)) else None"
  have cases: "(mode, literal) =
      (if length ts = 1 \<and> hd ts = likeAnySequence then (LikeAny, [])
       else case ?p of Some text \<Rightarrow> (LikePrefix, text) | None \<Rightarrow>
         case ?s of Some text \<Rightarrow> (LikeSuffix, text) | None \<Rightarrow>
         case ?c of Some text \<Rightarrow> (LikeContains, text) | None \<Rightarrow> (LikeGeneral, []))"
    using assms w by (simp add: classifyLike_def)
  consider "length ts = 1" "hd ts = likeAnySequence" "mode = LikeAny"
    | "?p = Some literal" "mode = LikePrefix" | "?s = Some literal" "mode = LikeSuffix"
    | "?c = Some literal" "mode = LikeContains" | "mode = LikeGeneral" "literal = []"
    using cases by (auto split: if_split_asm option.split_asm simp del: literalBetween.simps)
  then show thesis
  proof cases
    case 1
    then show thesis using that(2) one by blast
  next
    case 2
    then show thesis using that(3) l by (metis literalBetween_Some option.distinct(1))
  next
    case 3
    then show thesis using that(4) h by (metis literalBetween_Some option.distinct(1))
  next
    case 4
    then show thesis using that(5) hl by (metis literalBetween_Some option.distinct(1))
  qed (rule that(6))
qed

theorem CompileLike_mode:
  assumes "CompileLike pattern = Inr p" and "utf8_valid value" and "lp_mode p \<noteq> LikeGeneral"
  shows "LikePattern_Match p value \<longleftrightarrow> mode_spec (lp_mode p) (lp_literal p) value"
proof -
  obtain ts where ts: "ts = tokenizeLike pattern" by blast
  have pat: "utf8_valid pattern" "lp_regexp p = ts" "classifyLike ts = (lp_mode p, lp_literal p)"
    using assms(1) ts by (auto simp: CompileLike_def Let_def split: if_splits prod.splits)
  note ok = tokenizeLike_ok [OF pat(1), folded ts]
  have m: "LikePattern_Match p value = regexp_match ts (runes value)" using assms(2) pat(2) by (simp add: LikePattern_Match_def)
  have same: "runes value = qs \<longleftrightarrow> value = concat qs" if "list_all rune_ok qs" for qs
    using runes_concat [OF that, of "[]"] concat_runes [of "value"] by auto
  show ?thesis
  proof (cases rule: classifyLike_cases [OF pat(3)])
    case (1 qs)
    then show ?thesis using ok same by (simp add: m match_literals_all literal_runes_ok)
  next
    case 2
    then show ?thesis by (simp add: m match_any_only del: regexp_match.simps)
  next
    case (3 qs)
    then show ?thesis using ok prefix_runes [of qs "value"]
      by (simp add: m match_literals match_any_only literal_runes_ok prefix_def del: regexp_match.simps)
  next
    case (4 qs)
    then show ?thesis using ok suffix_runes [of qs "value"] assms(2)
      by (simp add: m match_suffix literal_runes_ok token_ok_def del: regexp_match.simps)
  next
    case (5 qs)
    then show ?thesis using ok sublist_runes [of qs "value"] assms(2)
      by (simp add: m match_contains literal_runes_ok token_ok_def del: regexp_match.simps)
  next
    case 6
    then show ?thesis using assms(3) by simp
  qed
qed

theorem CompileLike_spec:
  assumes "CompileLike pattern = Inr p"
  shows "LikePattern_Match p value \<longleftrightarrow> utf8_valid value \<and> like_spec (runes pattern) (runes value)"
  using assms by (auto simp: CompileLike_def LikePattern_Match_def tokenizeLike_match Let_def split: if_splits prod.splits)

end
