(* ===== verification/Sql_Value.thy ===== *)
theory Sql_Value
  imports Complex_Main Sql_Like
begin

text \<open>
  Typed values (\<open>internal/db/sql/value.go\<close>), three-valued truth and predicates bound to values
  (\<open>predicate.go\<close>).  Only finite floats become values; a finite float is its rational value, on which the
  order of the code is the order of the rationals.
\<close>

section \<open>Values\<close>

text \<open>\<open>ValueInvalid\<close> stands for every number that is not one of the declared kinds.\<close>

datatype ValueKind =
  ValueInvalid | ValueBinary | ValueString | ValueBool | ValueInt32 | ValueInt64 | ValueUint32 | ValueUint64
| ValueFloat32 | ValueFloat64

definition kind_valid :: "ValueKind \<Rightarrow> bool" where
  "kind_valid k \<longleftrightarrow> k \<noteq> ValueInvalid"

datatype Value = Value (v_kind: ValueKind) (v_null: bool) (v_array: bool) (v_binary: bytes) (v_text: bytes)
  (v_boolean: bool) (v_signed: u64) (v_unsigned: u64) (v_number: rat) (v_elements: "Value list")

definition zero_value :: Value where
  "zero_value = Value ValueInvalid False False [] [] False 0 0 0 []"

definition NullValue :: "ValueKind \<Rightarrow> bool \<Rightarrow> Value sql_result" where
  "NullValue kind array =
     (if \<not> kind_valid kind then Inl (SqlError ''invalid NULL value kind'')
      else Inr (Value kind True array [] [] False 0 0 0 []))"

definition BinaryValue :: "bytes \<Rightarrow> Value" where "BinaryValue b = Value ValueBinary False False b [] False 0 0 0 []"
definition StringValue :: "bytes \<Rightarrow> Value" where "StringValue s = Value ValueString False False [] s False 0 0 0 []"
definition BoolValue :: "bool \<Rightarrow> Value" where "BoolValue b = Value ValueBool False False [] [] b 0 0 0 []"
definition Int32Value :: "u32 \<Rightarrow> Value" where "Int32Value v = Value ValueInt32 False False [] [] False (scast v) 0 0 []"
definition Int64Value :: "u64 \<Rightarrow> Value" where "Int64Value v = Value ValueInt64 False False [] [] False v 0 0 []"
definition Uint32Value :: "u32 \<Rightarrow> Value" where "Uint32Value v = Value ValueUint32 False False [] [] False 0 (ucast v) 0 []"
definition Uint64Value :: "u64 \<Rightarrow> Value" where "Uint64Value v = Value ValueUint64 False False [] [] False 0 v 0 []"

text \<open>A float of the program: a finite one by its value, or an infinity or NaN.\<close>

datatype go_float = Finite rat | NotFinite

definition Float32Value :: "go_float \<Rightarrow> Value sql_result" where
  "Float32Value f = (case f of
     NotFinite \<Rightarrow> Inl (SqlError ''FLOAT value must be finite'')
   | Finite x \<Rightarrow> Inr (Value ValueFloat32 False False [] [] False 0 0 x []))"

definition Float64Value :: "go_float \<Rightarrow> Value sql_result" where
  "Float64Value f = (case f of
     NotFinite \<Rightarrow> Inl (SqlError ''DOUBLE value must be finite'')
   | Finite x \<Rightarrow> Inr (Value ValueFloat64 False False [] [] False 0 0 x []))"

definition ArrayValue :: "ValueKind \<Rightarrow> Value list \<Rightarrow> Value sql_result" where
  "ArrayValue kind elements =
     (if \<not> kind_valid kind then Inl (SqlError ''invalid array element kind'')
      else if \<exists>e \<in> set elements. v_null e \<or> v_array e \<or> v_kind e \<noteq> kind then Inl (SqlError ''array element'')
      else Inr (Value kind False True [] [] False 0 0 0 elements))"

definition Value_Len :: "Value \<Rightarrow> nat option" where
  "Value_Len v = (if v_null v \<or> \<not> v_array v then None else Some (length (v_elements v)))"

section \<open>Comparison\<close>

text \<open>\<open>bytes.Compare\<close> and the order of strings.\<close>

fun bytes_Compare :: "bytes \<Rightarrow> bytes \<Rightarrow> int" where
  "bytes_Compare [] [] = 0"
| "bytes_Compare [] (y # ys) = - 1"
| "bytes_Compare (x # xs) [] = 1"
| "bytes_Compare (x # xs) (y # ys) = (if x < y then - 1 else if y < x then 1 else bytes_Compare xs ys)"

definition three_way :: "bool \<Rightarrow> bool \<Rightarrow> int" where
  "three_way lt gt = (if lt then - 1 else if gt then 1 else 0)"

definition compareValues :: "Value \<Rightarrow> Value \<Rightarrow> int sql_result" where
  "compareValues left right =
     (if v_null left \<or> v_null right then Inl (SqlError ''cannot compare NULL values directly'')
      else if v_array left \<or> v_array right then Inl (SqlError ''comparison requires scalar values'')
      else if v_kind left \<noteq> v_kind right \<or> \<not> kind_valid (v_kind left) then Inl (SqlError ''cannot compare'')
      else case v_kind left of
        ValueBinary \<Rightarrow> Inr (bytes_Compare (v_binary left) (v_binary right))
      | ValueString \<Rightarrow> Inr (bytes_Compare (v_text left) (v_text right))
      | ValueBool \<Rightarrow> Inr (three_way (\<not> v_boolean left \<and> v_boolean right) (v_boolean left \<and> \<not> v_boolean right))
      | ValueInt32 \<Rightarrow> Inr (three_way (v_signed left <s v_signed right) (v_signed right <s v_signed left))
      | ValueInt64 \<Rightarrow> Inr (three_way (v_signed left <s v_signed right) (v_signed right <s v_signed left))
      | ValueUint32 \<Rightarrow> Inr (three_way (v_unsigned left < v_unsigned right) (v_unsigned right < v_unsigned left))
      | ValueUint64 \<Rightarrow> Inr (three_way (v_unsigned left < v_unsigned right) (v_unsigned right < v_unsigned left))
      | ValueFloat32 \<Rightarrow> Inr (three_way (v_number left < v_number right) (v_number right < v_number left))
      | ValueFloat64 \<Rightarrow> Inr (three_way (v_number left < v_number right) (v_number right < v_number left))
      | ValueInvalid \<Rightarrow> Inl (SqlError ''invalid scalar kind''))"

section \<open>Truth\<close>

datatype Truth = TruthUnknown | TruthFalse | TruthTrue

definition Truth_Match :: "Truth \<Rightarrow> bool" where "Truth_Match t \<longleftrightarrow> t = TruthTrue"

fun Truth_Not :: "Truth \<Rightarrow> Truth" where
  "Truth_Not TruthTrue = TruthFalse"
| "Truth_Not TruthFalse = TruthTrue"
| "Truth_Not TruthUnknown = TruthUnknown"

definition Truth_And :: "Truth \<Rightarrow> Truth \<Rightarrow> Truth" where
  "Truth_And t u =
     (if t = TruthFalse \<or> u = TruthFalse then TruthFalse
      else if t = TruthTrue \<and> u = TruthTrue then TruthTrue else TruthUnknown)"

definition Truth_Or :: "Truth \<Rightarrow> Truth \<Rightarrow> Truth" where
  "Truth_Or t u =
     (if t = TruthTrue \<or> u = TruthTrue then TruthTrue
      else if t = TruthFalse \<and> u = TruthFalse then TruthFalse else TruthUnknown)"

definition truthFromBool :: "bool \<Rightarrow> Truth" where
  "truthFromBool b = (if b then TruthTrue else TruthFalse)"

section \<open>Bound predicates\<close>

record BoundPredicate =
  bp_operator :: PredicateOperator
  bp_negated :: bool
  bp_right :: Value
  bp_set :: "Value list"
  bp_like :: "LikePattern option"

definition MaxContainValues :: nat where "MaxContainValues = 32"

definition NewComparisonPredicate :: "PredicateOperator \<Rightarrow> Value \<Rightarrow> BoundPredicate sql_result" where
  "NewComparisonPredicate operator right =
     (if operator \<notin> comparison_operators then Inl (SqlError ''not a comparison operator'')
      else if v_null right \<or> v_array right \<or> \<not> kind_valid (v_kind right)
        then Inl (SqlError ''comparison right operand must be a non-null scalar'')
      else Inr \<lparr>bp_operator = operator, bp_negated = False, bp_right = right, bp_set = [], bp_like = None\<rparr>)"

definition NewLikePredicate :: "bytes \<Rightarrow> BoundPredicate sql_result" where
  "NewLikePredicate pattern = (case CompileLike pattern of
     Inl err \<Rightarrow> Inl err
   | Inr compiled \<Rightarrow> Inr \<lparr>bp_operator = PredicateLike, bp_negated = False, bp_right = zero_value, bp_set = [], bp_like = Some compiled\<rparr>)"

definition NewSetPredicate :: "PredicateOperator \<Rightarrow> bool \<Rightarrow> Value list \<Rightarrow> BoundPredicate sql_result" where
  "NewSetPredicate operator negated values =
     (if operator \<notin> {PredicateIn, PredicateContainAll, PredicateContainAny} then Inl (SqlError ''not a set predicate'')
      else if operator = PredicateIn \<and> values = [] then Inl (SqlError ''IN requires at least one value'')
      else if operator \<noteq> PredicateIn \<and> MaxContainValues < length values then Inl (SqlError ''too many values'')
      else if \<exists>v \<in> set values. v_null v \<or> v_array v \<or> \<not> kind_valid (v_kind v) \<or> v_kind v \<noteq> v_kind (hd values)
        then Inl (SqlError ''set value'')
      else Inr \<lparr>bp_operator = operator, bp_negated = negated, bp_right = zero_value, bp_set = values, bp_like = None\<rparr>)"

definition NewNullPredicate :: "bool \<Rightarrow> BoundPredicate" where
  "NewNullPredicate negated = \<lparr>bp_operator = PredicateIsNull, bp_negated = negated, bp_right = zero_value, bp_set = [], bp_like = None\<rparr>"

fun containsValue :: "Value list \<Rightarrow> Value \<Rightarrow> bool sql_result" where
  "containsValue [] needle = Inr False"
| "containsValue (value # values) needle =
     (case compareValues value needle of
        Inl err \<Rightarrow> Inl err
      | Inr comparison \<Rightarrow> if comparison = 0 then Inr True else containsValue values needle)"

text \<open>The loop of \<open>evaluateIn\<close>.\<close>

fun in_loop :: "Value \<Rightarrow> Value list \<Rightarrow> bool sql_result" where
  "in_loop left [] = Inr False"
| "in_loop left (candidate # rest) =
     (case compareValues left candidate of
        Inl err \<Rightarrow> Inl err
      | Inr comparison \<Rightarrow> if comparison = 0 then Inr True else in_loop left rest)"

definition negated_truth :: "bool \<Rightarrow> bool \<Rightarrow> Truth" where
  "negated_truth negated matched =
     (let result = truthFromBool matched in if negated then Truth_Not result else result)"

definition evaluateIn :: "BoundPredicate \<Rightarrow> Value \<Rightarrow> Truth sql_result" where
  "evaluateIn p left =
     (if v_null left then Inr TruthUnknown
      else if v_array left then Inl (SqlError ''IN requires a scalar field'')
      else case in_loop left (bp_set p) of
        Inl err \<Rightarrow> Inl err
      | Inr matched \<Rightarrow> Inr (negated_truth (bp_negated p) matched))"

fun contain_all_loop :: "Value list \<Rightarrow> Value list \<Rightarrow> bool sql_result" where
  "contain_all_loop elements [] = Inr True"
| "contain_all_loop elements (needle # rest) =
     (case containsValue elements needle of
        Inl err \<Rightarrow> Inl err
      | Inr found \<Rightarrow> if \<not> found then Inr False else contain_all_loop elements rest)"

fun contain_any_loop :: "Value list \<Rightarrow> Value list \<Rightarrow> bool sql_result" where
  "contain_any_loop elements [] = Inr False"
| "contain_any_loop elements (needle # rest) =
     (case containsValue elements needle of
        Inl err \<Rightarrow> Inl err
      | Inr found \<Rightarrow> if found then Inr True else contain_any_loop elements rest)"

definition evaluateContain :: "BoundPredicate \<Rightarrow> Value \<Rightarrow> Truth sql_result" where
  "evaluateContain p left =
     (if v_null left then Inr TruthUnknown
      else if \<not> v_array left then Inl (SqlError ''requires an array field'')
      else if bp_set p \<noteq> [] \<and> v_kind left \<noteq> v_kind (hd (bp_set p)) then Inl (SqlError ''array element kind does not match set kind'')
      else case (if bp_operator p = PredicateContainAll then contain_all_loop (v_elements left) (bp_set p)
                 else contain_any_loop (v_elements left) (bp_set p)) of
        Inl err \<Rightarrow> Inl err
      | Inr matched \<Rightarrow> Inr (negated_truth (bp_negated p) matched))"

definition comparison_matches :: "PredicateOperator \<Rightarrow> int \<Rightarrow> bool" where
  "comparison_matches operator comparison = (case operator of
     PredicateEQ \<Rightarrow> comparison = 0
   | PredicateNE \<Rightarrow> comparison \<noteq> 0
   | PredicateLT \<Rightarrow> comparison < 0
   | PredicateLE \<Rightarrow> comparison \<le> 0
   | PredicateGT \<Rightarrow> 0 < comparison
   | PredicateGE \<Rightarrow> 0 \<le> comparison
   | _ \<Rightarrow> False)"

definition BoundPredicate_Evaluate :: "BoundPredicate \<Rightarrow> Value \<Rightarrow> Truth sql_result" where
  "BoundPredicate_Evaluate p left =
     (if \<not> kind_valid (v_kind left) then Inl (SqlError ''predicate input has invalid value kind'')
      else case bp_operator p of
        PredicateIsNull \<Rightarrow> Inr (negated_truth (bp_negated p) (v_null left))
      | PredicateLike \<Rightarrow>
          (if v_null left then Inr TruthUnknown
           else if v_array left \<or> v_kind left \<noteq> ValueString \<or> bp_like p = None
             then Inl (SqlError ''LIKE requires a STRING scalar and compiled pattern'')
           else Inr (truthFromBool (LikePattern_Match (the (bp_like p)) (v_text left))))
      | PredicateIn \<Rightarrow> evaluateIn p left
      | PredicateContainAll \<Rightarrow> evaluateContain p left
      | PredicateContainAny \<Rightarrow> evaluateContain p left
      | _ \<Rightarrow>
          (if v_null left then Inr TruthUnknown
           else if v_kind left = ValueBool \<and> bp_operator p \<noteq> PredicateEQ \<and> bp_operator p \<noteq> PredicateNE
             then Inl (SqlError ''BOOL supports only = and !='')
           else case compareValues left (bp_right p) of
             Inl err \<Rightarrow> Inl err
           | Inr comparison \<Rightarrow> Inr (truthFromBool (comparison_matches (bp_operator p) comparison))))"

end
