(* ===== verification/Sql_Number.thy ===== *)
theory Sql_Number
  imports Complex_Main Utf8 "HOL-Library.Log_Nat"
begin

text \<open>
  The conversions of \<open>strconv\<close> that the analysis of filters calls: decimal integers at a width, and decimal
  floats rounded to the nearest float of the width, ties to even.
\<close>

section \<open>Integers\<close>

definition isDigit :: "u8 \<Rightarrow> bool" where
  "isDigit b \<longleftrightarrow> 0x30 \<le> b \<and> b \<le> 0x39"

definition digit_value :: "u8 \<Rightarrow> nat" where
  "digit_value b = unat (b - 0x30)"

definition decimal :: "bytes \<Rightarrow> nat" where
  "decimal s = foldl (\<lambda>n b. 10 * n + digit_value b) 0 s"

text \<open>\<open>strconv.ParseUint(s, 10, bits)\<close> and \<open>strconv.ParseInt(s, 10, bits)\<close>; \<open>None\<close> is a syntax or range error.\<close>

definition ParseUint :: "bytes \<Rightarrow> nat \<Rightarrow> nat option" where
  "ParseUint s bits = (if s \<noteq> [] \<and> list_all isDigit s \<and> decimal s < 2 ^ bits then Some (decimal s) else None)"

definition ParseInt :: "bytes \<Rightarrow> nat \<Rightarrow> int option" where
  "ParseInt s bits =
     (let negative = s \<noteq> [] \<and> hd s = 0x2D; digits = (if s \<noteq> [] \<and> hd s \<in> {0x2D, 0x2B} then tl s else s) in
      if digits = [] \<or> \<not> list_all isDigit digits then None
      else if negative then (if decimal digits \<le> 2 ^ (bits - 1) then Some (- int (decimal digits)) else None)
      else if decimal digits < 2 ^ (bits - 1) then Some (int (decimal digits)) else None)"

section \<open>Floats\<close>

text \<open>The exponent of the binade of a positive rational.\<close>

definition binade :: "rat \<Rightarrow> int" where
  "binade q = (case quotient_of q of (a, b) \<Rightarrow>
     let e = bitlen a - bitlen b in if 2 powi e \<le> q then e else e - 1)"

definition round_half_even :: "rat \<Rightarrow> int" where
  "round_half_even q =
     (let n = \<lfloor>q\<rfloor>; d = q - of_int n in
      if d < 1/2 then n else if 1/2 < d then n + 1 else if even n then n else n + 1)"

text \<open>The nearest float with \<open>precision\<close> bits whose smallest positive value is \<open>2 powi least\<close>; \<open>None\<close> when
  it reaches \<open>2 ^ overflow\<close>.\<close>

definition round_float :: "nat \<Rightarrow> int \<Rightarrow> nat \<Rightarrow> rat \<Rightarrow> rat option" where
  "round_float precision least overflow q =
     (if q = 0 then Some 0
      else let quantum = 2 powi (max (binade \<bar>q\<bar> - int precision + 1) least);
               magnitude = of_int (round_half_even (\<bar>q\<bar> / quantum)) * quantum in
           if 2 ^ overflow \<le> magnitude then None else Some (if q < 0 then - magnitude else magnitude))"

definition digits_of :: "bytes \<Rightarrow> bytes" where "digits_of s = takeWhile isDigit s"
definition after_digits :: "bytes \<Rightarrow> bytes" where "after_digits s = dropWhile isDigit s"

text \<open>The exponent stops growing once it has reached ten thousand, as in \<open>readFloat\<close>.\<close>

definition exponent_value :: "bytes \<Rightarrow> nat" where
  "exponent_value s = foldl (\<lambda>e b. if e < 10000 then 10 * e + digit_value b else e) 0 s"

definition parse_exponent :: "bytes \<Rightarrow> int option" where
  "parse_exponent s =
     (case s of
        [] \<Rightarrow> Some 0
      | c # rest \<Rightarrow>
        if c \<notin> {0x65, 0x45} then None
        else let digits = (if rest \<noteq> [] \<and> hd rest \<in> {0x2B, 0x2D} then tl rest else rest) in
          if digits = [] \<or> \<not> list_all isDigit digits then None
          else Some (if hd rest = 0x2D then - int (exponent_value digits) else int (exponent_value digits)))"

text \<open>A decimal float: an optional sign, digits with an optional point, an optional exponent.  The texts the lexer
  produces have this form or none; the other forms of the library (infinities, hexadecimal) do not occur.\<close>

definition parse_decimal :: "bytes \<Rightarrow> rat option" where
  "parse_decimal s =
     (let negative = s \<noteq> [] \<and> hd s = 0x2D; s = (if s \<noteq> [] \<and> hd s \<in> {0x2D, 0x2B} then tl s else s);
          whole = digits_of s; rest = after_digits s;
          point = rest \<noteq> [] \<and> hd rest = 0x2E;
          fraction = (if point then digits_of (tl rest) else []);
          rest = (if point then after_digits (tl rest) else rest) in
      if whole = [] \<and> fraction = [] then None
      else case parse_exponent rest of
        None \<Rightarrow> None
      | Some e \<Rightarrow>
        let q = of_nat (decimal (whole @ fraction)) * 10 powi (e - int (length fraction)) in
        Some (if negative then - q else q))"

text \<open>\<open>strconv.ParseFloat(s, bits)\<close>: \<open>None\<close> is a syntax or range error.\<close>

definition ParseFloat :: "bytes \<Rightarrow> nat \<Rightarrow> rat option" where
  "ParseFloat s bits =
     (case parse_decimal s of
        None \<Rightarrow> None
      | Some q \<Rightarrow> if bits = 32 then round_float 24 (- 149) 128 q else round_float 53 (- 1074) 1024 q)"

end
