(* ===== verification/Sql_Lexer.thy ===== *)
theory Sql_Lexer
  imports Sql_Like Sql_Number
begin

text \<open>
  The lexer of filters, \<open>internal/db/sql/lexer.go\<close>.  The state of the code is its input with an offset and a
  position; here it is the rest of the input with the position, whose offset is the offset of the code.
\<close>

section \<open>Tokens\<close>

datatype TokenKind =
  TokenEOF | TokenIdentifier | TokenInteger | TokenFloat | TokenString | TokenTrue | TokenFalse | TokenOr | TokenAnd
| TokenNot | TokenIn | TokenContainAll | TokenContainAny | TokenBetween | TokenLike | TokenWhere | TokenSelect
| TokenFrom | TokenAs | TokenBy | TokenOrder | TokenAsc | TokenDesc | TokenLimit | TokenIs | TokenNull | TokenEqual
| TokenNotEqual | TokenLess | TokenLessEqual | TokenGreater | TokenGreaterEqual | TokenLeftParen | TokenRightParen
| TokenLeftBracket | TokenRightBracket | TokenComma

record Token =
  tok_Kind :: TokenKind
  tok_Text :: bytes
  tok_Span :: Span

definition keywordTokens :: "(bytes \<times> TokenKind) list" where
  "keywordTokens = map (map_prod ascii id)
     [(''OR'', TokenOr), (''AND'', TokenAnd), (''NOT'', TokenNot), (''IN'', TokenIn),
      (''CONTAIN_ALL'', TokenContainAll), (''CONTAIN_ANY'', TokenContainAny),
      (''BETWEEN'', TokenBetween), (''LIKE'', TokenLike), (''WHERE'', TokenWhere),
      (''SELECT'', TokenSelect), (''FROM'', TokenFrom), (''AS'', TokenAs), (''BY'', TokenBy),
      (''ORDER'', TokenOrder), (''ASC'', TokenAsc), (''DESC'', TokenDesc),
      (''LIMIT'', TokenLimit), (''TRUE'', TokenTrue), (''FALSE'', TokenFalse),
      (''IS'', TokenIs), (''NULL'', TokenNull)]"

text \<open>\<open>strings.ToUpper\<close> on ASCII bytes.\<close>

definition strings_ToUpper :: "bytes \<Rightarrow> bytes" where
  "strings_ToUpper s = map (\<lambda>b. if 0x61 \<le> b \<and> b \<le> 0x7A then b - 0x20 else b) s"

type_synonym filterLexer = "bytes \<times> Position"

section \<open>Moving\<close>

definition advanceOne :: "filterLexer \<Rightarrow> filterLexer" where
  "advanceOne l = (case l of (s, position) \<Rightarrow>
     (drop (rune_width s) s, advance_position (take (rune_width s) s) position))"

lemma rune_width_pos [simp]: "0 < rune_width s" by (simp add: rune_width_def)

lemma advanceOne_shorter: "fst l \<noteq> [] \<Longrightarrow> length (fst (advanceOne l)) < length (fst l)"
  using rune_width_pos [of "fst l"] by (cases l) (simp add: advanceOne_def)

lemma advanceOne_le: "length (fst (advanceOne l)) \<le> length (fst l)"
  by (cases l) (simp add: advanceOne_def)

text \<open>\<open>advanceTo\<close>, with the number of bytes to move in place of the offset to reach.\<close>

function advanceTo :: "nat \<Rightarrow> filterLexer \<Rightarrow> filterLexer" where
  "advanceTo n l = (if n = 0 then l else advanceTo (n - rune_width (fst l)) (advanceOne l))"
  by pat_completeness auto
termination
  by (relation "measure fst") (auto simp: rune_width_def)

declare advanceTo.simps [simp del]

function skip_spaces :: "filterLexer \<Rightarrow> filterLexer" where
  "skip_spaces l =
     (if fst l \<noteq> [] \<and> hd (fst l) \<in> {0x20, 0x09, 0x0D, 0x0A} then skip_spaces (advanceOne l) else l)"
  by pat_completeness auto
termination
  by (relation "measure (length \<circ> fst)") (simp_all add: advanceOne_shorter)

declare skip_spaces.simps [simp del]

definition skipWhitespace :: "filterLexer \<Rightarrow> bool \<times> filterLexer" where
  "skipWhitespace l = (let l' = skip_spaces l in (length (fst l') \<noteq> length (fst l), l'))"

function skip_line :: "filterLexer \<Rightarrow> filterLexer" where
  "skip_line l =
     (if fst l = [] then l else if hd (fst l) = 0x0A then advanceOne l else skip_line (advanceOne l))"
  by pat_completeness auto
termination
  by (relation "measure (length \<circ> fst)") (simp_all add: advanceOne_shorter)

declare skip_line.simps [simp del]

definition skipLineComment :: "filterLexer \<Rightarrow> bool \<times> filterLexer" where
  "skipLineComment l = (if \<not> prefix (ascii ''--'') (fst l) then (False, l) else (True, skip_line l))"

function skip_block :: "Position \<Rightarrow> filterLexer \<Rightarrow> filterLexer sql_result" where
  "skip_block start l =
     (if fst l = [] then Inl (ParseError start ''unterminated block comment'')
      else if prefix (ascii ''*/'') (fst l) then Inr (advanceTo 2 l) else skip_block start (advanceOne l))"
  by pat_completeness auto
termination
  by (relation "measure (length \<circ> fst \<circ> snd)") (simp_all add: advanceOne_shorter)

declare skip_block.simps [simp del]

definition skipBlockComment :: "filterLexer \<Rightarrow> filterLexer sql_result" where
  "skipBlockComment l = skip_block (snd l) (advanceTo 2 l)"

section \<open>Reading a token\<close>

text \<open>The text of a token is what was consumed from its start.\<close>

definition make_token :: "TokenKind \<Rightarrow> filterLexer \<Rightarrow> filterLexer \<Rightarrow> Token" where
  "make_token kind start l =
     \<lparr>tok_Kind = kind, tok_Text = take (length (fst start) - length (fst l)) (fst start),
      tok_Span = \<lparr>span_Start = snd start, span_End = snd l\<rparr>\<rparr>"

definition fixed_tokens :: "(bytes \<times> TokenKind) list" where
  "fixed_tokens = map (map_prod ascii id)
     [(''<='', TokenLessEqual), (''>='', TokenGreaterEqual), (''!='', TokenNotEqual),
      (''='', TokenEqual), (''<'', TokenLess), (''>'', TokenGreater),
      (''('', TokenLeftParen), ('')'', TokenRightParen),
      (''['', TokenLeftBracket), ('']'', TokenRightBracket), ('','', TokenComma)]"

definition lexFixedToken :: "filterLexer \<Rightarrow> (Token \<times> filterLexer) option" where
  "lexFixedToken l = (case List.find (\<lambda>candidate. prefix (fst candidate) (fst l)) fixed_tokens of
     None \<Rightarrow> None
   | Some (text, kind) \<Rightarrow> let l' = advanceTo (length text) l in Some (make_token kind l l', l'))"

function string_loop :: "Position \<Rightarrow> u8 \<Rightarrow> filterLexer \<Rightarrow> filterLexer sql_result" where
  "string_loop start quote l =
     (if fst l = [] then Inl (ParseError start ''unterminated quoted string'')
      else if hd (fst l) = quote then Inr (advanceOne l)
      else if hd (fst l) = 0x5C then
        (if fst (advanceOne l) = [] then Inl (ParseError start ''unterminated quoted string'')
         else string_loop start quote (advanceOne (advanceOne l)))
      else string_loop start quote (advanceOne l))"
  by pat_completeness auto
termination
  by (relation "measure (length \<circ> fst \<circ> snd \<circ> snd)") (simp_all add: advanceOne_shorter le_less_trans [OF advanceOne_le advanceOne_shorter])

declare string_loop.simps [simp del]

definition lexString :: "filterLexer \<Rightarrow> (Token \<times> filterLexer) sql_result" where
  "lexString l = (case string_loop (snd l) (hd (fst l)) (advanceOne l) of
     Inl err \<Rightarrow> Inl err
   | Inr l' \<Rightarrow> Inr (make_token TokenString l l', l'))"

definition isIdentifierByte :: "u8 \<Rightarrow> bool" where
  "isIdentifierByte b \<longleftrightarrow> 0x61 \<le> b \<and> b \<le> 0x7A \<or> 0x41 \<le> b \<and> b \<le> 0x5A \<or> 0x30 \<le> b \<and> b \<le> 0x39 \<or> b = 0x5F \<or> b = 0x2D"

text \<open>The number of bytes scanned, for the end offset of the code.\<close>

definition scanIdentifier :: "bytes \<Rightarrow> nat" where
  "scanIdentifier s = length (takeWhile isIdentifierByte s)"

definition count_digits :: "bytes \<Rightarrow> nat" where
  "count_digits s = length (takeWhile isDigit s)"

definition byte_in :: "bytes \<Rightarrow> nat \<Rightarrow> u8 set \<Rightarrow> bool" where
  "byte_in s position choices \<longleftrightarrow> position < length s \<and> s ! position \<in> choices"

text \<open>The exponent: where it ends, and whether there is one.\<close>

definition scan_exponent :: "bytes \<Rightarrow> nat \<Rightarrow> nat \<times> bool" where
  "scan_exponent s position =
     (if \<not> byte_in s position {0x65, 0x45} then (position, False)
      else
        let exponentMarker = position;
            position = (if byte_in s (position + 1) {0x2B, 0x2D} then position + 2 else position + 1);
            exponentDigitsBefore = position;
            position = position + count_digits (drop position s) in
        if byte_in s position {0x2E} then
          let fractionStart = position + 1;
              position = fractionStart + count_digits (drop fractionStart s) in
          (if position = fractionStart then (exponentMarker, False) else (position, True))
        else if exponentDigitsBefore < position then (position, True)
        else (exponentMarker, False))"

definition scan_tail :: "bytes \<Rightarrow> nat \<Rightarrow> bool \<Rightarrow> nat \<times> TokenKind" where
  "scan_tail s position hasDot =
     (case scan_exponent s position of (position, hasExponent) \<Rightarrow>
      let hasSuffix = byte_in s position {0x64, 0x44, 0x66, 0x46};
          position = (if hasSuffix then position + 1 else position) in
      (position, if hasDot \<or> hasExponent \<or> hasSuffix then TokenFloat else TokenInteger))"

definition scanNumber :: "bytes \<Rightarrow> nat \<times> TokenKind" where
  "scanNumber s =
     (let startDigits = (if byte_in s 0 {0x2D} then 1 else 0);
          integerDigits = count_digits (drop startDigits s);
          position = startDigits + integerDigits in
      if byte_in s position {0x2E} then
        let fractionStart = position + 1; fraction = count_digits (drop fractionStart s) in
        (if fraction = 0 then (if integerDigits \<noteq> 0 then (position, TokenInteger) else (0, TokenEOF))
         else scan_tail s (fractionStart + fraction) True)
      else if integerDigits = 0 then (0, TokenEOF)
      else scan_tail s position False)"

section \<open>The loop\<close>

text \<open>A number or an identifier, whichever is longer.\<close>

definition lex_word :: "filterLexer \<Rightarrow> (Token \<times> filterLexer) sql_result" where
  "lex_word l =
     (let identifierEnd = scanIdentifier (fst l); numericEnd = fst (scanNumber (fst l)); numericKind = snd (scanNumber (fst l)) in
      if 0 < numericEnd \<and> identifierEnd \<le> numericEnd then
        (let l' = advanceTo numericEnd l in Inr (make_token numericKind l l', l'))
      else if 0 < identifierEnd then
        (if identifierEnd = 1 \<and> hd (fst l) \<in> {0x2D, 0x5F} then Inl (ParseError (snd l) ''unexpected character'')
         else let l' = advanceTo identifierEnd l; text = take identifierEnd (fst l);
                  kind = (case map_of keywordTokens (strings_ToUpper text) of Some keyword \<Rightarrow> keyword | None \<Rightarrow> TokenIdentifier) in
              Inr (make_token kind l l', l'))
      else Inl (ParseError (snd l) ''unexpected character''))"

text \<open>One iteration of \<open>lex\<close>: the token read, if any, and the state after it.\<close>

definition lex_step :: "filterLexer \<Rightarrow> (Token option \<times> filterLexer) sql_result" where
  "lex_step l =
     (case skipWhitespace l of (skipped, l') \<Rightarrow> if skipped then Inr (None, l') else
      case skipLineComment l' of (skipped, l') \<Rightarrow> if skipped then Inr (None, l') else
      if prefix (ascii ''/*'') (fst l') then
        (case skipBlockComment l' of Inl err \<Rightarrow> Inl err | Inr l'' \<Rightarrow> Inr (None, l''))
      else case lexFixedToken l' of
        Some (token, l'') \<Rightarrow> Inr (Some token, l'')
      | None \<Rightarrow>
      case (if hd (fst l') \<in> {0x27, 0x22} then lexString l' else lex_word l') of
        Inl err \<Rightarrow> Inl err
      | Inr (token, l'') \<Rightarrow> Inr (Some token, l''))"

text \<open>A move of the lexer over a number of bytes.\<close>

definition lexer_moves :: "filterLexer \<Rightarrow> filterLexer \<Rightarrow> bool" where
  "lexer_moves l l' \<longleftrightarrow>
     (\<exists>n \<le> length (fst l). fst l' = drop n (fst l) \<and> pos_Offset (snd l') = pos_Offset (snd l) + n)"

lemma lexer_moves_refl [simp]: "lexer_moves l l"
  by (auto simp: lexer_moves_def intro: exI [of _ 0])

lemma lexer_moves_trans: "lexer_moves l l' \<Longrightarrow> lexer_moves l' l'' \<Longrightarrow> lexer_moves l l''"
  unfolding lexer_moves_def by (elim exE conjE, rule_tac x = "na + n" in exI) (simp add: add.commute)

lemma lexer_moves_length: "lexer_moves l l' \<Longrightarrow> length (fst l') \<le> length (fst l)"
  by (auto simp: lexer_moves_def)

lemma advance_position_offset: "pos_Offset (advance_position r p) = pos_Offset p + length r"
  by (simp add: advance_position_def)

lemma advanceOne_moves: "lexer_moves l (advanceOne l)"
  unfolding lexer_moves_def
  by (rule exI [of _ "min (rune_width (fst l)) (length (fst l))"])
     (auto simp: advanceOne_def advance_position_offset min_def split: prod.splits)

lemma advanceTo_moves: "lexer_moves l (advanceTo n l)"
proof (induction n l rule: advanceTo.induct)
  case (1 n l)
  show ?case unfolding advanceTo.simps [of n l] using 1 lexer_moves_trans [OF advanceOne_moves] by auto
qed

lemma advanceTo_shorter: "fst l \<noteq> [] \<Longrightarrow> 0 < n \<Longrightarrow> length (fst (advanceTo n l)) < length (fst l)"
  unfolding advanceTo.simps [of n l]
  using advanceOne_shorter [of l] lexer_moves_length [OF advanceTo_moves [of "advanceOne l" "n - rune_width (fst l)"]] by simp

lemma skip_spaces_moves: "lexer_moves l (skip_spaces l)"
proof (induction l rule: skip_spaces.induct)
  case (1 l)
  show ?case unfolding skip_spaces.simps [of l] using 1 lexer_moves_trans [OF advanceOne_moves] by auto
qed

lemma skip_line_moves: "lexer_moves l (skip_line l)"
proof (induction l rule: skip_line.induct)
  case (1 l)
  show ?case unfolding skip_line.simps [of l] using 1 lexer_moves_trans [OF advanceOne_moves] advanceOne_moves by auto
qed

lemma skip_line_shorter: "fst l \<noteq> [] \<Longrightarrow> length (fst (skip_line l)) < length (fst l)"
  unfolding skip_line.simps [of l]
  using advanceOne_shorter [of l] lexer_moves_length [OF skip_line_moves [of "advanceOne l"]] by simp

lemma skip_block_moves: "skip_block start l = Inr l' \<Longrightarrow> lexer_moves l l'"
proof (induction start l rule: skip_block.induct)
  case (1 start l)
  consider "l' = advanceTo 2 l" | "fst l \<noteq> []" "\<not> prefix (ascii ''*/'') (fst l)" "skip_block start (advanceOne l) = Inr l'"
    using 1(2) unfolding skip_block.simps [of start l] by (simp split: if_split_asm)
  then show ?case
  proof cases
    case 1
    then show ?thesis using advanceTo_moves by simp
  next
    case 2
    then show ?thesis using 1 lexer_moves_trans [OF advanceOne_moves] by simp
  qed
qed

lemma string_loop_moves: "string_loop start quote l = Inr l' \<Longrightarrow> lexer_moves l l'"
proof (induction start quote l rule: string_loop.induct)
  case (1 start quote l)
  note IH = "1.IH"
  have prem: "(if fst l = [] then Inl (ParseError start ''unterminated quoted string'')
      else if hd (fst l) = quote then Inr (advanceOne l)
      else if hd (fst l) = 0x5C then
        (if fst (advanceOne l) = [] then Inl (ParseError start ''unterminated quoted string'')
         else string_loop start quote (advanceOne (advanceOne l)))
      else string_loop start quote (advanceOne l)) = Inr l'"
    using "1.prems" string_loop.simps [of start quote l] by simp
  consider "l' = advanceOne l"
    | "lexer_moves (advanceOne (advanceOne l)) l'"
    | "lexer_moves (advanceOne l) l'"
    using prem IH by (simp split: if_split_asm)
  then show ?case
    using lexer_moves_trans [OF advanceOne_moves] lexer_moves_trans [OF lexer_moves_trans [OF advanceOne_moves advanceOne_moves]] advanceOne_moves
    by cases simp_all
qed

text \<open>An iteration moves forward, and its token is made of what it passed over.\<close>

lemma lexFixedToken_token:
  assumes "lexFixedToken l = Some (token, l')" and "fst l \<noteq> []"
  shows "lexer_moves l l' \<and> length (fst l') < length (fst l) \<and> (\<exists>kind. token = make_token kind l l')"
proof -
  obtain t kind where t: "List.find (\<lambda>candidate. prefix (fst candidate) (fst l)) fixed_tokens = Some (t, kind)"
    "l' = advanceTo (length t) l" "token = make_token kind l l'"
    using assms(1) by (auto simp: lexFixedToken_def Let_def split: option.splits)
  have "(t, kind) \<in> set fixed_tokens" using t(1) by (auto simp: find_Some_iff)
  then have "t \<noteq> []" by (auto simp: fixed_tokens_def ascii_def)
  then show ?thesis using t(2,3) advanceTo_moves advanceTo_shorter [OF assms(2)] by auto
qed

lemma lexString_token:
  assumes "lexString l = Inr (token, l')" and "fst l \<noteq> []"
  shows "lexer_moves l l' \<and> length (fst l') < length (fst l) \<and> (\<exists>kind. token = make_token kind l l')"
proof -
  have m: "lexer_moves (advanceOne l) l'" "token = make_token TokenString l l'"
    using assms(1) string_loop_moves by (auto simp: lexString_def split: sum.splits)
  then show ?thesis
    using lexer_moves_trans [OF advanceOne_moves] advanceOne_shorter [OF assms(2)] lexer_moves_length [OF m(1)] by fastforce
qed

lemma lex_word_token:
  assumes "lex_word l = Inr (token, l')" and "fst l \<noteq> []"
  shows "lexer_moves l l' \<and> length (fst l') < length (fst l) \<and> (\<exists>kind. token = make_token kind l l')"
proof -
  obtain n kind where "0 < n" "token = make_token kind l l'" "l' = advanceTo n l"
    using assms(1) unfolding lex_word_def Let_def by (simp split: if_split_asm) blast+
  then show ?thesis using advanceTo_moves advanceTo_shorter [OF assms(2)] by blast
qed

lemma lex_step_progress:
  assumes "lex_step l = Inr (token, l')" and ne: "fst l \<noteq> []"
  shows "lexer_moves l l' \<and> length (fst l') < length (fst l)
    \<and> (\<forall>t. token = Some t \<longrightarrow> (\<exists>kind. t = make_token kind l l'))"
proof (cases "fst (skipWhitespace l)")
  case True
  then show ?thesis
    using assms(1) skip_spaces_moves [of l] lexer_moves_length [OF skip_spaces_moves [of l]]
    by (auto simp: lex_step_def skipWhitespace_def Let_def)
next
  case False
  then have "skip_spaces l = l"
    using skip_spaces_moves [of l] unfolding skip_spaces.simps [of l]
    using lexer_moves_length [OF skip_spaces_moves [of "advanceOne l"]] advanceOne_shorter [OF ne]
    by (auto simp: skipWhitespace_def Let_def skip_spaces.simps [of l] split: if_splits)
  then have ws: "skipWhitespace l = (False, l)" by (simp add: skipWhitespace_def)
  show ?thesis
  proof (cases "prefix (ascii ''--'') (fst l)")
    case True
    then show ?thesis
      using assms(1) skip_line_moves [of l] skip_line_shorter [OF ne] by (auto simp: lex_step_def ws skipLineComment_def)
  next
    case lc: False
    show ?thesis
    proof (cases "prefix (ascii ''/*'') (fst l)")
      case True
      then have "skip_block (snd l) (advanceTo 2 l) = Inr l'" "token = None"
        using assms(1) by (auto simp: lex_step_def ws skipLineComment_def lc skipBlockComment_def split: sum.splits)
      moreover have "lexer_moves (advanceTo 2 l) l'" using calculation(1) by (rule skip_block_moves)
      moreover have "lexer_moves l l'" using advanceTo_moves calculation(3) by (rule lexer_moves_trans)
      ultimately show ?thesis using lexer_moves_length [of "advanceTo 2 l" l'] advanceTo_shorter [OF ne, of 2] by simp
    next
      case bc: False
      consider t where "token = Some t" "lexFixedToken l = Some (t, l')"
        | t where "token = Some t" "lexString l = Inr (t, l')"
        | t where "token = Some t" "lex_word l = Inr (t, l')"
        using assms(1) unfolding lex_step_def ws skipLineComment_def
        by (simp add: lc bc split: option.split_asm if_split_asm sum.split_asm prod.split_asm)
      then show ?thesis
        using lexFixedToken_token [OF _ ne] lexString_token [OF _ ne] lex_word_token [OF _ ne] by cases simp_all
    qed
  qed
qed

function lex :: "filterLexer \<Rightarrow> Token list \<Rightarrow> Token list sql_result" where
  "lex l tokens =
     (if fst l = [] then Inr (tokens @ [make_token TokenEOF l l])
      else case lex_step l of
        Inl err \<Rightarrow> Inl err
      | Inr (token, l') \<Rightarrow> lex l' (case token of None \<Rightarrow> tokens | Some t \<Rightarrow> tokens @ [t]))"
  by pat_completeness auto
termination
  using lex_step_progress by (relation "measure (length \<circ> fst \<circ> fst)") force+

declare lex.simps [simp del]

definition Lex :: "bytes \<Rightarrow> Token list sql_result" where
  "Lex input =
     (if MaxFilterBytes < length input then Inl (ParseError first_position ''filter is too long'')
      else if \<not> utf8_valid input
        then Inl (ParseError (positionAt input (firstInvalidUTF8 input)) ''filter is not valid UTF-8'')
      else lex (input, first_position) [])"

section \<open>Tokens and the source\<close>

text \<open>The part of the input a span covers.\<close>

definition source_between :: "bytes \<Rightarrow> Span \<Rightarrow> bytes" where
  "source_between input rng =
     take (pos_Offset (span_End rng) - pos_Offset (span_Start rng)) (drop (pos_Offset (span_Start rng)) input)"

definition token_in :: "bytes \<Rightarrow> Token \<Rightarrow> bool" where
  "token_in input t \<longleftrightarrow>
     pos_Offset (span_Start (tok_Span t)) \<le> pos_Offset (span_End (tok_Span t))
   \<and> pos_Offset (span_End (tok_Span t)) \<le> length input
   \<and> tok_Text t = source_between input (tok_Span t)"

text \<open>The state of the lexer within its input.\<close>

definition lexer_at :: "bytes \<Rightarrow> filterLexer \<Rightarrow> bool" where
  "lexer_at input l \<longleftrightarrow> pos_Offset (snd l) \<le> length input \<and> fst l = drop (pos_Offset (snd l)) input"

lemma lexer_at_moves: "lexer_at input l \<Longrightarrow> lexer_moves l l' \<Longrightarrow> lexer_at input l' \<and> pos_Offset (snd l) \<le> pos_Offset (snd l')"
  by (auto simp: lexer_at_def lexer_moves_def add.commute)

lemma make_token_in:
  assumes "lexer_at input l" and "lexer_moves l l'"
  shows "token_in input (make_token kind l l')"
  using assms
  by (auto simp: token_in_def make_token_def source_between_def lexer_at_def lexer_moves_def)

lemma make_token_span:
  "span_Start (tok_Span (make_token kind l l')) = snd l" "span_End (tok_Span (make_token kind l l')) = snd l'"
  "tok_Kind (make_token kind l l') = kind"
  by (simp_all add: make_token_def)

text \<open>The kinds a step can give.\<close>

lemma scan_tail_kind: "snd (scan_tail s position hasDot) \<in> {TokenInteger, TokenFloat}"
  unfolding scan_tail_def Let_def by (simp split: prod.split)

lemma scanNumber_kind: "0 < fst (scanNumber s) \<Longrightarrow> snd (scanNumber s) \<in> {TokenInteger, TokenFloat}"
proof -
  have "0 < fst r \<Longrightarrow> snd r \<in> {TokenInteger, TokenFloat}"
    if "r = (if point then if none then if digits then (p, TokenInteger) else (0, TokenEOF) else scan_tail s q True
             else if empty then (0, TokenEOF) else scan_tail s p False)" for r point none digits empty p q
    using that scan_tail_kind [of s] by (simp split: if_split_asm)
  then show "0 < fst (scanNumber s) \<Longrightarrow> ?thesis" by (simp only: scanNumber_def Let_def)
qed

lemma keyword_kind: "map_of keywordTokens s = Some kind \<Longrightarrow> kind \<noteq> TokenEOF"
proof -
  have "TokenEOF \<notin> snd ` set keywordTokens" by (simp add: keywordTokens_def)
  then show "map_of keywordTokens s = Some kind \<Longrightarrow> kind \<noteq> TokenEOF" using map_of_SomeD by (metis imageI snd_conv)
qed

lemma lex_word_kind: "lex_word l = Inr (token, l') \<Longrightarrow> tok_Kind token \<noteq> TokenEOF"
  using scanNumber_kind [of "fst l"] keyword_kind
  unfolding lex_word_def Let_def by (auto simp: make_token_span split: if_split_asm option.split_asm)

lemma lexFixedToken_kind: "lexFixedToken l = Some (token, l') \<Longrightarrow> tok_Kind token \<noteq> TokenEOF"
proof -
  have "TokenEOF \<notin> snd ` set fixed_tokens" by (simp add: fixed_tokens_def)
  moreover assume "lexFixedToken l = Some (token, l')"
  then obtain t kind where "(t, kind) \<in> set fixed_tokens" "token = make_token kind l l'"
    by (auto simp: lexFixedToken_def Let_def find_Some_iff split: option.splits) (metis nth_mem)
  ultimately show ?thesis by (force simp: make_token_span)
qed

lemma lex_step_kind: "lex_step l = Inr (Some token, l') \<Longrightarrow> tok_Kind token \<noteq> TokenEOF"
  using lex_word_kind lexFixedToken_kind unfolding lex_step_def
  by (auto simp: lexString_def make_token_span split: prod.split_asm if_split_asm option.split_asm sum.split_asm)

text \<open>What holds of the tokens read so far.\<close>

definition tokens_upto :: "bytes \<Rightarrow> filterLexer \<Rightarrow> Token list \<Rightarrow> bool" where
  "tokens_upto input l tokens \<longleftrightarrow>
     (\<forall>t \<in> set tokens. token_in input t \<and> tok_Text t \<noteq> [] \<and> tok_Kind t \<noteq> TokenEOF
        \<and> pos_Offset (span_End (tok_Span t)) \<le> pos_Offset (snd l))
   \<and> sorted_wrt (\<lambda>s t. pos_Offset (span_End (tok_Span s)) \<le> pos_Offset (span_Start (tok_Span t))) tokens"

lemma tokens_upto_step:
  assumes "tokens_upto input l tokens" and "lexer_at input l" and "lex_step l = Inr (token, l')" and "fst l \<noteq> []"
  shows "tokens_upto input l' (case token of None \<Rightarrow> tokens | Some t \<Rightarrow> tokens @ [t])"
proof -
  have p: "lexer_moves l l'" "length (fst l') < length (fst l)" "\<And>t. token = Some t \<Longrightarrow> \<exists>kind. t = make_token kind l l'"
    using lex_step_progress [OF assms(3,4)] by auto
  have le: "pos_Offset (snd l) \<le> pos_Offset (snd l')" using lexer_at_moves [OF assms(2) p(1)] by blast
  have old: "tokens_upto input l' tokens" using assms(1) le by (auto simp: tokens_upto_def)
  show ?thesis
  proof (cases token)
    case (Some t)
    then obtain kind where t: "t = make_token kind l l'" using p(3) by blast
    have "tok_Text t \<noteq> []" using p(2) by (auto simp: t make_token_def)
    moreover have "tok_Kind t \<noteq> TokenEOF" using lex_step_kind assms(3) unfolding Some by blast
    ultimately show ?thesis
      using old assms(1) Some make_token_in [OF assms(2) p(1), of kind]
      by (auto simp: tokens_upto_def sorted_wrt_append t make_token_span)
  qed (simp add: old)
qed

lemma lex_tokens:
  "tokens_upto input l tokens \<Longrightarrow> lexer_at input l \<Longrightarrow> lex l tokens = Inr result \<Longrightarrow>
   \<exists>ts l'. result = ts @ [make_token TokenEOF l' l'] \<and> tokens_upto input l' ts \<and> lexer_at input l' \<and> fst l' = []"
proof (induction l tokens rule: lex.induct)
  case (1 l tokens)
  show ?case
  proof (cases "fst l = []")
    case True
    then have "result = tokens @ [make_token TokenEOF l l]" using "1.prems"(3) by (simp add: lex.simps [of l])
    then show ?thesis using "1.prems"(1,2) True by blast
  next
    case False
    then obtain token l' where step: "lex_step l = Inr (token, l')"
      "lex l' (case token of None \<Rightarrow> tokens | Some t \<Rightarrow> tokens @ [t]) = Inr result"
      using "1.prems"(3) by (auto simp: lex.simps [of l] split: sum.split_asm prod.split_asm)
    show ?thesis
      using "1.IH" [OF False step(1) refl] tokens_upto_step [OF "1.prems"(1,2) step(1) False] step(2)
        lexer_at_moves [OF "1.prems"(2)] lex_step_progress [OF step(1) False] by blast
  qed
qed

theorem Lex_tokens:
  assumes "Lex input = Inr tokens"
  obtains ts eof where "tokens = ts @ [eof]" "tok_Kind eof = TokenEOF"
    "pos_Offset (span_Start (tok_Span eof)) = length input"
    "\<And>t. t \<in> set ts \<Longrightarrow> token_in input t \<and> tok_Text t \<noteq> [] \<and> tok_Kind t \<noteq> TokenEOF"
    "sorted_wrt (\<lambda>s t. pos_Offset (span_End (tok_Span s)) \<le> pos_Offset (span_Start (tok_Span t))) tokens"
proof -
  have l: "lex (input, first_position) [] = Inr tokens" using assms by (simp add: Lex_def split: if_split_asm)
  have "tokens_upto input (input, first_position) []" "lexer_at input (input, first_position)"
    by (simp_all add: tokens_upto_def lexer_at_def)
  from lex_tokens [OF this l] obtain ts l' where r: "tokens = ts @ [make_token TokenEOF l' l']" "tokens_upto input l' ts"
    "lexer_at input l'" "fst l' = []" by blast
  show thesis
    by (rule that [OF r(1)]) (use r in \<open>auto simp: make_token_span lexer_at_def tokens_upto_def sorted_wrt_append\<close>)
qed

end
