(* ===== verification/Sql_Parser.thy ===== *)
theory Sql_Parser
  imports Sql_Lexer
begin

text \<open>
  The parser of filters, \<open>internal/db/sql/parser.go\<close>, by recursive descent.  The state of the code is the list of
  tokens with an index and the nesting depth.  Here it is the tokens from the index on; the last token is the end of
  input, which \<open>advance\<close> does not pass.  The depth is an argument, as what is left of \<open>MaxParseDepth\<close>: the
  recursion of the code descends only through \<open>enter\<close>, so it is the recursion on this number.  A loop runs at
  most once for each token that is left.
\<close>

section \<open>The token stream\<close>

definition MaxParseDepth :: nat where "MaxParseDepth = 256"

type_synonym token_stream = "Token list"

type_synonym 'a parser = "token_stream \<Rightarrow> ('a \<times> token_stream) sql_result"

definition parser_current :: "token_stream \<Rightarrow> Token" where
  "parser_current p = hd p"

abbreviation current_kind :: "token_stream \<Rightarrow> TokenKind" where
  "current_kind p \<equiv> tok_Kind (parser_current p)"

definition parser_advance :: "token_stream \<Rightarrow> token_stream" where
  "parser_advance p = (if current_kind p \<noteq> TokenEOF then tl p else p)"

definition parser_match :: "TokenKind \<Rightarrow> token_stream \<Rightarrow> bool \<times> token_stream" where
  "parser_match kind p = (if current_kind p \<noteq> kind then (False, p) else (True, parser_advance p))"

definition unexpected :: "string \<Rightarrow> token_stream \<Rightarrow> sql_error" where
  "unexpected expected p =
     ParseError (span_Start (tok_Span (parser_current p)))
       (''expected '' @ expected @ (if current_kind p = TokenEOF then '', found end of input'' else '', found another token''))"

definition expect :: "TokenKind \<Rightarrow> string \<Rightarrow> Token parser" where
  "expect kind name p = (if current_kind p \<noteq> kind then Inl (unexpected name p) else Inr (parser_current p, parser_advance p))"

definition span_between :: "Span \<Rightarrow> Span \<Rightarrow> Span" where
  "span_between s t = \<lparr>span_Start = span_Start s, span_End = span_End t\<rparr>"

section \<open>Literals and identifiers\<close>

text \<open>\<open>strings.ReplaceAll\<close> of a backslash with the byte after it by that byte.\<close>

fun replace_escaped :: "u8 \<Rightarrow> bytes \<Rightarrow> bytes" where
  "replace_escaped q (a # b # s) =
     (if a = 0x5C \<and> b = q then q # replace_escaped q s else a # replace_escaped q (b # s))"
| "replace_escaped q s = s"

definition normalizeQuotedString :: "bytes \<Rightarrow> bytes" where
  "normalizeQuotedString raw =
     (let raw = (if 2 \<le> length raw then butlast (tl raw) else raw) in
      replace_escaped 0x27 (replace_escaped 0x22 raw))"

definition literal_tokens :: "TokenKind set" where
  "literal_tokens = {TokenInteger, TokenFloat, TokenString, TokenTrue, TokenFalse}"

text \<open>Called on the tokens of \<open>literal_tokens\<close> only.\<close>

definition literalFromToken :: "Token \<Rightarrow> LiteralExpr" where
  "literalFromToken token =
     \<lparr>lit_Kind = (case tok_Kind token of TokenInteger \<Rightarrow> LiteralInteger | TokenFloat \<Rightarrow> LiteralFloat
        | TokenString \<Rightarrow> LiteralString | _ \<Rightarrow> LiteralBool),
      lit_Text = (case tok_Kind token of TokenString \<Rightarrow> normalizeQuotedString (tok_Text token)
        | TokenTrue \<Rightarrow> ascii ''true'' | TokenFalse \<Rightarrow> ascii ''false'' | _ \<Rightarrow> tok_Text token),
      lit_Raw = tok_Text token, lit_Range = tok_Span token\<rparr>"

definition identifierTokenAllowed :: "TokenKind \<Rightarrow> bool" where
  "identifierTokenAllowed kind \<longleftrightarrow> kind \<in> {TokenIdentifier, TokenOr, TokenAnd, TokenNot, TokenIn, TokenBetween,
     TokenLike, TokenWhere, TokenSelect, TokenAs, TokenBy, TokenOrder, TokenAsc, TokenDesc, TokenLimit}"

definition parseIdentifier :: "(bytes \<times> Span) parser" where
  "parseIdentifier p =
     (let token = parser_current p in
      if \<not> identifierTokenAllowed (tok_Kind token) then Inl (unexpected ''identifier'' p)
      else Inr ((tok_Text token, tok_Span token), parser_advance p))"

section \<open>Lists and vectors\<close>

text \<open>A loop that reads one or more items separated by commas; the first argument bounds the rounds.\<close>

fun comma_loop :: "nat \<Rightarrow> 'a parser \<Rightarrow> 'a list \<Rightarrow> 'a list parser" where
  "comma_loop 0 item items p = Inl (SqlError ''unbounded'')"
| "comma_loop (Suc n) item items p =
     (case item p of
        Inl err \<Rightarrow> Inl err
      | Inr (x, p) \<Rightarrow>
        (case parser_match TokenComma p of (matched, p) \<Rightarrow>
          if matched then comma_loop n item (items @ [x]) p else Inr (items @ [x], p)))"

definition list_item :: "LiteralExpr parser" where
  "list_item p =
     (let token = parser_current p in
      if tok_Kind token \<in> literal_tokens then Inr (literalFromToken token, parser_advance p)
      else Inl (unexpected ''numeric, string, or Boolean list value'' p))"

definition parseList :: "bool \<Rightarrow> ValueExpr parser" where
  "parseList allowEmpty p =
     (case expect TokenLeftParen ''('' p of
        Inl err \<Rightarrow> Inl err
      | Inr (left, p) \<Rightarrow>
        if current_kind p = TokenRightParen then
          (if \<not> allowEmpty then Inl (unexpected ''at least one IN value'' p)
           else Inr (ListExpr [] (span_between (tok_Span left) (tok_Span (parser_current p))), parser_advance p))
        else case comma_loop (length p) list_item [] p of
          Inl err \<Rightarrow> Inl err
        | Inr (values, p) \<Rightarrow>
        case expect TokenRightParen '')'' p of
          Inl err \<Rightarrow> Inl err
        | Inr (right, p) \<Rightarrow> Inr (ListExpr values (span_between (tok_Span left) (tok_Span right)), p))"

definition vector_item :: "LiteralExpr parser" where
  "vector_item p =
     (let token = parser_current p in
      if tok_Kind token \<in> {TokenInteger, TokenFloat} then Inr (literalFromToken token, parser_advance p)
      else Inl (unexpected ''numeric vector value'' p))"

definition parseVectorElements :: "(LiteralExpr list \<times> Token) parser" where
  "parseVectorElements p =
     (if current_kind p = TokenRightBracket then Inl (unexpected ''at least one vector number'' p)
      else case comma_loop (length p) vector_item [] p of
        Inl err \<Rightarrow> Inl err
      | Inr (values, p) \<Rightarrow>
      case expect TokenRightBracket '']'' p of
        Inl err \<Rightarrow> Inl err
      | Inr (right, p) \<Rightarrow> Inr ((values, right), p))"

definition parseVectorRow :: "(LiteralExpr list \<times> Token) parser" where
  "parseVectorRow p =
     (case expect TokenLeftBracket ''['' p of
        Inl err \<Rightarrow> Inl err
      | Inr (left, p) \<Rightarrow> parseVectorElements p)"

text \<open>After \<open>enter\<close>.\<close>

definition parseVector :: "ValueExpr parser" where
  "parseVector p =
     (case expect TokenLeftBracket ''['' p of
        Inl err \<Rightarrow> Inl err
      | Inr (left, p) \<Rightarrow>
        if current_kind p = TokenLeftBracket then
          (case comma_loop (length p) parseVectorRow [] p of
             Inl err \<Rightarrow> Inl err
           | Inr (rows, p) \<Rightarrow>
           case expect TokenRightBracket '']'' p of
             Inl err \<Rightarrow> Inl err
           | Inr (right, p) \<Rightarrow> Inr (VectorExpr (map fst rows) True (span_between (tok_Span left) (tok_Span right)), p))
        else case parseVectorElements p of
          Inl err \<Rightarrow> Inl err
        | Inr ((row, right), p) \<Rightarrow> Inr (VectorExpr [row] False (span_between (tok_Span left) (tok_Span right)), p))"

section \<open>Values and calls\<close>

definition nesting_error :: "Position \<Rightarrow> sql_error" where
  "nesting_error position = ParseError position ''filter nesting exceeds the maximum''"

text \<open>\<open>parseCall\<close> after \<open>enter\<close>; \<open>argument\<close> reads an argument.\<close>

definition parseCall :: "ValueExpr parser \<Rightarrow> bytes \<times> Span \<Rightarrow> ValueExpr parser" where
  "parseCall argument identifier p =
     (case expect TokenLeftParen ''('' p of
        Inl err \<Rightarrow> Inl err
      | Inr (left, p) \<Rightarrow>
      case (if current_kind p \<noteq> TokenRightParen then comma_loop (length p) argument [] p else Inr ([], p)) of
        Inl err \<Rightarrow> Inl err
      | Inr (arguments, p) \<Rightarrow>
      case expect TokenRightParen '')'' p of
        Inl err \<Rightarrow> Inl err
      | Inr (right, p) \<Rightarrow> Inr (CallExpr (fst identifier) arguments (span_between (snd identifier) (tok_Span right)), p))"

text \<open>\<open>parseValue\<close>, given what is done after \<open>enter\<close> in a call and in a vector; \<open>None\<close> when the depth is exhausted.\<close>

definition value_step :: "ValueExpr parser option \<Rightarrow> bool \<Rightarrow> ValueExpr parser" where
  "value_step argument allowIdentifier p =
     (let token = parser_current p in
      if tok_Kind token \<in> literal_tokens then Inr (LiteralNode (literalFromToken token), parser_advance p)
      else if tok_Kind token = TokenLeftBracket then
        (if argument = None then Inl (nesting_error (span_Start (tok_Span token))) else parseVector p)
      else if \<not> identifierTokenAllowed (tok_Kind token) then Inl (unexpected ''literal or function call'' p)
      else case parseIdentifier p of
        Inl err \<Rightarrow> Inl err
      | Inr (identifier, p) \<Rightarrow>
        if current_kind p = TokenLeftParen then
          (case argument of
             None \<Rightarrow> Inl (nesting_error (span_Start (snd identifier)))
           | Some argument \<Rightarrow> parseCall argument identifier p)
        else if allowIdentifier then Inr (IdentifierExpr (fst identifier) (snd identifier), p)
        else Inl (ParseError (span_Start (snd identifier)) ''bare identifier is not a relation value''))"

text \<open>The first argument is the depth that is left.\<close>

primrec parseValue :: "nat \<Rightarrow> bool \<Rightarrow> ValueExpr parser" where
  "parseValue 0 allowIdentifier = value_step None allowIdentifier"
| "parseValue (Suc depth) allowIdentifier = value_step (Some (parseValue depth True)) allowIdentifier"

definition call_argument :: "nat \<Rightarrow> ValueExpr parser option" where
  "call_argument depth = (case depth of 0 \<Rightarrow> None | Suc d \<Rightarrow> Some (parseValue d True))"

definition parseRelationLeft :: "nat \<Rightarrow> ValueExpr parser" where
  "parseRelationLeft depth p =
     (case parseIdentifier p of
        Inl err \<Rightarrow> Inl err
      | Inr (identifier, p) \<Rightarrow>
        if current_kind p \<noteq> TokenLeftParen then Inr (IdentifierExpr (fst identifier) (snd identifier), p)
        else case call_argument depth of
          None \<Rightarrow> Inl (nesting_error (span_Start (snd identifier)))
        | Some argument \<Rightarrow> parseCall argument identifier p)"

section \<open>Predicates\<close>

definition comparison_tokens :: "TokenKind set" where
  "comparison_tokens = {TokenEqual, TokenNotEqual, TokenLessEqual, TokenGreaterEqual, TokenLess, TokenGreater}"

text \<open>The operator after the left operand, with its negation and the right operand.\<close>

definition parse_comparison :: "nat \<Rightarrow> (PredicateOperator \<times> bool \<times> ValueExpr) parser" where
  "parse_comparison depth p =
     (let token = parser_current p; p = parser_advance p;
          (equal, p) = (if tok_Kind token \<in> {TokenLess, TokenGreater} then parser_match TokenEqual p else (False, p));
          operator = (case tok_Kind token of TokenEqual \<Rightarrow> PredicateEQ | TokenNotEqual \<Rightarrow> PredicateNE
            | TokenLessEqual \<Rightarrow> PredicateLE | TokenGreaterEqual \<Rightarrow> PredicateGE
            | TokenLess \<Rightarrow> (if equal then PredicateLE else PredicateLT)
            | _ \<Rightarrow> (if equal then PredicateGE else PredicateGT)) in
      case parseValue depth False p of
        Inl err \<Rightarrow> Inl err
      | Inr (right, p) \<Rightarrow> Inr ((operator, False, right), p))"

definition parse_set :: "bool \<Rightarrow> (PredicateOperator \<times> bool \<times> ValueExpr) parser" where
  "parse_set negated p =
     (let kind = current_kind p; p = parser_advance p;
          operator = (case kind of TokenIn \<Rightarrow> PredicateIn | TokenContainAny \<Rightarrow> PredicateContainAny | _ \<Rightarrow> PredicateContainAll) in
      case parseList (kind \<noteq> TokenIn) p of
        Inl err \<Rightarrow> Inl err
      | Inr (right, p) \<Rightarrow> Inr ((operator, negated, right), p))"

definition parse_relation :: "nat \<Rightarrow> (PredicateOperator \<times> bool \<times> ValueExpr) parser" where
  "parse_relation depth p =
     (if current_kind p \<in> comparison_tokens then parse_comparison depth p
      else if current_kind p = TokenLike then
        (case parseValue depth False (parser_advance p) of
           Inl err \<Rightarrow> Inl err
         | Inr (right, p) \<Rightarrow> Inr ((PredicateLike, False, right), p))
      else if current_kind p = TokenNot then
        (let p = parser_advance p in
         if current_kind p \<in> {TokenIn, TokenContainAll, TokenContainAny} then parse_set True p
         else Inl (unexpected ''IN, CONTAIN_ALL, or CONTAIN_ANY after NOT'' p))
      else if current_kind p \<in> {TokenIn, TokenContainAll, TokenContainAny} then parse_set False p
      else Inl (unexpected ''comparison, LIKE, [NOT] IN, [NOT] CONTAIN_ALL/ANY, or IS [NOT] NULL'' p))"

fun is_call :: "ValueExpr \<Rightarrow> bool" where
  "is_call (CallExpr name arguments rng) = True"
| "is_call _ = False"

definition parsePredicate :: "nat \<Rightarrow> Expr parser" where
  "parsePredicate depth p =
     (case parseRelationLeft depth p of
        Inl err \<Rightarrow> Inl err
      | Inr (left, p) \<Rightarrow>
        let start = value_NodeSpan left in
        if is_call left \<and> current_kind p \<notin> comparison_tokens then Inl (unexpected ''comparison after function call'' p)
        else if current_kind p = TokenIs then
          (case parser_match TokenNot (parser_advance p) of (negated, p) \<Rightarrow>
           case expect TokenNull ''NULL'' p of
             Inl err \<Rightarrow> Inl err
           | Inr (token, p) \<Rightarrow> Inr (PredicateExpr PredicateIsNull left None negated (span_between start (tok_Span token)), p))
        else case parse_relation depth p of
          Inl err \<Rightarrow> Inl err
        | Inr ((operator, negated, right), p) \<Rightarrow>
          Inr (PredicateExpr operator left (Some right) negated (span_between start (value_NodeSpan right)), p))"

section \<open>Expressions\<close>

text \<open>The loop of \<open>parseOr\<close> and of \<open>parseAnd\<close>, given the parser of an operand.\<close>

fun logical_loop :: "nat \<Rightarrow> TokenKind \<Rightarrow> LogicalOperator \<Rightarrow> Expr parser \<Rightarrow> Expr \<Rightarrow> Expr parser" where
  "logical_loop 0 kind operator operand left p = Inl (SqlError ''unbounded'')"
| "logical_loop (Suc n) kind operator operand left p =
     (case parser_match kind p of (matched, p) \<Rightarrow>
      if \<not> matched then Inr (left, p)
      else case operand p of
        Inl err \<Rightarrow> Inl err
      | Inr (right, p) \<Rightarrow>
        logical_loop n kind operator operand (LogicalExpr operator left right (span_between (NodeSpan left) (NodeSpan right))) p)"

definition parse_logical :: "TokenKind \<Rightarrow> LogicalOperator \<Rightarrow> Expr parser \<Rightarrow> Expr parser" where
  "parse_logical kind operator operand p =
     (case operand p of
        Inl err \<Rightarrow> Inl err
      | Inr (left, p) \<Rightarrow> logical_loop (length p) kind operator operand left p)"

definition parseAnd :: "Expr parser \<Rightarrow> Expr parser" where
  "parseAnd primary = parse_logical TokenAnd LogicalAnd primary"

definition parseOr :: "Expr parser \<Rightarrow> Expr parser" where
  "parseOr primary = parse_logical TokenOr LogicalOr (parseAnd primary)"

primrec parsePrimary :: "nat \<Rightarrow> Expr parser" where
  "parsePrimary 0 = (\<lambda>p.
     if current_kind p \<noteq> TokenLeftParen then parsePredicate 0 p
     else Inl (nesting_error (span_Start (tok_Span (parser_current p)))))"
| "parsePrimary (Suc depth) = (\<lambda>p.
     if current_kind p \<noteq> TokenLeftParen then parsePredicate (Suc depth) p
     else case parseOr (parsePrimary depth) (parser_advance p) of
       Inl err \<Rightarrow> Inl err
     | Inr (expression, p) \<Rightarrow>
     case expect TokenRightParen '')'' p of
       Inl err \<Rightarrow> Inl err
     | Inr (token, p) \<Rightarrow> Inr (expression, p))"

definition ParseFilter :: "bytes \<Rightarrow> Expr sql_result" where
  "ParseFilter input =
     (case Lex input of
        Inl err \<Rightarrow> Inl err
      | Inr tokens \<Rightarrow>
      case parseOr (parsePrimary MaxParseDepth) tokens of
        Inl err \<Rightarrow> Inl err
      | Inr (expression, p) \<Rightarrow>
        if current_kind p \<noteq> TokenEOF then Inl (unexpected ''end of input'' p) else Inr expression)"

section \<open>What a parser promises\<close>

text \<open>A stream of tokens of an input of \<open>limit\<close> bytes: it ends with the end of input, and its tokens lie within
  the input.\<close>

definition stream_ok :: "nat \<Rightarrow> token_stream \<Rightarrow> bool" where
  "stream_ok limit p \<longleftrightarrow> p \<noteq> [] \<and> tok_Kind (last p) = TokenEOF \<and> (\<forall>t \<in> set p. pos_Offset (span_Start (tok_Span t)) \<le> limit)"

fun error_within :: "nat \<Rightarrow> sql_error \<Rightarrow> bool" where
  "error_within limit (ParseError position msg) = (pos_Offset position \<le> limit)"
| "error_within limit _ = False"

definition result_within :: "nat \<Rightarrow> nat \<Rightarrow> ('a \<Rightarrow> bool) \<Rightarrow> ('a \<times> token_stream) sql_result \<Rightarrow> bool" where
  "result_within limit left P r \<longleftrightarrow> (case r of
     Inl err \<Rightarrow> error_within limit err
   | Inr (x, p) \<Rightarrow> P x \<and> stream_ok limit p \<and> length p < left)"

text \<open>The contract: an error is a parse error within the input; a success consumes a token and has the property.\<close>

definition parses :: "nat \<Rightarrow> ('a \<Rightarrow> bool) \<Rightarrow> 'a parser \<Rightarrow> bool" where
  "parses limit P f \<longleftrightarrow> (\<forall>p. stream_ok limit p \<longrightarrow> result_within limit (length p) P (f p))"

named_theorems parsing

lemma result_Inl [parsing]: "result_within limit left P (Inl err) = error_within limit err"
  by (simp add: result_within_def)

lemma result_Inr [parsing]: "result_within limit left P (Inr (x, p)) \<longleftrightarrow> P x \<and> stream_ok limit p \<and> length p < left"
  by (simp add: result_within_def)

lemma result_bind:
  assumes "result_within limit n P r" and "\<And>x p. P x \<Longrightarrow> stream_ok limit p \<Longrightarrow> length p < n \<Longrightarrow> result_within limit left Q (g x p)"
  shows "result_within limit left Q (case r of Inl err \<Rightarrow> Inl err | Inr (x, p) \<Rightarrow> g x p)"
proof (cases r)
  case (Inl err)
  then show ?thesis using assms(1) by (simp add: parsing)
next
  case (Inr xp)
  then show ?thesis using assms by (cases xp) (simp add: parsing)
qed

lemma result_weaken: "result_within limit left P r \<Longrightarrow> left \<le> left' \<Longrightarrow> (\<And>x. P x \<Longrightarrow> Q x) \<Longrightarrow> result_within limit left' Q r"
  by (auto simp: result_within_def split: sum.splits)

lemma parsesD: "parses limit P f \<Longrightarrow> stream_ok limit p \<Longrightarrow> result_within limit (length p) P (f p)"
  by (simp add: parses_def)

lemma parsesD_le: "parses limit P f \<Longrightarrow> stream_ok limit p \<Longrightarrow> length p \<le> left \<Longrightarrow> result_within limit left P (f p)"
  by (rule result_weaken [OF parsesD])

lemma stream_current: "stream_ok limit p \<Longrightarrow> pos_Offset (span_Start (tok_Span (parser_current p))) \<le> limit"
  by (simp add: stream_ok_def parser_current_def)

lemma stream_advance: "stream_ok limit p \<Longrightarrow> stream_ok limit (parser_advance p)"
  by (cases p) (auto simp: stream_ok_def parser_advance_def parser_current_def split: if_splits)

lemma advance_length: "stream_ok limit p \<Longrightarrow> current_kind p \<noteq> TokenEOF \<Longrightarrow> length (parser_advance p) < length p"
  by (cases p) (auto simp: stream_ok_def parser_advance_def)

lemma advance_length_le: "length (parser_advance p) \<le> length p"
  by (simp add: parser_advance_def)

lemma unexpected_within [parsing]: "stream_ok limit p \<Longrightarrow> error_within limit (unexpected msg p)"
  by (simp add: unexpected_def stream_current)

lemma expect_parses: "kind \<noteq> TokenEOF \<Longrightarrow> parses limit (\<lambda>t. pos_Offset (span_Start (tok_Span t)) \<le> limit) (expect kind name)"
  by (auto simp: parses_def expect_def parsing stream_current stream_advance advance_length)

lemma match_stream:
  assumes "parser_match kind p = (matched, p')" and "stream_ok limit p" and "kind \<noteq> TokenEOF"
  shows "stream_ok limit p'" "length p' \<le> length p" "matched \<Longrightarrow> length p' < length p"
  using assms stream_advance [OF assms(2)] advance_length [OF assms(2)] by (auto simp: parser_match_def split: if_splits)

lemma list_item_parses: "parses limit (\<lambda>x. True) list_item"
  by (auto simp: parses_def list_item_def Let_def parsing stream_advance literal_tokens_def intro: advance_length)

lemma vector_item_parses: "parses limit (\<lambda>x. True) vector_item"
  by (auto simp: parses_def vector_item_def Let_def parsing stream_advance intro: advance_length)

lemma parseIdentifier_parses: "parses limit (\<lambda>i. pos_Offset (span_Start (snd i)) \<le> limit) parseIdentifier"
  by (auto simp: parses_def parseIdentifier_def Let_def parsing stream_advance stream_current identifierTokenAllowed_def
      intro: advance_length)

lemma comma_loop_parses:
  assumes "parses limit P item"
  shows "stream_ok limit p \<Longrightarrow> length p \<le> n \<Longrightarrow> list_all P items \<Longrightarrow>
    result_within limit (length p) (\<lambda>xs. xs \<noteq> [] \<and> list_all P xs) (comma_loop n item items p)"
proof (induction n arbitrary: items p)
  case 0
  then show ?case by (simp add: stream_ok_def)
next
  case (Suc n)
  show ?case unfolding comma_loop.simps
  proof (rule result_bind [OF parsesD [OF assms Suc.prems(1)]])
    fix x q
    assume q: "P x" "stream_ok limit q" "length q < length p"
    obtain matched r where m: "parser_match TokenComma q = (matched, r)" by (cases "parser_match TokenComma q")
    note s = match_stream [OF m q(2)]
    have "result_within limit (length p) (\<lambda>xs. xs \<noteq> [] \<and> list_all P xs) (comma_loop n item (items @ [x]) r)" if matched
      by (rule result_weaken [OF Suc.IH]) (use s q Suc.prems that in auto)
    then show "result_within limit (length p) (\<lambda>xs. xs \<noteq> [] \<and> list_all P xs)
        (case parser_match TokenComma q of (matched, p) \<Rightarrow>
          if matched then comma_loop n item (items @ [x]) p else Inr (items @ [x], p))"
      using s q Suc.prems(3) by (simp add: m parsing)
  qed
qed

lemma logical_loop_parses:
  assumes "parses limit P operand" and "\<And>op l r rng. P l \<Longrightarrow> P r \<Longrightarrow> P (LogicalExpr op l r rng)" and "kind \<noteq> TokenEOF"
  shows "stream_ok limit p \<Longrightarrow> length p \<le> n \<Longrightarrow> P left \<Longrightarrow> length p < m \<Longrightarrow>
    result_within limit m P (logical_loop n kind operator operand left p)"
proof (induction n arbitrary: left p)
  case 0
  then show ?case by (simp add: stream_ok_def)
next
  case (Suc n)
  obtain matched q where q: "parser_match kind p = (matched, q)" by (cases "parser_match kind p")
  note s = match_stream [OF q Suc.prems(1) assms(3)]
  show ?case
  proof (cases matched)
    case True
    have "result_within limit m P (case operand q of Inl err \<Rightarrow> Inl err | Inr (right, p) \<Rightarrow>
        logical_loop n kind operator operand (LogicalExpr operator left right (span_between (NodeSpan left) (NodeSpan right))) p)"
      by (rule result_bind [OF parsesD [OF assms(1) s(1)]], rule Suc.IH) (use s True Suc.prems assms(2) in auto)
    then show ?thesis using True by (simp add: q)
  next
    case False
    then show ?thesis using s Suc.prems by (simp add: q parsing)
  qed
qed

section \<open>Well-formed expressions\<close>

text \<open>The shape of a parsed expression: the analysis dereferences the right operand of every predicate but
  \<open>IS NULL\<close>, and the rewriting reads the first value of an \<open>IN\<close> list.\<close>

definition predicate_ok :: "PredicateOperator \<Rightarrow> ValueExpr \<Rightarrow> ValueExpr option \<Rightarrow> bool \<Rightarrow> bool" where
  "predicate_ok operator left right negated \<longleftrightarrow>
     (case left of IdentifierExpr name rng \<Rightarrow> True | CallExpr name arguments rng \<Rightarrow> operator \<in> comparison_operators | _ \<Rightarrow> False)
   \<and> (if operator = PredicateIsNull then right = None
      else if operator = PredicateIn then \<exists>values rng. right = Some (ListExpr values rng) \<and> values \<noteq> []
      else if operator \<in> {PredicateContainAll, PredicateContainAny} then \<exists>values rng. right = Some (ListExpr values rng)
      else right \<noteq> None \<and> \<not> negated)"

fun expr_ok :: "Expr \<Rightarrow> bool" where
  "expr_ok (LogicalExpr operator left right rng) \<longleftrightarrow> expr_ok left \<and> expr_ok right"
| "expr_ok (PredicateExpr operator left right negated rng) \<longleftrightarrow> predicate_ok operator left right negated"
| "expr_ok (ValueNode v) \<longleftrightarrow> False"

definition list_ok :: "bool \<Rightarrow> ValueExpr \<Rightarrow> bool" where
  "list_ok allowEmpty v \<longleftrightarrow> (\<exists>values rng. v = ListExpr values rng \<and> (\<not> allowEmpty \<longrightarrow> values \<noteq> []))"

lemma parseList_parses: "parses limit (list_ok allowEmpty) (parseList allowEmpty)"
  unfolding parses_def
proof (intro allI impI)
  fix p
  assume p: "stream_ok limit p"
  show "result_within limit (length p) (list_ok allowEmpty) (parseList allowEmpty p)"
    unfolding parseList_def
  proof (rule result_bind [OF parsesD [OF expect_parses p]])
    fix left q
    assume q: "stream_ok limit q" "length q < length p"
    show "result_within limit (length p) (list_ok allowEmpty)
        (if current_kind q = TokenRightParen then
          (if \<not> allowEmpty then Inl (unexpected ''at least one IN value'' q)
           else Inr (ListExpr [] (span_between (tok_Span left) (tok_Span (parser_current q))), parser_advance q))
        else case comma_loop (length q) list_item [] q of
          Inl err \<Rightarrow> Inl err
        | Inr (values, p) \<Rightarrow>
        case expect TokenRightParen '')'' p of
          Inl err \<Rightarrow> Inl err
        | Inr (right, p) \<Rightarrow> Inr (ListExpr values (span_between (tok_Span left) (tok_Span right)), p))"
      using q stream_advance [OF q(1)] advance_length_le [of q]
      by (auto simp: parsing list_ok_def intro!: result_bind [OF comma_loop_parses [OF list_item_parses, OF q(1)]]
          result_bind [OF parsesD [OF expect_parses]])
  qed simp
qed

lemma parseVectorElements_parses: "parses limit (\<lambda>x. True) parseVectorElements"
  unfolding parses_def parseVectorElements_def
  by (auto simp: parsing intro!: result_bind [OF comma_loop_parses [OF vector_item_parses]] result_bind [OF parsesD [OF expect_parses]])

lemma parseVectorRow_parses: "parses limit (\<lambda>x. True) parseVectorRow"
  unfolding parses_def parseVectorRow_def
  by (auto simp: parsing intro!: result_bind [OF parsesD [OF expect_parses]] parsesD_le [OF parseVectorElements_parses])

lemma parseVector_parses: "parses limit (\<lambda>x. True) parseVector"
  unfolding parses_def parseVector_def
  by (auto simp: parsing intro!: result_bind [OF parsesD [OF expect_parses]] result_bind [OF comma_loop_parses [OF parseVectorRow_parses]]
      result_bind [OF parsesD [OF parseVectorElements_parses]])

lemma parseCall_parses:
  assumes "parses limit P argument"
  shows "parses limit is_call (parseCall argument identifier)"
  unfolding parses_def parseCall_def
  by (auto simp: parsing intro!: result_bind [OF parsesD [OF expect_parses]] result_bind [OF comma_loop_parses [OF assms]])

lemma value_step_parses:
  assumes "\<And>f. argument = Some f \<Longrightarrow> parses limit (\<lambda>x. True) f"
  shows "parses limit (\<lambda>x. True) (value_step argument allowIdentifier)"
proof -
  have l: "current_kind p \<noteq> TokenEOF" if "current_kind p \<in> literal_tokens" for p using that by (auto simp: literal_tokens_def)
  have c: "result_within limit m (\<lambda>x. True) (parseCall f i p)" if "argument = Some f" "stream_ok limit p" "length p < m" for f i p m
    by (rule parsesD_le [OF parseCall_parses [OF assms [OF that(1)]], THEN result_weaken]) (use that in auto)
  show ?thesis
    unfolding parses_def value_step_def Let_def
    by (auto simp: parsing stream_advance stream_current nesting_error_def advance_length l c split: option.split
        intro!: result_bind [OF parsesD [OF parseIdentifier_parses]] parsesD [OF parseVector_parses])
qed

lemma parseValue_parses: "parses limit (\<lambda>x. True) (parseValue depth allowIdentifier)"
  by (induction depth arbitrary: allowIdentifier) (auto intro: value_step_parses)

definition left_ok :: "ValueExpr \<Rightarrow> bool" where
  "left_ok v \<longleftrightarrow> is_call v \<or> (\<exists>name rng. v = IdentifierExpr name rng)"

lemma left_ok_identifier: "left_ok (IdentifierExpr name rng)"
  by (simp add: left_ok_def)

lemma parseRelationLeft_parses: "parses limit left_ok (parseRelationLeft depth)"
proof -
  have c: "result_within limit m left_ok (parseCall f i p)" if "call_argument depth = Some f" "stream_ok limit p" "length p < m" for f i p m
  proof -
    have "parses limit is_call (parseCall f i)"
      using that(1) by (auto simp: call_argument_def split: nat.splits intro!: parseCall_parses parseValue_parses)
    then show ?thesis by (rule parsesD_le [THEN result_weaken]) (use that in \<open>auto simp: left_ok_def\<close>)
  qed
  show ?thesis
    unfolding parses_def parseRelationLeft_def
    by (auto simp: parsing left_ok_identifier nesting_error_def c split: option.split
        intro!: result_bind [OF parsesD [OF parseIdentifier_parses]])
qed

section \<open>Predicates and expressions are well formed\<close>

text \<open>What is read after the left operand.\<close>

definition relation_ok :: "bool \<Rightarrow> PredicateOperator \<times> bool \<times> ValueExpr \<Rightarrow> bool" where
  "relation_ok comparison x \<longleftrightarrow> (case x of (operator, negated, right) \<Rightarrow>
     if operator \<in> comparison_operators then \<not> negated
     else \<not> comparison \<and>
       (if operator = PredicateLike then \<not> negated
        else if operator = PredicateIn then list_ok False right
        else operator \<in> {PredicateContainAll, PredicateContainAny} \<and> list_ok True right))"

lemma parse_comparison_parses:
  assumes "stream_ok limit p" and "current_kind p \<in> comparison_tokens"
  shows "result_within limit (length p) (relation_ok c) (parse_comparison depth p)"
proof -
  have "current_kind p \<noteq> TokenEOF" using assms(2) by (auto simp: comparison_tokens_def)
  note adv = stream_advance [OF assms(1)] advance_length [OF assms(1) this]
  obtain equal q where q: "(if current_kind p \<in> {TokenLess, TokenGreater} then parser_match TokenEqual (parser_advance p)
      else (False, parser_advance p)) = (equal, q)" by (metis surj_pair)
  have s: "stream_ok limit q" "length q < length p"
    using q match_stream [of TokenEqual "parser_advance p" equal q limit] adv by (auto split: if_split_asm)
  show ?thesis
    unfolding parse_comparison_def Let_def q prod.case
    by (rule result_bind [OF parsesD [OF parseValue_parses s(1)]])
       (use assms(2) s in \<open>auto simp: parsing relation_ok_def comparison_operators_def comparison_tokens_def\<close>)
qed

lemma parse_set_parses:
  assumes "stream_ok limit p" and "current_kind p \<in> {TokenIn, TokenContainAll, TokenContainAny}"
  shows "result_within limit (length p) (relation_ok False) (parse_set negated p)"
proof -
  have "current_kind p \<noteq> TokenEOF" using assms(2) by auto
  note adv = stream_advance [OF assms(1)] advance_length [OF assms(1) this]
  show ?thesis
    unfolding parse_set_def Let_def
    by (rule result_bind [OF parsesD [OF parseList_parses adv(1)]])
       (use assms(2) adv in \<open>auto simp: parsing relation_ok_def comparison_operators_def list_ok_def\<close>)
qed

lemma parse_relation_parses:
  assumes p: "stream_ok limit p"
  shows "result_within limit (length p) (relation_ok (current_kind p \<in> comparison_tokens)) (parse_relation depth p)"
proof -
  have adv: "stream_ok limit (parser_advance p)" "length (parser_advance p) \<le> length p"
    by (rule stream_advance [OF p], rule advance_length_le)
  show ?thesis
  proof (cases "current_kind p \<in> comparison_tokens")
    case True
    then show ?thesis using parse_comparison_parses [OF p] by (simp add: parse_relation_def)
  next
    case False
    have n: "result_within limit (length p) (relation_ok False) (parse_set True (parser_advance p))"
      if "current_kind (parser_advance p) \<in> {TokenIn, TokenContainAll, TokenContainAny}"
      by (rule result_weaken [OF parse_set_parses [OF adv(1) that] adv(2)])
    have l: "result_within limit (length p) (relation_ok False) (case parseValue depth False (parser_advance p) of
        Inl err \<Rightarrow> Inl err | Inr (right, p) \<Rightarrow> Inr ((PredicateLike, False, right), p))"
      by (rule result_bind [OF parsesD [OF parseValue_parses adv(1)]])
         (use adv in \<open>auto simp: parsing relation_ok_def comparison_operators_def\<close>)
    show ?thesis
      using False n l p adv(1) parse_set_parses [OF p, of False] by (simp add: parse_relation_def Let_def parsing)
  qed
qed

lemma predicate_ok_relation:
  assumes "left_ok left" and "relation_ok comparison (operator, negated, right)" and "is_call left \<Longrightarrow> comparison"
  shows "predicate_ok operator left (Some right) negated"
  using assms
  by (cases left) (auto simp: predicate_ok_def relation_ok_def list_ok_def left_ok_def comparison_operators_def split: if_splits)

lemma parsePredicate_parses: "parses limit expr_ok (parsePredicate depth)"
  unfolding parses_def
proof (intro allI impI)
  fix p
  assume p: "stream_ok limit p"
  show "result_within limit (length p) expr_ok (parsePredicate depth p)"
    unfolding parsePredicate_def Let_def
  proof (rule result_bind [OF parsesD [OF parseRelationLeft_parses p]], goal_cases)
    case (1 left q)
    obtain negated r where r: "parser_match TokenNot (parser_advance q) = (negated, r)" by (metis surj_pair)
    note s = match_stream [OF r stream_advance [OF 1(2)]]
    have len: "length r < length p" using s(2) advance_length_le [of q] 1(3) by simp
    have null: "result_within limit (length p) expr_ok (case expect TokenNull ''NULL'' r of Inl err \<Rightarrow> Inl err
        | Inr (token, p) \<Rightarrow> Inr (PredicateExpr PredicateIsNull left None negated (span_between (value_NodeSpan left) (tok_Span token)), p))"
      if "\<not> is_call left"
      by (rule result_bind [OF parsesD [OF expect_parses s(1)]])
         (use that len 1 in \<open>auto simp: parsing predicate_ok_def left_ok_def\<close>)
    have rel: "result_within limit (length p) expr_ok (case parse_relation depth q of Inl err \<Rightarrow> Inl err
        | Inr ((operator, negated, right), p) \<Rightarrow>
          Inr (PredicateExpr operator left (Some right) negated (span_between (value_NodeSpan left) (value_NodeSpan right)), p))"
      if "is_call left \<longrightarrow> current_kind q \<in> comparison_tokens"
      by (rule result_bind [OF parse_relation_parses [OF 1(2)]])
         (use that 1 predicate_ok_relation [OF 1(1)] in \<open>auto simp: parsing\<close>)
    show ?case
      using null rel 1(2) by (auto simp: parsing r comparison_tokens_def)
  qed
qed

lemma parse_logical_parses:
  assumes "parses limit expr_ok operand" and "kind \<noteq> TokenEOF"
  shows "parses limit expr_ok (parse_logical kind operator operand)"
  unfolding parses_def parse_logical_def
  by (intro allI impI, rule result_bind [OF parsesD [OF assms(1)]], assumption)
     (rule logical_loop_parses [OF assms(1) _ assms(2)], simp_all)

lemma parseOr_parses: "parses limit expr_ok primary \<Longrightarrow> parses limit expr_ok (parseOr primary)"
  unfolding parseOr_def parseAnd_def by (intro parse_logical_parses) simp_all

lemma parsePrimary_parses: "parses limit expr_ok (parsePrimary depth)"
proof (induction depth)
  case 0
  show ?case using parsesD [OF parsePredicate_parses] by (auto simp: parses_def parsing nesting_error_def stream_current)
next
  case (Suc depth)
  have "result_within limit (length p) expr_ok (case parseOr (parsePrimary depth) (parser_advance p) of
       Inl err \<Rightarrow> Inl err | Inr (expression, p) \<Rightarrow>
       case expect TokenRightParen '')'' p of Inl err \<Rightarrow> Inl err | Inr (token, p) \<Rightarrow> Inr (expression, p))"
    if p: "stream_ok limit p" for p
  proof (rule result_bind [OF parsesD [OF parseOr_parses [OF Suc] stream_advance [OF p]]], goal_cases)
    case (1 e q)
    show ?case by (rule result_bind [OF parsesD [OF expect_parses 1(2)]]) (use 1 advance_length_le [of p] in \<open>auto simp: parsing\<close>)
  qed
  then show ?case using parsesD [OF parsePredicate_parses] by (auto simp: parses_def)
qed

section \<open>Errors of the lexer\<close>

lemma skip_block_error: "skip_block start l = Inl err \<Longrightarrow> \<exists>msg. err = ParseError start msg"
proof (induction start l rule: skip_block.induct)
  case (1 start l)
  show ?case using 1(2) "1.IH" unfolding skip_block.simps [of start l] by (simp split: if_split_asm) blast
qed

lemma string_loop_error: "string_loop start quote l = Inl err \<Longrightarrow> \<exists>msg. err = ParseError start msg"
proof (induction start quote l rule: string_loop.induct)
  case (1 start quote l)
  show ?case using 1(3) "1.IH" unfolding string_loop.simps [of start quote l] by (simp split: if_split_asm) blast+
qed

lemma lex_word_error: "lex_word l = Inl err \<Longrightarrow> \<exists>msg. err = ParseError (snd l) msg"
  unfolding lex_word_def Let_def by (auto split: if_split_asm)

lemma lex_step_error:
  assumes "lex_step l = Inl err" and "lexer_at input l"
  shows "error_within (length input) err"
proof -
  obtain s l' where ws: "skipWhitespace l = (s, l')" by (metis surj_pair)
  have "lexer_moves l l'" using ws skip_spaces_moves [of l] by (auto simp: skipWhitespace_def Let_def)
  then have at: "lexer_at input l'" using lexer_at_moves [OF assms(2)] by blast
  have "\<exists>msg. err = ParseError (snd l') msg"
    using assms(1) skip_block_error string_loop_error lex_word_error [of l'] unfolding lex_step_def ws skipLineComment_def
    by (auto simp: skipBlockComment_def lexString_def split: if_split_asm sum.split_asm option.split_asm prod.split_asm)
  then show ?thesis using at by (auto simp: lexer_at_def)
qed

lemma lex_error: "lexer_at input l \<Longrightarrow> lex l tokens = Inl err \<Longrightarrow> error_within (length input) err"
proof (induction l tokens rule: lex.induct)
  case (1 l tokens)
  have ne: "fst l \<noteq> []" using "1.prems"(2) by (auto simp: lex.simps [of l])
  show ?case
  proof (cases "lex_step l")
    case (Inl e)
    then show ?thesis using "1.prems" ne lex_step_error by (simp add: lex.simps [of l])
  next
    case (Inr r)
    obtain token l' where r: "r = (token, l')" by (metis surj_pair)
    have "lexer_at input l'" using lexer_at_moves [OF "1.prems"(1)] lex_step_progress [OF Inr [unfolded r] ne] by blast
    moreover have "lex l' (case token of None \<Rightarrow> tokens | Some t \<Rightarrow> tokens @ [t]) = Inl err"
      using "1.prems"(2) Inr r ne by (simp add: lex.simps [of l])
    ultimately show ?thesis using "1.IH" [OF ne Inr r [symmetric]] by blast
  qed
qed

lemma rune_width_le: "rune_width (b # s) \<le> length (b # s)"
proof (cases "length (b # s) < rune_width (b # s)")
  case True
  define k where "k = length (b # s)"
  have "rune_ok (take k (b # s)) \<longrightarrow> rune_width (b # s) \<le> k" if "1 \<le> k" "k \<le> 4"
    using that unfolding rune_width_def by (auto simp: numeral_eq_Suc le_Suc_eq)
  moreover have "rune_ok (take (rune_width (b # s)) (b # s)) \<or> rune_width (b # s) = 1" "rune_width (b # s) \<le> 4"
    by (auto simp: rune_width_def)
  ultimately show ?thesis using True k_def by auto
qed simp

lemma firstInvalidUTF8_le: "firstInvalidUTF8 s \<le> length s"
proof (induction s rule: firstInvalidUTF8.induct)
  case (2 b s)
  note w = rune_width_le [of b s]
  then show ?case using 2 by (auto simp: Let_def)
qed simp

lemma positionAt_offset: "pos_Offset (positionAt s target) = target"
  by (simp add: positionAt_def)

lemma Lex_error: "Lex input = Inl err \<Longrightarrow> error_within (length input) err"
  using lex_error [of input "(input, first_position)" "[]" err]
  by (auto simp: Lex_def positionAt_offset firstInvalidUTF8_le lexer_at_def split: if_split_asm)

lemma Lex_stream: "Lex input = Inr tokens \<Longrightarrow> stream_ok (length input) tokens"
  by (rule Lex_tokens, assumption) (fastforce simp: stream_ok_def token_in_def)

section \<open>Parsing\<close>

theorem ParseFilter_result:
  "case ParseFilter input of Inl err \<Rightarrow> error_within (length input) err | Inr e \<Rightarrow> expr_ok e"
proof (cases "Lex input")
  case (Inl err)
  then show ?thesis using Lex_error by (simp add: ParseFilter_def)
next
  case (Inr tokens)
  have "result_within (length input) (length tokens) expr_ok (parseOr (parsePrimary MaxParseDepth) tokens)"
    by (rule parsesD [OF parseOr_parses [OF parsePrimary_parses] Lex_stream [OF Inr]])
  then show ?thesis using Inr by (auto simp: ParseFilter_def result_within_def unexpected_within split: sum.split)
qed

end
