(* ===== verification/Sql_Plan.thy ===== *)
theory Sql_Plan
  imports Sql_Value Sql_Parser
begin

text \<open>
  Filter plans: the schema (\<open>internal/db/sql/schema.go\<close>), the analysis that binds an expression to it
  (\<open>analyzer.go\<close>), and the plan with its evaluation and optimisation (\<open>plan.go\<close>).
\<close>

section \<open>Schema\<close>

record Field =
  f_Name :: bytes
  f_Kind :: ValueKind
  f_Array :: bool
  f_Nullable :: bool
  f_Filterable :: bool
  f_Indexed :: bool
  f_RangeOptimized :: bool
  f_ExtendedWildcard :: bool

record Schema =
  sc_fields :: "bytes \<rightharpoonup> Field"
  sc_order :: "bytes list"

fun schema_loop :: "Schema \<Rightarrow> Field list \<Rightarrow> Schema sql_result" where
  "schema_loop schema [] = Inr schema"
| "schema_loop schema (field # rest) =
     (if f_Name field = [] then Inl (SqlError ''field has an empty name'')
      else if sc_fields schema (f_Name field) \<noteq> None then Inl (SqlError ''duplicate field'')
      else if f_Filterable field \<and> \<not> kind_valid (f_Kind field) then Inl (SqlError ''filterable field has invalid kind'')
      else if f_Indexed field \<and> \<not> f_Filterable field then Inl (SqlError ''indexed field is not filterable'')
      else schema_loop \<lparr>sc_fields = (sc_fields schema)(f_Name field \<mapsto> field), sc_order = sc_order schema @ [f_Name field]\<rparr> rest)"

definition NewSchema :: "Field list \<Rightarrow> Schema sql_result" where
  "NewSchema descriptors = schema_loop \<lparr>sc_fields = Map.empty, sc_order = []\<rparr> descriptors"

definition Schema_Field :: "Schema \<Rightarrow> bytes \<Rightarrow> Field option" where
  "Schema_Field s name = sc_fields s name"

definition Schema_Fields :: "Schema \<Rightarrow> Field list" where
  "Schema_Fields s = map (\<lambda>name. the (sc_fields s name)) (sc_order s)"

section \<open>Plans\<close>

datatype valueSource = fieldSource Field | arrayLengthSource Field

datatype planNode =
  constantPlanNode Truth
| logicalPlanNode LogicalOperator planNode planNode
| predicatePlanNode valueSource BoundPredicate bytes

text \<open>The resolver is an argument of the evaluation.\<close>

type_synonym Resolver = "Field \<Rightarrow> Value sql_result"

definition resolve_source :: "Resolver \<Rightarrow> valueSource \<Rightarrow> Value sql_result" where
  "resolve_source resolve source = (case source of
     fieldSource field \<Rightarrow> resolve field
   | arrayLengthSource field \<Rightarrow>
     (case resolve field of
        Inl err \<Rightarrow> Inl err
      | Inr v \<Rightarrow>
        if v_null v then NullValue ValueUint32 False
        else case Value_Len v of
          None \<Rightarrow> Inl (SqlError ''array_length resolver returned a scalar'')
        | Some n \<Rightarrow> if 2 ^ 32 \<le> n then Inl (SqlError ''array length exceeds UINT32'') else Inr (Uint32Value (word_of_nat n))))"

fun planNode_evaluate :: "Resolver \<Rightarrow> planNode \<Rightarrow> Truth sql_result" where
  "planNode_evaluate resolve (constantPlanNode t) = Inr t"
| "planNode_evaluate resolve (logicalPlanNode operator left right) =
     (case planNode_evaluate resolve left of
        Inl err \<Rightarrow> Inl err
      | Inr l \<Rightarrow>
        if operator = LogicalAnd \<and> l = TruthFalse then Inr TruthFalse
        else if operator = LogicalOr \<and> l = TruthTrue then Inr TruthTrue
        else case planNode_evaluate resolve right of
          Inl err \<Rightarrow> Inl err
        | Inr r \<Rightarrow> Inr (if operator = LogicalAnd then Truth_And l r else Truth_Or l r))"
| "planNode_evaluate resolve (predicatePlanNode source predicate text) =
     (case resolve_source resolve source of
        Inl err \<Rightarrow> Inl err
      | Inr v \<Rightarrow> BoundPredicate_Evaluate predicate v)"

fun source_explain :: "valueSource \<Rightarrow> bytes" where
  "source_explain (fieldSource field) = f_Name field"
| "source_explain (arrayLengthSource field) = ascii ''array_length('' @ f_Name field @ ascii '')''"

fun Truth_String :: "Truth \<Rightarrow> string" where
  "Truth_String TruthUnknown = ''UNKNOWN''"
| "Truth_String TruthFalse = ''FALSE''"
| "Truth_String TruthTrue = ''TRUE''"

fun planNode_explain :: "planNode \<Rightarrow> bytes" where
  "planNode_explain (constantPlanNode t) = ascii (Truth_String t)"
| "planNode_explain (logicalPlanNode operator left right) =
     ascii ''('' @ planNode_explain left @ ascii '' '' @ ascii (LogicalOperator_String operator) @ ascii '' ''
       @ planNode_explain right @ ascii '')''"
| "planNode_explain (predicatePlanNode source predicate text) = text"

section \<open>Analysis\<close>

record filterAnalyzer =
  fa_schema :: Schema
  fa_seen :: "bytes set"
  fa_fields :: "Field list"

definition requireField :: "filterAnalyzer \<Rightarrow> bytes \<Rightarrow> Position \<Rightarrow> Field sql_result \<times> filterAnalyzer" where
  "requireField a name position =
     (case Schema_Field (fa_schema a) name of
        None \<Rightarrow> (Inl (AnalysisError position ''field does not exist in schema''), a)
      | Some field \<Rightarrow>
        if \<not> f_Filterable field then (Inl (AnalysisError position ''field cannot be used in scalar filters''), a)
        else (Inr field,
          if name \<notin> fa_seen a then a\<lparr>fa_seen := insert name (fa_seen a), fa_fields := fa_fields a @ [field]\<rparr> else a))"

definition bindSource :: "filterAnalyzer \<Rightarrow> ValueExpr \<Rightarrow> (valueSource \<times> Field) sql_result \<times> filterAnalyzer" where
  "bindSource a expression = (case expression of
     IdentifierExpr name rng \<Rightarrow>
       (case requireField a name (span_Start rng) of
          (Inl err, a) \<Rightarrow> (Inl err, a)
        | (Inr field, a) \<Rightarrow> (Inr (fieldSource field, field), a))
   | CallExpr name arguments rng \<Rightarrow>
       if name \<noteq> ascii ''array_length'' then (Inl (AnalysisError (span_Start rng) ''function is not supported''), a)
       else (case arguments of
         [IdentifierExpr field_name field_rng] \<Rightarrow>
           (case requireField a field_name (span_Start field_rng) of
              (Inl err, a) \<Rightarrow> (Inl err, a)
            | (Inr field, a) \<Rightarrow>
              if \<not> f_Array field then (Inl (AnalysisError (span_Start field_rng) ''array_length requires an array field''), a)
              else (Inr (arrayLengthSource field,
                \<lparr>f_Name = Format_value expression, f_Kind = ValueUint32, f_Array = False, f_Nullable = f_Nullable field,
                 f_Filterable = True, f_Indexed = False, f_RangeOptimized = False, f_ExtendedWildcard = False\<rparr>), a))
       | [argument] \<Rightarrow>
           (Inl (AnalysisError (span_Start (value_NodeSpan argument)) ''array_length argument must be a field name''), a)
       | _ \<Rightarrow> (Inl (AnalysisError (span_Start rng) ''array_length requires exactly one field argument''), a))
   | _ \<Rightarrow> (Inl (AnalysisError (span_Start (value_NodeSpan expression)) ''predicate left operand must be a field or supported function''), a))"

text \<open>\<open>strings.TrimSuffix\<close> of one byte.\<close>

definition trim_suffix :: "bytes \<Rightarrow> u8 \<Rightarrow> bytes" where
  "trim_suffix s b = (if s \<noteq> [] \<and> last s = b then butlast s else s)"

definition literal_error :: "LiteralExpr \<Rightarrow> string \<Rightarrow> 'a sql_result" where
  "literal_error literal msg = Inl (AnalysisError (span_Start (lit_Range literal)) msg)"

definition bindLiteral :: "LiteralExpr \<Rightarrow> ValueKind \<Rightarrow> Value sql_result" where
  "bindLiteral literal kind = (case kind of
     ValueBinary \<Rightarrow>
       if lit_Kind literal \<noteq> LiteralString then literal_error literal ''string literal is required''
       else Inr (BinaryValue (lit_Text literal))
   | ValueString \<Rightarrow>
       if lit_Kind literal \<noteq> LiteralString then literal_error literal ''string literal is required''
       else Inr (StringValue (lit_Text literal))
   | ValueBool \<Rightarrow>
       if lit_Kind literal \<noteq> LiteralBool then literal_error literal ''Boolean literal is required''
       else Inr (BoolValue (lit_Text literal = ascii ''true''))
   | ValueInt32 \<Rightarrow>
       if lit_Kind literal \<noteq> LiteralInteger then literal_error literal ''integer literal is required''
       else (case ParseInt (lit_Text literal) 32 of
         None \<Rightarrow> literal_error literal ''invalid literal'' | Some i \<Rightarrow> Inr (Int32Value (word_of_int i)))
   | ValueInt64 \<Rightarrow>
       if lit_Kind literal \<noteq> LiteralInteger then literal_error literal ''integer literal is required''
       else (case ParseInt (lit_Text literal) 64 of
         None \<Rightarrow> literal_error literal ''invalid literal'' | Some i \<Rightarrow> Inr (Int64Value (word_of_int i)))
   | ValueUint32 \<Rightarrow>
       if lit_Kind literal \<noteq> LiteralInteger then literal_error literal ''integer literal is required''
       else (case ParseUint (lit_Text literal) 32 of
         None \<Rightarrow> literal_error literal ''invalid literal'' | Some n \<Rightarrow> Inr (Uint32Value (word_of_nat n)))
   | ValueUint64 \<Rightarrow>
       if lit_Kind literal \<noteq> LiteralInteger then literal_error literal ''integer literal is required''
       else (case ParseUint (lit_Text literal) 64 of
         None \<Rightarrow> literal_error literal ''invalid literal'' | Some n \<Rightarrow> Inr (Uint64Value (word_of_nat n)))
   | ValueInvalid \<Rightarrow> literal_error literal ''unsupported field kind''
   | _ \<Rightarrow>
       if lit_Kind literal \<notin> {LiteralInteger, LiteralFloat} then literal_error literal ''numeric literal is required''
       else
         let text = trim_suffix (trim_suffix (trim_suffix (trim_suffix (lit_Text literal) 0x66) 0x46) 0x64) 0x44 in
         case ParseFloat text (if kind = ValueFloat32 then 32 else 64) of
           None \<Rightarrow> literal_error literal ''invalid literal''
         | Some x \<Rightarrow>
           (case (if kind = ValueFloat32 then Float32Value (Finite x) else Float64Value (Finite x)) of
              Inl err \<Rightarrow> literal_error literal ''invalid literal''
            | Inr v \<Rightarrow> Inr v))"

fun bind_values :: "LiteralExpr list \<Rightarrow> ValueKind \<Rightarrow> Value list sql_result" where
  "bind_values [] kind = Inr []"
| "bind_values (literal # rest) kind =
     (case bindLiteral literal kind of
        Inl err \<Rightarrow> Inl err
      | Inr v \<Rightarrow> (case bind_values rest kind of Inl err \<Rightarrow> Inl err | Inr vs \<Rightarrow> Inr (v # vs)))"

text \<open>A right operand that is nil, where the code would dereference it.\<close>

definition right_error :: "ValueExpr option \<Rightarrow> string \<Rightarrow> 'a sql_result" where
  "right_error right msg = (case right of
     None \<Rightarrow> Inl (SqlError ''nil dereference'')
   | Some v \<Rightarrow> Inl (AnalysisError (span_Start (value_NodeSpan v)) msg))"

definition bindSetPredicate ::
  "PredicateOperator \<Rightarrow> bool \<Rightarrow> ValueExpr option \<Rightarrow> ValueKind \<Rightarrow> BoundPredicate sql_result" where
  "bindSetPredicate operator negated right kind = (case right of
     Some (ListExpr literals rng) \<Rightarrow>
       (case bind_values literals kind of
          Inl err \<Rightarrow> Inl err
        | Inr values \<Rightarrow>
          (case NewSetPredicate operator negated values of
             Inl err \<Rightarrow> Inl (AnalysisError (span_Start rng) ''set predicate'')
           | Inr predicate \<Rightarrow> Inr predicate))
   | _ \<Rightarrow> right_error right ''a literal list is required'')"

text \<open>The guards of \<open>bindPredicate\<close> before its switch.\<close>

definition operator_error :: "valueSource \<Rightarrow> Field \<Rightarrow> PredicateOperator \<Rightarrow> string option" where
  "operator_error source field operator =
     (if (case source of arrayLengthSource f \<Rightarrow> True | _ \<Rightarrow> False) \<and> operator \<notin> comparison_operators
        then Some ''array_length supports only comparison operators''
      else if f_Array field \<and> operator \<notin> {PredicateContainAll, PredicateContainAny, PredicateIsNull}
        then Some ''array field supports only CONTAIN_ALL, CONTAIN_ANY, and IS [NOT] NULL''
      else if \<not> f_Array field \<and> operator \<in> {PredicateContainAll, PredicateContainAny} then Some ''an array field is required''
      else None)"

text \<open>The switch; an error of a constructor or of a set is reported at the start of the predicate.\<close>

definition bind_operator ::
  "Field \<Rightarrow> PredicateOperator \<Rightarrow> bool \<Rightarrow> ValueExpr option \<Rightarrow> Span \<Rightarrow> BoundPredicate sql_result" where
  "bind_operator field operator negated right rng =
     (let wrapped = (\<lambda>r. case r of Inl err \<Rightarrow> Inl (AnalysisError (span_Start rng) ''predicate'') | Inr p \<Rightarrow> Inr p) in
      case operator of
        PredicateIsNull \<Rightarrow> Inr (NewNullPredicate negated)
      | PredicateLike \<Rightarrow>
          if f_Array field \<or> f_Kind field \<noteq> ValueString
            then Inl (AnalysisError (span_Start rng) ''LIKE requires a STRING scalar field'')
          else (case right of
            Some (LiteralNode literal) \<Rightarrow>
              if lit_Kind literal \<noteq> LiteralString then right_error right ''LIKE requires a string literal''
              else wrapped (NewLikePredicate (lit_Text literal))
          | _ \<Rightarrow> right_error right ''LIKE requires a string literal'')
      | PredicateIn \<Rightarrow>
          if f_Array field then Inl (AnalysisError (span_Start rng) ''IN requires a scalar field'')
          else wrapped (bindSetPredicate operator negated right (f_Kind field))
      | PredicateContainAll \<Rightarrow> wrapped (bindSetPredicate operator negated right (f_Kind field))
      | PredicateContainAny \<Rightarrow> wrapped (bindSetPredicate operator negated right (f_Kind field))
      | _ \<Rightarrow>
          if f_Array field then Inl (AnalysisError (span_Start rng) ''comparison operators do not support array fields'')
          else if f_Kind field = ValueBool \<and> operator \<noteq> PredicateEQ \<and> operator \<noteq> PredicateNE
            then Inl (AnalysisError (span_Start rng) ''BOOL fields support only = and !='')
          else (case right of
            Some (LiteralNode literal) \<Rightarrow>
              (case bindLiteral literal (f_Kind field) of
                 Inl err \<Rightarrow> Inl err
               | Inr v \<Rightarrow> wrapped (NewComparisonPredicate operator v))
          | _ \<Rightarrow> right_error right ''comparison right operand must be a scalar literal''))"

definition bindPredicate ::
  "filterAnalyzer \<Rightarrow> PredicateOperator \<Rightarrow> ValueExpr \<Rightarrow> ValueExpr option \<Rightarrow> bool \<Rightarrow> Span \<Rightarrow> planNode sql_result \<times> filterAnalyzer" where
  "bindPredicate a operator left right negated rng =
     (case bindSource a left of
        (Inl err, a) \<Rightarrow> (Inl err, a)
      | (Inr (source, field), a) \<Rightarrow>
        case operator_error source field operator of
          Some msg \<Rightarrow> (Inl (AnalysisError (span_Start rng) msg), a)
        | None \<Rightarrow>
        case bind_operator field operator negated right rng of
          Inl err \<Rightarrow> (Inl err, a)
        | Inr predicate \<Rightarrow>
          (Inr (predicatePlanNode source predicate (Format (PredicateExpr operator left right negated rng))), a))"

fun bindExpression :: "filterAnalyzer \<Rightarrow> Expr \<Rightarrow> planNode sql_result \<times> filterAnalyzer" where
  "bindExpression a (LogicalExpr operator left right rng) =
     (case bindExpression a left of
        (Inl err, a) \<Rightarrow> (Inl err, a)
      | (Inr l, a) \<Rightarrow>
        case bindExpression a right of
          (Inl err, a) \<Rightarrow> (Inl err, a)
        | (Inr r, a) \<Rightarrow> (Inr (logicalPlanNode operator l r), a))"
| "bindExpression a (PredicateExpr operator left right negated rng) = bindPredicate a operator left right negated rng"
| "bindExpression a (ValueNode v) =
     (Inl (AnalysisError (span_Start (value_NodeSpan v)) ''expected logical or predicate expression''), a)"

section \<open>Optimisation\<close>

record PlanStats =
  ps_EqualitySets :: nat
  ps_EmptyContainRewrites :: nat
  ps_ConstantFolds :: nat

fun rewriteBoundPlan :: "planNode \<Rightarrow> PlanStats \<Rightarrow> planNode \<times> PlanStats" where
  "rewriteBoundPlan (logicalPlanNode operator left right) stats =
     (case rewriteBoundPlan left stats of (left, stats) \<Rightarrow>
      case rewriteBoundPlan right stats of (right, stats) \<Rightarrow>
      (logicalPlanNode operator left right, stats))"
| "rewriteBoundPlan (predicatePlanNode source predicate text) stats =
     (let operator = bp_operator predicate in
      if bp_set predicate \<noteq> [] \<or> operator \<noteq> PredicateContainAll \<and> operator \<noteq> PredicateContainAny
        then (predicatePlanNode source predicate text, stats)
      else let stats = stats\<lparr>ps_EmptyContainRewrites := ps_EmptyContainRewrites stats + 1\<rparr> in
        if operator = PredicateContainAll \<and> \<not> bp_negated predicate \<or> operator = PredicateContainAny \<and> bp_negated predicate
          then (predicatePlanNode source (NewNullPredicate True) (source_explain source @ ascii '' IS NOT NULL''), stats)
        else (constantPlanNode TruthFalse, stats))"
| "rewriteBoundPlan (constantPlanNode t) stats = (constantPlanNode t, stats)"

definition is_constant :: "planNode \<Rightarrow> Truth \<Rightarrow> bool" where
  "is_constant node t \<longleftrightarrow> node = constantPlanNode t"

definition fold_constants :: "LogicalOperator \<Rightarrow> planNode \<Rightarrow> planNode \<Rightarrow> PlanStats \<Rightarrow> planNode \<times> PlanStats" where
  "fold_constants operator left right stats =
     (let folded = stats\<lparr>ps_ConstantFolds := ps_ConstantFolds stats + 1\<rparr> in
      if operator = LogicalAnd then
        (if is_constant left TruthFalse \<or> is_constant right TruthFalse then (constantPlanNode TruthFalse, folded)
         else if is_constant left TruthTrue then (right, folded)
         else if is_constant right TruthTrue then (left, folded)
         else (logicalPlanNode operator left right, stats))
      else
        (if is_constant left TruthTrue \<or> is_constant right TruthTrue then (constantPlanNode TruthTrue, folded)
         else if is_constant left TruthFalse then (right, folded)
         else if is_constant right TruthFalse then (left, folded)
         else (logicalPlanNode operator left right, stats)))"

fun optimizePlan :: "planNode \<Rightarrow> PlanStats \<Rightarrow> planNode \<times> PlanStats" where
  "optimizePlan (logicalPlanNode operator left right) stats =
     (case optimizePlan left stats of (left, stats) \<Rightarrow>
      case optimizePlan right stats of (right, stats) \<Rightarrow>
      fold_constants operator left right stats)"
| "optimizePlan node stats = (node, stats)"

definition optimize :: "planNode \<Rightarrow> PlanStats \<Rightarrow> planNode \<times> PlanStats" where
  "optimize node stats = (case rewriteBoundPlan node stats of (node, stats) \<Rightarrow> optimizePlan node stats)"

section \<open>Building and running a plan\<close>

record Plan =
  plan_root :: planNode
  plan_fields :: "Field list"
  plan_normalized :: bytes
  plan_stats :: PlanStats

definition BuildPlan :: "bytes \<Rightarrow> Schema \<Rightarrow> Plan sql_result" where
  "BuildPlan input schema =
     (case ParseFilter input of
        Inl err \<Rightarrow> Inl err
      | Inr expression \<Rightarrow>
      case RewriteFilter expression of (rewritten, equalitySets) \<Rightarrow>
      case bindExpression \<lparr>fa_schema = schema, fa_seen = {}, fa_fields = []\<rparr> rewritten of
        (Inl err, a) \<Rightarrow> Inl err
      | (Inr node, a) \<Rightarrow>
      case optimize node \<lparr>ps_EqualitySets = equalitySets, ps_EmptyContainRewrites = 0, ps_ConstantFolds = 0\<rparr> of (node, stats) \<Rightarrow>
      Inr \<lparr>plan_root = node, plan_fields = fa_fields a, plan_normalized = Format rewritten, plan_stats = stats\<rparr>)"

definition Plan_Evaluate :: "Plan \<Rightarrow> Resolver \<Rightarrow> Truth sql_result" where
  "Plan_Evaluate p resolve = planNode_evaluate resolve (plan_root p)"

definition Plan_Match :: "Plan \<Rightarrow> Resolver \<Rightarrow> bool sql_result" where
  "Plan_Match p resolve = (case Plan_Evaluate p resolve of Inl err \<Rightarrow> Inl err | Inr t \<Rightarrow> Inr (Truth_Match t))"

definition Plan_AlwaysFalse :: "Plan \<Rightarrow> bool" where
  "Plan_AlwaysFalse p \<longleftrightarrow> plan_root p = constantPlanNode TruthFalse"

definition Plan_Explain :: "Plan \<Rightarrow> bytes" where
  "Plan_Explain p = planNode_explain (plan_root p)"

section \<open>Optimising keeps the answers\<close>

text \<open>Optimising may turn an unknown answer into a false one, which no filter distinguishes.\<close>

definition truth_refines :: "Truth \<Rightarrow> Truth \<Rightarrow> bool" where
  "truth_refines t u \<longleftrightarrow> u = t \<or> t = TruthUnknown \<and> u = TruthFalse"

lemma truth_refines_Match: "truth_refines t u \<Longrightarrow> Truth_Match u = Truth_Match t"
  by (auto simp: truth_refines_def Truth_Match_def)

lemma truth_refines_refl [simp]: "truth_refines t t"
  by (simp add: truth_refines_def)

lemma Truth_And_laws [simp]:
  "Truth_And TruthTrue t = t" "Truth_And t TruthTrue = t" "Truth_And TruthFalse t = TruthFalse" "Truth_And t TruthFalse = TruthFalse"
  by (cases t; simp add: Truth_And_def)+

lemma Truth_Or_laws [simp]:
  "Truth_Or TruthFalse t = t" "Truth_Or t TruthFalse = t" "Truth_Or TruthTrue t = TruthTrue" "Truth_Or t TruthTrue = TruthTrue"
  by (cases t; simp add: Truth_Or_def)+

text \<open>The evaluation of a logical node, as an operation on the results of its operands.\<close>

definition short_circuit :: "LogicalOperator \<Rightarrow> Truth sql_result \<Rightarrow> Truth sql_result \<Rightarrow> Truth sql_result" where
  "short_circuit operator x y = (case x of
     Inl err \<Rightarrow> Inl err
   | Inr l \<Rightarrow>
     if operator = LogicalAnd \<and> l = TruthFalse then Inr TruthFalse
     else if operator = LogicalOr \<and> l = TruthTrue then Inr TruthTrue
     else case y of
       Inl err \<Rightarrow> Inl err
     | Inr r \<Rightarrow> Inr (if operator = LogicalAnd then Truth_And l r else Truth_Or l r))"

lemma evaluate_logical:
  "planNode_evaluate resolve (logicalPlanNode operator left right) =
     short_circuit operator (planNode_evaluate resolve left) (planNode_evaluate resolve right)"
  by (simp add: short_circuit_def)

declare planNode_evaluate.simps(2) [simp del]

lemma short_circuit_refines:
  assumes "short_circuit operator x y = Inr t"
    and "\<And>l. x = Inr l \<Longrightarrow> \<exists>l'. x' = Inr l' \<and> truth_refines l l'"
    and "\<And>r. y = Inr r \<Longrightarrow> \<exists>r'. y' = Inr r' \<and> truth_refines r r'"
  shows "\<exists>u. short_circuit operator x' y' = Inr u \<and> truth_refines t u"
proof -
  obtain l where l: "x = Inr l" using assms(1) by (cases x) (auto simp: short_circuit_def)
  obtain l' where l': "x' = Inr l'" "truth_refines l l'" using assms(2) [OF l] by blast
  show ?thesis
  proof (cases "operator = LogicalAnd \<and> l = TruthFalse \<or> operator = LogicalOr \<and> l = TruthTrue")
    case True
    then show ?thesis using assms(1) l' unfolding l by (auto simp: short_circuit_def truth_refines_def)
  next
    case False
    then obtain r where r: "y = Inr r" using assms(1) unfolding l by (cases y) (auto simp: short_circuit_def)
    obtain r' where r': "y' = Inr r'" "truth_refines r r'" using assms(3) [OF r] by blast
    show ?thesis
      using assms(1) l' r' unfolding l r
      by (cases operator; cases l; cases r) (auto simp: short_circuit_def truth_refines_def Truth_And_def Truth_Or_def)
  qed
qed

lemma rewriteBoundPlan_refines:
  "planNode_evaluate resolve node = Inr t \<Longrightarrow>
   \<exists>u. planNode_evaluate resolve (fst (rewriteBoundPlan node stats)) = Inr u \<and> truth_refines t u"
proof (induction node stats arbitrary: t rule: rewriteBoundPlan.induct)
  case (1 operator left right stats)
  obtain left' stats' where l: "rewriteBoundPlan left stats = (left', stats')" by (metis surj_pair)
  obtain right' stats'' where r: "rewriteBoundPlan right stats' = (right', stats'')" by (metis surj_pair)
  show ?case
    using short_circuit_refines [OF 1(3) [unfolded evaluate_logical], of "planNode_evaluate resolve left'" "planNode_evaluate resolve right'"]
      1(1) 1(2) [OF l [symmetric]] by (simp add: l r evaluate_logical)
next
  case (2 source predicate label stats)
  show ?case
  proof (cases "bp_set predicate \<noteq> [] \<or> bp_operator predicate \<noteq> PredicateContainAll \<and> bp_operator predicate \<noteq> PredicateContainAny")
    case True
    then show ?thesis using 2 by (simp add: Let_def)
  next
    case False
    obtain v where v: "resolve_source resolve source = Inr v" "BoundPredicate_Evaluate predicate v = Inr t"
      using 2 by (auto split: sum.splits)
    then show ?thesis
      using False by (cases "bp_operator predicate = PredicateContainAll"; cases "bp_negated predicate")
        (auto simp: Let_def BoundPredicate_Evaluate_def evaluateContain_def NewNullPredicate_def negated_truth_def truthFromBool_def
          truth_refines_def split: if_splits)
  qed
qed simp

lemma fold_constants_keeps:
  assumes "planNode_evaluate resolve (logicalPlanNode operator left right) = Inr t"
  shows "planNode_evaluate resolve (fst (fold_constants operator left right stats)) = Inr t"
proof -
  have c: "is_constant node u \<Longrightarrow> planNode_evaluate resolve node = Inr u" for node u by (simp add: is_constant_def)
  obtain l where "planNode_evaluate resolve left = Inr l"
    using assms by (cases "planNode_evaluate resolve left") (auto simp: evaluate_logical short_circuit_def)
  then show ?thesis
    using assms c [of left] c [of right]
    by (cases operator; cases l; cases "planNode_evaluate resolve right")
       (auto simp: fold_constants_def Let_def evaluate_logical short_circuit_def split: if_splits)
qed

lemma optimizePlan_keeps:
  "planNode_evaluate resolve node = Inr t \<Longrightarrow> planNode_evaluate resolve (fst (optimizePlan node stats)) = Inr t"
proof (induction node stats arbitrary: t rule: optimizePlan.induct)
  case (1 operator left right stats)
  obtain left' stats' where l: "optimizePlan left stats = (left', stats')" by (metis surj_pair)
  obtain right' stats'' where r: "optimizePlan right stats' = (right', stats'')" by (metis surj_pair)
  have "short_circuit operator (planNode_evaluate resolve left') (planNode_evaluate resolve right') = Inr t"
    using 1(1) 1(2) [OF l [symmetric]] 1(3) l r
    by (auto simp: evaluate_logical short_circuit_def split: sum.split_asm if_split_asm)
  then show ?case using fold_constants_keeps [of resolve operator left' right' t] by (simp add: l r evaluate_logical)
qed simp_all

theorem optimize_refines:
  assumes "planNode_evaluate resolve node = Inr t"
  shows "\<exists>u. planNode_evaluate resolve (fst (optimize node stats)) = Inr u \<and> truth_refines t u"
proof -
  obtain node' stats' where r: "rewriteBoundPlan node stats = (node', stats')" by (metis surj_pair)
  show ?thesis using rewriteBoundPlan_refines [OF assms, of stats] optimizePlan_keeps by (auto simp: optimize_def r)
qed

end
