(* ===== verification/Bitmap.thy ===== *)
theory Bitmap
  imports Zvec_Prelude
begin

text \<open>
  The compressed bitmap of \<open>internal/ailego/bitmap.go\<close>, a lock and a word count around a 64-bit Roaring bitmap.  The
  Roaring library is a parameter: a record of the operations the code calls, with \<open>roaring_ok\<close> for what its
  documentation says of them.  A bitmap here is a value, so \<open>Clone\<close> is the bitmap itself; the tests of the code for an
  argument that is the receiver only avoid locking it twice, since union and intersection with itself change nothing
  and the difference with itself is empty.
\<close>

section \<open>The library\<close>

record 'b roaring =
  r_New :: 'b
  r_CheckedAdd :: "u64 \<Rightarrow> 'b \<Rightarrow> bool \<times> 'b"
  r_CheckedRemove :: "u64 \<Rightarrow> 'b \<Rightarrow> bool \<times> 'b"
  r_Contains :: "u64 \<Rightarrow> 'b \<Rightarrow> bool"
  r_GetCardinality :: "'b \<Rightarrow> u64"
  r_IsEmpty :: "'b \<Rightarrow> bool"
  r_Maximum :: "'b \<Rightarrow> u64"
  r_Iterator :: "'b \<Rightarrow> u64 list"
  r_Or :: "'b \<Rightarrow> 'b \<Rightarrow> 'b"
  r_And :: "'b \<Rightarrow> 'b \<Rightarrow> 'b"
  r_AndNot :: "'b \<Rightarrow> 'b \<Rightarrow> 'b"

text \<open>The iterator gives the members in ascending order; the other operations are those of the set of members.\<close>

definition members :: "'b roaring \<Rightarrow> 'b \<Rightarrow> u64 set" where
  "members R b = set (r_Iterator R b)"

definition roaring_ok :: "'b roaring \<Rightarrow> bool" where
  "roaring_ok R \<longleftrightarrow>
     members R (r_New R) = {}
   \<and> (\<forall>b. sorted (r_Iterator R b) \<and> distinct (r_Iterator R b))
   \<and> (\<forall>x b. fst (r_CheckedAdd R x b) = (x \<notin> members R b) \<and> members R (snd (r_CheckedAdd R x b)) = insert x (members R b))
   \<and> (\<forall>x b. fst (r_CheckedRemove R x b) = (x \<in> members R b) \<and> members R (snd (r_CheckedRemove R x b)) = members R b - {x})
   \<and> (\<forall>x b. r_Contains R x b = (x \<in> members R b))
   \<and> (\<forall>b. r_GetCardinality R b = word_of_nat (card (members R b)))
   \<and> (\<forall>b. r_IsEmpty R b = (members R b = {}))
   \<and> (\<forall>b. members R b \<noteq> {} \<longrightarrow> r_Maximum R b = Max (members R b))
   \<and> (\<forall>b c. members R (r_Or R b c) = members R b \<union> members R c)
   \<and> (\<forall>b c. members R (r_And R b c) = members R b \<inter> members R c)
   \<and> (\<forall>b c. members R (r_AndNot R b c) = members R b - members R c)"

section \<open>Bitmaps\<close>

record 'b Bitmap =
  bm_bitmap :: 'b
  bm_logicalWords :: nat

definition wordsForBits :: "u64 \<Rightarrow> nat" where
  "wordsForBits bitCount = (if bitCount = 0 then 0 else (unat bitCount - 1) div 64 + 1)"

text \<open>A word index is below \<open>2 ^ 58\<close>, so neither panic of the code is reached where an \<open>int\<close> has 64 bits.\<close>

definition bitmapWordIndex :: "u64 \<Rightarrow> nat" where
  "bitmapWordIndex n = unat n div 64"

definition NewBitmap :: "'b roaring \<Rightarrow> u64 \<Rightarrow> 'b Bitmap" where
  "NewBitmap R bitCount = \<lparr>bm_bitmap = r_New R, bm_logicalWords = wordsForBits bitCount\<rparr>"

definition Bitmap_Set :: "'b roaring \<Rightarrow> u64 \<Rightarrow> 'b Bitmap \<Rightarrow> bool \<times> 'b Bitmap" where
  "Bitmap_Set R n b = (case r_CheckedAdd R n (bm_bitmap b) of (changed, bitmap) \<Rightarrow>
     (changed, \<lparr>bm_bitmap = bitmap, bm_logicalWords = max (bm_logicalWords b) (bitmapWordIndex n + 1)\<rparr>))"

definition Bitmap_Clear :: "'b roaring \<Rightarrow> u64 \<Rightarrow> 'b Bitmap \<Rightarrow> bool \<times> 'b Bitmap" where
  "Bitmap_Clear R n b = (case r_CheckedRemove R n (bm_bitmap b) of (changed, bitmap) \<Rightarrow>
     (changed, b\<lparr>bm_bitmap := bitmap\<rparr>))"

definition Bitmap_Contains :: "'b roaring \<Rightarrow> u64 \<Rightarrow> 'b Bitmap \<Rightarrow> bool" where
  "Bitmap_Contains R n b = r_Contains R n (bm_bitmap b)"

definition Bitmap_Count :: "'b roaring \<Rightarrow> 'b Bitmap \<Rightarrow> u64" where
  "Bitmap_Count R b = r_GetCardinality R (bm_bitmap b)"

text \<open>The words of a snapshot; a bit outside them would be an index out of range, which \<open>None\<close> stands for.\<close>

fun set_bits :: "u64 list \<Rightarrow> u64 list \<Rightarrow> u64 list option" where
  "set_bits words [] = Some words"
| "set_bits words (n # rest) =
     (let i = bitmapWordIndex n in
      if i < length words then set_bits (words[i := or (words ! i) (push_bit (unat (and n 63)) 1)]) rest else None)"

definition snapshotWords :: "'b roaring \<Rightarrow> 'b Bitmap \<Rightarrow> nat \<Rightarrow> u64 list option" where
  "snapshotWords R b wordCount =
     (if wordCount = 0 then Some [] else set_bits (replicate wordCount 0) (r_Iterator R (bm_bitmap b)))"

definition Bitmap_Snapshot :: "'b roaring \<Rightarrow> 'b Bitmap \<Rightarrow> u64 list option" where
  "Bitmap_Snapshot R b = snapshotWords R b (bm_logicalWords b)"

text \<open>The outer option is the Boolean the code returns beside the words.\<close>

definition Bitmap_SnapshotWithin :: "'b roaring \<Rightarrow> 'b Bitmap \<Rightarrow> u64 \<Rightarrow> u64 list option option" where
  "Bitmap_SnapshotWithin R b bitCount =
     (if \<not> r_IsEmpty R (bm_bitmap b) \<and> (bitCount = 0 \<or> bitCount \<le> r_Maximum R (bm_bitmap b)) then None
      else Some (snapshotWords R b (min (bm_logicalWords b) (wordsForBits bitCount))))"

definition Bitmap_Or :: "'b roaring \<Rightarrow> 'b Bitmap \<Rightarrow> 'b Bitmap option \<Rightarrow> 'b Bitmap" where
  "Bitmap_Or R b other = (case other of
     None \<Rightarrow> b
   | Some c \<Rightarrow> \<lparr>bm_bitmap = r_Or R (bm_bitmap b) (bm_bitmap c), bm_logicalWords = max (bm_logicalWords b) (bm_logicalWords c)\<rparr>)"

definition Bitmap_And :: "'b roaring \<Rightarrow> 'b Bitmap \<Rightarrow> 'b Bitmap option \<Rightarrow> 'b Bitmap" where
  "Bitmap_And R b other = (case other of
     None \<Rightarrow> b\<lparr>bm_bitmap := r_New R\<rparr>
   | Some c \<Rightarrow> b\<lparr>bm_bitmap := r_And R (bm_bitmap b) (bm_bitmap c)\<rparr>)"

definition Bitmap_AndNot :: "'b roaring \<Rightarrow> 'b Bitmap \<Rightarrow> 'b Bitmap option \<Rightarrow> 'b Bitmap" where
  "Bitmap_AndNot R b other = (case other of
     None \<Rightarrow> b
   | Some c \<Rightarrow> b\<lparr>bm_bitmap := r_AndNot R (bm_bitmap b) (bm_bitmap c)\<rparr>)"

text \<open>\<open>Range\<close> with a callback that returns an updated state and whether to go on.\<close>

fun Bitmap_Range_loop :: "(u64 \<Rightarrow> 's \<Rightarrow> bool \<times> 's) \<Rightarrow> u64 list \<Rightarrow> 's \<Rightarrow> 's" where
  "Bitmap_Range_loop yield [] s = s"
| "Bitmap_Range_loop yield (n # rest) s = (case yield n s of (continue, s) \<Rightarrow> if continue then Bitmap_Range_loop yield rest s else s)"

definition Bitmap_Range :: "'b roaring \<Rightarrow> 'b Bitmap \<Rightarrow> (u64 \<Rightarrow> 's \<Rightarrow> bool \<times> 's) \<Rightarrow> 's \<Rightarrow> 's" where
  "Bitmap_Range R b yield s = Bitmap_Range_loop yield (r_Iterator R (bm_bitmap b)) s"

section \<open>Bitmaps as sets\<close>

definition bits_of :: "'b roaring \<Rightarrow> 'b Bitmap \<Rightarrow> u64 set" where
  "bits_of R b = members R (bm_bitmap b)"

lemma bitmap_New: "roaring_ok R \<Longrightarrow> bits_of R (NewBitmap R n) = {}"
  by (simp add: roaring_ok_def bits_of_def NewBitmap_def)

lemma bitmap_Set:
  "roaring_ok R \<Longrightarrow> bits_of R (snd (Bitmap_Set R n b)) = insert n (bits_of R b)"
  "roaring_ok R \<Longrightarrow> fst (Bitmap_Set R n b) \<longleftrightarrow> n \<notin> bits_of R b"
  by (simp_all add: roaring_ok_def bits_of_def Bitmap_Set_def split: prod.split) (metis fst_conv snd_conv)+

lemma bitmap_Clear:
  "roaring_ok R \<Longrightarrow> bits_of R (snd (Bitmap_Clear R n b)) = bits_of R b - {n}"
  "roaring_ok R \<Longrightarrow> fst (Bitmap_Clear R n b) \<longleftrightarrow> n \<in> bits_of R b"
  by (simp_all add: roaring_ok_def bits_of_def Bitmap_Clear_def split: prod.split) (metis fst_conv snd_conv)+

lemma bitmap_Contains: "roaring_ok R \<Longrightarrow> Bitmap_Contains R n b \<longleftrightarrow> n \<in> bits_of R b"
  by (simp add: roaring_ok_def bits_of_def Bitmap_Contains_def)

lemma bitmap_Or: "roaring_ok R \<Longrightarrow> bits_of R (Bitmap_Or R b (Some c)) = bits_of R b \<union> bits_of R c"
  by (simp add: roaring_ok_def bits_of_def Bitmap_Or_def)

lemma bitmap_And: "roaring_ok R \<Longrightarrow> bits_of R (Bitmap_And R b (Some c)) = bits_of R b \<inter> bits_of R c"
  by (simp add: roaring_ok_def bits_of_def Bitmap_And_def)

lemma bitmap_AndNot: "roaring_ok R \<Longrightarrow> bits_of R (Bitmap_AndNot R b (Some c)) = bits_of R b - bits_of R c"
  by (simp add: roaring_ok_def bits_of_def Bitmap_AndNot_def)

lemma bitmap_nil: "roaring_ok R \<Longrightarrow> bits_of R (Bitmap_And R b None) = {}"
  by (simp add: roaring_ok_def bits_of_def Bitmap_And_def)

lemma bitmap_none [simp]: "Bitmap_Or R b None = b" "Bitmap_AndNot R b None = b"
  by (simp_all add: Bitmap_Or_def Bitmap_AndNot_def)

lemmas bitmap_sets = bitmap_New bitmap_Set bitmap_Clear bitmap_Contains bitmap_Or bitmap_And bitmap_AndNot bitmap_nil

section \<open>Snapshots\<close>

text \<open>The words cover every bit that was ever set.\<close>

definition bitmap_wf :: "'b roaring \<Rightarrow> 'b Bitmap \<Rightarrow> bool" where
  "bitmap_wf R b \<longleftrightarrow> (\<forall>n \<in> bits_of R b. bitmapWordIndex n < bm_logicalWords b)"

lemma bitmap_wf_ops:
  assumes "roaring_ok R"
  shows "bitmap_wf R (NewBitmap R n)"
    "bitmap_wf R b \<Longrightarrow> bitmap_wf R (snd (Bitmap_Set R n b))"
    "bitmap_wf R b \<Longrightarrow> bitmap_wf R (snd (Bitmap_Clear R n b))"
    "bitmap_wf R b \<Longrightarrow> bitmap_wf R c \<Longrightarrow> bitmap_wf R (Bitmap_Or R b (Some c))"
    "bitmap_wf R b \<Longrightarrow> bitmap_wf R (Bitmap_And R b other)"
    "bitmap_wf R b \<Longrightarrow> bitmap_wf R (Bitmap_AndNot R b other)"
proof -
  have w: "bm_logicalWords (snd (Bitmap_Set R n b)) = max (bm_logicalWords b) (bitmapWordIndex n + 1)"
    "bm_logicalWords (snd (Bitmap_Clear R n b)) = bm_logicalWords b"
    by (simp_all add: Bitmap_Set_def Bitmap_Clear_def split: prod.split)
  show "bitmap_wf R (NewBitmap R n)" by (simp add: bitmap_wf_def bitmap_sets [OF assms])
  show "bitmap_wf R b \<Longrightarrow> bitmap_wf R (snd (Bitmap_Set R n b))" "bitmap_wf R b \<Longrightarrow> bitmap_wf R (snd (Bitmap_Clear R n b))"
    by (auto simp: bitmap_wf_def bitmap_sets [OF assms] w)
  show "bitmap_wf R b \<Longrightarrow> bitmap_wf R c \<Longrightarrow> bitmap_wf R (Bitmap_Or R b (Some c))"
    by (auto simp: bitmap_wf_def bitmap_Or [OF assms]) (auto simp: Bitmap_Or_def)
  show "bitmap_wf R b \<Longrightarrow> bitmap_wf R (Bitmap_And R b other)" "bitmap_wf R b \<Longrightarrow> bitmap_wf R (Bitmap_AndNot R b other)"
    by (cases other; force simp: bitmap_wf_def bitmap_sets [OF assms] Bitmap_And_def Bitmap_AndNot_def bits_of_def
        assms [unfolded roaring_ok_def])+
qed

text \<open>The bits of a list of words.\<close>

definition words_bits :: "u64 list \<Rightarrow> u64 set" where
  "words_bits ws = {n. bitmapWordIndex n < length ws \<and> bit (ws ! bitmapWordIndex n) (unat n mod 64)}"

lemma and_63: "unat (and (n :: u64) 63) = unat n mod 64"
proof -
  have "and n 63 = take_bit 6 n" by (simp add: take_bit_eq_mask mask_eq_exp_minus_1)
  then show ?thesis by (simp add: take_bit_eq_mod unat_mod)
qed

lemma same_bit: "bitmapWordIndex m = bitmapWordIndex n \<Longrightarrow> unat m mod 64 = unat n mod 64 \<Longrightarrow> m = n"
  unfolding bitmapWordIndex_def by (metis div_mult_mod_eq word_unat_eq_iff)

lemma set_bits_bits:
  "\<forall>n \<in> set ns. bitmapWordIndex n < length ws \<Longrightarrow>
   \<exists>ws'. set_bits ws ns = Some ws' \<and> length ws' = length ws \<and> words_bits ws' = words_bits ws \<union> set ns"
proof (induction ns arbitrary: ws)
  case (Cons n ns)
  let ?i = "bitmapWordIndex n"
  let ?ws = "ws[?i := or (ws ! ?i) (push_bit (unat (and n 63)) 1)]"
  have i: "?i < length ws" using Cons.prems by simp
  have b: "bit (or (ws ! ?i) (push_bit (unat (and n 63)) 1)) (unat m mod 64) \<longleftrightarrow> bit (ws ! ?i) (unat m mod 64) \<or> unat m mod 64 = unat n mod 64" for m
    by (auto simp: bit_or_iff bit_exp_iff and_63)
  have "words_bits ?ws = insert n (words_bits ws)"
  proof (rule set_eqI)
    fix m
    show "m \<in> words_bits ?ws \<longleftrightarrow> m \<in> insert n (words_bits ws)"
      using i b [of m] same_bit [of m n] by (cases "bitmapWordIndex m = ?i") (auto simp: words_bits_def)
  qed
  moreover obtain ws' where "set_bits ?ws ns = Some ws'" "length ws' = length ?ws" "words_bits ws' = words_bits ?ws \<union> set ns"
    using Cons.IH [of ?ws] Cons.prems by auto
  ultimately show ?case using i by (simp add: Let_def)
qed simp

theorem Bitmap_Snapshot_bits:
  assumes "bitmap_wf R b"
  obtains ws where "Bitmap_Snapshot R b = Some ws" "length ws = bm_logicalWords b" "words_bits ws = bits_of R b"
proof (cases "bm_logicalWords b = 0")
  case True
  then show thesis using assms that [of "[]"] by (auto simp: Bitmap_Snapshot_def snapshotWords_def bitmap_wf_def words_bits_def)
next
  case False
  have "\<forall>n \<in> set (r_Iterator R (bm_bitmap b)). bitmapWordIndex n < length (replicate (bm_logicalWords b) (0 :: u64))"
    using assms by (simp add: bitmap_wf_def bits_of_def members_def)
  moreover have "words_bits (replicate (bm_logicalWords b) 0) = {}" by (auto simp: words_bits_def)
  ultimately show thesis using set_bits_bits that False by (fastforce simp: Bitmap_Snapshot_def snapshotWords_def bits_of_def members_def)
qed

end
