(* ===== verification/Sql_Inverted.thy ===== *)
theory Sql_Inverted
  imports Sql_Plan Bitmap
begin

text \<open>
  The inverted index of a field, \<open>internal/db/sql/inverted.go\<close>.  A Go map is an association list; the results do not depend on its order.  The bits of a finite float
  other than zero determine its value and zero has the bits of the positive one, so a key holds the value.
\<close>

section \<open>Keys\<close>

record scalarKey =
  sk_kind :: ValueKind
  sk_text :: bytes
  sk_boolean :: bool
  sk_signed :: u64
  sk_unsigned :: u64
  sk_bits :: rat

definition zero_key :: "ValueKind \<Rightarrow> scalarKey" where
  "zero_key kind = \<lparr>sk_kind = kind, sk_text = [], sk_boolean = False, sk_signed = 0, sk_unsigned = 0, sk_bits = 0\<rparr>"

definition keyFromValue :: "Value \<Rightarrow> scalarKey" where
  "keyFromValue v = (let key = zero_key (v_kind v) in case v_kind v of
     ValueBinary \<Rightarrow> key\<lparr>sk_text := v_binary v\<rparr>
   | ValueString \<Rightarrow> key\<lparr>sk_text := v_text v\<rparr>
   | ValueBool \<Rightarrow> key\<lparr>sk_boolean := v_boolean v\<rparr>
   | ValueInt32 \<Rightarrow> key\<lparr>sk_signed := v_signed v\<rparr>
   | ValueInt64 \<Rightarrow> key\<lparr>sk_signed := v_signed v\<rparr>
   | ValueUint32 \<Rightarrow> key\<lparr>sk_unsigned := v_unsigned v\<rparr>
   | ValueUint64 \<Rightarrow> key\<lparr>sk_unsigned := v_unsigned v\<rparr>
   | ValueFloat32 \<Rightarrow> key\<lparr>sk_bits := v_number v\<rparr>
   | ValueFloat64 \<Rightarrow> key\<lparr>sk_bits := v_number v\<rparr>
   | ValueInvalid \<Rightarrow> key)"

definition float_value :: "Value sql_result \<Rightarrow> Value" where
  "float_value r = (case r of Inl err \<Rightarrow> zero_value | Inr v \<Rightarrow> v)"

definition scalarKey_value :: "scalarKey \<Rightarrow> Value" where
  "scalarKey_value k = (case sk_kind k of
     ValueBinary \<Rightarrow> BinaryValue (sk_text k)
   | ValueString \<Rightarrow> StringValue (sk_text k)
   | ValueBool \<Rightarrow> BoolValue (sk_boolean k)
   | ValueInt32 \<Rightarrow> Int32Value (ucast (sk_signed k))
   | ValueInt64 \<Rightarrow> Int64Value (sk_signed k)
   | ValueUint32 \<Rightarrow> Uint32Value (ucast (sk_unsigned k))
   | ValueUint64 \<Rightarrow> Uint64Value (sk_unsigned k)
   | ValueFloat32 \<Rightarrow> float_value (Float32Value (Finite (sk_bits k)))
   | ValueFloat64 \<Rightarrow> float_value (Float64Value (Finite (sk_bits k)))
   | ValueInvalid \<Rightarrow> zero_value)"

section \<open>The index\<close>

datatype InvertedStrategy =
  InvertedExact | InvertedPostingUnion | InvertedSortedRange | InvertedTermScan | InvertedPrefix | InvertedSuffix
| InvertedPrefixSuffix | InvertedNull | InvertedArrayLength

text \<open>\<open>None\<close>: not supported; the planner evaluates the predicate forward.\<close>

record 'b InvertedResult =
  ir_Bitmap :: "'b Bitmap"
  ir_Strategy :: InvertedStrategy
  ir_Terms :: nat

record 'b InvertedIndex =
  ix_field :: Field
  ix_sealed :: bool
  ix_rows :: "'b Bitmap"
  ix_nulls :: "'b Bitmap"
  ix_nonNull :: "'b Bitmap"
  ix_postings :: "(scalarKey \<times> 'b Bitmap) list"
  ix_ordered :: "scalarKey list"
  ix_arrayLength :: "(u32 \<times> 'b Bitmap) list"
  ix_lengths :: "u32 list"

definition NewInvertedIndex :: "'b roaring \<Rightarrow> Field \<Rightarrow> 'b InvertedIndex sql_result" where
  "NewInvertedIndex R field =
     (if \<not> f_Filterable field \<or> \<not> f_Indexed field \<or> \<not> kind_valid (f_Kind field)
        then Inl (SqlError ''not a valid inverted-index field'')
      else Inr \<lparr>ix_field = field, ix_sealed = False, ix_rows = NewBitmap R 0, ix_nulls = NewBitmap R 0, ix_nonNull = NewBitmap R 0,
        ix_postings = [], ix_ordered = [], ix_arrayLength = [], ix_lengths = []\<rparr>)"

text \<open>A posting with one more row, new if the map has none: \<open>addPosting\<close>, and the same code for array lengths.\<close>

definition add_row :: "'b roaring \<Rightarrow> 'k \<Rightarrow> u64 \<Rightarrow> ('k \<times> 'b Bitmap) list \<Rightarrow> ('k \<times> 'b Bitmap) list" where
  "add_row R key row postings =
     (let posting = (case map_of postings key of None \<Rightarrow> NewBitmap R 0 | Some posting \<Rightarrow> posting) in
      AList.update key (snd (Bitmap_Set R row posting)) postings)"

fun add_elements :: "'b roaring \<Rightarrow> u64 \<Rightarrow> Value list \<Rightarrow> scalarKey set \<Rightarrow> (scalarKey \<times> 'b Bitmap) list \<Rightarrow> (scalarKey \<times> 'b Bitmap) list" where
  "add_elements R row [] seen postings = postings"
| "add_elements R row (element # rest) seen postings =
     (let key = keyFromValue element in
      if key \<in> seen then add_elements R row rest seen postings
      else add_elements R row rest (insert key seen) (add_row R key row postings))"

definition InvertedIndex_Add :: "'b roaring \<Rightarrow> 'b InvertedIndex \<Rightarrow> u64 \<Rightarrow> Value \<Rightarrow> 'b InvertedIndex sql_result" where
  "InvertedIndex_Add R i row v =
     (if ix_sealed i then Inl (SqlError ''inverted index is sealed'')
      else if Bitmap_Contains R row (ix_rows i) then Inl (SqlError ''inverted index row already exists'')
      else if v_kind v \<noteq> f_Kind (ix_field i) \<or> v_array v \<noteq> f_Array (ix_field i) \<or> \<not> kind_valid (v_kind v)
        then Inl (SqlError ''inverted index received a value of another type'')
      else if v_kind v = ValueString \<and> \<not> v_null v \<and>
          (\<not> v_array v \<and> \<not> utf8_valid (v_text v) \<or> (\<exists>element \<in> set (v_elements v). \<not> utf8_valid (v_text element)))
        then Inl (SqlError ''inverted index received invalid UTF-8'')
      else
        let i = i\<lparr>ix_rows := snd (Bitmap_Set R row (ix_rows i))\<rparr> in
        if v_null v then Inr (i\<lparr>ix_nulls := snd (Bitmap_Set R row (ix_nulls i))\<rparr>)
        else
          let i = i\<lparr>ix_nonNull := snd (Bitmap_Set R row (ix_nonNull i))\<rparr> in
          if v_array v then
            Inr (i\<lparr>ix_arrayLength := add_row R (word_of_nat (length (v_elements v))) row (ix_arrayLength i),
                   ix_postings := add_elements R row (v_elements v) {} (ix_postings i)\<rparr>)
          else Inr (i\<lparr>ix_postings := add_row R (keyFromValue v) row (ix_postings i)\<rparr>))"

text \<open>\<open>sort.Slice\<close>, as an insertion sort.\<close>

fun sorted_insert :: "('a \<Rightarrow> 'a \<Rightarrow> bool) \<Rightarrow> 'a \<Rightarrow> 'a list \<Rightarrow> 'a list" where
  "sorted_insert lt x [] = [x]"
| "sorted_insert lt x (y # ys) = (if lt y x then y # sorted_insert lt x ys else x # y # ys)"

definition sort_Slice :: "('a \<Rightarrow> 'a \<Rightarrow> bool) \<Rightarrow> 'a list \<Rightarrow> 'a list" where
  "sort_Slice lt xs = foldr (sorted_insert lt) xs []"

definition key_less :: "scalarKey \<Rightarrow> scalarKey \<Rightarrow> bool" where
  "key_less j k = (case compareValues (scalarKey_value j) (scalarKey_value k) of Inl err \<Rightarrow> False | Inr comparison \<Rightarrow> comparison < 0)"

definition InvertedIndex_Seal :: "'b InvertedIndex \<Rightarrow> 'b InvertedIndex" where
  "InvertedIndex_Seal i =
     (if ix_sealed i then i
      else i\<lparr>ix_ordered := sort_Slice key_less (map fst (ix_postings i)),
             ix_lengths := sort_Slice (<) (map fst (ix_arrayLength i)), ix_sealed := True\<rparr>)"

definition InvertedIndex_RowCount :: "'b roaring \<Rightarrow> 'b InvertedIndex \<Rightarrow> u64" where
  "InvertedIndex_RowCount R i = Bitmap_Count R (ix_rows i)"

section \<open>Searching\<close>

definition validatePredicate :: "'b InvertedIndex \<Rightarrow> BoundPredicate \<Rightarrow> sql_error option" where
  "validatePredicate i p =
     (let operator = bp_operator p; field = ix_field i in
      if operator = PredicateIsNull then None
      else if operator = PredicateLike then
        (if f_Array field \<or> f_Kind field \<noteq> ValueString \<or> bp_like p = None
         then Some (SqlError ''LIKE index search requires a STRING scalar'') else None)
      else if operator = PredicateIn \<and> (f_Array field \<or> bp_set p = [])
        then Some (SqlError ''IN index search requires a non-empty scalar set'')
      else if operator \<in> {PredicateContainAll, PredicateContainAny} \<and> \<not> f_Array field
        then Some (SqlError ''contain index search requires an array field'')
      else if operator \<in> comparison_operators \<and> (f_Array field \<or> v_null (bp_right p) \<or> v_array (bp_right p))
        then Some (SqlError ''comparison index search requires a scalar field and value'')
      else if bp_set p \<noteq> [] \<and> v_kind (hd (bp_set p)) \<noteq> f_Kind field then Some (SqlError ''predicate kind'')
      else if operator \<in> comparison_operators \<and> v_kind (bp_right p) \<noteq> f_Kind field then Some (SqlError ''predicate kind'')
      else None)"

definition supportedBitmap :: "'b Bitmap \<Rightarrow> InvertedStrategy \<Rightarrow> nat \<Rightarrow> 'b InvertedResult option" where
  "supportedBitmap bitmap strategy terms = Some \<lparr>ir_Bitmap = bitmap, ir_Strategy = strategy, ir_Terms = terms\<rparr>"

definition index_posting :: "'b roaring \<Rightarrow> 'b InvertedIndex \<Rightarrow> Value \<Rightarrow> 'b Bitmap" where
  "index_posting R i v = (case map_of (ix_postings i) (keyFromValue v) of None \<Rightarrow> NewBitmap R 0 | Some posting \<Rightarrow> posting)"

definition unionValues :: "'b roaring \<Rightarrow> 'b InvertedIndex \<Rightarrow> Value list \<Rightarrow> 'b Bitmap" where
  "unionValues R i values = foldl (\<lambda>bitmap v. Bitmap_Or R bitmap (map_of (ix_postings i) (keyFromValue v))) (NewBitmap R 0) values"

fun contain_loop :: "'b roaring \<Rightarrow> 'b InvertedIndex \<Rightarrow> Value list \<Rightarrow> 'b Bitmap \<Rightarrow> 'b Bitmap" where
  "contain_loop R i [] bitmap = bitmap"
| "contain_loop R i (v # rest) bitmap =
     (case map_of (ix_postings i) (keyFromValue v) of
        None \<Rightarrow> Bitmap_And R bitmap None
      | Some posting \<Rightarrow> contain_loop R i rest (Bitmap_And R bitmap (Some posting)))"

definition searchContain :: "'b roaring \<Rightarrow> 'b InvertedIndex \<Rightarrow> BoundPredicate \<Rightarrow> 'b Bitmap" where
  "searchContain R i p =
     (let bitmap = (if bp_operator p = PredicateContainAll then contain_loop R i (bp_set p) (ix_nonNull i)
                    else unionValues R i (bp_set p)) in
      if bp_negated p then Bitmap_AndNot R (ix_nonNull i) (Some bitmap) else bitmap)"

text \<open>\<open>sort.Search\<close> over a test that may fail; a failure counts as true and the last one is kept.\<close>

function search_loop :: "(nat \<Rightarrow> bool sql_result) \<Rightarrow> nat \<Rightarrow> nat \<Rightarrow> sql_error option \<Rightarrow> nat \<times> sql_error option" where
  "search_loop f i j err =
     (if i < j then
        let h = (i + j) div 2 in
        case f h of
          Inl e \<Rightarrow> search_loop f i h (Some e)
        | Inr b \<Rightarrow> if \<not> b then search_loop f (h + 1) j err else search_loop f i h err
      else (i, err))"
  by pat_completeness auto
termination
  by (relation "measure (\<lambda>(f, i, j, err). j - i)") auto

declare search_loop.simps [simp del]

definition sort_Search :: "nat \<Rightarrow> (nat \<Rightarrow> bool sql_result) \<Rightarrow> nat \<times> sql_error option" where
  "sort_Search n f = search_loop f 0 n None"

definition key_test :: "'b InvertedIndex \<Rightarrow> Value \<Rightarrow> (int \<Rightarrow> bool) \<Rightarrow> nat \<Rightarrow> bool sql_result" where
  "key_test i target test index = (case compareValues (scalarKey_value (ix_ordered i ! index)) target of
     Inl err \<Rightarrow> Inl err | Inr comparison \<Rightarrow> Inr (test comparison))"

definition operator_bounds :: "PredicateOperator \<Rightarrow> nat \<Rightarrow> nat \<Rightarrow> nat \<Rightarrow> (nat \<times> nat) option" where
  "operator_bounds operator lower upper n = (case operator of
     PredicateEQ \<Rightarrow> Some (lower, upper)
   | PredicateLT \<Rightarrow> Some (0, lower)
   | PredicateLE \<Rightarrow> Some (0, upper)
   | PredicateGT \<Rightarrow> Some (upper, n)
   | PredicateGE \<Rightarrow> Some (lower, n)
   | _ \<Rightarrow> None)"

definition orderedBounds :: "'b InvertedIndex \<Rightarrow> Value \<Rightarrow> PredicateOperator \<Rightarrow> (nat \<times> nat) sql_result" where
  "orderedBounds i target operator =
     (let n = length (ix_ordered i) in
      case sort_Search n (key_test i target (\<lambda>c. 0 \<le> c)) of (lower, err) \<Rightarrow>
      case err of Some e \<Rightarrow> Inl e | None \<Rightarrow>
      case sort_Search n (key_test i target (\<lambda>c. 0 < c)) of (upper, err) \<Rightarrow>
      case err of Some e \<Rightarrow> Inl e | None \<Rightarrow>
      case operator_bounds operator lower upper n of
        None \<Rightarrow> Inl (SqlError ''ordered bounds do not support the operator'')
      | Some bounds \<Rightarrow> Inr bounds)"

definition orderedUint32Bounds :: "u32 list \<Rightarrow> u32 \<Rightarrow> PredicateOperator \<Rightarrow> nat \<times> nat" where
  "orderedUint32Bounds values target operator =
     (let lower = fst (sort_Search (length values) (\<lambda>index. Inr (target \<le> values ! index)));
          upper = fst (sort_Search (length values) (\<lambda>index. Inr (target < values ! index))) in
      case operator_bounds operator lower upper (length values) of None \<Rightarrow> (0, 0) | Some bounds \<Rightarrow> bounds)"

text \<open>The scan over all terms.\<close>

fun term_scan :: "'b roaring \<Rightarrow> Value \<Rightarrow> PredicateOperator \<Rightarrow> (scalarKey \<times> 'b Bitmap) list \<Rightarrow> 'b Bitmap \<Rightarrow> nat \<Rightarrow> ('b Bitmap \<times> nat) sql_result" where
  "term_scan R right operator [] bitmap terms = Inr (bitmap, terms)"
| "term_scan R right operator ((key, posting) # rest) bitmap terms =
     (case compareValues (scalarKey_value key) right of
        Inl err \<Rightarrow> Inl err
      | Inr comparison \<Rightarrow>
        if comparison_matches operator comparison then term_scan R right operator rest (Bitmap_Or R bitmap (Some posting)) (terms + 1)
        else term_scan R right operator rest bitmap terms)"

definition union_keys :: "'b roaring \<Rightarrow> ('k \<times> 'b Bitmap) list \<Rightarrow> 'k list \<Rightarrow> 'b Bitmap" where
  "union_keys R postings keys = foldl (\<lambda>bitmap key. Bitmap_Or R bitmap (map_of postings key)) (NewBitmap R 0) keys"

definition searchRange :: "'b roaring \<Rightarrow> 'b InvertedIndex \<Rightarrow> BoundPredicate \<Rightarrow> 'b InvertedResult option sql_result" where
  "searchRange R i p =
     (if f_RangeOptimized (ix_field i) then
        (case orderedBounds i (bp_right p) (bp_operator p) of
           Inl err \<Rightarrow> Inl err
         | Inr (start, stop) \<Rightarrow>
           Inr (supportedBitmap (union_keys R (ix_postings i) (take (stop - start) (drop start (ix_ordered i)))) InvertedSortedRange (stop - start)))
      else
        (case term_scan R (bp_right p) (bp_operator p) (ix_postings i) (NewBitmap R 0) 0 of
           Inl err \<Rightarrow> Inl err
         | Inr (bitmap, terms) \<Rightarrow> Inr (supportedBitmap bitmap InvertedTermScan terms)))"

text \<open>The wildcards of a pattern that no backslash precedes.\<close>

fun unescapedWildcardCounts :: "rune list \<Rightarrow> nat \<times> nat" where
  "unescapedWildcardCounts [] = (0, 0)"
| "unescapedWildcardCounts (c # rest) =
     (if c = [0x5C] \<and> rest \<noteq> [] then unescapedWildcardCounts (tl rest)
      else case unescapedWildcardCounts rest of (percents, underscores) \<Rightarrow>
        (if c = [0x25] then percents + 1 else percents, if c = [0x5F] then underscores + 1 else underscores))"

fun percent_loop :: "rune list \<Rightarrow> bytes \<Rightarrow> bytes \<Rightarrow> bool \<Rightarrow> (bytes \<times> bytes \<times> bool) option" where
  "percent_loop [] before behind seenPercent = Some (before, behind, seenPercent)"
| "percent_loop (c # rest) before behind seenPercent =
     (if c = [0x5C] \<and> rest \<noteq> [] then
        (if seenPercent then percent_loop (tl rest) before (behind @ hd rest) seenPercent
         else percent_loop (tl rest) (before @ hd rest) behind seenPercent)
      else if c = [0x5F] \<or> c = [0x25] \<and> seenPercent then None
      else if c = [0x25] then percent_loop rest before behind True
      else if seenPercent then percent_loop rest before (behind @ c) seenPercent
      else percent_loop rest (before @ c) behind seenPercent)"

definition singlePercentTerms :: "bytes \<Rightarrow> bool" where
  "singlePercentTerms pattern = (case percent_loop (runes pattern) [] [] False of
     None \<Rightarrow> False
   | Some (before, behind, seenPercent) \<Rightarrow> seenPercent \<and> before \<noteq> [] \<and> behind \<noteq> [])"

text \<open>The union of the postings whose text passes a test, with their number: \<open>scanLikeTerms\<close> and \<open>scanStringTerms\<close>.\<close>

definition scan_terms :: "'b roaring \<Rightarrow> 'b InvertedIndex \<Rightarrow> (bytes \<Rightarrow> bool) \<Rightarrow> InvertedStrategy \<Rightarrow> 'b InvertedResult option" where
  "scan_terms R i test strategy =
     (let matching = filter (\<lambda>(key, posting). test (sk_text key)) (ix_postings i) in
      supportedBitmap (foldl (\<lambda>bitmap (key, posting). Bitmap_Or R bitmap (Some posting)) (NewBitmap R 0) matching) strategy (length matching))"

definition scanLikeTerms :: "'b roaring \<Rightarrow> 'b InvertedIndex \<Rightarrow> LikePattern \<Rightarrow> InvertedStrategy \<Rightarrow> 'b InvertedResult option" where
  "scanLikeTerms R i pattern strategy = scan_terms R i (LikePattern_Match pattern) strategy"

definition scanStringTerms :: "'b roaring \<Rightarrow> 'b InvertedIndex \<Rightarrow> bytes \<Rightarrow> bytes \<Rightarrow> InvertedStrategy \<Rightarrow> 'b InvertedResult option" where
  "scanStringTerms R i head tail strategy = scan_terms R i (\<lambda>text. prefix head text \<and> suffix tail text) strategy"

definition searchLike :: "'b roaring \<Rightarrow> 'b InvertedIndex \<Rightarrow> LikePattern option \<Rightarrow> 'b InvertedResult option sql_result" where
  "searchLike R i like = (case like of
     None \<Rightarrow> Inl (SqlError ''LIKE index search requires a STRING scalar'')
   | Some pattern \<Rightarrow>
     if f_Array (ix_field i) \<or> f_Kind (ix_field i) \<noteq> ValueString then Inl (SqlError ''LIKE index search requires a STRING scalar'')
     else case unescapedWildcardCounts (runes (lp_raw pattern)) of (percents, underscores) \<Rightarrow>
     if 1 < percents \<or> 0 < underscores then Inr None
     else case lp_mode pattern of
       LikeExact \<Rightarrow> Inr (supportedBitmap (index_posting R i (StringValue (lp_literal pattern))) InvertedExact 1)
     | LikeAny \<Rightarrow> Inr (supportedBitmap (ix_nonNull i) InvertedPrefix (length (ix_postings i)))
     | LikePrefix \<Rightarrow> Inr (scanStringTerms R i (lp_literal pattern) [] InvertedPrefix)
     | LikeSuffix \<Rightarrow>
         if \<not> f_ExtendedWildcard (ix_field i) then Inr None
         else Inr (scanStringTerms R i [] (lp_literal pattern) InvertedSuffix)
     | LikeGeneral \<Rightarrow>
         if \<not> singlePercentTerms (lp_raw pattern) \<or> \<not> f_ExtendedWildcard (ix_field i) then Inr None
         else Inr (scanLikeTerms R i pattern InvertedPrefixSuffix)
     | LikeContains \<Rightarrow> Inr None)"

definition InvertedIndex_Search :: "'b roaring \<Rightarrow> 'b InvertedIndex \<Rightarrow> BoundPredicate \<Rightarrow> 'b InvertedResult option sql_result" where
  "InvertedIndex_Search R i p =
     (if \<not> ix_sealed i then Inl (SqlError ''inverted index is not sealed'')
      else case validatePredicate i p of
        Some err \<Rightarrow> Inl err
      | None \<Rightarrow>
      case bp_operator p of
        PredicateIsNull \<Rightarrow> Inr (supportedBitmap (if bp_negated p then ix_nonNull i else ix_nulls i) InvertedNull 1)
      | PredicateLike \<Rightarrow> searchLike R i (bp_like p)
      | PredicateIn \<Rightarrow>
          if f_Array (ix_field i) then Inl (SqlError ''IN index search requires a scalar field'')
          else let bitmap = unionValues R i (bp_set p);
                   bitmap = (if bp_negated p then Bitmap_AndNot R (ix_nonNull i) (Some bitmap) else bitmap) in
               Inr (supportedBitmap bitmap InvertedPostingUnion (length (bp_set p)))
      | PredicateContainAll \<Rightarrow>
          if \<not> f_Array (ix_field i) then Inl (SqlError ''contain index search requires an array field'')
          else Inr (supportedBitmap (searchContain R i p) InvertedPostingUnion (length (bp_set p)))
      | PredicateContainAny \<Rightarrow>
          if \<not> f_Array (ix_field i) then Inl (SqlError ''contain index search requires an array field'')
          else Inr (supportedBitmap (searchContain R i p) InvertedPostingUnion (length (bp_set p)))
      | PredicateEQ \<Rightarrow>
          if f_Array (ix_field i) then Inl (SqlError ''scalar comparison index search received an array field'')
          else Inr (supportedBitmap (index_posting R i (bp_right p)) InvertedExact 1)
      | PredicateNE \<Rightarrow>
          if f_Array (ix_field i) then Inl (SqlError ''scalar comparison index search received an array field'')
          else Inr (supportedBitmap (Bitmap_AndNot R (ix_nonNull i) (Some (index_posting R i (bp_right p)))) InvertedExact 1)
      | _ \<Rightarrow>
          if f_Array (ix_field i) then Inl (SqlError ''range index search received an array field'')
          else searchRange R i p)"

definition SearchArrayLength :: "'b roaring \<Rightarrow> 'b InvertedIndex \<Rightarrow> BoundPredicate \<Rightarrow> 'b InvertedResult option sql_result" where
  "SearchArrayLength R i p =
     (if \<not> ix_sealed i \<or> \<not> f_Array (ix_field i) then Inl (SqlError ''array-length search requires a sealed array index'')
      else if v_kind (bp_right p) \<noteq> ValueUint32 \<or> v_null (bp_right p) \<or> v_array (bp_right p)
        then Inl (SqlError ''array-length predicate requires UINT32'')
      else if bp_operator p \<notin> comparison_operators then Inl (SqlError ''array-length search requires a comparison predicate'')
      else let target = ucast (v_unsigned (bp_right p)) :: u32 in
        if bp_operator p = PredicateNE
          then Inr (supportedBitmap (Bitmap_AndNot R (ix_nonNull i) (map_of (ix_arrayLength i) target)) InvertedArrayLength 1)
        else case orderedUint32Bounds (ix_lengths i) target (bp_operator p) of (start, stop) \<Rightarrow>
          Inr (supportedBitmap (union_keys R (ix_arrayLength i) (take (stop - start) (drop start (ix_lengths i)))) InvertedArrayLength (stop - start)))"

end
