(* ===== verification/Sql_Rewrite.thy ===== *)
theory Sql_Rewrite
  imports Sql_Plan
begin

text \<open>
  The rewriting of equalities into sets keeps the meaning of a filter: when the expression as written binds to the
  schema, so does the rewritten one, and where the evaluation of the first gives an answer, that of the second gives
  the same answer.
\<close>

section \<open>Binding without the list of fields\<close>

text \<open>The node an expression is bound to depends on the schema alone.\<close>

definition bind_in :: "Schema \<Rightarrow> Expr \<Rightarrow> planNode sql_result" where
  "bind_in schema e = fst (bindExpression \<lparr>fa_schema = schema, fa_seen = {}, fa_fields = []\<rparr> e)"

lemma requireField_schema [simp]: "fa_schema (snd (requireField a name p)) = fa_schema a"
  by (simp add: requireField_def split: option.split)

lemma bindSource_schema [simp]: "fa_schema (snd (bindSource a e)) = fa_schema a"
proof -
  have r: "requireField a name p = (r, a') \<Longrightarrow> fa_schema a' = fa_schema a" for name p r a'
    using requireField_schema [of a name p] by simp
  show ?thesis
    by (auto simp: bindSource_def dest!: r split: ValueExpr.split prod.split sum.split list.split)
qed

lemma requireField_result: "fa_schema a = fa_schema b \<Longrightarrow> fst (requireField a name p) = fst (requireField b name p)"
  by (simp add: requireField_def split: option.split)

lemma bindSource_result:
  assumes "fa_schema a = fa_schema b"
  shows "fst (bindSource a e) = fst (bindSource b e)"
proof -
  have same: "x = y" if "requireField a name p = (x, a')" "requireField b name p = (y, b')" for name p x y a' b'
    using requireField_result [OF assms, of name p] that by simp
  show ?thesis
    by (cases e) (auto simp: bindSource_def dest: same split: ValueExpr.split prod.split sum.split list.split)
qed

lemma bindPredicate_schema [simp]: "fa_schema (snd (bindPredicate a operator left right negated rng)) = fa_schema a"
  using bindSource_schema [of a left]
  by (auto simp: bindPredicate_def simp del: bindSource_schema split: prod.split sum.split option.split)

lemma bindPredicate_result:
  assumes "fa_schema a = fa_schema b"
  shows "fst (bindPredicate a operator left right negated rng) = fst (bindPredicate b operator left right negated rng)"
proof -
  have same: "x = y" if "bindSource a left = (x, a')" "bindSource b left = (y, b')" for x y a' b'
    using bindSource_result [OF assms, of left] that by simp
  show ?thesis
    by (auto simp: bindPredicate_def dest: same split: prod.split sum.split option.split)
qed

lemma bindExpression_schema [simp]: "fa_schema (snd (bindExpression a e)) = fa_schema a"
proof (induction e arbitrary: a)
  case (LogicalExpr operator left right rng)
  show ?case
    using LogicalExpr.IH(1) [of a] LogicalExpr.IH(2) [of "snd (bindExpression a left)"] by (auto split: prod.split sum.split)
qed simp_all

lemma bindExpression_result: "fa_schema a = fa_schema b \<Longrightarrow> fst (bindExpression a e) = fst (bindExpression b e)"
proof (induction e arbitrary: a b)
  case (LogicalExpr operator left right rng)
  have l: "fst (bindExpression a left) = fst (bindExpression b left)" using LogicalExpr by blast
  have r: "fst (bindExpression (snd (bindExpression a left)) right) = fst (bindExpression (snd (bindExpression b left)) right)"
    by (rule LogicalExpr.IH(2)) (simp add: LogicalExpr.prems)
  show ?case using l r by (auto split: prod.split sum.split)
qed (auto intro: bindPredicate_result)

lemma bindExpression_in: "fst (bindExpression a e) = bind_in (fa_schema a) e"
  unfolding bind_in_def by (rule bindExpression_result) simp

lemma bind_in_logical:
  "bind_in schema (LogicalExpr operator left right rng) =
     (case bind_in schema left of Inl err \<Rightarrow> Inl err | Inr l \<Rightarrow>
      case bind_in schema right of Inl err \<Rightarrow> Inl err | Inr r \<Rightarrow> Inr (logicalPlanNode operator l r))"
proof -
  obtain x a where x: "bindExpression \<lparr>fa_schema = schema, fa_seen = {}, fa_fields = []\<rparr> left = (x, a)" by (metis surj_pair)
  have "fa_schema a = schema" using bindExpression_schema [of "\<lparr>fa_schema = schema, fa_seen = {}, fa_fields = []\<rparr>" left] x by simp
  then have "fst (bindExpression a right) = bind_in schema right" using bindExpression_in [of a right] by simp
  then show ?thesis by (auto simp: bind_in_def [of schema left] bind_in_def [of schema "LogicalExpr _ _ _ _"] x split: sum.split prod.split)
qed

section \<open>Meaning of an expression\<close>

text \<open>\<open>None\<close>: the evaluation fails.\<close>

definition binds :: "Schema \<Rightarrow> Expr \<Rightarrow> bool" where
  "binds schema e \<longleftrightarrow> (\<exists>node. bind_in schema e = Inr node)"

definition result_option :: "'a sql_result \<Rightarrow> 'a option" where
  "result_option r = (case r of Inl err \<Rightarrow> None | Inr x \<Rightarrow> Some x)"

lemma result_option_simps [simp]: "result_option (Inl err) = None" "result_option (Inr x) = Some x"
  by (simp_all add: result_option_def)

definition meaning :: "Schema \<Rightarrow> Resolver \<Rightarrow> Expr \<Rightarrow> Truth option" where
  "meaning schema resolve e =
     (case bind_in schema e of Inl err \<Rightarrow> None | Inr node \<Rightarrow> result_option (planNode_evaluate resolve node))"

definition sc_option :: "LogicalOperator \<Rightarrow> Truth option \<Rightarrow> Truth option \<Rightarrow> Truth option" where
  "sc_option operator x y = (case x of
     None \<Rightarrow> None
   | Some l \<Rightarrow>
     if operator = LogicalAnd \<and> l = TruthFalse then Some TruthFalse
     else if operator = LogicalOr \<and> l = TruthTrue then Some TruthTrue
     else case y of None \<Rightarrow> None | Some r \<Rightarrow> Some (if operator = LogicalAnd then Truth_And l r else Truth_Or l r))"

lemma binds_logical: "binds schema (LogicalExpr operator left right rng) \<longleftrightarrow> binds schema left \<and> binds schema right"
  by (auto simp: binds_def bind_in_logical split: sum.split)

lemma meaning_logical:
  assumes "binds schema left" and "binds schema right"
  shows "meaning schema resolve (LogicalExpr operator left right rng) =
    sc_option operator (meaning schema resolve left) (meaning schema resolve right)"
  using assms
  by (auto simp: meaning_def binds_def bind_in_logical evaluate_logical short_circuit_def sc_option_def result_option_def split: sum.split)

text \<open>One result extends another.\<close>

definition extends :: "'a option \<Rightarrow> 'a option \<Rightarrow> bool" where
  "extends x y \<longleftrightarrow> (\<forall>t. x = Some t \<longrightarrow> y = Some t)"

lemma extends_refl [simp]: "extends x x" by (simp add: extends_def)

lemma extends_trans: "extends x y \<Longrightarrow> extends y z \<Longrightarrow> extends x z" by (simp add: extends_def)

lemma sc_option_mono: "extends x x' \<Longrightarrow> extends y y' \<Longrightarrow> extends (sc_option operator x y) (sc_option operator x' y')"
  by (auto simp: extends_def sc_option_def split: option.split_asm if_split_asm)

abbreviation sor :: "Truth option \<Rightarrow> Truth option \<Rightarrow> Truth option" where
  "sor \<equiv> sc_option LogicalOr"

lemma Truth_Or_assoc: "Truth_Or (Truth_Or a b) c = Truth_Or a (Truth_Or b c)"
  by (cases a; cases b; cases c) (simp_all add: Truth_Or_def)

lemma Truth_Or_true: "Truth_Or a b = TruthTrue \<longleftrightarrow> a = TruthTrue \<or> b = TruthTrue"
  by (cases a; cases b) (simp_all add: Truth_Or_def)

lemma sor_assoc: "sor (sor x y) z = sor x (sor y z)"
  by (auto simp: sc_option_def Truth_Or_assoc Truth_Or_true split: option.split)

lemma sor_False [simp]: "sor (Some TruthFalse) y = y" "sor x (Some TruthFalse) = x"
  by (auto simp: sc_option_def split: option.split)

text \<open>The disjunction of a list.\<close>

definition any_of :: "Truth option list \<Rightarrow> Truth option" where
  "any_of xs = foldr sor xs (Some TruthFalse)"

lemma any_of_simps [simp]: "any_of [] = Some TruthFalse" "any_of (x # xs) = sor x (any_of xs)"
  by (simp_all add: any_of_def)

lemma any_of_append [simp]: "any_of (xs @ ys) = sor (any_of xs) (any_of ys)"
  by (induction xs) (simp_all add: sor_assoc)

lemma any_of_mono: "list_all2 extends xs ys \<Longrightarrow> extends (any_of xs) (any_of ys)"
  by (induction rule: list_all2_induct) (simp_all add: sc_option_mono)

lemma flatten_meaning:
  assumes "binds schema e"
  shows "meaning schema resolve e = any_of (map (meaning schema resolve) (flattenLogical e LogicalOr))"
  using assms
proof (induction e LogicalOr rule: flattenLogical.induct)
  case (1 op left right rng)
  then show ?case by (auto simp: binds_logical meaning_logical simp del: any_of_def)
qed simp_all

lemma flatten_binds: "binds schema e \<longleftrightarrow> (\<forall>t \<in> set (flattenLogical e LogicalOr). binds schema t)"
  by (induction e LogicalOr rule: flattenLogical.induct) (auto simp: binds_logical)

lemma join_meaning:
  "binds schema e \<Longrightarrow> \<forall>t \<in> set es. binds schema t \<Longrightarrow>
   binds schema (foldl (join_step LogicalOr) e es) \<and>
   meaning schema resolve (foldl (join_step LogicalOr) e es) = any_of (map (meaning schema resolve) (e # es))"
proof (induction es arbitrary: e)
  case (Cons x xs)
  have "binds schema (join_step LogicalOr e x)" using Cons.prems by (simp add: join_step_def binds_logical)
  moreover have "meaning schema resolve (join_step LogicalOr e x) = sor (meaning schema resolve e) (meaning schema resolve x)"
    using Cons.prems by (simp add: join_step_def meaning_logical)
  ultimately show ?case using Cons by (simp add: sor_assoc)
qed simp

lemma joinLogical_meaning:
  assumes "es \<noteq> []" and "\<forall>t \<in> set es. binds schema t"
  shows "binds schema (joinLogical es LogicalOr)"
    "meaning schema resolve (joinLogical es LogicalOr) = any_of (map (meaning schema resolve) es)"
  using assms join_meaning [of schema "hd es" "tl es" resolve] by (cases es; simp add: joinLogical_def)+

section \<open>Candidates of a set\<close>

text \<open>A scalar of a kind.\<close>

definition scalar_of :: "ValueKind \<Rightarrow> Value \<Rightarrow> bool" where
  "scalar_of kind v \<longleftrightarrow> \<not> v_null v \<and> \<not> v_array v \<and> v_kind v = kind"

lemma bindLiteral_scalar: "bindLiteral literal kind = Inr v \<Longrightarrow> kind_valid kind \<and> scalar_of kind v"
  by (cases kind)
     (auto simp: bindLiteral_def scalar_of_def kind_valid_def literal_error_def BinaryValue_def StringValue_def BoolValue_def
       Int32Value_def Int64Value_def Uint32Value_def Uint64Value_def Float32Value_def Float64Value_def Let_def
       split: if_split_asm option.split_asm)

lemma bind_values_scalar: "bind_values literals kind = Inr ws \<Longrightarrow> list_all (scalar_of kind) ws \<and> length ws = length literals"
  by (induction literals arbitrary: ws) (auto dest: bindLiteral_scalar split: sum.split_asm)

lemma bind_values_valid: "bind_values literals kind = Inr ws \<Longrightarrow> literals \<noteq> [] \<Longrightarrow> kind_valid kind"
  by (cases literals) (auto dest: bindLiteral_scalar split: sum.split_asm)

lemma bind_values_append:
  "bind_values xs kind = Inr vs \<Longrightarrow> bind_values ys kind = Inr ws \<Longrightarrow> bind_values (xs @ ys) kind = Inr (vs @ ws)"
  by (induction xs arbitrary: vs) (auto split: sum.split_asm)

lemma compareValues_scalars:
  assumes "kind_valid kind" and "scalar_of kind v" and "scalar_of kind w"
  shows "\<exists>c. compareValues v w = Inr c"
  using assms by (cases kind) (simp_all add: compareValues_def scalar_of_def kind_valid_def)

lemma compareValues_other:
  assumes "scalar_of kind w" and "\<not> scalar_of kind v"
  shows "\<exists>err. compareValues v w = Inl err"
  using assms by (auto simp: compareValues_def scalar_of_def)

lemma in_loop_scalars:
  assumes "kind_valid kind" and "scalar_of kind v"
  shows "list_all (scalar_of kind) ws \<Longrightarrow> in_loop v ws = Inr (\<exists>w \<in> set ws. compareValues v w = Inr 0)"
proof (induction ws)
  case (Cons w ws)
  then show ?case using compareValues_scalars [OF assms, of w] by auto
qed simp

lemma in_loop_other:
  assumes "list_all (scalar_of kind) ws" and "ws \<noteq> []" and "\<not> scalar_of kind v"
  shows "\<exists>err. in_loop v ws = Inl err"
  using assms compareValues_other [of kind _ v] by (cases ws) fastforce+

text \<open>The membership of a resolved value in a set of scalars.\<close>

definition set_meaning :: "ValueKind \<Rightarrow> Value list \<Rightarrow> Value sql_result \<Rightarrow> Truth option" where
  "set_meaning kind ws r = (case r of
     Inl err \<Rightarrow> None
   | Inr v \<Rightarrow>
     if \<not> kind_valid (v_kind v) then None
     else if v_null v then Some TruthUnknown
     else if \<not> scalar_of kind v then None
     else Some (truthFromBool (\<exists>w \<in> set ws. compareValues v w = Inr 0)))"

definition set_predicate :: "Value list \<Rightarrow> BoundPredicate" where
  "set_predicate ws = \<lparr>bp_operator = PredicateIn, bp_negated = False, bp_right = zero_value, bp_set = ws, bp_like = None\<rparr>"

lemma set_predicate_meaning:
  assumes "kind_valid kind" and "list_all (scalar_of kind) ws" and "ws \<noteq> []"
  shows "result_option (planNode_evaluate resolve (predicatePlanNode (fieldSource field) (set_predicate ws) label)) =
    set_meaning kind ws (resolve field)"
proof -
  have "result_option (evaluateIn (set_predicate ws) v) =
      (if v_null v then Some TruthUnknown else if \<not> scalar_of kind v then None
       else Some (truthFromBool (\<exists>w \<in> set ws. compareValues v w = Inr 0)))" for v
    using in_loop_scalars [OF assms(1) _ assms(2), of v] in_loop_other [OF assms(2,3), of v]
    by (cases "scalar_of kind v") (auto simp: evaluateIn_def set_predicate_def negated_truth_def result_option_def scalar_of_def)
  then show ?thesis
    by (auto simp: resolve_source_def set_meaning_def BoundPredicate_Evaluate_def result_option_def set_predicate_def split: sum.split)
qed

lemma NewSetPredicate_in:
  assumes "kind_valid kind" and "list_all (scalar_of kind) ws" and "ws \<noteq> []"
  shows "NewSetPredicate PredicateIn False ws = Inr (set_predicate ws)"
proof -
  have "\<forall>v \<in> set ws. \<not> v_null v \<and> \<not> v_array v \<and> v_kind v = kind" using assms(2) by (auto simp: list_all_iff scalar_of_def)
  moreover have "v_kind (hd ws) = kind" using calculation assms(3) by simp
  ultimately show ?thesis using assms by (auto simp: NewSetPredicate_def set_predicate_def)
qed

text \<open>What it takes for a name and literals to be a set on a field of the schema.\<close>

definition set_on :: "Schema \<Rightarrow> bytes \<Rightarrow> LiteralExpr list \<Rightarrow> Field \<Rightarrow> Value list \<Rightarrow> bool" where
  "set_on schema name literals field ws \<longleftrightarrow>
     Schema_Field schema name = Some field \<and> f_Filterable field \<and> \<not> f_Array field
   \<and> bind_values literals (f_Kind field) = Inr ws \<and> literals \<noteq> []"

lemma set_on_append:
  "set_on schema name xs field vs \<Longrightarrow> set_on schema name ys field ws \<Longrightarrow> set_on schema name (xs @ ys) field (vs @ ws)"
  by (simp add: set_on_def bind_values_append)

lemma set_on_field: "set_on schema name xs field vs \<Longrightarrow> set_on schema name ys field' ws \<Longrightarrow> field' = field"
  by (simp add: set_on_def)

lemma set_on_scalars:
  assumes "set_on schema name literals field ws"
  shows "kind_valid (f_Kind field)" "list_all (scalar_of (f_Kind field)) ws" "ws \<noteq> []"
proof -
  have b: "bind_values literals (f_Kind field) = Inr ws" "literals \<noteq> []" using assms by (simp_all add: set_on_def)
  show "kind_valid (f_Kind field)" by (rule bind_values_valid [OF b])
  show "list_all (scalar_of (f_Kind field)) ws" using bind_values_scalar [OF b(1)] by simp
  show "ws \<noteq> []" using bind_values_scalar [OF b(1)] b(2) by auto
qed

lemma bindSource_identifier:
  "fst (bindSource \<lparr>fa_schema = schema, fa_seen = {}, fa_fields = []\<rparr> (IdentifierExpr name rng)) =
     (case Schema_Field schema name of
        None \<Rightarrow> Inl (AnalysisError (span_Start rng) ''field does not exist in schema'')
      | Some field \<Rightarrow>
        if \<not> f_Filterable field then Inl (AnalysisError (span_Start rng) ''field cannot be used in scalar filters'')
        else Inr (fieldSource field, field))"
  by (simp add: bindSource_def requireField_def split: option.split)

lemma bind_in_predicate:
  assumes "Schema_Field schema name = Some field" and "f_Filterable field"
  shows "bind_in schema (PredicateExpr operator (IdentifierExpr name rng) right negated rng') =
    (case operator_error (fieldSource field) field operator of
       Some msg \<Rightarrow> Inl (AnalysisError (span_Start rng') msg)
     | None \<Rightarrow>
     case bind_operator field operator negated right rng' of
       Inl err \<Rightarrow> Inl err
     | Inr predicate \<Rightarrow> Inr (predicatePlanNode (fieldSource field) predicate
         (Format (PredicateExpr operator (IdentifierExpr name rng) right negated rng'))))"
proof -
  obtain a where "bindSource \<lparr>fa_schema = schema, fa_seen = {}, fa_fields = []\<rparr> (IdentifierExpr name rng) = (Inr (fieldSource field, field), a)"
    using bindSource_identifier [of schema name rng] assms
    by (cases "bindSource \<lparr>fa_schema = schema, fa_seen = {}, fa_fields = []\<rparr> (IdentifierExpr name rng)") auto
  then show ?thesis by (auto simp: bind_in_def bindPredicate_def split: option.split sum.split)
qed

lemma set_expression:
  assumes "set_on schema name literals field ws"
    and e: "e = PredicateExpr PredicateIn (IdentifierExpr name rng) (Some (ListExpr literals lrng)) False rng'"
  shows "binds schema e \<and> meaning schema resolve e = set_meaning (f_Kind field) ws (resolve field)"
proof -
  note s = set_on_scalars [OF assms(1)]
  have f: "Schema_Field schema name = Some field" "f_Filterable field" "\<not> f_Array field" "bind_values literals (f_Kind field) = Inr ws"
    using assms(1) by (simp_all add: set_on_def)
  have "bind_in schema e = Inr (predicatePlanNode (fieldSource field) (set_predicate ws) (Format e))"
    unfolding e bind_in_predicate [OF f(1,2)]
    using f(3,4) NewSetPredicate_in [OF s]
    by (simp add: operator_error_def bind_operator_def bindSetPredicate_def)
  then show ?thesis using set_predicate_meaning [OF s] by (simp add: binds_def meaning_def)
qed

lemma comparison_meaning:
  assumes "kind_valid kind" and "scalar_of kind w"
  shows "result_option (planNode_evaluate resolve (predicatePlanNode (fieldSource field)
      \<lparr>bp_operator = PredicateEQ, bp_negated = False, bp_right = w, bp_set = [], bp_like = None\<rparr> label)) =
    set_meaning kind [w] (resolve field)"
proof -
  have "result_option (case compareValues v w of Inl err \<Rightarrow> Inl err
      | Inr c \<Rightarrow> Inr (truthFromBool (comparison_matches PredicateEQ c))) =
      (if \<not> scalar_of kind v then None else Some (truthFromBool (compareValues v w = Inr 0)))" for v
    using compareValues_scalars [OF assms(1) _ assms(2), of v] compareValues_other [OF assms(2), of v]
    by (cases "scalar_of kind v") (auto simp: result_option_def comparison_matches_def truthFromBool_def)
  then show ?thesis
    by (cases "resolve field") (simp_all add: resolve_source_def set_meaning_def BoundPredicate_Evaluate_def cong: sum.case_cong)
qed

lemma binds_identifier:
  assumes "binds schema (PredicateExpr operator (IdentifierExpr name rng) right negated rng')"
  obtains field where "Schema_Field schema name = Some field" "f_Filterable field"
proof -
  obtain r a where r: "bindSource \<lparr>fa_schema = schema, fa_seen = {}, fa_fields = []\<rparr> (IdentifierExpr name rng) = (r, a)"
    by (metis surj_pair)
  obtain x where "r = Inr x" using assms r by (cases r) (auto simp: binds_def bind_in_def bindPredicate_def)
  then show thesis using bindSource_identifier [of schema name rng] r that by (auto split: option.splits if_splits)
qed

lemma candidate_meaning:
  assumes "equalitySetCandidate e = Some (name, rng, literals)" and "binds schema e"
  obtains field ws where "set_on schema name literals field ws"
    "\<And>resolve. meaning schema resolve e = set_meaning (f_Kind field) ws (resolve field)"
proof -
  consider literal rng' where "e = PredicateExpr PredicateEQ (IdentifierExpr name rng) (Some (LiteralNode literal)) False rng'" "literals = [literal]"
    | lrng rng' where "e = PredicateExpr PredicateIn (IdentifierExpr name rng) (Some (ListExpr literals lrng)) False rng'"
    using assms(1) by (auto simp: equalitySetCandidate_def split: Expr.split_asm ValueExpr.split_asm if_split_asm option.split_asm)
  then show thesis
  proof cases
    case (1 literal rng')
    obtain field where f: "Schema_Field schema name = Some field" "f_Filterable field"
      using binds_identifier assms(2) 1(1) by metis
    obtain node where "bind_in schema e = Inr node" using assms(2) by (auto simp: binds_def)
    then obtain w where w: "\<not> f_Array field" "bindLiteral literal (f_Kind field) = Inr w"
      "bind_in schema e = Inr (predicatePlanNode (fieldSource field)
        \<lparr>bp_operator = PredicateEQ, bp_negated = False, bp_right = w, bp_set = [], bp_like = None\<rparr> (Format e))"
      unfolding 1(1) bind_in_predicate [OF f]
      by (auto simp: operator_error_def bind_operator_def NewComparisonPredicate_def Let_def split: if_split_asm sum.split_asm)
    have "set_on schema name literals field [w]" using f w 1(2) by (simp add: set_on_def)
    moreover have "meaning schema resolve e = set_meaning (f_Kind field) [w] (resolve field)" for resolve
      using comparison_meaning [of "f_Kind field" w resolve field "Format e"] bindLiteral_scalar [OF w(2)] w(3) by (simp add: meaning_def)
    ultimately show thesis by (rule that)
  next
    case (2 lrng rng')
    obtain field where f: "Schema_Field schema name = Some field" "f_Filterable field"
      using binds_identifier assms(2) 2 by metis
    obtain node where "bind_in schema e = Inr node" using assms(2) by (auto simp: binds_def)
    then obtain ws where w: "\<not> f_Array field" "bind_values literals (f_Kind field) = Inr ws" "ws \<noteq> []"
      unfolding 2 bind_in_predicate [OF f]
      by (auto simp: operator_error_def bind_operator_def bindSetPredicate_def NewSetPredicate_def Let_def split: if_split_asm sum.split_asm)
    have "set_on schema name literals field ws" using f w bind_values_scalar [OF w(2)] by (auto simp: set_on_def)
    then show thesis using that set_expression 2 by blast
  qed
qed

section \<open>Grouping\<close>

text \<open>The terms that would be joined if the first loop stopped here.\<close>

definition replaced :: "(bytes \<times> equalityGroup) list \<Rightarrow> Expr list \<Rightarrow> Expr list" where
  "replaced groups kept = fst (foldl replace_group (kept, 0) groups)"

lemma replace_group_fst: "fst (replace_group (kept, n) g) = fst (replace_group (kept, m) g)"
  by (simp add: replace_group_def)

lemma replaced_count: "fst (foldl replace_group (kept, n) groups) = fst (foldl replace_group (kept, m) groups)"
proof (induction groups arbitrary: kept n m)
  case (Cons g groups)
  obtain k n' m' where "replace_group (kept, n) g = (k, n')" "replace_group (kept, m) g = (k, m')"
    using replace_group_fst [of kept n g m] by (metis eq_fst_iff)
  then show ?case using Cons [of k n' m'] by simp
qed simp

lemma replaced_Nil [simp]: "replaced [] kept = kept" by (simp add: replaced_def)

lemma replaced_Cons:
  "replaced (g # groups) kept =
     replaced groups (if eg_terms (snd g) < 2 then kept else kept[eg_index (snd g) := group_predicate (snd g)])"
  by (simp add: replaced_def replace_group_def replaced_count [of _ "Suc 0" groups 0])

lemma replaced_length [simp]: "length (replaced groups kept) = length kept"
  by (induction groups arbitrary: kept) (simp_all add: replaced_Cons)

lemma replaced_append:
  "\<forall>g \<in> set groups. eg_index (snd g) < length kept \<Longrightarrow> replaced groups (kept @ [e]) = replaced groups kept @ [e]"
  by (induction groups arbitrary: kept) (simp_all add: replaced_Cons list_update_append1)

lemma replaced_snoc:
  "eg_terms (snd g) < 2 \<Longrightarrow> replaced (groups @ [g]) kept = replaced groups kept"
  by (induction groups arbitrary: kept) (simp_all add: replaced_Cons)

lemma replaced_other: "\<forall>g \<in> set groups. eg_index (snd g) \<noteq> i \<Longrightarrow> replaced groups kept ! i = kept ! i"
  by (induction groups arbitrary: kept) (simp_all add: replaced_Cons)

lemma replaced_update:
  assumes "\<forall>g \<in> set groups. eg_index (snd g) \<noteq> i"
  shows "replaced groups (kept[i := x]) = (replaced groups kept)[i := x]"
  using assms
proof (induction groups arbitrary: kept)
  case (Cons g groups)
  have "kept[i := x, eg_index (snd g) := y] = kept[eg_index (snd g) := y, i := x]" for y
    by (rule list_update_swap) (use Cons.prems in auto)
  then show ?case using Cons by (simp add: replaced_Cons)
qed simp

lemma replaced_group:
  assumes "distinct (map (eg_index \<circ> snd) groups)" and "distinct (map fst groups)" and "(name, g) \<in> set groups"
    and "2 \<le> eg_terms g'" and "eg_index g' = eg_index g"
  shows "replaced (AList.update name g' groups) kept = (replaced groups kept)[eg_index g := group_predicate g']"
  using assms(1-3)
proof (induction groups arbitrary: kept)
  case (Cons h groups)
  show ?case
  proof (cases "fst h = name")
    case True
    then have g: "snd h = g" using Cons.prems(2,3) by (cases h) force
    have "\<forall>k \<in> set groups. eg_index (snd k) \<noteq> eg_index g" using Cons.prems(1) g by (auto simp: image_iff)
    then show ?thesis
      using True g assms(4,5) by (cases h) (simp add: replaced_Cons replaced_update)
  next
    case False
    then have "(name, g) \<in> set groups" using Cons.prems(3) by auto
    then show ?thesis using Cons False by (cases h) (simp add: replaced_Cons)
  qed
qed simp

lemma truth_option_cases:
  obtains "x = None" | "x = Some TruthUnknown" | "x = Some TruthFalse" | "x = Some TruthTrue"
  by (metis Truth.exhaust option.exhaust)

text \<open>A later member of a set can be asked together with the earlier ones.\<close>

lemma set_meaning_append:
  assumes "kind_valid kind" and "list_all (scalar_of kind) vs" and "list_all (scalar_of kind) ws"
  shows "extends (sor (sor a (sor (set_meaning kind vs r) b)) (set_meaning kind ws r)) (sor a (sor (set_meaning kind (vs @ ws) r) b))"
proof (cases "set_meaning kind vs r")
  case None
  then show ?thesis by (auto simp: extends_def sc_option_def split: option.split_asm if_split_asm)
next
  case (Some t)
  then obtain v where v: "r = Inr v" "kind_valid (v_kind v)" by (auto simp: set_meaning_def split: sum.split_asm if_split_asm)
  consider "t = TruthUnknown" "set_meaning kind ws r = Some TruthUnknown" "set_meaning kind (vs @ ws) r = Some TruthUnknown"
    | "t = TruthTrue" "set_meaning kind (vs @ ws) r = Some TruthTrue"
    | u where "t = TruthFalse" "set_meaning kind ws r = Some u" "set_meaning kind (vs @ ws) r = Some u" "u \<noteq> TruthUnknown"
  proof (cases "v_null v")
    case True
    then show thesis using Some v by (intro that(1)) (simp_all add: set_meaning_def)
  next
    case False
    then have "scalar_of kind v" using Some v by (simp add: set_meaning_def split: if_split_asm)
    then have m: "set_meaning kind us r = Some (truthFromBool (\<exists>w \<in> set us. compareValues v w = Inr 0))" for us
      using False v by (simp add: set_meaning_def)
    show thesis
    proof (cases "\<exists>w \<in> set vs. compareValues v w = Inr 0")
      case True
      then show thesis using Some m [of vs] m [of "vs @ ws"] by (intro that(2)) (auto simp: truthFromBool_def)
    next
      case False
      then have e: "(\<exists>w \<in> set (vs @ ws). compareValues v w = Inr 0) \<longleftrightarrow> (\<exists>w \<in> set ws. compareValues v w = Inr 0)" by auto
      show thesis by (rule that(3) [OF _ m m [of "vs @ ws", unfolded e]]) (use False Some m [of vs] in \<open>auto simp: truthFromBool_def\<close>)
    qed
  qed
  then show ?thesis
  proof cases
    case 1
    then show ?thesis using Some
      by (cases a rule: truth_option_cases; cases b rule: truth_option_cases) (simp_all add: extends_def sc_option_def Truth_Or_def)
  next
    case 2
    then show ?thesis using Some
      by (cases a rule: truth_option_cases; cases b rule: truth_option_cases) (simp_all add: extends_def sc_option_def Truth_Or_def)
  next
    case (3 u)
    then show ?thesis using Some
      by (cases u; cases a rule: truth_option_cases; cases b rule: truth_option_cases) (simp_all add: extends_def sc_option_def Truth_Or_def)
  qed
qed

definition group_inv :: "Schema \<Rightarrow> Expr list \<Rightarrow> (bytes \<times> equalityGroup) list \<Rightarrow> Expr list \<Rightarrow> bool" where
  "group_inv schema terms groups kept \<longleftrightarrow>
     distinct (map fst groups) \<and> distinct (map (eg_index \<circ> snd) groups)
   \<and> (\<forall>(name, g) \<in> set groups. eg_index g < length kept \<and> fst (eg_field g) = name \<and> 1 \<le> eg_terms g
        \<and> (\<exists>field ws. set_on schema name (eg_values g) field ws
             \<and> (\<forall>resolve. meaning schema resolve (replaced groups kept ! eg_index g) = set_meaning (f_Kind field) ws (resolve field))))
   \<and> (\<forall>e \<in> set (replaced groups kept). binds schema e)
   \<and> (\<forall>resolve. extends (any_of (map (meaning schema resolve) terms)) (any_of (map (meaning schema resolve) (replaced groups kept))))
   \<and> (terms \<noteq> [] \<longrightarrow> kept \<noteq> [])"

lemma group_inv_keep:
  assumes "group_inv schema terms groups kept" and "binds schema e"
  shows "group_inv schema (terms @ [e]) groups (kept @ [e])"
proof -
  have idx: "\<forall>g \<in> set groups. eg_index (snd g) < length kept" using assms(1) by (auto simp: group_inv_def)
  have ext: "extends (any_of (map (meaning schema resolve) (terms @ [e])))
      (any_of (map (meaning schema resolve) (replaced groups kept @ [e])))" for resolve
    using assms(1) by (simp add: group_inv_def sc_option_mono)
  show ?thesis
    using assms ext unfolding group_inv_def replaced_append [OF idx]
    by (auto simp: nth_append less_Suc_eq split: prod.split)
qed

lemma group_inv_new:
  assumes "group_inv schema terms groups kept" and "binds schema e"
    and "map_of groups name = None" and "set_on schema name literals field ws"
    and "\<And>resolve. meaning schema resolve e = set_meaning (f_Kind field) ws (resolve field)"
  shows "group_inv schema (terms @ [e]) (groups @ [(name, \<lparr>eg_index = length kept, eg_field = (name, rng), eg_values = literals,
      eg_terms = 1, eg_range = rng'\<rparr>)]) (kept @ [e])"
proof -
  have i: "group_inv schema (terms @ [e]) groups (kept @ [e])" by (rule group_inv_keep [OF assms(1,2)])
  have idx: "\<forall>g \<in> set groups. eg_index (snd g) < length kept" using assms(1) by (auto simp: group_inv_def)
  have last: "(replaced groups (kept @ [e])) ! length kept = e" by (simp add: replaced_append [OF idx] nth_append)
  have new: "name \<notin> fst ` set groups" using assms(3) by (simp add: map_of_eq_None_iff)
  have ni: "length kept \<notin> (eg_index \<circ> snd) ` set groups" using idx by auto
  show ?thesis
    using i new ni last assms(4,5) unfolding group_inv_def
    by (simp add: replaced_snoc) blast
qed

lemma update_indexes:
  "distinct (map fst groups) \<Longrightarrow> (name, g) \<in> set groups \<Longrightarrow> eg_index g' = eg_index g \<Longrightarrow>
   map (eg_index \<circ> snd) (AList.update name g' groups) = map (eg_index \<circ> snd) groups"
  by (induction groups) (auto simp: image_iff)

lemma group_inv_add:
  assumes "group_inv schema terms groups kept" and "binds schema e"
    and "map_of groups name = Some g" and "set_on schema name literals field ws"
    and "\<And>resolve. meaning schema resolve e = set_meaning (f_Kind field) ws (resolve field)"
    and g': "eg_index g' = eg_index g" "eg_field g' = eg_field g" "eg_terms g' = eg_terms g + 1" "eg_values g' = eg_values g @ literals"
  shows "group_inv schema (terms @ [e]) (AList.update name g' groups) kept"
proof -
  have mem: "(name, g) \<in> set groups" using assms(3) by (rule map_of_SomeD)
  have d: "distinct (map fst groups)" "distinct (map (eg_index \<circ> snd) groups)" using assms(1) by (auto simp: group_inv_def)
  obtain field' vs where g: "eg_index g < length kept" "fst (eg_field g) = name" "1 \<le> eg_terms g" "set_on schema name (eg_values g) field' vs"
    "\<And>resolve. meaning schema resolve (replaced groups kept ! eg_index g) = set_meaning (f_Kind field') vs (resolve field')"
    using assms(1) mem unfolding group_inv_def by blast
  have f: "field' = field" by (rule set_on_field [OF assms(4) g(4)])
  have K: "replaced (AList.update name g' groups) kept = (replaced groups kept)[eg_index g := group_predicate g']"
    by (rule replaced_group [OF d(2,1) mem]) (use g' g in auto)
  have son: "set_on schema name (eg_values g') field (vs @ ws)" using set_on_append g(4) assms(4) g'(4) f by metis
  have gp: "binds schema (group_predicate g')"
    "\<And>resolve. meaning schema resolve (group_predicate g') = set_meaning (f_Kind field) (vs @ ws) (resolve field)"
    using set_expression [OF son] g(2) g'(2) by (auto simp: group_predicate_def)
  let ?K = "replaced groups kept" and ?i = "eg_index g"
  have ext: "extends (any_of (map (meaning schema resolve) (terms @ [e]))) (any_of (map (meaning schema resolve) (?K[?i := group_predicate g'])))" for resolve
  proof -
    let ?m = "meaning schema resolve"
    have split: "?K = take ?i ?K @ ?K ! ?i # drop (Suc ?i) ?K" "?K[?i := group_predicate g'] = take ?i ?K @ group_predicate g' # drop (Suc ?i) ?K"
      using g(1) by (simp_all add: id_take_nth_drop upd_conv_take_nth_drop)
    have "extends (any_of (map ?m (terms @ [e]))) (sor (any_of (map ?m ?K)) (?m e))"
      using assms(1) by (simp add: group_inv_def sc_option_mono)
    moreover have "any_of (map ?m ?K) = sor (any_of (map ?m (take ?i ?K))) (sor (?m (?K ! ?i)) (any_of (map ?m (drop (Suc ?i) ?K))))"
      by (subst split(1)) (simp only: map_append list.map any_of_append any_of_simps)
    moreover have "any_of (map ?m (?K[?i := group_predicate g'])) =
        sor (any_of (map ?m (take ?i ?K))) (sor (?m (group_predicate g')) (any_of (map ?m (drop (Suc ?i) ?K))))"
      unfolding split(2) by (simp only: map_append list.map any_of_append any_of_simps)
    moreover have "extends (sor (sor a (sor (?m (?K ! ?i)) b)) (?m e)) (sor a (sor (?m (group_predicate g')) b))" for a b
      using set_meaning_append [OF set_on_scalars(1,2) [OF g(4)] set_on_scalars(2) [OF assms(4), folded f], of a "resolve field" b]
      by (simp add: gp(2) g(5) assms(5) f)
    ultimately show ?thesis by (metis extends_trans)
  qed
  have members: "eg_index h < length kept \<and> fst (eg_field h) = n \<and> 1 \<le> eg_terms h \<and>
      (\<exists>field ws. set_on schema n (eg_values h) field ws \<and>
        (\<forall>resolve. meaning schema resolve (?K[?i := group_predicate g'] ! eg_index h) = set_meaning (f_Kind field) ws (resolve field)))"
    if h: "(n, h) \<in> set (AList.update name g' groups)" for n h
  proof (cases "n = name")
    case True
    then have "h = g'" using h d(1) by (metis distinct_update map_of_is_SomeI update_Some_unfold)
    then show ?thesis using True g g' son gp(2) by auto
  next
    case False
    then have "(n, h) \<in> set groups" using h d(1) by (metis distinct_update map_of_is_SomeI map_of_SomeD update_Some_unfold)
    moreover have "eg_index h \<noteq> ?i" using calculation mem d(2) False by (force simp: distinct_map inj_on_def)
    ultimately show ?thesis using assms(1) unfolding group_inv_def by fastforce
  qed
  show ?thesis
    using ext members assms(1) g(1) gp(1) set_update_subset_insert [of ?K ?i "group_predicate g'"] distinct_update [OF d(1), of name g']
      update_indexes [OF d(1) mem g'(1)]
    unfolding group_inv_def K by auto
qed

lemma group_term_inv:
  assumes "group_inv schema terms groups kept" and "binds schema e" and "group_term (groups, kept) e = (groups', kept')"
  shows "group_inv schema (terms @ [e]) groups' kept'"
proof (cases "equalitySetCandidate e")
  case None
  then show ?thesis using assms(3) group_inv_keep [OF assms(1,2)] by (simp add: group_term_def)
next
  case (Some c)
  obtain name rng literals where c: "c = (name, rng, literals)" by (metis prod_cases3)
  obtain field ws where s: "set_on schema name literals field ws"
    "\<And>resolve. meaning schema resolve e = set_meaning (f_Kind field) ws (resolve field)"
    using candidate_meaning [OF Some [unfolded c] assms(2)] by blast
  show ?thesis
  proof (cases "map_of groups name")
    case None
    then show ?thesis
      using assms(3) Some c group_inv_new [OF assms(1,2) None s, of rng "NodeSpan e"] by (simp add: group_term_def)
  next
    case g: (Some g)
    have "groups' = AList.update name (g\<lparr>eg_values := eg_values g @ literals, eg_terms := eg_terms g + 1,
        eg_range := (eg_range g)\<lparr>span_End := span_End (NodeSpan e)\<rparr>\<rparr>) groups" "kept' = kept"
      using assms(3) Some c g by (simp_all add: group_term_def)
    then show ?thesis using group_inv_add [OF assms(1,2) g s] by simp
  qed
qed

lemma group_terms_inv:
  "group_inv schema terms groups kept \<Longrightarrow> \<forall>e \<in> set es. binds schema e \<Longrightarrow> foldl group_term (groups, kept) es = (groups', kept') \<Longrightarrow>
   group_inv schema (terms @ es) groups' kept'"
proof (induction es arbitrary: terms groups kept)
  case (Cons e es)
  obtain g k where gk: "group_term (groups, kept) e = (g, k)" by (metis surj_pair)
  have "group_inv schema (terms @ [e]) g k" by (rule group_term_inv [OF Cons.prems(1) _ gk]) (use Cons.prems(2) in simp)
  then show ?case using Cons.IH [of "terms @ [e]" g k] Cons.prems gk by simp
qed simp

lemma rewriteEqualitySets_meaning:
  assumes "terms \<noteq> []" and "\<forall>e \<in> set terms. binds schema e"
  shows "binds schema (fst (rewriteEqualitySets terms n))"
    "extends (any_of (map (meaning schema resolve) terms)) (meaning schema resolve (fst (rewriteEqualitySets terms n)))"
proof -
  obtain groups kept where f: "foldl group_term ([], []) terms = (groups, kept)" by (metis surj_pair)
  have "group_inv schema [] [] []" by (simp add: group_inv_def)
  then have inv: "group_inv schema terms groups kept" using group_terms_inv [OF _ assms(2) f, of "[]"] by simp
  have r: "fst (rewriteEqualitySets terms n) = joinLogical (replaced groups kept) LogicalOr"
    by (simp add: rewriteEqualitySets_def f replaced_def replaced_count [of kept n groups 0] split: prod.split)
      (metis fst_conv replaced_count)
  have "kept \<noteq> []" and binds: "\<forall>e \<in> set (replaced groups kept). binds schema e"
    using inv assms(1) unfolding group_inv_def by auto
  then have "replaced groups kept \<noteq> []" by (metis length_0_conv replaced_length)
  note K = this binds
  show "binds schema (fst (rewriteEqualitySets terms n))" using joinLogical_meaning(1) [OF K] r by simp
  show "extends (any_of (map (meaning schema resolve) terms)) (meaning schema resolve (fst (rewriteEqualitySets terms n)))"
    using joinLogical_meaning(2) [OF K] inv unfolding r group_inv_def by simp
qed

section \<open>Rewriting\<close>

lemma flatten_ne: "flattenLogical e op \<noteq> []"
  by (induction e op rule: flattenLogical.induct) auto

lemma rewrite_meaning:
  "binds schema e \<Longrightarrow> binds schema (fst (rewriteExpression e n))
     \<and> extends (meaning schema resolve e) (meaning schema resolve (fst (rewriteExpression e n)))"
  "\<forall>x \<in> set es. binds schema x \<Longrightarrow> (\<forall>x \<in> set (fst (rewriteTerms es n)). binds schema x)
     \<and> list_all2 extends (map (meaning schema resolve) es) (map (meaning schema resolve) (fst (rewriteTerms es n)))"
proof (induction e n and es n rule: rewriteExpression_rewriteTerms.induct)
  case (1 operator left right rng n)
  have b: "binds schema left" "binds schema right" using "1.prems" by (simp_all add: binds_logical)
  show ?case
  proof (cases "operator = LogicalOr")
    case True
    let ?flat = "flattenLogical left LogicalOr @ flattenLogical right LogicalOr"
    obtain terms m where t: "rewriteTerms ?flat n = (terms, m)" by (metis surj_pair)
    have fb: "\<forall>x \<in> set ?flat. binds schema x" using flatten_binds [of schema left] flatten_binds [of schema right] b by auto
    have T: "\<forall>x \<in> set terms. binds schema x" "list_all2 extends (map (meaning schema resolve) ?flat) (map (meaning schema resolve) terms)"
      using "1.IH"(1) [OF True] fb t by auto
    have "terms \<noteq> []" using list_all2_lengthD [OF T(2)] flatten_ne [of left LogicalOr] by auto
    note R = rewriteEqualitySets_meaning [OF this T(1)]
    have "meaning schema resolve (LogicalExpr operator left right rng) = any_of (map (meaning schema resolve) ?flat)"
      using True b flatten_meaning [OF b(1)] flatten_meaning [OF b(2)] by (simp add: meaning_logical)
    then have "extends (meaning schema resolve (LogicalExpr operator left right rng)) (meaning schema resolve (fst (rewriteEqualitySets terms m)))"
      using extends_trans [OF any_of_mono [OF T(2)] R(2)] by simp
    then show ?thesis using True t R(1) by simp
  next
    case False
    obtain l m where l: "rewriteExpression left n = (l, m)" by (metis surj_pair)
    obtain r k where r: "rewriteExpression right m = (r, k)" by (metis surj_pair)
    have L: "binds schema l" "extends (meaning schema resolve left) (meaning schema resolve l)" using "1.IH"(2) [OF False b(1)] l by simp_all
    have R: "binds schema r" "extends (meaning schema resolve right) (meaning schema resolve r)"
      using "1.IH"(3) [OF False l [symmetric] b(2)] r by simp_all
    show ?thesis using False l r L R b by (simp add: binds_logical meaning_logical sc_option_mono)
  qed
next
  case (5 e es n)
  obtain e' m where e: "rewriteExpression e n = (e', m)" by (metis surj_pair)
  obtain es' k where es: "rewriteTerms es m = (es', k)" by (metis surj_pair)
  show ?case using "5.IH"(1) "5.IH"(2) [OF e [symmetric]] "5.prems" by (simp add: e es)
qed simp_all

section \<open>The plan of a filter\<close>

text \<open>A filter that binds as it is written has a plan, and the plan gives the answers of the filter as it is written,
  up to an unknown answer given as false.\<close>

theorem BuildPlan_refines:
  assumes "ParseFilter input = Inr e" and "bind_in schema e = Inr node"
  obtains plan where "BuildPlan input schema = Inr plan"
    "\<And>resolve t. planNode_evaluate resolve node = Inr t \<Longrightarrow> \<exists>u. Plan_Evaluate plan resolve = Inr u \<and> truth_refines t u"
proof -
  obtain rewritten n where r: "RewriteFilter e = (rewritten, n)" by (metis surj_pair)
  have b: "binds schema e" using assms(2) by (simp add: binds_def)
  have rb: "binds schema rewritten" "\<And>resolve. extends (meaning schema resolve e) (meaning schema resolve rewritten)"
    using rewrite_meaning(1) [OF b, of 0] r by (simp_all add: RewriteFilter_def)
  obtain node' where node': "bind_in schema rewritten = Inr node'" using rb(1) by (auto simp: binds_def)
  obtain a where a: "bindExpression \<lparr>fa_schema = schema, fa_seen = {}, fa_fields = []\<rparr> rewritten = (Inr node', a)"
    using node' by (metis bind_in_def prod.collapse)
  let ?s = "\<lparr>ps_EqualitySets = n, ps_EmptyContainRewrites = 0, ps_ConstantFolds = 0\<rparr>"
  obtain final stats where final: "optimize node' ?s = (final, stats)" by (metis surj_pair)
  let ?plan = "\<lparr>plan_root = final, plan_fields = fa_fields a, plan_normalized = Format rewritten, plan_stats = stats\<rparr>"
  show thesis
  proof (rule that [of ?plan])
    show "BuildPlan input schema = Inr ?plan" by (simp add: BuildPlan_def assms(1) r a final)
  next
    fix resolve t
    assume "planNode_evaluate resolve node = Inr t"
    then have "meaning schema resolve rewritten = Some t"
      using rb(2) [of resolve] assms(2) by (simp add: meaning_def extends_def)
    then have "planNode_evaluate resolve node' = Inr t"
      by (simp add: meaning_def node' result_option_def split: sum.split_asm)
    then show "\<exists>u. Plan_Evaluate ?plan resolve = Inr u \<and> truth_refines t u"
      using optimize_refines [of resolve node' t ?s] by (simp add: Plan_Evaluate_def final)
  qed
qed

end
