(* ===== verification/Sql_Search.thy ===== *)
theory Sql_Search
  imports Sql_Inverted Sql_Rewrite "HOL-Library.List_Lexorder" "HOL-Library.Product_Lexorder"
begin

text \<open>
  What an inverted index answers: the rows whose value satisfies the predicate, as the forward evaluation decides it.
\<close>

section \<open>The order of values\<close>

lemma bytes_Compare_order: "bytes_Compare xs ys = three_way (xs < ys) (ys < xs)"
  by (induction xs ys rule: bytes_Compare.induct) (auto simp: three_way_def)

text \<open>A key in one linear order for the scalars of a kind.\<close>

type_synonym order_key = "bytes \<times> bool \<times> int \<times> rat"

definition order_of :: "Value \<Rightarrow> order_key" where
  "order_of v = (case v_kind v of
     ValueBinary \<Rightarrow> (v_binary v, False, 0, 0)
   | ValueString \<Rightarrow> (v_text v, False, 0, 0)
   | ValueBool \<Rightarrow> ([], v_boolean v, 0, 0)
   | ValueInt32 \<Rightarrow> ([], False, sint (v_signed v), 0)
   | ValueInt64 \<Rightarrow> ([], False, sint (v_signed v), 0)
   | ValueUint32 \<Rightarrow> ([], False, uint (v_unsigned v), 0)
   | ValueUint64 \<Rightarrow> ([], False, uint (v_unsigned v), 0)
   | _ \<Rightarrow> ([], False, 0, v_number v))"

lemma compareValues_order:
  assumes "kind_valid kind" and "scalar_of kind v" and "scalar_of kind w"
  shows "compareValues v w = Inr (three_way (order_of v < order_of w) (order_of w < order_of v))"
  using assms
  by (cases kind)
     (auto simp: compareValues_def scalar_of_def kind_valid_def order_of_def bytes_Compare_order three_way_def word_sless_alt word_less_def)

lemma compareValues_equal:
  assumes "kind_valid kind" and "scalar_of kind v" and "scalar_of kind w"
  shows "compareValues v w = Inr 0 \<longleftrightarrow> order_of v = order_of w"
  using compareValues_order [OF assms] by (auto simp: three_way_def)

lemma comparison_order:
  fixes x y :: "'a :: linorder"
  shows "comparison_matches PredicateEQ (three_way (x < y) (y < x)) \<longleftrightarrow> x = y"
  "comparison_matches PredicateNE (three_way (x < y) (y < x)) \<longleftrightarrow> x \<noteq> y"
  "comparison_matches PredicateLT (three_way (x < y) (y < x)) \<longleftrightarrow> x < y"
  "comparison_matches PredicateLE (three_way (x < y) (y < x)) \<longleftrightarrow> x \<le> y"
  "comparison_matches PredicateGT (three_way (x < y) (y < x)) \<longleftrightarrow> y < x"
  "comparison_matches PredicateGE (three_way (x < y) (y < x)) \<longleftrightarrow> y \<le> x"
  using less_linear [of x y] by (auto simp: comparison_matches_def three_way_def not_less less_le_not_le)

section \<open>Keys of values\<close>

text \<open>The 32-bit kinds hold 32-bit numbers; the constructors of values see to it.\<close>

definition width_ok :: "Value \<Rightarrow> bool" where
  "width_ok v \<longleftrightarrow>
     (v_kind v = ValueInt32 \<longrightarrow> scast (ucast (v_signed v) :: u32) = v_signed v)
   \<and> (v_kind v = ValueUint32 \<longrightarrow> ucast (ucast (v_unsigned v) :: u32) = v_unsigned v)"

definition value_ok :: "Value \<Rightarrow> bool" where
  "value_ok v \<longleftrightarrow> kind_valid (v_kind v) \<and> width_ok v
   \<and> (v_array v \<longrightarrow> (\<forall>e \<in> set (v_elements v). scalar_of (v_kind v) e \<and> width_ok e))"

lemma narrow_widen: "(ucast (scast (x :: u32) :: u64) :: u32) = x" "(ucast (ucast (x :: u32) :: u64) :: u32) = x"
  by (rule bit_word_eqI, auto simp: bit_unsigned_iff bit_signed_iff)+

lemma constructors_ok:
  "value_ok (BinaryValue b)" "value_ok (StringValue s)" "value_ok (BoolValue c)"
  "value_ok (Int32Value x)" "value_ok (Int64Value y)" "value_ok (Uint32Value x)" "value_ok (Uint64Value y)"
  by (simp_all add: value_ok_def width_ok_def kind_valid_def BinaryValue_def StringValue_def BoolValue_def Int32Value_def Int64Value_def
      Uint32Value_def Uint64Value_def narrow_widen)

lemma result_constructors_ok:
  "NullValue kind array = Inr v \<Longrightarrow> value_ok v" "Float32Value f = Inr v \<Longrightarrow> value_ok v" "Float64Value f = Inr v \<Longrightarrow> value_ok v"
  "ArrayValue kind es = Inr v \<Longrightarrow> \<forall>e \<in> set es. value_ok e \<Longrightarrow> value_ok v"
  by (auto simp: value_ok_def width_ok_def kind_valid_def scalar_of_def NullValue_def Float32Value_def Float64Value_def ArrayValue_def
      split: if_split_asm go_float.split_asm)

lemma key_order:
  assumes "scalar_of kind v" and "scalar_of kind w" and "kind_valid kind"
  shows "keyFromValue v = keyFromValue w \<longleftrightarrow> order_of v = order_of w"
  using assms
  by (cases kind)
     (auto simp: keyFromValue_def zero_key_def scalar_of_def order_of_def kind_valid_def Let_def signed_word_eqI unsigned_word_eqI)

lemma key_value:
  assumes "scalar_of kind v" and "width_ok v" and "kind_valid kind"
  shows "scalar_of kind (scalarKey_value (keyFromValue v))" "order_of (scalarKey_value (keyFromValue v)) = order_of v"
  using assms
  by (cases kind;
      auto simp: keyFromValue_def zero_key_def scalar_of_def order_of_def kind_valid_def scalarKey_value_def width_ok_def Let_def
        BinaryValue_def StringValue_def BoolValue_def Int32Value_def Int64Value_def Uint32Value_def Uint64Value_def
        Float32Value_def Float64Value_def float_value_def)+

lemma key_text: "v_kind v = ValueString \<Longrightarrow> sk_text (keyFromValue v) = v_text v"
  by (simp add: keyFromValue_def zero_key_def Let_def)

section \<open>What an index holds\<close>

text \<open>The rows indexed so far, with their values.\<close>

type_synonym row_values = "u64 \<rightharpoonup> Value"

definition keys_of :: "Value \<Rightarrow> scalarKey set" where
  "keys_of v = (if v_array v then keyFromValue ` set (v_elements v) else {keyFromValue v})"

definition rows_where :: "row_values \<Rightarrow> (Value \<Rightarrow> bool) \<Rightarrow> u64 set" where
  "rows_where m P = {row. \<exists>v. m row = Some v \<and> P v}"

lemma rows_where_upd: "m row = None \<Longrightarrow> rows_where (m(row \<mapsto> v)) P = rows_where m P \<union> (if P v then {row} else {})"
  by (auto simp: rows_where_def)

lemma rows_where_cong: "(\<And>row v. m row = Some v \<Longrightarrow> P v = Q v) \<Longrightarrow> rows_where m P = rows_where m Q"
  by (auto simp: rows_where_def)

definition posted :: "'b roaring \<Rightarrow> ('k \<times> 'b Bitmap) list \<Rightarrow> 'k \<Rightarrow> u64 set" where
  "posted R postings key = (case map_of postings key of None \<Rightarrow> {} | Some b \<Rightarrow> bits_of R b)"

text \<open>Postings that list the rows by the keys of their values.\<close>

definition posts :: "'b roaring \<Rightarrow> ('k \<times> 'b Bitmap) list \<Rightarrow> row_values \<Rightarrow> (Value \<Rightarrow> 'k set) \<Rightarrow> bool" where
  "posts R postings m keys \<longleftrightarrow>
     distinct (map fst postings)
   \<and> (\<forall>key. posted R postings key = rows_where m (\<lambda>v. \<not> v_null v \<and> key \<in> keys v))
   \<and> (\<forall>key \<in> fst ` set postings. \<exists>row v. m row = Some v \<and> \<not> v_null v \<and> key \<in> keys v)"

definition indexed_value :: "Field \<Rightarrow> Value \<Rightarrow> bool" where
  "indexed_value field v \<longleftrightarrow> value_ok v \<and> v_kind v = f_Kind field \<and> v_array v = f_Array field
   \<and> (v_kind v = ValueString \<and> \<not> v_null v \<and> \<not> v_array v \<longrightarrow> utf8_valid (v_text v))"

definition length_keys :: "Value \<Rightarrow> u32 set" where
  "length_keys v = (if v_array v then {word_of_nat (length (v_elements v))} else {})"

definition index_of :: "'b roaring \<Rightarrow> 'b InvertedIndex \<Rightarrow> row_values \<Rightarrow> bool" where
  "index_of R i m \<longleftrightarrow>
     bits_of R (ix_rows i) = dom m
   \<and> bits_of R (ix_nulls i) = rows_where m v_null
   \<and> bits_of R (ix_nonNull i) = rows_where m (\<lambda>v. \<not> v_null v)
   \<and> posts R (ix_postings i) m keys_of
   \<and> posts R (ix_arrayLength i) m length_keys
   \<and> (\<forall>row v. m row = Some v \<longrightarrow> indexed_value (ix_field i) v)
   \<and> kind_valid (f_Kind (ix_field i))"

lemma posted_add_row:
  "roaring_ok R \<Longrightarrow> posted R (add_row R key row postings) k = posted R postings k \<union> (if k = key then {row} else {})"
  by (auto simp: posted_def add_row_def Let_def update_conv' bitmap_sets split: option.split)

lemma add_row_keys: "fst ` set (add_row R key row postings) = insert key (fst ` set postings)"
  by (simp add: add_row_def Let_def dom_update)

lemma add_row_distinct: "distinct (map fst postings) \<Longrightarrow> distinct (map fst (add_row R key row postings))"
  by (simp add: add_row_def Let_def distinct_update)

lemma add_elements_posted:
  assumes "roaring_ok R"
  shows "posted R (add_elements R row es seen postings) k =
    posted R postings k \<union> (if k \<in> keyFromValue ` set es - seen then {row} else {})"
proof (induction es arbitrary: seen postings)
  case (Cons e es)
  show ?case using Cons by (auto simp: Let_def posted_add_row [OF assms])
qed simp

lemma add_elements_keys:
  "fst ` set (add_elements R row es seen postings) = (keyFromValue ` set es - seen) \<union> fst ` set postings"
proof (induction es arbitrary: seen postings)
  case (Cons e es)
  show ?case using Cons by (auto simp: Let_def add_row_keys)
qed simp

lemma add_elements_distinct: "distinct (map fst postings) \<Longrightarrow> distinct (map fst (add_elements R row es seen postings))"
  by (induction es arbitrary: seen postings) (simp_all add: Let_def add_row_distinct)

lemma posts_extend:
  assumes "posts R postings m keys" and "m row = None"
    and "distinct (map fst postings')"
    and "\<And>k. posted R postings' k = posted R postings k \<union> (if \<not> v_null v \<and> k \<in> keys v then {row} else {})"
    and "fst ` set postings' = fst ` set postings \<union> (if v_null v then {} else keys v)"
  shows "posts R postings' (m(row \<mapsto> v)) keys"
proof -
  have "\<exists>row' w. (m(row \<mapsto> v)) row' = Some w \<and> \<not> v_null w \<and> k \<in> keys w" if k: "k \<in> fst ` set postings'" for k
  proof (cases "k \<in> fst ` set postings")
    case True
    then obtain row' w where "m row' = Some w" "\<not> v_null w" "k \<in> keys w" using assms(1) unfolding posts_def by blast
    then show ?thesis using assms(2) by (intro exI [of _ row'] exI [of _ w]) auto
  next
    case False
    then show ?thesis using k assms(5) by (intro exI [of _ row] exI [of _ v]) (auto split: if_split_asm)
  qed
  then show ?thesis using assms by (simp add: posts_def rows_where_upd)
qed

theorem Add_index:
  assumes R: "roaring_ok R" and i: "index_of R i m" and v: "value_ok v" and add: "InvertedIndex_Add R i row v = Inr i'"
  shows "index_of R i' (m(row \<mapsto> v)) \<and> ix_field i' = ix_field i \<and> \<not> ix_sealed i'"
proof -
  have new: "m row = None" using add i R by (auto simp: InvertedIndex_Add_def bitmap_Contains index_of_def split: if_split_asm)
  have iv: "indexed_value (ix_field i) v" using add v by (auto simp: InvertedIndex_Add_def indexed_value_def split: if_split_asm)
  note base = i [unfolded index_of_def]
  consider "v_null v" "i' = i\<lparr>ix_rows := snd (Bitmap_Set R row (ix_rows i)), ix_nulls := snd (Bitmap_Set R row (ix_nulls i))\<rparr>"
    | "\<not> v_null v" "v_array v" "i' = i\<lparr>ix_rows := snd (Bitmap_Set R row (ix_rows i)), ix_nonNull := snd (Bitmap_Set R row (ix_nonNull i)),
        ix_arrayLength := add_row R (word_of_nat (length (v_elements v))) row (ix_arrayLength i),
        ix_postings := add_elements R row (v_elements v) {} (ix_postings i)\<rparr>"
    | "\<not> v_null v" "\<not> v_array v" "i' = i\<lparr>ix_rows := snd (Bitmap_Set R row (ix_rows i)), ix_nonNull := snd (Bitmap_Set R row (ix_nonNull i)),
        ix_postings := add_row R (keyFromValue v) row (ix_postings i)\<rparr>"
    using add by (auto simp: InvertedIndex_Add_def Let_def split: if_split_asm)
  moreover have "\<not> ix_sealed i" using add by (auto simp: InvertedIndex_Add_def split: if_split_asm)
  moreover have d: "distinct (map fst (ix_postings i))" "distinct (map fst (ix_arrayLength i))" using base by (auto simp: posts_def)
  moreover have p: "posts R (ix_postings i) m keys_of" "posts R (ix_arrayLength i) m length_keys" using base by auto
  ultimately show ?thesis
  proof cases
    case 1
    have "posts R (ix_postings i) (m(row \<mapsto> v)) keys_of" "posts R (ix_arrayLength i) (m(row \<mapsto> v)) length_keys"
      by (rule posts_extend [OF p(1) new], use d 1 in auto) (rule posts_extend [OF p(2) new], use d 1 in auto)
    then show ?thesis using 1 base iv new \<open>\<not> ix_sealed i\<close> by (simp add: index_of_def rows_where_upd bitmap_sets [OF R])
  next
    case 2
    have "posts R (ix_postings i') (m(row \<mapsto> v)) keys_of"
      by (rule posts_extend [OF p(1) new])
         (use d 2 in \<open>auto simp: add_elements_posted [OF R] add_elements_keys add_elements_distinct keys_of_def\<close>)
    moreover have "posts R (ix_arrayLength i') (m(row \<mapsto> v)) length_keys"
      by (rule posts_extend [OF p(2) new])
         (use d 2 in \<open>auto simp: posted_add_row [OF R] add_row_keys add_row_distinct length_keys_def\<close>)
    ultimately show ?thesis using 2 base iv new \<open>\<not> ix_sealed i\<close> by (simp add: index_of_def rows_where_upd bitmap_sets [OF R])
  next
    case 3
    have "posts R (ix_postings i') (m(row \<mapsto> v)) keys_of"
      by (rule posts_extend [OF p(1) new])
         (use d 3 in \<open>auto simp: posted_add_row [OF R] add_row_keys add_row_distinct keys_of_def\<close>)
    moreover have "posts R (ix_arrayLength i') (m(row \<mapsto> v)) length_keys"
      by (rule posts_extend [OF p(2) new]) (use d 3 in \<open>auto simp: length_keys_def\<close>)
    ultimately show ?thesis using 3 base iv new \<open>\<not> ix_sealed i\<close> by (simp add: index_of_def rows_where_upd bitmap_sets [OF R])
  qed
qed

lemma New_index:
  assumes "roaring_ok R" and "NewInvertedIndex R field = Inr i"
  shows "index_of R i Map.empty \<and> ix_field i = field \<and> \<not> ix_sealed i"
  using assms by (auto simp: NewInvertedIndex_def index_of_def posts_def posted_def rows_where_def bitmap_sets split: if_split_asm)

section \<open>Unions of postings\<close>

lemma Or_posted: "roaring_ok R \<Longrightarrow> bits_of R (Bitmap_Or R b (map_of postings key)) = bits_of R b \<union> posted R postings key"
  by (auto simp: posted_def bitmap_sets split: option.split)

lemma fold_Or_posted:
  "roaring_ok R \<Longrightarrow> bits_of R (foldl (\<lambda>b x. Bitmap_Or R b (map_of postings (f x))) b xs) = bits_of R b \<union> (\<Union>x \<in> set xs. posted R postings (f x))"
  by (induction xs arbitrary: b) (auto simp: Or_posted)

lemma unionValues_bits:
  "roaring_ok R \<Longrightarrow> bits_of R (unionValues R i vs) = (\<Union>v \<in> set vs. posted R (ix_postings i) (keyFromValue v))"
  by (simp add: unionValues_def fold_Or_posted bitmap_sets)

lemma union_keys_bits: "roaring_ok R \<Longrightarrow> bits_of R (union_keys R postings keys) = (\<Union>key \<in> set keys. posted R postings key)"
  using fold_Or_posted [of R postings "\<lambda>x. x" "NewBitmap R 0" keys] by (simp add: union_keys_def bitmap_sets)

lemma index_posting_bits: "roaring_ok R \<Longrightarrow> bits_of R (index_posting R i v) = posted R (ix_postings i) (keyFromValue v)"
  by (auto simp: index_posting_def posted_def bitmap_sets split: option.split)

lemma contain_loop_bits:
  "roaring_ok R \<Longrightarrow> bits_of R (contain_loop R i vs b) = bits_of R b \<inter> (\<Inter>v \<in> set vs. posted R (ix_postings i) (keyFromValue v))"
  by (induction vs arbitrary: b) (auto simp: posted_def bitmap_sets split: option.split)

lemma posted_mem: "distinct (map fst postings) \<Longrightarrow> (key, b) \<in> set postings \<Longrightarrow> posted R postings key = bits_of R b"
  by (simp add: posted_def)

lemma fold_Or_pairs:
  "roaring_ok R \<Longrightarrow> bits_of R (foldl (\<lambda>b (key, posting). Bitmap_Or R b (Some posting)) b ps) = bits_of R b \<union> (\<Union>(key, posting) \<in> set ps. bits_of R posting)"
  by (induction ps arbitrary: b) (auto simp: bitmap_sets)

lemma scan_terms_bits:
  assumes "roaring_ok R" and "distinct (map fst (ix_postings i))" and "scan_terms R i test strategy = Some res"
  shows "bits_of R (ir_Bitmap res) = (\<Union>key \<in> {key \<in> fst ` set (ix_postings i). test (sk_text key)}. posted R (ix_postings i) key)"
proof -
  have "bits_of R (ir_Bitmap res) = (\<Union>(key, posting) \<in> set (filter (\<lambda>(key, posting). test (sk_text key)) (ix_postings i)). bits_of R posting)"
  proof -
    have "ir_Bitmap res = foldl (\<lambda>bitmap (key, posting). Bitmap_Or R bitmap (Some posting)) (NewBitmap R 0)
        (filter (\<lambda>(key, posting). test (sk_text key)) (ix_postings i))"
      using assms(3) by (auto simp: scan_terms_def supportedBitmap_def Let_def)
    then show ?thesis by (simp only: fold_Or_pairs [OF assms(1)] bitmap_New [OF assms(1)] Un_empty_left)
  qed
  also have "\<dots> = (\<Union>key \<in> {key \<in> fst ` set (ix_postings i). test (sk_text key)}. posted R (ix_postings i) key)"
    using posted_mem [OF assms(2)] by force
  finally show ?thesis .
qed

definition key_matches :: "Value \<Rightarrow> PredicateOperator \<Rightarrow> scalarKey \<Rightarrow> bool" where
  "key_matches right operator key \<longleftrightarrow> (\<exists>c. compareValues (scalarKey_value key) right = Inr c \<and> comparison_matches operator c)"

lemma term_scan_bits:
  assumes "roaring_ok R" and "\<And>key. key \<in> fst ` set ps \<Longrightarrow> \<exists>c. compareValues (scalarKey_value key) right = Inr c"
  shows "\<exists>b' n'. term_scan R right operator ps b n = Inr (b', n')
    \<and> bits_of R b' = bits_of R b \<union> (\<Union>p \<in> {p \<in> set ps. key_matches right operator (fst p)}. bits_of R (snd p))"
  using assms(2)
proof (induction ps arbitrary: b n)
  case (Cons p ps)
  obtain key posting where p: "p = (key, posting)" by (metis surj_pair)
  obtain c where c: "compareValues (scalarKey_value key) right = Inr c" using Cons.prems [of key] p by auto
  have IH: "\<exists>b' n'. term_scan R right operator ps b n = Inr (b', n')
      \<and> bits_of R b' = bits_of R b \<union> (\<Union>p \<in> {p \<in> set ps. key_matches right operator (fst p)}. bits_of R (snd p))" for b n
    by (rule Cons.IH) (use Cons.prems in auto)
  have split: "{q \<in> set (p # ps). key_matches right operator (fst q)} =
      (if comparison_matches operator c then {p} else {}) \<union> {q \<in> set ps. key_matches right operator (fst q)}"
    by (auto simp: key_matches_def p c)
  show ?case
    using IH [of "Bitmap_Or R b (Some posting)" "n + 1"] IH [of b n] unfolding split
    by (cases "comparison_matches operator c") (auto simp: p c bitmap_sets [OF assms(1)])
qed simp

section \<open>Binary search\<close>

text \<open>A test that never fails and stays true once it is true.\<close>

lemma search_loop_monotone:
  assumes "\<And>k. k < n \<Longrightarrow> f k = Inr (P k)" and "\<And>j k. j \<le> k \<Longrightarrow> k < n \<Longrightarrow> P j \<Longrightarrow> P k"
  shows "i \<le> j \<Longrightarrow> j \<le> n \<Longrightarrow> (\<And>k. k < i \<Longrightarrow> \<not> P k) \<Longrightarrow> (\<And>k. j \<le> k \<Longrightarrow> k < n \<Longrightarrow> P k) \<Longrightarrow>
    \<exists>m \<le> n. search_loop f i j err = (m, err) \<and> (\<forall>k < n. P k \<longleftrightarrow> m \<le> k)"
proof (induction "j - i" arbitrary: i j rule: less_induct)
  case less
  show ?case
  proof (cases "i < j")
    case True
    define h where "h = (i + j) div 2"
    have h: "i \<le> h" "h < j" "h < n" using True less.prems(2) by (auto simp: h_def)
    show ?thesis
    proof (cases "P h")
      case True
      have "search_loop f i j err = search_loop f i h err"
        unfolding search_loop.simps [of f i j] using \<open>i < j\<close> assms(1) [OF h(3)] True by (simp add: h_def [symmetric])
      moreover have "\<exists>m \<le> n. search_loop f i h err = (m, err) \<and> (\<forall>k < n. P k \<longleftrightarrow> m \<le> k)"
        by (rule less.hyps) (use h less.prems True assms(2) in auto)
      ultimately show ?thesis by simp
    next
      case False
      have "search_loop f i j err = search_loop f (h + 1) j err"
        unfolding search_loop.simps [of f i j] using \<open>i < j\<close> assms(1) [OF h(3)] False by (simp add: h_def [symmetric])
      moreover have "\<exists>m \<le> n. search_loop f (h + 1) j err = (m, err) \<and> (\<forall>k < n. P k \<longleftrightarrow> m \<le> k)"
        by (rule less.hyps) (use h less.prems False assms(2) in \<open>auto simp: less_Suc_eq_le\<close>)
      ultimately show ?thesis by simp
    qed
  next
    case False
    then have "search_loop f i j err = (i, err)" by (simp add: search_loop.simps [of f i j])
    moreover have "i = j" using False less.prems(1) by simp
    ultimately show ?thesis using less.prems by (intro exI [of _ i]) (auto simp: not_less [symmetric])
  qed
qed

lemma sort_Search_monotone:
  assumes "\<And>k. k < n \<Longrightarrow> f k = Inr (P k)" and "\<And>j k. j \<le> k \<Longrightarrow> k < n \<Longrightarrow> P j \<Longrightarrow> P k"
  obtains m where "m \<le> n" "sort_Search n f = (m, None)" "\<And>k. k < n \<Longrightarrow> P k \<longleftrightarrow> m \<le> k"
proof -
  have "\<exists>m \<le> n. search_loop f 0 n None = (m, None) \<and> (\<forall>k < n. P k \<longleftrightarrow> m \<le> k)"
    by (rule search_loop_monotone) (use assms in auto)
  then show thesis using that by (auto simp: sort_Search_def)
qed

text \<open>The bounds of an operator select the positions whose key satisfies it.\<close>

lemma operator_bounds_positions:
  fixes key :: "nat \<Rightarrow> 'a :: linorder"
  assumes "operator_bounds operator lower upper n = Some (start, stop)"
    and "\<And>k. k < n \<Longrightarrow> target \<le> key k \<longleftrightarrow> lower \<le> k" and "\<And>k. k < n \<Longrightarrow> target < key k \<longleftrightarrow> upper \<le> k" and "lower \<le> n" and "upper \<le> n"
    and "k < n"
  shows "start \<le> k \<and> k < stop \<longleftrightarrow> (case operator of PredicateEQ \<Rightarrow> key k = target | PredicateLT \<Rightarrow> key k < target | PredicateLE \<Rightarrow> key k \<le> target
    | PredicateGT \<Rightarrow> target < key k | PredicateGE \<Rightarrow> target \<le> key k | _ \<Rightarrow> False)"
  using assms(1) assms(2) [OF assms(6)] assms(3) [OF assms(6)] assms(6)
  by (cases operator) (auto simp: operator_bounds_def not_le [symmetric])

section \<open>Sorting\<close>

lemma sorted_insert_set [simp]: "set (sorted_insert lt x ys) = insert x (set ys)"
  by (induction ys) auto

lemma sort_Slice_set [simp]: "set (sort_Slice lt xs) = set xs"
  unfolding sort_Slice_def by (induction xs) simp_all

lemma sorted_insert_sorted:
  fixes g :: "'a \<Rightarrow> 'b :: linorder"
  assumes "\<And>y. y \<in> set ys \<Longrightarrow> lt y x \<longleftrightarrow> g y < g x" and "sorted (map g ys)"
  shows "sorted (map g (sorted_insert lt x ys))"
  using assms by (induction ys) (auto simp: not_less intro: less_imp_le order_trans)

lemma sort_Slice_sorted:
  fixes g :: "'a \<Rightarrow> 'b :: linorder"
  assumes "\<And>x y. x \<in> set xs \<Longrightarrow> y \<in> set xs \<Longrightarrow> lt x y \<longleftrightarrow> g x < g y"
  shows "sorted (map g (sort_Slice lt xs))"
  using assms
proof (induction xs)
  case (Cons x xs)
  have "set (foldr (sorted_insert lt) xs []) = set xs" using sort_Slice_set [of lt xs] by (simp add: sort_Slice_def)
  moreover have "sorted (map g (foldr (sorted_insert lt) xs []))" using Cons by (simp add: sort_Slice_def)
  ultimately show ?case unfolding sort_Slice_def foldr.simps comp_apply by (intro sorted_insert_sorted) (use Cons.prems in auto)
qed (simp add: sort_Slice_def)

section \<open>The keys of an index\<close>

definition key_order_of :: "scalarKey \<Rightarrow> order_key" where
  "key_order_of key = order_of (scalarKey_value key)"

lemma indexed: "index_of R i m \<Longrightarrow> m row = Some v \<Longrightarrow> indexed_value (ix_field i) v"
  by (simp add: index_of_def)

lemma indexed_scalar:
  assumes "index_of R i m" and "m row = Some v" and "\<not> v_null v" and "\<not> f_Array (ix_field i)"
  shows "scalar_of (f_Kind (ix_field i)) v" "width_ok v" "keys_of v = {keyFromValue v}"
  using indexed [OF assms(1,2)] assms(3,4) by (auto simp: indexed_value_def value_ok_def scalar_of_def keys_of_def)

lemma indexed_array:
  assumes "index_of R i m" and "m row = Some v" and "f_Array (ix_field i)"
  shows "v_array v" "v_kind v = f_Kind (ix_field i)" "\<And>e. e \<in> set (v_elements v) \<Longrightarrow> scalar_of (f_Kind (ix_field i)) e \<and> width_ok e"
    "keys_of v = keyFromValue ` set (v_elements v)"
  using indexed [OF assms(1,2)] assms(3) by (auto simp: indexed_value_def value_ok_def keys_of_def)

lemma posts_key: "posts R postings m keys \<Longrightarrow> key \<in> fst ` set postings \<Longrightarrow> \<exists>row v. m row = Some v \<and> \<not> v_null v \<and> key \<in> keys v"
  unfolding posts_def by blast

lemma index_key:
  assumes "index_of R i m" and "key \<in> fst ` set (ix_postings i)"
  shows "scalar_of (f_Kind (ix_field i)) (scalarKey_value key)"
proof -
  obtain row v where v: "m row = Some v" "\<not> v_null v" "key \<in> keys_of v"
    using posts_key [of R "ix_postings i" m keys_of key] assms by (auto simp: index_of_def)
  have k: "kind_valid (f_Kind (ix_field i))" using assms(1) by (simp add: index_of_def)
  show ?thesis
  proof (cases "f_Array (ix_field i)")
    case True
    then show ?thesis using indexed_array [OF assms(1) v(1)] v(3) key_value(1) [OF _ _ k] by auto
  next
    case False
    then show ?thesis using indexed_scalar [OF assms(1) v(1,2)] v(3) key_value(1) [OF _ _ k] by auto
  qed
qed

lemma posted_rows: "index_of R i m \<Longrightarrow> posted R (ix_postings i) key = rows_where m (\<lambda>v. \<not> v_null v \<and> key \<in> keys_of v)"
  by (simp add: index_of_def posts_def)

lemma posted_absent: "key \<notin> fst ` set postings \<Longrightarrow> posted R postings key = {}"
  by (simp add: posted_def map_of_eq_None_iff [THEN iffD2])

lemma posted_key: "row \<in> posted R postings key \<Longrightarrow> key \<in> fst ` set postings"
  using posted_absent by fastforce

text \<open>The rows of the postings a test selects.\<close>

lemma posted_select:
  assumes "index_of R i m"
  shows "(\<Union>key \<in> {key \<in> fst ` set (ix_postings i). Q key}. posted R (ix_postings i) key) =
    rows_where m (\<lambda>v. \<not> v_null v \<and> (\<exists>key \<in> keys_of v. Q key))"
proof -
  have "(\<Union>key \<in> {key \<in> fst ` set (ix_postings i). Q key}. posted R (ix_postings i) key) = (\<Union>key \<in> {key. Q key}. posted R (ix_postings i) key)"
  proof (intro equalityI subsetI)
    fix row
    assume "row \<in> (\<Union>key \<in> {key. Q key}. posted R (ix_postings i) key)"
    then obtain key where "Q key" "row \<in> posted R (ix_postings i) key" by blast
    moreover have "key \<in> fst ` set (ix_postings i)" by (rule posted_key [OF calculation(2)])
    ultimately show "row \<in> (\<Union>key \<in> {key \<in> fst ` set (ix_postings i). Q key}. posted R (ix_postings i) key)" by blast
  qed blast
  also have "\<dots> = rows_where m (\<lambda>v. \<not> v_null v \<and> (\<exists>key \<in> keys_of v. Q key))"
    by (auto simp: posted_rows [OF assms] rows_where_def)
  finally show ?thesis .
qed

lemma key_compare:
  assumes "kind_valid kind" and "scalar_of kind v" and "width_ok v" and "scalar_of kind w"
  shows "compareValues (scalarKey_value (keyFromValue v)) w = compareValues v w"
  using compareValues_order [OF assms(1) key_value(1) [OF assms(2,3,1)] assms(4)] compareValues_order [OF assms(1,2,4)] key_value(2) [OF assms(2,3,1)]
  by simp

section \<open>Range searches\<close>

lemma sealed_sorted:
  assumes "index_of R i m"
  shows "sorted (map key_order_of (sort_Slice key_less (map fst (ix_postings i))))"
proof (rule sort_Slice_sorted)
  fix x y
  assume "x \<in> set (map fst (ix_postings i))" "y \<in> set (map fst (ix_postings i))"
  then have "scalar_of (f_Kind (ix_field i)) (scalarKey_value x)" "scalar_of (f_Kind (ix_field i)) (scalarKey_value y)"
    using index_key [OF assms] by auto
  moreover have "kind_valid (f_Kind (ix_field i))" using assms by (simp add: index_of_def)
  ultimately show "key_less x y \<longleftrightarrow> key_order_of x < key_order_of y"
    using compareValues_order by (auto simp: key_less_def key_order_of_def three_way_def)
qed

definition order_test :: "PredicateOperator \<Rightarrow> 'a :: linorder \<Rightarrow> 'a \<Rightarrow> bool" where
  "order_test operator key target = (case operator of PredicateEQ \<Rightarrow> key = target | PredicateLT \<Rightarrow> key < target | PredicateLE \<Rightarrow> key \<le> target
    | PredicateGT \<Rightarrow> target < key | PredicateGE \<Rightarrow> target \<le> key | _ \<Rightarrow> False)"

lemma order_test_matches:
  assumes "operator \<in> {PredicateLT, PredicateLE, PredicateGT, PredicateGE}"
  shows "order_test operator (x :: order_key) y \<longleftrightarrow> comparison_matches operator (three_way (x < y) (y < x))"
  using assms by (elim insertE emptyE) (simp_all add: order_test_def comparison_order)

lemma take_drop_positions:
  assumes "\<And>k. k < length xs \<Longrightarrow> start \<le> k \<and> k < stop \<longleftrightarrow> Q (xs ! k)"
  shows "set (take (stop - start) (drop start xs)) = {x \<in> set xs. Q x}"
proof -
  have "set (take (stop - start) (drop start xs)) = {xs ! k | k. start \<le> k \<and> k < stop \<and> k < length xs}"
  proof (rule set_eqI)
    fix x
    have "x \<in> set (take (stop - start) (drop start xs)) \<longleftrightarrow> (\<exists>d. d < stop - start \<and> start + d < length xs \<and> xs ! (start + d) = x)"
      by (simp add: in_set_conv_nth conj_commute less_diff_conv add.commute cong: conj_cong) blast
    also have "\<dots> \<longleftrightarrow> (\<exists>k. start \<le> k \<and> k < stop \<and> k < length xs \<and> xs ! k = x)"
      by (metis add_diff_inverse_nat less_diff_conv le_add1 add.commute not_less)
    finally show "x \<in> set (take (stop - start) (drop start xs)) \<longleftrightarrow> x \<in> {xs ! k | k. start \<le> k \<and> k < stop \<and> k < length xs}" by auto
  qed
  also have "\<dots> = {x \<in> set xs. Q x}" using assms by (auto simp: set_conv_nth)
  finally show ?thesis .
qed

lemma orderedBounds_keys:
  assumes i: "index_of R i m" and sealed: "ix_ordered i = sort_Slice key_less (map fst (ix_postings i))"
    and w: "scalar_of (f_Kind (ix_field i)) w" and op: "operator \<in> {PredicateLT, PredicateLE, PredicateGT, PredicateGE}"
  obtains start stop where "orderedBounds i w operator = Inr (start, stop)"
    "set (take (stop - start) (drop start (ix_ordered i))) = {key \<in> fst ` set (ix_postings i). order_test operator (key_order_of key) (order_of w)}"
proof -
  let ?n = "length (ix_ordered i)"
  have k: "kind_valid (f_Kind (ix_field i))" using i by (simp add: index_of_def)
  have keys: "set (ix_ordered i) = fst ` set (ix_postings i)" by (simp add: sealed)
  have sorted: "sorted (map key_order_of (ix_ordered i))" using sealed_sorted [OF i] by (simp add: sealed)
  have test: "key_test i w test index = Inr (test (three_way (key_order_of (ix_ordered i ! index) < order_of w) (order_of w < key_order_of (ix_ordered i ! index))))"
    if "index < ?n" for test index
  proof -
    have "ix_ordered i ! index \<in> fst ` set (ix_postings i)" using that keys nth_mem by metis
    then show ?thesis using compareValues_order [OF k index_key [OF i] w] by (simp add: key_test_def key_order_of_def)
  qed
  have mono: "key_order_of (ix_ordered i ! a) \<le> key_order_of (ix_ordered i ! b)" if "a \<le> b" "b < ?n" for a b
    using sorted that by (simp add: sorted_iff_nth_mono)
  obtain lower where l: "lower \<le> ?n" "sort_Search ?n (key_test i w (\<lambda>c. 0 \<le> c)) = (lower, None)"
    "\<And>k. k < ?n \<Longrightarrow> order_of w \<le> key_order_of (ix_ordered i ! k) \<longleftrightarrow> lower \<le> k"
  proof (rule sort_Search_monotone [of ?n "key_test i w (\<lambda>c. 0 \<le> c)" "\<lambda>k. order_of w \<le> key_order_of (ix_ordered i ! k)"])
    show "key_test i w (\<lambda>c. 0 \<le> c) k = Inr (order_of w \<le> key_order_of (ix_ordered i ! k))" if "k < ?n" for k
      using test [OF that] by (auto simp: three_way_def)
    show "order_of w \<le> key_order_of (ix_ordered i ! b)" if "a \<le> b" "b < ?n" "order_of w \<le> key_order_of (ix_ordered i ! a)" for a b
      using mono [OF that(1,2)] that(3) by (rule order_trans [rotated])
  qed blast
  obtain upper where u: "upper \<le> ?n" "sort_Search ?n (key_test i w (\<lambda>c. 0 < c)) = (upper, None)"
    "\<And>k. k < ?n \<Longrightarrow> order_of w < key_order_of (ix_ordered i ! k) \<longleftrightarrow> upper \<le> k"
  proof (rule sort_Search_monotone [of ?n "key_test i w (\<lambda>c. 0 < c)" "\<lambda>k. order_of w < key_order_of (ix_ordered i ! k)"])
    show "key_test i w (\<lambda>c. 0 < c) k = Inr (order_of w < key_order_of (ix_ordered i ! k))" if "k < ?n" for k
      using test [OF that] by (auto simp: three_way_def)
    show "order_of w < key_order_of (ix_ordered i ! b)" if "a \<le> b" "b < ?n" "order_of w < key_order_of (ix_ordered i ! a)" for a b
      using mono [OF that(1,2)] that(3) by (rule less_le_trans [rotated])
  qed blast
  obtain start stop where b: "operator_bounds operator lower upper ?n = Some (start, stop)" using op by (auto simp: operator_bounds_def)
  have "set (take (stop - start) (drop start (ix_ordered i))) = {key \<in> set (ix_ordered i). order_test operator (key_order_of key) (order_of w)}"
    by (rule take_drop_positions)
       (use operator_bounds_positions [OF b l(3) u(3) l(1) u(1)] in \<open>simp add: order_test_def\<close>)
  then show thesis using that [of start stop] b l(2) u(2) keys by (simp add: orderedBounds_def Let_def)
qed

section \<open>Searches are exact\<close>

text \<open>A predicate as the constructors make them, on the kind of the field.\<close>

definition predicate_for :: "Field \<Rightarrow> BoundPredicate \<Rightarrow> bool" where
  "predicate_for field p \<longleftrightarrow>
     (bp_operator p \<in> comparison_operators \<longrightarrow> scalar_of (f_Kind field) (bp_right p))
   \<and> (bp_operator p \<in> {PredicateLT, PredicateLE, PredicateGT, PredicateGE} \<longrightarrow> f_Kind field \<noteq> ValueBool)
   \<and> list_all (scalar_of (f_Kind field)) (bp_set p)
   \<and> (\<forall>pattern. bp_like p = Some pattern \<longrightarrow> CompileLike (lp_raw pattern) = Inr pattern)"

definition satisfies :: "BoundPredicate \<Rightarrow> Value \<Rightarrow> bool" where
  "satisfies p v \<longleftrightarrow> BoundPredicate_Evaluate p v = Inr TruthTrue"

lemma satisfies_null: "v_null v \<Longrightarrow> satisfies p v \<Longrightarrow> bp_operator p = PredicateIsNull"
  by (cases "bp_operator p") (auto simp: satisfies_def BoundPredicate_Evaluate_def evaluateIn_def evaluateContain_def split: if_split_asm)

lemma truth_simps [simp]: "truthFromBool b = TruthTrue \<longleftrightarrow> b" "negated_truth n b = TruthTrue \<longleftrightarrow> b \<noteq> n"
  by (auto simp: truthFromBool_def negated_truth_def Let_def)

lemma satisfies_comparison:
  assumes "kind_valid kind" and "scalar_of kind v" and "scalar_of kind (bp_right p)" and "bp_operator p \<in> comparison_operators"
    and "kind = ValueBool \<Longrightarrow> bp_operator p \<in> {PredicateEQ, PredicateNE}"
  shows "satisfies p v \<longleftrightarrow> (\<exists>c. compareValues v (bp_right p) = Inr c \<and> comparison_matches (bp_operator p) c)"
  using assms compareValues_scalars [OF assms(1-3)]
  by (cases "bp_operator p") (auto simp: satisfies_def BoundPredicate_Evaluate_def scalar_of_def comparison_operators_def)

lemma satisfies_in:
  assumes "kind_valid kind" and "scalar_of kind v" and "list_all (scalar_of kind) (bp_set p)" and "bp_operator p = PredicateIn"
  shows "satisfies p v \<longleftrightarrow> (\<exists>w \<in> set (bp_set p). keyFromValue v = keyFromValue w) \<noteq> bp_negated p"
proof -
  have "in_loop v (bp_set p) = Inr (\<exists>w \<in> set (bp_set p). compareValues v w = Inr 0)" by (rule in_loop_scalars [OF assms(1-3)])
  also have "(\<exists>w \<in> set (bp_set p). compareValues v w = Inr 0) \<longleftrightarrow> (\<exists>w \<in> set (bp_set p). keyFromValue v = keyFromValue w)"
    using compareValues_equal [OF assms(1,2)] key_order [OF assms(2) _ assms(1)] assms(3) by (auto simp: list_all_iff)
  finally show ?thesis using assms(1,2,4) by (auto simp: satisfies_def BoundPredicate_Evaluate_def evaluateIn_def scalar_of_def)
qed

lemma containsValue_keys:
  assumes "kind_valid kind" and "scalar_of kind w" and "\<And>e. e \<in> set es \<Longrightarrow> scalar_of kind e"
  shows "containsValue es w = Inr (keyFromValue w \<in> keyFromValue ` set es)"
  using assms(3)
proof (induction es)
  case (Cons e es)
  have e: "scalar_of kind e" using Cons.prems by simp
  obtain c where c: "compareValues e w = Inr c" using compareValues_scalars [OF assms(1) e assms(2)] by blast
  have "c = 0 \<longleftrightarrow> keyFromValue e = keyFromValue w" using c compareValues_equal [OF assms(1) e assms(2)] key_order [OF e assms(2,1)] by simp
  then show ?case using Cons c by auto
qed simp

lemma contain_loops:
  assumes "kind_valid kind" and "list_all (scalar_of kind) ws" and "\<And>e. e \<in> set es \<Longrightarrow> scalar_of kind e"
  shows "contain_all_loop es ws = Inr (\<forall>w \<in> set ws. keyFromValue w \<in> keyFromValue ` set es)"
    "contain_any_loop es ws = Inr (\<exists>w \<in> set ws. keyFromValue w \<in> keyFromValue ` set es)"
  using assms(2) containsValue_keys [OF assms(1) _ assms(3)] by (induction ws) auto

lemma satisfies_contain:
  assumes "kind_valid kind" and "v_array v" and "\<not> v_null v" and "v_kind v = kind" and "\<And>e. e \<in> set (v_elements v) \<Longrightarrow> scalar_of kind e"
    and "list_all (scalar_of kind) (bp_set p)" and "bp_operator p \<in> {PredicateContainAll, PredicateContainAny}"
  shows "satisfies p v \<longleftrightarrow>
    (if bp_operator p = PredicateContainAll then \<forall>w \<in> set (bp_set p). keyFromValue w \<in> keyFromValue ` set (v_elements v)
     else \<exists>w \<in> set (bp_set p). keyFromValue w \<in> keyFromValue ` set (v_elements v)) \<noteq> bp_negated p"
proof -
  have "bp_set p = [] \<or> kind = v_kind (hd (bp_set p))" using assms(6) by (cases "bp_set p") (auto simp: scalar_of_def)
  then have "evaluateContain p v = Inr (negated_truth (bp_negated p)
      (if bp_operator p = PredicateContainAll then \<forall>w \<in> set (bp_set p). keyFromValue w \<in> keyFromValue ` set (v_elements v)
       else \<exists>w \<in> set (bp_set p). keyFromValue w \<in> keyFromValue ` set (v_elements v)))"
    using assms(2-4) contain_loops [OF assms(1,6), of "v_elements v"] assms(5) by (simp add: evaluateContain_def)
  moreover have "BoundPredicate_Evaluate p v = evaluateContain p v"
    using assms(1,4,7) by (auto simp: BoundPredicate_Evaluate_def)
  ultimately show ?thesis by (simp add: satisfies_def del: Ball_def Bex_def)
qed

lemma satisfies_like:
  assumes "v_kind v = ValueString" and "\<not> v_null v" and "\<not> v_array v" and "bp_operator p = PredicateLike" and "bp_like p = Some pattern"
  shows "satisfies p v \<longleftrightarrow> LikePattern_Match pattern (v_text v)"
  using assms by (simp add: satisfies_def BoundPredicate_Evaluate_def kind_valid_def)

text \<open>An index that was sealed.\<close>

definition sealed_index :: "'b roaring \<Rightarrow> 'b InvertedIndex \<Rightarrow> row_values \<Rightarrow> bool" where
  "sealed_index R i m \<longleftrightarrow> index_of R i m \<and> ix_sealed i
   \<and> ix_ordered i = sort_Slice key_less (map fst (ix_postings i)) \<and> ix_lengths i = sort_Slice (<) (map fst (ix_arrayLength i))"

lemma Seal_index: "index_of R i m \<Longrightarrow> \<not> ix_sealed i \<Longrightarrow> sealed_index R (InvertedIndex_Seal i) m"
  by (simp add: sealed_index_def InvertedIndex_Seal_def index_of_def)


lemma rows_diff: "rows_where m P - rows_where m Q = rows_where m (\<lambda>v. P v \<and> \<not> Q v)"
  by (auto simp: rows_where_def)

lemma nonNull_rows: "index_of R i m \<Longrightarrow> bits_of R (ix_nonNull i) = rows_where m (\<lambda>v. \<not> v_null v)"
  by (simp add: index_of_def)

lemma scalar_rows:
  assumes "index_of R i m" and "\<not> f_Array (ix_field i)" and "\<not> (bp_operator p = PredicateIsNull)"
    and "\<And>v. scalar_of (f_Kind (ix_field i)) v \<Longrightarrow> width_ok v \<Longrightarrow> satisfies p v \<longleftrightarrow> Q v"
  shows "rows_where m (\<lambda>v. \<not> v_null v \<and> Q v) = rows_where m (satisfies p)"
proof (rule rows_where_cong)
  fix row v
  assume v: "m row = Some v"
  show "(\<not> v_null v \<and> Q v) = satisfies p v"
    using assms(3,4) satisfies_null [of v p] indexed_scalar [OF assms(1) v _ assms(2)] by (cases "v_null v") auto
qed

lemma array_rows:
  assumes "index_of R i m" and "f_Array (ix_field i)" and "\<not> (bp_operator p = PredicateIsNull)"
    and "\<And>row v. m row = Some v \<Longrightarrow> \<not> v_null v \<Longrightarrow> satisfies p v \<longleftrightarrow> Q v"
  shows "rows_where m (\<lambda>v. \<not> v_null v \<and> Q v) = rows_where m (satisfies p)"
proof (rule rows_where_cong)
  fix row v
  assume v: "m row = Some v"
  show "(\<not> v_null v \<and> Q v) = satisfies p v"
    using assms(3) assms(4) [OF v] satisfies_null [of v p] by (cases "v_null v") auto
qed

lemma union_rows:
  assumes "roaring_ok R" and "index_of R i m"
  shows "bits_of R (unionValues R i ws) = rows_where m (\<lambda>v. \<not> v_null v \<and> (\<exists>w \<in> set ws. keyFromValue w \<in> keys_of v))"
  by (auto simp: unionValues_bits [OF assms(1)] posted_rows [OF assms(2)] rows_where_def)

lemma negated_rows:
  assumes "roaring_ok R" and "index_of R i m" and "bits_of R b = rows_where m (\<lambda>v. \<not> v_null v \<and> Q v)"
  shows "bits_of R (if negated then Bitmap_AndNot R (ix_nonNull i) (Some b) else b) = rows_where m (\<lambda>v. \<not> v_null v \<and> Q v \<noteq> negated)"
  using assms by (auto simp: bitmap_sets nonNull_rows rows_where_def)

lemma search_range_exact:
  assumes R: "roaring_ok R" and s: "sealed_index R i m" and p: "predicate_for (ix_field i) p"
    and op: "bp_operator p \<in> {PredicateLT, PredicateLE, PredicateGT, PredicateGE}" and arr: "\<not> f_Array (ix_field i)"
    and res: "searchRange R i p = Inr (Some res)"
  shows "bits_of R (ir_Bitmap res) = rows_where m (satisfies p)"
proof -
  let ?kind = "f_Kind (ix_field i)"
  have i: "index_of R i m" and k: "kind_valid ?kind" using s by (auto simp: sealed_index_def index_of_def)
  have w: "scalar_of ?kind (bp_right p)" and cop: "bp_operator p \<in> comparison_operators" and nb: "?kind \<noteq> ValueBool"
    using p op by (auto simp: predicate_for_def comparison_operators_def)
  have d: "distinct (map fst (ix_postings i))" using i by (simp add: index_of_def posts_def)
  have "bits_of R (ir_Bitmap res) = (\<Union>key \<in> {key \<in> fst ` set (ix_postings i). key_matches (bp_right p) (bp_operator p) key}. posted R (ix_postings i) key)"
  proof (cases "f_RangeOptimized (ix_field i)")
    case True
    obtain start stop where b: "orderedBounds i (bp_right p) (bp_operator p) = Inr (start, stop)"
      "set (take (stop - start) (drop start (ix_ordered i))) =
        {key \<in> fst ` set (ix_postings i). order_test (bp_operator p) (key_order_of key) (order_of (bp_right p))}"
      using orderedBounds_keys [OF i _ w op] s by (auto simp: sealed_index_def)
    have "order_test (bp_operator p) (key_order_of key) (order_of (bp_right p)) \<longleftrightarrow> key_matches (bp_right p) (bp_operator p) key"
      if "key \<in> fst ` set (ix_postings i)" for key
      using compareValues_order [OF k index_key [OF i that] w] order_test_matches [OF op, of "key_order_of key" "order_of (bp_right p)"]
      by (simp add: key_matches_def key_order_of_def)
    then have "{key \<in> fst ` set (ix_postings i). order_test (bp_operator p) (key_order_of key) (order_of (bp_right p))} =
        {key \<in> fst ` set (ix_postings i). key_matches (bp_right p) (bp_operator p) key}" by blast
    moreover have "ir_Bitmap res = union_keys R (ix_postings i) (take (stop - start) (drop start (ix_ordered i)))"
      using res True b(1) by (auto simp: searchRange_def supportedBitmap_def)
    ultimately show ?thesis by (simp only: union_keys_bits [OF R] b(2))
  next
    case False
    obtain b' n' where t: "term_scan R (bp_right p) (bp_operator p) (ix_postings i) (NewBitmap R 0) 0 = Inr (b', n')"
      "bits_of R b' = (\<Union>q \<in> {q \<in> set (ix_postings i). key_matches (bp_right p) (bp_operator p) (fst q)}. bits_of R (snd q))"
      using term_scan_bits [OF R, of "ix_postings i" "bp_right p" "bp_operator p" "NewBitmap R 0" 0]
        compareValues_order [OF k index_key [OF i] w] by (auto simp: bitmap_New [OF R])
    have "ir_Bitmap res = b'" using res False t(1) by (auto simp: searchRange_def supportedBitmap_def)
    then show ?thesis using t(2) posted_mem [OF d, of _ _ R] by force
  qed
  also have "\<dots> = rows_where m (\<lambda>v. \<not> v_null v \<and> (\<exists>key \<in> keys_of v. key_matches (bp_right p) (bp_operator p) key))"
    by (rule posted_select [OF i])
  also have "\<dots> = rows_where m (\<lambda>v. \<not> v_null v \<and> key_matches (bp_right p) (bp_operator p) (keyFromValue v))"
    by (rule rows_where_cong) (use indexed_scalar(3) [OF i _ _ arr] in auto)
  also have "\<dots> = rows_where m (satisfies p)"
    by (rule scalar_rows [OF i arr])
       (use op satisfies_comparison [OF k _ w cop] key_compare [OF k _ _ w] nb in \<open>auto simp: key_matches_def\<close>)
  finally show ?thesis .
qed

lemma string_value [simp]: "v_kind (StringValue s) = ValueString" "v_text (StringValue s) = s"
  by (simp_all add: StringValue_def)

lemma string_keys: "v_kind v = ValueString \<Longrightarrow> v_kind w = ValueString \<Longrightarrow> keyFromValue v = keyFromValue w \<longleftrightarrow> v_text v = v_text w"
  by (simp add: keyFromValue_def zero_key_def Let_def)

text \<open>A search by a pattern, through its mode.\<close>

lemma scan_rows:
  assumes "roaring_ok R" and "index_of R i m" and "\<not> f_Array (ix_field i)" and "f_Kind (ix_field i) = ValueString"
    and "scan_terms R i test strategy = Some res"
  shows "bits_of R (ir_Bitmap res) = rows_where m (\<lambda>v. \<not> v_null v \<and> test (v_text v))"
proof -
  have "bits_of R (ir_Bitmap res) = rows_where m (\<lambda>v. \<not> v_null v \<and> (\<exists>key \<in> keys_of v. test (sk_text key)))"
    using scan_terms_bits [OF assms(1) _ assms(5)] assms(2) posted_select [OF assms(2)] by (simp add: index_of_def posts_def)
  also have "\<dots> = rows_where m (\<lambda>v. \<not> v_null v \<and> test (v_text v))"
  proof (rule rows_where_cong)
    fix row v
    assume v: "m row = Some v"
    show "(\<not> v_null v \<and> (\<exists>key \<in> keys_of v. test (sk_text key))) = (\<not> v_null v \<and> test (v_text v))"
      using indexed_scalar(3) [OF assms(2) v _ assms(3)] indexed [OF assms(2) v] assms(4) key_text [of v] by (auto simp: indexed_value_def)
  qed
  finally show ?thesis .
qed

lemma search_like_exact:
  assumes R: "roaring_ok R" and i: "index_of R i m" and c: "CompileLike (lp_raw pattern) = Inr pattern"
    and arr: "\<not> f_Array (ix_field i)" and str: "f_Kind (ix_field i) = ValueString"
    and res: "searchLike R i (Some pattern) = Inr (Some res)"
  shows "bits_of R (ir_Bitmap res) = rows_where m (\<lambda>v. \<not> v_null v \<and> LikePattern_Match pattern (v_text v))"
proof -
  have mode: "LikePattern_Match pattern (v_text v) \<longleftrightarrow> mode_spec (lp_mode pattern) (lp_literal pattern) (v_text v)"
    if "m row = Some v" "\<not> v_null v" "lp_mode pattern \<noteq> LikeGeneral" for row v
    using CompileLike_mode [OF c _ that(3)] indexed [OF i that(1)] that(2) arr str by (simp add: indexed_value_def)
  have rows: "rows_where m (\<lambda>v. \<not> v_null v \<and> Q v) = rows_where m (\<lambda>v. \<not> v_null v \<and> LikePattern_Match pattern (v_text v))"
    if "lp_mode pattern \<noteq> LikeGeneral" "\<And>v. Q v \<longleftrightarrow> mode_spec (lp_mode pattern) (lp_literal pattern) (v_text v)" for Q
    by (rule rows_where_cong) (use mode that in auto)
  obtain percents underscores where counts: "unescapedWildcardCounts (runes (lp_raw pattern)) = (percents, underscores)" by (metis surj_pair)
  have res': "(case lp_mode pattern of
       LikeExact \<Rightarrow> supportedBitmap (index_posting R i (StringValue (lp_literal pattern))) InvertedExact 1
     | LikeAny \<Rightarrow> supportedBitmap (ix_nonNull i) InvertedPrefix (length (ix_postings i))
     | LikePrefix \<Rightarrow> scanStringTerms R i (lp_literal pattern) [] InvertedPrefix
     | LikeSuffix \<Rightarrow> scanStringTerms R i [] (lp_literal pattern) InvertedSuffix
     | LikeGeneral \<Rightarrow> scanLikeTerms R i pattern InvertedPrefixSuffix
     | LikeContains \<Rightarrow> None) = Some res"
    using res unfolding searchLike_def counts by (cases "lp_mode pattern") (auto simp: counts split: if_split_asm)
  show ?thesis
  proof (cases "lp_mode pattern")
    case LikeExact
    have "posted R (ix_postings i) (keyFromValue (StringValue (lp_literal pattern))) = rows_where m (\<lambda>v. \<not> v_null v \<and> v_text v = lp_literal pattern)"
      unfolding posted_rows [OF i]
    proof (rule rows_where_cong)
      fix row v
      assume v: "m row = Some v"
      have "v_kind v = ValueString" using indexed [OF i v] str by (simp add: indexed_value_def)
      then show "(\<not> v_null v \<and> keyFromValue (StringValue (lp_literal pattern)) \<in> keys_of v) = (\<not> v_null v \<and> v_text v = lp_literal pattern)"
        using indexed_scalar(3) [OF i v _ arr] string_keys [of "StringValue (lp_literal pattern)" v] key_text [of "StringValue (lp_literal pattern)"]
        by (cases "v_null v") (simp_all add: string_value, metis)
    qed
    moreover have "rows_where m (\<lambda>v. \<not> v_null v \<and> v_text v = lp_literal pattern) = rows_where m (\<lambda>v. \<not> v_null v \<and> LikePattern_Match pattern (v_text v))"
      by (rule rows) (simp_all add: LikeExact)
    moreover have "ir_Bitmap res = index_posting R i (StringValue (lp_literal pattern))" using res' LikeExact by (auto simp: supportedBitmap_def)
    ultimately show ?thesis by (simp add: index_posting_bits [OF R])
  next
    case LikeAny
    then show ?thesis using res' rows [of "\<lambda>v. True"] nonNull_rows [OF i] by (auto simp: supportedBitmap_def)
  next
    case LikePrefix
    have "bits_of R (ir_Bitmap res) = rows_where m (\<lambda>v. \<not> v_null v \<and> prefix (lp_literal pattern) (v_text v) \<and> suffix [] (v_text v))"
      by (rule scan_rows [OF R i arr str, of _ InvertedPrefix]) (use res' LikePrefix in \<open>simp add: scanStringTerms_def\<close>)
    also have "\<dots> = rows_where m (\<lambda>v. \<not> v_null v \<and> LikePattern_Match pattern (v_text v))" by (rule rows) (simp_all add: LikePrefix)
    finally show ?thesis .
  next
    case LikeSuffix
    have "bits_of R (ir_Bitmap res) = rows_where m (\<lambda>v. \<not> v_null v \<and> prefix [] (v_text v) \<and> suffix (lp_literal pattern) (v_text v))"
      by (rule scan_rows [OF R i arr str, of _ InvertedSuffix]) (use res' LikeSuffix in \<open>simp add: scanStringTerms_def\<close>)
    also have "\<dots> = rows_where m (\<lambda>v. \<not> v_null v \<and> LikePattern_Match pattern (v_text v))" by (rule rows) (simp_all add: LikeSuffix)
    finally show ?thesis .
  next
    case LikeGeneral
    then show ?thesis using res' scan_rows [OF R i arr str] by (simp add: scanLikeTerms_def)
  qed (use res' in simp)
qed

theorem Search_exact:
  assumes R: "roaring_ok R" and s: "sealed_index R i m" and p: "predicate_for (ix_field i) p"
    and res: "InvertedIndex_Search R i p = Inr (Some res)"
  shows "bits_of R (ir_Bitmap res) = rows_where m (satisfies p)"
proof -
  let ?kind = "f_Kind (ix_field i)"
  have i: "index_of R i m" and k: "kind_valid ?kind" using s by (auto simp: sealed_index_def index_of_def)
  have valid: "validatePredicate i p = None" using res by (simp add: InvertedIndex_Search_def split: if_split_asm option.split_asm)
  note search = res [unfolded InvertedIndex_Search_def]
  have sealed: "ix_sealed i" using s by (simp add: sealed_index_def)
  have scalars: "list_all (scalar_of ?kind) (bp_set p)" using p by (simp add: predicate_for_def)
  consider (null) "bp_operator p = PredicateIsNull" | (like) "bp_operator p = PredicateLike" | (set) "bp_operator p = PredicateIn"
    | (contain) "bp_operator p \<in> {PredicateContainAll, PredicateContainAny}" | (equal) "bp_operator p \<in> {PredicateEQ, PredicateNE}"
    | (order) "bp_operator p \<in> {PredicateLT, PredicateLE, PredicateGT, PredicateGE}" by (cases "bp_operator p") auto
  then show ?thesis
  proof cases
    case null
    have "satisfies p v \<longleftrightarrow> v_null v \<noteq> bp_negated p" if "m row = Some v" for row v
      using null k indexed [OF i that] by (simp add: satisfies_def BoundPredicate_Evaluate_def indexed_value_def value_ok_def)
    then have "rows_where m (satisfies p) = rows_where m (\<lambda>v. v_null v \<noteq> bp_negated p)" by (rule rows_where_cong)
    then show ?thesis
      using res null sealed valid i by (cases "bp_negated p") (auto simp: InvertedIndex_Search_def supportedBitmap_def index_of_def)
  next
    case like
    obtain pattern where pat: "bp_like p = Some pattern" "\<not> f_Array (ix_field i)" "?kind = ValueString"
      using valid like by (auto simp: validatePredicate_def Let_def split: if_split_asm)
    have c: "CompileLike (lp_raw pattern) = Inr pattern" using p pat(1) by (simp add: predicate_for_def)
    have "searchLike R i (Some pattern) = Inr (Some res)" using res like sealed valid pat(1) by (simp add: InvertedIndex_Search_def)
    then have "bits_of R (ir_Bitmap res) = rows_where m (\<lambda>v. \<not> v_null v \<and> LikePattern_Match pattern (v_text v))"
      by (rule search_like_exact [OF R i c pat(2,3)])
    also have "\<dots> = rows_where m (satisfies p)"
      by (rule scalar_rows [OF i pat(2)]) (use like satisfies_like [OF _ _ _ like pat(1)] pat(3) in \<open>auto simp: scalar_of_def\<close>)
    finally show ?thesis .
  next
    case set
    have arr: "\<not> f_Array (ix_field i)" using valid set by (auto simp: validatePredicate_def Let_def split: if_split_asm)
    let ?Q = "\<lambda>v. \<exists>w \<in> set (bp_set p). keyFromValue v = keyFromValue w"
    have u: "bits_of R (unionValues R i (bp_set p)) = rows_where m (\<lambda>v. \<not> v_null v \<and> ?Q v)"
      unfolding union_rows [OF R i]
    proof (rule rows_where_cong)
      fix row v
      assume v: "m row = Some v"
      show "(\<not> v_null v \<and> (\<exists>w \<in> set (bp_set p). keyFromValue w \<in> keys_of v)) = (\<not> v_null v \<and> ?Q v)"
        using indexed_scalar(3) [OF i v _ arr] by (cases "v_null v") (simp_all, metis)
    qed
    have "bits_of R (ir_Bitmap res) = rows_where m (\<lambda>v. \<not> v_null v \<and> ?Q v \<noteq> bp_negated p)"
      using res set sealed valid arr
      by (cases "bp_negated p") (auto simp: InvertedIndex_Search_def supportedBitmap_def Let_def bitmap_sets [OF R] nonNull_rows [OF i] u rows_diff rows_where_def)
    also have "\<dots> = rows_where m (satisfies p)"
      by (rule scalar_rows [OF i arr]) (use set satisfies_in [OF k _ scalars set] in auto)
    finally show ?thesis .
  next
    case contain
    have arr: "f_Array (ix_field i)" using valid contain by (auto simp: validatePredicate_def Let_def split: if_split_asm)
    let ?Q = "\<lambda>v. if bp_operator p = PredicateContainAll then \<forall>w \<in> set (bp_set p). keyFromValue w \<in> keyFromValue ` set (v_elements v)
      else \<exists>w \<in> set (bp_set p). keyFromValue w \<in> keyFromValue ` set (v_elements v)"
    have keys: "keys_of v = keyFromValue ` set (v_elements v)" if "m row = Some v" for row v by (rule indexed_array(4) [OF i that arr])
    have u: "bits_of R (if bp_operator p = PredicateContainAll then contain_loop R i (bp_set p) (ix_nonNull i) else unionValues R i (bp_set p)) =
        rows_where m (\<lambda>v. \<not> v_null v \<and> ?Q v)" (is "bits_of R ?b = _")
    proof -
      have "bits_of R ?b = rows_where m (\<lambda>v. \<not> v_null v \<and> (if bp_operator p = PredicateContainAll then \<forall>w \<in> set (bp_set p). keyFromValue w \<in> keys_of v
          else \<exists>w \<in> set (bp_set p). keyFromValue w \<in> keys_of v))"
        by (auto simp: contain_loop_bits [OF R] union_rows [OF R i] posted_rows [OF i] nonNull_rows [OF i] rows_where_def)
      also have "\<dots> = rows_where m (\<lambda>v. \<not> v_null v \<and> ?Q v)" by (rule rows_where_cong) (simp only: keys)
      finally show ?thesis .
    qed
    have "ir_Bitmap res = searchContain R i p" using res contain sealed valid arr by (auto simp: InvertedIndex_Search_def supportedBitmap_def)
    then have "bits_of R (ir_Bitmap res) = rows_where m (\<lambda>v. \<not> v_null v \<and> ?Q v \<noteq> bp_negated p)"
      using negated_rows [OF R i u, of "bp_negated p"] by (simp only: searchContain_def Let_def)
    also have "\<dots> = rows_where m (satisfies p)"
      by (rule array_rows [OF i arr]) (use contain satisfies_contain [OF k _ _ _ _ scalars contain] indexed_array [OF i _ arr] in auto)
    finally show ?thesis .
  next
    case equal
    have arr: "\<not> f_Array (ix_field i)" using valid equal by (auto simp: validatePredicate_def Let_def comparison_operators_def split: if_split_asm)
    have w: "scalar_of ?kind (bp_right p)" and cop: "bp_operator p \<in> comparison_operators" using p equal by (auto simp: predicate_for_def comparison_operators_def)
    have u: "bits_of R (index_posting R i (bp_right p)) = rows_where m (\<lambda>v. \<not> v_null v \<and> keyFromValue v = keyFromValue (bp_right p))"
      unfolding index_posting_bits [OF R] posted_rows [OF i] by (rule rows_where_cong) (use indexed_scalar(3) [OF i _ _ arr] in auto)
    have "bits_of R (ir_Bitmap res) = rows_where m (\<lambda>v. \<not> v_null v \<and> (keyFromValue v = keyFromValue (bp_right p)) = (bp_operator p = PredicateEQ))"
      using res equal sealed valid arr
      by (cases "bp_operator p = PredicateEQ") (auto simp: InvertedIndex_Search_def supportedBitmap_def bitmap_sets [OF R] nonNull_rows [OF i] u rows_diff rows_where_def)
    also have "\<dots> = rows_where m (satisfies p)"
    proof (rule scalar_rows [OF i arr])
      show "satisfies p v \<longleftrightarrow> (keyFromValue v = keyFromValue (bp_right p)) = (bp_operator p = PredicateEQ)" if "scalar_of ?kind v" for v
        using equal satisfies_comparison [OF k that w cop] compareValues_equal [OF k that w] key_order [OF that w k] compareValues_scalars [OF k that w]
        by (auto simp: comparison_matches_def)
    qed (use equal in auto)
    finally show ?thesis .
  next
    case order
    have arr: "\<not> f_Array (ix_field i)" using valid order by (auto simp: validatePredicate_def Let_def comparison_operators_def split: if_split_asm)
    have "searchRange R i p = Inr (Some res)" using res order sealed valid arr by (auto simp: InvertedIndex_Search_def)
    then show ?thesis by (rule search_range_exact [OF R s p order arr])
  qed
qed

section \<open>Array lengths\<close>

definition length_value :: "Value \<Rightarrow> Value" where
  "length_value v = Uint32Value (word_of_nat (length (v_elements v)))"

lemma length_scalar: "scalar_of ValueUint32 (length_value v)"
  by (simp add: length_value_def Uint32Value_def scalar_of_def)

lemma orderedUint32Bounds_keys:
  assumes "sorted xs" and "operator \<in> comparison_operators" and "operator \<noteq> PredicateNE"
  obtains start stop where "orderedUint32Bounds xs target operator = (start, stop)"
    "set (take (stop - start) (drop start xs)) = {x \<in> set xs. order_test operator x target}"
proof -
  let ?n = "length xs"
  have mono: "xs ! a \<le> xs ! b" if "a \<le> b" "b < ?n" for a b using assms(1) that by (simp add: sorted_iff_nth_mono)
  obtain lower where l: "lower \<le> ?n" "sort_Search ?n (\<lambda>index. Inr (target \<le> xs ! index)) = (lower, None)" "\<And>k. k < ?n \<Longrightarrow> target \<le> xs ! k \<longleftrightarrow> lower \<le> k"
    by (rule sort_Search_monotone [of ?n "\<lambda>index. Inr (target \<le> xs ! index)" "\<lambda>index. target \<le> xs ! index"])
       (use mono order_trans in \<open>blast+\<close>)
  obtain upper where u: "upper \<le> ?n" "sort_Search ?n (\<lambda>index. Inr (target < xs ! index)) = (upper, None)" "\<And>k. k < ?n \<Longrightarrow> target < xs ! k \<longleftrightarrow> upper \<le> k"
    by (rule sort_Search_monotone [of ?n "\<lambda>index. Inr (target < xs ! index)" "\<lambda>index. target < xs ! index"])
       (use mono less_le_trans in \<open>blast+\<close>)
  obtain start stop where b: "operator_bounds operator lower upper ?n = Some (start, stop)"
    using assms(2,3) by (auto simp: operator_bounds_def comparison_operators_def)
  have "set (take (stop - start) (drop start xs)) = {x \<in> set xs. order_test operator x target}"
    by (rule take_drop_positions) (use operator_bounds_positions [OF b l(3) u(3) l(1) u(1)] in \<open>simp add: order_test_def\<close>)
  then show thesis using that [of start stop] b l(2) u(2) by (simp add: orderedUint32Bounds_def Let_def)
qed

lemma length_satisfies:
  assumes "scalar_of ValueUint32 (bp_right p)" and "width_ok (bp_right p)" and "bp_operator p \<in> comparison_operators"
  shows "satisfies p (length_value v) \<longleftrightarrow>
    (if bp_operator p = PredicateNE then word_of_nat (length (v_elements v)) \<noteq> (ucast (v_unsigned (bp_right p)) :: u32)
     else order_test (bp_operator p) (word_of_nat (length (v_elements v))) (ucast (v_unsigned (bp_right p)) :: u32))"
proof -
  let ?x = "word_of_nat (length (v_elements v)) :: u32" and ?y = "ucast (v_unsigned (bp_right p)) :: u32"
  have k: "kind_valid ValueUint32" by (simp add: kind_valid_def)
  have y: "v_unsigned (bp_right p) = ucast ?y" using assms(1,2) by (simp add: width_ok_def scalar_of_def)
  have u: "uint (ucast (z :: u32) :: u64) = uint z" for z by (rule uint_up_ucast) (simp add: is_up)
  have ord: "order_of (length_value v) = ([], False, uint ?x, 0)" "order_of (bp_right p) = ([], False, uint ?y, 0)"
    using assms(1) y u [of ?x] u [of ?y] by (simp_all add: order_of_def length_value_def Uint32Value_def scalar_of_def)
  have "satisfies p (length_value v) \<longleftrightarrow> comparison_matches (bp_operator p) (three_way (order_of (length_value v) < order_of (bp_right p)) (order_of (bp_right p) < order_of (length_value v)))"
    using satisfies_comparison [OF k length_scalar assms(1,3)] compareValues_order [OF k length_scalar assms(1)] by simp
  then show ?thesis
    using assms(3) unfolding comparison_operators_def
    by (elim insertE emptyE) (simp_all add: comparison_order order_test_def ord word_less_def word_le_def word_uint_eq_iff)
qed

theorem SearchArrayLength_exact:
  assumes R: "roaring_ok R" and s: "sealed_index R i m" and w: "width_ok (bp_right p)"
    and res: "SearchArrayLength R i p = Inr (Some res)"
  shows "bits_of R (ir_Bitmap res) = rows_where m (\<lambda>v. \<not> v_null v \<and> satisfies p (length_value v))"
proof -
  have i: "index_of R i m" and lens: "ix_lengths i = sort_Slice (<) (map fst (ix_arrayLength i))" using s by (auto simp: sealed_index_def)
  have guards: "f_Array (ix_field i)" "scalar_of ValueUint32 (bp_right p)" "bp_operator p \<in> comparison_operators"
    using res by (auto simp: SearchArrayLength_def scalar_of_def split: if_split_asm)
  let ?t = "ucast (v_unsigned (bp_right p)) :: u32"
  have posted: "posted R (ix_arrayLength i) len = rows_where m (\<lambda>v. \<not> v_null v \<and> word_of_nat (length (v_elements v)) = len)" for len
  proof -
    have "posted R (ix_arrayLength i) len = rows_where m (\<lambda>v. \<not> v_null v \<and> len \<in> length_keys v)" using i by (simp add: index_of_def posts_def)
    also have "\<dots> = rows_where m (\<lambda>v. \<not> v_null v \<and> word_of_nat (length (v_elements v)) = len)"
      by (rule rows_where_cong) (use indexed_array(1) [OF i _ guards(1)] in \<open>auto simp: length_keys_def\<close>)
    finally show ?thesis .
  qed
  show ?thesis
  proof (cases "bp_operator p = PredicateNE")
    case True
    have "bits_of R (Bitmap_AndNot R (ix_nonNull i) (map_of (ix_arrayLength i) ?t)) = bits_of R (ix_nonNull i) - posted R (ix_arrayLength i) ?t"
      by (auto simp: posted_def bitmap_sets [OF R] split: option.split)
    then show ?thesis
      using res True guards posted length_satisfies [OF guards(2) w guards(3)] nonNull_rows [OF i]
      by (auto simp: SearchArrayLength_def supportedBitmap_def Let_def rows_where_def split: if_split_asm)
  next
    case False
    have "sorted (ix_lengths i)" using sort_Slice_sorted [of "map fst (ix_arrayLength i)" "(<)" "\<lambda>x. x"] lens by simp
    then obtain start stop where b: "orderedUint32Bounds (ix_lengths i) ?t (bp_operator p) = (start, stop)"
      "set (take (stop - start) (drop start (ix_lengths i))) = {x \<in> set (ix_lengths i). order_test (bp_operator p) x ?t}"
      using orderedUint32Bounds_keys [OF _ guards(3) False] by blast
    have keys: "set (ix_lengths i) = fst ` set (ix_arrayLength i)" by (simp add: lens)
    have "ir_Bitmap res = union_keys R (ix_arrayLength i) (take (stop - start) (drop start (ix_lengths i)))"
      using res False guards b(1) by (auto simp: SearchArrayLength_def supportedBitmap_def Let_def scalar_of_def split: if_split_asm)
    then have "bits_of R (ir_Bitmap res) = (\<Union>len \<in> {x \<in> fst ` set (ix_arrayLength i). order_test (bp_operator p) x ?t}. posted R (ix_arrayLength i) len)"
      by (simp only: union_keys_bits [OF R] b(2) keys)
    also have "\<dots> = (\<Union>len \<in> {x. order_test (bp_operator p) x ?t}. posted R (ix_arrayLength i) len)"
    proof (intro equalityI subsetI)
      fix row
      assume "row \<in> (\<Union>len \<in> {x. order_test (bp_operator p) x ?t}. posted R (ix_arrayLength i) len)"
      then obtain len where "order_test (bp_operator p) len ?t" "row \<in> posted R (ix_arrayLength i) len" by blast
      moreover have "len \<in> fst ` set (ix_arrayLength i)" by (rule posted_key [OF calculation(2)])
      ultimately show "row \<in> (\<Union>len \<in> {x \<in> fst ` set (ix_arrayLength i). order_test (bp_operator p) x ?t}. posted R (ix_arrayLength i) len)" by blast
    qed blast
    also have "\<dots> = rows_where m (\<lambda>v. \<not> v_null v \<and> order_test (bp_operator p) (word_of_nat (length (v_elements v))) ?t)"
      by (auto simp: posted rows_where_def)
    finally show ?thesis using False length_satisfies [OF guards(2) w guards(3)] by simp
  qed
qed

end
