(* ===== verification/Sql_Candidates.thy ===== *)
theory Sql_Candidates
  imports Sql_Search
begin

text \<open>
  The rows a plan takes from the inverted indexes of its fields: \<open>Candidates\<close> and \<open>candidatesForNode\<close> of
  \<open>internal/db/sql/plan.go\<close>.  The bitmaps an index returns are copies, so that intersecting them in place leaves the
  index as it is.
\<close>

section \<open>Building an index\<close>

text \<open>The callers of an index add one row after the other and then seal it.\<close>

fun add_rows :: "'b roaring \<Rightarrow> 'b InvertedIndex \<Rightarrow> (u64 \<times> Value) list \<Rightarrow> 'b InvertedIndex sql_result" where
  "add_rows R i [] = Inr i"
| "add_rows R i ((row, v) # rest) = (case InvertedIndex_Add R i row v of Inl err \<Rightarrow> Inl err | Inr i \<Rightarrow> add_rows R i rest)"

lemma add_rows_index:
  assumes "roaring_ok R"
  shows "index_of R i m \<Longrightarrow> \<not> ix_sealed i \<Longrightarrow> \<forall>(row, v) \<in> set rows. value_ok v \<Longrightarrow> add_rows R i rows = Inr i' \<Longrightarrow>
    index_of R i' (m ++ map_of (rev rows)) \<and> ix_field i' = ix_field i \<and> \<not> ix_sealed i'"
proof (induction rows arbitrary: i m)
  case (Cons rv rest)
  obtain row v where rv: "rv = (row, v)" by (metis surj_pair)
  obtain j where j: "InvertedIndex_Add R i row v = Inr j" "add_rows R j rest = Inr i'" using Cons.prems(4) by (auto simp: rv split: sum.split_asm)
  have "index_of R j (m(row \<mapsto> v)) \<and> ix_field j = ix_field i \<and> \<not> ix_sealed j"
    using Add_index [OF assms Cons.prems(1) _ j(1)] Cons.prems(3) by (simp add: rv)
  moreover have "m ++ map_of (rev (rv # rest)) = (m(row \<mapsto> v)) ++ map_of (rev rest)" by (auto simp: rv map_add_def split: option.split)
  ultimately show ?case using Cons.IH [OF _ _ _ j(2)] Cons.prems(3) by auto
qed simp

lemma built_index:
  assumes "roaring_ok R" and "NewInvertedIndex R field = Inr i" and "\<forall>(row, v) \<in> set rows. value_ok v" and "add_rows R i rows = Inr i'"
  shows "sealed_index R (InvertedIndex_Seal i') (map_of (rev rows))" "ix_field (InvertedIndex_Seal i') = field"
proof -
  have "index_of R i' (Map.empty ++ map_of (rev rows)) \<and> ix_field i' = field \<and> \<not> ix_sealed i'"
    using add_rows_index [OF assms(1) _ _ assms(3,4), of Map.empty] New_index [OF assms(1,2)] by simp
  then show "sealed_index R (InvertedIndex_Seal i') (map_of (rev rows))" "ix_field (InvertedIndex_Seal i') = field"
    using Seal_index [of R i'] by (auto simp: InvertedIndex_Seal_def)
qed

section \<open>Candidates\<close>

type_synonym 'b IndexSet = "bytes \<rightharpoonup> 'b InvertedIndex"

text \<open>The bitmap of a constant plan: every row from 0 on is set when the plan is true.\<close>

definition constant_rows :: "'b roaring \<Rightarrow> Truth \<Rightarrow> u64 \<Rightarrow> 'b Bitmap" where
  "constant_rows R t totalRows =
     (if t = TruthTrue
      then foldl (\<lambda>bitmap row. snd (Bitmap_Set R (word_of_nat row) bitmap)) (NewBitmap R totalRows) [0..<unat totalRows]
      else NewBitmap R totalRows)"

text \<open>Without a bitmap \<open>used\<close> is false; with one, the Boolean is \<open>exact\<close>.\<close>

type_synonym 'b candidates = "('b Bitmap \<times> bool) option"

definition predicate_candidates ::
  "'b roaring \<Rightarrow> valueSource \<Rightarrow> BoundPredicate \<Rightarrow> 'b IndexSet \<Rightarrow> 'b candidates sql_result" where
  "predicate_candidates R source predicate indexes =
     (case (case source of fieldSource f \<Rightarrow> (f, False) | arrayLengthSource f \<Rightarrow> (f, True)) of (field, arrayLength) \<Rightarrow>
      if \<not> f_Indexed field then Inr None
      else (case indexes (f_Name field) of
        None \<Rightarrow> Inr None
      | Some index \<Rightarrow>
        (case (if arrayLength then SearchArrayLength R index predicate else InvertedIndex_Search R index predicate) of
           Inl err \<Rightarrow> Inl err
         | Inr None \<Rightarrow> Inr None
         | Inr (Some result) \<Rightarrow> Inr (Some (ir_Bitmap result, True)))))"

definition combine_candidates :: "'b roaring \<Rightarrow> LogicalOperator \<Rightarrow> 'b candidates \<Rightarrow> 'b candidates \<Rightarrow> 'b candidates" where
  "combine_candidates R operator left right = (case operator of
     LogicalAnd \<Rightarrow>
       (case (left, right) of
          (Some (l, leftExact), Some (r, rightExact)) \<Rightarrow> Some (Bitmap_And R l (Some r), leftExact \<and> rightExact)
        | (Some (l, _), None) \<Rightarrow> Some (l, False)
        | (None, Some (r, _)) \<Rightarrow> Some (r, False)
        | (None, None) \<Rightarrow> None)
   | LogicalOr \<Rightarrow>
       (case (left, right) of
          (Some (l, leftExact), Some (r, rightExact)) \<Rightarrow> Some (Bitmap_Or R l (Some r), leftExact \<and> rightExact)
        | _ \<Rightarrow> None))"

fun candidatesForNode :: "'b roaring \<Rightarrow> planNode \<Rightarrow> 'b IndexSet \<Rightarrow> u64 \<Rightarrow> 'b candidates sql_result" where
  "candidatesForNode R (constantPlanNode t) indexes totalRows = Inr (Some (constant_rows R t totalRows, True))"
| "candidatesForNode R (predicatePlanNode source predicate label) indexes totalRows = predicate_candidates R source predicate indexes"
| "candidatesForNode R (logicalPlanNode operator left right) indexes totalRows =
     (case candidatesForNode R left indexes totalRows of
        Inl err \<Rightarrow> Inl err
      | Inr l \<Rightarrow>
        case candidatesForNode R right indexes totalRows of
          Inl err \<Rightarrow> Inl err
        | Inr r \<Rightarrow> Inr (combine_candidates R operator l r))"

definition Plan_Candidates :: "'b roaring \<Rightarrow> Plan \<Rightarrow> 'b IndexSet \<Rightarrow> u64 \<Rightarrow> 'b candidates sql_result" where
  "Plan_Candidates R p indexes totalRows = candidatesForNode R (plan_root p) indexes totalRows"

section \<open>Bound plans\<close>

text \<open>What the analysis and the optimiser see to: the fields are those of the schema and the operands have their types.\<close>

definition searchable :: "Field \<Rightarrow> BoundPredicate \<Rightarrow> bool" where
  "searchable field p \<longleftrightarrow>
     (bp_operator p \<in> comparison_operators \<longrightarrow> \<not> f_Array field)
   \<and> (bp_operator p = PredicateIn \<longrightarrow> \<not> f_Array field \<and> bp_set p \<noteq> [])
   \<and> (bp_operator p \<in> {PredicateContainAll, PredicateContainAny} \<longrightarrow> f_Array field)
   \<and> (bp_operator p = PredicateLike \<longrightarrow> \<not> f_Array field \<and> f_Kind field = ValueString \<and> bp_like p \<noteq> None)"

definition bound_ok :: "Schema \<Rightarrow> valueSource \<Rightarrow> BoundPredicate \<Rightarrow> bool" where
  "bound_ok schema source p = (case source of
     fieldSource f \<Rightarrow> (\<exists>name. Schema_Field schema name = Some f) \<and> predicate_for f p \<and> searchable f p
   | arrayLengthSource f \<Rightarrow> (\<exists>name. Schema_Field schema name = Some f) \<and> f_Array f
       \<and> bp_operator p \<in> comparison_operators \<and> scalar_of ValueUint32 (bp_right p) \<and> width_ok (bp_right p))"

fun node_ok :: "Schema \<Rightarrow> planNode \<Rightarrow> bool" where
  "node_ok schema (constantPlanNode t) = True"
| "node_ok schema (logicalPlanNode operator left right) = (node_ok schema left \<and> node_ok schema right)"
| "node_ok schema (predicatePlanNode source p label) = bound_ok schema source p"

lemma bindLiteral_width: "bindLiteral literal kind = Inr v \<Longrightarrow> width_ok v"
  by (cases kind)
     (auto simp: bindLiteral_def literal_error_def width_ok_def BinaryValue_def StringValue_def BoolValue_def Int32Value_def Int64Value_def
       Uint32Value_def Uint64Value_def Float32Value_def Float64Value_def Let_def narrow_widen split: if_split_asm option.split_asm)

lemma CompileLike_raw: "CompileLike s = Inr pattern \<Longrightarrow> CompileLike (lp_raw pattern) = Inr pattern"
  by (auto simp: CompileLike_def Let_def split: if_split_asm prod.split_asm)

lemma zero_width: "width_ok zero_value"
  by (simp add: width_ok_def zero_value_def)

lemma NewSetPredicate_for:
  assumes "NewSetPredicate operator negated ws = Inr p" and "list_all (scalar_of (f_Kind field)) ws"
  shows "predicate_for field p" "width_ok (bp_right p)"
  using assms by (auto simp: NewSetPredicate_def predicate_for_def comparison_operators_def zero_width split: if_split_asm)

lemma bindSetPredicate_for:
  assumes "bindSetPredicate operator negated right (f_Kind field) = Inr p"
  shows "predicate_for field p" "width_ok (bp_right p)"
proof -
  obtain literals rng ws where r: "bind_values literals (f_Kind field) = Inr ws" "NewSetPredicate operator negated ws = Inr p"
    using assms by (auto simp: bindSetPredicate_def right_error_def split: option.split_asm ValueExpr.split_asm sum.split_asm)
  show "predicate_for field p" "width_ok (bp_right p)" using NewSetPredicate_for [OF r(2), of field] bind_values_scalar [OF r(1)] by simp_all
qed

lemma NewComparisonPredicate_for:
  assumes "NewComparisonPredicate operator v = Inr p" and "scalar_of (f_Kind field) v"
    and "f_Kind field = ValueBool \<Longrightarrow> operator \<in> {PredicateEQ, PredicateNE}"
  shows "predicate_for field p" "bp_right p = v"
  using assms by (auto simp: NewComparisonPredicate_def predicate_for_def split: if_split_asm)

lemma NewLikePredicate_for:
  assumes "NewLikePredicate pattern = Inr p"
  shows "predicate_for field p" "width_ok (bp_right p)"
  using assms CompileLike_raw by (auto simp: NewLikePredicate_def predicate_for_def comparison_operators_def zero_width split: sum.split_asm)

lemma NewNullPredicate_for: "predicate_for field (NewNullPredicate negated)" "width_ok (bp_right (NewNullPredicate negated))"
  by (simp_all add: NewNullPredicate_def predicate_for_def comparison_operators_def zero_width)

lemma bind_comparison_for:
  assumes "bind_operator field operator negated right rng = Inr p" and "operator \<in> comparison_operators"
  shows "predicate_for field p \<and> width_ok (bp_right p)"
proof -
  obtain literal v where r: "right = Some (LiteralNode literal)" "bindLiteral literal (f_Kind field) = Inr v"
    "NewComparisonPredicate operator v = Inr p" "f_Kind field = ValueBool \<Longrightarrow> operator \<in> {PredicateEQ, PredicateNE}"
    using assms unfolding comparison_operators_def
    by (elim insertE emptyE) (auto simp: bind_operator_def right_error_def Let_def split: if_split_asm option.split_asm ValueExpr.split_asm sum.split_asm)
  show ?thesis
    using NewComparisonPredicate_for [OF r(3), of field] r(4) bindLiteral_scalar [OF r(2)] bindLiteral_width [OF r(2)] by simp
qed

lemma bind_operator_for:
  assumes "bind_operator field operator negated right rng = Inr p"
  shows "predicate_for field p \<and> width_ok (bp_right p)"
proof (cases "operator \<in> comparison_operators")
  case True
  then show ?thesis using bind_comparison_for [OF assms] by simp
next
  case False
  then consider "operator = PredicateIsNull" | "operator = PredicateLike" | "operator \<in> {PredicateIn, PredicateContainAll, PredicateContainAny}"
    by (cases operator) (auto simp: comparison_operators_def)
  then show ?thesis
  proof cases
    case 1
    then show ?thesis using assms NewNullPredicate_for by (auto simp: bind_operator_def)
  next
    case 2
    then have "\<exists>pattern. NewLikePredicate pattern = Inr p"
      using assms
      by (auto simp: bind_operator_def right_error_def Let_def split: if_split_asm option.split_asm ValueExpr.split_asm sum.split_asm)
    then show ?thesis using NewLikePredicate_for by blast
  next
    case 3
    then have "bindSetPredicate operator negated right (f_Kind field) = Inr p"
      using assms by (auto simp: bind_operator_def Let_def split: if_split_asm sum.split_asm)
    then show ?thesis using bindSetPredicate_for by blast
  qed
qed


lemma bind_operator_searchable:
  assumes "bind_operator field operator negated right rng = Inr p" and "operator_error source field operator = None"
  shows "bp_operator p = operator" "searchable field p"
proof -
  have "bp_operator p = operator \<and> (operator = PredicateIn \<longrightarrow> bp_set p \<noteq> [])
      \<and> (operator = PredicateLike \<longrightarrow> \<not> f_Array field \<and> f_Kind field = ValueString \<and> bp_like p \<noteq> None)"
    using assms(1)
    by (cases operator)
       (auto simp: bind_operator_def bindSetPredicate_def NewSetPredicate_def NewNullPredicate_def NewLikePredicate_def NewComparisonPredicate_def
          right_error_def Let_def split: if_split_asm option.split_asm ValueExpr.split_asm sum.split_asm)
  then show "bp_operator p = operator" "searchable field p"
    using assms(2) by (auto simp: operator_error_def searchable_def comparison_operators_def split: if_split_asm)
qed

lemma bindSource_field:
  assumes "fst (bindSource a e) = Inr (source, field)"
  shows "(\<exists>name. Schema_Field (fa_schema a) name = Some field) \<and> source = fieldSource field
    \<or> (\<exists>name f. Schema_Field (fa_schema a) name = Some f \<and> f_Array f \<and> source = arrayLengthSource f \<and> f_Kind field = ValueUint32)"
  using assms
  by (auto simp: bindSource_def requireField_def split: ValueExpr.split_asm option.split_asm if_split_asm list.split_asm prod.split_asm sum.split_asm)

lemma bindPredicate_ok:
  assumes "fst (bindPredicate a operator left right negated rng) = Inr node"
  shows "node_ok (fa_schema a) node"
proof -
  obtain source field p label where r: "fst (bindSource a left) = Inr (source, field)" "operator_error source field operator = None"
    "bind_operator field operator negated right rng = Inr p" "node = predicatePlanNode source p label"
    using assms by (auto simp: bindPredicate_def split: prod.split_asm sum.split_asm option.split_asm)
  have p: "predicate_for field p" "width_ok (bp_right p)" "searchable field p" "bp_operator p = operator"
    using bind_operator_for [OF r(3)] bind_operator_searchable [OF r(3,2)] by auto
  from bindSource_field [OF r(1)] show ?thesis
  proof (elim disjE exE conjE)
    fix name f
    assume f: "Schema_Field (fa_schema a) name = Some f" "f_Array f" "source = arrayLengthSource f" "f_Kind field = ValueUint32"
    have "operator \<in> comparison_operators" using r(2) f(3) by (auto simp: operator_error_def split: if_split_asm)
    then show ?thesis using p f by (auto simp: r(4) bound_ok_def predicate_for_def)
  qed (use p in \<open>auto simp: r(4) bound_ok_def\<close>)
qed

lemma bindExpression_ok: "fst (bindExpression a e) = Inr node \<Longrightarrow> node_ok (fa_schema a) node"
proof (induction e arbitrary: a node)
  case (LogicalExpr operator left right rng)
  obtain l where l: "fst (bindExpression a left) = Inr l"
    using LogicalExpr.prems by (auto split: prod.split_asm sum.split_asm)
  let ?a = "snd (bindExpression a left)"
  obtain r where r: "fst (bindExpression ?a right) = Inr r" "node = logicalPlanNode operator l r"
    using LogicalExpr.prems l by (auto split: prod.split_asm sum.split_asm)
  show ?case using LogicalExpr.IH(1) [OF l] LogicalExpr.IH(2) [OF r(1)] by (simp add: r(2))
qed (auto intro: bindPredicate_ok)

lemma rewriteBoundPlan_ok: "node_ok schema node \<Longrightarrow> node_ok schema (fst (rewriteBoundPlan node stats))"
proof (induction node stats rule: rewriteBoundPlan.induct)
  case (1 operator left right stats)
  then show ?case by (auto split: prod.split)
next
  case (2 source p label stats)
  have "searchable f (NewNullPredicate True)" for f by (simp add: searchable_def NewNullPredicate_def comparison_operators_def)
  then show ?case using 2 NewNullPredicate_for by (auto simp: Let_def bound_ok_def comparison_operators_def split: valueSource.split_asm)
qed simp

lemma optimizePlan_ok: "node_ok schema node \<Longrightarrow> node_ok schema (fst (optimizePlan node stats))"
proof (induction node stats rule: optimizePlan.induct)
  case (1 operator left right stats)
  then show ?case by (auto simp: fold_constants_def Let_def split: prod.split)
qed simp_all

lemma BuildPlan_ok:
  assumes "BuildPlan input schema = Inr plan"
  shows "node_ok schema (plan_root plan)"
proof -
  obtain rewritten node stats where r: "fst (bindExpression \<lparr>fa_schema = schema, fa_seen = {}, fa_fields = []\<rparr> rewritten) = Inr node"
    "plan_root plan = fst (optimize node stats)"
    using assms by (auto simp: BuildPlan_def split: sum.split_asm prod.split_asm) (metis fst_conv)
  have "node_ok schema node" using bindExpression_ok [OF r(1)] by simp
  then show ?thesis
    using rewriteBoundPlan_ok [of schema node stats] optimizePlan_ok by (auto simp: r(2) optimize_def split: prod.split)
qed

section \<open>Candidates are safe\<close>

text \<open>The column of a field, as the resolver of each row gives it.\<close>

definition column :: "(u64 \<Rightarrow> Resolver) \<Rightarrow> u64 \<Rightarrow> Field \<Rightarrow> row_values" where
  "column resolve totalRows f = (\<lambda>row. if row < totalRows then result_option (resolve row f) else None)"

text \<open>Every index of the set was built over the column of its field and sealed.\<close>

definition indexes_hold :: "'b roaring \<Rightarrow> Schema \<Rightarrow> 'b IndexSet \<Rightarrow> (u64 \<Rightarrow> Resolver) \<Rightarrow> u64 \<Rightarrow> bool" where
  "indexes_hold R schema indexes resolve totalRows \<longleftrightarrow>
     (\<forall>name f i. Schema_Field schema name = Some f \<and> indexes (f_Name f) = Some i \<longrightarrow>
        ix_field i = f \<and> sealed_index R i (column resolve totalRows f))"

text \<open>A bitmap with no row missing, and no row too many if it is exact.\<close>

definition covers :: "'b roaring \<Rightarrow> (u64 \<Rightarrow> Resolver) \<Rightarrow> u64 \<Rightarrow> planNode \<Rightarrow> 'b Bitmap \<Rightarrow> bool \<Rightarrow> bool" where
  "covers R resolve totalRows node b exact \<longleftrightarrow>
     bits_of R b \<subseteq> {row. row < totalRows}
   \<and> (\<forall>row < totalRows. \<forall>t. planNode_evaluate (resolve row) node = Inr t \<longrightarrow>
        (t = TruthTrue \<longrightarrow> row \<in> bits_of R b) \<and> (exact \<longrightarrow> row \<in> bits_of R b \<longrightarrow> t = TruthTrue))"

lemma set_rows: "roaring_ok R \<Longrightarrow>
  bits_of R (foldl (\<lambda>bitmap row. snd (Bitmap_Set R (word_of_nat row) bitmap)) b rows) = bits_of R b \<union> word_of_nat ` set rows"
  by (induction rows arbitrary: b) (auto simp: bitmap_sets)

lemma constant_rows_bits:
  assumes "roaring_ok R"
  shows "bits_of R (constant_rows R t totalRows) = (if t = TruthTrue then {row. row < totalRows} else {})"
proof -
  have "(word_of_nat ` {0..<unat totalRows} :: u64 set) = {row. row < totalRows}"
  proof (intro equalityI subsetI)
    fix row :: u64
    assume "row \<in> {row. row < totalRows}"
    then show "row \<in> word_of_nat ` {0..<unat totalRows}" by (intro image_eqI [of _ _ "unat row"]) (auto simp: word_less_nat_alt)
  next
    fix row :: u64
    assume "row \<in> word_of_nat ` {0..<unat totalRows}"
    then obtain n where n: "row = word_of_nat n" "n < unat totalRows" by auto
    have "n < 2 ^ 64" using n(2) unsigned_less [of totalRows, where ?'a = nat] by simp
    then show "row \<in> {row. row < totalRows}" using n by (simp add: word_less_nat_alt unat_of_nat take_bit_nat_eq_self)
  qed
  then show ?thesis using assms by (auto simp: constant_rows_def set_rows bitmap_sets)
qed

lemma column_rows: "rows_where (column resolve totalRows f) P = {row. row < totalRows \<and> (\<exists>v. resolve row f = Inr v \<and> P v)}"
  by (auto simp: rows_where_def column_def result_option_def split: if_split_asm sum.split_asm)

lemma field_covers:
  assumes R: "roaring_ok R" and h: "sealed_index R i (column resolve totalRows f)" and f: "ix_field i = f" and p: "predicate_for f p"
    and res: "InvertedIndex_Search R i p = Inr (Some res)"
  shows "covers R resolve totalRows (predicatePlanNode (fieldSource f) p label) (ir_Bitmap res) True"
  using Search_exact [OF R h _ res] p f
  by (auto simp: covers_def column_rows satisfies_def resolve_source_def split: sum.split_asm)

lemma length_covers:
  assumes R: "roaring_ok R" and h: "sealed_index R i (column resolve totalRows f)" and f: "ix_field i = f" and p: "width_ok (bp_right p)"
    and res: "SearchArrayLength R i p = Inr (Some res)"
  shows "covers R resolve totalRows (predicatePlanNode (arrayLengthSource f) p label) (ir_Bitmap res) True"
proof -
  have cmp: "bp_operator p \<in> comparison_operators" using res by (auto simp: SearchArrayLength_def split: if_split_asm)
  have null: "BoundPredicate_Evaluate p v \<noteq> Inr TruthTrue" if "v_null v" for v
    using satisfies_null [OF that, of p] cmp by (auto simp: satisfies_def comparison_operators_def)
  have "planNode_evaluate (resolve row) (predicatePlanNode (arrayLengthSource f) p label) = Inr t \<Longrightarrow>
      t = TruthTrue \<longleftrightarrow> (\<exists>v. resolve row f = Inr v \<and> \<not> v_null v \<and> satisfies p (length_value v))" for row t
    using null
    by (auto simp: resolve_source_def satisfies_def length_value_def NullValue_def Value_Len_def kind_valid_def
        split: sum.split_asm if_split_asm)
  then show ?thesis using SearchArrayLength_exact [OF R h p res] by (auto simp: covers_def column_rows)
qed

lemma predicate_covers:
  assumes R: "roaring_ok R" and h: "indexes_hold R schema indexes resolve totalRows" and ok: "bound_ok schema source p"
    and res: "predicate_candidates R source p indexes = Inr (Some (b, exact))"
  shows "covers R resolve totalRows (predicatePlanNode source p label) b exact"
proof (cases source)
  case (fieldSource f)
  obtain name where name: "Schema_Field schema name = Some f" "predicate_for f p" using ok by (auto simp: fieldSource bound_ok_def)
  obtain i r where i: "indexes (f_Name f) = Some i" "InvertedIndex_Search R i p = Inr (Some r)" "b = ir_Bitmap r" "exact"
    using res by (auto simp: predicate_candidates_def fieldSource split: if_split_asm option.split_asm sum.split_asm)
  have "ix_field i = f" "sealed_index R i (column resolve totalRows f)" using h name(1) i(1) by (auto simp: indexes_hold_def)
  then show ?thesis using field_covers [OF R _ _ name(2) i(2)] i(3,4) by (simp add: fieldSource)
next
  case (arrayLengthSource f)
  obtain name where name: "Schema_Field schema name = Some f" "width_ok (bp_right p)" using ok by (auto simp: arrayLengthSource bound_ok_def)
  obtain i r where i: "indexes (f_Name f) = Some i" "SearchArrayLength R i p = Inr (Some r)" "b = ir_Bitmap r" "exact"
    using res by (auto simp: predicate_candidates_def arrayLengthSource split: if_split_asm option.split_asm sum.split_asm)
  have "ix_field i = f" "sealed_index R i (column resolve totalRows f)" using h name(1) i(1) by (auto simp: indexes_hold_def)
  then show ?thesis using length_covers [OF R _ _ name(2) i(2)] i(3,4) by (simp add: arrayLengthSource)
qed


lemma combine_covers:
  assumes R: "roaring_ok R" and c: "combine_candidates R operator l r = Some (b, exact)"
    and l: "\<And>b exact. l = Some (b, exact) \<Longrightarrow> covers R resolve totalRows left b exact"
    and r: "\<And>b exact. r = Some (b, exact) \<Longrightarrow> covers R resolve totalRows right b exact"
  shows "covers R resolve totalRows (logicalPlanNode operator left right) b exact"
proof -
  have sc: "short_circuit operator x y = Inr t \<Longrightarrow> t = TruthTrue \<longleftrightarrow>
      (if operator = LogicalAnd then x = Inr TruthTrue \<and> y = Inr TruthTrue else x = Inr TruthTrue \<or> y = Inr TruthTrue)"
    "short_circuit operator x y = Inr t \<Longrightarrow> \<exists>u. x = Inr u"
    "short_circuit operator x y = Inr t \<Longrightarrow> x = Inr (if operator = LogicalAnd then TruthFalse else TruthTrue) \<or> (\<exists>u. y = Inr u)" for x y t
    by (cases operator; cases x; cases y; auto simp: short_circuit_def Truth_And_def Truth_Or_def split: if_split_asm)+
  note covers = covers_def evaluate_logical
  show ?thesis
  proof (cases operator)
    case LogicalAnd
    consider lb rb le re where "l = Some (lb, le)" "r = Some (rb, re)" "b = Bitmap_And R lb (Some rb)" "exact = (le \<and> re)"
      | le where "l = Some (b, le)" "\<not> exact" | re where "r = Some (b, re)" "\<not> exact"
      using c LogicalAnd by (auto simp: combine_candidates_def split: option.split_asm) blast+
    then show ?thesis
    proof cases
      case 1
      have "covers R resolve totalRows left lb le" "covers R resolve totalRows right rb re" using 1 l r by auto
      then show ?thesis using sc 1(3,4) LogicalAnd by (fastforce simp: covers bitmap_sets [OF R])
    next
      case 2
      have "covers R resolve totalRows left b le" using 2 l by auto
      then show ?thesis using sc(1) 2(2) LogicalAnd by (fastforce simp: covers)
    next
      case 3
      have "covers R resolve totalRows right b re" using 3 r by auto
      then show ?thesis using sc(1) 3(2) LogicalAnd by (fastforce simp: covers)
    qed
  next
    case LogicalOr
    obtain lb rb le re where b: "l = Some (lb, le)" "r = Some (rb, re)" "b = Bitmap_Or R lb (Some rb)" "exact = (le \<and> re)"
      using c LogicalOr by (auto simp: combine_candidates_def split: option.split_asm) blast+
    have lr: "covers R resolve totalRows left lb le" "covers R resolve totalRows right rb re" using b l r by auto
    have "(t = TruthTrue \<longrightarrow> row \<in> bits_of R lb \<union> bits_of R rb) \<and> (le \<and> re \<longrightarrow> row \<in> bits_of R lb \<union> bits_of R rb \<longrightarrow> t = TruthTrue)"
      if row: "row < totalRows" and t: "short_circuit operator (planNode_evaluate (resolve row) left) (planNode_evaluate (resolve row) right) = Inr t"
      for row t
      using lr [unfolded covers_def] row sc(1) [OF t] sc(2) [OF t] sc(3) [OF t] LogicalOr by auto
    then show ?thesis using lr [unfolded covers_def] b(3,4) by (auto simp: covers bitmap_sets [OF R])
  qed
qed

lemma candidates_cover:
  assumes R: "roaring_ok R" and h: "indexes_hold R schema indexes resolve totalRows"
  shows "node_ok schema node \<Longrightarrow> candidatesForNode R node indexes totalRows = Inr (Some (b, exact)) \<Longrightarrow>
    covers R resolve totalRows node b exact"
proof (induction node arbitrary: b exact)
  case (constantPlanNode t)
  then show ?case by (auto simp: covers_def constant_rows_bits [OF R] split: if_split_asm)
next
  case (predicatePlanNode source p label)
  then show ?case using predicate_covers [OF R h] by simp
next
  case (logicalPlanNode operator left right)
  obtain l r where lr: "candidatesForNode R left indexes totalRows = Inr l" "candidatesForNode R right indexes totalRows = Inr r"
    "combine_candidates R operator l r = Some (b, exact)"
    using logicalPlanNode.prems by (auto split: sum.split_asm)
  show ?case by (rule combine_covers [OF R lr(3)]) (use logicalPlanNode lr in auto)
qed

theorem Plan_Candidates_covers:
  assumes "roaring_ok R" and "BuildPlan input schema = Inr plan" and "indexes_hold R schema indexes resolve totalRows"
    and "Plan_Candidates R plan indexes totalRows = Inr (Some (b, exact))"
  shows "{row. row < totalRows \<and> Plan_Match plan (resolve row) = Inr True} \<subseteq> bits_of R b"
    and "exact \<Longrightarrow> (\<And>row. row < totalRows \<Longrightarrow> \<exists>t. Plan_Evaluate plan (resolve row) = Inr t) \<Longrightarrow>
      bits_of R b = {row. row < totalRows \<and> Plan_Match plan (resolve row) = Inr True}"
proof -
  have "covers R resolve totalRows (plan_root plan) b exact"
    using candidates_cover [OF assms(1,3) BuildPlan_ok [OF assms(2)]] assms(4) by (simp add: Plan_Candidates_def)
  then show "{row. row < totalRows \<and> Plan_Match plan (resolve row) = Inr True} \<subseteq> bits_of R b"
    and "exact \<Longrightarrow> (\<And>row. row < totalRows \<Longrightarrow> \<exists>t. Plan_Evaluate plan (resolve row) = Inr t) \<Longrightarrow>
      bits_of R b = {row. row < totalRows \<and> Plan_Match plan (resolve row) = Inr True}"
    by (fastforce simp: covers_def Plan_Match_def Plan_Evaluate_def Truth_Match_def split: sum.split_asm)+
qed


section \<open>Candidates are always found\<close>

lemma searchRange_total:
  assumes R: "roaring_ok R" and s: "sealed_index R i m" and w: "scalar_of (f_Kind (ix_field i)) (bp_right p)"
    and op: "bp_operator p \<in> {PredicateLT, PredicateLE, PredicateGT, PredicateGE}"
  shows "\<exists>r. searchRange R i p = Inr r"
proof (cases "f_RangeOptimized (ix_field i)")
  case True
  have ix: "index_of R i m" "ix_ordered i = sort_Slice key_less (map fst (ix_postings i))" using s by (auto simp: sealed_index_def)
  have "\<exists>start stop. orderedBounds i (bp_right p) (bp_operator p) = Inr (start, stop)"
    by (rule orderedBounds_keys [OF ix w op]) (intro exI)
  then show ?thesis using True by (auto simp: searchRange_def)
next
  case False
  have i: "index_of R i m" and k: "kind_valid (f_Kind (ix_field i))" using s by (auto simp: sealed_index_def index_of_def)
  obtain b' n' where "term_scan R (bp_right p) (bp_operator p) (ix_postings i) (NewBitmap R 0) 0 = Inr (b', n')"
    using term_scan_bits [OF R, of "ix_postings i" "bp_right p" "bp_operator p" "NewBitmap R 0" 0]
      compareValues_order [OF k index_key [OF i] w] by auto
  then show ?thesis using False by (simp add: searchRange_def)
qed

lemma validate_searchable: "predicate_for (ix_field i) p \<Longrightarrow> searchable (ix_field i) p \<Longrightarrow> validatePredicate i p = None"
  by (cases "bp_set p"; cases "bp_operator p")
     (auto simp: validatePredicate_def predicate_for_def searchable_def scalar_of_def comparison_operators_def Let_def)

lemma Search_total:
  assumes R: "roaring_ok R" and s: "sealed_index R i m" and p: "predicate_for (ix_field i) p" "searchable (ix_field i) p"
  shows "\<exists>r. InvertedIndex_Search R i p = Inr r"
proof -
  have valid: "ix_sealed i" "validatePredicate i p = None" using s validate_searchable [OF p] by (auto simp: sealed_index_def)
  have like: "bp_operator p = PredicateLike \<Longrightarrow> \<exists>r. searchLike R i (bp_like p) = Inr r"
    using p(2) by (auto simp: searchable_def searchLike_def split: LikeMode.split prod.split)
  have order: "bp_operator p \<in> {PredicateLT, PredicateLE, PredicateGT, PredicateGE} \<Longrightarrow> \<exists>r. searchRange R i p = Inr r"
    using searchRange_total [OF R s] p(1) by (auto simp: predicate_for_def comparison_operators_def)
  show ?thesis
    using valid like order p(2) by (cases "bp_operator p") (auto simp: InvertedIndex_Search_def searchable_def comparison_operators_def Let_def)
qed

lemma SearchArrayLength_total:
  assumes "ix_sealed i" and "f_Array (ix_field i)" and "bp_operator p \<in> comparison_operators" and "scalar_of ValueUint32 (bp_right p)"
  shows "\<exists>r. SearchArrayLength R i p = Inr r"
  using assms by (auto simp: SearchArrayLength_def scalar_of_def Let_def split: prod.split)

lemma predicate_candidates_total:
  assumes R: "roaring_ok R" and h: "indexes_hold R schema indexes resolve totalRows" and ok: "bound_ok schema source p"
  shows "\<exists>c. predicate_candidates R source p indexes = Inr c"
proof -
  have i: "ix_field i = f" "sealed_index R i (column resolve totalRows f)" "ix_sealed i"
    if "Schema_Field schema name = Some f" "indexes (f_Name f) = Some i" for name f i
    using h that by (auto simp: indexes_hold_def sealed_index_def)
  show ?thesis
  proof (cases source)
    case (fieldSource f)
    then have "\<exists>r. InvertedIndex_Search R i p = Inr r" if "indexes (f_Name f) = Some i" for i
      using ok Search_total [OF R] i [OF _ that] by (fastforce simp: bound_ok_def)
    then show ?thesis by (fastforce simp: predicate_candidates_def fieldSource split: option.split)
  next
    case (arrayLengthSource f)
    then have "\<exists>r. SearchArrayLength R i p = Inr r" if "indexes (f_Name f) = Some i" for i
      using ok SearchArrayLength_total i [OF _ that] by (fastforce simp: bound_ok_def)
    then show ?thesis by (fastforce simp: predicate_candidates_def arrayLengthSource split: option.split)
  qed
qed

lemma candidates_total:
  assumes "roaring_ok R" and "indexes_hold R schema indexes resolve totalRows"
  shows "node_ok schema node \<Longrightarrow> \<exists>c. candidatesForNode R node indexes totalRows = Inr c"
  by (induction node) (auto dest: predicate_candidates_total [OF assms])

theorem Plan_Candidates_total:
  assumes "roaring_ok R" and "BuildPlan input schema = Inr plan" and "indexes_hold R schema indexes resolve totalRows"
  shows "\<exists>c. Plan_Candidates R plan indexes totalRows = Inr c"
  using candidates_total [OF assms(1,3) BuildPlan_ok [OF assms(2)]] by (simp add: Plan_Candidates_def)

end
