(* ===== verification/Sql_Scenario.thy ===== *)
theory Sql_Scenario
  imports Sql_Candidates
begin

text \<open>
  A small filter on a small table, for the hypotheses of the properties of filters: a Roaring bitmap as a list of its
  members, a schema with one indexed field, a filter on it, its tokens, expression and plan, and the index of four rows.
\<close>

section \<open>A bitmap library\<close>

definition list_roaring :: "u64 list roaring" where
  "list_roaring = \<lparr>r_New = [], r_CheckedAdd = (\<lambda>x b. (x \<notin> set b, x # b)),
     r_CheckedRemove = (\<lambda>x b. (x \<in> set b, removeAll x b)), r_Contains = (\<lambda>x b. x \<in> set b),
     r_GetCardinality = (\<lambda>b. word_of_nat (length (remdups b))), r_IsEmpty = (\<lambda>b. b = []),
     r_Maximum = (\<lambda>b. Max (set b)), r_Iterator = (\<lambda>b. sort (remdups b)), r_Or = (\<lambda>b c. b @ c),
     r_And = (\<lambda>b c. filter (\<lambda>x. x \<in> set c) b), r_AndNot = (\<lambda>b c. filter (\<lambda>x. x \<notin> set c) b)\<rparr>"

lemma list_roaring_members: "members list_roaring b = set b"
  by (simp add: members_def list_roaring_def)

lemma list_roaring_ok: "roaring_ok list_roaring"
  by (auto simp: roaring_ok_def list_roaring_members length_remdups_card_conv) (auto simp: list_roaring_def length_remdups_card_conv)

section \<open>The filter\<close>

definition doc_filter :: bytes where "doc_filter = ascii ''a=1 or a=2''"

definition doc_position :: "nat \<Rightarrow> Position" where
  "doc_position i = \<lparr>pos_Offset = i, pos_Line = 1, pos_Column = i + 1\<rparr>"

definition doc_span :: "nat \<Rightarrow> nat \<Rightarrow> Span" where
  "doc_span i j = \<lparr>span_Start = doc_position i, span_End = doc_position j\<rparr>"

definition doc_token :: "TokenKind \<Rightarrow> string \<Rightarrow> nat \<Rightarrow> nat \<Rightarrow> Token" where
  "doc_token k s i j = \<lparr>tok_Kind = k, tok_Text = ascii s, tok_Span = doc_span i j\<rparr>"

definition doc_tokens :: "Token list" where
  "doc_tokens = [doc_token TokenIdentifier ''a'' 0 1, doc_token TokenEqual ''='' 1 2, doc_token TokenInteger ''1'' 2 3,
     doc_token TokenOr ''or'' 4 6, doc_token TokenIdentifier ''a'' 7 8, doc_token TokenEqual ''='' 8 9,
     doc_token TokenInteger ''2'' 9 10, doc_token TokenEOF '''' 10 10]"

lemma doc_lex: "lex (doc_filter, first_position) [] = Inr doc_tokens"
  by code_simp

lemma doc_valid: "utf8_valid doc_filter" "length doc_filter = 10"
  by code_simp+

lemma doc_Lex: "Lex doc_filter = Inr doc_tokens"
  using doc_lex doc_valid by (simp add: Lex_def MaxFilterBytes_def)

definition doc_literal :: "string \<Rightarrow> nat \<Rightarrow> LiteralExpr" where
  "doc_literal s i = \<lparr>lit_Kind = LiteralInteger, lit_Text = ascii s, lit_Raw = ascii s, lit_Range = doc_span i (i + 1)\<rparr>"

definition doc_equality :: "string \<Rightarrow> nat \<Rightarrow> Expr" where
  "doc_equality s i = PredicateExpr PredicateEQ (IdentifierExpr (ascii ''a'') (doc_span i (i + 1)))
     (Some (LiteralNode (doc_literal s (i + 2)))) False (doc_span i (i + 3))"

definition doc_expression :: Expr where
  "doc_expression = LogicalExpr LogicalOr (doc_equality ''1'' 0) (doc_equality ''2'' 7) (doc_span 0 10)"

lemma doc_parse_at: "parseOr (parsePrimary (Suc depth)) doc_tokens = Inr (doc_expression, [doc_token TokenEOF '''' 10 10])"
  by code_simp

lemma doc_parse: "ParseFilter doc_filter = Inr doc_expression"
proof -
  have "MaxParseDepth = Suc 255" by (simp add: MaxParseDepth_def)
  then show ?thesis using doc_parse_at [of 255] by (simp add: ParseFilter_def doc_Lex doc_token_def parser_current_def)
qed


section \<open>The plan\<close>

definition doc_field :: Field where
  "doc_field = \<lparr>f_Name = ascii ''a'', f_Kind = ValueInt32, f_Array = False, f_Nullable = True, f_Filterable = True, f_Indexed = True,
     f_RangeOptimized = True, f_ExtendedWildcard = False\<rparr>"

definition doc_schema :: Schema where
  "doc_schema = \<lparr>sc_fields = [ascii ''a'' \<mapsto> doc_field], sc_order = [ascii ''a'']\<rparr>"

lemma doc_schema: "NewSchema [doc_field] = Inr doc_schema"
  by (simp add: NewSchema_def doc_schema_def doc_field_def kind_valid_def ascii_def)

definition doc_comparison :: "u32 \<Rightarrow> BoundPredicate" where
  "doc_comparison x = \<lparr>bp_operator = PredicateEQ, bp_negated = False, bp_right = Int32Value x, bp_set = [], bp_like = None\<rparr>"

definition doc_node :: planNode where
  "doc_node = logicalPlanNode LogicalOr
     (predicatePlanNode (fieldSource doc_field) (doc_comparison 1) (Format (doc_equality ''1'' 0)))
     (predicatePlanNode (fieldSource doc_field) (doc_comparison 2) (Format (doc_equality ''2'' 7)))"

definition doc_predicate :: BoundPredicate where
  "doc_predicate = \<lparr>bp_operator = PredicateIn, bp_negated = False, bp_right = zero_value, bp_set = [Int32Value 1, Int32Value 2], bp_like = None\<rparr>"

definition doc_rewritten :: Expr where
  "doc_rewritten = PredicateExpr PredicateIn (IdentifierExpr (ascii ''a'') (doc_span 0 1))
     (Some (ListExpr [doc_literal ''1'' 2, doc_literal ''2'' 9] (doc_span 2 10))) False (doc_span 0 10)"

definition doc_plan :: Plan where
  "doc_plan = \<lparr>plan_root = predicatePlanNode (fieldSource doc_field) doc_predicate (Format doc_rewritten), plan_fields = [doc_field],
     plan_normalized = Format doc_rewritten, plan_stats = \<lparr>ps_EqualitySets = 1, ps_EmptyContainRewrites = 0, ps_ConstantFolds = 0\<rparr>\<rparr>"

lemma doc_rewrite: "RewriteFilter doc_expression = (doc_rewritten, 1)"
  by code_simp

lemma doc_literal_values: "bindLiteral (doc_literal ''1'' i) ValueInt32 = Inr (Int32Value 1)" "bindLiteral (doc_literal ''2'' i) ValueInt32 = Inr (Int32Value 2)"
  by (simp_all add: bindLiteral_def doc_literal_def ParseInt_def decimal_def digit_value_def isDigit_def ascii_def)

lemma Int32_scalar: "\<not> v_null (Int32Value x)" "\<not> v_array (Int32Value x)" "v_kind (Int32Value x) = ValueInt32"
  by (simp_all add: Int32Value_def)

lemma doc_bind: "bind_in doc_schema doc_expression = Inr doc_node"
proof -
  have "Schema_Field doc_schema (ascii ''a'') = Some doc_field" "f_Filterable doc_field" "f_Kind doc_field = ValueInt32" "\<not> f_Array doc_field"
    by (simp_all add: Schema_Field_def doc_schema_def doc_field_def)
  then show ?thesis
    by (simp add: doc_expression_def doc_equality_def bind_in_logical bind_in_predicate operator_error_def comparison_operators_def
        bind_operator_def doc_literal_values NewComparisonPredicate_def kind_valid_def Int32_scalar doc_node_def doc_comparison_def)
qed

lemma doc_BuildPlan: "BuildPlan doc_filter doc_schema = Inr doc_plan"
proof -
  have f: "Schema_Field doc_schema (ascii ''a'') = Some doc_field" "f_Filterable doc_field" "f_Kind doc_field = ValueInt32" "\<not> f_Array doc_field"
    by (simp_all add: Schema_Field_def doc_schema_def doc_field_def)
  have "bindExpression \<lparr>fa_schema = doc_schema, fa_seen = {}, fa_fields = []\<rparr> doc_rewritten =
      (Inr (predicatePlanNode (fieldSource doc_field) doc_predicate (Format doc_rewritten)),
       \<lparr>fa_schema = doc_schema, fa_seen = {ascii ''a''}, fa_fields = [doc_field]\<rparr>)"
    by (simp add: doc_rewritten_def bindPredicate_def bindSource_def requireField_def f operator_error_def comparison_operators_def bind_operator_def
        bindSetPredicate_def doc_literal_values NewSetPredicate_def kind_valid_def Int32_scalar doc_predicate_def)
  then show ?thesis
    by (simp add: BuildPlan_def doc_parse doc_rewrite optimize_def doc_plan_def doc_predicate_def)
qed

section \<open>The index\<close>

definition doc_null :: Value where "doc_null = Value ValueInt32 True False [] [] False 0 0 0 []"

definition doc_rows :: "(u64 \<times> Value) list" where
  "doc_rows = [(0, Int32Value 1), (1, Int32Value 2), (2, doc_null), (3, Int32Value 3)]"

definition doc_resolve :: "u64 \<Rightarrow> Resolver" where
  "doc_resolve row field = (case map_of doc_rows row of None \<Rightarrow> Inl (SqlError ''no such row'') | Some v \<Rightarrow> Inr v)"

definition doc_bitmap :: "u64 list \<Rightarrow> u64 list Bitmap" where
  "doc_bitmap b = \<lparr>bm_bitmap = b, bm_logicalWords = 1\<rparr>"

definition doc_built :: "u64 list InvertedIndex" where
  "doc_built = \<lparr>ix_field = doc_field, ix_sealed = False, ix_rows = doc_bitmap [3, 2, 1, 0], ix_nulls = doc_bitmap [2],
     ix_nonNull = doc_bitmap [3, 1, 0],
     ix_postings = [(keyFromValue (Int32Value 1), doc_bitmap [0]), (keyFromValue (Int32Value 2), doc_bitmap [1]),
       (keyFromValue (Int32Value 3), doc_bitmap [3])],
     ix_ordered = [], ix_arrayLength = [], ix_lengths = []\<rparr>"

lemma doc_keys: "keyFromValue (Int32Value x) = (zero_key ValueInt32)\<lparr>sk_signed := scast x\<rparr>"
  by (simp add: keyFromValue_def Int32Value_def Let_def)

definition doc_new :: "u64 list InvertedIndex" where
  "doc_new = \<lparr>ix_field = doc_field, ix_sealed = False, ix_rows = NewBitmap list_roaring 0, ix_nulls = NewBitmap list_roaring 0,
     ix_nonNull = NewBitmap list_roaring 0, ix_postings = [], ix_ordered = [], ix_arrayLength = [], ix_lengths = []\<rparr>"

lemma doc_NewInvertedIndex: "NewInvertedIndex list_roaring doc_field = Inr doc_new"
  by (simp add: NewInvertedIndex_def doc_new_def doc_field_def kind_valid_def)

lemma doc_add: "add_rows list_roaring doc_new doc_rows = Inr doc_built"
  by code_simp

definition doc_index :: "u64 list InvertedIndex" where
  "doc_index = InvertedIndex_Seal doc_built"

lemma doc_index_field [simp]: "ix_field doc_index = doc_field"
  by (simp add: doc_index_def InvertedIndex_Seal_def doc_built_def)

lemma doc_values_ok: "\<forall>(row, v) \<in> set doc_rows. value_ok v"
  using constructors_ok by (auto simp: doc_rows_def) (auto simp: doc_null_def value_ok_def width_ok_def kind_valid_def)

lemma doc_sealed: "sealed_index list_roaring doc_index (map_of (rev doc_rows))"
  using built_index [OF list_roaring_ok doc_NewInvertedIndex doc_values_ok doc_add] by (simp add: doc_index_def)

definition doc_indexes :: "u64 list IndexSet" where
  "doc_indexes = [ascii ''a'' \<mapsto> doc_index]"

lemma doc_column: "column doc_resolve 4 doc_field = map_of (rev doc_rows)"
proof
  fix row :: u64
  have "row \<in> {0, 1, 2, 3}" if "row < 4"
  proof -
    have "unat row < 4" using that by (simp add: word_less_nat_alt)
    then have "unat row = 0 \<or> unat row = 1 \<or> unat row = 2 \<or> unat row = 3" by arith
    then show ?thesis by (auto simp: word_unat_eq_iff)
  qed
  then show "column doc_resolve 4 doc_field row = map_of (rev doc_rows) row"
    by (auto simp: column_def doc_resolve_def doc_rows_def)
qed

lemma doc_indexes_hold: "indexes_hold list_roaring doc_schema doc_indexes doc_resolve 4"
proof -
  have "f = doc_field \<and> i = doc_index" if "Schema_Field doc_schema name = Some f" "doc_indexes (f_Name f) = Some i" for name f i
    using that by (auto simp: Schema_Field_def doc_schema_def doc_indexes_def split: if_split_asm)
  then show ?thesis using doc_sealed doc_column unfolding indexes_hold_def by (metis doc_index_field)
qed

lemma doc_predicate_for: "predicate_for doc_field doc_predicate"
  using bound_ok_def [of doc_schema "fieldSource doc_field" doc_predicate] BuildPlan_ok [OF doc_BuildPlan] by (simp add: doc_plan_def)

definition doc_result :: "u64 list InvertedResult" where
  "doc_result = \<lparr>ir_Bitmap = doc_bitmap [0, 1], ir_Strategy = InvertedPostingUnion, ir_Terms = 2\<rparr>"

lemma doc_search: "InvertedIndex_Search list_roaring doc_index doc_predicate = Inr (Some doc_result)"
  by code_simp

lemma doc_candidates: "Plan_Candidates list_roaring doc_plan doc_indexes 4 = Inr (Some (doc_bitmap [0, 1], True))"
proof -
  have "doc_indexes (f_Name doc_field) = Some doc_index" "f_Indexed doc_field" by (simp_all add: doc_indexes_def doc_field_def)
  then show ?thesis by (simp add: Plan_Candidates_def doc_plan_def predicate_candidates_def doc_search doc_result_def)
qed

lemma doc_evaluate:
  "planNode_evaluate (doc_resolve 0) doc_node = Inr TruthTrue" "planNode_evaluate (doc_resolve 1) doc_node = Inr TruthTrue"
  "planNode_evaluate (doc_resolve 2) doc_node = Inr TruthUnknown" "planNode_evaluate (doc_resolve 3) doc_node = Inr TruthFalse"
  by code_simp+

lemma doc_match:
  "Plan_Evaluate doc_plan (doc_resolve 0) = Inr TruthTrue" "Plan_Evaluate doc_plan (doc_resolve 1) = Inr TruthTrue"
  "Plan_Evaluate doc_plan (doc_resolve 2) = Inr TruthUnknown" "Plan_Evaluate doc_plan (doc_resolve 3) = Inr TruthFalse"
  by code_simp+

end
