(* ===== verification/Spec2Isabelle.thy ===== *)
theory Spec2Isabelle
  imports Collection_Scenario Top_K Sql_Scenario
begin

text \<open>
  A verification development for zvec, a vector database in Go: the storage engine under
  \<open>internal/db\<close>, the filter language of \<open>internal/db/sql\<close>, the helpers of \<open>internal/ailego\<close> they rest on, and the
  selection of search results of \<open>internal/core\<close>.  The theories follow the packages:

  \<^item> \<open>Zvec_Prelude\<close>: bytes, slices, little-endian integers, and the lemma collections;
  \<^item> \<open>Go_Runtime\<close>: errors and sentinels, the context that may be cancelled at any poll, the disk (files with a
    durable prefix, outcomes of operations chosen by the environment, crash images), CRC-32C
    (\<open>ailego/crc32c.go\<close>), full reads and writes (\<open>ailego/file.go\<close>), UTF-8;
  \<^item> \<open>Wal\<close>, \<open>Wal_Log\<close>: the write-ahead log of \<open>wal.go\<close>, and what a log file holds and keeps over a crash;
  \<^item> \<open>Snapshot\<close>, \<open>Primary_Map\<close>, \<open>Delete_Store\<close>: \<open>snapshot.go\<close> and its two clients;
  \<^item> \<open>Paths\<close>: portable paths and file names (\<open>snapshot.go\<close>, \<open>version_manager.go\<close>, \<open>collection.go\<close>);
  \<^item> \<open>Segment\<close>, \<open>Segment_Manager\<close>: \<open>segment.go\<close> and \<open>segment_manager.go\<close>;
  \<^item> \<open>Write_Engine\<close>: \<open>write_engine.go\<close> and the replay of the log in \<open>collection.go\<close>;
  \<^item> \<open>Engine_Versions\<close>, \<open>Recovery\<close>: the effect of a write on the manager, the invariant that ties the log to
    the manager in memory, the step relation of an engine and recovery after a crash;
  \<^item> \<open>Json_Scanner\<close>, \<open>Manifest_File\<close>, \<open>Version_Manager\<close>: \<open>manifest.go\<close> and \<open>version_manager.go\<close>; which byte strings
    are JSON documents is a definition (the scanner of \<open>encoding/json\<close>), the encoding of a manifest is the
    parameter \<open>json_lib\<close> with the round trip \<open>json_stores\<close> as its hypothesis;
  \<^item> \<open>Collection\<close>: all of \<open>collection.go\<close>; the answers of the file locks are the argument \<open>flocks\<close>;
  \<^item> \<open>Collection_State\<close>, \<open>Manager_Order\<close>, \<open>Artifact_Names\<close>, \<open>Collection_Files\<close>: the check of a state, managers that
    differ in the order of their tables, which names are distinct, and what each call leaves of the files;
  \<^item> \<open>Collection_Recovery\<close>, \<open>Collection_Steps\<close>, \<open>Collection_Flush\<close>, \<open>Collection_Writes\<close>, \<open>Collection_Lifecycle\<close>,
    \<open>Collection_Prune\<close>, \<open>Collection_Rewrite\<close>: the invariant \<open>coll_inv\<close> of a collection (the version on disk is the
    manager's, its files hold the checkpoint, and the log leads from there to the manager in memory), and that
    every operation keeps it whatever fails; \<open>Collection_History\<close> has the step relation and its reachable states;
  \<^item> \<open>Binary_Heap\<close>, \<open>Top_K\<close>: \<open>ailego/heap.go\<close>, \<open>core/topk.go\<close> and \<open>core/query.go\<close>;
  \<^item> \<open>Utf8\<close>, \<open>Sql_Ast\<close>, \<open>Sql_Like\<close>, \<open>Sql_Number\<close>, \<open>Sql_Lexer\<close>, \<open>Sql_Parser\<close>: the filter language of \<open>internal/db/sql\<close>:
    runes, \<open>ast.go\<close> with its printer and \<open>rewrite.go\<close>, \<open>like.go\<close>, numbers of \<open>strconv\<close>, \<open>lexer.go\<close>, \<open>parser.go\<close>; tokens are
    pieces of the input, and a parser gives an expression of the right shape or an error with a position in the input;
  \<^item> \<open>Sql_Value\<close>, \<open>Sql_Plan\<close>, \<open>Sql_Rewrite\<close>: values and three-valued predicates (\<open>value.go\<close>, \<open>predicate.go\<close>), schema, analysis
    and plans (\<open>schema.go\<close>, \<open>analyzer.go\<close>, \<open>plan.go\<close>), and that rewriting and optimising keep the answers of a filter;
  \<^item> \<open>Bitmap\<close>, \<open>Sql_Inverted\<close>, \<open>Sql_Search\<close>, \<open>Sql_Candidates\<close>: \<open>ailego/bitmap.go\<close>, whose Roaring bitmap is a parameter with
    the documented behaviour \<open>roaring_ok\<close> as hypothesis, the inverted index of \<open>inverted.go\<close>, that it answers exactly as the
    evaluation of the predicate on every row, and the candidates a plan takes from indexes;
  \<^item> \<open>Scenario\<close>, \<open>Collection_Scenario\<close>, \<open>Sql_Scenario\<close>: a small engine, a small collection and a small filter with its
    table and index, for concrete instances of the properties.

  A Go call is a function from its arguments, the object it changes and the world to its result, the
  changed object and the world.  The world holds the number of polls until the context is cancelled
  (none: never), the outcomes of the next disk operations (empty: all succeed) and the files; a theorem
  that does not restrict it covers cancellation and disk failure at every point.  Mutexes are not
  modelled: every method holds its lock from its first access to the last, so a call is one step.
  Errors are values; \<open>errors_Is\<close> follows the chain of wrapped sentinels, and message texts stand
  for the formatted messages.  Nil receivers and nil contexts are left out.

  The refinement goes from the engine to a map from keys to payloads (\<open>mgr_kv\<close>): \<open>eng_inv\<close> says
  that the log holds exactly the operations that lead from the checkpoint to the manager in memory.
  The contracts are locales: \<open>wal_client\<close> (a replay function that ignores what is not in the payload),
  \<open>snapshot_kind\<close> (a value with a payload format), \<open>logged_write\<close> (one of the four writes) and \<open>heap_order\<close>
  (a strict weak order), each interpreted on the definitions of the model.

  Recursion is structural or has a measure, so no fuel is used: the searches for a free generation count up to the
  largest \<open>uint64\<close>, the walk up a path shortens it, the scan of a log moves on by a record.  The loops of the parser take
  the number of tokens left as a bound, which they never reach since every turn takes a token; its recursion is on
  what is left of \<open>MaxParseDepth\<close>, as in the code.

  Not modelled: floating-point arithmetic (scores are bit patterns with the comparisons of the
  language, the floats of a filter are the rational numbers they stand for; a distance function is a parameter), the
  files of inverted indexes (\<open>inverted_persistence.go\<close>), the approximate indexes, tokenizers and generated stemmers,
  full-text search and the public API.
\<close>

section \<open>The write engine\<close>



text \<open>C2: Every insert either fails and leaves the documents as they were, or succeeds; then the key
  was not present, the collection maps it to the payload, every other key is as before, and the
  operation is durable in the log before the call returns.\<close>

theorem insert_refines:
  assumes "eng_inv m0 ps e w"
  shows "case insertOneLocked i e w of
      (Inr d, e', w') \<Rightarrow> mgr_kv (eng_manager e) (in_PrimaryKey i) = None
        \<and> mgr_kv (eng_manager e') = (mgr_kv (eng_manager e))(in_PrimaryKey i \<mapsto> in_Payload i)
        \<and> (\<exists>p. eng_inv m0 (ps @ [p]) e' w')
    | (Inl err, e', w') \<Rightarrow> eng_manager e' = eng_manager e"
  using insert_outcome [OF assms, of i]
  by (auto simp: write_outcome_def insert_effect_def split: if_splits) blast+

theorem insert_refines_witness:
  "case insertOneLocked input_a first_engine first_world of
      (Inr d, e', w') \<Rightarrow> mgr_kv (eng_manager first_engine) key_a = None
        \<and> mgr_kv (eng_manager e') = (mgr_kv (eng_manager first_engine))(key_a \<mapsto> [1, 2, 3])
        \<and> (\<exists>p. eng_inv first_manager [p] e' w')
    | (Inl err, e', w') \<Rightarrow> eng_manager e' = eng_manager first_engine"
  using insert_refines [OF first_engine_inv, of input_a] unfolding input_ab_fields append_Nil .

text \<open>C3: An upsert that succeeds maps the key to the payload whether or not it was present; an
  update does so only for a key that was present; either one that fails changes no document.\<close>

theorem upsert_update_refine:
  assumes "eng_inv m0 ps e w"
  shows "(case upsertOneLocked i e w of
      (Inr d, e', w') \<Rightarrow> mgr_kv (eng_manager e') = (mgr_kv (eng_manager e))(in_PrimaryKey i \<mapsto> in_Payload i)
        \<and> (\<exists>p. eng_inv m0 (ps @ [p]) e' w')
    | (Inl err, e', w') \<Rightarrow> eng_manager e' = eng_manager e)
    \<and> (case updateOneLocked i e w of
      (Inr d, e', w') \<Rightarrow> mgr_kv (eng_manager e) (in_PrimaryKey i) \<noteq> None
        \<and> mgr_kv (eng_manager e') = (mgr_kv (eng_manager e))(in_PrimaryKey i \<mapsto> in_Payload i)
        \<and> (\<exists>p. eng_inv m0 (ps @ [p]) e' w')
    | (Inl err, e', w') \<Rightarrow> eng_manager e' = eng_manager e)"
  using upsert_outcome [OF assms, of i] update_outcome [OF assms, of i]
  by (auto simp: write_outcome_def upsert_effect_def update_effect_def split: if_splits)

theorem upsert_update_refine_witness:
  "(case upsertOneLocked input_a first_engine first_world of
      (Inr d, e', w') \<Rightarrow> mgr_kv (eng_manager e') = (mgr_kv (eng_manager first_engine))(key_a \<mapsto> [1, 2, 3])
    | (Inl err, e', w') \<Rightarrow> eng_manager e' = eng_manager first_engine)
   \<and> (case updateOneLocked input_a first_engine first_world of
      (Inr d, e', w') \<Rightarrow> mgr_kv (eng_manager first_engine) key_a \<noteq> None
    | (Inl err, e', w') \<Rightarrow> eng_manager e' = eng_manager first_engine)"
  using upsert_update_refine [OF first_engine_inv, of input_a] unfolding input_ab_fields by (auto split: sum.splits)

text \<open>C4: A delete that succeeds removes exactly the key, which was present; one that fails changes
  no document.\<close>

theorem delete_refines:
  assumes "eng_inv m0 ps e w"
  shows "case deleteOneLocked k e w of
      (Inr d, e', w') \<Rightarrow> mgr_kv (eng_manager e) k \<noteq> None
        \<and> mgr_kv (eng_manager e') = (mgr_kv (eng_manager e))(k := None)
        \<and> (\<exists>p. eng_inv m0 (ps @ [p]) e' w')
    | (Inl err, e', w') \<Rightarrow> eng_manager e' = eng_manager e"
  using delete_outcome [OF assms, of k]
  by (auto simp: write_outcome_def delete_effect_def split: if_splits) blast+

theorem delete_refines_witness:
  "\<exists>e w. insertOneLocked input_a first_engine first_world = (Inr 0, e, w) \<and> mgr_kv (eng_manager e) key_a \<noteq> None
    \<and> (case deleteOneLocked key_a e w of
      (Inr d, e', w') \<Rightarrow> mgr_kv (eng_manager e') = Map.empty
    | (Inl err, e', w') \<Rightarrow> eng_manager e' = eng_manager e)"
proof -
  obtain e w p where e: "insertOneLocked input_a first_engine first_world = (Inr 0, e, w)"
    "eng_inv first_manager [p] e w" "mgr_kv (eng_manager e) = [key_a \<mapsto> [1, 2, 3]]"
    by (rule first_insert) metis
  show ?thesis using delete_refines [OF e(2), of key_a] e(1,3) by (auto split: sum.splits)
qed



text \<open>C6: A batch of inserts answers with one result per input, in order; the batch error is there
  exactly when a result failed and carries the causes in order; without one the batch has had the
  effect of all its inserts, each logged and durable.\<close>

theorem insert_batch:
  assumes "eng_inv m0 ps e w" and "WriteEngine_Insert inputs e w = (Inr (results, err), e', w')"
  shows "map wr_PrimaryKey results = map in_PrimaryKey inputs \<and> batch_report results err
    \<and> (err = None \<longrightarrow> (\<exists>qs. eng_inv m0 (ps @ qs) e' w' \<and> length qs = length inputs)
         \<and> effects insert_effect inputs (mgr_kv (eng_manager e)) = Some (mgr_kv (eng_manager e')))"
  using insert_write.run_batch_answer [OF assms(1) assms(2) [unfolded WriteEngine_Insert_def]] by blast

theorem insert_batch_witness:
  "\<exists>results err e' w'. WriteEngine_Insert [input_a, input_b] first_engine first_world = (Inr (results, err), e', w')
    \<and> map wr_PrimaryKey results = [key_a, key_b] \<and> batch_report results err"
proof -
  obtain x e' w' where b: "WriteEngine_Insert [input_a, input_b] first_engine first_world = (x, e', w')"
    by (metis prod.collapse)
  then obtain results err where x: "x = Inr (results, err)"
    by (auto simp: WriteEngine_Insert_def run_batch_def Let_def split: prod.splits)
  show ?thesis
    using insert_batch [OF first_engine_inv b [unfolded x]] b x by (auto simp: input_ab_fields)
qed

text \<open>C7: An insert whose record reached the log and whose sync was then cancelled returns an error,
  but its record stays in the log and its document ID is given to the next insert: that insert
  succeeds, and opening the collection again fails with a corrupt log.\<close>

theorem cancelled_sync_breaks_reopen:
  assumes "eng_inv m0 ps e w" "log_ready ps e w" "length ps + 2 < 2 ^ 64"
    and "mgr_writing (eng_manager e) = Some ws" "WriteSegment_NextDocumentID ws = Inr d"
    and "small_input i" "small_input j"
    and "PrimaryKeyMap_Get (in_PrimaryKey i) (mgr_primaryKey (eng_manager e)) = None"
      "PrimaryKeyMap_Get (in_PrimaryKey j) (mgr_primaryKey (eng_manager e)) = None"
    and "wal_path (eng_wal e) \<noteq> []" "polls w = Some 1"
  shows "\<exists>e1 w1 e2 w2 l w3 err m'.
    insertOneLocked i e w = (Inl (Sentinel ContextCanceled), e1, w1)
    \<and> insertOneLocked j e1 (w1\<lparr>polls := None\<rparr>) = (Inr d, e2, w2)
    \<and> OpenWAL (wal_path (eng_wal e)) opts (Inr True) w2 = (Inr l, w3)
    \<and> replayWriteWAL l m0 w3 = (Some err, m', w3) \<and> errors_Is err ErrWALCorrupt"
  by (rule stranded_insert_breaks_recovery [OF assms])

theorem cancelled_sync_breaks_reopen_witness:
  "\<exists>e1 w1 e2 w2 l w3 err m'.
    insertOneLocked input_a first_engine (first_world\<lparr>polls := Some 1\<rparr>) = (Inl (Sentinel ContextCanceled), e1, w1)
    \<and> insertOneLocked input_b e1 (w1\<lparr>polls := None\<rparr>) = (Inr 0, e2, w2)
    \<and> OpenWAL ''wal'' \<lparr>SyncEvery = 0\<rparr> (Inr True) w2 = (Inr l, w3)
    \<and> replayWriteWAL l first_manager w3 = (Some err, m', w3) \<and> errors_Is err ErrWALCorrupt"
proof -
  have inv: "eng_inv first_manager [] first_engine (first_world\<lparr>polls := Some 1\<rparr>)"
    using first_engine_inv eng_inv_call [where w = first_world and n = "Some 1" and ios = "outcomes first_world"] by simp
  show ?thesis
    using cancelled_sync_breaks_reopen [OF inv first_log_ready _ first_engine_facts(1,2) input_ab_small
        first_engine_facts(3,3), of "\<lparr>SyncEvery = 0\<rparr>"] first_engine_facts(4) by simp
qed

section \<open>Versions\<close>



text \<open>C9: A publication is atomic: whatever fails, it either returns no version, an error, and leaves the
  manager as it was, or returns the next version, which is then the manager's, has a larger
  generation and is otherwise the one given; in both cases what a restart opens is the manager's version.\<close>

theorem publish_atomic:
  assumes inv: "vm_inv jl m w" and js: "\<And>g. json_stores jl (prepareManifest v g)"
  shows "case publishManagerLocked jl lock v m w of ((answer, err), m', w') \<Rightarrow>
      vm_inv jl m' w'
    \<and> (\<forall>w1. reboot w' w1 \<and> vm_dir m \<in> set (dirs w) \<longrightarrow> OpenVersionManager jl (vm_dir m) w1 = (Inr m', w1))
    \<and> (case answer of None \<Rightarrow> m' = m \<and> err \<noteq> None
       | Some v' \<Rightarrow> vm_current m' = v' \<and> Generation (vm_current m) < Generation v' \<and> v' = prepareManifest v (Generation v'))"
proof -
  obtain answer err m' w' where p: "publishManagerLocked jl lock v m w = ((answer, err), m', w')" by (metis prod.collapse)
  note i = publishManagerLocked_inv [OF inv js p]
  have "OpenVersionManager jl (vm_dir m) w1 = (Inr m', w1)" if "reboot w' w1" "vm_dir m \<in> set (dirs w)" for w1
    using vm_inv_opens [OF i(1) that(1)] i(2,3) that(2) by simp
  then show ?thesis using p i publish_refused_error [of jl lock v m w err m' w'] by (auto split: option.split)
qed

theorem publish_atomic_witness:
  "\<exists>m w. vm_inv (plain_json empty_manifest) m w
    \<and> (case publishManagerLocked (plain_json empty_manifest) (Inr True) empty_manifest m w of ((answer, err), m', w') \<Rightarrow>
        answer = Some (vm_current m') \<and> vm_inv (plain_json empty_manifest) m' w'
        \<and> Generation (vm_current m) < Generation (vm_current m'))"
proof -
  let ?jl = "plain_json empty_manifest"
  obtain m w g where c: "calm w" "vm_dir m = ''.''" "vm_inv ?jl m w" "nextManifestGeneration ''.'' w = (Inr g, w)"
    using first_version_room by blast
  obtain m' w' where p: "publishManagerLocked ?jl (Inr True) empty_manifest m w = ((Some (prepareManifest empty_manifest g), None), m', w')"
    using publishManagerLocked_calm [OF c(3,1) plain_json_stores empty_manifest_valid] c(2,4) by auto
  show ?thesis
    by (rule exI [of _ m], rule exI [of _ w]) (use publish_atomic [OF c(3) plain_json_stores, of "Inr True"] p c(3) in auto)
qed

text \<open>C10: Two managers of one directory never overwrite each other: after one of them has published, a
  publication by the other, which still holds the version before, returns an error, changes no file and
  not its own version; on a disk that does not fail the error is the conflict error.\<close>

theorem no_lost_update:
  assumes m1: "vm_inv jl m1 w" and m2: "vm_inv jl m2 w" and dir: "vm_dir m2 = vm_dir m1"
    and js: "\<And>g. json_stores jl (prepareManifest v1 g)"
    and pub: "publishManagerLocked jl lock1 v1 m1 w = ((Some v, err1), m1', w')"
  shows "case publishManagerLocked jl lock2 v2 m2 w' of ((answer, err), m2', w'') \<Rightarrow>
    answer = None \<and> err \<noteq> None \<and> m2' = m2 \<and> fs w'' = fs w'
    \<and> (calm w' \<and> lock2 = Inr True \<longrightarrow> (\<exists>e. err = Some e \<and> errors_Is e ErrManifestConflict))"
proof -
  note i = publishManagerLocked_inv [OF m1 js pub]
  have d: "on_disk jl (vm_dir m2) v w'" "Generation (vm_current m1) < Generation v" using i dir by (auto simp: vm_inv_def)
  have "vm_current m2 = vm_current m1" using m1 m2 dir on_disk_unique by (metis vm_inv_def)
  then have "vm_currentName m2 = manifestFileName (Generation (vm_current m1))" using m2 by (simp add: vm_inv_def)
  moreover have "Generation v \<noteq> 0" using d(1) by (simp add: on_disk_def)
  ultimately have "vm_currentName m2 \<noteq> manifestFileName (Generation v)" using d(2) manifestFileName_inj by fastforce
  then show ?thesis using publishManagerLocked_stale [OF d(1)] by (auto split: prod.splits)
qed

theorem no_lost_update_witness:
  "\<exists>m m' w w' v. publishManagerLocked (plain_json empty_manifest) (Inr True) empty_manifest m w = ((Some v, None), m', w')
    \<and> (case publishManagerLocked (plain_json empty_manifest) (Inr True) empty_manifest m w' of ((answer, err), m2', w'') \<Rightarrow>
        answer = None \<and> err \<noteq> None \<and> m2' = m \<and> fs w'' = fs w')"
proof -
  let ?jl = "plain_json empty_manifest"
  obtain m w g where c: "calm w" "vm_dir m = ''.''" "vm_inv ?jl m w" "nextManifestGeneration ''.'' w = (Inr g, w)"
    using first_version_room by blast
  obtain m' w' where p: "publishManagerLocked ?jl (Inr True) empty_manifest m w = ((Some (prepareManifest empty_manifest g), None), m', w')"
    using publishManagerLocked_calm [OF c(3,1) plain_json_stores empty_manifest_valid] c(2,4) by auto
  from no_lost_update [OF c(3) c(3) refl plain_json_stores p, of "Inr True" empty_manifest] show ?thesis
    by (intro exI conjI) (rule p, auto split: prod.splits)
qed

text \<open>C11: A manifest passes validation exactly when it is well formed: current format, a generation, a
  JSON object as schema, valid segments with distinct IDs below the next one, and index snapshots that
  describe distinct persisted segments and own distinct files.\<close>

theorem manifest_validation: "Manifest_Validate m = None \<longleftrightarrow> manifest_ok m"
  by (rule Manifest_Validate_iff)

section \<open>Collections\<close>



text \<open>C13: A flush, whatever fails in it, changes no document and leaves a collection that a restart opens; when it
  reports no error, every document is in an immutable segment and none in the writing one.\<close>

theorem flush_keeps_documents:
  assumes inv: "coll_inv jl c w"
    and js: "json_stores jl (vm_current (cs_versions (fst (snd (CollectionStore_Flush jl lk c w)))))"
  shows "case CollectionStore_Flush jl lk c w of (errs, c', w') \<Rightarrow>
      coll_inv jl c' w' \<and> mgr_kv (cs_manager c') = mgr_kv (cs_manager c)
    \<and> (errs = [] \<longrightarrow> writing_docs (cs_manager c') = [])"
proof -
  obtain errs c' w' where f: "CollectionStore_Flush jl lk c w = (errs, c', w')" by (cases "CollectionStore_Flush jl lk c w")
  have js': "json_stores jl (vm_current (cs_versions c'))" using js f by simp
  show ?thesis using Flush_inv [OF inv js' f] Flush_done [OF inv js'] f by auto
qed

theorem flush_keeps_documents_witness:
  "\<exists>c w. CreateCollection first_json free_locks ''.'' [0x7B, 0x7D] first_options quiet_world = (Inr c, w)
    \<and> (case CollectionStore_Flush first_json free_locks c w of (errs, c', w') \<Rightarrow>
        coll_inv first_json c' w' \<and> mgr_kv (cs_manager c') = Map.empty)"
proof -
  obtain c w where c: "CreateCollection first_json free_locks ''.'' [0x7B, 0x7D] first_options quiet_world = (Inr c, w)"
    "calm w" "coll_inv first_json c w" "mgr_kv (cs_manager c) = Map.empty"
    "mgr_writing (cs_manager c) = Some \<lparr>ws_id = 0, ws_minDocID = 0, ws_maxDocs = 10, ws_docs = [], ws_sealed = False\<rparr>"
    "json_stores first_json (vm_current (cs_versions c))"
    by (rule first_collection)
  have "cs_versions (fst (snd (CollectionStore_Flush first_json free_locks c w))) = cs_versions c"
    using c(5) by (auto simp: CollectionStore_Flush_def WriteSegment_Documents_def Let_def split: prod.splits option.splits)
  then show ?thesis
    using flush_keeps_documents [OF c(3), of free_locks] c(1,4,6) by (auto split: prod.splits)
qed

text \<open>C14: Rewriting the documents is atomic: the call reports a commit exactly when the collection holds the
  documents it was given, and otherwise the collection holds what it held; in both cases a restart opens it.\<close>

theorem rewrite_replaces_documents:
  assumes inv: "coll_inv jl c w"
    and js: "json_stores jl (vm_current (cs_versions (fst (snd (CollectionStore_RewriteDocuments jl lk schema documents c w)))))"
  shows "case CollectionStore_RewriteDocuments jl lk schema documents c w of ((committed, errs), c', w') \<Rightarrow>
      coll_inv jl c' w' \<and> mgr_kv (cs_manager c') =
        (if committed then map_of (map (\<lambda>d. (doc_PrimaryKey d, doc_Payload d)) documents) else mgr_kv (cs_manager c))"
proof -
  obtain r c' w' where f: "CollectionStore_RewriteDocuments jl lk schema documents c w = (r, c', w')"
    by (cases "CollectionStore_RewriteDocuments jl lk schema documents c w")
  obtain committed errs where r: "r = (committed, errs)" by (cases r)
  have js': "json_stores jl (vm_current (cs_versions c'))" using js f by simp
  show ?thesis using RewriteDocuments_inv [OF inv js' f [unfolded r]] f r by (simp add: rewrite_outcome_def docs_kv_def)
qed

theorem rewrite_replaces_documents_witness:
  "\<exists>c w c1 w1. CreateCollection first_json free_locks ''.'' [0x7B, 0x7D] first_options quiet_world = (Inr c, w)
    \<and> snd (CollectionStore_Insert [input_a] c w) = (c1, w1)
    \<and> (case CollectionStore_RewriteDocuments first_json free_locks [0x7B, 0x7D] [] c1 w1 of ((committed, errs), c', w') \<Rightarrow>
        coll_inv first_json c' w' \<and> mgr_kv (cs_manager c') = [key_a \<mapsto> [1, 2, 3]])"
proof -
  obtain c w c1 w1 rs where c: "CreateCollection first_json free_locks ''.'' [0x7B, 0x7D] first_options quiet_world = (Inr c, w)"
    "CollectionStore_Insert [input_a] c w = (Inr (rs, None), c1, w1)"
    "mgr_kv (cs_manager c1) = [key_a \<mapsto> [1, 2, 3]]" "calm w1" "coll_inv first_json c1 w1"
    "json_stores first_json (vm_current (cs_versions c))" "cs_versions c1 = cs_versions c"
    by (rule first_collection_insert)
  obtain m0 ps where "eng_inv m0 ps (cs_engine c1) w1" using c(5) by (rule coll_invE)
  then have ok: "mgr_ok (cs_manager c1)" by (simp add: eng_inv_def)
  obtain x live where l: "SegmentManager_LiveDocuments (cs_manager c1) w1 = (Inr live, w1)"
    using LiveDocuments_calm c(4) by (auto simp: calm_def)
  have "live \<noteq> []" using LiveDocuments_sound(2) [OF ok l, of key_a "[1, 2, 3]"] c(3) by auto
  then have "fst (snd (CollectionStore_RewriteDocuments first_json free_locks [0x7B, 0x7D] [] c1 w1)) = c1
    \<and> \<not> fst (fst (CollectionStore_RewriteDocuments first_json free_locks [0x7B, 0x7D] [] c1 w1))"
    using c(4) l by (simp add: CollectionStore_RewriteDocuments_def calm_def split: option.splits)
  then show ?thesis
    using rewrite_replaces_documents [OF c(5), of free_locks "[0x7B, 0x7D]" "[]"] c by (auto split: prod.splits if_splits)
qed

text \<open>C15: Pruning keeps every file the current version names (the files of its segments, its log, its index
  artifacts and its two snapshots), the version itself and its history, and leaves a collection whose state is as before; when it
  reports no error it has removed every log, snapshot and index file that the version does not name, other than the lock
  file of the log.\<close>

theorem prune_exact:
  assumes inv: "coll_inv jl c w"
  shows "case CollectionStore_PruneObsoleteArtifacts c w of (err, w') \<Rightarrow>
      coll_inv jl c w'
    \<and> (\<forall>p f. named_by (cs_dir c) (vm_current (cs_versions c)) p \<or> p = current_path (cs_dir c) \<or> (\<exists>g. p = manifest_path (cs_dir c) g)
         \<longrightarrow> fs w p = Some f \<longrightarrow> fs w' p = Some f)
    \<and> (\<forall>d pats pat p. err = None \<longrightarrow> (d, pats) \<in> set (pruned_directories (cs_dir c)) \<longrightarrow> d \<in> set (dirs w) \<longrightarrow> lies_in d p
         \<longrightarrow> pat \<in> set pats \<longrightarrow> filepath_Match pat (filepath_Base p)
         \<longrightarrow> \<not> named_by (cs_dir c) (vm_current (cs_versions c)) p \<longrightarrow> \<not> lock_of_log (cs_dir c) (vm_current (cs_versions c)) p
         \<longrightarrow> fs w' p = None)"
proof -
  obtain err w' where p: "CollectionStore_PruneObsoleteArtifacts c w = (err, w')"
    by (cases "CollectionStore_PruneObsoleteArtifacts c w")
  have "paths_complete w" using inv by (simp add: coll_inv_def vm_inv_def)
  then show ?thesis
    using Prune_inv [OF inv p] Prune_spared [OF p] Prune_removes [of c w w'] p by (auto simp: spared_def retained_iff version_paths_def)
qed

theorem prune_exact_witness:
  "\<exists>c w. CreateCollection first_json free_locks ''.'' [0x7B, 0x7D] first_options quiet_world = (Inr c, w)
    \<and> (case CollectionStore_PruneObsoleteArtifacts c w of (err, w') \<Rightarrow> coll_inv first_json c w')"
proof -
  obtain c w where c: "CreateCollection first_json free_locks ''.'' [0x7B, 0x7D] first_options quiet_world = (Inr c, w)"
    "coll_inv first_json c w"
    by (rule first_collection)
  show ?thesis using prune_exact [OF c(2)] c(1) by auto
qed

text \<open>C16: The check of a collection's state accepts exactly the states in which the primary-key map has the
  location of every document that is not deleted, and no other entry, and every deleted ID is that of a
  stored document.\<close>

theorem state_validation:
  assumes "mgr_wf m" and "mgr_ordered m"
  shows "validateCollectionState m = None \<longleftrightarrow>
      (\<forall>k l. PrimaryKeyMap_Get k (mgr_primaryKey m) = Some l \<longleftrightarrow>
         (\<exists>d \<in> set (segment_docs (SegmentID l) m). DocID l = doc_DocID d \<and> doc_PrimaryKey d = k
            \<and> \<not> DeleteStore_IsDeleted (doc_DocID d) (mgr_deletes m)))
    \<and> (\<forall>i. DeleteStore_IsDeleted i (mgr_deletes m) \<longrightarrow> i \<in> doc_DocID ` set (mgr_docs m))"
  using validateCollectionState_sets [OF assms] located_iff [OF assms(1)] by (auto simp: mgr_known_def)

theorem state_validation_witness:
  "validateCollectionState one_manager = None \<and> \<not> DeleteStore_IsDeleted 7 (mgr_deletes one_manager)"
proof -
  have ok: "mgr_wf one_manager" "mgr_ordered one_manager" "mgr_indexed one_manager" "mgr_known one_manager"
    using one_manager_ok by (simp_all add: mgr_ok_def)
  have v: "validateCollectionState one_manager = None" using validateCollectionState_iff [OF ok(1,2)] ok(3,4) by simp
  have "7 \<notin> doc_DocID ` set (mgr_docs one_manager)"
    by (simp add: mgr_docs_def writing_docs_def one_manager_def one_segment_def one_doc_def first_manager_def NewSegmentManager_def)
  then show ?thesis using state_validation [OF ok(1,2)] v by blast
qed

text \<open>The documents of a rewrite are cut into segments in the only way there is to cut them into runs of consecutive IDs
  within the capacity, each as long as it can be.\<close>

theorem rewrite_runs_unique:
  assumes "mx \<noteq> 0" and "length documents < 2 ^ 64"
  shows "rewriteDocumentRuns mx documents = runs \<longleftrightarrow>
      concat runs = documents
    \<and> list_all (\<lambda>run. run \<noteq> [] \<and> successively consecutive run \<and> length run \<le> unat mx) runs
    \<and> successively (\<lambda>r s. length r = unat mx \<or> \<not> consecutive (last r) (hd s)) runs"
  using rewriteDocumentRuns_iff [OF assms] by (auto simp: canonical_runs_def)

theorem rewrite_runs_unique_witness:
  "rewriteDocumentRuns 2 (map (\<lambda>i. one_doc\<lparr>doc_DocID := i\<rparr>) [3, 4, 5, 9]) =
     map (map (\<lambda>i. one_doc\<lparr>doc_DocID := i\<rparr>)) [[3, 4], [5], [9]]"
  by (subst rewrite_runs_unique) (simp_all add: consecutive_def)

text \<open>C17: The search for a free artifact name ends: it returns the first generation that is free, and
  reports that the generations are exhausted exactly when none is; this is for a disk that does not fail.\<close>

theorem artifact_search_ends:
  assumes "calm w"
  shows "case availableArtifact dir name g w of
      (Inr rel, w') \<Rightarrow> w' = w \<and> (\<exists>h \<ge> g. rel = name h \<and> fs w (filepath_Join dir (name h)) = None
        \<and> (\<forall>i. g \<le> i \<and> i < h \<longrightarrow> fs w (filepath_Join dir (name i)) \<noteq> None))
    | (Inl e, w') \<Rightarrow> w' = w \<and> e = NewError ''db: artifact generation space is exhausted''
        \<and> (\<forall>i \<ge> g. fs w (filepath_Join dir (name i)) \<noteq> None)"
proof (cases "\<forall>i \<ge> g. fs w (filepath_Join dir (name i)) \<noteq> None")
  case True
  then show ?thesis using availableArtifact_calm(2) [OF assms, of g dir name] by simp
next
  case False
  let ?free = "\<lambda>i. g \<le> i \<and> fs w (filepath_Join dir (name i)) = None"
  obtain h where h: "?free h" "\<And>i. ?free i \<Longrightarrow> h \<le> i" 
    using False exists_least_iff [of ?free] by (metis linorder_not_le)
  have least: "fs w (filepath_Join dir (name i)) \<noteq> None" if "g \<le> i" "i < h" for i using h(2) [of i] that by (metis leD)
  have "availableArtifact dir name g w = (Inr (name h), w)"
    by (rule availableArtifact_calm(1) [OF assms]) (use h least in blast)+
  then show ?thesis using h least by auto
qed

theorem artifact_search_ends_witness:
  "availableArtifact ''.'' (segmentFileName 0) 5 quiet_world = (Inr (segmentFileName 0 5), quiet_world)"
proof -
  have "h = 5" if "5 \<le> h" "\<forall>i. 5 \<le> i \<and> i < h \<longrightarrow> fs quiet_world (filepath_Join ''.'' (segmentFileName 0 i)) \<noteq> None" for h :: u64
    using that by (auto simp: quiet_world_def)
  then show ?thesis
    using artifact_search_ends [OF quiet_world_calm, where dir = "''.''" and name = "segmentFileName 0" and g = 5]
    by (cases "availableArtifact ''.'' (segmentFileName 0) 5 quiet_world") (auto simp: quiet_world_def split: sum.splits)
qed

text \<open>C18: A closed handle refuses every write with the error for closed handles, and an open read-only one with the
  error for read-only handles, and nothing changes: the four document writes, and, under a context that is not cancelled,
  flush, pruning, the publication of index snapshots and, given a valid schema, of a schema, and rewriting.\<close>

theorem refused_operations:
  assumes "cs_closed c \<or> cs_readOnly c" and e: "e = Sentinel (if cs_closed c then ErrCollectionClosed else ErrReadOnly)"
  shows "CollectionStore_Insert inputs c w = (Inl e, c, w) \<and> CollectionStore_Upsert inputs c w = (Inl e, c, w)
    \<and> CollectionStore_Update inputs c w = (Inl e, c, w) \<and> CollectionStore_Delete ks c w = (Inl e, c, w)
    \<and> (polls w = None \<longrightarrow> CollectionStore_Flush jl lk c w = ([e], c, w)
        \<and> CollectionStore_PruneObsoleteArtifacts c w = (Some e, w)
        \<and> CollectionStore_PublishSegmentIndexSnapshots jl lk snapshots c w = ((False, Some e), c, w)
        \<and> (validateSchemaJSON schema = None \<longrightarrow> CollectionStore_PublishSchema jl lk schema c w = ((False, Some e), c, w)
             \<and> CollectionStore_RewriteDocuments jl lk schema documents c w = ((False, [e]), c, w)))"
proof -
  have r: "requireWritableLocked c = Some e" using assms by (auto simp: requireWritableLocked_def)
  show ?thesis
    using refused_writes [OF r] r by (auto simp: CollectionStore_Flush_def CollectionStore_PruneObsoleteArtifacts_def
        CollectionStore_PublishSegmentIndexSnapshots_def CollectionStore_PublishSchema_def CollectionStore_RewriteDocuments_def)
qed

theorem refused_operations_witness:
  "\<exists>c w. CreateCollection first_json free_locks ''.'' [0x7B, 0x7D] first_options quiet_world = (Inr c, w)
    \<and> CollectionStore_Insert [input_a] (c\<lparr>cs_closed := True\<rparr>) w = (Inl (Sentinel ErrCollectionClosed), c\<lparr>cs_closed := True\<rparr>, w)"
proof -
  obtain c w where c: "CreateCollection first_json free_locks ''.'' [0x7B, 0x7D] first_options quiet_world = (Inr c, w)"
    by (rule first_collection)
  then show ?thesis
    using refused_operations [of "c\<lparr>cs_closed := True\<rparr>" "Sentinel ErrCollectionClosed" "[input_a]" w] by auto
qed

section \<open>Filters\<close>

text \<open>C19: A compiled pattern matches exactly the texts that are valid UTF-8 and that the meaning of LIKE on runes
  accepts (a percent sign for any runes, an underscore for one rune, a backslash takes the next rune as it is); and where
  the pattern was classified, matching is the equality, prefix, suffix or substring test with the literal.\<close>

theorem like_correct:
  assumes "CompileLike pattern = Inr p"
  shows "(LikePattern_Match p s \<longleftrightarrow> utf8_valid s \<and> like_spec (runes pattern) (runes s))
    \<and> (utf8_valid s \<and> lp_mode p \<noteq> LikeGeneral \<longrightarrow> LikePattern_Match p s = mode_spec (lp_mode p) (lp_literal p) s)"
  using CompileLike_spec [OF assms] CompileLike_mode [OF assms] by blast

theorem like_correct_witness:
  "\<exists>p. CompileLike (ascii ''a%'') = Inr p \<and> LikePattern_Match p (ascii ''abc'') \<and> \<not> LikePattern_Match p (ascii ''ba'')
    \<and> LikePattern_Match p (ascii ''abc'') = prefix (ascii ''a'') (ascii ''abc'')"
proof -
  let ?p = "\<lparr>lp_raw = ascii ''a%'', lp_mode = LikePrefix, lp_literal = ascii ''a'', lp_regexp = [likeLiteral [0x61], likeAnySequence]\<rparr>"
  have t: "utf8_valid (ascii ''a%'')" "length (ascii ''a%'') = 2" "tokenizeLike (ascii ''a%'') = [likeLiteral [0x61], likeAnySequence]"
    "classifyLike [likeLiteral [0x61], likeAnySequence] = (LikePrefix, ascii ''a'')"
    by code_simp+
  have c: "CompileLike (ascii ''a%'') = Inr ?p" using t by (simp add: CompileLike_def MaxFilterBytes_def)
  have v: "utf8_valid (ascii ''abc'')" "like_spec (runes (ascii ''a%'')) (runes (ascii ''abc''))"
    "\<not> like_spec (runes (ascii ''a%'')) (runes (ascii ''ba''))"
    by code_simp+
  show ?thesis using like_correct [OF c, of "ascii ''abc''"] like_correct [OF c, of "ascii ''ba''"] c v by auto
qed

text \<open>C20: The tokens of a filter end with the end of the input; every other token has a text, which is the input between
  its positions, and the tokens follow each other without overlap.\<close>

theorem filter_tokens:
  assumes "Lex input = Inr tokens"
  shows "tokens \<noteq> [] \<and> tok_Kind (last tokens) = TokenEOF \<and> pos_Offset (span_Start (tok_Span (last tokens))) = length input
    \<and> (\<forall>t \<in> set (butlast tokens). token_in input t \<and> tok_Text t \<noteq> [] \<and> tok_Kind t \<noteq> TokenEOF)
    \<and> sorted_wrt (\<lambda>s t. pos_Offset (span_End (tok_Span s)) \<le> pos_Offset (span_Start (tok_Span t))) tokens"
  by (rule Lex_tokens [OF assms]) auto

theorem filter_tokens_witness:
  "tok_Kind (last doc_tokens) = TokenEOF \<and> pos_Offset (span_Start (tok_Span (last doc_tokens))) = 10
    \<and> list_all (token_in doc_filter) (butlast doc_tokens)"
  using filter_tokens [OF doc_Lex] doc_valid(2) by (simp add: list_all_iff)

text \<open>C21: Parsing a filter gives an expression whose operators have operands of the right shape, or an error with a
  position in the input.\<close>

theorem parse_outcome:
  "case ParseFilter input of Inl err \<Rightarrow> error_within (length input) err | Inr e \<Rightarrow> expr_ok e"
  by (rule ParseFilter_result)

text \<open>C22: A filter that parses and binds has a plan, and the plan that was rewritten and optimised answers on every row
  as the filter does: where the filter evaluates to a truth value, so does the plan, to the same one or to false for unknown, and
  the row matches exactly if the filter is true of it.\<close>

theorem plan_refines_filter:
  assumes "ParseFilter input = Inr e" and "bind_in schema e = Inr node"
  shows "\<exists>plan. BuildPlan input schema = Inr plan
    \<and> (\<forall>resolve t. planNode_evaluate resolve node = Inr t \<longrightarrow>
        (\<exists>u. Plan_Evaluate plan resolve = Inr u \<and> truth_refines t u \<and> Plan_Match plan resolve = Inr (Truth_Match t)))"
proof (rule BuildPlan_refines [OF assms])
  fix plan
  assume plan: "BuildPlan input schema = Inr plan"
    "\<And>resolve t. planNode_evaluate resolve node = Inr t \<Longrightarrow> \<exists>u. Plan_Evaluate plan resolve = Inr u \<and> truth_refines t u"
  have "\<exists>u. Plan_Evaluate plan resolve = Inr u \<and> truth_refines t u \<and> Plan_Match plan resolve = Inr (Truth_Match t)"
    if "planNode_evaluate resolve node = Inr t" for resolve t
    using plan(2) [OF that] truth_refines_Match by (auto simp: Plan_Match_def)
  then show ?thesis using plan(1) by blast
qed

theorem plan_refines_filter_witness:
  "\<exists>plan. BuildPlan doc_filter doc_schema = Inr plan \<and> Plan_Match plan (doc_resolve 0) = Inr True
    \<and> Plan_Match plan (doc_resolve 2) = Inr False \<and> Plan_Match plan (doc_resolve 3) = Inr False"
  using plan_refines_filter [OF doc_parse doc_bind] doc_evaluate by (fastforce simp: Truth_Match_def)

text \<open>C23: An index built over the rows of a field and sealed answers a predicate that it supports with exactly the rows
  whose value satisfies it, as evaluating the predicate on the value decides; and an array-length predicate with the
  rows that are not null and whose length satisfies it.\<close>

theorem index_search_exact:
  assumes "roaring_ok R" and "NewInvertedIndex R field = Inr i" and "\<forall>(row, v) \<in> set rows. value_ok v" and "add_rows R i rows = Inr i'"
  shows "(predicate_for field p \<and> InvertedIndex_Search R (InvertedIndex_Seal i') p = Inr (Some res) \<longrightarrow>
      bits_of R (ir_Bitmap res) = rows_where (map_of (rev rows)) (\<lambda>v. BoundPredicate_Evaluate p v = Inr TruthTrue))
    \<and> (width_ok (bp_right p) \<and> SearchArrayLength R (InvertedIndex_Seal i') p = Inr (Some res) \<longrightarrow>
      bits_of R (ir_Bitmap res) = rows_where (map_of (rev rows))
        (\<lambda>v. \<not> v_null v \<and> BoundPredicate_Evaluate p (Uint32Value (word_of_nat (length (v_elements v)))) = Inr TruthTrue))"
  using Search_exact [OF assms(1) built_index(1) [OF assms], of p res] SearchArrayLength_exact [OF assms(1) built_index(1) [OF assms], of p res]
    built_index(2) [OF assms]
  by (simp add: satisfies_def [abs_def] length_value_def)

theorem index_search_exact_witness:
  "bits_of list_roaring (ir_Bitmap doc_result) = rows_where (map_of (rev doc_rows)) (\<lambda>v. BoundPredicate_Evaluate doc_predicate v = Inr TruthTrue)
    \<and> bits_of list_roaring (ir_Bitmap doc_result) = {0, 1}"
  using index_search_exact [OF list_roaring_ok doc_NewInvertedIndex doc_values_ok doc_add, of doc_predicate doc_result]
    doc_predicate_for doc_search [unfolded doc_index_def]
  by (simp add: doc_result_def bits_of_def list_roaring_members doc_bitmap_def)

text \<open>C24: With indexes that were built over the columns of a table, asking a plan for its candidates never fails; the rows it
  gives include every row that matches the plan, and where it reports them to be exact they are those rows.\<close>

theorem candidates_safe:
  assumes "roaring_ok R" and "BuildPlan input schema = Inr plan" and "indexes_hold R schema indexes resolve totalRows"
  shows "\<exists>c. Plan_Candidates R plan indexes totalRows = Inr c
    \<and> (\<forall>b exact. c = Some (b, exact) \<longrightarrow>
        {row. row < totalRows \<and> Plan_Match plan (resolve row) = Inr True} \<subseteq> bits_of R b
      \<and> (exact \<and> (\<forall>row < totalRows. \<exists>t. Plan_Evaluate plan (resolve row) = Inr t) \<longrightarrow>
          bits_of R b = {row. row < totalRows \<and> Plan_Match plan (resolve row) = Inr True}))"
  using Plan_Candidates_total [OF assms] Plan_Candidates_covers [OF assms] by fastforce

theorem candidates_safe_witness:
  "Plan_Candidates list_roaring doc_plan doc_indexes 4 = Inr (Some (doc_bitmap [0, 1], True))
    \<and> {row. row < 4 \<and> Plan_Match doc_plan (doc_resolve row) = Inr True} \<subseteq> bits_of list_roaring (doc_bitmap [0, 1])"
  using candidates_safe [OF list_roaring_ok doc_BuildPlan doc_indexes_hold] doc_candidates by auto

section \<open>The operation log\<close>

text \<open>C25: Decoding an encoded write operation gives it back, and the decoder accepts nothing but
  encodings: a payload that decodes is the encoding of the operation it decodes to.\<close>

theorem write_operation_codec:
  "decodeWriteOperation e = Inr op \<longleftrightarrow> encodeWriteOperation op = Inr e"
  using decode_encodeWriteOperation decodeWriteOperation_exact by blast

section \<open>The write-ahead log\<close>

text \<open>C26: Scanning a log file cut anywhere behind its header finds exactly the records that are
  complete and reports the rest as the torn tail to truncate.\<close>

theorem scan_torn_log:
  assumes "list_all valid_payload ps" and "32 \<le> n" and "polls w = None"
  shows "scanWAL (take n (wal_image ps)) (length (take n (wal_image ps))) w =
    (Inr (recovery_of (Wal.complete (n - 32) ps)
       (min n (32 + log_size ps) - (32 + log_size (Wal.complete (n - 32) ps)))), w)"
  by (rule scanWAL_image [OF assms])

theorem scan_torn_log_witness:
  "scanWAL (take 70 (wal_image [[1], [2]])) (length (take 70 (wal_image [[1], [2]]))) quiet_world =
    (Inr (recovery_of [[1]] 5), quiet_world)"
  using scan_torn_log [of "[[1], [2]]" 70 quiet_world]
  by (simp add: valid_payload_def wal_sizes quiet_world_def)

text \<open>C27: Whatever file the scan accepts is a log: a header, complete records with consecutive
  sequence numbers and good checksums, as many as reported, and a tail of the reported length.\<close>

theorem scan_sound:
  assumes "scanWAL c (length c) w = (Inr r, w')"
  shows "\<exists>ps tail. list_all valid_payload ps \<and> c = wal_image ps @ tail \<and> r = recovery_of ps (length tail)"
  using scanWAL_sound [OF assms] by blast

theorem scan_sound_witness:
  "\<exists>ps tail. list_all valid_payload ps \<and> wal_image [[7]] = wal_image ps @ tail
    \<and> recovery_of [[7]] 0 = recovery_of ps (length tail)"
proof -
  have "scanWAL (wal_image [[7]]) (length (wal_image [[7]])) quiet_world = (Inr (recovery_of [[7]] 0), quiet_world)"
    using scanWAL_image [of "[[7]]" 65 quiet_world] by (simp add: valid_payload_def wal_sizes quiet_world_def)
  then show ?thesis by (rule scan_sound)
qed

text \<open>C28: An append that returns an LSN has added exactly that record to the log; one that returns
  none leaves the log's records as they were, whatever part of the bytes the disk took.\<close>

theorem append_all_or_nothing:
  assumes "wal_holds ps l w" and "WAL_Append p l w = ((lsn, e), l', w')"
  shows "(lsn = 0 \<and> e \<noteq> None \<and> wal_holds ps l' w') \<or>
    (lsn = of_nat (length ps) + 1 \<and> lsn \<noteq> 0 \<and> valid_payload p \<and> wal_poisoned l' = None
       \<and> wal_holds (ps @ [p]) l' w')"
  by (rule WAL_Append_cases [OF assms])

theorem append_all_or_nothing_witness:
  "\<exists>lsn e l' w'. WAL_Append [] first_wal first_world = ((lsn, e), l', w') \<and> lsn = 0 \<and> e \<noteq> None \<and> wal_holds [] l' w'"
proof -
  obtain lsn e l' w' where a: "WAL_Append [] first_wal first_world = ((lsn, e), l', w')" by (metis prod.collapse)
  have "wal_holds [] first_wal first_world" using first_engine_inv by (simp add: eng_inv_def first_engine_def)
  from append_all_or_nothing [OF this a] show ?thesis using a by (auto simp: valid_payload_def)
qed

text \<open>After a successful sync a crash loses no record: every image of the file that the crash
  may leave scans to all the records of the log and no torn tail.\<close>

theorem synced_log_survives:
  assumes h: "wal_holds ps l w" and s: "WAL_Sync l w = (None, l', w')"
    and f: "fs w' (wal_path l) = Some f" "crash_image f c" and w1: "polls w1 = None"
  shows "scanWAL c (length c) w1 = (Inr (recovery_of ps 0), w1)"
proof -
  note d = WAL_Sync_durable [OF h s]
  then have "content f = wal_image ps" "length (wal_image ps) \<le> synced f" "list_all valid_payload ps"
    using f(1) by (auto simp: wal_holds_def wal_durable_def log_file_def)
  then have "c = wal_image ps" "list_all valid_payload ps" using f(2) by (auto simp: crash_image_def)
  then show ?thesis
    using scanWAL_image [of ps "length (wal_image ps)" w1] w1 by (simp add: complete_all)
qed

theorem synced_log_survives_witness:
  "\<exists>l' w' f. WAL_Sync first_wal first_world = (None, l', w') \<and> fs w' ''wal'' = Some f
    \<and> scanWAL (content f) (length (content f)) quiet_world = (Inr (recovery_of [] 0), quiet_world)"
proof -
  have "wal_holds [] first_wal first_world" using first_engine_inv by (simp add: eng_inv_def first_engine_def)
  moreover have "WAL_Sync first_wal first_world = (None, first_wal, set_file ''wal'' first_file first_world)"
    by (simp add: WAL_Sync_def first_wal_def first_world_def first_file_def quiet_world_def file_Sync_def set_file_def)
  moreover have "crash_image first_file (content first_file)" by (auto simp: crash_image_def first_file_def)
  ultimately show ?thesis
    using synced_log_survives [of "[]" first_wal first_world first_wal _ first_file "content first_file" quiet_world]
    by (simp add: first_wal_def quiet_world_def)
qed

text \<open>A record header is accepted exactly when it is the header the encoder writes for the
  expected sequence number and a length within bounds, so any change to one of its fields is
  refused.\<close>

theorem record_header_exact:
  "decodeWALRecordHeader h expected = Inr md \<longleftrightarrow>
     h = wal_record_header expected (md_payloadLength md) (md_payloadCRC md) \<and> md_lsn md = expected
       \<and> 0 < unat (md_payloadLength md) \<and> unat (md_payloadLength md) \<le> MaxWALRecordSize"
proof
  assume "decodeWALRecordHeader h expected = Inr md"
  then show "h = wal_record_header expected (md_payloadLength md) (md_payloadCRC md) \<and> md_lsn md = expected
      \<and> 0 < unat (md_payloadLength md) \<and> unat (md_payloadLength md) \<le> MaxWALRecordSize"
    using decodeWALRecordHeader_exact by blast
next
  assume h: "h = wal_record_header expected (md_payloadLength md) (md_payloadCRC md) \<and> md_lsn md = expected
      \<and> 0 < unat (md_payloadLength md) \<and> unat (md_payloadLength md) \<le> MaxWALRecordSize"
  then have "md_payloadLength md \<noteq> 0" by auto
  moreover have "\<not> word_of_nat MaxWALRecordSize < md_payloadLength md"
    using h by (simp add: word_less_nat_alt wal_sizes)
  ultimately show "decodeWALRecordHeader h expected = Inr md" using h by (simp add: decode_wal_record_header)
qed

section \<open>Snapshots\<close>

text \<open>C29: The snapshot codec is exact both ways: a file decodes to a count and a payload exactly when
  it is their encoding.\<close>

theorem snapshot_codec:
  assumes "length magic = 8" and "length e < 2 ^ 64"
  shows "decodeSnapshot e magic = Inr (n, p) \<longleftrightarrow> encodeSnapshot magic n p = Inr e"
  using decode_encodeSnapshot [OF _ assms(1)] decodeSnapshot_exact [OF _ assms] by blast

theorem snapshot_codec_witness:
  "\<exists>e. encodeSnapshot primaryMapMagic 1 [7] = Inr e \<and> decodeSnapshot e primaryMapMagic = Inr (1, [7])"
proof -
  have m: "length primaryMapMagic = 8" by (simp add: primaryMapMagic_def)
  obtain e where e: "encodeSnapshot primaryMapMagic 1 [7] = Inr e"
    by (auto simp: encodeSnapshot_def maxSnapshotPayload_def Let_def)
  then have "length e < 2 ^ 64" using encodeSnapshot_length [OF e m] by simp
  then show ?thesis using snapshot_codec [OF m, of e 1 "[7]"] e by blast
qed


section \<open>The primary-key map\<close>

text \<open>C31: A primary-key map written to a snapshot and loaded again has the same keys with the same
  locations.\<close>

theorem primary_map_roundtrip:
  assumes "pk_storable m" and "calm w" and "free_name name w"
    and "PrimaryKeyMap_WriteSnapshot name m w = (r, w')"
  shows "r = None \<and> (\<exists>m'. LoadPrimaryKeyMap name w' = (Inr m', w')
    \<and> (\<forall>k. PrimaryKeyMap_Get k m' = PrimaryKeyMap_Get k m))"
proof -
  have "pk_wf m" using assms(1) by (simp add: pk_storable_def)
  then show ?thesis using pk_WriteSnapshot_Load [OF assms] pk_canonical_Get by blast
qed

theorem primary_map_roundtrip_witness:
  "\<exists>w' m'. PrimaryKeyMap_WriteSnapshot ''pk'' one_key quiet_world = (None, w') \<and> LoadPrimaryKeyMap ''pk'' w' = (Inr m', w')
    \<and> PrimaryKeyMap_Get key_a m' = Some \<lparr>SegmentID = 1, DocID = 0\<rparr>"
proof -
  obtain r w' where wr: "PrimaryKeyMap_WriteSnapshot ''pk'' one_key quiet_world = (r, w')"
    by (cases "PrimaryKeyMap_WriteSnapshot ''pk'' one_key quiet_world")
  have free: "free_name ''pk'' quiet_world"
    by (simp add: free_name_def quiet_world_def filepath_Dir_def path_Clean_def path_IsAbs_def Let_def)
  have "pk_storable one_key"
    by (simp add: pk_storable_def pk_wf_def one_key_def key_ab_valid pk_sorted_keys_def maxSnapshotPayload_def key_a_def
        validatePrimaryKey_def maxPrimaryKeyBytes_def)
  then show ?thesis
    using primary_map_roundtrip [OF _ quiet_world_calm free wr] wr
    by (auto simp: quiet_world_def one_key_def PrimaryKeyMap_Get_def)
qed

text \<open>No operation and no loaded file breaks the map's invariant: keys are valid and distinct and
  no two keys share a location.\<close>

theorem primary_map_invariant:
  "(\<forall>r m' w'. pk_wf m \<longrightarrow> PrimaryKeyMap_Put k l m w = (r, m', w') \<longrightarrow> pk_wf m')
   \<and> (\<forall>r m' w'. pk_wf m \<longrightarrow> PrimaryKeyMap_Delete k m w = (r, m', w') \<longrightarrow> pk_wf m')
   \<and> (\<forall>m' w'. LoadPrimaryKeyMap name w = (Inr m', w') \<longrightarrow> pk_wf m')"
  using PrimaryKeyMap_Put_wf PrimaryKeyMap_Delete_wf LoadPrimaryKeyMap_wf by blast

theorem primary_map_invariant_witness:
  "pk_wf (fst (snd (PrimaryKeyMap_Put key_b \<lparr>SegmentID = 1, DocID = 1\<rparr> one_key quiet_world)))"
proof -
  have "pk_wf one_key" using one_manager_ok by (simp add: mgr_ok_def mgr_wf_def one_manager_def)
  then show ?thesis
    using primary_map_invariant [of one_key key_b "\<lparr>SegmentID = 1, DocID = 1\<rparr>" quiet_world] by (metis prod.collapse)
qed

text \<open>A successful put makes the key's location the new one and returns the old one, a successful
  delete makes the key absent and returns its location; both leave every other key alone.\<close>

theorem primary_map_lookup:
  "(PrimaryKeyMap_Put k l m w = (Inr old, m', w') \<longrightarrow>
      PrimaryKeyMap_Get k' m' = (if k' = k then Some l else PrimaryKeyMap_Get k' m) \<and> old = PrimaryKeyMap_Get k m)
   \<and> (PrimaryKeyMap_Delete k m w = (Inr old, m', w') \<longrightarrow>
      PrimaryKeyMap_Get k' m' = (if k' = k then None else PrimaryKeyMap_Get k' m) \<and> old = PrimaryKeyMap_Get k m)"
  using PrimaryKeyMap_Put_Get PrimaryKeyMap_Delete_Get by blast

theorem primary_map_lookup_witness:
  "PrimaryKeyMap_Delete key_a one_key quiet_world = (Inr (Some \<lparr>SegmentID = 1, DocID = 0\<rparr>), \<lparr>entries = []\<rparr>, quiet_world)
    \<and> PrimaryKeyMap_Get key_a \<lparr>entries = []\<rparr> = None"
proof -
  have "PrimaryKeyMap_Delete key_a one_key quiet_world = (Inr (Some \<lparr>SegmentID = 1, DocID = 0\<rparr>), \<lparr>entries = []\<rparr>, quiet_world)"
    by (simp add: PrimaryKeyMap_Delete_def PrimaryKeyMap_Get_def one_key_def quiet_world_def key_ab_valid)
  then show ?thesis using primary_map_lookup [where k = key_a and k' = key_a and m = one_key and w = quiet_world] by metis
qed

section \<open>The delete store\<close>

text \<open>C32: A delete store written to a snapshot and loaded again marks the same documents.\<close>

theorem delete_store_roundtrip:
  assumes "del_storable s" and "calm w" and "free_name name w"
    and "DeleteStore_WriteSnapshot name s w = (r, w')"
  shows "r = None \<and> (\<exists>s'. LoadDeleteStore name w' = (Inr s', w')
    \<and> (\<forall>d. DeleteStore_IsDeleted d s' = DeleteStore_IsDeleted d s))"
  using del_WriteSnapshot_Load [OF assms] del_canonical_IsDeleted by blast

theorem delete_store_roundtrip_witness:
  "\<exists>w' s'. DeleteStore_WriteSnapshot ''del'' \<lparr>deleted = [3, 1]\<rparr> quiet_world = (None, w')
    \<and> LoadDeleteStore ''del'' w' = (Inr s', w') \<and> DeleteStore_IsDeleted 3 s'"
proof -
  obtain r w' where wr: "DeleteStore_WriteSnapshot ''del'' \<lparr>deleted = [3, 1]\<rparr> quiet_world = (r, w')"
    by (cases "DeleteStore_WriteSnapshot ''del'' \<lparr>deleted = [3, 1]\<rparr> quiet_world")
  have free: "free_name ''del'' quiet_world"
    by (simp add: free_name_def quiet_world_def filepath_Dir_def path_Clean_def path_IsAbs_def Let_def)
  have "del_storable \<lparr>deleted = [3, 1]\<rparr>" by (simp add: del_storable_def del_wf_def maxSnapshotPayload_def)
  then show ?thesis
    using delete_store_roundtrip [OF _ quiet_world_calm free wr] wr
    by (auto simp: quiet_world_def DeleteStore_IsDeleted_def)
qed

text \<open>The count of a range is the number of deleted documents in it.\<close>

theorem delete_range_count:
  assumes "del_wf s"
  shows "DeleteStore_RangeCount lo hi s = word_of_nat (card {d. DeleteStore_IsDeleted d s \<and> lo \<le> d \<and> d \<le> hi})"
  by (rule DeleteStore_RangeCount_card [OF assms])

theorem delete_range_count_witness:
  "DeleteStore_RangeCount 2 5 \<lparr>deleted = [3, 1]\<rparr> =
     word_of_nat (card {d. DeleteStore_IsDeleted d \<lparr>deleted = [3, 1]\<rparr> \<and> 2 \<le> d \<and> d \<le> 5})"
  by (rule delete_range_count) (simp add: del_wf_def)

section \<open>Paths and names\<close>

text \<open>C33: A name is accepted as a portable relative path exactly when it has no backslash and
  either all its elements are ordinary (not empty, not dot, not dot-dot) or the whole name is
  dot-dot, the one path out of the collection directory that the check misses.\<close>

theorem portable_paths:
  "validatePortableRelativePath name = None \<longleftrightarrow>
     CHR 0x5C \<notin> set name \<and> (name = ''..'' \<or> list_all ordinary (split_slash name))"
proof
  assume v: "validatePortableRelativePath name = None"
  then have "CHR 0x5C \<notin> set name" by (auto simp: validatePortableRelativePath_def split: if_splits)
  then show "CHR 0x5C \<notin> set name \<and> (name = ''..'' \<or> list_all ordinary (split_slash name))"
    using validate_portable_only_if [OF v] by simp
qed (use validate_portable_if validate_portable_dotdot in blast)

text \<open>A file name parses as a manifest name exactly when it is the name the writer gives to that
  generation, and the generation is not zero.\<close>

theorem manifest_names:
  "parseManifestFileName name = Some g \<longleftrightarrow> name = manifestFileName g \<and> g \<noteq> 0"
  by (rule parseManifestFileName_iff)

section \<open>Segments\<close>

text \<open>C34: A writing segment that is written as an immutable one and opened again gives the same
  immutable segment, with all its documents.\<close>

theorem seal_then_open:
  assumes "ws_wf s" and "calm w" and "WriteSegment_writeImmutable dir name seal s w = (Inr imm, s', w')"
  shows "OpenImmutableSegment dir (imm_metadata imm) w' = (Inr imm, w') \<and> imm_docs imm = ws_docs s
    \<and> ImmutableSegment_ID imm = ws_id s \<and> s' = (if seal then s\<lparr>ws_sealed := True\<rparr> else s)"
  using WriteSegment_writeImmutable_Open [OF assms] WriteSegment_writeImmutable_Inr [OF assms(1,3)] by blast

theorem seal_then_open_witness:
  "\<exists>s' w'. WriteSegment_writeImmutable ''.'' ''seg'' True one_segment quiet_world = (Inr one_immutable, s', w')
    \<and> OpenImmutableSegment ''.'' (imm_metadata one_immutable) w' = (Inr one_immutable, w')"
  using one_segment_seal seal_then_open [OF one_segment_wf quiet_world_calm] by blast

text \<open>Whatever file it reads, opening an immutable segment gives one whose documents are valid,
  have consecutive IDs from the minimum to the maximum of the metadata that was asked for.\<close>

theorem opened_segment_consistent:
  assumes "OpenImmutableSegment dir md w = (Inr s, w')"
  shows "imm_metadata s = md \<and> imm_docs s \<noteq> [] \<and> unat (DocCount md) = length (imm_docs s)
    \<and> unat (MaxDocID md) = unat (MinDocID md) + length (imm_docs s) - 1
    \<and> (\<forall>i < length (imm_docs s). validateStoredDocument (imm_docs s ! i) (MinDocID md + of_nat i) = None)"
proof -
  have wf: "imm_wf s" and md: "imm_metadata s = md" using OpenImmutableSegment_wf [OF assms] by auto
  note f = imm_wf_facts [OF wf, unfolded md]
  have d: "imm_docs s \<noteq> []" "valid_run (MinDocID md) (imm_docs s)" "length (imm_docs s) < 2 ^ 63"
    using wf md by (auto simp: imm_wf_def)
  have "unat (DocCount md) = length (imm_docs s)" using d(3) f(4) by (simp add: len64_def unat_of_nat)
  then show ?thesis using md d(1) f(3) valid_run_nth [OF d(2)] by blast
qed

theorem opened_segment_consistent_witness:
  "\<exists>w'. OpenImmutableSegment ''.'' (imm_metadata one_immutable) w' = (Inr one_immutable, w')
    \<and> unat (DocCount (imm_metadata one_immutable)) = 1"
proof -
  obtain s' w' where "WriteSegment_writeImmutable ''.'' ''seg'' True one_segment quiet_world = (Inr one_immutable, s', w')"
    using one_segment_seal by blast
  then have o: "OpenImmutableSegment ''.'' (imm_metadata one_immutable) w' = (Inr one_immutable, w')"
    by (rule WriteSegment_writeImmutable_Open [OF one_segment_wf quiet_world_calm])
  from opened_segment_consistent [OF o] o show ?thesis by (auto simp: one_immutable_def)
qed

text \<open>An append to a writing segment keeps its invariant; when it succeeds it adds one document
  with the next ID, found under that ID afterwards, within the reserved range, and when it
  fails the segment is as before.\<close>

theorem append_assigns_next_id:
  assumes "ws_wf s" and "WriteSegment_append expected k p s w = (r, s', w')"
  shows "ws_wf s' \<and> (case r of Inl e \<Rightarrow> s' = s
    | Inr d \<Rightarrow> d = \<lparr>doc_DocID = ws_minDocID s + len64 (ws_docs s), doc_PrimaryKey = k, doc_Payload = p\<rparr>
        \<and> ws_docs s' = ws_docs s @ [d] \<and> WriteSegment_Document (doc_DocID d) s' = Some d
        \<and> length (ws_docs s) < unat (ws_maxDocs s) \<and> (\<forall>x. expected = Some x \<longrightarrow> x = doc_DocID d))"
proof (cases r)
  case (Inl e)
  then show ?thesis using WriteSegment_append_error WriteSegment_append_wf [OF assms] assms(2) by simp
next
  case (Inr d)
  note ok = WriteSegment_append_ok [OF assms(2) [unfolded Inr]] and wf = WriteSegment_append_wf [OF assms]
  have "length (ws_docs s) < unat (ws_maxDocs s)"
    using ok(4) ws_wf_lengths(1) [OF assms(1)] by (simp add: word_less_nat_alt)
  then show ?thesis using Inr ok(1,2,6) wf WriteSegment_Document_iff [OF wf, of "doc_DocID d" d] by auto
qed

theorem append_assigns_next_id_witness:
  "case WriteSegment_append None key_b [9] one_segment quiet_world of (r, s', w') \<Rightarrow> ws_wf s'"
  using append_assigns_next_id [OF one_segment_wf] by (auto split: prod.splits)

section \<open>The segment manager\<close>

text \<open>C35: Installing, rotating, adding and removing segments keeps the manager's invariant (segment
  IDs unique, document ranges disjoint, the writing segment's reserved range free); an operation
  that is refused changes nothing, and a removal takes away the segment it returns and nothing else, or reports that
  there is none.\<close>

theorem manager_invariant:
  assumes "mgr_wf m" and "imm_wf s" and "ws_wf ws"
  shows "(\<forall>e m'. SegmentManager_SetWriting ws m = (e, m') \<longrightarrow> mgr_wf m' \<and> (e \<noteq> None \<longrightarrow> m' = m))
    \<and> (\<forall>e m'. SegmentManager_RotateWriting c s ws m = (e, m') \<longrightarrow> mgr_wf m' \<and> (e \<noteq> None \<longrightarrow> m' = m))
    \<and> (\<forall>e m'. SegmentManager_AddImmutable s m = (e, m') \<longrightarrow> mgr_wf m' \<and> (e \<noteq> None \<longrightarrow> m' = m))
    \<and> (\<forall>r m'. SegmentManager_RemoveImmutable i m = (r, m') \<longrightarrow> mgr_wf m' \<and> map_of (mgr_immutable m') i = None
         \<and> (\<forall>j. j \<noteq> i \<longrightarrow> map_of (mgr_immutable m') j = map_of (mgr_immutable m) j) 
         \<and> (case r of Inl e \<Rightarrow> e = Sentinel ErrSegmentNotFound \<and> map_of (mgr_immutable m) i = None \<and> m' = m
            | Inr x \<Rightarrow> map_of (mgr_immutable m) i = Some x \<and> m' = m\<lparr>mgr_immutable := mgr_immutable m'\<rparr>))
    \<and> mgr_wf (snd (SegmentManager_ClearWriting m))"
  using assms(1) SegmentManager_ClearWriting_wf [OF assms(1)]
  by (auto split: if_splits dest!: SegmentManager_SetWriting_ok [OF assms(1,3)] SegmentManager_RotateWriting_ok [OF assms]
      SegmentManager_AddImmutable_ok [OF assms(1,2)] SegmentManager_RemoveImmutable_ok [OF assms(1)])

theorem manager_invariant_witness:
  "\<exists>m'. SegmentManager_AddImmutable one_immutable (NewSegmentManager None None) = (None, m') \<and> mgr_wf m'"
proof -
  have wf: "mgr_wf (NewSegmentManager None None)" by (rule NewSegmentManager_wf) auto
  have "\<exists>m'. SegmentManager_AddImmutable one_immutable (NewSegmentManager None None) = (None, m')"
    by (simp add: SegmentManager_AddImmutable_def checkRangeLocked_def NewSegmentManager_def Let_def)
  then show ?thesis using manager_invariant [OF wf one_immutable_wf one_segment_wf] by blast
qed

text \<open>Looking a document up by its ID finds it exactly when some segment holds it and it is not
  marked deleted.\<close>

theorem document_by_id:
  assumes "mgr_wf m"
  shows "SegmentManager_Document d m = Some x \<longleftrightarrow>
    x \<in> set (mgr_docs m) \<and> doc_DocID x = d \<and> \<not> DeleteStore_IsDeleted d (mgr_deletes m)"
  by (rule SegmentManager_Document_iff [OF assms])

theorem document_by_id_witness:
  "SegmentManager_Document 0 one_manager = Some one_doc \<longleftrightarrow>
    one_doc \<in> set (mgr_docs one_manager) \<and> doc_DocID one_doc = 0 \<and> \<not> DeleteStore_IsDeleted 0 (mgr_deletes one_manager)"
  by (rule document_by_id) (use one_manager_ok in \<open>simp add: mgr_ok_def\<close>)

text \<open>C36: The live documents are listed in ascending order of ID without repetition, and are exactly
  the documents a lookup by primary key finds.\<close>

theorem live_documents_exact:
  assumes "mgr_ok m" and "polls w = None"
  shows "\<exists>xs. SegmentManager_LiveDocuments m w = (Inr xs, w)
    \<and> sorted_wrt (\<lambda>x y. doc_DocID x < doc_DocID y) xs
    \<and> (\<forall>k x. SegmentManager_DocumentByPrimaryKey k m = Some x \<longleftrightarrow> x \<in> set xs \<and> doc_PrimaryKey x = k)"
  using LiveDocuments_exact mgr_okD [OF assms(1)] assms(2) by blast

theorem live_documents_exact_witness:
  "\<exists>xs. SegmentManager_LiveDocuments one_manager quiet_world = (Inr xs, quiet_world)
    \<and> (SegmentManager_DocumentByPrimaryKey key_a one_manager = Some one_doc \<longleftrightarrow> one_doc \<in> set xs \<and> doc_PrimaryKey one_doc = key_a)"
proof -
  have "polls quiet_world = None" by (simp add: quiet_world_def)
  from live_documents_exact [OF one_manager_ok this] show ?thesis by blast
qed

text \<open>C37: A fetch answers every key in order: it polls the context once per key, so that with a context that is
  cancelled after so many polls exactly the keys before have their documents, the others the cancellation
  error, which the call returns too; a context that is not cancelled gets every key answered.\<close>

theorem fetch_answers_in_order:
  "SegmentManager_Fetch keys m w =
    (let n = (case polls w of None \<Rightarrow> length keys | Some k \<Rightarrow> min k (length keys)) in
     (map (\<lambda>k. \<lparr>fr_PrimaryKey = k, fr_Document = SegmentManager_DocumentByPrimaryKey k m, fr_Err = None\<rparr>) (take n keys)
      @ map (\<lambda>k. \<lparr>fr_PrimaryKey = k, fr_Document = None, fr_Err = Some (Sentinel ContextCanceled)\<rparr>) (drop n keys),
      if n < length keys then Some (Sentinel ContextCanceled) else None,
      w\<lparr>polls := map_option (\<lambda>k. k - n) (polls w)\<rparr>))"
  by (rule Fetch_exact)

text \<open>C38: The reported memory is the sum over the delete marks and all documents, saturated at the
  largest 64-bit value instead of wrapping around.\<close>

theorem storage_stats_saturate:
  assumes "list_all (\<lambda>d. doc_memory d < 2 ^ 64) (mgr_docs m)" and "length (deleted (mgr_deletes m)) < 2 ^ 64"
  shows "unat (MemoryUsageBytes (SegmentManager_StorageStats m)) =
    min (8 * length (deleted (mgr_deletes m)) + sum_list (map doc_memory (mgr_docs m))) (2 ^ 64 - 1)"
  by (rule StorageStats_memory [OF assms])

theorem storage_stats_saturate_witness:
  "unat (MemoryUsageBytes (SegmentManager_StorageStats one_manager)) = 28"
proof -
  have "mgr_docs one_manager = [one_doc]" "deleted (mgr_deletes one_manager) = []"
    by (simp_all add: mgr_docs_def writing_docs_def one_manager_def first_manager_def NewSegmentManager_def NewDeleteStore_def
        one_segment_def)
  then show ?thesis
    using storage_stats_saturate [of one_manager]
    by (simp add: doc_memory_def one_doc_def key_a_def segmentRecordHeaderSize_def)
qed

section \<open>Selection of search results\<close>

text \<open>C39: Merging the results of several segments returns the best \<open>k\<close> of all of them, best first:
  none left out is better than one returned.\<close>

theorem merge_returns_best:
  assumes "\<And>x. x \<in> set (concat batches) \<Longrightarrow> ordered_result x" and "0 < k"
  shows "best_k m (nat k) (mset (concat batches)) (mset (MergeSearchResults m k batches))
    \<and> sorted_wrt (\<lambda>a b. \<not> resultBetter m b a) (MergeSearchResults m k batches)"
  using MergeSearchResults_best [OF assms] by blast

theorem merge_returns_best_witness:
  "best_k MetricL2 1 (mset [\<lparr>res_Key = 1, res_Score = 5\<rparr>, \<lparr>res_Key = 2, res_Score = 4\<rparr>])
     (mset (MergeSearchResults MetricL2 1 [[\<lparr>res_Key = 1, res_Score = 5\<rparr>], [\<lparr>res_Key = 2, res_Score = 4\<rparr>]]))"
  using merge_returns_best [of "[[\<lparr>res_Key = 1, res_Score = 5\<rparr>], [\<lparr>res_Key = 2, res_Score = 4\<rparr>]]" 1 MetricL2]
  by (force simp: ordered_result_def f32_nan_def f32_magnitude_def)

text \<open>Selecting the best \<open>k\<close> of every segment first and merging those gives the same list as
  selecting from all results at once.\<close>

theorem merge_per_segment:
  assumes "distinct (map res_Key (concat batches))" and "0 < k"
    and "\<And>x. x \<in> set (concat batches) \<Longrightarrow> ordered_result x"
  shows "MergeSearchResults m k (map (\<lambda>b. MergeSearchResults m k [b]) batches) = MergeSearchResults m k batches"
  by (rule merge_of_merges [OF assms])

theorem merge_per_segment_witness:
  "MergeSearchResults MetricIP 1 [MergeSearchResults MetricIP 1 [[\<lparr>res_Key = 1, res_Score = 5\<rparr>]],
      MergeSearchResults MetricIP 1 [[\<lparr>res_Key = 2, res_Score = 4\<rparr>]]]
   = MergeSearchResults MetricIP 1 [[\<lparr>res_Key = 1, res_Score = 5\<rparr>], [\<lparr>res_Key = 2, res_Score = 4\<rparr>]]"
  using merge_per_segment [of "[[\<lparr>res_Key = 1, res_Score = 5\<rparr>], [\<lparr>res_Key = 2, res_Score = 4\<rparr>]]" 1 MetricIP]
  by (force simp: ordered_result_def f32_nan_def f32_magnitude_def)

text \<open>C40: The exact search over candidates is the merge of one batch: the candidates the filter and
  the radius let through, scored in order; clamping \<open>k\<close> to the number of candidates changes nothing.\<close>

theorem search_is_merge:
  assumes "polls w = None" and "compute m q q = Inr s" and "scored compute m q options cs = Inr rs"
    and "if positive then SearchOptions_Validate options = None else 0 \<le> so_TopK options"
  shows "topKCandidatesWithOptions compute m q options cs positive w = (Inr (MergeSearchResults m (so_TopK options) [rs]), w)"
  by (rule topKCandidatesWithOptions_merge [OF assms])

theorem search_is_merge_witness:
  "topKCandidatesWithOptions (\<lambda>m x y. Inr (if x = y then 0 else 7)) MetricL2 (1 :: nat) \<lparr>so_TopK = 2, so_Radius = 0, so_Filter = None\<rparr>
     [\<lparr>cand_Key = 5, cand_Vector = 1\<rparr>] True quiet_world
   = (Inr (MergeSearchResults MetricL2 2 [[\<lparr>res_Key = 5, res_Score = 0\<rparr>]]), quiet_world)"
  using search_is_merge [of quiet_world "\<lambda>m x y. Inr (if x = y then 0 else 7)" MetricL2 1 0
      "\<lparr>so_TopK = 2, so_Radius = 0, so_Filter = None\<rparr>" "[\<lparr>cand_Key = 5, cand_Vector = (1 :: nat)\<rparr>]"
      "[\<lparr>res_Key = 5, res_Score = 0\<rparr>]" True]
  by (simp add: quiet_world_def SearchOptions_Validate_def f32_lt_def f32_nan_def f32_inf_def f32_magnitude_def
      scoreWithinRadius_def f32_eq_def)

end
